(* ===== verification/Prelude.thy ===== *)
theory Prelude
  imports Main "HOL-Library.Word"
begin

text \<open>
  Shared vocabulary of the development: the exceptions the modelled modules throw, results
  that may be an exception, stateful programs whose state survives an exception (as C++ objects
  do), bytes and the little-endian images of native integers, and the collections of
  rewrite rules the component theories extend.
\<close>

named_theorems prog_simps \<open>unfolding rules of the exception and state combinators\<close>
named_theorems byte_simps \<open>rules for the byte images of integers\<close>
named_theorems inv_intros \<open>preservation of the component invariants\<close>

section \<open>Exceptions and fallible results\<close>

text \<open>
  One constructor per exception type the modelled code declares with
  \<open>DECLARE_EXCEPTION_TYPE\<close> (the module is given in the comment).  \<open>AssertFailed\<close> is a failed
  \<open>Assert\<close>, which aborts the process; \<open>UndefinedBehaviour\<close> marks an access the C++ standard
  leaves undefined (reading past the end of a container), so that a theorem that excludes it
  says that the access does not happen.
\<close>

datatype dao_class = DaoWidget | DaoProperty | DaoPlugin | DaoFeature | DaoGlobal | DaoAutoSave

datatype exn =
    AssertFailed
  | UndefinedBehaviour
  | BadAlloc               \<comment> \<open>std::bad_alloc\<close>
  | OutOfData              \<comment> \<open>BinaryQueue\<close>
  | ParseFailed            \<comment> \<open>RPCFunction\<close>
  | AlreadyOpened | NotOpened  \<comment> \<open>WaitableInputOutputExecutionContextSupport\<close>
  | AsyncCallFailed | PingFailed  \<comment> \<open>AbstractRPCConnection\<close>
  | OpenFailed | SetNonBlockingFailed | BindFailed | ListenFailed | AcceptFailed
  | ConnectFailed | CloseFailed | GetPeerNameFailed | ReadFailed | WriteFailed
  | ConnectionBroken       \<comment> \<open>AbstractSocket\<close>
  | InvalidAddress         \<comment> \<open>Address\<close>
  | InternalError          \<comment> \<open>CommonException\<close>
  | WaitFailed             \<comment> \<open>waitable handles\<close>
  | InvalidASCIICharacter  \<comment> \<open>StringException\<close>
  | CreateFailed           \<comment> \<open>UnixSocket\<close>
  | RPCOpenFailed          \<comment> \<open>GenericSocketRPCClient, GenericSocketRPCServer\<close>
  | Aborted                \<comment> \<open>\<open>abort()\<close> of \<open>UNHANDLED_EXCEPTION_HANDLER_END\<close>\<close>
  | Deadlock               \<comment> \<open>a thread waits for a lock it holds itself\<close>
  | ReadLockFailed | WriteLockFailed  \<comment> \<open>ReadWriteMutex\<close>
  | ResetFailed | SignalFailed  \<comment> \<open>WaitableEvent\<close>
  | RunFailed | QuitFailed | UnmanagedThread  \<comment> \<open>Thread\<close>
  | SyntaxError | DbConnectionBroken | SqlInternalError | InvalidColumn  \<comment> \<open>SqlConnection\<close>
  | NullReference          \<comment> \<open>ThreadLocalVariable, Optional\<close>
  | SelectReuse | RowFieldNotInitialized | EmptyUpdateStatement  \<comment> \<open>ORM\<close>
  | DatabaseError dao_class  \<comment> \<open>the data access objects\<close>
  | ReadOnlyProperty       \<comment> \<open>PropertyDAOReadOnly\<close>
  | WidgetNotExist | GUIDisNull  \<comment> \<open>WidgetDAOReadOnly\<close>
  | PluginNotExist | PluginInstallationNotCompleted  \<comment> \<open>PluginDAOReadOnly\<close>
  | FeatureNotExist        \<comment> \<open>FeatureDAOReadOnly\<close>
  | IconvInitErrorUTF8ToUTF32 | IconvConvertErrorUTF8ToUTF32
  | IconvInitErrorUTF32ToUTF8 | IconvConvertErrorUTF32ToUTF8  \<comment> \<open>StringException\<close>
  | Waits                  \<comment> \<open>the call still waits for an answer\<close>
  | UserException nat      \<comment> \<open>an exception of the client's own\<close>

text \<open>The outcomes no \<open>Catch\<close> sees.\<close>

definition terminal :: "exn \<Rightarrow> bool" where
  "terminal e \<longleftrightarrow> e \<in> {AssertFailed, UndefinedBehaviour, Aborted, Deadlock, Waits}"

type_synonym 'a res = "exn + 'a"

definition bind_res :: "'a res \<Rightarrow> ('a \<Rightarrow> 'b res) \<Rightarrow> 'b res" where
  "bind_res m f = (case m of Inl e \<Rightarrow> Inl e | Inr x \<Rightarrow> f x)"

lemma bind_res_simps [simp]:
  "bind_res (Inl e) f = Inl e"
  "bind_res (Inr x) f = f x"
  by (simp_all add: bind_res_def)

lemma bind_res_eq_Inr:
  "bind_res m f = Inr y \<longleftrightarrow> (\<exists>x. m = Inr x \<and> f x = Inr y)"
  by (cases m) auto

section \<open>Programs over a mutable state\<close>

text \<open>
  A program takes the state and gives a result and the state it leaves, whether it returned or
  threw: an exception does not roll the members of a C++ object back.
\<close>

type_synonym ('s, 'a) prog = "'s \<Rightarrow> 'a res \<times> 's"

definition ret :: "'a \<Rightarrow> ('s, 'a) prog" where
  "ret x s = (Inr x, s)"

definition raise :: "exn \<Rightarrow> ('s, 'a) prog" where
  "raise e s = (Inl e, s)"

definition bindP :: "('s, 'a) prog \<Rightarrow> ('a \<Rightarrow> ('s, 'b) prog) \<Rightarrow> ('s, 'b) prog" where
  "bindP m f s = (case m s of (Inl e, t) \<Rightarrow> (Inl e, t) | (Inr x, t) \<Rightarrow> f x t)"

definition thenP :: "('s, 'a) prog \<Rightarrow> ('s, 'b) prog \<Rightarrow> ('s, 'b) prog" where
  "thenP m k = bindP m (\<lambda>_. k)"

definition catchP :: "('s, 'a) prog \<Rightarrow> (exn \<Rightarrow> bool) \<Rightarrow> (exn \<Rightarrow> ('s, 'a) prog) \<Rightarrow> ('s, 'a) prog" where
  "catchP m p h s =
     (case m s of (Inl e, t) \<Rightarrow> (if p e then h e t else (Inl e, t)) | (Inr x, t) \<Rightarrow> (Inr x, t))"

definition modifyP :: "('s \<Rightarrow> 's) \<Rightarrow> ('s, unit) prog" where
  "modifyP f s = (Inr (), f s)"

definition assertP :: "('s \<Rightarrow> bool) \<Rightarrow> ('s, unit) prog" where
  "assertP p s = (if p s then (Inr (), s) else (Inl AssertFailed, s))"

text \<open>\<open>FOREACH\<close> over a container, given as the list of its elements in iteration order.\<close>

primrec forP :: "('a \<Rightarrow> ('s, unit) prog) \<Rightarrow> 'a list \<Rightarrow> ('s, unit) prog" where
  "forP f [] = ret ()"
| "forP f (x # xs) = thenP (f x) (forP f xs)"

primrec mapP :: "('a \<Rightarrow> ('s, 'b) prog) \<Rightarrow> 'a list \<Rightarrow> ('s, 'b list) prog" where
  "mapP f [] = ret []"
| "mapP f (x # xs) = bindP (f x) (\<lambda>y. bindP (mapP f xs) (\<lambda>ys. ret (y # ys)))"

text \<open>A call that leaves its object as it was when it throws.\<close>

definition lift_res :: "('s \<Rightarrow> ('a \<times> 's) res) \<Rightarrow> ('s, 'a) prog" where
  "lift_res f s = (case f s of Inl e \<Rightarrow> (Inl e, s) | Inr (x, t) \<Rightarrow> (Inr x, t))"

lemmas prog_defs = ret_def raise_def bindP_def thenP_def catchP_def modifyP_def assertP_def

declare prog_defs [prog_simps]

text \<open>
  \<open>keeps I m\<close>: the program keeps \<open>I\<close> on every exit, returned or thrown.  One rule per
  combinator, collected in \<open>inv_intros\<close>.
\<close>

definition keeps :: "('s \<Rightarrow> bool) \<Rightarrow> ('s, 'a) prog \<Rightarrow> bool" where
  "keeps I m \<longleftrightarrow> (\<forall>s. I s \<longrightarrow> I (snd (m s)))"

lemma keepsI [intro?]: "(\<And>s. I s \<Longrightarrow> I (snd (m s))) \<Longrightarrow> keeps I m"
  by (simp add: keeps_def)

lemma keepsD: "keeps I m \<Longrightarrow> I s \<Longrightarrow> I (snd (m s))"
  by (simp add: keeps_def)

lemma keeps_pair: "keeps I m \<Longrightarrow> I s \<Longrightarrow> m s = (r, t) \<Longrightarrow> I t"
  using keepsD by fastforce

lemma keeps_ret [inv_intros]: "keeps I (ret x)"
  by (simp add: keeps_def ret_def)

lemma keeps_raise [inv_intros]: "keeps I (raise e)"
  by (simp add: keeps_def raise_def)

lemma keeps_assert [inv_intros]: "keeps I (assertP p)"
  by (simp add: keeps_def assertP_def)

lemma keeps_modify [inv_intros]: "(\<And>s. I s \<Longrightarrow> I (f s)) \<Longrightarrow> keeps I (modifyP f)"
  by (simp add: keeps_def modifyP_def)

lemma keeps_bind [inv_intros]:
  assumes "keeps I m" and "\<And>x. keeps I (f x)"
  shows "keeps I (bindP m f)"
proof
  fix s assume "I s"
  obtain r t where rt: "m s = (r, t)" by (cases "m s")
  with keeps_pair [OF assms(1) \<open>I s\<close>] have "I t" by simp
  with rt assms(2) show "I (snd (bindP m f s))"
    by (cases r) (auto simp: bindP_def keeps_def)
qed

lemma keeps_then [inv_intros]: "keeps I m \<Longrightarrow> keeps I k \<Longrightarrow> keeps I (thenP m k)"
  unfolding thenP_def by (rule keeps_bind)

lemma keeps_catch [inv_intros]:
  assumes "keeps I m" and "\<And>e. keeps I (h e)"
  shows "keeps I (catchP m p h)"
proof
  fix s assume "I s"
  obtain r t where rt: "m s = (r, t)" by (cases "m s")
  with keeps_pair [OF assms(1) \<open>I s\<close>] have "I t" by simp
  with rt assms(2) show "I (snd (catchP m p h s))"
    by (cases r) (auto simp: catchP_def keeps_def)
qed

lemma keeps_for [inv_intros]: "(\<And>x. keeps I (f x)) \<Longrightarrow> keeps I (forP f xs)"
  by (induction xs) (auto intro: keeps_ret keeps_then)

lemma keeps_map [inv_intros]: "(\<And>x. keeps I (f x)) \<Longrightarrow> keeps I (mapP f xs)"
  by (induction xs) (auto intro!: keeps_ret keeps_bind)

lemma keeps_if [inv_intros]: "keeps I m \<Longrightarrow> keeps I k \<Longrightarrow> keeps I (\<lambda>s. if c s then m s else k s)"
  by (simp add: keeps_def)

lemma keeps_dep: "(\<And>x. keeps I (f x)) \<Longrightarrow> keeps I (\<lambda>s. f (g s) s)"
  by (simp add: keeps_def)

text \<open>A sequence of calls, each with its outcome.\<close>

fun run_ops :: "('op \<Rightarrow> 's \<Rightarrow> 'o \<times> 's) \<Rightarrow> 'op list \<Rightarrow> 's \<Rightarrow> 'o list \<times> 's" where
  "run_ops stp [] s = ([], s)"
| "run_ops stp (op # ops) s =
     (case stp op s of (o1, t) \<Rightarrow> (case run_ops stp ops t of (os, u) \<Rightarrow> (o1 # os, u)))"

section \<open>Bytes and native integers\<close>

type_synonym byte = "8 word"

text \<open>
  The code moves integers as their memory image.  The targets (32-bit ARM and x86) are
  little-endian; \<open>le_encode k n\<close> is the image of the \<open>k\<close>-byte unsigned integer \<open>n\<close>, which
  drops what does not fit as the C++ conversion does.
\<close>

primrec le_encode :: "nat \<Rightarrow> nat \<Rightarrow> byte list" where
  "le_encode 0 n = []"
| "le_encode (Suc k) n = word_of_nat (n mod 256) # le_encode k (n div 256)"

primrec le_decode :: "byte list \<Rightarrow> nat" where
  "le_decode [] = 0"
| "le_decode (b # bs) = unat b + 256 * le_decode bs"

lemma length_le_encode [simp, byte_simps]: "length (le_encode k n) = k"
  by (induction k arbitrary: n) auto

lemma unat_byte_of_mod [byte_simps]: "unat (word_of_nat (n mod 256) :: byte) = n mod 256"
  by (simp add: unat_of_nat take_bit_nat_eq_self_iff)

lemma le_decode_encode [byte_simps]: "le_decode (le_encode k n) = n mod 256 ^ k"
proof (induction k arbitrary: n)
  case 0
  then show ?case by simp
next
  case (Suc k)
  have "n mod (256 * 256 ^ k) = 256 * (n div 256 mod 256 ^ k) + n mod 256"
    by (rule mod_mult2_eq)
  then show ?case using Suc by (simp add: unat_byte_of_mod)
qed

lemma le_decode_encode_small: "n < 256 ^ k \<Longrightarrow> le_decode (le_encode k n) = n"
  by (simp add: le_decode_encode)

lemma unat_byte_less: "unat (b :: byte) < 256"
proof -
  have "(unat b :: nat) < 2 ^ LENGTH(8)" by (rule unsigned_less)
  then show ?thesis by simp
qed

lemma le_decode_bound: "le_decode bs < 256 ^ length bs"
proof (induction bs)
  case Nil
  then show ?case by simp
next
  case (Cons b bs)
  have b: "unat b < 256" by (rule unat_byte_less)
  have "256 * Suc (le_decode bs) \<le> 256 * 256 ^ length bs"
    using Cons by (intro mult_le_mono2) simp
  then have "unat b + 256 * le_decode bs < 256 * 256 ^ length bs"
    using b by simp
  then show ?case by simp
qed

lemma le_encode_decode [byte_simps]: "le_encode (length bs) (le_decode bs) = bs"
proof (induction bs)
  case Nil
  then show ?case by simp
next
  case (Cons b bs)
  have b: "unat b < 256" by (rule unat_byte_less)
  then have "(unat b + 256 * le_decode bs) mod 256 = unat b" by simp
  moreover have "(unat b + 256 * le_decode bs) div 256 = le_decode bs"
    using b by simp
  ultimately show ?case using Cons by simp
qed

section \<open>Lists\<close>

lemma take_drop_append_eq [simp]:
  "take (length xs) (xs @ ys) = xs" "drop (length xs) (xs @ ys) = ys"
  by simp_all

lemma sum_list_filter_le: "sum_list (map f (filter P xs)) \<le> sum_list (map (f :: 'a \<Rightarrow> nat) xs)"
  by (induction xs) auto

lemma filter_all_True: "(\<And>x. x \<in> set xs \<Longrightarrow> P x) \<Longrightarrow> filter P xs = xs"
  by (induction xs) auto

text \<open>Erasing the first element that satisfies a test: \<open>list::erase\<close> at a found iterator.\<close>

primrec erase_first :: "('a \<Rightarrow> bool) \<Rightarrow> 'a list \<Rightarrow> 'a list" where
  "erase_first p [] = []"
| "erase_first p (x # xs) = (if p x then xs else x # erase_first p xs)"

lemma erase_first_append:
  "erase_first p (xs @ ys) = (if \<exists>x \<in> set xs. p x then erase_first p xs @ ys else xs @ erase_first p ys)"
  by (induction xs) auto

lemma set_erase_first_subset: "set (erase_first p xs) \<subseteq> set xs"
  by (induction xs) auto

lemma distinct_erase_first: "distinct xs \<Longrightarrow> distinct (erase_first p xs)"
  using set_erase_first_subset by (induction xs) fastforce+

lemma set_erase_first_eq:
  "distinct xs \<Longrightarrow> set (erase_first (\<lambda>y. y = x) xs) = set xs - {x}"
  by (induction xs) auto

lemma length_filter_erase_first:
  "x \<in> set xs \<Longrightarrow>
   length (filter q (erase_first (\<lambda>y. y = x) xs)) = length (filter q xs) - (if q x then 1 else 0)"
proof (induction xs)
  case Nil
  then show ?case by simp
next
  case (Cons a xs)
  show ?case
  proof (cases "a = x")
    case True
    then show ?thesis by simp
  next
    case False
    with Cons have mem: "x \<in> set xs" by auto
    have "q x \<Longrightarrow> 0 < length (filter q xs)"
      using mem by (auto simp: filter_empty_conv)
    with False Cons.IH [OF mem] show ?thesis
      by (cases "q a"; cases "q x") auto
  qed
qed

end
