(* ===== verification/StreamInterfaces.thy ===== *)
theory StreamInterfaces
  imports Prelude
begin

text \<open>
  The interfaces between the byte containers and their clients.

  \<open>byte_fifo\<close> is what RPC and the input-output support need of a \<open>BinaryQueue\<close>: bytes
  come out in the order they went in, and pulling too many throws and changes nothing.
  \<open>istream\<close> is the virtual class \<open>DPL::IStream\<close> of core/serialization.h.  \<open>codec\<close> is the
  contract of a \<open>Serialize\<close>/\<open>Deserialize\<close> overload pair: a value read back from the
  bytes it was written as is the value, and the stream stands right after it.
\<close>

section \<open>Byte queues\<close>

locale byte_fifo =
  fixes new :: 'q
    and append :: "byte list \<Rightarrow> 'q \<Rightarrow> 'q"
    and pull :: "nat \<Rightarrow> 'q \<Rightarrow> (byte list \<times> 'q) res"
    and size :: "'q \<Rightarrow> nat"
    and bytes :: "'q \<Rightarrow> byte list"
    and ok :: "'q \<Rightarrow> bool"
  assumes ok_new: "ok new" and bytes_new: "bytes new = []"
    and ok_append: "ok q \<Longrightarrow> ok (append d q)"
    and bytes_append: "ok q \<Longrightarrow> bytes (append d q) = bytes q @ d"
    and size_bytes: "ok q \<Longrightarrow> size q = length (bytes q)"
    and pull_ok: "ok q \<Longrightarrow> n \<le> length (bytes q) \<Longrightarrow>
          \<exists>q'. pull n q = Inr (take n (bytes q), q') \<and> ok q' \<and> bytes q' = drop n (bytes q)"
    and pull_short: "ok q \<Longrightarrow> length (bytes q) < n \<Longrightarrow> pull n q = Inl OutOfData"
begin

lemma pull_prefix:
  assumes "ok q" and "bytes q = d @ r"
  obtains q' where "pull (length d) q = Inr (d, q')" and "ok q'" and "bytes q' = r"
  using pull_ok [OF assms(1), of "length d"] assms(2) by auto

lemma pull_Inr:
  assumes "ok q" and "pull n q = Inr (d, q')"
  shows "length d = n \<and> bytes q = d @ bytes q' \<and> ok q'"
proof (cases "n \<le> length (bytes q)")
  case True
  with pull_ok [OF assms(1) True] assms(2) show ?thesis by auto
next
  case False
  with pull_short [OF assms(1), of n] assms(2) show ?thesis by simp
qed

lemma pull_Inl: "ok q \<Longrightarrow> pull n q = Inl e \<Longrightarrow> e = OutOfData \<and> length (bytes q) < n"
  using pull_ok [of q n] pull_short [of q n] by (cases "n \<le> length (bytes q)") auto

end

section \<open>Serialization streams\<close>

locale istream =
  fixes rd :: "nat \<Rightarrow> ('s, byte list) prog"
    and wr :: "byte list \<Rightarrow> 's \<Rightarrow> 's"
    and contents :: "'s \<Rightarrow> byte list"
    and good :: "'s \<Rightarrow> bool"
  assumes good_wr: "good s \<Longrightarrow> good (wr d s)"
    and contents_wr: "good s \<Longrightarrow> contents (wr d s) = contents s @ d"
    and rd_ok: "good s \<Longrightarrow> n \<le> length (contents s) \<Longrightarrow>
          \<exists>t. rd n s = (Inr (take n (contents s)), t) \<and> good t \<and> contents t = drop n (contents s)"
    and rd_short: "good s \<Longrightarrow> length (contents s) < n \<Longrightarrow> rd n s = (Inl OutOfData, s)"
begin

lemma rd_prefix:
  assumes "good s" and "contents s = d @ r"
  obtains t where "rd (length d) s = (Inr d, t)" and "good t" and "contents t = r"
  using rd_ok [OF assms(1), of "length d"] assms(2) by auto

end

sublocale byte_fifo < istream "\<lambda>n. lift_res (pull n)" append bytes ok
proof unfold_locales
  fix s n
  assume "ok s" and "n \<le> length (bytes s)"
  then show "\<exists>t. lift_res (pull n) s = (Inr (take n (bytes s)), t) \<and> ok t \<and> bytes t = drop n (bytes s)"
    using pull_ok [of s n] by (auto simp: lift_res_def)
qed (auto simp: ok_append bytes_append pull_short lift_res_def)

locale codec =
  fixes ser :: "'x \<Rightarrow> 's \<Rightarrow> 's"
    and des :: "('s, 'x) prog"
    and enc :: "'x \<Rightarrow> byte list"
    and valid :: "'x \<Rightarrow> bool"
    and contents :: "'s \<Rightarrow> byte list"
    and good :: "'s \<Rightarrow> bool"
  assumes ser_enc: "good s \<Longrightarrow> valid x \<Longrightarrow> good (ser x s) \<and> contents (ser x s) = contents s @ enc x"
    and des_enc: "good s \<Longrightarrow> valid x \<Longrightarrow> contents s = enc x @ r \<Longrightarrow>
          \<exists>t. des s = (Inr x, t) \<and> good t \<and> contents t = r"
begin

lemma des_obtain:
  assumes "good s" and "valid x" and "contents s = enc x @ r"
  obtains t where "des s = (Inr x, t)" and "good t" and "contents t = r"
  using des_enc [OF assms] by blast

text \<open>Writing to an empty stream and reading back.\<close>

lemma roundtrip:
  assumes "good s" and "contents s = []" and "valid x"
  shows "\<exists>t. des (ser x s) = (Inr x, t) \<and> good t \<and> contents t = []"
  using ser_enc [OF assms(1,3)] des_enc [of "ser x s" x "[]"] assms by auto

lemma fold_ser_enc:
  "good s \<Longrightarrow> list_all valid xs \<Longrightarrow>
     good (fold ser xs s) \<and> contents (fold ser xs s) = contents s @ concat (map enc xs)"
proof (induction xs arbitrary: s)
  case Nil
  then show ?case by simp
next
  case (Cons x xs)
  then have "good (ser x s)" "contents (ser x s) = contents s @ enc x"
    using ser_enc by auto
  with Cons show ?case by auto
qed

end

end
