(* ===== verification/BinaryQueue.thy ===== *)
theory BinaryQueue
  imports StreamInterfaces
begin

text \<open>
  \<open>DPL::BinaryQueue\<close> (modules/core/src/binary_queue.cpp): a byte queue held as a list of buckets.
  A bucket keeps the whole buffer it was given, a read position in it and the number of bytes
  left.  Addresses are values here: \<open>bk_buffer\<close> is the memory the bucket owns and \<open>bk_ptr\<close> the
  offset of \<open>ptr\<close> in it.  \<open>size_t\<close> is \<open>nat\<close>: \<open>m_size\<close> counts bytes that are in memory.
  Allocation succeeds here.
\<close>

section \<open>State\<close>

datatype deleter = BufferDeleterFree | UserDeleter nat

record bucket =
  bk_buffer :: "byte list"
  bk_ptr :: nat
  bk_size :: nat
  bk_left :: nat
  bk_deleter :: deleter
  bk_param :: nat

record bqueue =
  bq_buckets :: "bucket list"
  bq_size :: nat

definition mk_bucket :: "byte list \<Rightarrow> deleter \<Rightarrow> nat \<Rightarrow> bucket" where
  "mk_bucket data del param =
     \<lparr>bk_buffer = data, bk_ptr = 0, bk_size = length data, bk_left = length data,
      bk_deleter = del, bk_param = param\<rparr>"

definition bq_new :: bqueue where
  "bq_new = \<lparr>bq_buckets = [], bq_size = 0\<rparr>"

section \<open>Operations\<close>

definition bq_append_unmanaged :: "byte list \<Rightarrow> deleter \<Rightarrow> nat \<Rightarrow> bqueue \<Rightarrow> bqueue" where
  "bq_append_unmanaged data del param q =
     (if length data = 0 then q
      else \<lparr>bq_buckets = bq_buckets q @ [mk_bucket data del param],
            bq_size = bq_size q + length data\<rparr>)"

definition bq_append_copy :: "byte list \<Rightarrow> bqueue \<Rightarrow> bqueue" where
  "bq_append_copy data q = bq_append_unmanaged data BufferDeleterFree 0 q"

definition bq_Size :: "bqueue \<Rightarrow> nat" where
  "bq_Size q = bq_size q"

definition bq_Empty :: "bqueue \<Rightarrow> bool" where
  "bq_Empty q \<longleftrightarrow> bq_size q = 0"

definition bq_clear :: "bqueue \<Rightarrow> bqueue" where
  "bq_clear q = \<lparr>bq_buckets = [], bq_size = 0\<rparr>"

text \<open>
  The loop of \<open>Consume\<close>, on (bytesLeft, m_buckets, m_size).  Reading \<open>front()\<close> of an empty
  list is undefined behaviour.
\<close>

function bq_consume_loop :: "nat \<Rightarrow> bucket list \<Rightarrow> nat \<Rightarrow> (bucket list \<times> nat) res" where
  "bq_consume_loop n bs sz =
     (if n = 0 then Inr (bs, sz)
      else (case bs of
              [] \<Rightarrow> Inl UndefinedBehaviour
            | b # rest \<Rightarrow>
                (let count = min n (bk_left b);
                     b' = b\<lparr>bk_ptr := bk_ptr b + count, bk_left := bk_left b - count\<rparr>
                 in if bk_left b' = 0 then bq_consume_loop (n - count) rest (sz - count)
                    else bq_consume_loop (n - count) (b' # rest) (sz - count))))"
  by pat_completeness auto
termination
  by (relation "measure (\<lambda>(n, bs, sz). n + length bs)") (auto simp: min_def split: if_splits)

declare bq_consume_loop.simps [simp del]

definition bq_consume :: "nat \<Rightarrow> bqueue \<Rightarrow> bqueue res" where
  "bq_consume n q =
     (if n > bq_size q then Inl OutOfData
      else bind_res (bq_consume_loop n (bq_buckets q) (bq_size q))
             (\<lambda>(bs, sz). Inr \<lparr>bq_buckets = bs, bq_size = sz\<rparr>))"

fun bq_flatten_loop :: "nat \<Rightarrow> bucket list \<Rightarrow> byte list res" where
  "bq_flatten_loop n [] = (if n = 0 then Inr [] else Inl UndefinedBehaviour)"
| "bq_flatten_loop n (b # rest) =
     (if n = 0 then Inr []
      else (let count = min n (bk_left b)
            in bind_res (bq_flatten_loop (n - count) rest)
                 (\<lambda>out. Inr (take count (drop (bk_ptr b) (bk_buffer b)) @ out))))"

definition bq_flatten :: "nat \<Rightarrow> bqueue \<Rightarrow> byte list res" where
  "bq_flatten n q =
     (if n = 0 then Inr []
      else if n > bq_size q then Inl OutOfData
      else if bq_buckets q = [] then Inl AssertFailed
      else bq_flatten_loop n (bq_buckets q))"

definition bq_flatten_consume :: "nat \<Rightarrow> bqueue \<Rightarrow> (byte list \<times> bqueue) res" where
  "bq_flatten_consume n q =
     bind_res (bq_flatten n q) (\<lambda>bytes. bind_res (bq_consume n q) (\<lambda>q'. Inr (bytes, q')))"

text \<open>\<open>AppendCopyFrom\<close> flattens the other queue into one bucket.\<close>

definition bq_append_copy_from :: "bqueue \<Rightarrow> bqueue \<Rightarrow> bqueue res" where
  "bq_append_copy_from other q =
     bind_res (bq_flatten (bq_size other) other)
       (\<lambda>bytes. Inr (bq_append_unmanaged bytes BufferDeleterFree 0 q))"

text \<open>\<open>AppendMoveFrom\<close> gives this queue and the emptied other one.\<close>

definition bq_append_move_from :: "bqueue \<Rightarrow> bqueue \<Rightarrow> bqueue \<times> bqueue" where
  "bq_append_move_from other q =
     (\<lparr>bq_buckets = bq_buckets q @ bq_buckets other, bq_size = bq_size q + bq_size other\<rparr>,
      \<lparr>bq_buckets = [], bq_size = 0\<rparr>)"

definition bq_append_copy_to :: "bqueue \<Rightarrow> bqueue \<Rightarrow> bqueue res" where
  "bq_append_copy_to q other = bq_append_copy_from q other"

definition bq_append_move_to :: "bqueue \<Rightarrow> bqueue \<Rightarrow> bqueue \<times> bqueue" where
  "bq_append_move_to q other = bq_append_move_from q other"

definition bq_copy :: "bqueue \<Rightarrow> bqueue res" where
  "bq_copy other = bq_append_copy_from other bq_new"

text \<open>\<open>same\<close> is the test \<open>this == &other\<close>.\<close>

definition bq_assign :: "bool \<Rightarrow> bqueue \<Rightarrow> bqueue \<Rightarrow> bqueue res" where
  "bq_assign same other q = (if same then Inr q else bq_append_copy_from other (bq_clear q))"

text \<open>The (pointer, size) pairs \<open>VisitBuckets\<close> hands to \<open>OnVisitBucket\<close>, as (memory, size).\<close>

definition bq_visit_buckets :: "bqueue \<Rightarrow> (byte list \<times> nat) list" where
  "bq_visit_buckets q = map (\<lambda>b. (drop (bk_ptr b) (bk_buffer b), bk_left b)) (bq_buckets q)"

text \<open>\<open>Read\<close> gives the result queue and what is left of this one.\<close>

definition bq_read :: "nat \<Rightarrow> bqueue \<Rightarrow> (bqueue \<times> bqueue) res" where
  "bq_read n q =
     (let available = min n (bq_size q)
      in bind_res (bq_flatten available q)
           (\<lambda>bytes. bind_res (bq_consume available q)
              (\<lambda>q'. Inr (bq_append_unmanaged bytes BufferDeleterFree 0 bq_new, q'))))"

definition bq_write :: "bqueue \<Rightarrow> nat \<Rightarrow> bqueue \<Rightarrow> (nat \<times> bqueue) res" where
  "bq_write buffer n q = bind_res (bq_append_copy_from buffer q) (\<lambda>q'. Inr (n, q'))"

section \<open>Abstraction and invariant\<close>

definition bucket_bytes :: "bucket \<Rightarrow> byte list" where
  "bucket_bytes b = take (bk_left b) (drop (bk_ptr b) (bk_buffer b))"

definition bq_bytes :: "bqueue \<Rightarrow> byte list" where
  "bq_bytes q = concat (map bucket_bytes (bq_buckets q))"

definition bucket_ok :: "bucket \<Rightarrow> bool" where
  "bucket_ok b \<longleftrightarrow>
     0 < bk_left b \<and> bk_ptr b + bk_left b = bk_size b \<and> bk_size b = length (bk_buffer b)"

definition bq_ok :: "bqueue \<Rightarrow> bool" where
  "bq_ok q \<longleftrightarrow> list_all bucket_ok (bq_buckets q) \<and> bq_size q = sum_list (map bk_left (bq_buckets q))"

lemma length_bucket_bytes [simp]: "bucket_ok b \<Longrightarrow> length (bucket_bytes b) = bk_left b"
  by (auto simp: bucket_ok_def bucket_bytes_def)

lemma length_bytes_buckets:
  "list_all bucket_ok bs \<Longrightarrow> length (concat (map bucket_bytes bs)) = sum_list (map bk_left bs)"
  by (induction bs) auto

lemma bq_size_bytes: "bq_ok q \<Longrightarrow> bq_size q = length (bq_bytes q)"
  by (simp add: bq_ok_def bq_bytes_def length_bytes_buckets)

lemma bq_ok_empty: "bq_ok q \<Longrightarrow> bq_buckets q = [] \<longleftrightarrow> bq_bytes q = []"
  by (cases "bq_buckets q") (auto simp: bq_ok_def bq_bytes_def bucket_bytes_def bucket_ok_def)

lemma bq_new_ok [simp, intro]: "bq_ok bq_new" and bq_bytes_new [simp]: "bq_bytes bq_new = []"
  by (simp_all add: bq_ok_def bq_bytes_def bq_new_def)

lemma bq_clear_ok [simp, intro]: "bq_ok (bq_clear q)" and bq_bytes_clear [simp]: "bq_bytes (bq_clear q) = []"
  by (simp_all add: bq_ok_def bq_bytes_def bq_clear_def)

lemma bq_Size_bytes [simp]: "bq_ok q \<Longrightarrow> bq_Size q = length (bq_bytes q)"
  by (simp add: bq_Size_def bq_size_bytes)

lemma bq_Empty_bytes [simp]: "bq_ok q \<Longrightarrow> bq_Empty q \<longleftrightarrow> bq_bytes q = []"
  by (simp add: bq_Empty_def bq_size_bytes)

lemma append_unmanaged_bytes [simp]:
  "bq_bytes (bq_append_unmanaged d del p q) = bq_bytes q @ d"
  by (simp add: bq_append_unmanaged_def bq_bytes_def mk_bucket_def bucket_bytes_def)

lemma append_unmanaged_ok [intro, simp]: "bq_ok q \<Longrightarrow> bq_ok (bq_append_unmanaged d del p q)"
  by (auto simp: bq_append_unmanaged_def bq_ok_def mk_bucket_def bucket_ok_def)

lemma append_copy_bytes [simp]: "bq_bytes (bq_append_copy d q) = bq_bytes q @ d"
  by (simp add: bq_append_copy_def)

lemma append_copy_ok [intro, simp]: "bq_ok q \<Longrightarrow> bq_ok (bq_append_copy d q)"
  by (simp add: bq_append_copy_def)

subsection \<open>The loops\<close>

lemma flatten_loop_bytes:
  assumes "list_all bucket_ok bs" and "n \<le> sum_list (map bk_left bs)"
  shows "bq_flatten_loop n bs = Inr (take n (concat (map bucket_bytes bs)))"
  using assms
proof (induction n bs rule: bq_flatten_loop.induct)
  case (1 n)
  then show ?case by simp
next
  case (2 n b rest)
  from "2.prems" have b: "bucket_ok b" and rest: "list_all bucket_ok rest" by auto
  show ?case
  proof (cases "n = 0")
    case False
    have "n - min n (bk_left b) \<le> sum_list (map bk_left rest)"
      using "2.prems" by auto
    from "2.IH" [OF False refl rest this]
    have "bq_flatten_loop (n - min n (bk_left b)) rest =
            Inr (take (n - min n (bk_left b)) (concat (map bucket_bytes rest)))" .
    moreover have "take (min n (bk_left b)) (drop (bk_ptr b) (bk_buffer b)) = take n (bucket_bytes b)"
      by (simp add: bucket_bytes_def)
    moreover have "n - min n (bk_left b) = n - length (bucket_bytes b)"
      using b by (simp add: min_def)
    ultimately show ?thesis using False by simp
  qed simp
qed

lemma bucket_advance:
  assumes "bucket_ok b" and "n < bk_left b"
  shows "bucket_ok (b\<lparr>bk_ptr := bk_ptr b + n, bk_left := bk_left b - n\<rparr>)"
    and "bucket_bytes (b\<lparr>bk_ptr := bk_ptr b + n, bk_left := bk_left b - n\<rparr>) = drop n (bucket_bytes b)"
  using assms by (auto simp: bucket_ok_def bucket_bytes_def drop_take add.commute)

lemma consume_loop_bytes:
  assumes "list_all bucket_ok bs" and "n \<le> sum_list (map bk_left bs)"
    and "sz = sum_list (map bk_left bs)"
  shows "\<exists>bs'. bq_consume_loop n bs sz = Inr (bs', sz - n) \<and> list_all bucket_ok bs' \<and>
           sz - n = sum_list (map bk_left bs') \<and>
           concat (map bucket_bytes bs') = drop n (concat (map bucket_bytes bs))"
  using assms
proof (induction bs arbitrary: n sz)
  case Nil
  then show ?case by (auto simp: bq_consume_loop.simps [of 0])
next
  case (Cons b rest)
  from Cons.prems have b: "bucket_ok b" and rest: "list_all bucket_ok rest" by auto
  have pos: "0 < bk_left b" using b by (simp add: bucket_ok_def)
  consider "n = 0" | "0 < n" "n < bk_left b" | "bk_left b \<le> n" by linarith
  then show ?case
  proof cases
    case 1
    with Cons.prems show ?thesis by (simp add: bq_consume_loop.simps [of 0])
  next
    case 2
    then have "bq_consume_loop n (b # rest) sz =
        Inr (b\<lparr>bk_ptr := bk_ptr b + n, bk_left := bk_left b - n\<rparr> # rest, sz - n)"
      by (simp add: bq_consume_loop.simps [of n] bq_consume_loop.simps [of 0] min_def)
    with 2 Cons.prems b rest show ?thesis
      by (auto simp: bucket_advance)
  next
    case 3
    with pos have "bq_consume_loop n (b # rest) sz =
        bq_consume_loop (n - bk_left b) rest (sz - bk_left b)"
      by (simp add: bq_consume_loop.simps [of n "b # rest"] min_def Let_def)
    moreover have "n - bk_left b \<le> sum_list (map bk_left rest)"
      "sz - bk_left b = sum_list (map bk_left rest)"
      using Cons.prems by auto
    ultimately obtain bs' where
      "bq_consume_loop n (b # rest) sz = Inr (bs', sz - bk_left b - (n - bk_left b))"
      "list_all bucket_ok bs'" "sz - bk_left b - (n - bk_left b) = sum_list (map bk_left bs')"
      "concat (map bucket_bytes bs') = drop (n - bk_left b) (concat (map bucket_bytes rest))"
      using Cons.IH [OF rest] by metis
    moreover have "sz - bk_left b - (n - bk_left b) = sz - n" using 3 by simp
    ultimately show ?thesis using 3 b by auto
  qed
qed

subsection \<open>Each operation on the byte sequence\<close>

lemma bq_flatten_bytes:
  assumes "bq_ok q"
  shows "bq_flatten n q =
           (if length (bq_bytes q) < n then Inl OutOfData else Inr (take n (bq_bytes q)))"
proof -
  have sz: "bq_size q = length (bq_bytes q)" using assms by (rule bq_size_bytes)
  moreover have "n \<le> bq_size q \<Longrightarrow> bq_flatten_loop n (bq_buckets q) = Inr (take n (bq_bytes q))"
    using assms flatten_loop_bytes [of "bq_buckets q" n] by (simp add: bq_ok_def bq_bytes_def)
  moreover have "bq_buckets q = [] \<Longrightarrow> bq_size q = 0" using assms by (simp add: bq_ok_def)
  ultimately show ?thesis by (auto simp: bq_flatten_def)
qed

lemma bq_consume_short: "bq_ok q \<Longrightarrow> length (bq_bytes q) < n \<Longrightarrow> bq_consume n q = Inl OutOfData"
  by (simp add: bq_consume_def bq_size_bytes)

lemma bq_consume_bytes:
  assumes "bq_ok q" and "n \<le> length (bq_bytes q)"
  shows "\<exists>q'. bq_consume n q = Inr q' \<and> bq_ok q' \<and> bq_bytes q' = drop n (bq_bytes q)"
proof -
  have bs: "list_all bucket_ok (bq_buckets q)" "bq_size q = sum_list (map bk_left (bq_buckets q))"
    using assms(1) by (simp_all add: bq_ok_def)
  moreover have n: "n \<le> bq_size q" using assms by (simp add: bq_size_bytes)
  ultimately obtain bs' where
    "bq_consume_loop n (bq_buckets q) (bq_size q) = Inr (bs', bq_size q - n)"
    "list_all bucket_ok bs'" "bq_size q - n = sum_list (map bk_left bs')"
    "concat (map bucket_bytes bs') = drop n (bq_bytes q)"
    using consume_loop_bytes [of "bq_buckets q" n "bq_size q"] by (auto simp: bq_bytes_def)
  with n show ?thesis
    by (auto simp: bq_consume_def bq_ok_def bq_bytes_def)
qed

lemma bq_consume_Inr:
  assumes "bq_ok q" and "bq_consume n q = Inr q'"
  shows "n \<le> length (bq_bytes q) \<and> bq_ok q' \<and> bq_bytes q' = drop n (bq_bytes q)"
proof (cases "n \<le> length (bq_bytes q)")
  case True
  with assms bq_consume_bytes [of q n] show ?thesis by auto
next
  case False
  with assms bq_consume_short [of q n] show ?thesis by auto
qed

lemma bq_flatten_consume_bytes:
  assumes "bq_ok q" and "n \<le> length (bq_bytes q)"
  shows "\<exists>q'. bq_flatten_consume n q = Inr (take n (bq_bytes q), q') \<and> bq_ok q' \<and>
           bq_bytes q' = drop n (bq_bytes q)"
  using bq_consume_bytes [OF assms] assms
  by (auto simp: bq_flatten_consume_def bq_flatten_bytes)

lemma bq_flatten_consume_short:
  "bq_ok q \<Longrightarrow> length (bq_bytes q) < n \<Longrightarrow> bq_flatten_consume n q = Inl OutOfData"
  by (simp add: bq_flatten_consume_def bq_flatten_bytes)

lemma bq_append_copy_from_bytes:
  assumes "bq_ok other"
  shows "bq_append_copy_from other q = Inr (bq_append_unmanaged (bq_bytes other) BufferDeleterFree 0 q)"
  using assms by (simp add: bq_append_copy_from_def bq_flatten_bytes bq_size_bytes)

lemma bq_append_move_from_bytes:
  assumes "bq_ok q" and "bq_ok other" and "bq_append_move_from other q = (q', other')"
  shows "bq_ok q' \<and> bq_bytes q' = bq_bytes q @ bq_bytes other \<and> bq_ok other' \<and> bq_bytes other' = []"
  using assms by (auto simp: bq_append_move_from_def bq_ok_def bq_bytes_def)

lemma bq_append_move_fst [simp]:
  "bq_bytes (fst (bq_append_move_from other q)) = bq_bytes q @ bq_bytes other"
  by (simp add: bq_append_move_from_def bq_bytes_def)

lemma bq_append_move_ok [intro, simp]:
  "bq_ok q \<Longrightarrow> bq_ok other \<Longrightarrow> bq_ok (fst (bq_append_move_from other q))"
  by (auto simp: bq_append_move_from_def bq_ok_def)

lemma bq_read_bytes:
  assumes "bq_ok q"
  shows "\<exists>r q'. bq_read n q = Inr (r, q') \<and> bq_ok r \<and> bq_ok q' \<and>
           bq_bytes r = take n (bq_bytes q) \<and> bq_bytes q' = drop n (bq_bytes q)"
proof -
  let ?k = "min n (length (bq_bytes q))"
  obtain q' where "bq_consume ?k q = Inr q'" "bq_ok q'" "bq_bytes q' = drop ?k (bq_bytes q)"
    using bq_consume_bytes [OF assms, of ?k] by auto
  then show ?thesis using assms
    by (simp add: bq_read_def bq_size_bytes bq_flatten_bytes Let_def min_def)
qed

lemma bq_write_bytes:
  "bq_ok buffer \<Longrightarrow>
     bq_write buffer n q = Inr (n, bq_append_unmanaged (bq_bytes buffer) BufferDeleterFree 0 q)"
  by (simp add: bq_write_def bq_append_copy_from_bytes)

lemma bq_visit_bytes:
  "concat (map (\<lambda>(mem, n). take n mem) (bq_visit_buckets q)) = bq_bytes q"
  by (simp add: bq_visit_buckets_def bq_bytes_def bucket_bytes_def [abs_def] o_def)

section \<open>The queue is a byte FIFO\<close>

interpretation bq: byte_fifo bq_new bq_append_copy bq_flatten_consume bq_Size bq_bytes bq_ok
  by unfold_locales (auto simp: bq_flatten_consume_bytes bq_flatten_consume_short)

lemmas bq_op_bytes =
  bq_flatten_bytes bq_append_copy_from_bytes bq_write_bytes bq_size_bytes

section \<open>Programs over several queues\<close>

text \<open>
  Any sequence of member calls on a family of queues, against the specification that a queue is
  its sequence of bytes.  Moving a queue into itself copies a list into itself while it is read,
  which the standard leaves undefined.
\<close>

datatype bq_op =
    OpAppendCopy nat "byte list"
  | OpAppendUnmanaged nat "byte list" deleter nat
  | OpConsume nat nat
  | OpFlatten nat nat
  | OpFlattenConsume nat nat
  | OpAppendCopyFrom nat nat
  | OpAppendMoveFrom nat nat
  | OpAssign nat nat
  | OpClear nat
  | OpRead nat nat nat
  | OpWrite nat nat nat
  | OpSize nat
  | OpEmpty nat

datatype bq_out = NoOut | BytesOut "byte list" | NumOut nat | BoolOut bool

definition store :: "nat \<Rightarrow> 'q res \<Rightarrow> (nat \<Rightarrow> 'q) \<Rightarrow> bq_out res \<times> (nat \<Rightarrow> 'q)" where
  "store i r qs = (case r of Inl e \<Rightarrow> (Inl e, qs) | Inr q \<Rightarrow> (Inr NoOut, qs(i := q)))"

fun bq_do :: "bq_op \<Rightarrow> (nat \<Rightarrow> bqueue) \<Rightarrow> bq_out res \<times> (nat \<Rightarrow> bqueue)" where
  "bq_do (OpAppendCopy i d) qs = store i (Inr (bq_append_copy d (qs i))) qs"
| "bq_do (OpAppendUnmanaged i d del p) qs = store i (Inr (bq_append_unmanaged d del p (qs i))) qs"
| "bq_do (OpConsume i n) qs = store i (bq_consume n (qs i)) qs"
| "bq_do (OpFlatten i n) qs = (bind_res (bq_flatten n (qs i)) (\<lambda>d. Inr (BytesOut d)), qs)"
| "bq_do (OpFlattenConsume i n) qs =
     (case bq_flatten_consume n (qs i) of
        Inl e \<Rightarrow> (Inl e, qs) | Inr (d, q) \<Rightarrow> (Inr (BytesOut d), qs(i := q)))"
| "bq_do (OpAppendCopyFrom i j) qs = store i (bq_append_copy_from (qs j) (qs i)) qs"
| "bq_do (OpAppendMoveFrom i j) qs =
     (if i = j then (Inl UndefinedBehaviour, qs)
      else (case bq_append_move_from (qs j) (qs i) of (q, q') \<Rightarrow> (Inr NoOut, qs(i := q, j := q'))))"
| "bq_do (OpAssign i j) qs = store i (bq_assign (i = j) (qs j) (qs i)) qs"
| "bq_do (OpClear i) qs = store i (Inr (bq_clear (qs i))) qs"
| "bq_do (OpRead i n j) qs =
     (case bq_read n (qs i) of
        Inl e \<Rightarrow> (Inl e, qs) | Inr (r, q) \<Rightarrow> (Inr NoOut, qs(i := q, j := r)))"
| "bq_do (OpWrite i j n) qs =
     (case bq_write (qs j) n (qs i) of
        Inl e \<Rightarrow> (Inl e, qs) | Inr (k, q) \<Rightarrow> (Inr (NumOut k), qs(i := q)))"
| "bq_do (OpSize i) qs = (Inr (NumOut (bq_Size (qs i))), qs)"
| "bq_do (OpEmpty i) qs = (Inr (BoolOut (bq_Empty (qs i))), qs)"

text \<open>The specification: byte sequences, and \<open>OutOfData\<close> as the only exception.\<close>

fun fifo_do :: "bq_op \<Rightarrow> (nat \<Rightarrow> byte list) \<Rightarrow> bq_out res \<times> (nat \<Rightarrow> byte list)" where
  "fifo_do (OpAppendCopy i d) bs = (Inr NoOut, bs(i := bs i @ d))"
| "fifo_do (OpAppendUnmanaged i d del p) bs = (Inr NoOut, bs(i := bs i @ d))"
| "fifo_do (OpConsume i n) bs =
     (if n > length (bs i) then (Inl OutOfData, bs) else (Inr NoOut, bs(i := drop n (bs i))))"
| "fifo_do (OpFlatten i n) bs =
     (if n > length (bs i) then Inl OutOfData else Inr (BytesOut (take n (bs i))), bs)"
| "fifo_do (OpFlattenConsume i n) bs =
     (if n > length (bs i) then (Inl OutOfData, bs)
      else (Inr (BytesOut (take n (bs i))), bs(i := drop n (bs i))))"
| "fifo_do (OpAppendCopyFrom i j) bs = (Inr NoOut, bs(i := bs i @ bs j))"
| "fifo_do (OpAppendMoveFrom i j) bs =
     (if i = j then (Inl UndefinedBehaviour, bs) else (Inr NoOut, bs(i := bs i @ bs j, j := [])))"
| "fifo_do (OpAssign i j) bs = (Inr NoOut, bs(i := bs j))"
| "fifo_do (OpClear i) bs = (Inr NoOut, bs(i := []))"
| "fifo_do (OpRead i n j) bs = (Inr NoOut, bs(i := drop n (bs i), j := take n (bs i)))"
| "fifo_do (OpWrite i j n) bs = (Inr (NumOut n), bs(i := bs i @ bs j))"
| "fifo_do (OpSize i) bs = (Inr (NumOut (length (bs i))), bs)"
| "fifo_do (OpEmpty i) bs = (Inr (BoolOut (bs i = [])), bs)"

definition all_bytes :: "(nat \<Rightarrow> bqueue) \<Rightarrow> nat \<Rightarrow> byte list" where
  "all_bytes qs i = bq_bytes (qs i)"

lemma all_bytes_upd [simp]: "all_bytes (qs(i := q)) = (all_bytes qs)(i := bq_bytes q)"
  by (auto simp: all_bytes_def)

lemma bq_do_fifo:
  assumes ok: "\<forall>i. bq_ok (qs i)"
  shows "(\<forall>i. bq_ok (snd (bq_do op qs) i)) \<and>
         fifo_do op (all_bytes qs) = (fst (bq_do op qs), all_bytes (snd (bq_do op qs)))"
proof (cases op)
  case (OpConsume i n)
  show ?thesis
  proof (cases "n \<le> length (bq_bytes (qs i))")
    case True
    with ok OpConsume bq_consume_bytes [of "qs i" n] show ?thesis
      by (auto simp: store_def all_bytes_def [of _ i])
  next
    case False
    with ok OpConsume bq_consume_short [of "qs i" n] show ?thesis
      by (auto simp: store_def all_bytes_def [of _ i])
  qed
next
  case (OpFlattenConsume i n)
  show ?thesis
  proof (cases "n \<le> length (bq_bytes (qs i))")
    case True
    with ok OpFlattenConsume bq_flatten_consume_bytes [of "qs i" n] show ?thesis
      by (auto simp: all_bytes_def [of _ i])
  next
    case False
    with ok OpFlattenConsume bq_flatten_consume_short [of "qs i" n] show ?thesis
      by (auto simp: all_bytes_def [of _ i])
  qed
next
  case (OpAppendMoveFrom i j)
  obtain q q' where m: "bq_append_move_from (qs j) (qs i) = (q, q')" by force
  with ok have "bq_ok q \<and> bq_bytes q = bq_bytes (qs i) @ bq_bytes (qs j) \<and> bq_ok q' \<and> bq_bytes q' = []"
    using bq_append_move_from_bytes by metis
  with OpAppendMoveFrom ok m show ?thesis
    by (auto simp: all_bytes_def [of _ i] all_bytes_def [of _ j])
next
  case (OpRead i n j)
  obtain r q where "bq_read n (qs i) = Inr (r, q)" "bq_ok r" "bq_ok q"
    "bq_bytes r = take n (bq_bytes (qs i))" "bq_bytes q = drop n (bq_bytes (qs i))"
    using bq_read_bytes ok by blast
  with OpRead ok show ?thesis by (auto simp: all_bytes_def [of _ i])
qed (use ok in \<open>auto simp: store_def all_bytes_def bq_flatten_bytes bq_append_copy_from_bytes
       bq_assign_def bq_write_bytes bq_size_bytes intro!: ext\<close>)

lemma bq_run_fifo:
  "\<forall>i. bq_ok (qs i) \<Longrightarrow>
     (\<forall>i. bq_ok (snd (run_ops bq_do ops qs) i)) \<and>
     run_ops fifo_do ops (all_bytes qs) =
       (fst (run_ops bq_do ops qs), all_bytes (snd (run_ops bq_do ops qs)))"
proof (induction ops arbitrary: qs)
  case Nil
  then show ?case by simp
next
  case (Cons op ops)
  from bq_do_fifo [OF Cons.prems, of op] Cons.IH [of "snd (bq_do op qs)"] show ?case
    by (simp add: case_prod_unfold)
qed

lemma all_bytes_new: "all_bytes (\<lambda>_. bq_new) = (\<lambda>_. [])"
  by (simp add: all_bytes_def fun_eq_iff)

section \<open>Properties\<close>


text \<open>
  The structural invariant behind the refinement: whatever program ran, every queue's
  \<open>m_size\<close> is the sum of the bytes left in its buckets, no bucket is exhausted, and every
  read pointer stays inside the bucket's own memory with exactly \<open>left\<close> bytes behind it; and
  the buckets \<open>VisitBuckets\<close> presents spell the sequence of bytes the queue stands for.
\<close>

theorem bq_invariant:
  "bq_ok (snd (run_ops bq_do ops (\<lambda>_. bq_new)) i) \<and>
   concat (map (\<lambda>(mem, n). take n mem) (bq_visit_buckets (snd (run_ops bq_do ops (\<lambda>_. bq_new)) i))) =
     snd (run_ops fifo_do ops (\<lambda>_. [])) i"
  using bq_run_fifo [of "\<lambda>_. bq_new" ops]
  by (simp add: all_bytes_new bq_visit_bytes) (simp add: all_bytes_def)

end
