(* ===== verification/StdMap.thy ===== *)
theory StdMap
  imports Prelude
begin

text \<open>
  \<open>std::map\<close> as the code uses it: a key-sorted association list, so that iteration order is the
  container's.  The interface \<open>ordered_map\<close> is what the clients rely on; the association list
  implements it.  \<open>std::set\<close> is a map to \<open>unit\<close>.
\<close>

type_synonym ('k, 'v) smap = "('k \<times> 'v) list"

definition sm_ok :: "('k::linorder, 'v) smap \<Rightarrow> bool" where
  "sm_ok m \<longleftrightarrow> sorted_wrt (<) (map fst m)"

definition sm_find :: "('k::linorder, 'v) smap \<Rightarrow> 'k \<Rightarrow> 'v option" where
  "sm_find m k = map_of m k"

primrec sm_put :: "'k::linorder \<Rightarrow> 'v \<Rightarrow> ('k, 'v) smap \<Rightarrow> ('k, 'v) smap" where
  "sm_put k v [] = [(k, v)]"
| "sm_put k v (p # m) =
     (if fst p < k then p # sm_put k v m
      else if fst p = k then (k, v) # m
      else (k, v) # p # m)"

definition sm_erase :: "'k::linorder \<Rightarrow> ('k, 'v) smap \<Rightarrow> ('k, 'v) smap" where
  "sm_erase k m = filter (\<lambda>p. fst p \<noteq> k) m"

lemma sm_keys_put: "fst ` set (sm_put k v m) = insert k (fst ` set m)"
  by (induction m) auto

lemma sm_ok_Nil [simp]: "sm_ok []"
  by (simp add: sm_ok_def)

lemma sm_ok_Cons: "sm_ok (p # m) \<longleftrightarrow> (\<forall>q \<in> set m. fst p < fst q) \<and> sm_ok m"
  by (simp add: sm_ok_def)

lemma sm_ok_put [intro]: "sm_ok m \<Longrightarrow> sm_ok (sm_put k v m)"
proof (induction m)
  case Nil
  then show ?case by (simp add: sm_ok_def)
next
  case (Cons p m)
  then have IH: "sm_ok (sm_put k v m)" and lt: "\<forall>q \<in> set m. fst p < fst q"
    by (auto simp: sm_ok_Cons)
  have "fst p < k \<Longrightarrow> \<forall>q \<in> set (sm_put k v m). fst p < fst q"
    using lt sm_keys_put [of k v m] by (metis (no_types, lifting) image_iff insert_iff)
  with Cons.prems IH lt show ?case by (auto simp: sm_ok_Cons)
qed

lemma sm_ok_erase [intro]: "sm_ok m \<Longrightarrow> sm_ok (sm_erase k m)"
  by (auto simp: sm_ok_def sm_erase_def sorted_wrt_map sorted_wrt_filter)

lemma sm_find_Nil [simp]: "sm_find [] k = None"
  by (simp add: sm_find_def)

lemma sm_find_put [simp]: "sm_ok m \<Longrightarrow> sm_find (sm_put k v m) = (sm_find m)(k \<mapsto> v)"
proof (induction m)
  case Nil
  then show ?case by (auto simp: sm_find_def fun_eq_iff)
next
  case (Cons p m)
  then have "sm_ok m" by (simp add: sm_ok_Cons)
  with Cons.IH show ?case by (cases p) (auto simp: sm_find_def fun_eq_iff)
qed

lemma sm_find_erase [simp]: "sm_find (sm_erase k m) = (sm_find m)(k := None)"
  by (induction m) (auto simp: sm_find_def sm_erase_def fun_eq_iff)

lemma sm_find_eq_Some: "sm_ok m \<Longrightarrow> sm_find m k = Some v \<longleftrightarrow> (k, v) \<in> set m"
proof -
  assume "sm_ok m"
  then have "distinct (map fst m)"
    unfolding sm_ok_def by (metis strict_sorted_iff)
  then show ?thesis by (simp add: sm_find_def)
qed

lemma sm_find_None: "sm_find m k = None \<longleftrightarrow> k \<notin> fst ` set m"
  by (simp add: sm_find_def map_of_eq_None_iff)

lemma sm_mem_find: "sm_ok m \<Longrightarrow> (k, v) \<in> set m \<Longrightarrow> sm_find m k = Some v"
  by (simp add: sm_find_eq_Some)

lemma sm_set_put:
  "sm_ok m \<Longrightarrow> set (sm_put k v m) = insert (k, v) {p \<in> set m. fst p \<noteq> k}"
proof (induction m)
  case Nil
  then show ?case by simp
next
  case (Cons p m)
  then have IH: "set (sm_put k v m) = insert (k, v) {p \<in> set m. fst p \<noteq> k}"
    and lt: "\<forall>q \<in> set m. fst p < fst q"
    by (auto simp: sm_ok_Cons)
  consider "fst p < k" | "fst p = k" | "k < fst p" by (metis neqE)
  then show ?case
  proof cases
    case 1
    with IH show ?thesis by auto
  next
    case 2
    with lt have "\<forall>q \<in> set m. fst q \<noteq> k" by auto
    with 2 show ?thesis by auto
  next
    case 3
    with lt have "\<forall>q \<in> set m. fst q \<noteq> k" by force
    with 3 show ?thesis by auto
  qed
qed

lemma sm_set_erase: "set (sm_erase k m) = {p \<in> set m. fst p \<noteq> k}"
  by (auto simp: sm_erase_def)

text \<open>Erasing a freshly put key gives the old map back.\<close>

lemma sm_erase_put_new: "sm_find m k = None \<Longrightarrow> sm_erase k (sm_put k v m) = m"
proof (induction m)
  case Nil
  then show ?case by (simp add: sm_erase_def)
next
  case (Cons p m)
  then have "sm_find m k = None" and "fst p \<noteq> k" and "sm_erase k m = m"
    by (auto simp: sm_find_None sm_erase_def intro!: filter_all_True)
  with Cons.IH show ?case by (auto simp: sm_erase_def)
qed

lemma sm_put_same: "sm_ok m \<Longrightarrow> sm_find m k = Some v \<Longrightarrow> sm_put k v m = m"
proof (induction m)
  case Nil
  then show ?case by simp
next
  case (Cons p m)
  show ?case
  proof (cases "fst p = k")
    case True
    with Cons.prems show ?thesis by (cases p) (auto simp: sm_find_def)
  next
    case False
    with Cons.prems have f: "sm_find m k = Some v" and ok: "sm_ok m"
      by (auto simp: sm_find_def sm_ok_Cons split: if_splits)
    then have "(k, v) \<in> set m" by (simp add: sm_find_eq_Some)
    with Cons.prems have "fst p < k" by (auto simp: sm_ok_Cons)
    with Cons.IH [OF ok f] show ?thesis by simp
  qed
qed

lemma sm_put_put: "sm_put k v (sm_put k w m) = sm_put k v m"
  by (induction m) auto

section \<open>The interface\<close>

locale ordered_map =
  fixes find :: "'m \<Rightarrow> 'k \<Rightarrow> 'v option"
    and put :: "'k \<Rightarrow> 'v \<Rightarrow> 'm \<Rightarrow> 'm"
    and erase :: "'k \<Rightarrow> 'm \<Rightarrow> 'm"
    and empty :: 'm
    and ok :: "'m \<Rightarrow> bool"
  assumes find_empty: "find empty = Map.empty"
    and find_put: "ok m \<Longrightarrow> find (put k v m) = (find m)(k \<mapsto> v)"
    and find_erase: "ok m \<Longrightarrow> find (erase k m) = (find m)(k := None)"
    and ok_empty: "ok empty"
    and ok_put: "ok m \<Longrightarrow> ok (put k v m)"
    and ok_erase: "ok m \<Longrightarrow> ok (erase k m)"
begin

lemma find_erase_put: "ok m \<Longrightarrow> find (erase k (put k v m)) = (find m)(k := None)"
  by (simp add: find_erase find_put ok_put)

lemma fold_puts:
  "ok m \<Longrightarrow>
     ok (fold (\<lambda>(k, v). put k v) kvs m) \<and>
     find (fold (\<lambda>(k, v). put k v) kvs m) = find m ++ map_of (rev kvs)"
proof (induction kvs arbitrary: m)
  case Nil
  then show ?case by simp
next
  case (Cons kv kvs)
  obtain k v where kv: "kv = (k, v)" by (cases kv)
  from Cons.prems have ok: "ok (put k v m)" by (rule ok_put)
  have "(find m)(k \<mapsto> v) ++ map_of (rev kvs) = find m ++ (map_of (rev kvs @ [(k, v)]))"
    by (auto simp: fun_eq_iff map_add_def map_of_append split: option.splits)
  with Cons.IH [OF ok] show ?case
    by (simp add: kv find_put Cons.prems fun_upd_def)
qed

end

interpretation stdmap: ordered_map sm_find sm_put sm_erase "[]" sm_ok
  by unfold_locales (auto simp: fun_eq_iff)

end
