(* ===== verification/WaitableHandles.thy ===== *)
theory WaitableHandles
  imports StdMap
begin

text \<open>
  Waiting on descriptors (modules/core/src/waitable_handle.cpp) and the registry of watches
  each execution context keeps (modules/core/src/waitable_handle_watch_support.cpp).
\<close>

datatype wait_mode = WaitRead | WaitWrite

section \<open>WaitForMultipleHandles\<close>

text \<open>
  \<open>select\<close> is the kernel call: given nfds, the three sets and the timeout it gives the ready
  sets, or \<open>None\<close> for -1 (\<open>TEMP_FAILURE_RETRY\<close> has repeated it on \<open>EINTR\<close>).
  \<open>FD_SET\<close> on a descriptor outside \<open>0..<FD_SETSIZE\<close> is undefined.
\<close>

type_synonym timeval = "nat \<times> nat"
type_synonym select_fn =
  "int \<Rightarrow> int set \<Rightarrow> int set \<Rightarrow> int set \<Rightarrow> timeval option \<Rightarrow> (int set \<times> int set \<times> int set) option"

definition fd_setsize :: int where
  "fd_setsize = 1024"

definition fd_ok :: "int \<Rightarrow> bool" where
  "fd_ok fd \<longleftrightarrow> 0 \<le> fd \<and> fd < fd_setsize"

fun fill_sets ::
  "(int \<times> wait_mode) list \<Rightarrow> int \<times> int set \<times> int set \<times> int set \<Rightarrow> (int \<times> int set \<times> int set \<times> int set) res" where
  "fill_sets [] acc = Inr acc"
| "fill_sets ((h, m) # hs) (maxFd, r, w, e) =
     (if \<not> fd_ok h then Inl UndefinedBehaviour
      else fill_sets hs
             (if h > maxFd then h else maxFd,
              if m = WaitRead then insert h r else r,
              if m = WaitWrite then insert h w else w,
              insert h e))"

definition effective_timeout :: "nat \<Rightarrow> timeval option" where
  "effective_timeout ms =
     (if ms \<noteq> 0xFFFFFFFF then Some (ms div 1000, (ms mod 1000) * 1000) else None)"

fun collect_indexes :: "nat \<Rightarrow> (int \<times> wait_mode) list \<Rightarrow> int set \<times> int set \<times> int set \<Rightarrow> nat list" where
  "collect_indexes i [] ready = []"
| "collect_indexes i ((h, m) # hs) (r, w, e) =
     (if h \<in> e then [i]
      else if m = WaitRead then (if h \<in> r then [i] else [])
      else if m = WaitWrite then (if h \<in> w then [i] else [])
      else []) @ collect_indexes (Suc i) hs (r, w, e)"

definition wait_multiple_ex :: "select_fn \<Rightarrow> (int \<times> wait_mode) list \<Rightarrow> nat \<Rightarrow> nat list res" where
  "wait_multiple_ex select hs ms =
     bind_res (fill_sets hs (-1, {}, {}, {}))
       (\<lambda>(maxFd, r, w, e).
          case select (maxFd + 1) r w e (effective_timeout ms) of
            None \<Rightarrow> Inl WaitFailed
          | Some ready \<Rightarrow> Inr (collect_indexes 0 hs ready))"

definition wait_multiple :: "select_fn \<Rightarrow> int list \<Rightarrow> nat \<Rightarrow> nat list res" where
  "wait_multiple select hs ms = wait_multiple_ex select (map (\<lambda>h. (h, WaitRead)) hs) ms"

definition wait_single :: "select_fn \<Rightarrow> int \<Rightarrow> nat \<Rightarrow> nat list res" where
  "wait_single select h ms = wait_multiple select [h] ms"

definition wait_single_mode :: "select_fn \<Rightarrow> int \<Rightarrow> wait_mode \<Rightarrow> nat \<Rightarrow> nat list res" where
  "wait_single_mode select h m ms = wait_multiple_ex select [(h, m)] ms"

subsection \<open>What the indexes mean\<close>

definition handle_ready :: "int set \<times> int set \<times> int set \<Rightarrow> int \<times> wait_mode \<Rightarrow> bool" where
  "handle_ready ready hm \<longleftrightarrow>
     fst hm \<in> snd (snd ready) \<or>
     fst hm \<in> (if snd hm = WaitRead then fst ready else fst (snd ready))"

lemma collect_indexes_filter:
  "collect_indexes i hs ready =
     map (\<lambda>k. i + k) (filter (\<lambda>k. handle_ready ready (hs ! k)) [0..<length hs])"
proof (induction i hs ready rule: collect_indexes.induct)
  case (1 i ready)
  then show ?case by simp
next
  case (2 i h m hs r w e)
  have "map (\<lambda>k. i + k) (filter (\<lambda>k. handle_ready (r, w, e) (((h, m) # hs) ! k)) [0..<Suc (length hs)]) =
     (if handle_ready (r, w, e) (h, m) then [i] else []) @
     map (\<lambda>k. Suc i + k) (filter (\<lambda>k. handle_ready (r, w, e) (hs ! k)) [0..<length hs])"
    by (simp del: upt_Suc add: upt_rec [of 0] map_Suc_upt [symmetric] filter_map o_def)
  moreover have "handle_ready (r, w, e) (h, m) \<longleftrightarrow>
     h \<in> e \<or> (m = WaitRead \<and> h \<in> r) \<or> (m = WaitWrite \<and> h \<in> w)"
    by (cases m) (auto simp: handle_ready_def)
  ultimately show ?case using 2 by (cases m) auto
qed

lemma fill_sets_ok:
  assumes "\<forall>(h, m) \<in> set hs. fd_ok h"
  shows "fill_sets hs (mx, r, w, e) =
           Inr (foldl max mx (map fst hs), r \<union> {h. (h, WaitRead) \<in> set hs},
                w \<union> {h. (h, WaitWrite) \<in> set hs}, e \<union> fst ` set hs)"
  using assms
proof (induction hs arbitrary: mx r w e)
  case Nil
  then show ?case by simp
next
  case (Cons hm hs)
  obtain h m where hm: "hm = (h, m)" by (cases hm)
  have "max mx h = (if h > mx then h else mx)" by simp
  then show ?case using Cons.IH Cons.prems by (cases m) (auto simp: hm)
qed

lemma fill_sets_bad:
  "\<exists>(h, m) \<in> set hs. \<not> fd_ok h \<Longrightarrow> fill_sets hs acc = Inl UndefinedBehaviour"
  by (induction hs acc rule: fill_sets.induct) auto

section \<open>The watch registry\<close>

text \<open>
  A listener is identified by a number (its address).  \<open>ws_thread\<close> is what \<open>GetInvokerThread\<close>
  returns; \<open>ws_invoker\<close> and \<open>ws_commit\<close> are the two waitable events, \<open>ws_direct\<close> counts
  the calls of the virtual \<open>HandleDirectInvoker\<close>.
\<close>

type_synonym listener = nat

record watchers =
  w_listeners :: "(listener \<times> wait_mode) list"
  w_reads :: nat
  w_writes :: nat

record watch_support =
  ws_map :: "(int, watchers) smap"
  ws_thread :: "nat option"
  ws_invoker :: bool
  ws_commit :: bool
  ws_direct :: nat

definition no_watchers :: watchers where
  "no_watchers = \<lparr>w_listeners = [], w_reads = 0, w_writes = 0\<rparr>"

definition ws_new :: "nat option \<Rightarrow> watch_support" where
  "ws_new thr = \<lparr>ws_map = [], ws_thread = thr, ws_invoker = False, ws_commit = False, ws_direct = 0\<rparr>"

definition is_registered :: "listener \<Rightarrow> int \<Rightarrow> wait_mode \<Rightarrow> watch_support \<Rightarrow> bool" where
  "is_registered l h m ws =
     (case sm_find (ws_map ws) h of None \<Rightarrow> False | Some w \<Rightarrow> (l, m) \<in> set (w_listeners w))"

definition waitable_watcher_handles :: "watch_support \<Rightarrow> (int \<times> wait_mode) list" where
  "waitable_watcher_handles ws =
     concat (map (\<lambda>(h, w). (if w_reads w > 0 then [(h, WaitRead)] else []) @
                           (if w_writes w > 0 then [(h, WaitWrite)] else [])) (ws_map ws))"

definition invoker_finished :: "watch_support \<Rightarrow> watch_support" where
  "invoker_finished ws = ws\<lparr>ws_invoker := False, ws_commit := True\<rparr>"

text \<open>
  Called off the invoker thread, \<open>CommitInvoker\<close> signals it, waits until it has run
  \<open>InvokerFinished\<close>, and resets the commit event.
\<close>

definition commit_invoker :: "nat option \<Rightarrow> watch_support \<Rightarrow> watch_support" where
  "commit_invoker cur ws =
     (if cur = ws_thread ws then ws\<lparr>ws_direct := Suc (ws_direct ws)\<rparr>
      else (invoker_finished (ws\<lparr>ws_invoker := True\<rparr>))\<lparr>ws_commit := False\<rparr>)"

fun count_up :: "wait_mode \<Rightarrow> watchers \<Rightarrow> watchers" where
  "count_up WaitRead w = w\<lparr>w_reads := Suc (w_reads w)\<rparr>"
| "count_up WaitWrite w = w\<lparr>w_writes := Suc (w_writes w)\<rparr>"

fun count_down :: "wait_mode \<Rightarrow> watchers \<Rightarrow> watchers" where
  "count_down WaitRead w = w\<lparr>w_reads := w_reads w - 1\<rparr>"
| "count_down WaitWrite w = w\<lparr>w_writes := w_writes w - 1\<rparr>"

definition add_watch ::
  "nat option \<Rightarrow> listener \<Rightarrow> int \<Rightarrow> wait_mode \<Rightarrow> (watch_support, unit) prog" where
  "add_watch cur l h m ws =
     (case sm_find (ws_map ws) h of
        Some w \<Rightarrow>
          (if (l, m) \<in> set (w_listeners w) then (Inl AssertFailed, ws)
           else (Inr (), commit_invoker cur
                   (ws\<lparr>ws_map := sm_put h (count_up m (w\<lparr>w_listeners := w_listeners w @ [(l, m)]\<rparr>))
                                   (ws_map ws)\<rparr>)))
      | None \<Rightarrow>
          (Inr (), commit_invoker cur
             (ws\<lparr>ws_map := sm_put h (count_up m (no_watchers\<lparr>w_listeners := [(l, m)]\<rparr>))
                             (ws_map ws)\<rparr>)))"

definition remove_watch ::
  "nat option \<Rightarrow> listener \<Rightarrow> int \<Rightarrow> wait_mode \<Rightarrow> (watch_support, unit) prog" where
  "remove_watch cur l h m ws =
     (case sm_find (ws_map ws) h of
        None \<Rightarrow> (Inl AssertFailed, ws)
      | Some w \<Rightarrow>
          (if (l, m) \<notin> set (w_listeners w) then (Inl AssertFailed, ws)
           else (let w' = count_down m (w\<lparr>w_listeners := erase_first (\<lambda>p. p = (l, m)) (w_listeners w)\<rparr>)
                 in (Inr (), commit_invoker cur
                       (ws\<lparr>ws_map := (if w_listeners w' = [] then sm_erase h (ws_map ws)
                                      else sm_put h w' (ws_map ws))\<rparr>)))))"

text \<open>The destructor asserts that no watch leaked.\<close>

definition ws_destroy :: "(watch_support, unit) prog" where
  "ws_destroy = assertP (\<lambda>ws. ws_map ws = [])"

text \<open>
  \<open>HandleWatcher\<close>.  The listener's \<open>OnWaitableHandleEvent\<close> is a virtual call (\<open>call\<close>) that may
  change the whole state, the registry (\<open>ws_of\<close>) included.  Both loops run over copies taken
  before the calls; the inner check looks the listener up in the copied watcher \<open>w\<close>.
\<close>

primrec call_listeners ::
  "('s \<Rightarrow> watch_support) \<Rightarrow> (listener \<Rightarrow> int \<Rightarrow> wait_mode \<Rightarrow> ('s, unit) prog) \<Rightarrow>
   int \<Rightarrow> wait_mode \<Rightarrow> watchers \<Rightarrow> (listener \<times> wait_mode) list \<Rightarrow> ('s, unit) prog" where
  "call_listeners ws_of call h mode w [] = ret ()"
| "call_listeners ws_of call h mode w (lm # rest) = (\<lambda>s.
     if sm_find (ws_map (ws_of s)) h = None then ret () s
     else if lm \<notin> set (w_listeners w) then ret () s
     else if mode \<noteq> snd lm then call_listeners ws_of call h mode w rest s
     else thenP (call (fst lm) h (snd lm)) (call_listeners ws_of call h mode w rest) s)"

primrec call_watchers ::
  "('s \<Rightarrow> watch_support) \<Rightarrow> (listener \<Rightarrow> int \<Rightarrow> wait_mode \<Rightarrow> ('s, unit) prog) \<Rightarrow>
   int \<Rightarrow> wait_mode \<Rightarrow> (int, watchers) smap \<Rightarrow> ('s, unit) prog" where
  "call_watchers ws_of call h mode [] = ret ()"
| "call_watchers ws_of call h mode (hw # rest) = (\<lambda>s.
     if sm_find (ws_map (ws_of s)) (fst hw) = None then call_watchers ws_of call h mode rest s
     else if h \<noteq> fst hw then call_watchers ws_of call h mode rest s
     else call_listeners ws_of call (fst hw) mode (snd hw) (w_listeners (snd hw)) s)"

definition handle_watcher ::
  "('s \<Rightarrow> watch_support) \<Rightarrow> (listener \<Rightarrow> int \<Rightarrow> wait_mode \<Rightarrow> ('s, unit) prog) \<Rightarrow>
   int \<Rightarrow> wait_mode \<Rightarrow> ('s, unit) prog" where
  "handle_watcher ws_of call h mode s = call_watchers ws_of call h mode (ws_map (ws_of s)) s"

section \<open>Invariant and abstraction\<close>

definition watchers_ok :: "watchers \<Rightarrow> bool" where
  "watchers_ok w \<longleftrightarrow>
     w_listeners w \<noteq> [] \<and> distinct (w_listeners w) \<and>
     w_reads w = length (filter (\<lambda>p. snd p = WaitRead) (w_listeners w)) \<and>
     w_writes w = length (filter (\<lambda>p. snd p = WaitWrite) (w_listeners w))"

definition ws_ok :: "watch_support \<Rightarrow> bool" where
  "ws_ok ws \<longleftrightarrow> sm_ok (ws_map ws) \<and> (\<forall>h w. sm_find (ws_map ws) h = Some w \<longrightarrow> watchers_ok w)"

text \<open>The registry as a set of (listener, handle, mode) triples.\<close>

definition registered :: "watch_support \<Rightarrow> (listener \<times> int \<times> wait_mode) set" where
  "registered ws = {(l, h, m). \<exists>w. sm_find (ws_map ws) h = Some w \<and> (l, m) \<in> set (w_listeners w)}"

lemma commit_map [simp]: "ws_map (commit_invoker cur ws) = ws_map ws"
  by (simp add: commit_invoker_def invoker_finished_def)

lemma commit_thread [simp]: "ws_thread (commit_invoker cur ws) = ws_thread ws"
  by (simp add: commit_invoker_def invoker_finished_def)

lemma ws_new_ok [simp]: "ws_ok (ws_new thr)" "registered (ws_new thr) = {}"
  by (simp_all add: ws_ok_def ws_new_def registered_def)

lemma count_listeners [simp]:
  "w_listeners (count_up m w) = w_listeners w" "w_listeners (count_down m w) = w_listeners w"
  by (cases m; simp)+

lemma watchers_ok_add:
  assumes "watchers_ok w" and "(l, m) \<notin> set (w_listeners w)"
  shows "watchers_ok (count_up m (w\<lparr>w_listeners := w_listeners w @ [(l, m)]\<rparr>))"
  using assms by (cases m) (auto simp: watchers_ok_def)

lemma watchers_ok_single: "watchers_ok (count_up m (no_watchers\<lparr>w_listeners := [(l, m)]\<rparr>))"
  by (cases m) (auto simp: watchers_ok_def no_watchers_def)

lemma watchers_ok_remove:
  assumes "watchers_ok w" and "(l, m) \<in> set (w_listeners w)"
    and "erase_first (\<lambda>p. p = (l, m)) (w_listeners w) \<noteq> []"
  shows "watchers_ok (count_down m (w\<lparr>w_listeners := erase_first (\<lambda>p. p = (l, m)) (w_listeners w)\<rparr>))"
  using assms
  by (cases m) (simp_all add: watchers_ok_def distinct_erase_first length_filter_erase_first)

lemma ws_ok_put: "ws_ok ws \<Longrightarrow> watchers_ok w \<Longrightarrow> ws_ok (commit_invoker cur (ws\<lparr>ws_map := sm_put h w (ws_map ws)\<rparr>))"
  by (auto simp: ws_ok_def split: if_splits)

lemma ws_ok_erase: "ws_ok ws \<Longrightarrow> ws_ok (commit_invoker cur (ws\<lparr>ws_map := sm_erase h (ws_map ws)\<rparr>))"
  by (auto simp: ws_ok_def split: if_splits)

lemma registered_iff:
  "(l, h, m) \<in> registered ws \<longleftrightarrow>
     (\<exists>w. sm_find (ws_map ws) h = Some w \<and> (l, m) \<in> set (w_listeners w))"
  by (simp add: registered_def)

lemma registered_put:
  "ws_ok ws \<Longrightarrow>
   registered (commit_invoker cur (ws\<lparr>ws_map := sm_put h w (ws_map ws)\<rparr>)) =
     {t \<in> registered ws. fst (snd t) \<noteq> h} \<union> (\<lambda>(l, m). (l, h, m)) ` set (w_listeners w)"
  by (auto simp: registered_def ws_ok_def split: if_splits)

lemma registered_erase:
  "registered (commit_invoker cur (ws\<lparr>ws_map := sm_erase h (ws_map ws)\<rparr>)) =
     {t \<in> registered ws. fst (snd t) \<noteq> h}"
  by (auto simp: registered_def split: if_splits)

lemma registered_split:
  "sm_find (ws_map ws) h = Some w \<Longrightarrow>
   registered ws = {t \<in> registered ws. fst (snd t) \<noteq> h} \<union> (\<lambda>(l, m). (l, h, m)) ` set (w_listeners w)"
  by (auto simp: registered_def image_iff)

lemma registered_split_None:
  "sm_find (ws_map ws) h = None \<Longrightarrow> registered ws = {t \<in> registered ws. fst (snd t) \<noteq> h}"
  by (auto simp: registered_def)

lemma add_watch_new:
  assumes ok: "ws_ok ws" and new: "(l, h, m) \<notin> registered ws"
  shows "\<exists>ws'. add_watch cur l h m ws = (Inr (), ws') \<and> ws_ok ws' \<and>
           registered ws' = insert (l, h, m) (registered ws) \<and> ws_thread ws' = ws_thread ws"
proof (cases "sm_find (ws_map ws) h")
  case None
  then show ?thesis
    using ok registered_split_None [OF None]
    by (auto simp: add_watch_def ws_ok_put watchers_ok_single registered_put)
next
  case (Some w)
  have w: "watchers_ok w" using ok Some by (simp add: ws_ok_def)
  have lm: "(l, m) \<notin> set (w_listeners w)" using new Some by (simp add: registered_iff)
  let ?w = "count_up m (w\<lparr>w_listeners := w_listeners w @ [(l, m)]\<rparr>)"
  let ?ws = "commit_invoker cur (ws\<lparr>ws_map := sm_put h ?w (ws_map ws)\<rparr>)"
  have "add_watch cur l h m ws = (Inr (), ?ws)" using Some lm by (simp add: add_watch_def)
  moreover have "ws_ok ?ws" using ok w lm by (simp add: ws_ok_put watchers_ok_add)
  moreover have "registered ?ws = insert (l, h, m) (registered ws)"
    using ok registered_split [OF Some] by (auto simp: registered_put)
  ultimately show ?thesis by auto
qed

lemma add_watch_dup:
  assumes "(l, h, m) \<in> registered ws"
  shows "add_watch cur l h m ws = (Inl AssertFailed, ws)"
  using assms by (auto simp: registered_iff add_watch_def)

lemma remove_watch_absent:
  assumes "(l, h, m) \<notin> registered ws"
  shows "remove_watch cur l h m ws = (Inl AssertFailed, ws)"
  using assms by (auto simp: registered_iff remove_watch_def split: option.splits)

lemma remove_watch_present:
  assumes ok: "ws_ok ws" and mem: "(l, h, m) \<in> registered ws"
  shows "\<exists>ws'. remove_watch cur l h m ws = (Inr (), ws') \<and> ws_ok ws' \<and>
           registered ws' = registered ws - {(l, h, m)} \<and> ws_thread ws' = ws_thread ws"
proof -
  obtain w where w: "sm_find (ws_map ws) h = Some w" "(l, m) \<in> set (w_listeners w)"
    using mem by (auto simp: registered_iff)
  have wok: "watchers_ok w" using ok w by (simp add: ws_ok_def)
  let ?ls = "erase_first (\<lambda>p. p = (l, m)) (w_listeners w)"
  let ?w = "count_down m (w\<lparr>w_listeners := ?ls\<rparr>)"
  have ls: "set ?ls = set (w_listeners w) - {(l, m)}"
    using wok by (simp add: watchers_ok_def set_erase_first_eq)
  have split: "registered ws - {(l, h, m)} =
      {t \<in> registered ws. fst (snd t) \<noteq> h} \<union> (\<lambda>(l, m). (l, h, m)) ` set ?ls"
    using w(1) by (force simp: registered_def image_iff ls)
  show ?thesis
  proof (cases "?ls = []")
    case True
    with w ok split show ?thesis
      by (auto simp: remove_watch_def Let_def ws_ok_erase registered_erase)
  next
    case False
    with w ok wok split show ?thesis
      by (auto simp: remove_watch_def Let_def ws_ok_put watchers_ok_remove registered_put)
  qed
qed

section \<open>The registry as an interface\<close>

text \<open>
  What a listener's owner relies on: a new watch is registered, a registered one is removed,
  and the two misuses (adding twice, removing what is not there) fail the developer assertion
  without touching the registry.
\<close>

locale watch_registry =
  fixes add :: "listener \<Rightarrow> int \<Rightarrow> wait_mode \<Rightarrow> ('w, unit) prog"
    and remove :: "listener \<Rightarrow> int \<Rightarrow> wait_mode \<Rightarrow> ('w, unit) prog"
    and entries :: "'w \<Rightarrow> (listener \<times> int \<times> wait_mode) set"
    and good :: "'w \<Rightarrow> bool"
  assumes add_new: "good w \<Longrightarrow> (l, h, m) \<notin> entries w \<Longrightarrow>
        \<exists>w'. add l h m w = (Inr (), w') \<and> good w' \<and> entries w' = insert (l, h, m) (entries w)"
    and add_dup: "(l, h, m) \<in> entries w \<Longrightarrow> add l h m w = (Inl AssertFailed, w)"
    and remove_present: "good w \<Longrightarrow> (l, h, m) \<in> entries w \<Longrightarrow>
        \<exists>w'. remove l h m w = (Inr (), w') \<and> good w' \<and> entries w' = entries w - {(l, h, m)}"
    and remove_absent: "(l, h, m) \<notin> entries w \<Longrightarrow> remove l h m w = (Inl AssertFailed, w)"
begin

lemma add_keeps_good: "good w \<Longrightarrow> good (snd (add l h m w))"
  using add_new [of w l h m] add_dup [of l h m w] by (cases "(l, h, m) \<in> entries w") auto

lemma remove_keeps_good: "good w \<Longrightarrow> good (snd (remove l h m w))"
  by (cases "(l, h, m) \<in> entries w") (metis remove_present snd_conv, metis remove_absent snd_conv)

lemma add_entries:
  assumes "good w" and "(l, h, m) \<notin> entries w"
  obtains w' where "add l h m w = (Inr (), w')" and "good w'"
    and "entries w' = insert (l, h, m) (entries w)"
  using add_new [OF assms] by blast

lemma remove_entries:
  assumes "good w" and "(l, h, m) \<in> entries w"
  obtains w' where "remove l h m w = (Inr (), w')" and "good w'"
    and "entries w' = entries w - {(l, h, m)}"
  using remove_present [OF assms] by blast

lemma add_remove:
  assumes "good w" and "(l, h, m) \<notin> entries w"
  shows "\<exists>w'. thenP (add l h m) (remove l h m) w = (Inr (), w') \<and> good w' \<and> entries w' = entries w"
proof -
  obtain u where u: "add l h m w = (Inr (), u)" "good u" "entries u = insert (l, h, m) (entries w)"
    using add_entries [OF assms] .
  obtain v where "remove l h m u = (Inr (), v)" "good v" "entries v = entries u - {(l, h, m)}"
    using remove_entries [of u l h m] u by auto
  with u assms show ?thesis by (simp add: prog_simps)
qed

end

interpretation watches: watch_registry "add_watch cur" "remove_watch cur" registered ws_ok
  for cur
proof (unfold_locales, goal_cases)
  case (1 w l h m)
  then show ?case using add_watch_new [of w l h m cur] by blast
next
  case (2 l h m w)
  then show ?case by (rule add_watch_dup)
next
  case (3 w l h m)
  then show ?case using remove_watch_present [of w l h m cur] by blast
next
  case (4 l h m w)
  then show ?case by (rule remove_watch_absent)
qed

text \<open>The watched handles are exactly those with a registered listener.\<close>

lemma watchers_mode:
  assumes "watchers_ok w"
  shows "(m = WaitRead \<and> 0 < w_reads w \<or> m = WaitWrite \<and> 0 < w_writes w) \<longleftrightarrow>
           (\<exists>l. (l, m) \<in> set (w_listeners w))"
  using assms by (cases m) (force simp: watchers_ok_def filter_empty_conv)+

lemma waitable_watcher_handles_iff:
  assumes "ws_ok ws"
  shows "(h, m) \<in> set (waitable_watcher_handles ws) \<longleftrightarrow> (\<exists>l. (l, h, m) \<in> registered ws)"
proof -
  have ok: "sm_ok (ws_map ws)" using assms by (simp add: ws_ok_def)
  have "(h, m) \<in> set (waitable_watcher_handles ws) \<longleftrightarrow>
     (\<exists>w. (h, w) \<in> set (ws_map ws) \<and>
          (m = WaitRead \<and> 0 < w_reads w \<or> m = WaitWrite \<and> 0 < w_writes w))"
    by (fastforce simp: waitable_watcher_handles_def split: if_splits)
  also have "\<dots> \<longleftrightarrow> (\<exists>w. sm_find (ws_map ws) h = Some w \<and> (\<exists>l. (l, m) \<in> set (w_listeners w)))"
    using assms watchers_mode unfolding ws_ok_def by (metis sm_find_eq_Some)
  finally show ?thesis by (auto simp: registered_iff)
qed

section \<open>Dispatch\<close>

text \<open>
  The look-up of the listener in the copied watcher succeeds for every listener of the copied
  list, so only the disappearance of the whole watcher stops the dispatch.
\<close>

primrec notify_all ::
  "('s \<Rightarrow> watch_support) \<Rightarrow> (listener \<Rightarrow> int \<Rightarrow> wait_mode \<Rightarrow> ('s, unit) prog) \<Rightarrow>
   int \<Rightarrow> wait_mode \<Rightarrow> (listener \<times> wait_mode) list \<Rightarrow> ('s, unit) prog" where
  "notify_all ws_of call h mode [] = ret ()"
| "notify_all ws_of call h mode (lm # rest) = (\<lambda>s.
     if sm_find (ws_map (ws_of s)) h = None then ret () s
     else if mode \<noteq> snd lm then notify_all ws_of call h mode rest s
     else thenP (call (fst lm) h (snd lm)) (notify_all ws_of call h mode rest) s)"

lemma call_listeners_notify:
  "set lms \<subseteq> set (w_listeners w) \<Longrightarrow>
     call_listeners ws_of call h mode w lms = notify_all ws_of call h mode lms"
proof (induction lms)
  case Nil
  then show ?case by simp
next
  case (Cons lm lms)
  then show ?case by (intro ext) auto
qed

lemma call_watchers_miss:
  "sm_find m h = None \<Longrightarrow> call_watchers ws_of call h mode m = ret ()"
  by (induction m) (auto simp: fun_eq_iff sm_find_def ret_def split: if_splits)

lemma call_watchers_hit:
  assumes "sm_find m h = Some w" and "sm_find (ws_map (ws_of s)) h \<noteq> None"
  shows "call_watchers ws_of call h mode m s = notify_all ws_of call h mode (w_listeners w) s"
  using assms
  by (induction m) (auto simp: sm_find_def call_listeners_notify split: if_splits)

lemma handle_watcher_notify:
  "handle_watcher ws_of call h mode s =
     (case sm_find (ws_map (ws_of s)) h of
        None \<Rightarrow> ret () s
      | Some w \<Rightarrow> notify_all ws_of call h mode (w_listeners w) s)"
  by (auto simp: handle_watcher_def call_watchers_miss call_watchers_hit split: option.split)

section \<open>Sequences of registrations\<close>

text \<open>\<open>cur\<close> is the calling thread.\<close>

datatype watch_op =
    OpAddWatch "nat option" listener int wait_mode
  | OpRemoveWatch "nat option" listener int wait_mode

fun watch_do :: "watch_op \<Rightarrow> watch_support \<Rightarrow> unit res \<times> watch_support" where
  "watch_do (OpAddWatch cur l h m) ws = add_watch cur l h m ws"
| "watch_do (OpRemoveWatch cur l h m) ws = remove_watch cur l h m ws"

fun watch_spec ::
  "watch_op \<Rightarrow> (listener \<times> int \<times> wait_mode) set \<Rightarrow> unit res \<times> (listener \<times> int \<times> wait_mode) set" where
  "watch_spec (OpAddWatch cur l h m) W =
     (if (l, h, m) \<in> W then (Inl AssertFailed, W) else (Inr (), insert (l, h, m) W))"
| "watch_spec (OpRemoveWatch cur l h m) W =
     (if (l, h, m) \<in> W then (Inr (), W - {(l, h, m)}) else (Inl AssertFailed, W))"

lemma watch_do_spec:
  assumes "ws_ok ws"
  shows "ws_ok (snd (watch_do op ws)) \<and>
         watch_spec op (registered ws) = (fst (watch_do op ws), registered (snd (watch_do op ws)))"
proof (cases op)
  case (OpAddWatch cur l h m)
  show ?thesis
  proof (cases "(l, h, m) \<in> registered ws")
    case True
    with assms watches.add_dup [OF True, of cur] OpAddWatch show ?thesis by simp
  next
    case False
    obtain w where "add_watch cur l h m ws = (Inr (), w)" "ws_ok w"
      "registered w = insert (l, h, m) (registered ws)"
      using watches.add_entries [OF assms False] .
    with False OpAddWatch show ?thesis by simp
  qed
next
  case (OpRemoveWatch cur l h m)
  show ?thesis
  proof (cases "(l, h, m) \<in> registered ws")
    case True
    obtain w where "remove_watch cur l h m ws = (Inr (), w)" "ws_ok w"
      "registered w = registered ws - {(l, h, m)}"
      using watches.remove_entries [OF assms True] .
    with True OpRemoveWatch show ?thesis by simp
  next
    case False
    with assms watches.remove_absent [OF False, of cur] OpRemoveWatch show ?thesis by simp
  qed
qed

lemma watch_run_spec:
  "ws_ok ws \<Longrightarrow>
     ws_ok (snd (run_ops watch_do ops ws)) \<and>
     run_ops watch_spec ops (registered ws) =
       (fst (run_ops watch_do ops ws), registered (snd (run_ops watch_do ops ws)))"
proof (induction ops arbitrary: ws)
  case Nil
  then show ?case by simp
next
  case (Cons op ops)
  from watch_do_spec [OF Cons.prems, of op] Cons.IH [of "snd (watch_do op ws)"] show ?case
    by (simp add: case_prod_unfold)
qed

lemma registered_empty_map: "ws_ok ws \<Longrightarrow> registered ws = {} \<longleftrightarrow> ws_map ws = []"
proof
  assume ok: "ws_ok ws" and none: "registered ws = {}"
  show "ws_map ws = []"
  proof (rule ccontr)
    assume "ws_map ws \<noteq> []"
    then obtain h w where "(h, w) \<in> set (ws_map ws)" by (cases "ws_map ws") auto
    with ok have f: "sm_find (ws_map ws) h = Some w" by (simp add: ws_ok_def sm_find_eq_Some)
    with ok have "w_listeners w \<noteq> []" by (auto simp: ws_ok_def watchers_ok_def)
    then obtain lm where "lm \<in> set (w_listeners w)" by (cases "w_listeners w") auto
    with f have "(fst lm, h, snd lm) \<in> registered ws" by (simp add: registered_iff)
    with none show False by simp
  qed
next
  assume "ws_map ws = []"
  then show "registered ws = {}" by (simp add: registered_def sm_find_def)
qed

text \<open>Three listeners on one descriptor; the callback of the first removes the second's watch.\<close>

definition three_watches :: "watch_op list" where
  "three_watches =
     [OpAddWatch None 1 5 WaitRead, OpAddWatch None 2 5 WaitRead, OpAddWatch None 3 5 WaitRead]"

definition removing_call ::
  "listener \<Rightarrow> int \<Rightarrow> wait_mode \<Rightarrow> (watch_support \<times> (listener \<times> bool) list, unit) prog" where
  "removing_call l h m = (\<lambda>(ws, called).
     let called' = called @ [(l, is_registered l h m ws)]
     in if l = 1 then (fst (remove_watch None 2 h m ws), (snd (remove_watch None 2 h m ws), called'))
        else (Inr (), (ws, called')))"

lemma three_watches_state:
  "snd (run_ops watch_do three_watches (ws_new None)) =
     \<lparr>ws_map = [(5, \<lparr>w_listeners = [(1, WaitRead), (2, WaitRead), (3, WaitRead)],
                     w_reads = 3, w_writes = 0\<rparr>)],
      ws_thread = None, ws_invoker = False, ws_commit = False, ws_direct = 3\<rparr>"
  by (simp add: three_watches_def add_watch_def sm_find_def ws_new_def no_watchers_def
      commit_invoker_def)

section \<open>Properties\<close>

text \<open>
  \<open>WaitForMultipleHandles\<close> asks \<open>select\<close> for exactly the given handles (reads, writes, and
  all of them for exceptional conditions, with nfds one above the greatest) and answers, in
  increasing order and without repetition, the indexes of the handles that are ready for their mode
  or in error.  A descriptor outside \<open>FD_SET\<close>'s range is not checked for: that access is undefined.
\<close>

theorem wait_multiple_meaning:
  "wait_multiple_ex select hs ms =
     (if \<exists>h. h \<in> fst ` set hs \<and> \<not> fd_ok h then Inl UndefinedBehaviour
      else (case select (foldl max (-1) (map fst hs) + 1) {h. (h, WaitRead) \<in> set hs}
                   {h. (h, WaitWrite) \<in> set hs} (fst ` set hs) (effective_timeout ms) of
              None \<Rightarrow> Inl WaitFailed
            | Some ready \<Rightarrow>
                Inr (filter (\<lambda>k. handle_ready ready (hs ! k)) [0..<length hs])))"
proof (cases "\<exists>h. h \<in> fst ` set hs \<and> \<not> fd_ok h")
  case True
  then have "fill_sets hs (-1, {}, {}, {}) = Inl UndefinedBehaviour"
    by (intro fill_sets_bad) force
  with True show ?thesis by (simp add: wait_multiple_ex_def)
next
  case False
  then have "\<forall>(h, m) \<in> set hs. fd_ok h" by force
  from fill_sets_ok [OF this, of "-1" "{}" "{}" "{}"] False show ?thesis
    by (auto simp: wait_multiple_ex_def collect_indexes_filter split: option.split)
qed

text \<open>
  C9: The watch registry behaves as a set of (listener, handle, mode) triples under any sequence of
  additions and removals from any threads: adding twice and removing what is absent fail the
  assertion and change nothing.  At every point the handles given to the event loop are exactly
  the watched ones, once per mode, and the destructor's leak assertion passes exactly when every
  watch has been removed.
\<close>

theorem watch_registry_refines:
  "case (run_ops watch_do ops (ws_new thr), run_ops watch_spec ops {}) of
     ((outs, ws), (spec_outs, W)) \<Rightarrow>
       outs = spec_outs \<and> ws_ok ws \<and> registered ws = W \<and>
       set (waitable_watcher_handles ws) = snd ` W \<and>
       fst (ws_destroy ws) = (if W = {} then Inr () else Inl AssertFailed)"
proof -
  obtain outs ws where run: "run_ops watch_do ops (ws_new thr) = (outs, ws)"
    by (cases "run_ops watch_do ops (ws_new thr)")
  have ok: "ws_ok ws" and spec: "run_ops watch_spec ops {} = (outs, registered ws)"
    using watch_run_spec [OF ws_new_ok(1), of ops thr] by (simp_all only: run ws_new_ok fst_conv snd_conv)
  have "(h, m) \<in> set (waitable_watcher_handles ws) \<longleftrightarrow> (h, m) \<in> snd ` registered ws" for h m
    unfolding waitable_watcher_handles_iff [OF ok] by force
  then have "set (waitable_watcher_handles ws) = snd ` registered ws" by auto
  with ok show ?thesis
    by (simp add: run spec registered_empty_map ws_destroy_def assertP_def)
qed

text \<open>
  \<open>HandleWatcher\<close> calls, in registration order, every listener of the handle that was registered
  for the mode when it was entered, and stops only when the handle's watcher disappears as a whole:
  the check for a single removed listener looks at the copy taken at entry and never stops it.
\<close>

theorem handle_watcher_snapshot:
  "handle_watcher ws_of call h mode s =
     (case sm_find (ws_map (ws_of s)) h of
        None \<Rightarrow> ret () s
      | Some w \<Rightarrow> notify_all ws_of call h mode (w_listeners w) s)"
  by (rule handle_watcher_notify)

text \<open>
  Consequence: a listener whose watch was removed by an earlier listener of the same event is
  still called.  Listeners 1, 2 and 3 watch descriptor 5; the callback of 1 removes the watch of
  2; all three callbacks run, although 2 is no longer registered when its turn comes.
\<close>

theorem removed_listener_still_called:
  "snd (snd (handle_watcher fst removing_call 5 WaitRead
               (snd (run_ops watch_do three_watches (ws_new None)), []))) =
     [(1, True), (2, False), (3, True)]"
  unfolding three_watches_state
  by (simp add: handle_watcher_notify bindP_def thenP_def ret_def sm_find_def removing_call_def
      is_registered_def remove_watch_def commit_invoker_def)

end
