(* ===== verification/GenericSocket.thy ===== *)
theory GenericSocket
  imports BinaryQueue WaitableHandles
begin

text \<open>
  \<open>DPL::Socket::GenericSocket\<close> (modules/socket/include/dpl/socket/generic_socket.h): a
  non-blocking socket and its internal state.  A program runs on the socket and on the watch
  registry of the execution context it inherits.  What the kernel and the virtual members of the
  derived class answer are arguments; system calls are the ones \<open>TEMP_FAILURE_RETRY\<close> has
  already repeated on \<open>EINTR\<close>.
\<close>

datatype internal_state = StNone | StPrepare | StListening | StConnecting | StConnected

datatype socket_event = AcceptEvent | ConnectedEvent | ReadEvent | WriteEvent

datatype errno =
    EAGAIN | EBADF | ECONNRESET | EINTR | EINVAL | ENOTCONN | ENOTSOCK | EOPNOTSUPP
  | ETIMEDOUT | EIO | ENOBUFS | ENOMEM | EDESTADDRREQ | EMSGSIZE | EPIPE | EACCES
  | ENETDOWN | ENETUNREACH | EINPROGRESS | ENOENT | EOther nat

record gsocket =
  gs_socket :: int
  gs_state :: internal_state
  gs_events :: "socket_event list"
  gs_self :: listener

type_synonym 'a gs_prog = "(gsocket \<times> watch_support, 'a) prog"

definition gs_new :: "listener \<Rightarrow> gsocket" where
  "gs_new self = \<lparr>gs_socket = -1, gs_state = StNone, gs_events = [], gs_self = self\<rparr>"

definition default_read_buffer_size :: nat where
  "default_read_buffer_size = 4096"

section \<open>Watches and small steps\<close>

text \<open>\<open>InheritedContext()\<close> is the registry of the calling thread.\<close>

definition gs_add_watch :: "wait_mode \<Rightarrow> unit gs_prog" where
  "gs_add_watch m = (\<lambda>(s, ws).
     case add_watch (ws_thread ws) (gs_self s) (gs_socket s) m ws of (r, ws') \<Rightarrow> (r, (s, ws')))"

definition gs_remove_watch :: "wait_mode \<Rightarrow> unit gs_prog" where
  "gs_remove_watch m = (\<lambda>(s, ws).
     case remove_watch (ws_thread ws) (gs_self s) (gs_socket s) m ws of (r, ws') \<Rightarrow> (r, (s, ws')))"

definition gs_set_state :: "internal_state \<Rightarrow> unit gs_prog" where
  "gs_set_state st = modifyP (\<lambda>(s, ws). (s\<lparr>gs_state := st\<rparr>, ws))"

definition gs_set_socket :: "int \<Rightarrow> unit gs_prog" where
  "gs_set_socket fd = modifyP (\<lambda>(s, ws). (s\<lparr>gs_socket := fd\<rparr>, ws))"

definition gs_emit :: "socket_event \<Rightarrow> unit gs_prog" where
  "gs_emit e = modifyP (\<lambda>(s, ws). (s\<lparr>gs_events := gs_events s @ [e]\<rparr>, ws))"

definition gs_require :: "internal_state \<Rightarrow> exn \<Rightarrow> unit gs_prog" where
  "gs_require st e = (\<lambda>(s, ws). if gs_state s \<noteq> st then raise e (s, ws) else ret () (s, ws))"

definition gs_check :: "bool \<Rightarrow> exn \<Rightarrow> unit gs_prog" where
  "gs_check b e = (if b then ret () else raise e)"

section \<open>The members\<close>

definition gs_set_nonblocking :: "bool \<Rightarrow> unit gs_prog" where
  "gs_set_nonblocking fcntl_ok = gs_check fcntl_ok SetNonBlockingFailed"

definition gs_on_waitable_handle_event :: "int \<Rightarrow> wait_mode \<Rightarrow> unit gs_prog" where
  "gs_on_waitable_handle_event h mode =
     thenP (assertP (\<lambda>(s, ws). h = gs_socket s)) (\<lambda>(s, ws).
       (case gs_state s of
          StNone \<Rightarrow> ret ()
        | StPrepare \<Rightarrow> raise AssertFailed
        | StListening \<Rightarrow>
            thenP (assertP (\<lambda>_. mode = WaitRead)) (gs_emit AcceptEvent)
        | StConnecting \<Rightarrow>
            thenP (assertP (\<lambda>_. mode = WaitWrite))
              (thenP (gs_remove_watch WaitWrite)
                (thenP (gs_set_state StConnected)
                  (thenP (gs_add_watch WaitRead) (gs_emit ConnectedEvent))))
        | StConnected \<Rightarrow>
            (if mode = WaitRead then gs_emit ReadEvent
             else if mode = WaitWrite then gs_emit WriteEvent
             else raise AssertFailed)) (s, ws))"

text \<open>\<open>alloc\<close> is \<open>AllocSpecificDescriptor()\<close>, which may throw.\<close>

definition gs_open :: "int res \<Rightarrow> bool \<Rightarrow> unit gs_prog" where
  "gs_open alloc fcntl_ok =
     thenP (gs_require StNone OpenFailed)
       (thenP (assertP (\<lambda>(s, ws). gs_socket s = -1))
         (case alloc of
            Inl e \<Rightarrow> raise e
          | Inr fd \<Rightarrow>
              thenP (gs_set_socket fd)
                (thenP (gs_set_nonblocking fcntl_ok) (gs_set_state StPrepare))))"

text \<open>
  \<open>tr\<close> is \<open>TranslateAddressGenericToSpecific(address)\<close>, \<open>result\<close> the outcome of \<open>connect\<close>.
\<close>

definition gs_connect :: "unit res \<Rightarrow> errno option \<Rightarrow> unit gs_prog" where
  "gs_connect tr result =
     thenP (gs_require StPrepare ConnectFailed)
       (case tr of
          Inl e \<Rightarrow> raise (if e = InvalidAddress then ConnectFailed else e)
        | Inr _ \<Rightarrow>
            (case result of
               None \<Rightarrow>
                 thenP (gs_add_watch WaitRead)
                   (thenP (gs_set_state StConnected) (gs_emit ConnectedEvent))
             | Some err \<Rightarrow>
                 (if err = EINTR \<or> err = EINPROGRESS
                  then thenP (gs_add_watch WaitWrite) (gs_set_state StConnecting)
                  else raise ConnectFailed)))"

definition gs_close :: "bool \<Rightarrow> unit gs_prog" where
  "gs_close close_ok = (\<lambda>(s, ws).
     if gs_state s = StNone then ret () (s, ws)
     else
       thenP (assertP (\<lambda>(s, ws). gs_socket s \<noteq> -1))
         (thenP
           (case gs_state s of
              StListening \<Rightarrow> thenP (gs_remove_watch WaitRead) (gs_set_state StNone)
            | StConnecting \<Rightarrow> thenP (gs_remove_watch WaitWrite) (gs_set_state StNone)
            | StConnected \<Rightarrow> thenP (gs_remove_watch WaitRead) (gs_set_state StNone)
            | _ \<Rightarrow> assertP (\<lambda>(s, ws). gs_state s = StPrepare))
           (thenP (gs_check close_ok CloseFailed)
             (thenP (gs_set_socket (-1)) (gs_set_state StNone)))) (s, ws))"

definition gs_bind :: "unit res \<Rightarrow> bool \<Rightarrow> unit gs_prog" where
  "gs_bind tr bind_ok =
     thenP (gs_require StPrepare BindFailed)
       (case tr of Inl e \<Rightarrow> raise e | Inr _ \<Rightarrow> gs_check bind_ok BindFailed)"

definition gs_listen :: "bool \<Rightarrow> unit gs_prog" where
  "gs_listen listen_ok =
     thenP (gs_require StPrepare ListenFailed)
       (thenP (gs_check listen_ok ListenFailed)
         (thenP (gs_add_watch WaitRead) (gs_set_state StListening)))"

text \<open>
  \<open>Accept\<close> gives the new socket, an object of its own (\<open>new_self\<close>) in the same context, or
  \<open>None\<close> for \<open>NULL\<close>.
\<close>

definition gs_accept :: "errno + int \<Rightarrow> listener \<Rightarrow> bool \<Rightarrow> gsocket option gs_prog" where
  "gs_accept result new_self fcntl_ok =
     thenP (gs_require StListening AcceptFailed)
       (case result of
          Inl err \<Rightarrow>
            (if err = EAGAIN then ret None
             else if err = ENOENT then ret None
             else raise AcceptFailed)
        | Inr client \<Rightarrow> (\<lambda>(s, ws).
            (case gs_add_watch WaitRead ((gs_new new_self)\<lparr>gs_socket := client\<rparr>, ws) of
               (Inl e, (a, ws')) \<Rightarrow> (Inl e, (s, ws'))
             | (Inr _, (a, ws')) \<Rightarrow>
                 (let a' = a\<lparr>gs_state := StConnected\<rparr>
                  in thenP (gs_set_nonblocking fcntl_ok) (ret (Some a')) (s, ws')))))"

definition gs_get_local_address :: "bool \<Rightarrow> 'addr res \<Rightarrow> 'addr gs_prog" where
  "gs_get_local_address getsockname_ok tr =
     (if \<not> getsockname_ok then raise GetPeerNameFailed
      else (case tr of Inl e \<Rightarrow> raise e | Inr a \<Rightarrow> ret a))"

definition gs_get_remote_address :: "bool \<Rightarrow> 'addr res \<Rightarrow> 'addr gs_prog" where
  "gs_get_remote_address getpeername_ok tr =
     (if \<not> getpeername_ok then raise GetPeerNameFailed
      else (case tr of Inl e \<Rightarrow> raise e | Inr a \<Rightarrow> ret a))"

text \<open>The error table of \<open>Read\<close>: \<open>None\<close> is the null buffer of \<open>EAGAIN\<close>.\<close>

fun recv_error :: "errno \<Rightarrow> bqueue option res" where
  "recv_error EAGAIN = Inr None"
| "recv_error EBADF = Inl InternalError"
| "recv_error ECONNRESET = Inl ConnectionBroken"
| "recv_error EINTR = Inl InternalError"
| "recv_error EINVAL = Inl InternalError"
| "recv_error ENOTCONN = Inl InternalError"
| "recv_error ENOTSOCK = Inl InternalError"
| "recv_error EOPNOTSUPP = Inl InternalError"
| "recv_error ETIMEDOUT = Inl ConnectionBroken"
| "recv_error EIO = Inl ConnectionBroken"
| "recv_error ENOBUFS = Inl InternalError"
| "recv_error ENOMEM = Inl InternalError"
| "recv_error _ = Inl InternalError"

text \<open>\<open>recv n\<close> is what the kernel answers to a request of at most \<open>n\<close> bytes.\<close>

definition gs_read :: "nat \<Rightarrow> (nat \<Rightarrow> errno + byte list) \<Rightarrow> bqueue option gs_prog" where
  "gs_read count recv =
     thenP (gs_require StConnected AcceptFailed)
       (let bytesToRead = (if count > default_read_buffer_size then default_read_buffer_size else count)
        in catchP
             (case recv bytesToRead of
                Inr bs \<Rightarrow>
                  (if length bs > 0
                   then ret (Some (bq_append_unmanaged bs BufferDeleterFree 0 bq_new))
                   else ret (Some bq_new))
              | Inl err \<Rightarrow> (case recv_error err of Inl e \<Rightarrow> raise e | Inr q \<Rightarrow> ret q))
             (\<lambda>e. e = InternalError) (\<lambda>_. raise ReadFailed))"

fun send_error :: "errno \<Rightarrow> nat res" where
  "send_error EAGAIN = Inr 0"
| "send_error EBADF = Inl InternalError"
| "send_error ECONNRESET = Inl ConnectionBroken"
| "send_error EDESTADDRREQ = Inl InternalError"
| "send_error EINTR = Inl InternalError"
| "send_error EMSGSIZE = Inl InternalError"
| "send_error ENOTCONN = Inl InternalError"
| "send_error ENOTSOCK = Inl InternalError"
| "send_error EOPNOTSUPP = Inl InternalError"
| "send_error EPIPE = Inl ConnectionBroken"
| "send_error EACCES = Inl ConnectionBroken"
| "send_error EIO = Inl ConnectionBroken"
| "send_error ENETDOWN = Inl ConnectionBroken"
| "send_error ENETUNREACH = Inl ConnectionBroken"
| "send_error ENOBUFS = Inl InternalError"
| "send_error _ = Inl InternalError"

definition gs_write :: "bqueue \<Rightarrow> nat \<Rightarrow> (byte list \<Rightarrow> errno + nat) \<Rightarrow> nat gs_prog" where
  "gs_write buffer bufferSize send =
     thenP (gs_require StConnected AcceptFailed)
       (let n = (if bufferSize > bq_Size buffer then bq_Size buffer else bufferSize)
        in catchP
             (case bq_flatten n buffer of
                Inl e \<Rightarrow> raise e
              | Inr flattened \<Rightarrow>
                  (case send flattened of
                     Inr k \<Rightarrow> (if k > 0 then ret k else raise InternalError)
                   | Inl err \<Rightarrow> (case send_error err of Inl e \<Rightarrow> raise e | Inr k \<Rightarrow> ret k)))
             (\<lambda>e. e = InternalError) (\<lambda>_. raise WriteFailed))"

text \<open>The destructor closes, ignores a failed close, and asserts that the descriptor is gone.\<close>

definition gs_destroy :: "bool \<Rightarrow> unit gs_prog" where
  "gs_destroy close_ok =
     thenP (catchP (gs_close close_ok) (\<lambda>e. e = CloseFailed) (\<lambda>_. ret ()))
       (assertP (\<lambda>(s, ws). gs_socket s = -1))"

section \<open>Invariants\<close>

text \<open>The watch each state keeps on the descriptor.\<close>

fun state_watch :: "internal_state \<Rightarrow> wait_mode option" where
  "state_watch StNone = None"
| "state_watch StPrepare = None"
| "state_watch StListening = Some WaitRead"
| "state_watch StConnecting = Some WaitWrite"
| "state_watch StConnected = Some WaitRead"

definition own_watches :: "gsocket \<Rightarrow> watch_support \<Rightarrow> (listener \<times> int \<times> wait_mode) set" where
  "own_watches s ws = {t \<in> registered ws. fst t = gs_self s}"

definition gs_watch_inv :: "gsocket \<times> watch_support \<Rightarrow> bool" where
  "gs_watch_inv = (\<lambda>(s, ws).
     ws_ok ws \<and>
     own_watches s ws =
       (case state_watch (gs_state s) of None \<Rightarrow> {} | Some m \<Rightarrow> {(gs_self s, gs_socket s, m)}))"

definition gs_fd_inv :: "gsocket \<times> watch_support \<Rightarrow> bool" where
  "gs_fd_inv = (\<lambda>(s, ws). gs_state s = StNone \<longleftrightarrow> gs_socket s = -1)"

lemma gs_new_inv:
  assumes "ws_ok ws" and "\<forall>h m. (self, h, m) \<notin> registered ws"
  shows "gs_watch_inv (gs_new self, ws) \<and> gs_fd_inv (gs_new self, ws)"
  using assms by (auto simp: gs_watch_inv_def gs_fd_inv_def gs_new_def own_watches_def)

text \<open>The two registry steps, read through the registry's interface.\<close>

lemma gs_add_watch_step:
  assumes "ws_ok ws" and "own_watches s ws = {}"
  shows "\<exists>ws'. gs_add_watch m (s, ws) = (Inr (), (s, ws')) \<and> ws_ok ws' \<and>
           own_watches s ws' = {(gs_self s, gs_socket s, m)}"
proof -
  have "(gs_self s, gs_socket s, m) \<notin> registered ws"
    using assms(2) by (auto simp: own_watches_def)
  then obtain ws' where "add_watch (ws_thread ws) (gs_self s) (gs_socket s) m ws = (Inr (), ws')"
    and ok: "ws_ok ws'" and reg: "registered ws' = insert (gs_self s, gs_socket s, m) (registered ws)"
    using watches.add_entries [OF assms(1)] by blast
  moreover have "own_watches s ws' = insert (gs_self s, gs_socket s, m) (own_watches s ws)"
    by (auto simp: own_watches_def reg)
  ultimately show ?thesis
    using assms(2) by (simp add: gs_add_watch_def)
qed

lemma gs_remove_watch_step:
  assumes "ws_ok ws" and "own_watches s ws = {(gs_self s, gs_socket s, m)}"
  shows "\<exists>ws'. gs_remove_watch m (s, ws) = (Inr (), (s, ws')) \<and> ws_ok ws' \<and> own_watches s ws' = {}"
proof -
  have "(gs_self s, gs_socket s, m) \<in> registered ws"
    using assms(2) by (auto simp: own_watches_def)
  then obtain ws' where "remove_watch (ws_thread ws) (gs_self s) (gs_socket s) m ws = (Inr (), ws')"
    and ok: "ws_ok ws'" and reg: "registered ws' = registered ws - {(gs_self s, gs_socket s, m)}"
    using watches.remove_entries [OF assms(1)] by blast
  moreover have "own_watches s ws' = own_watches s ws - {(gs_self s, gs_socket s, m)}"
    by (auto simp: own_watches_def reg)
  ultimately show ?thesis
    using assms(2) by (simp add: gs_remove_watch_def)
qed

lemma own_watches_cong [simp]:
  "own_watches (s\<lparr>gs_state := st\<rparr>) ws = own_watches s ws"
  "own_watches (s\<lparr>gs_socket := fd\<rparr>) ws = own_watches s ws"
  "own_watches (s\<lparr>gs_events := es\<rparr>) ws = own_watches s ws"
  by (simp_all add: own_watches_def)

lemmas gs_step_defs = gs_set_state_def gs_set_socket_def gs_emit_def gs_require_def gs_check_def
  gs_set_nonblocking_def

text \<open>
  Outcome of each member on a state with the invariants.  The lemmas give the state reached and
  exclude \<open>AssertFailed\<close>.
\<close>

definition gs_good :: "gsocket \<times> watch_support \<Rightarrow> bool" where
  "gs_good st \<longleftrightarrow> gs_watch_inv st \<and> gs_fd_inv st"

lemma gs_good_iff:
  "gs_good (s, ws) \<longleftrightarrow> ws_ok ws \<and> (gs_state s = StNone \<longleftrightarrow> gs_socket s = -1) \<and>
     own_watches s ws =
       (case state_watch (gs_state s) of None \<Rightarrow> {} | Some m \<Rightarrow> {(gs_self s, gs_socket s, m)})"
  by (auto simp: gs_good_def gs_watch_inv_def gs_fd_inv_def)

lemma gs_open_good:
  assumes "gs_good (s, ws)" and "alloc = Inr fd" and "fd \<noteq> -1"
  shows "gs_open alloc True (s, ws) =
           (if gs_state s = StNone
            then (Inr (), (s\<lparr>gs_socket := fd, gs_state := StPrepare\<rparr>, ws))
            else (Inl OpenFailed, (s, ws)))"
    and "gs_good (snd (gs_open alloc True (s, ws)))"
  using assms by (auto simp: gs_good_iff gs_open_def prog_simps gs_step_defs)

lemma gs_prepared_add:
  assumes "gs_good (s, ws)" and "gs_state s = StPrepare"
  shows "\<exists>ws'. gs_add_watch m (s, ws) = (Inr (), (s, ws')) \<and> ws_ok ws' \<and>
           own_watches s ws' = {(gs_self s, gs_socket s, m)}"
  using assms by (intro gs_add_watch_step) (auto simp: gs_good_iff)

lemma gs_connect_good:
  assumes "gs_good (s, ws)"
  shows "gs_good (snd (gs_connect tr result (s, ws)))"
    and "fst (gs_connect tr result (s, ws)) \<noteq> Inl AssertFailed \<or> tr = Inl AssertFailed"
proof -
  obtain wr ww where
    r: "gs_state s = StPrepare \<Longrightarrow> gs_add_watch WaitRead (s, ws) = (Inr (), (s, wr)) \<and> ws_ok wr \<and>
          own_watches s wr = {(gs_self s, gs_socket s, WaitRead)}" and
    w: "gs_state s = StPrepare \<Longrightarrow> gs_add_watch WaitWrite (s, ws) = (Inr (), (s, ww)) \<and> ws_ok ww \<and>
          own_watches s ww = {(gs_self s, gs_socket s, WaitWrite)}"
    using gs_prepared_add [OF assms] by metis
  show "gs_good (snd (gs_connect tr result (s, ws)))"
    using assms r w
    by (cases "gs_state s = StPrepare"; cases tr; cases result)
      (auto simp: gs_connect_def prog_simps gs_step_defs gs_good_iff)
  show "fst (gs_connect tr result (s, ws)) \<noteq> Inl AssertFailed \<or> tr = Inl AssertFailed"
    using assms r w
    by (cases "gs_state s = StPrepare"; cases tr; cases result)
      (auto simp: gs_connect_def prog_simps gs_step_defs gs_good_iff)
qed

lemma gs_close_good:
  assumes "gs_good (s, ws)"
  shows "\<exists>ws'. ws_ok ws' \<and> own_watches s ws' = {} \<and>
           gs_close True (s, ws) = (Inr (), (s\<lparr>gs_socket := -1, gs_state := StNone\<rparr>, ws'))"
proof (cases "state_watch (gs_state s)")
  case None
  with assms show ?thesis
    by (cases "gs_state s")
      (auto simp: gs_close_def prog_simps gs_step_defs gs_good_iff)
next
  case (Some m)
  have "ws_ok ws" "own_watches s ws = {(gs_self s, gs_socket s, m)}"
    using assms Some by (auto simp: gs_good_iff)
  then obtain ws' where "gs_remove_watch m (s, ws) = (Inr (), (s, ws'))" "ws_ok ws'"
    "own_watches s ws' = {}"
    using gs_remove_watch_step by blast
  with assms Some show ?thesis
    by (cases "gs_state s")
      (auto simp: gs_close_def prog_simps gs_step_defs gs_good_iff)
qed

lemma gs_listen_good:
  assumes "gs_good (s, ws)"
  shows "gs_good (snd (gs_listen b (s, ws)))" and "fst (gs_listen b (s, ws)) \<noteq> Inl AssertFailed"
proof -
  obtain wr where
    r: "gs_state s = StPrepare \<Longrightarrow> gs_add_watch WaitRead (s, ws) = (Inr (), (s, wr)) \<and> ws_ok wr \<and>
          own_watches s wr = {(gs_self s, gs_socket s, WaitRead)}"
    using gs_prepared_add [OF assms] by metis
  show "gs_good (snd (gs_listen b (s, ws)))" "fst (gs_listen b (s, ws)) \<noteq> Inl AssertFailed"
    using assms r
    by (cases "gs_state s = StPrepare"; cases b;
        auto simp: gs_listen_def prog_simps gs_step_defs gs_good_iff)+
qed

lemma gs_bind_state [simp]: "snd (gs_bind tr b st) = st"
  by (cases st; cases tr) (auto simp: gs_bind_def prog_simps gs_step_defs)

lemma gs_read_state [simp]: "snd (gs_read n recv st) = st"
  by (cases st) (auto simp: gs_read_def prog_simps gs_step_defs Let_def split: sum.split)

lemma gs_write_state [simp]: "snd (gs_write q n send st) = st"
  by (cases st) (auto simp: gs_write_def prog_simps gs_step_defs Let_def split: sum.split)

lemma gs_event_good:
  assumes "gs_good (s, ws)" and "(gs_self s, h, mode) \<in> registered ws"
  shows "\<exists>s' ws'. gs_on_waitable_handle_event h mode (s, ws) = (Inr (), (s', ws')) \<and>
           gs_good (s', ws') \<and> gs_self s' = gs_self s"
proof -
  have own: "(gs_self s, h, mode) \<in> own_watches s ws"
    using assms(2) by (simp add: own_watches_def)
  have hm: "h = gs_socket s \<and> state_watch (gs_state s) = Some mode"
    using assms(1) own by (cases "state_watch (gs_state s)") (auto simp: gs_good_iff)
  show ?thesis
  proof (cases "gs_state s")
    case StConnecting
    with hm have mode: "mode = WaitWrite" by simp
    have "ws_ok ws" "own_watches s ws = {(gs_self s, gs_socket s, WaitWrite)}"
      using assms(1) StConnecting by (simp_all add: gs_good_iff)
    then obtain u where u: "gs_remove_watch WaitWrite (s, ws) = (Inr (), (s, u))" "ws_ok u"
      "own_watches s u = {}"
      using gs_remove_watch_step by blast
    let ?s = "s\<lparr>gs_state := StConnected\<rparr>"
    obtain v where "gs_add_watch WaitRead (?s, u) = (Inr (), (?s, v))" "ws_ok v"
      "own_watches ?s v = {(gs_self ?s, gs_socket ?s, WaitRead)}"
      using gs_add_watch_step [of u ?s WaitRead] u by auto
    with u hm mode StConnecting assms(1) show ?thesis
      by (auto simp: gs_on_waitable_handle_event_def prog_simps gs_step_defs gs_good_iff)
  qed (use hm assms(1) in \<open>auto simp: gs_on_waitable_handle_event_def prog_simps gs_step_defs gs_good_iff\<close>)
qed

text \<open>\<open>Accept\<close> sets a second socket up; both keep the invariants.\<close>

lemma gs_accept_good:
  assumes "gs_good (s, ws)" and "new_self \<noteq> gs_self s" and "\<forall>h m. (new_self, h, m) \<notin> registered ws"
    and "gs_accept result new_self fcntl_ok (s, ws) = (r, st')"
  shows "r \<noteq> Inl AssertFailed \<and> fst st' = s \<and> gs_good st' \<and>
         (\<forall>a. r = Inr (Some a) \<longrightarrow> result = Inr (gs_socket a) \<and> gs_state a = StConnected \<and>
                gs_watch_inv (a, snd st'))"
proof (cases "gs_state s = StListening \<and> (\<exists>client. result = Inr client)")
  case False
  with assms show ?thesis
    by (cases result) (auto simp: gs_accept_def prog_simps gs_step_defs split: if_splits)
next
  case True
  then obtain client where c: "result = Inr client" by blast
  let ?a = "(gs_new new_self)\<lparr>gs_socket := client\<rparr>"
  have ok: "ws_ok ws" using assms(1) by (simp add: gs_good_iff)
  have free: "own_watches ?a ws = {}" using assms(3) by (auto simp: own_watches_def gs_new_def)
  have new: "(new_self, client, WaitRead) \<notin> registered ws" using assms(3) by blast
  obtain ws' where add: "add_watch (ws_thread ws) new_self client WaitRead ws = (Inr (), ws')" "ws_ok ws'"
    "registered ws' = insert (new_self, client, WaitRead) (registered ws)"
    using watches.add_entries [OF ok new] by blast
  have "own_watches s ws' = own_watches s ws"
    using add(3) assms(2) by (auto simp: own_watches_def)
  moreover have "own_watches ?a ws' = insert (new_self, client, WaitRead) (own_watches ?a ws)"
    using add(3) by (auto simp: own_watches_def gs_new_def)
  note own = this [unfolded free] calculation
  from own(1) have "gs_watch_inv (?a\<lparr>gs_state := StConnected\<rparr>, ws')"
    using add(2) by (simp add: gs_watch_inv_def gs_new_def own_watches_def)
  with own(2) add(1,2) True c assms(1,4) show ?thesis
    by (auto simp: gs_accept_def prog_simps gs_step_defs gs_add_watch_def gs_good_iff gs_new_def
        split: if_splits)
qed

section \<open>All operations together\<close>

datatype sock_op =
    OpOpen "int res" bool
  | OpConnect "unit res" "errno option"
  | OpClose bool
  | OpBind "unit res" bool
  | OpListen bool
  | OpAccept "errno + int" listener bool
  | OpEvent int wait_mode
  | OpRead nat "nat \<Rightarrow> errno + byte list"
  | OpWrite bqueue nat "byte list \<Rightarrow> errno + nat"

fun gs_do :: "sock_op \<Rightarrow> unit gs_prog" where
  "gs_do (OpOpen alloc fcntl_ok) = gs_open alloc fcntl_ok"
| "gs_do (OpConnect tr result) = gs_connect tr result"
| "gs_do (OpClose close_ok) = gs_close close_ok"
| "gs_do (OpBind tr bind_ok) = gs_bind tr bind_ok"
| "gs_do (OpListen listen_ok) = gs_listen listen_ok"
| "gs_do (OpAccept result new_self fcntl_ok) =
     bindP (gs_accept result new_self fcntl_ok) (\<lambda>_. ret ())"
| "gs_do (OpEvent h mode) = gs_on_waitable_handle_event h mode"
| "gs_do (OpRead n recv) = bindP (gs_read n recv) (\<lambda>_. ret ())"
| "gs_do (OpWrite q n send) = bindP (gs_write q n send) (\<lambda>_. ret ())"

text \<open>
  The environment in which the socket is used as its documentation asks: \<open>fcntl\<close> and
  \<open>close\<close> succeed (after \<open>SetNonBlockingFailed\<close> and \<open>CloseFailed\<close> it "should be not used
  anymore"), a new descriptor is not -1, an accepted socket is a new listener, the queue given to
  \<open>Write\<close> is a valid one, and events come only for registered watches.
\<close>

fun op_allowed :: "sock_op \<Rightarrow> gsocket \<times> watch_support \<Rightarrow> bool" where
  "op_allowed (OpOpen alloc fcntl_ok) st \<longleftrightarrow> fcntl_ok \<and> alloc \<noteq> Inr (-1) \<and> alloc \<noteq> Inl AssertFailed"
| "op_allowed (OpConnect tr result) st \<longleftrightarrow> tr \<noteq> Inl AssertFailed"
| "op_allowed (OpClose close_ok) st \<longleftrightarrow> close_ok"
| "op_allowed (OpBind tr bind_ok) st \<longleftrightarrow> tr \<noteq> Inl AssertFailed"
| "op_allowed (OpListen listen_ok) st \<longleftrightarrow> True"
| "op_allowed (OpAccept result new_self fcntl_ok) st \<longleftrightarrow>
     fcntl_ok \<and> new_self \<noteq> gs_self (fst st) \<and> new_self \<notin> fst ` registered (snd st)"
| "op_allowed (OpEvent h mode) st \<longleftrightarrow> (gs_self (fst st), h, mode) \<in> registered (snd st)"
| "op_allowed (OpRead n recv) st \<longleftrightarrow> True"
| "op_allowed (OpWrite q n send) st \<longleftrightarrow> bq_ok q"

inductive sock_reach :: "listener \<Rightarrow> gsocket \<times> watch_support \<Rightarrow> bool" for self :: listener where
  start: "ws_ok ws \<Longrightarrow> self \<notin> fst ` registered ws \<Longrightarrow> sock_reach self (gs_new self, ws)"
| env: "sock_reach self (s, ws) \<Longrightarrow> ws_ok ws' \<Longrightarrow> own_watches s ws' = own_watches s ws \<Longrightarrow>
     sock_reach self (s, ws')"
| step: "sock_reach self st \<Longrightarrow> op_allowed op st \<Longrightarrow> gs_do op st = (r, st') \<Longrightarrow> sock_reach self st'"

inductive_cases sock_reachE: "sock_reach self st"

lemma gs_read_no_assert: "fst (gs_read n recv st) \<noteq> Inl AssertFailed"
proof -
  have "recv_error err \<noteq> Inl AssertFailed" for err by (cases err) auto
  then show ?thesis
    by (cases st) (auto simp: gs_read_def prog_simps gs_step_defs Let_def split: sum.split)
qed

lemma gs_write_no_assert:
  assumes "bq_ok q"
  shows "fst (gs_write q n send st) \<noteq> Inl AssertFailed"
proof -
  have "send_error err \<noteq> Inl AssertFailed" for err by (cases err) auto
  then show ?thesis using assms
    by (cases st)
      (auto simp: gs_write_def prog_simps gs_step_defs Let_def bq_flatten_bytes split: sum.split)
qed

lemma bindP_unit: "bindP m (\<lambda>_. ret ()) s = (case m s of (Inl e, t) \<Rightarrow> (Inl e, t) | (Inr _, t) \<Rightarrow> (Inr (), t))"
  by (simp add: bindP_def ret_def split: prod.split sum.split)

lemma bindP_unit_snd: "snd (bindP m (\<lambda>_. ret ()) s) = snd (m s)"
  by (simp add: bindP_unit split: prod.split sum.split)

lemma bindP_unit_Inl: "fst (bindP m (\<lambda>_. ret ()) s) = Inl e \<longleftrightarrow> fst (m s) = Inl e"
  by (auto simp: bindP_unit split: prod.split sum.split)

lemma gs_do_good:
  assumes good: "gs_good st" and allowed: "op_allowed op st"
  shows "gs_good (snd (gs_do op st)) \<and> fst (gs_do op st) \<noteq> Inl AssertFailed"
proof -
  obtain s ws where st: "st = (s, ws)" by (cases st)
  note good = good [unfolded st] and allowed = allowed [unfolded st]
  show ?thesis unfolding st
  proof (cases op)
    case (OpOpen alloc fcntl_ok)
    show "gs_good (snd (gs_do op (s, ws))) \<and> fst (gs_do op (s, ws)) \<noteq> Inl AssertFailed"
    proof (cases alloc)
      case (Inl e)
      with OpOpen good allowed show ?thesis
        by (auto simp: gs_open_def prog_simps gs_step_defs gs_good_iff)
    next
      case (Inr fd)
      with OpOpen good allowed show ?thesis using gs_open_good [OF good, of alloc fd] by auto
    qed
  next
    case (OpClose c)
    with allowed gs_close_good [OF good] show "gs_good (snd (gs_do op (s, ws))) \<and> fst (gs_do op (s, ws)) \<noteq> Inl AssertFailed"
      by (auto simp: gs_good_iff)
  next
    case (OpBind tr b)
    with good allowed show "gs_good (snd (gs_do op (s, ws))) \<and> fst (gs_do op (s, ws)) \<noteq> Inl AssertFailed"
      by (cases tr) (auto simp: gs_bind_def prog_simps gs_step_defs)
  next
    case (OpAccept result n b)
    obtain r st' where "gs_accept result n b (s, ws) = (r, st')" by (cases "gs_accept result n b (s, ws)")
    with OpAccept gs_accept_good [OF good, of n result b r st'] allowed
    show "gs_good (snd (gs_do op (s, ws))) \<and> fst (gs_do op (s, ws)) \<noteq> Inl AssertFailed"
      by (force simp: bindP_unit_snd bindP_unit_Inl)
  next
    case (OpEvent h m)
    with allowed gs_event_good [OF good, of h m]
    show "gs_good (snd (gs_do op (s, ws))) \<and> fst (gs_do op (s, ws)) \<noteq> Inl AssertFailed" by auto
  qed (use good allowed gs_connect_good [OF good] gs_listen_good [OF good] gs_read_no_assert
         gs_write_no_assert in \<open>auto simp: bindP_unit_snd bindP_unit_Inl\<close>)
qed

lemma gs_new_good: "ws_ok ws \<Longrightarrow> self \<notin> fst ` registered ws \<Longrightarrow> gs_good (gs_new self, ws)"
  using gs_new_inv [of ws self] by (force simp: gs_good_def)

lemma sock_reach_good: "sock_reach self st \<Longrightarrow> gs_good st"
proof (induction rule: sock_reach.induct)
  case (start ws)
  then show ?case by (rule gs_new_good)
next
  case (env s ws ws')
  then show ?case by (simp add: gs_good_iff)
next
  case (step st op r st')
  with gs_do_good [of st op] show ?case by simp
qed

section \<open>Properties\<close>

text \<open>
  C3: Safety of the socket's state machine.  In every state reachable by opening, connecting,
  binding, listening, accepting, reading, writing, closing and handling events, in any order and
  with any kernel answers the documentation allows, interleaved with other owners of the same watch
  registry: the descriptor is -1 exactly in the state None, the registry holds exactly the one
  watch the state calls for, and the next operation keeps this and fails no assertion.
\<close>

theorem socket_reachable_safe:
  assumes "sock_reach self st"
  shows "gs_watch_inv st \<and> gs_fd_inv st \<and>
         (op_allowed op st \<longrightarrow>
            gs_good (snd (gs_do op st)) \<and> fst (gs_do op st) \<noteq> Inl AssertFailed)"
  using sock_reach_good [OF assms] gs_do_good [of st op] by (simp add: gs_good_def)

theorem socket_reachable_safe_witness:
  "gs_watch_inv (snd (gs_do (OpListen True) (snd (gs_do (OpOpen (Inr 7) True) (gs_new 1, ws_new None)))))"
proof -
  let ?s0 = "(gs_new 1, ws_new None)"
  let ?s1 = "snd (gs_do (OpOpen (Inr 7) True) ?s0)"
  let ?s2 = "snd (gs_do (OpListen True) ?s1)"
  have "sock_reach 1 ?s0" by (rule sock_reach.start) simp_all
  then have "sock_reach 1 ?s1"
    by (rule sock_reach.step [where op = "OpOpen (Inr 7) True" and r = "fst (gs_do (OpOpen (Inr 7) True) ?s0)"])
      simp_all
  then have "sock_reach 1 ?s2"
    by (rule sock_reach.step [where op = "OpListen True" and r = "fst (gs_do (OpListen True) ?s1)"])
      simp_all
  from socket_reachable_safe [OF this, of "OpClose True"] show ?thesis by blast
qed

text \<open>
  What \<open>Read\<close> answers.  A connected socket asks the kernel for at most 4096 bytes; data is
  handed over as a queue of exactly those bytes, end of stream as an empty queue, \<open>EAGAIN\<close> as the
  null buffer; a broken connection is \<open>ConnectionBroken\<close>, every other error \<open>ReadFailed\<close>; a socket
  that is not connected throws \<open>AcceptFailed\<close>.  The socket itself never changes.
\<close>

theorem socket_read_outcome:
  "gs_read n recv (s, ws) =
     (if gs_state s \<noteq> StConnected then Inl AcceptFailed
      else (case recv (min n 4096) of
              Inr bs \<Rightarrow> Inr (Some (if bs = [] then bq_new else bq_append_unmanaged bs BufferDeleterFree 0 bq_new))
            | Inl err \<Rightarrow>
                if err = EAGAIN then Inr None
                else if err \<in> {ECONNRESET, ETIMEDOUT, EIO} then Inl ConnectionBroken
                else Inl ReadFailed), (s, ws))"
  by (cases "recv (min n 4096)"; cases "n > 4096"; cases "projl (recv (min n 4096))")
    (auto simp: gs_read_def prog_simps gs_step_defs Let_def min_def default_read_buffer_size_def)

text \<open>
  What \<open>Write\<close> answers.  At most the queue's own bytes are sent, in order, in one call; the
  result is the number the kernel took, 0 for \<open>EAGAIN\<close>; a broken connection is
  \<open>ConnectionBroken\<close>; every other error, and a send that takes nothing, is \<open>WriteFailed\<close>, so
  writing an empty queue fails.  The socket and the caller's queue never change.
\<close>

theorem socket_write_outcome:
  assumes "bq_ok q"
  shows "gs_write q n send (s, ws) =
     (if gs_state s \<noteq> StConnected then Inl AcceptFailed
      else (case send (take n (bq_bytes q)) of
              Inr k \<Rightarrow> (if k = 0 then Inl WriteFailed else Inr k)
            | Inl err \<Rightarrow>
                if err = EAGAIN then Inr 0
                else if err \<in> {ECONNRESET, EPIPE, EACCES, EIO, ENETDOWN, ENETUNREACH}
                     then Inl ConnectionBroken
                else Inl WriteFailed), (s, ws))"
proof (cases "send (take n (bq_bytes q))")
  case (Inl err)
  with assms show ?thesis
    by (cases err)
      (auto simp: gs_write_def prog_simps gs_step_defs Let_def bq_flatten_bytes)
next
  case (Inr k)
  with assms show ?thesis
    by (auto simp: gs_write_def prog_simps gs_step_defs Let_def bq_flatten_bytes)
qed

theorem socket_write_outcome_witness:
  "gs_write (bq_append_copy [1, 2, 3] bq_new) 2 (\<lambda>d. Inr (length d))
     ((gs_new 1)\<lparr>gs_state := StConnected, gs_socket := 4\<rparr>, ws_new None) =
   (Inr 2, ((gs_new 1)\<lparr>gs_state := StConnected, gs_socket := 4\<rparr>, ws_new None))"
  using socket_write_outcome [of "bq_append_copy [1, 2, 3] bq_new" 2 "\<lambda>d. Inr (length d)"
      "(gs_new 1)\<lparr>gs_state := StConnected, gs_socket := 4\<rparr>" "ws_new None"]
  by simp

text \<open>
  The failures the documentation declares terminal are: after \<open>SetNonBlockingFailed\<close> in
  \<open>Open\<close> the descriptor is held in state None, and after \<open>CloseFailed\<close> from a listening,
  connecting or connected socket likewise; \<open>Close\<close> then does nothing, and the destructor's
  assertion aborts the process instead of releasing the descriptor.
\<close>

theorem socket_failed_open_close_aborts:
  assumes "gs_good (s, ws)" and "fd \<noteq> -1"
  shows "(gs_state s = StNone \<longrightarrow>
            fst (gs_open (Inr fd) False (s, ws)) = Inl SetNonBlockingFailed \<and>
            fst (gs_destroy True (snd (gs_open (Inr fd) False (s, ws)))) = Inl AssertFailed) \<and>
         (gs_state s \<in> {StListening, StConnecting, StConnected} \<longrightarrow>
            fst (gs_close False (s, ws)) = Inl CloseFailed \<and>
            fst (gs_destroy True (snd (gs_close False (s, ws)))) = Inl AssertFailed \<and>
            fst (gs_destroy False (s, ws)) = Inl AssertFailed)"
proof (intro conjI impI)
  assume st: "gs_state s = StNone"
  with assms show "fst (gs_open (Inr fd) False (s, ws)) = Inl SetNonBlockingFailed"
    "fst (gs_destroy True (snd (gs_open (Inr fd) False (s, ws)))) = Inl AssertFailed"
    by (simp_all add: gs_open_def gs_destroy_def gs_close_def prog_simps gs_step_defs gs_good_iff)
next
  assume st: "gs_state s \<in> {StListening, StConnecting, StConnected}"
  then obtain m where m: "state_watch (gs_state s) = Some m" by auto
  have "ws_ok ws" "own_watches s ws = {(gs_self s, gs_socket s, m)}" and fd: "gs_socket s \<noteq> -1"
    using assms st m by (auto simp: gs_good_iff)
  then obtain ws' where "gs_remove_watch m (s, ws) = (Inr (), (s, ws'))"
    using gs_remove_watch_step by blast
  then have c: "gs_close False (s, ws) = (Inl CloseFailed, (s\<lparr>gs_state := StNone\<rparr>, ws'))"
    using st m fd by (auto simp: gs_close_def prog_simps gs_step_defs)
  have again: "gs_close True (s\<lparr>gs_state := StNone\<rparr>, ws') = (Inr (), (s\<lparr>gs_state := StNone\<rparr>, ws'))"
    by (simp add: gs_close_def ret_def)
  from c again show "fst (gs_close False (s, ws)) = Inl CloseFailed"
    "fst (gs_destroy True (snd (gs_close False (s, ws)))) = Inl AssertFailed"
    "fst (gs_destroy False (s, ws)) = Inl AssertFailed"
    using fd by (simp_all add: gs_destroy_def catchP_def thenP_def bindP_def assertP_def ret_def)
qed

theorem socket_failed_open_close_aborts_witness:
  "fst (gs_destroy True (snd (gs_open (Inr 3) False (gs_new 1, ws_new None)))) = Inl AssertFailed"
  using socket_failed_open_close_aborts [of "gs_new 1" "ws_new None" 3]
  by (simp add: gs_good_iff gs_new_def own_watches_def)

text \<open>
  A pending connection is always reported as established: the first write event on a
  connecting socket moves it to Connected, swaps its write watch for a read watch and emits the
  connected event; the outcome of the connection (\<open>SO_ERROR\<close>) is not consulted.
\<close>

theorem socket_connecting_event_connects:
  assumes "gs_good (s, ws)" and "gs_state s = StConnecting"
  shows "\<exists>ws'. gs_on_waitable_handle_event (gs_socket s) WaitWrite (s, ws) =
                 (Inr (), (s\<lparr>gs_state := StConnected, gs_events := gs_events s @ [ConnectedEvent]\<rparr>, ws')) \<and>
               own_watches s ws' = {(gs_self s, gs_socket s, WaitRead)}"
proof -
  have "ws_ok ws" "own_watches s ws = {(gs_self s, gs_socket s, WaitWrite)}"
    using assms by (simp_all add: gs_good_iff)
  then obtain u where u: "gs_remove_watch WaitWrite (s, ws) = (Inr (), (s, u))" "ws_ok u"
    "own_watches s u = {}"
    using gs_remove_watch_step by blast
  let ?s = "s\<lparr>gs_state := StConnected\<rparr>"
  obtain v where "gs_add_watch WaitRead (?s, u) = (Inr (), (?s, v))"
    "own_watches ?s v = {(gs_self ?s, gs_socket ?s, WaitRead)}"
    using gs_add_watch_step [of u ?s WaitRead] u by auto
  with u assms show ?thesis
    by (auto simp: gs_on_waitable_handle_event_def prog_simps gs_step_defs)
qed

theorem socket_connecting_event_connects_witness:
  "\<exists>s ws. gs_state s = StConnecting \<and>
     (\<exists>ws'. gs_on_waitable_handle_event (gs_socket s) WaitWrite (s, ws) =
        (Inr (), (s\<lparr>gs_state := StConnected, gs_events := gs_events s @ [ConnectedEvent]\<rparr>, ws')))"
proof -
  let ?s1 = "snd (gs_open (Inr 3) True (gs_new 1, ws_new None))"
  let ?s2 = "snd (gs_connect (Inr ()) (Some EINPROGRESS) ?s1)"
  have "gs_good (gs_new 1, ws_new None)" by (simp add: gs_good_iff gs_new_def own_watches_def)
  then have "gs_good ?s1" by (rule gs_open_good(2) [where fd = 3]) simp_all
  then have good: "gs_good ?s2" by (metis gs_connect_good(1) prod.collapse)
  have st: "gs_state (fst ?s2) = StConnecting"
    by (simp add: gs_open_def gs_connect_def prog_simps gs_step_defs gs_new_def gs_add_watch_def
        add_watch_def ws_new_def sm_find_def)
  obtain s ws where "?s2 = (s, ws)" by (cases ?s2)
  with good st have "gs_good (s, ws)" and "gs_state s = StConnecting" by simp_all
  with socket_connecting_event_connects [OF this] show ?thesis by blast
qed

end
