(* ===== verification/IOContext.thy ===== *)
theory IOContext
  imports BinaryQueue WaitableHandles
begin

text \<open>
  \<open>WaitableInputOutputExecutionContextSupport\<close> (modules/socket/src): the read and write
  buffering between a waitable device and a protocol on top of it.  The device is the virtual
  interface \<open>AbstractWaitableInputOutput\<close>, a record of functions on its own state \<open>'d\<close>; the
  protocol's virtual callbacks \<open>OnInputStreamRead\<close>, \<open>OnInputStreamClosed\<close> and
  \<open>OnInputStreamBroken\<close> are programs on a state that extends this one.
\<close>

record 'd io_device =
  dev_read :: "nat \<Rightarrow> 'd \<Rightarrow> bqueue option res \<times> 'd"
  dev_write :: "bqueue \<Rightarrow> nat \<Rightarrow> 'd \<Rightarrow> nat res \<times> 'd"
  dev_read_handle :: "'d \<Rightarrow> int"
  dev_write_handle :: "'d \<Rightarrow> int"

record 'd ioctx =
  io_opened :: bool
  io_hasRead :: bool
  io_hasWrite :: bool
  io_in :: bqueue
  io_out :: bqueue
  io_dev :: 'd
  io_ws :: watch_support
  io_self :: listener

definition default_read_size :: nat where
  "default_read_size = 2048"

definition io_new :: "'d \<Rightarrow> watch_support \<Rightarrow> listener \<Rightarrow> 'd ioctx" where
  "io_new d ws self =
     \<lparr>io_opened = False, io_hasRead = False, io_hasWrite = False, io_in = bq_new, io_out = bq_new,
      io_dev = d, io_ws = ws, io_self = self\<rparr>"

section \<open>Watches\<close>

definition io_add_watch :: "int \<Rightarrow> wait_mode \<Rightarrow> (('d, 'z) ioctx_scheme, unit) prog" where
  "io_add_watch h m s =
     (case add_watch (ws_thread (io_ws s)) (io_self s) h m (io_ws s) of
        (r, ws) \<Rightarrow> (r, s\<lparr>io_ws := ws\<rparr>))"

definition io_remove_watch :: "int \<Rightarrow> wait_mode \<Rightarrow> (('d, 'z) ioctx_scheme, unit) prog" where
  "io_remove_watch h m s =
     (case remove_watch (ws_thread (io_ws s)) (io_self s) h m (io_ws s) of
        (r, ws) \<Rightarrow> (r, s\<lparr>io_ws := ws\<rparr>))"

definition io_add_read_watch :: "'d io_device \<Rightarrow> (('d, 'z) ioctx_scheme, unit) prog" where
  "io_add_read_watch D s = io_add_watch (dev_read_handle D (io_dev s)) WaitRead s"

definition io_remove_read_watch :: "'d io_device \<Rightarrow> (('d, 'z) ioctx_scheme, unit) prog" where
  "io_remove_read_watch D s = io_remove_watch (dev_read_handle D (io_dev s)) WaitRead s"

definition io_add_write_watch :: "'d io_device \<Rightarrow> (('d, 'z) ioctx_scheme, unit) prog" where
  "io_add_write_watch D s = io_add_watch (dev_write_handle D (io_dev s)) WaitWrite s"

definition io_remove_write_watch :: "'d io_device \<Rightarrow> (('d, 'z) ioctx_scheme, unit) prog" where
  "io_remove_write_watch D s = io_remove_watch (dev_write_handle D (io_dev s)) WaitWrite s"

definition io_checked_remove_read :: "'d io_device \<Rightarrow> (('d, 'z) ioctx_scheme, unit) prog" where
  "io_checked_remove_read D s =
     (if \<not> io_hasRead s then ret () s
      else thenP (io_remove_read_watch D) (modifyP (\<lambda>s. s\<lparr>io_hasRead := False\<rparr>)) s)"

definition io_checked_remove_write :: "'d io_device \<Rightarrow> (('d, 'z) ioctx_scheme, unit) prog" where
  "io_checked_remove_write D s =
     (if \<not> io_hasWrite s then ret () s
      else thenP (io_remove_write_watch D) (modifyP (\<lambda>s. s\<lparr>io_hasWrite := False\<rparr>)) s)"

definition io_checked_remove_read_write :: "'d io_device \<Rightarrow> (('d, 'z) ioctx_scheme, unit) prog" where
  "io_checked_remove_read_write D = thenP (io_checked_remove_read D) (io_checked_remove_write D)"

section \<open>Open, close, read, feed\<close>

definition io_open :: "'d io_device \<Rightarrow> 'd \<Rightarrow> (('d, 'z) ioctx_scheme, unit) prog" where
  "io_open D d s =
     (if io_opened s then raise AlreadyOpened s
      else thenP (modifyP (\<lambda>s. s\<lparr>io_dev := d\<rparr>))
             (thenP (assertP (\<lambda>s. io_hasRead s = False))
               (thenP (io_add_read_watch D)
                 (thenP (modifyP (\<lambda>s. s\<lparr>io_hasRead := True\<rparr>))
                   (modifyP (\<lambda>s. s\<lparr>io_opened := True\<rparr>))))) s)"

definition io_close :: "'d io_device \<Rightarrow> (('d, 'z) ioctx_scheme, unit) prog" where
  "io_close D s =
     (if \<not> io_opened s then ret () s
      else thenP (io_checked_remove_read_write D) (modifyP (\<lambda>s. s\<lparr>io_opened := False\<rparr>)) s)"

definition io_destroy :: "'d io_device \<Rightarrow> (('d, 'z) ioctx_scheme, unit) prog" where
  "io_destroy D = io_close D"

text \<open>What \<open>ReadInput\<close> and \<open>FeedOutput\<close> do once the stream is gone.\<close>

definition io_shutdown :: "'d io_device \<Rightarrow> (('d, 'z) ioctx_scheme, unit) prog" where
  "io_shutdown D =
     thenP (assertP (\<lambda>s. io_hasRead s = True))
       (thenP (io_checked_remove_read_write D) (modifyP (\<lambda>s. s\<lparr>io_opened := False\<rparr>)))"

definition io_dev_read :: "'d io_device \<Rightarrow> nat \<Rightarrow> (('d, 'z) ioctx_scheme, bqueue option) prog" where
  "io_dev_read D n s = (case dev_read D n (io_dev s) of (r, d) \<Rightarrow> (r, s\<lparr>io_dev := d\<rparr>))"

definition io_dev_write :: "'d io_device \<Rightarrow> bqueue \<Rightarrow> nat \<Rightarrow> (('d, 'z) ioctx_scheme, nat) prog" where
  "io_dev_write D q n s = (case dev_write D q n (io_dev s) of (r, d) \<Rightarrow> (r, s\<lparr>io_dev := d\<rparr>))"

definition io_consume_out :: "nat \<Rightarrow> (('d, 'z) ioctx_scheme, unit) prog" where
  "io_consume_out n s =
     (case bq_consume n (io_out s) of
        Inl e \<Rightarrow> (Inl e, s)
      | Inr q \<Rightarrow> (Inr (), s\<lparr>io_out := q\<rparr>))"

definition io_feed_output ::
  "'d io_device \<Rightarrow> (('d, 'z) ioctx_scheme, unit) prog \<Rightarrow> (('d, 'z) ioctx_scheme, unit) prog" where
  "io_feed_output D on_broken s =
     (if \<not> io_opened s then raise NotOpened s
      else if bq_Empty (io_out s) then ret () s
      else catchP
             (\<lambda>s. bindP (io_dev_write D (io_out s) (bq_Size (io_out s)))
                (\<lambda>n. thenP
                   (\<lambda>s. if n < bq_Size (io_out s) \<and> \<not> io_hasWrite s
                        then thenP (io_add_write_watch D) (modifyP (\<lambda>s. s\<lparr>io_hasWrite := True\<rparr>)) s
                        else ret () s)
                   (io_consume_out n)) s)
             (\<lambda>e. e = ConnectionBroken) (\<lambda>_. thenP on_broken (io_shutdown D)) s)"

definition io_read_input ::
  "'d io_device \<Rightarrow> (('d, 'z) ioctx_scheme, unit) prog \<Rightarrow> (('d, 'z) ioctx_scheme, unit) prog \<Rightarrow>
   (('d, 'z) ioctx_scheme, unit) prog \<Rightarrow> (('d, 'z) ioctx_scheme, unit) prog" where
  "io_read_input D on_read on_closed on_broken =
     bindP
       (catchP
          (bindP (io_dev_read D default_read_size)
             (\<lambda>buf. case buf of
                None \<Rightarrow> ret False
              | Some q \<Rightarrow>
                  (if bq_Empty q
                   then thenP on_closed (thenP (io_shutdown D) (ret False))
                   else thenP (modifyP (\<lambda>s. s\<lparr>io_in := fst (bq_append_move_from q (io_in s))\<rparr>))
                          (ret True))))
          (\<lambda>e. e = ConnectionBroken)
          (\<lambda>_. thenP on_broken (thenP (io_shutdown D) (ret False))))
       (\<lambda>interpret_data. if interpret_data then on_read else ret ())"

definition io_on_waitable_handle_event ::
  "'d io_device \<Rightarrow> (('d, 'z) ioctx_scheme, unit) prog \<Rightarrow> (('d, 'z) ioctx_scheme, unit) prog \<Rightarrow>
   (('d, 'z) ioctx_scheme, unit) prog \<Rightarrow> wait_mode \<Rightarrow> (('d, 'z) ioctx_scheme, unit) prog" where
  "io_on_waitable_handle_event D on_read on_closed on_broken mode =
     (case mode of
        WaitRead \<Rightarrow> io_read_input D on_read on_closed on_broken
      | WaitWrite \<Rightarrow>
          thenP (io_feed_output D on_broken)
            (\<lambda>s. if bq_Empty (io_out s)
                 then thenP (assertP (\<lambda>s. io_hasWrite s = True)) (io_checked_remove_write D) s
                 else ret () s))"

section \<open>The device's contract\<close>

text \<open>
  What the support relies on in its device: handles are stable, a read gives a valid queue whose
  bytes continue the received stream, and a write takes a prefix of the queue it is given (none
  of it when it throws).  \<open>sent\<close> and \<open>received\<close> are the two byte streams of the connection.
\<close>

locale waitable_io =
  fixes D :: "'d io_device"
    and dev_ok :: "'d \<Rightarrow> bool"
    and sent :: "'d \<Rightarrow> byte list"
    and received :: "'d \<Rightarrow> byte list"
  assumes read_law: "dev_ok d \<Longrightarrow> dev_read D n d = (r, d') \<Longrightarrow>
        dev_ok d' \<and> dev_read_handle D d' = dev_read_handle D d \<and>
        dev_write_handle D d' = dev_write_handle D d \<and> sent d' = sent d \<and>
        (case r of Inr (Some q) \<Rightarrow> bq_ok q \<and> received d' = received d @ bq_bytes q
         | _ \<Rightarrow> received d' = received d)"
    and write_law: "dev_ok d \<Longrightarrow> bq_ok q \<Longrightarrow> dev_write D q n d = (w, d') \<Longrightarrow>
        dev_ok d' \<and> dev_read_handle D d' = dev_read_handle D d \<and>
        dev_write_handle D d' = dev_write_handle D d \<and> received d' = received d \<and>
        (case w of Inr k \<Rightarrow> k \<le> length (bq_bytes q) \<and> sent d' = sent d @ take k (bq_bytes q)
         | Inl e \<Rightarrow> sent d' = sent d)"

section \<open>Invariant\<close>

definition io_watches :: "'d io_device \<Rightarrow> ('d, 'z) ioctx_scheme \<Rightarrow> (listener \<times> int \<times> wait_mode) set" where
  "io_watches D s =
     (if io_hasRead s then {(io_self s, dev_read_handle D (io_dev s), WaitRead)} else {}) \<union>
     (if io_hasWrite s then {(io_self s, dev_write_handle D (io_dev s), WaitWrite)} else {})"

definition io_own :: "('d, 'z) ioctx_scheme \<Rightarrow> (listener \<times> int \<times> wait_mode) set" where
  "io_own s = {t \<in> registered (io_ws s). fst t = io_self s}"

definition io_inv :: "'d io_device \<Rightarrow> ('d \<Rightarrow> bool) \<Rightarrow> ('d, 'z) ioctx_scheme \<Rightarrow> bool" where
  "io_inv D dev_ok s \<longleftrightarrow>
     bq_ok (io_in s) \<and> bq_ok (io_out s) \<and> dev_ok (io_dev s) \<and> ws_ok (io_ws s) \<and>
     io_hasRead s = io_opened s \<and> (io_hasWrite s \<longrightarrow> io_opened s) \<and> io_own s = io_watches D s"

text \<open>A callback that leaves the support's own members alone.\<close>

definition quiet :: "(('d, 'z) ioctx_scheme, unit) prog \<Rightarrow> bool" where
  "quiet cb \<longleftrightarrow> (\<forall>s. fst (cb s) = Inr () \<and> ioctx.truncate (snd (cb s)) = ioctx.truncate s)"

lemma truncate_fields:
  "ioctx.truncate s = ioctx.truncate t \<longleftrightarrow>
     io_opened s = io_opened t \<and> io_hasRead s = io_hasRead t \<and> io_hasWrite s = io_hasWrite t \<and>
     io_in s = io_in t \<and> io_out s = io_out t \<and> io_dev s = io_dev t \<and> io_ws s = io_ws t \<and>
     io_self s = io_self t"
  by (auto simp: ioctx.truncate_def)

lemma quietE:
  assumes "quiet cb"
  obtains t where "cb s = (Inr (), t)" and "ioctx.truncate t = ioctx.truncate s"
  using assms unfolding quiet_def by (metis prod.collapse)

lemma io_inv_truncate:
  "ioctx.truncate t = ioctx.truncate s \<Longrightarrow> io_inv D dev_ok t = io_inv D dev_ok s"
  by (simp add: truncate_fields io_inv_def io_own_def io_watches_def)

subsection \<open>Watch steps\<close>

lemma io_add_watch_step:
  assumes "ws_ok (io_ws s)" and "(io_self s, h, m) \<notin> io_own s"
  shows "\<exists>ws. io_add_watch h m s = (Inr (), s\<lparr>io_ws := ws\<rparr>) \<and> ws_ok ws \<and>
           io_own (s\<lparr>io_ws := ws\<rparr>) = insert (io_self s, h, m) (io_own s)"
proof -
  have "(io_self s, h, m) \<notin> registered (io_ws s)" using assms(2) by (simp add: io_own_def)
  then obtain ws where add: "add_watch (ws_thread (io_ws s)) (io_self s) h m (io_ws s) = (Inr (), ws)"
    "ws_ok ws" "registered ws = insert (io_self s, h, m) (registered (io_ws s))"
    using watches.add_entries [OF assms(1)] by blast
  moreover have "io_own (s\<lparr>io_ws := ws\<rparr>) = insert (io_self s, h, m) (io_own s)"
    by (auto simp: io_own_def add)
  ultimately show ?thesis by (auto simp: io_add_watch_def)
qed

lemma io_remove_watch_step:
  assumes "ws_ok (io_ws s)" and "(io_self s, h, m) \<in> io_own s"
  shows "\<exists>ws. io_remove_watch h m s = (Inr (), s\<lparr>io_ws := ws\<rparr>) \<and> ws_ok ws \<and>
           io_own (s\<lparr>io_ws := ws\<rparr>) = io_own s - {(io_self s, h, m)}"
proof -
  have "(io_self s, h, m) \<in> registered (io_ws s)" using assms(2) by (simp add: io_own_def)
  then obtain ws where rem: "remove_watch (ws_thread (io_ws s)) (io_self s) h m (io_ws s) = (Inr (), ws)"
    "ws_ok ws" "registered ws = registered (io_ws s) - {(io_self s, h, m)}"
    using watches.remove_entries [OF assms(1)] by blast
  moreover have "io_own (s\<lparr>io_ws := ws\<rparr>) = io_own s - {(io_self s, h, m)}"
    by (auto simp: io_own_def rem)
  ultimately show ?thesis by (auto simp: io_remove_watch_def)
qed

lemma io_own_cong [simp]:
  "io_own (s\<lparr>io_opened := b\<rparr>) = io_own s" "io_own (s\<lparr>io_hasRead := b\<rparr>) = io_own s"
  "io_own (s\<lparr>io_hasWrite := b\<rparr>) = io_own s" "io_own (s\<lparr>io_in := q\<rparr>) = io_own s"
  "io_own (s\<lparr>io_out := q\<rparr>) = io_own s" "io_own (s\<lparr>io_dev := d\<rparr>) = io_own s"
  by (simp_all add: io_own_def)

text \<open>Removing both watches: every watch of this listener goes.\<close>

lemma io_checked_remove_read_step:
  assumes "io_inv D dev_ok s"
  shows "\<exists>ws. io_checked_remove_read D s = (Inr (), s\<lparr>io_ws := ws, io_hasRead := False\<rparr>) \<and> ws_ok ws \<and>
           io_own (s\<lparr>io_ws := ws\<rparr>) =
             (if io_hasWrite s then {(io_self s, dev_write_handle D (io_dev s), WaitWrite)} else {})"
proof (cases "io_hasRead s")
  case False
  with assms have "io_checked_remove_read D s = (Inr (), s\<lparr>io_ws := io_ws s, io_hasRead := False\<rparr>)"
    by (simp add: io_checked_remove_read_def ret_def)
  with False assms show ?thesis
    by (intro exI [of _ "io_ws s"]) (auto simp: io_inv_def io_watches_def)
next
  case True
  let ?t = "(io_self s, dev_read_handle D (io_dev s), WaitRead)"
  have own: "io_own s = io_watches D s" and ok: "ws_ok (io_ws s)"
    using assms by (auto simp: io_inv_def)
  have "?t \<in> io_own s" using True by (simp add: own io_watches_def)
  with ok obtain ws where "io_remove_watch (dev_read_handle D (io_dev s)) WaitRead s = (Inr (), s\<lparr>io_ws := ws\<rparr>)"
    "ws_ok ws" "io_own (s\<lparr>io_ws := ws\<rparr>) = io_own s - {?t}"
    using io_remove_watch_step by blast
  moreover have "io_own s - {?t} =
      (if io_hasWrite s then {(io_self s, dev_write_handle D (io_dev s), WaitWrite)} else {})"
    using True by (auto simp: own io_watches_def)
  ultimately show ?thesis using True
    by (auto simp: io_checked_remove_read_def io_remove_read_watch_def prog_simps)
qed

lemma io_checked_remove_write_step:
  assumes "ws_ok (io_ws s)"
    and "io_hasWrite s \<Longrightarrow> (io_self s, dev_write_handle D (io_dev s), WaitWrite) \<in> io_own s"
  shows "\<exists>ws. io_checked_remove_write D s = (Inr (), s\<lparr>io_ws := ws, io_hasWrite := False\<rparr>) \<and> ws_ok ws \<and>
           io_own (s\<lparr>io_ws := ws\<rparr>) =
             (if io_hasWrite s then io_own s - {(io_self s, dev_write_handle D (io_dev s), WaitWrite)}
              else io_own s)"
proof (cases "io_hasWrite s")
  case False
  then have "io_checked_remove_write D s = (Inr (), s\<lparr>io_ws := io_ws s, io_hasWrite := False\<rparr>)"
    by (simp add: io_checked_remove_write_def ret_def)
  with False assms show ?thesis by (intro exI [of _ "io_ws s"]) auto
next
  case True
  with assms obtain ws where
    "io_remove_watch (dev_write_handle D (io_dev s)) WaitWrite s = (Inr (), s\<lparr>io_ws := ws\<rparr>)"
    "ws_ok ws"
    "io_own (s\<lparr>io_ws := ws\<rparr>) = io_own s - {(io_self s, dev_write_handle D (io_dev s), WaitWrite)}"
    using io_remove_watch_step by blast
  with True show ?thesis
    by (auto simp: io_checked_remove_write_def io_remove_write_watch_def prog_simps)
qed

lemma io_remove_both_step:
  assumes "io_inv D dev_ok s"
  shows "\<exists>ws. io_checked_remove_read_write D s =
             (Inr (), s\<lparr>io_ws := ws, io_hasRead := False, io_hasWrite := False\<rparr>) \<and>
           ws_ok ws \<and> io_own (s\<lparr>io_ws := ws\<rparr>) = {}"
proof -
  obtain u where u: "io_checked_remove_read D s = (Inr (), s\<lparr>io_ws := u, io_hasRead := False\<rparr>)"
    "ws_ok u" and own: "io_own (s\<lparr>io_ws := u\<rparr>) =
       (if io_hasWrite s then {(io_self s, dev_write_handle D (io_dev s), WaitWrite)} else {})"
    using io_checked_remove_read_step [OF assms] by blast
  let ?s = "s\<lparr>io_ws := u, io_hasRead := False\<rparr>"
  obtain v where "io_checked_remove_write D ?s = (Inr (), ?s\<lparr>io_ws := v, io_hasWrite := False\<rparr>)"
    "ws_ok v" "io_own (?s\<lparr>io_ws := v\<rparr>) = {}"
    using io_checked_remove_write_step [of ?s D] u(2) own by (auto split: if_splits)
  with u(1) show ?thesis
    by (intro exI [of _ v]) (simp add: io_checked_remove_read_write_def prog_simps io_own_def)
qed

lemma io_shutdown_step:
  assumes "io_inv D dev_ok s" and "io_opened s"
  shows "\<exists>ws. io_shutdown D s =
             (Inr (), s\<lparr>io_ws := ws, io_hasRead := False, io_hasWrite := False, io_opened := False\<rparr>) \<and>
           io_inv D dev_ok
             (s\<lparr>io_ws := ws, io_hasRead := False, io_hasWrite := False, io_opened := False\<rparr>)"
proof -
  obtain ws where "io_checked_remove_read_write D s =
      (Inr (), s\<lparr>io_ws := ws, io_hasRead := False, io_hasWrite := False\<rparr>)"
    "ws_ok ws" "io_own (s\<lparr>io_ws := ws\<rparr>) = {}"
    using io_remove_both_step [OF assms(1)] by blast
  moreover have "io_hasRead s" using assms by (simp add: io_inv_def)
  ultimately show ?thesis using assms
    by (intro exI [of _ ws])
      (auto simp: io_shutdown_def prog_simps io_inv_def io_watches_def io_own_def)
qed

lemma io_close_step:
  assumes "io_inv D dev_ok s"
  shows "\<exists>t. io_close D s = (Inr (), t) \<and> io_inv D dev_ok t \<and> \<not> io_opened t \<and> io_own t = {} \<and>
           io_out t = io_out s \<and> io_in t = io_in s \<and> io_dev t = io_dev s"
proof (cases "io_opened s")
  case False
  with assms show ?thesis
    by (auto simp: io_close_def ret_def io_inv_def io_watches_def)
next
  case True
  obtain ws where "io_checked_remove_read_write D s =
      (Inr (), s\<lparr>io_ws := ws, io_hasRead := False, io_hasWrite := False\<rparr>)"
    "ws_ok ws" "io_own (s\<lparr>io_ws := ws\<rparr>) = {}"
    using io_remove_both_step [OF assms(1)] by blast
  with True assms show ?thesis
    by (auto simp: io_close_def prog_simps io_inv_def io_watches_def io_own_def)
qed

lemma io_open_step:
  assumes "io_inv D dev_ok s" and "dev_ok d"
  shows "if io_opened s then io_open D d s = (Inl AlreadyOpened, s)
         else \<exists>t. io_open D d s = (Inr (), t) \<and> io_inv D dev_ok t \<and> io_opened t \<and> io_dev t = d \<and>
                io_out t = io_out s \<and> io_in t = io_in s"
proof (cases "io_opened s")
  case True
  then show ?thesis by (simp add: io_open_def raise_def)
next
  case False
  let ?s = "s\<lparr>io_dev := d\<rparr>"
  have "ws_ok (io_ws ?s)" and own: "io_own ?s = {}"
    using assms False by (auto simp: io_inv_def io_watches_def)
  then obtain ws where
    "io_add_watch (dev_read_handle D d) WaitRead ?s = (Inr (), ?s\<lparr>io_ws := ws\<rparr>)" "ws_ok ws"
    "io_own (?s\<lparr>io_ws := ws\<rparr>) = {(io_self s, dev_read_handle D d, WaitRead)}"
    using io_add_watch_step [of ?s "dev_read_handle D d" WaitRead] by auto
  with False assms show ?thesis
    by (auto simp: io_open_def io_add_read_watch_def prog_simps io_inv_def io_watches_def io_own_def)
qed

section \<open>Feeding and reading under the device's contract\<close>

lemma io_watch_add_write:
  assumes "io_inv D dev_ok s" and "\<not> io_hasWrite s" and "dev_write_handle D d = dev_write_handle D (io_dev s)"
  shows "\<exists>ws. io_add_write_watch D (s\<lparr>io_dev := d\<rparr>) = (Inr (), s\<lparr>io_dev := d, io_ws := ws\<rparr>) \<and> ws_ok ws \<and>
           io_own (s\<lparr>io_ws := ws\<rparr>) = insert (io_self s, dev_write_handle D (io_dev s), WaitWrite) (io_own s)"
proof -
  let ?s = "s\<lparr>io_dev := d\<rparr>"
  have "(io_self ?s, dev_write_handle D (io_dev s), WaitWrite) \<notin> io_own ?s"
    using assms by (auto simp: io_inv_def io_watches_def)
  moreover have "ws_ok (io_ws ?s)" using assms by (simp add: io_inv_def)
  ultimately obtain ws where
    "io_add_watch (dev_write_handle D (io_dev s)) WaitWrite ?s = (Inr (), ?s\<lparr>io_ws := ws\<rparr>)" "ws_ok ws"
    "io_own (?s\<lparr>io_ws := ws\<rparr>) = insert (io_self s, dev_write_handle D (io_dev s), WaitWrite) (io_own s)"
    using io_add_watch_step [of ?s "dev_write_handle D (io_dev s)" WaitWrite] by auto
  then show ?thesis using assms(3)
    by (intro exI [of _ ws]) (simp add: io_add_write_watch_def io_own_def)
qed

context waitable_io begin

lemma feed_written:
  assumes inv: "io_inv D dev_ok s" and op: "io_opened s" and ne: "\<not> bq_Empty (io_out s)"
    and w: "dev_write D (io_out s) (bq_Size (io_out s)) (io_dev s) = (Inr k, d)"
  shows "\<exists>t. io_feed_output D cb s = (Inr (), t) \<and> io_inv D dev_ok t \<and> io_opened t \<and>
           io_in t = io_in s \<and> io_dev t = d \<and> bq_bytes (io_out t) = drop k (bq_bytes (io_out s)) \<and>
           ioctx.more t = ioctx.more s \<and> (bq_bytes (io_out t) \<noteq> [] \<longrightarrow> io_hasWrite t) \<and>
           (io_hasWrite s \<longrightarrow> io_hasWrite t)"
proof -
  have out: "bq_ok (io_out s)" and dev: "dev_ok (io_dev s)" using inv by (simp_all add: io_inv_def)
  note law = write_law [OF dev out w]
  then have k: "k \<le> length (bq_bytes (io_out s))" by simp
  obtain q where q: "bq_consume k (io_out s) = Inr q" "bq_ok q" "bq_bytes q = drop k (bq_bytes (io_out s))"
    using bq_consume_bytes [OF out k] by blast
  show ?thesis
  proof (cases "k < length (bq_bytes (io_out s)) \<and> \<not> io_hasWrite s")
    case True
    then obtain ws where ws: "io_add_write_watch D (s\<lparr>io_dev := d\<rparr>) = (Inr (), s\<lparr>io_dev := d, io_ws := ws\<rparr>)"
      "ws_ok ws" and own: "io_own (s\<lparr>io_ws := ws\<rparr>) =
         insert (io_self s, dev_write_handle D (io_dev s), WaitWrite) (io_own s)"
      using io_watch_add_write [OF inv] law by metis
    let ?t = "s\<lparr>io_dev := d, io_ws := ws, io_hasWrite := True, io_out := q\<rparr>"
    have "io_feed_output D cb s = (Inr (), ?t)"
      using True op ne w ws(1) q(1) out
      by (simp add: io_feed_output_def io_dev_write_def io_consume_out_def prog_simps)
    moreover have "io_inv D dev_ok ?t"
      using inv op True own ws q law by (auto simp: io_inv_def io_watches_def io_own_def)
    ultimately show ?thesis using op q by auto
  next
    case False
    let ?t = "s\<lparr>io_dev := d, io_out := q\<rparr>"
    have "io_feed_output D cb s = (Inr (), ?t)"
      using False op ne w q(1) out
      by (auto simp: io_feed_output_def io_dev_write_def io_consume_out_def prog_simps)
    moreover have "io_inv D dev_ok ?t"
      using inv q law by (auto simp: io_inv_def io_watches_def)
    ultimately show ?thesis using op q False k by auto
  qed
qed

lemma feed_broken:
  assumes inv: "io_inv D dev_ok s" and op: "io_opened s" and ne: "\<not> bq_Empty (io_out s)"
    and w: "dev_write D (io_out s) (bq_Size (io_out s)) (io_dev s) = (Inl ConnectionBroken, d)"
    and cb: "quiet cb"
  shows "\<exists>t. io_feed_output D cb s = (Inr (), t) \<and> io_inv D dev_ok t \<and> \<not> io_opened t \<and>
           io_in t = io_in s \<and> io_dev t = d \<and> io_out t = io_out s \<and>
           ioctx.more t = ioctx.more (snd (cb (s\<lparr>io_dev := d\<rparr>)))"
proof -
  have out: "bq_ok (io_out s)" and dev: "dev_ok (io_dev s)" using inv by (simp_all add: io_inv_def)
  note law = write_law [OF dev out w]
  obtain u where u: "cb (s\<lparr>io_dev := d\<rparr>) = (Inr (), u)" "ioctx.truncate u = ioctx.truncate (s\<lparr>io_dev := d\<rparr>)"
    using quietE [OF cb] by blast
  have "io_inv D dev_ok (s\<lparr>io_dev := d\<rparr>)"
    using inv law by (auto simp: io_inv_def io_watches_def)
  then have uinv: "io_inv D dev_ok u" using io_inv_truncate [OF u(2)] by simp
  have f: "io_opened u" "io_in u = io_in s" "io_dev u = d" "io_out u = io_out s"
    using u(2) op by (auto simp: truncate_fields)
  obtain ws where "io_shutdown D u =
      (Inr (), u\<lparr>io_ws := ws, io_hasRead := False, io_hasWrite := False, io_opened := False\<rparr>)"
    "io_inv D dev_ok (u\<lparr>io_ws := ws, io_hasRead := False, io_hasWrite := False, io_opened := False\<rparr>)"
    using io_shutdown_step [OF uinv f(1)] by blast
  then show ?thesis using op ne w u(1) f
    by (simp add: io_feed_output_def io_dev_write_def prog_simps)
qed

lemma feed_failed:
  assumes inv: "io_inv D dev_ok s" and op: "io_opened s" and ne: "\<not> bq_Empty (io_out s)"
    and w: "dev_write D (io_out s) (bq_Size (io_out s)) (io_dev s) = (Inl e, d)" and "e \<noteq> ConnectionBroken"
  shows "io_feed_output D cb s = (Inl e, s\<lparr>io_dev := d\<rparr>) \<and> io_inv D dev_ok (s\<lparr>io_dev := d\<rparr>)"
proof -
  have "bq_ok (io_out s)" and "dev_ok (io_dev s)" using inv by (simp_all add: io_inv_def)
  note law = write_law [OF this(2,1) w]
  then show ?thesis using assms
    by (auto simp: io_feed_output_def io_dev_write_def prog_simps io_inv_def io_watches_def)
qed

text \<open>
  One statement for every outcome of \<open>FeedOutput\<close>: the invariant is kept, what was sent
  followed by what is pending is unchanged, and an open stream with pending bytes has its write
  watch.
\<close>

lemma feed_output:
  assumes inv: "io_inv D dev_ok s" and cb: "quiet cb" and f: "io_feed_output D cb s = (r, t)"
  shows "io_inv D dev_ok t \<and> io_in t = io_in s \<and>
         sent (io_dev t) @ bq_bytes (io_out t) = sent (io_dev s) @ bq_bytes (io_out s) \<and>
         received (io_dev t) = received (io_dev s) \<and>
         (\<not> io_opened s \<longrightarrow> r = Inl NotOpened \<and> t = s) \<and>
         (r = Inr () \<and> io_opened t \<and> bq_bytes (io_out t) \<noteq> [] \<longrightarrow> io_hasWrite t) \<and>
         (ioctx.more t = ioctx.more s \<or>
          (\<exists>d. ioctx.more t = ioctx.more (snd (cb (s\<lparr>io_dev := d\<rparr>)))))"
proof (cases "io_opened s")
  case False
  with f have "r = Inl NotOpened" "t = s" by (simp_all add: io_feed_output_def raise_def)
  with inv False show ?thesis by simp
next
  case op: True
  show ?thesis
  proof (cases "bq_Empty (io_out s)")
    case True
    with op f have "r = Inr ()" "t = s" by (simp_all add: io_feed_output_def ret_def)
    with inv op True show ?thesis by (simp add: io_inv_def)
  next
    case ne: False
    obtain w d where w: "dev_write D (io_out s) (bq_Size (io_out s)) (io_dev s) = (w, d)"
      by (cases "dev_write D (io_out s) (bq_Size (io_out s)) (io_dev s)")
    have "bq_ok (io_out s)" "dev_ok (io_dev s)" using inv by (simp_all add: io_inv_def)
    note law = write_law [OF this(2,1) w]
    show ?thesis
    proof (cases w)
      case (Inr k)
      from feed_written [OF inv op ne w [unfolded Inr], of cb] f Inr law op show ?thesis by auto
    next
      case (Inl e)
      show ?thesis
      proof (cases "e = ConnectionBroken")
        case True
        from feed_broken [OF inv op ne w [unfolded Inl True] cb] f Inl True law op show ?thesis by auto
      next
        case False
        from feed_failed [OF inv op ne w [unfolded Inl] False, of cb] f Inl law op show ?thesis by auto
      qed
    qed
  qed
qed

lemma read_law_inv:
  assumes inv: "io_inv D dev_ok s" and r: "dev_read D n (io_dev s) = (r, d)"
  shows "io_inv D dev_ok (s\<lparr>io_dev := d\<rparr>)"
proof -
  have "dev_ok (io_dev s)" using inv by (simp add: io_inv_def)
  from read_law [OF this r] inv show ?thesis by (auto simp: io_inv_def io_watches_def)
qed

text \<open>Data: appended to the input stream and handed to the protocol.\<close>

lemma read_data:
  assumes inv: "io_inv D dev_ok s" and ne: "\<not> bq_Empty q"
    and r: "dev_read D default_read_size (io_dev s) = (Inr (Some q), d)"
  shows "\<exists>u. io_read_input D on_read on_closed on_broken s = on_read u \<and> io_inv D dev_ok u \<and>
           bq_bytes (io_in u) = bq_bytes (io_in s) @ bq_bytes q \<and>
           received (io_dev u) = received (io_dev s) @ bq_bytes q \<and>
           io_out u = io_out s \<and> sent (io_dev u) = sent (io_dev s) \<and> io_opened u = io_opened s \<and>
           ioctx.more u = ioctx.more s"
proof -
  have "dev_ok (io_dev s)" using inv by (simp add: io_inv_def)
  note law = read_law [OF this r]
  let ?u = "s\<lparr>io_dev := d, io_in := fst (bq_append_move_from q (io_in s))\<rparr>"
  have "io_inv D dev_ok ?u"
    using read_law_inv [OF inv r] law by (auto simp: io_inv_def io_watches_def)
  moreover have "io_read_input D on_read on_closed on_broken s = on_read ?u"
    using r ne by (auto simp: io_read_input_def io_dev_read_def prog_simps split: prod.split sum.split)
  ultimately show ?thesis using law by (intro exI [of _ ?u]) auto
qed

lemma read_nothing:
  assumes "dev_read D default_read_size (io_dev s) = (Inr None, d)"
  shows "io_read_input D on_read on_closed on_broken s = (Inr (), s\<lparr>io_dev := d\<rparr>)"
  using assms by (simp add: io_read_input_def io_dev_read_def prog_simps)

text \<open>
  End of stream and a broken connection: the callback runs, every watch of this listener is
  removed and the support is closed; buffered bytes stay.
\<close>

lemma stream_gone:
  assumes inv: "io_inv D dev_ok s" and op: "io_opened s" and cb: "quiet cb"
    and r: "dev_read D default_read_size (io_dev s) = (r, d)"
    and k: "k = thenP cb (thenP (io_shutdown D) (ret False))"
  shows "\<exists>t. k (s\<lparr>io_dev := d\<rparr>) = (Inr False, t) \<and> io_inv D dev_ok t \<and> \<not> io_opened t \<and> io_own t = {} \<and>
           io_in t = io_in s \<and> io_out t = io_out s \<and> io_dev t = d \<and>
           ioctx.more t = ioctx.more (snd (cb (s\<lparr>io_dev := d\<rparr>)))"
proof -
  obtain u where u: "cb (s\<lparr>io_dev := d\<rparr>) = (Inr (), u)" "ioctx.truncate u = ioctx.truncate (s\<lparr>io_dev := d\<rparr>)"
    using quietE [OF cb] by blast
  have uinv: "io_inv D dev_ok u"
    using read_law_inv [OF inv r] io_inv_truncate [OF u(2)] by simp
  have f: "io_opened u" "io_in u = io_in s" "io_out u = io_out s" "io_dev u = d"
    using u(2) op by (auto simp: truncate_fields)
  let ?t = "\<lambda>ws. u\<lparr>io_ws := ws, io_hasRead := False, io_hasWrite := False, io_opened := False\<rparr>"
  obtain ws where ws: "io_shutdown D u = (Inr (), ?t ws)" "io_inv D dev_ok (?t ws)"
    using io_shutdown_step [OF uinv f(1)] by blast
  then have "io_own (?t ws) = {}" by (simp add: io_inv_def io_watches_def)
  with ws u(1) f show ?thesis
    by (intro exI [of _ "?t ws"]) (simp add: k prog_simps)
qed

lemma read_closed:
  assumes "io_inv D dev_ok s" and "io_opened s" and "quiet on_closed" and "bq_Empty q"
    and r: "dev_read D default_read_size (io_dev s) = (Inr (Some q), d)"
  shows "\<exists>t. io_read_input D on_read on_closed on_broken s = (Inr (), t) \<and> io_inv D dev_ok t \<and>
           \<not> io_opened t \<and> io_own t = {} \<and> io_in t = io_in s \<and> io_out t = io_out s \<and>
           io_dev t = d \<and> ioctx.more t = ioctx.more (snd (on_closed (s\<lparr>io_dev := d\<rparr>)))"
  using stream_gone [OF assms(1-3) r refl] r assms(4)
  by (auto simp: io_read_input_def io_dev_read_def bindP_def catchP_def ret_def)

lemma read_broken:
  assumes "io_inv D dev_ok s" and "io_opened s" and "quiet on_broken"
    and r: "dev_read D default_read_size (io_dev s) = (Inl ConnectionBroken, d)"
  shows "\<exists>t. io_read_input D on_read on_closed on_broken s = (Inr (), t) \<and> io_inv D dev_ok t \<and>
           \<not> io_opened t \<and> io_own t = {} \<and> io_in t = io_in s \<and> io_out t = io_out s \<and>
           io_dev t = d \<and> ioctx.more t = ioctx.more (snd (on_broken (s\<lparr>io_dev := d\<rparr>)))"
  using stream_gone [OF assms(1-3) r refl] r
  by (auto simp: io_read_input_def io_dev_read_def bindP_def catchP_def ret_def)

lemma read_failed:
  assumes "dev_read D default_read_size (io_dev s) = (Inl e, d)" and "e \<noteq> ConnectionBroken"
  shows "io_read_input D on_read on_closed on_broken s = (Inl e, s\<lparr>io_dev := d\<rparr>)"
  using assms by (simp add: io_read_input_def io_dev_read_def bindP_def catchP_def ret_def)

text \<open>The write event: the watch goes as soon as nothing is pending.\<close>

lemma remove_write_when_empty:
  assumes inv: "io_inv D dev_ok t" and w: "io_hasWrite t"
  shows "\<exists>ws. thenP (assertP (\<lambda>s. io_hasWrite s = True)) (io_checked_remove_write D) t =
               (Inr (), t\<lparr>io_ws := ws, io_hasWrite := False\<rparr>) \<and>
             io_inv D dev_ok (t\<lparr>io_ws := ws, io_hasWrite := False\<rparr>)"
proof -
  have own: "io_own t = io_watches D t" and ok: "ws_ok (io_ws t)" using inv by (simp_all add: io_inv_def)
  then obtain ws where ws: "io_checked_remove_write D t = (Inr (), t\<lparr>io_ws := ws, io_hasWrite := False\<rparr>)"
    "ws_ok ws" "io_own (t\<lparr>io_ws := ws\<rparr>) = io_own t - {(io_self t, dev_write_handle D (io_dev t), WaitWrite)}"
    using io_checked_remove_write_step [of t D] w by (auto simp: io_watches_def)
  have "io_own (t\<lparr>io_ws := ws, io_hasWrite := False\<rparr>) =
      (if io_hasRead t then {(io_self t, dev_read_handle D (io_dev t), WaitRead)} else {})"
    using ws(3) own w by (auto simp: io_watches_def io_own_def)
  with ws inv w show ?thesis
    by (intro exI [of _ ws]) (auto simp: prog_simps io_inv_def io_watches_def)
qed

lemma write_event:
  assumes inv: "io_inv D dev_ok s" and op: "io_opened s" and hw: "io_hasWrite s" and cb: "quiet on_broken"
    and e: "io_on_waitable_handle_event D on_read on_closed on_broken WaitWrite s = (r, t)"
  shows "io_inv D dev_ok t \<and> io_in t = io_in s \<and>
         sent (io_dev t) @ bq_bytes (io_out t) = sent (io_dev s) @ bq_bytes (io_out s) \<and>
         received (io_dev t) = received (io_dev s) \<and>
         (ioctx.more t = ioctx.more s \<or>
          (\<exists>d. ioctx.more t = ioctx.more (snd (on_broken (s\<lparr>io_dev := d\<rparr>))))) \<and>
         (case r of
            Inr _ \<Rightarrow> io_opened t \<longrightarrow> (io_hasWrite t \<longleftrightarrow> bq_bytes (io_out t) \<noteq> [])
          | Inl x \<Rightarrow> io_opened t \<and> (\<exists>d. dev_write D (io_out s) (bq_Size (io_out s)) (io_dev s) = (Inl x, d)))"
proof -
  obtain r1 t1 where f: "io_feed_output D on_broken s = (r1, t1)" by (cases "io_feed_output D on_broken s")
  note F = feed_output [OF inv cb f]
  have k1: "bq_Empty (io_out t1) \<longleftrightarrow> bq_bytes (io_out t1) = []" using F by (simp add: io_inv_def)
  have hw1: "(r1 = Inr () \<and> io_opened t1 \<longrightarrow> io_hasWrite t1) \<and>
        (r1 = Inr () \<and> bq_bytes (io_out t1) = [] \<longrightarrow> io_opened t1) \<and>
        (case r1 of Inl x \<Rightarrow> io_opened t1 \<and>
            (\<exists>d. dev_write D (io_out s) (bq_Size (io_out s)) (io_dev s) = (Inl x, d)) | Inr _ \<Rightarrow> True)"
  proof (cases "bq_Empty (io_out s)")
    case True
    with f op hw show ?thesis by (auto simp: io_feed_output_def ret_def)
  next
    case ne: False
    have out: "bq_bytes (io_out s) \<noteq> []" using ne inv by (simp add: io_inv_def)
    obtain w d where w: "dev_write D (io_out s) (bq_Size (io_out s)) (io_dev s) = (w, d)"
      by (cases "dev_write D (io_out s) (bq_Size (io_out s)) (io_dev s)")
    show ?thesis
    proof (cases w)
      case (Inr k)
      from feed_written [OF inv op ne w [unfolded Inr], of on_broken] f hw show ?thesis by auto
    next
      case (Inl x)
      show ?thesis
      proof (cases "x = ConnectionBroken")
        case True
        from feed_broken [OF inv op ne w [unfolded Inl True] cb] f out show ?thesis by auto
      next
        case False
        from feed_failed [OF inv op ne w [unfolded Inl] False, of on_broken] f Inl w op show ?thesis by auto
      qed
    qed
  qed
  show ?thesis
  proof (cases "r1 = Inr () \<and> bq_Empty (io_out t1)")
    case False
    then have "r = r1" "t = t1" using e f
      by (auto simp: io_on_waitable_handle_event_def thenP_def bindP_def ret_def split: sum.splits)
    with F hw1 False k1 show ?thesis by (cases r1) auto
  next
    case True
    with hw1 k1 have o1: "io_opened t1" "io_hasWrite t1" by auto
    from F have "io_inv D dev_ok t1" by simp
    from remove_write_when_empty [OF this o1(2)] obtain ws where
      ws: "thenP (assertP (\<lambda>s. io_hasWrite s = True)) (io_checked_remove_write D) t1 =
         (Inr (), t1\<lparr>io_ws := ws, io_hasWrite := False\<rparr>)"
      "io_inv D dev_ok (t1\<lparr>io_ws := ws, io_hasWrite := False\<rparr>)" by blast
    with e f True have "r = Inr ()" "t = t1\<lparr>io_ws := ws, io_hasWrite := False\<rparr>"
      by (auto simp: io_on_waitable_handle_event_def thenP_def [of "io_feed_output D on_broken"] bindP_def)
    with ws F True k1 show ?thesis by simp
  qed
qed

end

end
