(* ===== verification/SocketDevice.thy ===== *)
theory SocketDevice
  imports GenericSocket IOContext
begin

text \<open>
  \<open>GenericSocket\<close> as the \<open>AbstractWaitableInputOutput\<close> device of the input-output support:
  its \<open>Read\<close> and \<open>Write\<close> over a kernel that keeps the two byte streams.  The kernel is
  a parameter with the contract \<open>stream_kernel\<close>, what \<open>recv\<close> and \<open>send\<close> document for a
  stream socket; a scripted kernel shows the contract can hold and runs the examples.
\<close>

record 'k sock_dev =
  sd_ctx :: "gsocket \<times> watch_support"
  sd_kernel :: 'k

definition sd_read ::
  "(nat \<Rightarrow> 'k \<Rightarrow> (errno + byte list) \<times> 'k) \<Rightarrow> nat \<Rightarrow> 'k sock_dev \<Rightarrow> bqueue option res \<times> 'k sock_dev" where
  "sd_read k_recv n d =
     (let m = (if n > default_read_buffer_size then default_read_buffer_size else n);
          (r, ctx) = gs_read n (\<lambda>m. fst (k_recv m (sd_kernel d))) (sd_ctx d)
      in (r, d\<lparr>sd_ctx := ctx,
              sd_kernel := (if gs_state (fst (sd_ctx d)) = StConnected then snd (k_recv m (sd_kernel d))
                            else sd_kernel d)\<rparr>))"

definition sd_write ::
  "(byte list \<Rightarrow> 'k \<Rightarrow> (errno + nat) \<times> 'k) \<Rightarrow> bqueue \<Rightarrow> nat \<Rightarrow> 'k sock_dev \<Rightarrow> nat res \<times> 'k sock_dev" where
  "sd_write k_send q n d =
     (let m = (if n > bq_Size q then bq_Size q else n);
          (r, ctx) = gs_write q n (\<lambda>bs. fst (k_send bs (sd_kernel d))) (sd_ctx d)
      in (r, d\<lparr>sd_ctx := ctx,
              sd_kernel := (case bq_flatten m q of
                  Inr bs \<Rightarrow> (if gs_state (fst (sd_ctx d)) = StConnected then snd (k_send bs (sd_kernel d))
                             else sd_kernel d)
                | Inl _ \<Rightarrow> sd_kernel d)\<rparr>))"

definition socket_device ::
  "(nat \<Rightarrow> 'k \<Rightarrow> (errno + byte list) \<times> 'k) \<Rightarrow> (byte list \<Rightarrow> 'k \<Rightarrow> (errno + nat) \<times> 'k) \<Rightarrow>
   'k sock_dev io_device" where
  "socket_device k_recv k_send =
     \<lparr>dev_read = sd_read k_recv, dev_write = sd_write k_send,
      dev_read_handle = (\<lambda>d. gs_socket (fst (sd_ctx d))),
      dev_write_handle = (\<lambda>d. gs_socket (fst (sd_ctx d)))\<rparr>"

locale stream_kernel =
  fixes k_recv :: "nat \<Rightarrow> 'k \<Rightarrow> (errno + byte list) \<times> 'k"
    and k_send :: "byte list \<Rightarrow> 'k \<Rightarrow> (errno + nat) \<times> 'k"
    and k_sent :: "'k \<Rightarrow> byte list"
    and k_received :: "'k \<Rightarrow> byte list"
  assumes recv_law: "k_recv n k = (r, k') \<Longrightarrow> k_sent k' = k_sent k \<and>
        (case r of Inr bs \<Rightarrow> length bs \<le> n \<and> k_received k' = k_received k @ bs
         | Inl _ \<Rightarrow> k_received k' = k_received k)"
    and send_law: "k_send d k = (w, k') \<Longrightarrow> k_received k' = k_received k \<and>
        (case w of Inr j \<Rightarrow> j \<le> length d \<and> k_sent k' = k_sent k @ take j d
         | Inl _ \<Rightarrow> k_sent k' = k_sent k)"

lemma gs_io_same:
  "gs_read n recv st = (r, st') \<Longrightarrow> st' = st" "gs_write q n send st = (w, st') \<Longrightarrow> st' = st"
  by (metis gs_read_state snd_conv, metis gs_write_state snd_conv)

lemma recv_error_data: "recv_error err \<noteq> Inr (Some q)"
  by (cases err) auto

lemma send_error_data: "send_error err = Inr k \<Longrightarrow> k = 0"
  by (cases err) auto

text \<open>What a read and a write give, by the socket's state and the kernel's answer.\<close>

lemma gs_read_cases:
  "fst (gs_read n recv (s, ws)) =
     (if gs_state s \<noteq> StConnected then Inl AcceptFailed
      else (case recv (min n default_read_buffer_size) of
              Inr bs \<Rightarrow> Inr (Some (bq_append_unmanaged bs BufferDeleterFree 0 bq_new))
            | Inl err \<Rightarrow> (case recv_error err of
                  Inl e \<Rightarrow> Inl (if e = InternalError then ReadFailed else e) | Inr q \<Rightarrow> Inr q)))"
  by (auto simp: gs_read_def prog_simps gs_step_defs Let_def min_def bq_append_unmanaged_def not_less
      split: sum.split)

lemma gs_write_cases:
  assumes "bq_ok q"
  shows "fst (gs_write q n send (s, ws)) =
     (if gs_state s \<noteq> StConnected then Inl AcceptFailed
      else (case send (take n (bq_bytes q)) of
              Inr k \<Rightarrow> (if k > 0 then Inr k else Inl WriteFailed)
            | Inl err \<Rightarrow> (case send_error err of
                  Inl e \<Rightarrow> Inl (if e = InternalError then WriteFailed else e) | Inr k \<Rightarrow> Inr k)))"
  using assms
  by (auto simp: gs_write_def prog_simps gs_step_defs Let_def bq_flatten_bytes split: sum.split)

sublocale stream_kernel < sock: waitable_io
  "socket_device k_recv k_send" "\<lambda>_. True" "\<lambda>d. k_sent (sd_kernel d)" "\<lambda>d. k_received (sd_kernel d)"
proof unfold_locales
  fix d n r d'
  assume a: "dev_read (socket_device k_recv k_send) n d = (r, d')"
  obtain s ws where ctx: "sd_ctx d = (s, ws)" by (cases "sd_ctx d")
  let ?m = "min n default_read_buffer_size"
  obtain ans k' where k: "k_recv ?m (sd_kernel d) = (ans, k')" by (cases "k_recv ?m (sd_kernel d)")
  have m: "(if n > default_read_buffer_size then default_read_buffer_size else n) = ?m" by simp
  have r: "r = fst (gs_read n (\<lambda>m. fst (k_recv m (sd_kernel d))) (s, ws))"
    and d': "sd_ctx d' = (s, ws)" "sd_kernel d' = (if gs_state s = StConnected then k' else sd_kernel d)"
    using a k by (auto simp: socket_device_def sd_read_def ctx m Let_def split: prod.splits dest: gs_io_same)
  show "True \<and> dev_read_handle (socket_device k_recv k_send) d' = dev_read_handle (socket_device k_recv k_send) d \<and>
        dev_write_handle (socket_device k_recv k_send) d' = dev_write_handle (socket_device k_recv k_send) d \<and>
        k_sent (sd_kernel d') = k_sent (sd_kernel d) \<and>
        (case r of Inr (Some q) \<Rightarrow> bq_ok q \<and> k_received (sd_kernel d') = k_received (sd_kernel d) @ bq_bytes q
         | _ \<Rightarrow> k_received (sd_kernel d') = k_received (sd_kernel d))"
    using recv_law [OF k] r d' k
    by (auto simp: gs_read_cases socket_device_def ctx recv_error_data split: sum.splits option.splits)
next
  fix d q n w d'
  assume q: "bq_ok q" and a: "dev_write (socket_device k_recv k_send) q n d = (w, d')"
  obtain s ws where ctx: "sd_ctx d = (s, ws)" by (cases "sd_ctx d")
  let ?bs = "take n (bq_bytes q)"
  obtain ans k' where k: "k_send ?bs (sd_kernel d) = (ans, k')" by (cases "k_send ?bs (sd_kernel d)")
  have m: "bq_flatten (if n > bq_Size q then bq_Size q else n) q = Inr ?bs"
    using q by (simp add: bq_flatten_bytes)
  have w: "w = fst (gs_write q n (\<lambda>bs. fst (k_send bs (sd_kernel d))) (s, ws))"
    and d': "sd_ctx d' = (s, ws)" "sd_kernel d' = (if gs_state s = StConnected then k' else sd_kernel d)"
    using a k m
    by (auto simp: socket_device_def sd_write_def ctx Let_def split: prod.splits dest: gs_io_same)
  show "True \<and> dev_read_handle (socket_device k_recv k_send) d' = dev_read_handle (socket_device k_recv k_send) d \<and>
        dev_write_handle (socket_device k_recv k_send) d' = dev_write_handle (socket_device k_recv k_send) d \<and>
        k_received (sd_kernel d') = k_received (sd_kernel d) \<and>
        (case w of Inr k \<Rightarrow> k \<le> length (bq_bytes q) \<and> k_sent (sd_kernel d') = k_sent (sd_kernel d) @ take k (bq_bytes q)
         | Inl e \<Rightarrow> k_sent (sd_kernel d') = k_sent (sd_kernel d))"
    using send_law [OF k] w d' k send_error_data
    by (auto simp: gs_write_cases [OF q] socket_device_def ctx min_def split: sum.splits if_splits)
qed

section \<open>A scripted kernel\<close>

record script_kernel =
  sk_in :: "(errno + byte list) list"
  sk_out :: "(errno + nat) list"
  sk_sent :: "byte list"
  sk_received :: "byte list"

fun sk_recv :: "nat \<Rightarrow> script_kernel \<Rightarrow> (errno + byte list) \<times> script_kernel" where
  "sk_recv n k =
     (case sk_in k of
        [] \<Rightarrow> (Inl EAGAIN, k)
      | Inl e # rest \<Rightarrow> (Inl e, k\<lparr>sk_in := rest\<rparr>)
      | Inr bs # rest \<Rightarrow>
          (Inr (take n bs),
           k\<lparr>sk_in := (if length bs \<le> n then rest else Inr (drop n bs) # rest),
             sk_received := sk_received k @ take n bs\<rparr>))"

fun sk_send :: "byte list \<Rightarrow> script_kernel \<Rightarrow> (errno + nat) \<times> script_kernel" where
  "sk_send d k =
     (case sk_out k of
        [] \<Rightarrow> (Inl EAGAIN, k)
      | Inl e # rest \<Rightarrow> (Inl e, k\<lparr>sk_out := rest\<rparr>)
      | Inr j # rest \<Rightarrow>
          (Inr (min j (length d)), k\<lparr>sk_out := rest, sk_sent := sk_sent k @ take j d\<rparr>))"

interpretation sk: stream_kernel sk_recv sk_send sk_sent sk_received
proof unfold_locales
  fix n k r k'
  assume "sk_recv n k = (r, k')"
  then show "sk_sent k' = sk_sent k \<and>
        (case r of Inr bs \<Rightarrow> length bs \<le> n \<and> sk_received k' = sk_received k @ bs
         | Inl _ \<Rightarrow> sk_received k' = sk_received k)"
    by (auto split: list.splits sum.splits)
next
  fix d k w k'
  assume "sk_send d k = (w, k')"
  then show "sk_received k' = sk_received k \<and>
        (case w of Inr j \<Rightarrow> j \<le> length d \<and> sk_sent k' = sk_sent k @ take j d
         | Inl _ \<Rightarrow> sk_sent k' = sk_sent k)"
    by (auto simp: min_def split: list.splits sum.splits)
qed

section \<open>Properties of the input-output support\<close>

text \<open>The support over a connected socket on descriptor 4, its write watch already set.\<close>

definition sample_dev :: "(errno + byte list) list \<Rightarrow> (errno + nat) list \<Rightarrow> script_kernel sock_dev" where
  "sample_dev ins outs =
     \<lparr>sd_ctx = ((gs_new 1)\<lparr>gs_socket := 4, gs_state := StConnected\<rparr>, ws_new None),
      sd_kernel = \<lparr>sk_in = ins, sk_out = outs, sk_sent = [], sk_received = []\<rparr>\<rparr>"

definition sample_io :: "(errno + byte list) list \<Rightarrow> (errno + nat) list \<Rightarrow> byte list \<Rightarrow> script_kernel sock_dev ioctx" where
  "sample_io ins outs pending =
     (let s = io_new (sample_dev ins outs) (ws_new None) 2
      in (snd (io_add_watch 4 WaitWrite (snd (io_open (socket_device sk_recv sk_send) (io_dev s) s))))
           \<lparr>io_hasWrite := True, io_out := bq_append_copy pending bq_new\<rparr>)"

lemma sample_io_state:
  "sample_io ins outs pending =
     \<lparr>io_opened = True, io_hasRead = True, io_hasWrite = True, io_in = bq_new,
      io_out = bq_append_copy pending bq_new, io_dev = sample_dev ins outs,
      io_ws = \<lparr>ws_map = [(4, \<lparr>w_listeners = [(2, WaitRead), (2, WaitWrite)], w_reads = 1, w_writes = 1\<rparr>)],
               ws_thread = None, ws_invoker = False, ws_commit = False, ws_direct = 2\<rparr>,
      io_self = 2\<rparr>"
  by (simp add: sample_io_def io_new_def io_open_def prog_simps io_add_read_watch_def io_add_watch_def
      socket_device_def sample_dev_def add_watch_def ws_new_def sm_find_def no_watchers_def
      commit_invoker_def Let_def gs_new_def)

lemma sample_io_inv: "io_inv (socket_device sk_recv sk_send) (\<lambda>_. True) (sample_io ins outs pending)"
  by (simp add: sample_io_state io_inv_def)
    (auto simp: ws_ok_def sm_ok_def sm_find_def watchers_ok_def io_own_def io_watches_def
      registered_def socket_device_def sample_dev_def split: if_splits)

lemma quiet_ret: "quiet (ret ())"
  by (simp add: quiet_def ret_def)

text \<open>
  C11: \<open>FeedOutput\<close> over any device that keeps its contract loses, reorders and duplicates nothing:
  the bytes the device has taken followed by the bytes still queued never change, whatever the
  device answers (all of them, some, none, a broken connection, another error); an open stream with
  bytes left has its write watch; the watches in the registry stay those the state calls for; a
  closed support throws \<open>NotOpened\<close> and changes nothing.
\<close>

theorem feed_output_no_loss:
  assumes "waitable_io D dev_ok sent received" and "io_inv D dev_ok s" and "quiet cb"
    and "io_feed_output D cb s = (r, t)"
  shows "io_inv D dev_ok t \<and> io_in t = io_in s \<and>
         sent (io_dev t) @ bq_bytes (io_out t) = sent (io_dev s) @ bq_bytes (io_out s) \<and>
         (\<not> io_opened s \<longrightarrow> r = Inl NotOpened \<and> t = s) \<and>
         (r = Inr () \<and> io_opened t \<and> bq_bytes (io_out t) \<noteq> [] \<longrightarrow> io_hasWrite t)"
  using waitable_io.feed_output [OF assms] by blast

theorem feed_output_no_loss_witness:
  "\<exists>r t. io_feed_output (socket_device sk_recv sk_send) (ret ()) (sample_io [] [Inr 2] [1, 2, 3]) = (r, t) \<and>
     sk_sent (sd_kernel (io_dev t)) @ bq_bytes (io_out t) = [1, 2, 3]"
proof -
  let ?s = "sample_io [] [Inr 2] [1, 2, 3]"
  obtain r t where f: "io_feed_output (socket_device sk_recv sk_send) (ret ()) ?s = (r, t)"
    by (cases "io_feed_output (socket_device sk_recv sk_send) (ret ()) ?s")
  from feed_output_no_loss [OF sk.sock.waitable_io_axioms sample_io_inv quiet_ret f] f
  show ?thesis by (simp add: sample_io_state sample_dev_def)
qed

text \<open>
  The write event.  When the watched descriptor becomes writable, pending bytes are fed and the
  write watch is removed exactly when nothing is left; the internal assertion cannot fail, and the
  only exceptions are those the device's write threw.
\<close>

theorem write_event_outcome:
  assumes "waitable_io D dev_ok sent received" and "io_inv D dev_ok s" and "io_opened s"
    and "io_hasWrite s" and "quiet on_broken"
    and "io_on_waitable_handle_event D on_read on_closed on_broken WaitWrite s = (r, t)"
  shows "io_inv D dev_ok t \<and> io_in t = io_in s \<and>
         sent (io_dev t) @ bq_bytes (io_out t) = sent (io_dev s) @ bq_bytes (io_out s) \<and>
         (case r of
            Inr _ \<Rightarrow> io_opened t \<longrightarrow> (io_hasWrite t \<longleftrightarrow> bq_bytes (io_out t) \<noteq> [])
          | Inl x \<Rightarrow> io_opened t \<and> (\<exists>d. dev_write D (io_out s) (bq_Size (io_out s)) (io_dev s) = (Inl x, d)))"
  using waitable_io.write_event [OF assms] by blast

theorem write_event_outcome_witness:
  "\<exists>r t. io_on_waitable_handle_event (socket_device sk_recv sk_send) (ret ()) (ret ()) (ret ()) WaitWrite
       (sample_io [] [Inr 2] [1, 2, 3]) = (r, t) \<and>
     sk_sent (sd_kernel (io_dev t)) @ bq_bytes (io_out t) = [1, 2, 3]"
proof -
  let ?s = "sample_io [] [Inr 2] [1, 2, 3]"
  let ?e = "io_on_waitable_handle_event (socket_device sk_recv sk_send) (ret ()) (ret ()) (ret ()) WaitWrite ?s"
  obtain r t where f: "?e = (r, t)" by (cases ?e)
  have "io_opened ?s" "io_hasWrite ?s" by (simp_all add: sample_io_state)
  from write_event_outcome [OF sk.sock.waitable_io_axioms sample_io_inv this quiet_ret f] f
  show ?thesis by (simp add: sample_io_state sample_dev_def)
qed

text \<open>
  The read event.  Data is appended to the input stream and handed to the protocol once; no data
  changes nothing; the end of the stream and a broken connection run their callback, remove every
  watch of the support and close it, keeping what is buffered; any other error passes through with
  the support still open.
\<close>

theorem read_event_outcome:
  assumes "waitable_io D dev_ok sent received" and "io_inv D dev_ok s" and "io_opened s"
    and "quiet on_closed" and "quiet on_broken"
    and "dev_read D default_read_size (io_dev s) = (r, d)"
  shows "let out = io_on_waitable_handle_event D on_read on_closed on_broken WaitRead s;
             gone = (\<lambda>cb. \<exists>t. out = (Inr (), t) \<and> io_inv D dev_ok t \<and> \<not> io_opened t \<and> io_own t = {} \<and>
                        io_in t = io_in s \<and> io_out t = io_out s \<and> io_dev t = d \<and>
                        ioctx.more t = ioctx.more (snd (cb (s\<lparr>io_dev := d\<rparr>))))
         in case r of
              Inr None \<Rightarrow> out = (Inr (), s\<lparr>io_dev := d\<rparr>)
            | Inr (Some q) \<Rightarrow>
                (if bq_bytes q = [] then gone on_closed
                 else \<exists>u. out = on_read u \<and> io_inv D dev_ok u \<and> io_opened u \<and>
                          bq_bytes (io_in u) = bq_bytes (io_in s) @ bq_bytes q \<and> io_out u = io_out s)
            | Inl e \<Rightarrow> (if e = ConnectionBroken then gone on_broken else out = (Inl e, s\<lparr>io_dev := d\<rparr>))"
proof -
  note ev = io_on_waitable_handle_event_def
  have q: "bq_Empty q \<longleftrightarrow> bq_bytes q = []" if "r = Inr (Some q)" for q
    using waitable_io.read_law [OF assms(1) _ assms(6)] assms(2) that by (simp add: io_inv_def)
  show ?thesis
  proof (cases r)
    case (Inl e)
    then show ?thesis
      using assms waitable_io.read_broken [OF assms(1,2,3,5), of d on_read on_closed]
        waitable_io.read_failed [OF assms(1), of s e d on_read on_closed on_broken]
      by (simp add: ev)
  next
    case (Inr b)
    show ?thesis
    proof (cases b)
      case None
      with Inr assms waitable_io.read_nothing [OF assms(1), of s d on_read on_closed on_broken]
      show ?thesis by (simp add: ev)
    next
      case (Some x)
      show ?thesis
      proof (cases "bq_bytes x = []")
        case True
        with Inr Some assms q waitable_io.read_closed [OF assms(1-4), of x d on_read on_broken]
        show ?thesis by (simp add: ev)
      next
        case False
        with Inr Some q have "\<not> bq_Empty x" by simp
        with False Inr Some assms(3,6)
          waitable_io.read_data [OF assms(1,2), of x d on_read on_closed on_broken]
        show ?thesis by (auto simp: ev)
      qed
    qed
  qed
qed

theorem read_event_outcome_witness:
  "\<exists>t. io_on_waitable_handle_event (socket_device sk_recv sk_send) (ret ()) (ret ()) (ret ()) WaitRead
       (sample_io [Inl ECONNRESET] [] [1]) = (Inr (), t) \<and> \<not> io_opened t \<and> io_own t = {}"
proof -
  let ?s = "sample_io [Inl ECONNRESET] [] [1]"
  obtain r d where rd: "dev_read (socket_device sk_recv sk_send) default_read_size (io_dev ?s) = (r, d)"
    by (cases "dev_read (socket_device sk_recv sk_send) default_read_size (io_dev ?s)")
  then have "r = Inl ConnectionBroken"
    using gs_read_cases
    by (auto simp: sample_io_state sample_dev_def socket_device_def sd_read_def gs_read_def prog_simps
        gs_step_defs split: prod.splits)
  moreover have "io_opened ?s" by (simp add: sample_io_state)
  ultimately show ?thesis
    using read_event_outcome [OF sk.sock.waitable_io_axioms sample_io_inv _ quiet_ret quiet_ret rd,
        of "ret ()"] by (simp add: Let_def) blast
qed

end
