(* ===== verification/RPCConnectors.thy ===== *)
theory RPCConnectors
  imports SocketDevice
begin

text \<open>
  \<open>GenericSocketRPCServer\<close> and \<open>GenericSocketRPCClient\<close> (modules/rpc/include/dpl/rpc): the sockets
  a connector owns and the events that turn them into connections.  The sockets live in a heap:
  an object's number is its address, its identity as a watch listener and its connection ID.
  \<open>rk_ids\<close> is the \<open>std::set\<close> of tracked sockets in address order, \<open>rk_listening\<close> the sockets
  on whose event the connector is registered, \<open>rk_established\<close> the emitted
  \<open>ConnectionEstablishedEvent\<close>s.  Arguments of log statements are not evaluated.
\<close>

record rpc_connector =
  rk_live :: "nat \<Rightarrow> gsocket option"
  rk_ws :: watch_support
  rk_ids :: "nat list"
  rk_listening :: "nat set"
  rk_established :: "(nat \<times> nat) list"

definition rk_new :: "(nat \<Rightarrow> gsocket option) \<Rightarrow> watch_support \<Rightarrow> rpc_connector" where
  "rk_new live ws =
     \<lparr>rk_live = live, rk_ws = ws, rk_ids = [], rk_listening = {}, rk_established = []\<rparr>"

text \<open>A member call on the socket at an address; on a dead object it is undefined.\<close>

definition rk_on :: "nat \<Rightarrow> 'a gs_prog \<Rightarrow> (rpc_connector, 'a) prog" where
  "rk_on a m s =
     (case rk_live s a of
        None \<Rightarrow> (Inl UndefinedBehaviour, s)
      | Some g \<Rightarrow>
          (case m (g, rk_ws s) of
             (r, (g', ws')) \<Rightarrow> (r, s\<lparr>rk_live := (rk_live s)(a := Some g'), rk_ws := ws'\<rparr>)))"

definition rk_alloc :: "nat \<Rightarrow> (rpc_connector, unit) prog" where
  "rk_alloc a = modifyP (\<lambda>s. s\<lparr>rk_live := (rk_live s)(a := Some (gs_new a))\<rparr>)"

definition rk_add_listener :: "nat \<Rightarrow> (rpc_connector, unit) prog" where
  "rk_add_listener a = modifyP (\<lambda>s. s\<lparr>rk_listening := insert a (rk_listening s)\<rparr>)"

definition rk_remove_listener :: "nat \<Rightarrow> (rpc_connector, unit) prog" where
  "rk_remove_listener a = modifyP (\<lambda>s. s\<lparr>rk_listening := rk_listening s - {a}\<rparr>)"

text \<open>The exceptions derived from \<open>AbstractSocket::Exception::Base\<close>.\<close>

definition socket_exn :: "exn \<Rightarrow> bool" where
  "socket_exn e \<longleftrightarrow>
     e \<in> {OpenFailed, ConnectFailed, SetNonBlockingFailed, BindFailed, AcceptFailed, ListenFailed,
          CloseFailed, ReadFailed, WriteFailed, GetPeerNameFailed, ConnectionBroken}"

section \<open>Opening\<close>

definition rk_track :: "nat \<Rightarrow> (rpc_connector, unit) prog" where
  "rk_track a = modifyP (\<lambda>s. s\<lparr>rk_ids := insort_insert a (rk_ids s)\<rparr>)"

text \<open>\<open>a\<close> is the address \<open>new\<close> gives; the rest are the answers of the kernel and the socket type.\<close>

definition server_open ::
  "nat \<Rightarrow> int res \<Rightarrow> bool \<Rightarrow> unit res \<Rightarrow> bool \<Rightarrow> bool \<Rightarrow> (rpc_connector, nat) prog" where
  "server_open a alloc fcntl_ok tr bind_ok listen_ok =
     thenP (rk_alloc a)
       (thenP (rk_add_listener a)
         (thenP
           (catchP
             (thenP (rk_on a (gs_open alloc fcntl_ok))
               (thenP (rk_on a (gs_bind tr bind_ok))
                 (rk_on a (gs_listen listen_ok))))
             socket_exn (\<lambda>_. thenP (rk_remove_listener a) (raise RPCOpenFailed)))
           (thenP (rk_track a) (ret a))))"

definition client_open ::
  "nat \<Rightarrow> int res \<Rightarrow> bool \<Rightarrow> unit res \<Rightarrow> errno option \<Rightarrow> (rpc_connector, nat) prog" where
  "client_open a alloc fcntl_ok tr result =
     thenP (rk_alloc a)
       (thenP (rk_add_listener a)
         (thenP
           (catchP
             (thenP (rk_on a (gs_open alloc fcntl_ok)) (rk_on a (gs_connect tr result)))
             socket_exn (\<lambda>_. thenP (rk_remove_listener a) (raise RPCOpenFailed)))
           (thenP (rk_track a) (ret a))))"

section \<open>Closing\<close>

text \<open>\<open>delete socket\<close>: the destructor, then the memory.\<close>

definition rk_delete :: "nat \<Rightarrow> (rpc_connector, unit) prog" where
  "rk_delete a =
     thenP (rk_on a (gs_destroy True)) (modifyP (\<lambda>s. s\<lparr>rk_live := (rk_live s)(a := None)\<rparr>))"

definition connector_close :: "(nat \<Rightarrow> bool) \<Rightarrow> nat \<Rightarrow> (rpc_connector, unit) prog" where
  "connector_close close_ok a = (\<lambda>s.
     if a \<notin> set (rk_ids s) then ret () s
     else thenP (rk_on a (gs_close (close_ok a)))
            (thenP (rk_remove_listener a)
              (thenP (rk_delete a)
                (modifyP (\<lambda>s. s\<lparr>rk_ids := remove1 a (rk_ids s)\<rparr>)))) s)"

lemma keeps_ids_on: "keeps (\<lambda>s. rk_ids s = ids) (rk_on a m)"
  by (auto simp: keeps_def rk_on_def split: option.split prod.split)

lemma connector_close_ids:
  assumes "a \<in> set (rk_ids s)" and "connector_close close_ok a s = (Inr u, t)"
  shows "rk_ids t = remove1 a (rk_ids s)"
proof -
  let ?I = "\<lambda>s'. rk_ids s' = rk_ids s"
  have "keeps ?I (thenP (rk_on a (gs_close (close_ok a))) (thenP (rk_remove_listener a) (rk_delete a)))"
    unfolding rk_delete_def rk_remove_listener_def by (intro inv_intros keeps_ids_on; simp)
  from keepsD [OF this refl] show ?thesis using assms
    by (auto simp: connector_close_def thenP_def bindP_def modifyP_def split: prod.splits sum.splits)
qed

function connector_close_all :: "(nat \<Rightarrow> bool) \<Rightarrow> (rpc_connector, unit) prog" where
  "connector_close_all close_ok s =
     (case rk_ids s of
        [] \<Rightarrow> (Inr (), s)
      | a # _ \<Rightarrow>
          (case connector_close close_ok a s of
             (Inl e, t) \<Rightarrow> (Inl e, t)
           | (Inr _, t) \<Rightarrow> connector_close_all close_ok t))"
  by pat_completeness auto
termination
proof (relation "measure (\<lambda>(c, s). length (rk_ids s))", goal_cases)
  case 1
  then show ?case by simp
next
  case (2 c s a as r t u)
  then have "connector_close c a s = (Inr u, t)" by (metis prod.collapse)
  from connector_close_ids [OF _ this] 2 show ?case by simp
qed

declare connector_close_all.simps [simp del]

definition connector_destroy :: "(nat \<Rightarrow> bool) \<Rightarrow> (rpc_connector, unit) prog" where
  "connector_destroy close_ok = connector_close_all close_ok"

section \<open>Events\<close>

text \<open>
  \<open>OpenSpecificConnection\<close> builds a \<open>GenericRPCConnection\<close> (object \<open>c\<close>) on the socket; its
  constructor opens the input-output support, which registers the connection's read watch.
\<close>

definition rk_open_connection :: "nat \<Rightarrow> nat \<Rightarrow> (rpc_connector, unit) prog" where
  "rk_open_connection c a s =
     (case rk_live s a of
        None \<Rightarrow> (Inl UndefinedBehaviour, s)
      | Some g \<Rightarrow>
          (case add_watch (ws_thread (rk_ws s)) c (gs_socket g) WaitRead (rk_ws s) of
             (r, ws) \<Rightarrow> (r, s\<lparr>rk_ws := ws\<rparr>)))"

definition rk_emit_established :: "nat \<Rightarrow> nat \<Rightarrow> (rpc_connector, unit) prog" where
  "rk_emit_established a c = modifyP (\<lambda>s. s\<lparr>rk_established := rk_established s @ [(a, c)]\<rparr>)"

text \<open>
  The server's accept event for the socket \<open>server\<close>; the accepted socket becomes object
  \<open>client\<close>.
\<close>

definition server_on_accept ::
  "nat \<Rightarrow> errno + int \<Rightarrow> nat \<Rightarrow> bool \<Rightarrow> nat \<Rightarrow> (rpc_connector, unit) prog" where
  "server_on_accept server result client fcntl_ok c = (\<lambda>s.
     if server \<notin> set (rk_ids s) then ret () s
     else bindP (rk_on server (gs_accept result client fcntl_ok))
            (\<lambda>accepted. case accepted of
               None \<Rightarrow> ret ()
             | Some g \<Rightarrow>
                 thenP (modifyP (\<lambda>s. s\<lparr>rk_live := (rk_live s)(client := Some g)\<rparr>))
                   (thenP (rk_open_connection c client) (rk_emit_established server c))) s)"

definition client_on_connected :: "nat \<Rightarrow> nat \<Rightarrow> (rpc_connector, unit) prog" where
  "client_on_connected a c = (\<lambda>s.
     if a \<notin> set (rk_ids s) then ret () s
     else thenP (rk_open_connection c a)
            (thenP (rk_remove_listener a)
              (thenP (modifyP (\<lambda>s. s\<lparr>rk_ids := remove1 a (rk_ids s)\<rparr>))
                (rk_emit_established a c))) s)"

section \<open>Invariant\<close>

definition rk_inv :: "rpc_connector \<Rightarrow> bool" where
  "rk_inv s \<longleftrightarrow>
     ws_ok (rk_ws s) \<and> sorted (rk_ids s) \<and> distinct (rk_ids s) \<and> rk_listening s = set (rk_ids s) \<and>
     (\<forall>a \<in> set (rk_ids s). \<exists>g. rk_live s a = Some g \<and> gs_self g = a \<and> gs_good (g, rk_ws s))"

text \<open>One close, when the kernel closes the descriptor.\<close>

lemma gs_close_registered:
  assumes "gs_good (g, ws)"
  shows "\<exists>ws'. gs_close True (g, ws) = (Inr (), (g\<lparr>gs_socket := -1, gs_state := StNone\<rparr>, ws')) \<and>
           ws_ok ws' \<and> registered ws' = {t \<in> registered ws. fst t \<noteq> gs_self g}"
proof (cases "state_watch (gs_state g)")
  case None
  with assms have "own_watches g ws = {}" "gs_state g = StNone \<or> gs_state g = StPrepare" "ws_ok ws"
    by (cases "gs_state g"; simp add: gs_good_iff)+
  then have reg: "{t \<in> registered ws. fst t \<noteq> gs_self g} = registered ws"
    unfolding own_watches_def by blast
  have g: "gs_state g = StNone \<Longrightarrow> g\<lparr>gs_socket := -1, gs_state := StNone\<rparr> = g"
    using assms by (simp add: gs_good_iff)
  have "gs_close True (g, ws) = (Inr (), (g\<lparr>gs_socket := -1, gs_state := StNone\<rparr>, ws))"
    using \<open>gs_state g = StNone \<or> gs_state g = StPrepare\<close> g assms
    by (elim disjE) (simp_all add: gs_close_def prog_simps gs_step_defs gs_good_iff)
  with reg \<open>ws_ok ws\<close> show ?thesis by simp
next
  case (Some m)
  have ok: "ws_ok ws" and own: "own_watches g ws = {(gs_self g, gs_socket g, m)}"
    using assms Some by (auto simp: gs_good_iff)
  have mem: "(gs_self g, gs_socket g, m) \<in> registered ws" using own by (auto simp: own_watches_def)
  obtain ws' where ws': "remove_watch (ws_thread ws) (gs_self g) (gs_socket g) m ws = (Inr (), ws')"
    "ws_ok ws'" "registered ws' = registered ws - {(gs_self g, gs_socket g, m)}"
    using watches.remove_entries [OF ok mem] by blast
  then have "gs_remove_watch m (g, ws) = (Inr (), (g, ws'))" by (simp add: gs_remove_watch_def)
  moreover have "gs_socket g \<noteq> -1" using assms Some by (cases "gs_state g") (auto simp: gs_good_iff)
  ultimately have "gs_close True (g, ws) = (Inr (), (g\<lparr>gs_socket := -1, gs_state := StNone\<rparr>, ws'))"
    using Some by (cases "gs_state g") (auto simp: gs_close_def prog_simps gs_step_defs)
  moreover have "registered ws' = {t \<in> registered ws. fst t \<noteq> gs_self g}"
    using own ws'(3) unfolding own_watches_def by blast
  ultimately show ?thesis using ws'(2) by blast
qed

lemma gs_good_other:
  assumes "gs_good (g, ws)" and "ws_ok ws'" and "registered ws' = {t \<in> registered ws. fst t \<noteq> a}"
    and "gs_self g \<noteq> a"
  shows "gs_good (g, ws')"
proof -
  have "own_watches g ws' = own_watches g ws"
    using assms(4) unfolding own_watches_def assms(3) by auto
  with assms(1,2) show ?thesis by (simp add: gs_good_iff)
qed

lemma gs_destroy_closed:
  "gs_destroy True (g\<lparr>gs_socket := -1, gs_state := StNone\<rparr>, ws) =
     (Inr (), (g\<lparr>gs_socket := -1, gs_state := StNone\<rparr>, ws))"
  by (simp add: gs_destroy_def gs_close_def prog_simps)

lemma rk_inv_dropped:
  assumes inv: "rk_inv s" and live: "rk_live t = (rk_live s)(a := None)" and ok: "ws_ok (rk_ws t)"
    and reg: "registered (rk_ws t) = {x \<in> registered (rk_ws s). fst x \<noteq> a}"
    and lis: "rk_listening t = rk_listening s - {a}" and ids: "rk_ids t = remove1 a (rk_ids s)"
  shows "rk_inv t"
proof -
  have set: "set (rk_ids t) = set (rk_ids s) - {a}"
    using inv by (simp add: ids rk_inv_def set_remove1_eq)
  have "\<exists>g. rk_live t b = Some g \<and> gs_self g = b \<and> gs_good (g, rk_ws t)"
    if "b \<in> set (rk_ids t)" for b
  proof -
    from that set have b: "b \<in> set (rk_ids s)" "b \<noteq> a" by simp_all
    then obtain h where h: "rk_live s b = Some h" "gs_self h = b" "gs_good (h, rk_ws s)"
      using inv by (auto simp: rk_inv_def)
    from gs_good_other [OF h(3) ok reg] b h show ?thesis by (simp add: live)
  qed
  with inv ok set lis ids show ?thesis by (simp add: rk_inv_def sorted_remove1)
qed

lemma connector_close_good:
  assumes inv: "rk_inv s" and a: "a \<in> set (rk_ids s)" and c: "close_ok a"
  shows "\<exists>t. connector_close close_ok a s = (Inr (), t) \<and> rk_inv t \<and> rk_ids t = remove1 a (rk_ids s) \<and>
           rk_live t = (rk_live s)(a := None) \<and> rk_established t = rk_established s \<and>
           registered (rk_ws t) = {x \<in> registered (rk_ws s). fst x \<noteq> a}"
proof -
  obtain g where g: "rk_live s a = Some g" "gs_self g = a" "gs_good (g, rk_ws s)"
    using inv a by (auto simp: rk_inv_def)
  define g' where "g' = g\<lparr>gs_socket := -1, gs_state := StNone\<rparr>"
  obtain ws' where ws': "gs_close True (g, rk_ws s) = (Inr (), (g', ws'))"
    "ws_ok ws'" "registered ws' = {t \<in> registered (rk_ws s). fst t \<noteq> a}"
    using gs_close_registered [OF g(3)] g(2) unfolding g'_def by blast
  define t where "t = s\<lparr>rk_live := (rk_live s)(a := None), rk_ws := ws',
              rk_listening := rk_listening s - {a}, rk_ids := remove1 a (rk_ids s)\<rparr>"
  have 1: "rk_on a (gs_close (close_ok a)) s =
          (Inr (), s\<lparr>rk_live := (rk_live s)(a := Some g'), rk_ws := ws'\<rparr>)"
    using c g(1) ws'(1) by (simp add: rk_on_def)
  have 2: "rk_delete a s1 = (Inr (), s1\<lparr>rk_live := (rk_live s1)(a := None)\<rparr>)"
    if "rk_live s1 a = Some g'" for s1
    using that gs_destroy_closed [of g "rk_ws s1"]
    by (simp add: rk_delete_def rk_on_def g'_def thenP_def bindP_def modifyP_def)
  have "connector_close close_ok a s = (Inr (), t)"
    using a 1 2 by (simp add: connector_close_def thenP_def bindP_def rk_remove_listener_def modifyP_def t_def)
  moreover have "rk_inv t"
    by (rule rk_inv_dropped [OF inv]) (simp_all add: t_def ws'(2,3))
  ultimately show ?thesis using ws'(3) by (auto simp: t_def)
qed

lemma remove1_Cons_set: "distinct (a # xs) \<Longrightarrow> set (remove1 a (a # xs)) = set (a # xs) - {a}"
  by auto

text \<open>
  C35: \<open>CloseAll\<close>, and with it the destructor, ends when the kernel closes every descriptor: no
  socket stays tracked or listened to, every tracked socket is deleted, exactly their watches
  leave the registry, and no event is emitted.
\<close>

theorem connector_close_all_releases:
  assumes "rk_inv s" and "\<forall>a \<in> set (rk_ids s). close_ok a"
  shows "\<exists>t. connector_destroy close_ok s = (Inr (), t) \<and> rk_inv t \<and> rk_ids t = [] \<and>
           rk_listening t = {} \<and> rk_established t = rk_established s \<and>
           rk_live t = (\<lambda>a. if a \<in> set (rk_ids s) then None else rk_live s a) \<and>
           registered (rk_ws t) = {x \<in> registered (rk_ws s). fst x \<notin> set (rk_ids s)}"
  using assms unfolding connector_destroy_def
proof (induction "length (rk_ids s)" arbitrary: s)
  case 0
  then have "rk_ids s = []" by simp
  moreover have "connector_close_all close_ok s = (Inr (), s)"
    using calculation by (simp add: connector_close_all.simps)
  ultimately show ?case using "0.prems"(1) by (auto simp: rk_inv_def)
next
  case (Suc n)
  then obtain a as where ids: "rk_ids s = a # as" by (cases "rk_ids s") auto
  then have dist: "a \<notin> set as" using Suc.prems(1) by (simp add: rk_inv_def)
  obtain u where u: "connector_close close_ok a s = (Inr (), u)" "rk_inv u" "rk_ids u = as"
    "rk_live u = (rk_live s)(a := None)" "rk_established u = rk_established s"
    "registered (rk_ws u) = {x \<in> registered (rk_ws s). fst x \<noteq> a}"
    using connector_close_good [OF Suc.prems(1), of a close_ok] Suc.prems(2) ids by auto
  have "n = length (rk_ids u)" using Suc.hyps(2) ids u(3) by simp
  moreover have "\<forall>b \<in> set (rk_ids u). close_ok b" using Suc.prems(2) ids u(3) by simp
  ultimately obtain t where t: "connector_close_all close_ok u = (Inr (), t)" "rk_inv t"
    "rk_ids t = []" "rk_listening t = {}" "rk_established t = rk_established u"
    "rk_live t = (\<lambda>b. if b \<in> set (rk_ids u) then None else rk_live u b)"
    "registered (rk_ws t) = {x \<in> registered (rk_ws u). fst x \<notin> set (rk_ids u)}"
    using Suc.hyps(1) u(2) by blast
  have "connector_close_all close_ok s = (Inr (), t)"
    using ids u(1) t(1) by (simp add: connector_close_all.simps [of close_ok s])
  moreover have "rk_live t = (\<lambda>b. if b \<in> set (rk_ids s) then None else rk_live s b)"
    using t(6) u(3,4) ids by (auto simp: fun_eq_iff)
  moreover have "registered (rk_ws t) = {x \<in> registered (rk_ws s). fst x \<notin> set (rk_ids s)}"
    unfolding t(7) u(6) u(3) ids by auto
  ultimately show ?case using t(2-5) u(5) by (intro exI [of _ t]) simp
qed

text \<open>
  A failed close is fatal: when the kernel refuses to close the first tracked socket,
  \<open>CloseAll\<close> throws \<open>CloseFailed\<close> with the socket still tracked, and the next \<open>Close\<close> of it
  aborts in the socket's destructor whatever the kernel answers.
\<close>

theorem connector_failed_close_aborts:
  assumes inv: "rk_inv s" and ids: "rk_ids s = a # as" and c: "\<not> close_ok a"
    and live: "rk_live s a = Some g" and st: "gs_state g \<in> {StListening, StConnecting, StConnected}"
  shows "fst (connector_close_all close_ok s) = Inl CloseFailed \<and>
         rk_ids (snd (connector_close_all close_ok s)) = rk_ids s \<and>
         fst (connector_close close_ok' a (snd (connector_close_all close_ok s))) = Inl AssertFailed"
proof -
  have good: "gs_self g = a" "gs_good (g, rk_ws s)" using inv ids live by (auto simp: rk_inv_def)
  obtain m where m: "state_watch (gs_state g) = Some m" using st by auto
  then have "ws_ok (rk_ws s)" "own_watches g (rk_ws s) = {(gs_self g, gs_socket g, m)}"
    and fd: "gs_socket g \<noteq> -1"
    using good st by (auto simp: gs_good_iff)
  then obtain ws' where "gs_remove_watch m (g, rk_ws s) = (Inr (), (g, ws'))"
    using gs_remove_watch_step by blast
  then have close: "gs_close False (g, rk_ws s) = (Inl CloseFailed, (g\<lparr>gs_state := StNone\<rparr>, ws'))"
    using st m fd by (auto simp: gs_close_def prog_simps gs_step_defs)
  define t where "t = s\<lparr>rk_live := (rk_live s)(a := Some (g\<lparr>gs_state := StNone\<rparr>)), rk_ws := ws'\<rparr>"
  have "connector_close close_ok a s = (Inl CloseFailed, t)"
    using ids c live close by (simp add: connector_close_def rk_on_def thenP_def bindP_def t_def)
  then have all: "connector_close_all close_ok s = (Inl CloseFailed, t)"
    using ids by (simp add: connector_close_all.simps)
  have "gs_close b (g\<lparr>gs_state := StNone\<rparr>, ws') = (Inr (), (g\<lparr>gs_state := StNone\<rparr>, ws'))" for b
    by (simp add: gs_close_def ret_def)
  then have "fst (connector_close close_ok' a t) = Inl AssertFailed"
    using ids fd by (simp add: connector_close_def rk_on_def rk_delete_def rk_remove_listener_def
        gs_destroy_def catchP_def thenP_def bindP_def modifyP_def assertP_def ret_def t_def)
  with all ids show ?thesis by (simp add: t_def)
qed

section \<open>Opening and accepting\<close>

lemma own_insert:
  "registered ws' = insert (b, h, m) (registered ws) \<Longrightarrow>
   own_watches g ws' = (if gs_self g = b then insert (b, h, m) (own_watches g ws) else own_watches g ws)"
  unfolding own_watches_def by auto

lemma rk_inv_socket:
  assumes "rk_inv s" and "b \<in> set (rk_ids s)"
  obtains k where "rk_live s b = Some k" "gs_self k = b" "gs_good (k, rk_ws s)"
  using assms by (simp only: rk_inv_def) blast

lemma rk_inv_tracked:
  assumes inv: "rk_inv s" and fresh: "a \<notin> set (rk_ids s)"
    and g: "gs_self g = a" "gs_good (g, ws')"
    and ok: "ws_ok ws'" and reg: "registered ws' = insert (a, h, m) (registered (rk_ws s))"
  shows "rk_inv (s\<lparr>rk_live := (rk_live s)(a := Some g), rk_ws := ws',
                 rk_listening := insert a (rk_listening s), rk_ids := insort_insert a (rk_ids s)\<rparr>)"
proof -
  have good: "\<exists>k. rk_live s b = Some k \<and> gs_self k = b \<and> gs_good (k, ws')"
    if b: "b \<in> set (rk_ids s)" for b
  proof -
    obtain k where k: "rk_live s b = Some k" "gs_self k = b" "gs_good (k, rk_ws s)"
      using rk_inv_socket [OF inv b] .
    have "gs_self k \<noteq> a" using k(2) b fresh by (metis (no_types))
    then have "own_watches k ws' = own_watches k (rk_ws s)"
      using own_insert [OF reg, of k] by simp
    with k(3) ok have "gs_good (k, ws')" by (simp only: gs_good_iff)
    with k show ?thesis by blast
  qed
  let ?t = "s\<lparr>rk_live := (rk_live s)(a := Some g), rk_ws := ws',
              rk_listening := insert a (rk_listening s), rk_ids := insort_insert a (rk_ids s)\<rparr>"
  have "\<exists>k. rk_live ?t b = Some k \<and> gs_self k = b \<and> gs_good (k, rk_ws ?t)"
    if "b \<in> set (rk_ids ?t)" for b
  proof (cases "b = a")
    case True
    with g show ?thesis by simp
  next
    case False
    with that have "b \<in> set (rk_ids s)" by (simp add: set_insort_insert)
    from good [OF this] False show ?thesis by simp
  qed
  moreover have "sorted (rk_ids s)" "distinct (rk_ids s)" "rk_listening s = set (rk_ids s)"
    using inv by (simp_all add: rk_inv_def)
  ultimately show ?thesis
    unfolding rk_inv_def using ok
    by (simp add: sorted_insort_insert distinct_insort_insert set_insort_insert)
qed

definition opened_on ::
  "nat \<Rightarrow> int \<Rightarrow> internal_state \<Rightarrow> wait_mode option \<Rightarrow> rpc_connector \<Rightarrow> rpc_connector \<Rightarrow> bool" where
  "opened_on a fd st w s t \<longleftrightarrow>
     rk_inv t \<and> rk_ids t = insort_insert a (rk_ids s) \<and> rk_established t = rk_established s \<and>
     (\<exists>g. rk_live t = (rk_live s)(a := Some g) \<and> gs_socket g = fd \<and> gs_state g = st) \<and>
     registered (rk_ws t) =
       (case w of None \<Rightarrow> registered (rk_ws s) | Some m \<Rightarrow> insert (a, fd, m) (registered (rk_ws s)))"

text \<open>What a failed open leaves: the socket object is not deleted.\<close>

definition open_leaked :: "nat \<Rightarrow> int \<Rightarrow> rpc_connector \<Rightarrow> rpc_connector \<Rightarrow> bool" where
  "open_leaked a fd s t \<longleftrightarrow>
     rk_ids t = rk_ids s \<and> rk_ws t = rk_ws s \<and>
     (\<exists>g. rk_live t = (rk_live s)(a := Some g) \<and> gs_socket g = fd)"

lemma gs_new_sel [simp]:
  "gs_socket (gs_new a) = -1" "gs_state (gs_new a) = StNone" "gs_self (gs_new a) = a"
  "gs_events (gs_new a) = []"
  by (simp_all add: gs_new_def)

lemma new_socket_good:
  assumes "ws_ok ws" and "a \<notin> fst ` registered ws" and "fd \<noteq> -1"
  shows "gs_good ((gs_new a)\<lparr>gs_socket := fd, gs_state := StPrepare\<rparr>, ws)"
  using assms gs_new_good [OF assms(1,2)] by (simp add: gs_good_iff)

lemma prepared_watch:
  assumes inv: "rk_inv s" and watch: "a \<notin> fst ` registered (rk_ws s)" and fd: "fd \<noteq> -1"
    and fresh: "rk_live s a = None" and st: "state_watch st = Some m"
  shows "\<exists>ws'. gs_add_watch m ((gs_new a)\<lparr>gs_socket := fd, gs_state := StPrepare\<rparr>, rk_ws s) =
                 (Inr (), ((gs_new a)\<lparr>gs_socket := fd, gs_state := StPrepare\<rparr>, ws')) \<and>
               (\<forall>es. opened_on a fd st (Some m) s
                  (s\<lparr>rk_live := (rk_live s)
                       (a := Some ((gs_new a)\<lparr>gs_socket := fd, gs_state := st, gs_events := es\<rparr>)),
                     rk_ws := ws', rk_listening := insert a (rk_listening s),
                     rk_ids := insort_insert a (rk_ids s)\<rparr>))"
proof -
  have new: "(a, fd, m) \<notin> registered (rk_ws s)" using watch by (force simp: image_iff)
  have ok: "ws_ok (rk_ws s)" using inv by (simp add: rk_inv_def)
  obtain ws' where ws': "add_watch (ws_thread (rk_ws s)) a fd m (rk_ws s) = (Inr (), ws')" "ws_ok ws'"
    "registered ws' = insert (a, fd, m) (registered (rk_ws s))"
    using watches.add_entries [OF ok new] by blast
  have none: "own_watches (gs_new a) (rk_ws s) = {}"
    using watch unfolding own_watches_def by (force simp: gs_new_def image_iff)
  have a: "a \<notin> set (rk_ids s)" using inv fresh by (auto simp: rk_inv_def)
  have st': "st \<noteq> StNone" using st by auto
  have good: "gs_good ((gs_new a)\<lparr>gs_socket := fd, gs_state := st, gs_events := es\<rparr>, ws')" for es
    using fd st st' ws'(2) own_insert [OF ws'(3), of "gs_new a"] none
    by (simp add: gs_good_iff)
  have "opened_on a fd st (Some m) s
          (s\<lparr>rk_live := (rk_live s)
               (a := Some ((gs_new a)\<lparr>gs_socket := fd, gs_state := st, gs_events := es\<rparr>)),
             rk_ws := ws', rk_listening := insert a (rk_listening s),
             rk_ids := insort_insert a (rk_ids s)\<rparr>)" for es
    using rk_inv_tracked [OF inv a _ good ws'(2,3)]
    unfolding opened_on_def
    by (intro conjI exI [of _ "(gs_new a)\<lparr>gs_socket := fd, gs_state := st, gs_events := es\<rparr>"])
      (simp_all add: ws'(3))
  moreover have "gs_add_watch m ((gs_new a)\<lparr>gs_socket := fd, gs_state := StPrepare\<rparr>, rk_ws s) =
                 (Inr (), ((gs_new a)\<lparr>gs_socket := fd, gs_state := StPrepare\<rparr>, ws'))"
    using ws'(1) by (simp add: gs_add_watch_def gs_new_def)
  ultimately show ?thesis by blast
qed

text \<open>The common part of both opens: the socket is prepared or the failure is translated.\<close>

lemmas connector_simps = rk_on_def rk_alloc_def rk_add_listener_def rk_remove_listener_def rk_track_def
  gs_open_def prog_simps gs_step_defs

definition open_error :: "exn \<Rightarrow> exn" where
  "open_error e = (if socket_exn e then RPCOpenFailed else e)"

lemma server_open_success:
  assumes "rk_inv s" and "rk_live s a = None" and "a \<notin> fst ` registered (rk_ws s)" and "fd \<noteq> -1"
  shows "\<exists>t. server_open a (Inr fd) True (Inr u) True True s = (Inr a, t) \<and>
           opened_on a fd StListening (Some WaitRead) s t"
proof -
  obtain ws' where w: "gs_add_watch WaitRead ((gs_new a)\<lparr>gs_socket := fd, gs_state := StPrepare\<rparr>, rk_ws s) =
      (Inr (), ((gs_new a)\<lparr>gs_socket := fd, gs_state := StPrepare\<rparr>, ws'))"
    and opened: "\<forall>es. opened_on a fd StListening (Some WaitRead) s
      (s\<lparr>rk_live := (rk_live s)
           (a := Some ((gs_new a)\<lparr>gs_socket := fd, gs_state := StListening, gs_events := es\<rparr>)),
         rk_ws := ws', rk_listening := insert a (rk_listening s),
         rk_ids := insort_insert a (rk_ids s)\<rparr>)"
    using prepared_watch [OF assms(1,3,4,2), of StListening WaitRead] by auto
  then have "server_open a (Inr fd) True (Inr u) True True s = (Inr a,
      s\<lparr>rk_live := (rk_live s)
           (a := Some ((gs_new a)\<lparr>gs_socket := fd, gs_state := StListening, gs_events := []\<rparr>)),
         rk_ws := ws', rk_listening := insert a (rk_listening s),
         rk_ids := insort_insert a (rk_ids s)\<rparr>)"
    by (simp add: server_open_def connector_simps gs_bind_def gs_listen_def) (simp add: gs_new_def)
  with opened show ?thesis by blast
qed

lemma rk_new_inv: "rk_inv (rk_new live (ws_new None))"
  by (simp add: rk_inv_def rk_new_def)

text \<open>A server on one interface.\<close>

lemma one_interface:
  "\<exists>t. rk_inv t \<and> rk_ids t = [1] \<and> registered (rk_ws t) = {(1, 3, WaitRead)} \<and>
     (\<exists>g. rk_live t 1 = Some g \<and> gs_state g = StListening \<and> gs_socket g = 3)"
proof -
  have new: "rk_live (rk_new Map.empty (ws_new None)) 1 = None" "(1::nat) \<notin> fst ` registered (rk_ws (rk_new Map.empty (ws_new None)))"
    "rk_ids (rk_new Map.empty (ws_new None)) = []" "registered (rk_ws (rk_new Map.empty (ws_new None))) = {}"
    by (simp_all add: rk_new_def)
  obtain t where "opened_on 1 3 StListening (Some WaitRead) (rk_new Map.empty (ws_new None)) t"
    using server_open_success [OF rk_new_inv new(1,2), of 3 "()"] by auto
  with new(3,4) show ?thesis by (intro exI [of _ t]) (auto simp: opened_on_def insort_insert_key_def)
qed

text \<open>
  Opening a server on a fresh socket object: when every call succeeds the socket listens with
  one read watch and is tracked; when one fails the caller gets \<open>OpenFailed\<close> (or the exception
  that is not a socket exception), nothing is tracked and no watch is left, but the socket object
  and its descriptor stay allocated with nobody left to delete them.
\<close>

theorem server_open_outcome:
  assumes inv: "rk_inv s" and fresh: "rk_live s a = None" and watch: "a \<notin> fst ` registered (rk_ws s)"
    and fd: "fd \<noteq> -1"
  shows "\<exists>r t. server_open a (Inr fd) fcntl_ok tr bind_ok listen_ok s = (r, t) \<and>
           (if fcntl_ok \<and> \<not> isl tr \<and> bind_ok \<and> listen_ok
            then r = Inr a \<and> opened_on a fd StListening (Some WaitRead) s t
            else r = Inl (if fcntl_ok \<and> isl tr then open_error (projl tr) else RPCOpenFailed) \<and>
                 open_leaked a fd s t)"
proof (cases "fcntl_ok \<and> \<not> isl tr \<and> bind_ok \<and> listen_ok")
  case True
  then obtain u where "tr = Inr u" by (cases tr) auto
  with True server_open_success [OF assms, of u] show ?thesis by auto
next
  case False
  then show ?thesis
    by (cases fcntl_ok; cases tr; cases bind_ok)
      (simp_all add: server_open_def connector_simps gs_bind_def gs_listen_def open_leaked_def
        open_error_def socket_exn_def, auto)
qed

text \<open>The watch a connecting client socket gets, or \<open>None\<close> when \<open>connect\<close> failed.\<close>

definition connect_state :: "errno option \<Rightarrow> internal_state option" where
  "connect_state result =
     (case result of
        None \<Rightarrow> Some StConnected
      | Some e \<Rightarrow> (if e = EINTR \<or> e = EINPROGRESS then Some StConnecting else None))"

text \<open>
  Opening a client on a fresh socket object: an immediate connection is tracked with a read
  watch, a pending one with a write watch; an address that does not translate or a refused
  connection is \<open>OpenFailed\<close> and leaks the socket object as the server's open does.
\<close>

theorem client_open_outcome:
  assumes inv: "rk_inv s" and fresh: "rk_live s a = None" and watch: "a \<notin> fst ` registered (rk_ws s)"
    and fd: "fd \<noteq> -1"
  shows "\<exists>r t. client_open a (Inr fd) fcntl_ok tr result s = (r, t) \<and>
           (case (if fcntl_ok \<and> \<not> isl tr then connect_state result else None) of
              Some st \<Rightarrow> r = Inr a \<and> opened_on a fd st (state_watch st) s t
            | None \<Rightarrow>
                r = Inl (if fcntl_ok \<and> isl tr \<and> projl tr \<noteq> InvalidAddress
                         then open_error (projl tr) else RPCOpenFailed) \<and>
                open_leaked a fd s t)"
proof (cases "if fcntl_ok \<and> \<not> isl tr then connect_state result else None")
  case (Some st)
  then have ok: "fcntl_ok" "\<not> isl tr" and cs: "connect_state result = Some st"
    by (auto split: if_splits)
  then obtain u where u: "tr = Inr u" by (cases tr) auto
  from cs consider "result = None" "st = StConnected"
    | e where "result = Some e" "e = EINTR \<or> e = EINPROGRESS" "st = StConnecting"
    by (auto simp: connect_state_def split: option.splits if_splits)
  then show ?thesis
  proof cases
    case 1
    obtain ws' where w: "gs_add_watch WaitRead ((gs_new a)\<lparr>gs_socket := fd, gs_state := StPrepare\<rparr>, rk_ws s) =
        (Inr (), ((gs_new a)\<lparr>gs_socket := fd, gs_state := StPrepare\<rparr>, ws'))"
      and opened: "\<forall>es. opened_on a fd StConnected (Some WaitRead) s
        (s\<lparr>rk_live := (rk_live s)
             (a := Some ((gs_new a)\<lparr>gs_socket := fd, gs_state := StConnected, gs_events := es\<rparr>)),
           rk_ws := ws', rk_listening := insert a (rk_listening s),
           rk_ids := insort_insert a (rk_ids s)\<rparr>)"
      using prepared_watch [OF inv watch fd fresh, of StConnected WaitRead] by auto
    have "client_open a (Inr fd) fcntl_ok tr result s = (Inr a,
        s\<lparr>rk_live := (rk_live s)
             (a := Some ((gs_new a)\<lparr>gs_socket := fd, gs_state := StConnected, gs_events := [ConnectedEvent]\<rparr>)),
           rk_ws := ws', rk_listening := insert a (rk_listening s),
           rk_ids := insort_insert a (rk_ids s)\<rparr>)"
      using ok u w 1 by (simp add: client_open_def connector_simps gs_connect_def)
    with Some opened 1 show ?thesis by simp
  next
    case (2 e)
    obtain ws' where w: "gs_add_watch WaitWrite ((gs_new a)\<lparr>gs_socket := fd, gs_state := StPrepare\<rparr>, rk_ws s) =
        (Inr (), ((gs_new a)\<lparr>gs_socket := fd, gs_state := StPrepare\<rparr>, ws'))"
      and opened: "\<forall>es. opened_on a fd StConnecting (Some WaitWrite) s
        (s\<lparr>rk_live := (rk_live s)
             (a := Some ((gs_new a)\<lparr>gs_socket := fd, gs_state := StConnecting, gs_events := es\<rparr>)),
           rk_ws := ws', rk_listening := insert a (rk_listening s),
           rk_ids := insort_insert a (rk_ids s)\<rparr>)"
      using prepared_watch [OF inv watch fd fresh, of StConnecting WaitWrite] by auto
    have "client_open a (Inr fd) fcntl_ok tr result s = (Inr a,
        s\<lparr>rk_live := (rk_live s)
             (a := Some ((gs_new a)\<lparr>gs_socket := fd, gs_state := StConnecting, gs_events := []\<rparr>)),
           rk_ws := ws', rk_listening := insert a (rk_listening s),
           rk_ids := insort_insert a (rk_ids s)\<rparr>)"
      using ok u w 2 by (auto simp: client_open_def connector_simps gs_connect_def gs_new_def)
    with Some opened 2 show ?thesis by simp
  qed
next
  case None
  then show ?thesis
    by (cases fcntl_ok; cases tr; cases result)
      (simp_all add: client_open_def connector_simps gs_connect_def open_leaked_def
        open_error_def socket_exn_def connect_state_def, auto)
qed

text \<open>
  The connectors' event handlers.  An event of a socket that is not tracked any more changes
  nothing.  A connected socket passes from the client to its new connection: it is not tracked
  any more, so a later \<open>Close\<close> of its identifier, or a second event, does nothing.
\<close>

theorem connected_event_outcome:
  assumes live: "rk_live s a = Some g" and new: "(c, gs_socket g, WaitRead) \<notin> registered (rk_ws s)"
    and ok: "ws_ok (rk_ws s)" and dist: "distinct (rk_ids s)"
  shows "\<exists>t. client_on_connected a c s = (Inr (), t) \<and>
           (if a \<in> set (rk_ids s)
            then rk_ids t = remove1 a (rk_ids s) \<and> rk_listening t = rk_listening s - {a} \<and>
                 rk_established t = rk_established s @ [(a, c)] \<and> rk_live t = rk_live s \<and>
                 registered (rk_ws t) = insert (c, gs_socket g, WaitRead) (registered (rk_ws s))
            else t = s) \<and>
           client_on_connected a c t = (Inr (), t) \<and> connector_close close_ok a t = (Inr (), t)"
proof (cases "a \<in> set (rk_ids s)")
  case False
  then show ?thesis by (simp add: client_on_connected_def connector_close_def ret_def)
next
  case True
  obtain ws' where ws': "add_watch (ws_thread (rk_ws s)) c (gs_socket g) WaitRead (rk_ws s) = (Inr (), ws')"
    "registered ws' = insert (c, gs_socket g, WaitRead) (registered (rk_ws s))"
    using watches.add_entries [OF ok new] by blast
  have "a \<notin> set (remove1 a (rk_ids s))" using dist by (simp add: set_remove1_eq)
  with True live ws' show ?thesis
    by (simp add: client_on_connected_def connector_close_def rk_open_connection_def
        rk_remove_listener_def rk_emit_established_def thenP_def bindP_def modifyP_def ret_def)
qed

section \<open>Concrete connectors\<close>

theorem connector_close_all_releases_witness:
  "\<exists>s t. rk_ids s = [1] \<and> connector_destroy (\<lambda>_. True) s = (Inr (), t) \<and> rk_live t 1 = None \<and>
     registered (rk_ws s) = {(1, 3, WaitRead)} \<and> registered (rk_ws t) = {}"
proof -
  obtain s where s: "rk_inv s" "rk_ids s = [1]" "registered (rk_ws s) = {(1, 3, WaitRead)}"
    using one_interface by blast
  from connector_close_all_releases [of s "\<lambda>_. True"] s show ?thesis by fastforce
qed

theorem connector_failed_close_aborts_witness:
  "\<exists>s. rk_ids s = [1] \<and> fst (connector_close_all (\<lambda>_. False) s) = Inl CloseFailed \<and>
     fst (connector_close (\<lambda>_. True) 1 (snd (connector_close_all (\<lambda>_. False) s))) = Inl AssertFailed"
proof -
  obtain s g where s: "rk_inv s" "rk_ids s = [1]" "rk_live s 1 = Some g" "gs_state g = StListening"
    using one_interface by blast
  from connector_failed_close_aborts [OF s(1,2) _ s(3), of "\<lambda>_. False" "\<lambda>_. True"] s show ?thesis by auto
qed

theorem server_open_outcome_witness:
  "\<exists>t. server_open 7 (Inr 3) True (Inr ()) False True (rk_new Map.empty (ws_new None)) =
         (Inl RPCOpenFailed, t) \<and> open_leaked 7 3 (rk_new Map.empty (ws_new None)) t"
  using server_open_outcome [of "rk_new Map.empty (ws_new None)" 7 3 True "Inr ()" False True] rk_new_inv
  by (simp add: rk_new_def)

theorem client_open_outcome_witness:
  "\<exists>t. client_open 7 (Inr 3) True (Inr ()) (Some EINPROGRESS) (rk_new Map.empty (ws_new None)) =
         (Inr 7, t) \<and> opened_on 7 3 StConnecting (Some WaitWrite) (rk_new Map.empty (ws_new None)) t"
  using client_open_outcome [of "rk_new Map.empty (ws_new None)" 7 3 True "Inr ()" "Some EINPROGRESS"] rk_new_inv
  by (simp add: rk_new_def connect_state_def)

theorem connected_event_outcome_witness:
  "\<exists>s t. rk_ids s = [1] \<and> client_on_connected 1 5 s = (Inr (), t) \<and> rk_ids t = [] \<and>
     rk_established t = rk_established s @ [(1, 5)] \<and> connector_close (\<lambda>_. True) 1 t = (Inr (), t)"
proof -
  obtain s g where s: "rk_inv s" "rk_ids s = [1]" "registered (rk_ws s) = {(1, 3, WaitRead)}"
    "rk_live s 1 = Some g"
    using one_interface by blast
  from connected_event_outcome [OF s(4), of 5 "\<lambda>_. True"] s show ?thesis by (fastforce simp: rk_inv_def)
qed

end
