(* ===== verification/Serialization.thy ===== *)
theory Serialization
  imports StdMap StreamInterfaces
begin

text \<open>
  \<open>DPL::Serialization\<close> and \<open>DPL::Deserialization\<close> (modules/core/include/dpl/serialization.h).
  The stream is the virtual interface \<open>IStream\<close>: its \<open>Read\<close> and \<open>Write\<close> are arguments.
  \<open>int\<close> and \<open>unsigned\<close> are 32 bits; a length is written as an \<open>int\<close>, and an \<open>int\<close> given to
  \<open>Read\<close>/\<open>Write\<close> is converted to the 32-bit \<open>size_t\<close>, which is the same bit pattern.
\<close>

type_synonym 's write_fn = "byte list \<Rightarrow> 's \<Rightarrow> 's"
type_synonym 's read_fn = "nat \<Rightarrow> ('s, byte list) prog"

section \<open>Writing\<close>

definition ser_unsigned :: "'s write_fn \<Rightarrow> 32 word \<Rightarrow> 's \<Rightarrow> 's" where
  "ser_unsigned wr v = wr (le_encode 4 (unat v))"

definition ser_int :: "'s write_fn \<Rightarrow> 32 word \<Rightarrow> 's \<Rightarrow> 's" where
  "ser_int wr v = wr (le_encode 4 (unat v))"

definition ser_bool :: "'s write_fn \<Rightarrow> bool \<Rightarrow> 's \<Rightarrow> 's" where
  "ser_bool wr v = wr [if v then 1 else 0]"

definition ser_string :: "'s write_fn \<Rightarrow> byte list \<Rightarrow> 's \<Rightarrow> 's" where
  "ser_string wr str s =
     (let len = (word_of_nat (length str) :: 32 word)
      in wr (take (unat len) str) (wr (le_encode 4 (unat len)) s))"

definition ser_list :: "'s write_fn \<Rightarrow> ('x \<Rightarrow> 's \<Rightarrow> 's) \<Rightarrow> 'x list \<Rightarrow> 's \<Rightarrow> 's" where
  "ser_list wr ser xs s =
     (let len = (word_of_nat (length xs) :: 32 word)
      in fold ser xs (wr (le_encode 4 (unat len)) s))"

definition ser_vector :: "'s write_fn \<Rightarrow> ('x \<Rightarrow> 's \<Rightarrow> 's) \<Rightarrow> 'x list \<Rightarrow> 's \<Rightarrow> 's" where
  "ser_vector wr ser vec s =
     (let len = (word_of_nat (length vec) :: 32 word)
      in fold ser vec (wr (le_encode 4 (unat len)) s))"

definition ser_pair :: "('a \<Rightarrow> 's \<Rightarrow> 's) \<Rightarrow> ('b \<Rightarrow> 's \<Rightarrow> 's) \<Rightarrow> 'a \<times> 'b \<Rightarrow> 's \<Rightarrow> 's" where
  "ser_pair sera serb p s = serb (snd p) (sera (fst p) s)"

definition ser_map ::
  "'s write_fn \<Rightarrow> ('k \<Rightarrow> 's \<Rightarrow> 's) \<Rightarrow> ('t \<Rightarrow> 's \<Rightarrow> 's) \<Rightarrow> ('k, 't) smap \<Rightarrow> 's \<Rightarrow> 's" where
  "ser_map wr serk sert m s =
     (let len = (word_of_nat (length m) :: 32 word)
      in fold (\<lambda>it s. sert (snd it) (serk (fst it) s)) m (wr (le_encode 4 (unat len)) s))"

section \<open>Reading\<close>

definition deser_unsigned :: "'s read_fn \<Rightarrow> ('s, 32 word) prog" where
  "deser_unsigned rd = bindP (rd 4) (\<lambda>b. ret (word_of_nat (le_decode b)))"

definition deser_int :: "'s read_fn \<Rightarrow> ('s, 32 word) prog" where
  "deser_int rd = bindP (rd 4) (\<lambda>b. ret (word_of_nat (le_decode b)))"

definition deser_bool :: "'s read_fn \<Rightarrow> ('s, bool) prog" where
  "deser_bool rd = bindP (rd 1) (\<lambda>b. ret (le_decode b \<noteq> 0))"

text \<open>
  \<open>new char[length+1]\<close> with a negative size throws \<open>std::bad_alloc\<close>; the constructor
  \<open>std::string(buf)\<close> stops at the first zero byte of the buffer.
\<close>

definition deser_string :: "'s read_fn \<Rightarrow> ('s, byte list) prog" where
  "deser_string rd =
     bindP (deser_int rd)
       (\<lambda>len. if sint len + 1 < 0 then raise BadAlloc
              else bindP (rd (unat len)) (\<lambda>buf. ret (takeWhile (\<lambda>c. c \<noteq> 0) buf)))"

primrec deser_loop :: "nat \<Rightarrow> ('s, 'x) prog \<Rightarrow> 'x list \<Rightarrow> ('s, 'x list) prog" where
  "deser_loop 0 des acc = ret acc"
| "deser_loop (Suc n) des acc = bindP des (\<lambda>obj. deser_loop n des (acc @ [obj]))"

text \<open>
  The list overload pushes to the list it is given (\<open>list0\<close>) without clearing it; a
  negative length makes no iteration.
\<close>

definition deser_list :: "'s read_fn \<Rightarrow> ('s, 'x) prog \<Rightarrow> 'x list \<Rightarrow> ('s, 'x list) prog" where
  "deser_list rd des list0 = bindP (deser_int rd) (\<lambda>len. deser_loop (nat (sint len)) des list0)"

definition deser_vector :: "'s read_fn \<Rightarrow> ('s, 'x) prog \<Rightarrow> 'x list \<Rightarrow> ('s, 'x list) prog" where
  "deser_vector rd des vec0 = bindP (deser_int rd) (\<lambda>len. deser_loop (nat (sint len)) des vec0)"

definition deser_pair :: "('s, 'a) prog \<Rightarrow> ('s, 'b) prog \<Rightarrow> ('s, 'a \<times> 'b) prog" where
  "deser_pair desa desb = bindP desa (\<lambda>a. bindP desb (\<lambda>b. ret (a, b)))"

primrec deser_map_loop ::
  "nat \<Rightarrow> ('s, 'k) prog \<Rightarrow> ('s, 't) prog \<Rightarrow> ('k::linorder, 't) smap \<Rightarrow> ('s, ('k, 't) smap) prog" where
  "deser_map_loop 0 desk dest m = ret m"
| "deser_map_loop (Suc n) desk dest m =
     bindP desk (\<lambda>key. bindP dest (\<lambda>obj. deser_map_loop n desk dest (sm_put key obj m)))"

definition deser_map ::
  "'s read_fn \<Rightarrow> ('s, 'k) prog \<Rightarrow> ('s, 't) prog \<Rightarrow> ('k::linorder, 't) smap \<Rightarrow> ('s, ('k, 't) smap) prog" where
  "deser_map rd desk dest map0 =
     bindP (deser_int rd) (\<lambda>len. deser_map_loop (nat (sint len)) desk dest map0)"

section \<open>The encodings\<close>

definition int_enc :: "32 word \<Rightarrow> byte list" where
  "int_enc v = le_encode 4 (unat v)"

definition len_enc :: "'x list \<Rightarrow> byte list" where
  "len_enc xs = le_encode 4 (length xs)"

definition string_enc :: "byte list \<Rightarrow> byte list" where
  "string_enc str = len_enc str @ str"

definition list_enc :: "('x \<Rightarrow> byte list) \<Rightarrow> 'x list \<Rightarrow> byte list" where
  "list_enc enc xs = len_enc xs @ concat (map enc xs)"

definition pair_enc :: "('a \<Rightarrow> byte list) \<Rightarrow> ('b \<Rightarrow> byte list) \<Rightarrow> 'a \<times> 'b \<Rightarrow> byte list" where
  "pair_enc enca encb p = enca (fst p) @ encb (snd p)"

definition short_list :: "'x list \<Rightarrow> bool" where
  "short_list xs \<longleftrightarrow> length xs < 2 ^ 31"

definition c_string :: "byte list \<Rightarrow> bool" where
  "c_string str \<longleftrightarrow> short_list str \<and> 0 \<notin> set str"

lemma word_dec_enc: "word_of_nat (le_decode (le_encode 4 (unat v))) = (v :: 32 word)"
proof -
  have "unat v < 2 ^ LENGTH(32)" by (rule unsigned_less)
  then have "unat v < 256 ^ 4" by simp
  then have "le_decode (le_encode 4 (unat v)) = unat v" by (rule le_decode_encode_small)
  then show ?thesis by simp
qed

lemma short_len:
  assumes "short_list xs"
  shows "unat (word_of_nat (length xs) :: 32 word) = length xs"
    and "sint (word_of_nat (length xs) :: 32 word) = int (length xs)"
    and "le_decode (len_enc xs) = length xs"
proof -
  have lt: "length xs < 2 ^ 31" using assms by (simp add: short_list_def)
  show "unat (word_of_nat (length xs) :: 32 word) = length xs"
    using lt by (simp add: unat_of_nat take_bit_nat_eq_self_iff)
  show "sint (word_of_nat (length xs) :: 32 word) = int (length xs)"
    using lt by (simp add: signed_of_nat signed_take_bit_int_eq_self_iff)
  show "le_decode (len_enc xs) = length xs"
    using lt by (simp add: len_enc_def le_decode_encode)
qed

lemma length_len_enc [simp]: "length (len_enc xs) = 4"
  by (simp add: len_enc_def)

section \<open>Each overload pair is a codec\<close>

lemma deser_loop_app:
  "deser_loop n des acc s =
     (case deser_loop n des [] s of (Inl e, t) \<Rightarrow> (Inl e, t) | (Inr xs, t) \<Rightarrow> (Inr (acc @ xs), t))"
proof (induction n arbitrary: acc s)
  case 0
  then show ?case by (simp add: prog_simps)
next
  case (Suc n)
  show ?case
  proof (cases "des s")
    case (Pair r t)
    show ?thesis
    proof (cases r)
      case (Inl e)
      with Pair show ?thesis by (simp add: prog_simps)
    next
      case (Inr x)
      with Pair Suc [of "acc @ [x]" t] Suc [of "[x]" t] show ?thesis
        by (simp add: prog_simps split: prod.splits sum.splits)
    qed
  qed
qed

context codec begin

lemma deser_loop_enc:
  assumes "good s" and "list_all valid xs" and "contents s = concat (map enc xs) @ r"
  shows "\<exists>t. deser_loop (length xs) des acc s = (Inr (acc @ xs), t) \<and> good t \<and> contents t = r"
  using assms
proof (induction xs arbitrary: s acc)
  case Nil
  then show ?case by (simp add: prog_simps)
next
  case (Cons x xs)
  then have "valid x" and "contents s = enc x @ (concat (map enc xs) @ r)" by auto
  with \<open>good s\<close> obtain t where t: "des s = (Inr x, t)" "good t" "contents t = concat (map enc xs) @ r"
    by (rule des_obtain)
  with Cons.IH [of t "acc @ [x]"] Cons.prems show ?case
    by (simp add: prog_simps)
qed

end

context istream begin

lemma codec_int: "codec (ser_int wr) (deser_int rd) int_enc (\<lambda>_. True) contents good"
proof unfold_locales
  fix s v r
  assume "good s" and "contents s = int_enc v @ r"
  then obtain t where "rd (length (int_enc v)) s = (Inr (int_enc v), t)" "good t" "contents t = r"
    by (rule rd_prefix)
  then show "\<exists>t. deser_int rd s = (Inr v, t) \<and> good t \<and> contents t = r"
    by (simp add: deser_int_def prog_simps int_enc_def word_dec_enc)
qed (auto simp: ser_int_def int_enc_def good_wr contents_wr)

lemma codec_unsigned: "codec (ser_unsigned wr) (deser_unsigned rd) int_enc (\<lambda>_. True) contents good"
  using codec_int by (simp add: ser_unsigned_def [abs_def] ser_int_def [abs_def]
      deser_unsigned_def [abs_def] deser_int_def [abs_def])

lemma codec_bool:
  "codec (ser_bool wr) (deser_bool rd) (\<lambda>v. [if v then 1 else 0]) (\<lambda>_. True) contents good"
proof unfold_locales
  fix s :: 's and v r
  assume "good s" and "contents s = [if v then 1 else 0] @ r"
  then obtain t where "rd (length [if v then 1 else 0 :: byte]) s = (Inr [if v then 1 else 0], t)"
    "good t" "contents t = r"
    by (rule rd_prefix)
  then show "\<exists>t. deser_bool rd s = (Inr v, t) \<and> good t \<and> contents t = r"
    by (cases v) (simp_all add: deser_bool_def prog_simps)
qed (auto simp: ser_bool_def good_wr contents_wr)

lemma deser_len:
  assumes "good s" and "short_list xs" and "contents s = len_enc xs @ r"
  obtains t where "deser_int rd s = (Inr (word_of_nat (length xs)), t)" "good t" "contents t = r"
proof -
  obtain t where t: "rd (length (len_enc xs)) s = (Inr (len_enc xs), t)" "good t" "contents t = r"
    using rd_prefix [OF assms(1,3)] by blast
  then have "deser_int rd s = (Inr (word_of_nat (length xs)), t)"
    using short_len(3) [OF assms(2)] by (simp add: deser_int_def prog_simps)
  with t(2,3) show ?thesis using that by blast
qed

lemma codec_string: "codec (ser_string wr) (deser_string rd) string_enc c_string contents good"
proof unfold_locales
  fix s x
  assume "good s" and "c_string x"
  then show "good (ser_string wr x s) \<and> contents (ser_string wr x s) = contents s @ string_enc x"
    by (auto simp: ser_string_def c_string_def short_len string_enc_def len_enc_def good_wr
        contents_wr Let_def)
next
  fix s x r
  assume g: "good s" and x: "c_string x" and c: "contents s = string_enc x @ r"
  from x have sh: "short_list x" by (simp add: c_string_def)
  from c have "contents s = len_enc x @ (x @ r)" by (simp add: string_enc_def)
  with g sh obtain t where t: "deser_int rd s = (Inr (word_of_nat (length x)), t)" "good t"
    "contents t = x @ r"
    by (rule deser_len)
  obtain u where u: "rd (length x) t = (Inr x, u)" "good u" "contents u = r"
    using rd_prefix [OF t(2,3)] .
  have "takeWhile (\<lambda>c. c \<noteq> 0) x = x" using x by (auto simp: c_string_def takeWhile_eq_all_conv)
  with t u sh show "\<exists>t. deser_string rd s = (Inr x, t) \<and> good t \<and> contents t = r"
    by (simp add: deser_string_def prog_simps short_len)
qed

lemma codec_list:
  assumes c: "codec ser des enc valid contents good"
  shows "codec (ser_list wr ser) (deser_list rd des []) (list_enc enc)
           (\<lambda>xs. short_list xs \<and> list_all valid xs) contents good"
proof unfold_locales
  fix s xs
  assume g: "good s" and xs: "short_list xs \<and> list_all valid xs"
  then have "good (wr (len_enc xs) s)" "contents (wr (len_enc xs) s) = contents s @ len_enc xs"
    by (simp_all add: good_wr contents_wr)
  with codec.fold_ser_enc [OF c] xs
  show "good (ser_list wr ser xs s) \<and> contents (ser_list wr ser xs s) = contents s @ list_enc enc xs"
    by (simp add: ser_list_def list_enc_def short_len len_enc_def [symmetric] Let_def)
next
  fix s xs r
  assume g: "good s" and xs: "short_list xs \<and> list_all valid xs"
    and "contents s = list_enc enc xs @ r"
  then have "contents s = len_enc xs @ (concat (map enc xs) @ r)" by (simp add: list_enc_def)
  with g xs obtain t where t: "deser_int rd s = (Inr (word_of_nat (length xs)), t)" "good t"
    "contents t = concat (map enc xs) @ r"
    by (auto elim: deser_len)
  with codec.deser_loop_enc [OF c, of t xs r "[]"] xs
  show "\<exists>t. deser_list rd des [] s = (Inr xs, t) \<and> good t \<and> contents t = r"
    by (auto simp: deser_list_def prog_simps short_len)
qed

lemma codec_vector:
  assumes "codec ser des enc valid contents good"
  shows "codec (ser_vector wr ser) (deser_vector rd des []) (list_enc enc)
           (\<lambda>xs. short_list xs \<and> list_all valid xs) contents good"
  using codec_list [OF assms]
  by (simp add: ser_list_def [abs_def] ser_vector_def [abs_def]
      deser_list_def [abs_def] deser_vector_def [abs_def])

lemma codec_pair:
  assumes a: "codec sera desa enca va contents good" and b: "codec serb desb encb vb contents good"
  shows "codec (ser_pair sera serb) (deser_pair desa desb) (pair_enc enca encb)
           (\<lambda>p. va (fst p) \<and> vb (snd p)) contents good"
proof unfold_locales
  fix s p
  assume "good s" and p: "va (fst p) \<and> vb (snd p)"
  then have "good (sera (fst p) s)" "contents (sera (fst p) s) = contents s @ enca (fst p)"
    using codec.ser_enc [OF a] by blast+
  with p codec.ser_enc [OF b, of "sera (fst p) s" "snd p"]
  show "good (ser_pair sera serb p s) \<and>
        contents (ser_pair sera serb p s) = contents s @ pair_enc enca encb p"
    by (simp add: ser_pair_def pair_enc_def)
next
  fix s p r
  assume g: "good s" and p: "va (fst p) \<and> vb (snd p)" and "contents s = pair_enc enca encb p @ r"
  then have "contents s = enca (fst p) @ (encb (snd p) @ r)" by (simp add: pair_enc_def)
  with g p obtain t where t: "desa s = (Inr (fst p), t)" "good t" "contents t = encb (snd p) @ r"
    using codec.des_obtain [OF a] by metis
  from t(2,3) p obtain u where "desb t = (Inr (snd p), u)" "good u" "contents u = r"
    using codec.des_obtain [OF b] by metis
  with t show "\<exists>t. deser_pair desa desb s = (Inr p, t) \<and> good t \<and> contents t = r"
    by (simp add: deser_pair_def prog_simps)
qed

text \<open>A map is the list of its pairs in key order; reading it puts them back one by one.\<close>

lemma ser_map_list: "ser_map wr serk sert m = ser_list wr (ser_pair serk sert) m"
  by (simp add: fun_eq_iff ser_map_def ser_list_def ser_pair_def [abs_def])

end

lemma deser_map_loop_list:
  "deser_map_loop n desk dest m s =
     (case deser_loop n (deser_pair desk dest) [] s of
        (Inl e, t) \<Rightarrow> (Inl e, t)
      | (Inr kvs, t) \<Rightarrow> (Inr (fold (\<lambda>(k, v). sm_put k v) kvs m), t))"
proof (induction n arbitrary: m s)
  case 0
  then show ?case by (simp add: prog_simps)
next
  case (Suc n)
  show ?case
  proof (cases "deser_pair desk dest s")
    case (Pair r u)
    show ?thesis
    proof (cases r)
      case (Inl e)
      with Pair show ?thesis
        by (auto simp: deser_pair_def bindP_def ret_def split: prod.splits sum.splits)
    next
      case (Inr kv)
      then obtain k v where kv: "r = Inr (k, v)" by (cases kv) auto
      have "deser_map_loop (Suc n) desk dest m s = deser_map_loop n desk dest (sm_put k v m) u"
        using Pair kv by (auto simp: deser_pair_def bindP_def ret_def split: prod.splits sum.splits)
      moreover have "deser_loop (Suc n) (deser_pair desk dest) [] s =
          deser_loop n (deser_pair desk dest) [(k, v)] u"
        using Pair kv by (simp add: bindP_def)
      ultimately show ?thesis
        by (simp add: Suc.IH deser_loop_app [of n _ "[(k, v)]"] split: prod.split sum.split)
    qed
  qed
qed

lemma put_last: "sm_ok (m @ [(k, v)]) \<Longrightarrow> sm_put k v m = m @ [(k, v)]"
  by (induction m) (auto simp: sm_ok_Cons)

lemma fold_put_sorted: "sm_ok m \<Longrightarrow> fold (\<lambda>(k, v). sm_put k v) m [] = m"
proof (induction m rule: rev_induct)
  case Nil
  then show ?case by simp
next
  case (snoc p m)
  obtain k v where p: "p = (k, v)" by (cases p)
  from snoc.prems have "sm_ok m" by (simp add: sm_ok_def sorted_wrt_append)
  with snoc.IH have "fold (\<lambda>(k, v). sm_put k v) m [] = m" by simp
  moreover have "sm_put k v m = m @ [(k, v)]"
    using snoc.prems p by (simp add: put_last)
  ultimately show ?case by (simp add: p)
qed

context istream begin

lemma codec_map:
  fixes desk :: "('s, 'k::linorder) prog"
  assumes "codec serk desk enck vk contents good" and "codec sert dest enct vt contents good"
  shows "codec (ser_map wr serk sert) (deser_map rd desk dest []) (list_enc (pair_enc enck enct))
           (\<lambda>m. sm_ok m \<and> short_list m \<and> list_all (\<lambda>p. vk (fst p) \<and> vt (snd p)) m) contents good"
proof -
  note l = codec_list [OF codec_pair [OF assms]]
  show ?thesis
  proof unfold_locales
    fix s m
    assume "good s" and m: "sm_ok m \<and> short_list m \<and> list_all (\<lambda>p. vk (fst p) \<and> vt (snd p)) m"
    with codec.ser_enc [OF l, of s m]
    show "good (ser_map wr serk sert m s) \<and>
          contents (ser_map wr serk sert m s) = contents s @ list_enc (pair_enc enck enct) m"
      by (simp add: ser_map_list)
  next
    fix s m r
    assume "good s" and m: "sm_ok m \<and> short_list m \<and> list_all (\<lambda>p. vk (fst p) \<and> vt (snd p)) m"
      and "contents s = list_enc (pair_enc enck enct) m @ r"
    then obtain t where t: "deser_list rd (deser_pair desk dest) [] s = (Inr m, t)" "good t"
      "contents t = r"
      using codec.des_obtain [OF l, of s m r] by blast
    have "deser_map rd desk dest [] s =
        (case deser_list rd (deser_pair desk dest) [] s of
           (Inl e, t) \<Rightarrow> (Inl e, t)
         | (Inr kvs, t) \<Rightarrow> (Inr (fold (\<lambda>(k, v). sm_put k v) kvs []), t))"
      by (simp add: deser_map_def deser_list_def bindP_def deser_map_loop_list
          split: prod.split sum.split)
    then have "deser_map rd desk dest [] s = (Inr m, t)"
      using t(1) fold_put_sorted [of m] m by simp
    with t(2,3) show "\<exists>t. deser_map rd desk dest [] s = (Inr m, t) \<and> good t \<and> contents t = r"
      by blast
  qed
qed

end

end
