(* ===== verification/RPCFunction.thy ===== *)
theory RPCFunction
  imports BinaryQueue Serialization
begin

text \<open>
  \<open>DPL::RPC::RPCFunction\<close> (modules/rpc/include/dpl/rpc/rpc_function.h): a call is a byte
  queue of size-prefixed arguments, and also an \<open>IStream\<close>.  An argument of a plain type is
  its memory image, a byte list of length \<open>sizeof(Type)\<close>; \<open>size_t\<close> has 4 bytes on the targets.
\<close>

definition sizeof_size_t :: nat where
  "sizeof_size_t = 4"

record rpc_function =
  rf_buffer :: bqueue

definition rf_new :: rpc_function where
  "rf_new = \<lparr>rf_buffer = bq_new\<rparr>"

definition rf_of_buffer :: "bqueue \<Rightarrow> rpc_function res" where
  "rf_of_buffer buffer =
     bind_res (bq_append_copy_from buffer bq_new) (\<lambda>q. Inr \<lparr>rf_buffer = q\<rparr>)"

definition rf_read :: "nat \<Rightarrow> (rpc_function, byte list) prog" where
  "rf_read n f =
     (case bq_flatten_consume n (rf_buffer f) of
        Inl e \<Rightarrow> (Inl e, f)
      | Inr (d, q) \<Rightarrow> (Inr d, f\<lparr>rf_buffer := q\<rparr>))"

definition rf_write :: "byte list \<Rightarrow> rpc_function \<Rightarrow> rpc_function" where
  "rf_write d f = f\<lparr>rf_buffer := bq_append_copy d (rf_buffer f)\<rparr>"

definition rf_append_arg :: "byte list \<Rightarrow> rpc_function \<Rightarrow> rpc_function" where
  "rf_append_arg arg f =
     f\<lparr>rf_buffer :=
         bq_append_copy arg (bq_append_copy (le_encode sizeof_size_t (length arg)) (rf_buffer f))\<rparr>"

definition rf_append_string :: "byte list \<Rightarrow> rpc_function \<Rightarrow> rpc_function" where
  "rf_append_string arg f =
     f\<lparr>rf_buffer :=
         bq_append_copy arg (bq_append_copy (le_encode sizeof_size_t (length arg)) (rf_buffer f))\<rparr>"

text \<open>\<open>to_utf8\<close> and \<open>from_utf8\<close> stand for the iconv-based string conversions.\<close>

definition rf_append_wstring :: "('w \<Rightarrow> byte list) \<Rightarrow> 'w \<Rightarrow> rpc_function \<Rightarrow> rpc_function" where
  "rf_append_wstring to_utf8 arg f = rf_append_string (to_utf8 arg) f"

definition rf_consume_arg :: "nat \<Rightarrow> (rpc_function, byte list) prog" where
  "rf_consume_arg sizeof_arg =
     catchP
       (bindP (rf_read sizeof_size_t)
          (\<lambda>b. if le_decode b \<noteq> sizeof_arg then raise ParseFailed
               else rf_read sizeof_arg))
       (\<lambda>e. e = OutOfData) (\<lambda>_. raise ParseFailed)"

definition rf_consume_string :: "(rpc_function, byte list) prog" where
  "rf_consume_string =
     catchP
       (bindP (rf_read sizeof_size_t) (\<lambda>b. rf_read (le_decode b)))
       (\<lambda>e. e = OutOfData) (\<lambda>_. raise ParseFailed)"

definition rf_consume_wstring :: "(byte list \<Rightarrow> 'w) \<Rightarrow> (rpc_function, 'w) prog" where
  "rf_consume_wstring from_utf8 = bindP rf_consume_string (\<lambda>s. ret (from_utf8 s))"

definition rf_serialize :: "rpc_function \<Rightarrow> bqueue res" where
  "rf_serialize f = bq_copy (rf_buffer f)"

section \<open>The call is a stream\<close>

definition rf_bytes :: "rpc_function \<Rightarrow> byte list" where
  "rf_bytes f = bq_bytes (rf_buffer f)"

definition rf_ok :: "rpc_function \<Rightarrow> bool" where
  "rf_ok f \<longleftrightarrow> bq_ok (rf_buffer f)"

lemma rf_new_ok [simp]: "rf_ok rf_new" "rf_bytes rf_new = []"
  by (simp_all add: rf_ok_def rf_new_def rf_bytes_def)

lemma rf_write_ok [simp]:
  "rf_ok f \<Longrightarrow> rf_ok (rf_write d f)" "rf_bytes (rf_write d f) = rf_bytes f @ d"
  by (simp_all add: rf_ok_def rf_write_def rf_bytes_def)

interpretation rpcf: istream rf_read rf_write rf_bytes rf_ok
proof unfold_locales
  fix s n
  assume "rf_ok s" and "n \<le> length (rf_bytes s)"
  then obtain q where "bq_flatten_consume n (rf_buffer s) = Inr (take n (rf_bytes s), q)"
    "bq_ok q" "bq_bytes q = drop n (rf_bytes s)"
    using bq.pull_ok [of "rf_buffer s" n] by (auto simp: rf_ok_def rf_bytes_def)
  then show "\<exists>t. rf_read n s = (Inr (take n (rf_bytes s)), t) \<and> rf_ok t \<and> rf_bytes t = drop n (rf_bytes s)"
    by (simp add: rf_read_def rf_ok_def rf_bytes_def)
next
  fix s n
  assume "rf_ok s" and "length (rf_bytes s) < n"
  then show "rf_read n s = (Inl OutOfData, s)"
    by (simp add: rf_read_def rf_ok_def rf_bytes_def bq.pull_short)
qed simp_all

text \<open>The serializers of the basic types over a call.\<close>

interpretation rf_int: codec "ser_int rf_write" "deser_int rf_read" int_enc "\<lambda>_. True" rf_bytes rf_ok
  by (rule rpcf.codec_int)

interpretation rf_bool: codec "ser_bool rf_write" "deser_bool rf_read"
  "\<lambda>v. [if v then 1 else 0]" "\<lambda>_. True" rf_bytes rf_ok
  by (rule rpcf.codec_bool)

interpretation rf_str: codec "ser_string rf_write" "deser_string rf_read" string_enc c_string rf_bytes rf_ok
  by (rule rpcf.codec_string)

section \<open>Arguments\<close>

definition arg_enc :: "byte list \<Rightarrow> byte list" where
  "arg_enc d = le_encode sizeof_size_t (length d) @ d"

definition arg_fits :: "byte list \<Rightarrow> bool" where
  "arg_fits d \<longleftrightarrow> length d < 256 ^ sizeof_size_t"

lemma rf_append_bytes [simp]:
  "rf_bytes (rf_append_arg d f) = rf_bytes f @ arg_enc d"
  "rf_bytes (rf_append_string d f) = rf_bytes f @ arg_enc d"
  by (simp_all add: rf_append_arg_def rf_append_string_def rf_bytes_def arg_enc_def)

lemma rf_append_ok [simp]:
  "rf_ok f \<Longrightarrow> rf_ok (rf_append_arg d f)" "rf_ok f \<Longrightarrow> rf_ok (rf_append_string d f)"
  by (simp_all add: rf_append_arg_def rf_append_string_def rf_ok_def)

text \<open>Reading the size prefix.\<close>

lemma rf_read_size:
  assumes "rf_ok f" and "arg_fits d" and "rf_bytes f = arg_enc d @ r"
  obtains t where "rf_read sizeof_size_t f = (Inr (le_encode sizeof_size_t (length d)), t)"
    and "rf_ok t" and "rf_bytes t = d @ r"
    and "le_decode (le_encode sizeof_size_t (length d)) = length d"
proof -
  let ?h = "le_encode sizeof_size_t (length d)"
  have "rf_bytes f = ?h @ (d @ r)" using assms(3) by (simp add: arg_enc_def)
  then obtain t where "rf_read (length ?h) f = (Inr ?h, t)" "rf_ok t" "rf_bytes t = d @ r"
    using rpcf.rd_prefix [OF assms(1)] by blast
  moreover have "le_decode ?h = length d"
    using assms(2) by (simp add: arg_fits_def le_decode_encode_small)
  ultimately show ?thesis using that by simp
qed

lemma rf_consume_arg_enc:
  assumes "rf_ok f" and "arg_fits d" and "rf_bytes f = arg_enc d @ r"
  shows "\<exists>t. rf_consume_arg (length d) f = (Inr d, t) \<and> rf_ok t \<and> rf_bytes t = r"
proof -
  obtain t where t: "rf_read sizeof_size_t f = (Inr (le_encode sizeof_size_t (length d)), t)"
    "rf_ok t" "rf_bytes t = d @ r" "le_decode (le_encode sizeof_size_t (length d)) = length d"
    using rf_read_size [OF assms] .
  obtain u where "rf_read (length d) t = (Inr d, u)" "rf_ok u" "rf_bytes u = r"
    using rpcf.rd_prefix [OF t(2,3)] .
  with t show ?thesis by (simp add: rf_consume_arg_def prog_simps)
qed

lemma rf_consume_string_enc:
  assumes "rf_ok f" and "arg_fits d" and "rf_bytes f = arg_enc d @ r"
  shows "\<exists>t. rf_consume_string f = (Inr d, t) \<and> rf_ok t \<and> rf_bytes t = r"
proof -
  obtain t where t: "rf_read sizeof_size_t f = (Inr (le_encode sizeof_size_t (length d)), t)"
    "rf_ok t" "rf_bytes t = d @ r" "le_decode (le_encode sizeof_size_t (length d)) = length d"
    using rf_read_size [OF assms] .
  obtain u where "rf_read (length d) t = (Inr d, u)" "rf_ok u" "rf_bytes u = r"
    using rpcf.rd_prefix [OF t(2,3)] .
  with t show ?thesis by (simp add: rf_consume_string_def prog_simps)
qed

interpretation rf_string: codec rf_append_string rf_consume_string arg_enc arg_fits rf_bytes rf_ok
  by unfold_locales (use rf_consume_string_enc in auto)

interpretation rf_pod: codec rf_append_arg "rf_consume_arg k" arg_enc
  "\<lambda>d. arg_fits d \<and> length d = k" rf_bytes rf_ok
  for k
  by unfold_locales (use rf_consume_arg_enc in auto)

subsection \<open>Whole argument lists\<close>

datatype rpc_arg = PodArg "byte list" | StringArg "byte list"

fun rf_append :: "rpc_arg \<Rightarrow> rpc_function \<Rightarrow> rpc_function" where
  "rf_append (PodArg d) f = rf_append_arg d f"
| "rf_append (StringArg d) f = rf_append_string d f"

text \<open>The receiver calls the overload for the type it expects: a plain size, or a string.\<close>

datatype rpc_type = PodType nat | StringType

fun type_of_arg :: "rpc_arg \<Rightarrow> rpc_type" where
  "type_of_arg (PodArg d) = PodType (length d)"
| "type_of_arg (StringArg d) = StringType"

fun rf_consume :: "rpc_type \<Rightarrow> (rpc_function, rpc_arg) prog" where
  "rf_consume (PodType k) = bindP (rf_consume_arg k) (\<lambda>d. ret (PodArg d))"
| "rf_consume StringType = bindP rf_consume_string (\<lambda>d. ret (StringArg d))"

primrec rf_consume_all :: "rpc_type list \<Rightarrow> (rpc_function, rpc_arg list) prog" where
  "rf_consume_all [] = ret []"
| "rf_consume_all (ty # tys) =
     bindP (rf_consume ty) (\<lambda>a. bindP (rf_consume_all tys) (\<lambda>as. ret (a # as)))"

fun arg_data :: "rpc_arg \<Rightarrow> byte list" where
  "arg_data (PodArg d) = d"
| "arg_data (StringArg d) = d"

lemma rf_append_enc [simp]:
  "rf_ok f \<Longrightarrow> rf_ok (rf_append a f)" "rf_bytes (rf_append a f) = rf_bytes f @ arg_enc (arg_data a)"
  by (cases a; simp)+

lemma fold_rf_append:
  "rf_ok f \<Longrightarrow> rf_ok (fold rf_append as f) \<and>
     rf_bytes (fold rf_append as f) = rf_bytes f @ concat (map (\<lambda>a. arg_enc (arg_data a)) as)"
  by (induction as arbitrary: f) auto

lemma rf_consume_enc:
  assumes "rf_ok f" and "arg_fits (arg_data a)" and "rf_bytes f = arg_enc (arg_data a) @ r"
  shows "\<exists>t. rf_consume (type_of_arg a) f = (Inr a, t) \<and> rf_ok t \<and> rf_bytes t = r"
proof (cases a)
  case (PodArg d)
  with assms rf_consume_arg_enc [of f d r] show ?thesis by (auto simp: prog_simps)
next
  case (StringArg d)
  with assms rf_consume_string_enc [of f d r] show ?thesis by (auto simp: prog_simps)
qed

lemma rf_consume_all_enc:
  assumes "rf_ok f" and "list_all (\<lambda>a. arg_fits (arg_data a)) as"
    and "rf_bytes f = concat (map (\<lambda>a. arg_enc (arg_data a)) as) @ r"
  shows "\<exists>t. rf_consume_all (map type_of_arg as) f = (Inr as, t) \<and> rf_ok t \<and> rf_bytes t = r"
  using assms
proof (induction as arbitrary: f)
  case Nil
  then show ?case by (simp add: prog_simps)
next
  case (Cons a as)
  then obtain t where t: "rf_consume (type_of_arg a) f = (Inr a, t)" "rf_ok t"
    "rf_bytes t = concat (map (\<lambda>a. arg_enc (arg_data a)) as) @ r"
    using rf_consume_enc [of f a "concat (map (\<lambda>a. arg_enc (arg_data a)) as) @ r"] by auto
  with Cons.IH [of t] Cons.prems show ?case by (auto simp: prog_simps)
qed

subsection \<open>Reading arbitrary bytes\<close>

lemma rf_read_cases:
  assumes "rf_ok f"
  shows "rf_read n f = (Inl OutOfData, f) \<and> length (rf_bytes f) < n \<or>
         (\<exists>d t. rf_read n f = (Inr d, t) \<and> length d = n \<and> rf_ok t \<and> rf_bytes f = d @ rf_bytes t)"
proof (cases "n \<le> length (rf_bytes f)")
  case True
  with rpcf.rd_ok [OF assms True] show ?thesis by auto
next
  case False
  with rpcf.rd_short [OF assms, of n] show ?thesis by auto
qed

lemma rf_consume_sound:
  assumes ok: "rf_ok f" and c: "rf_consume ty f = (r, t)"
  shows "rf_ok t \<and>
         (case r of Inl e \<Rightarrow> e = ParseFailed
          | Inr a \<Rightarrow> type_of_arg a = ty \<and> rf_bytes f = arg_enc (arg_data a) @ rf_bytes t)"
proof (cases "rf_read sizeof_size_t f = (Inl OutOfData, f)")
  case True
  with ok c show ?thesis
    by (cases ty) (auto simp: rf_consume_arg_def rf_consume_string_def prog_simps)
next
  case False
  then obtain b u where b: "rf_read sizeof_size_t f = (Inr b, u)" "length b = sizeof_size_t" "rf_ok u"
    "rf_bytes f = b @ rf_bytes u"
    using rf_read_cases [OF ok, of sizeof_size_t] by auto
  from le_encode_decode [of b] b(2) have enc: "le_encode sizeof_size_t (le_decode b) = b" by simp
  from rf_read_cases [OF b(3), of "le_decode b"] show ?thesis
    using c ok b enc
    by (cases ty)
      (auto simp: rf_consume_arg_def rf_consume_string_def prog_simps arg_enc_def split: if_splits)
qed

lemma rf_consume_all_sound:
  assumes "rf_ok f" and "rf_consume_all tys f = (r, t)"
  shows "rf_ok t \<and>
         (case r of Inl e \<Rightarrow> e = ParseFailed
          | Inr as \<Rightarrow> map type_of_arg as = tys \<and>
                     rf_bytes f = concat (map (\<lambda>a. arg_enc (arg_data a)) as) @ rf_bytes t)"
  using assms
proof (induction tys arbitrary: f r t)
  case Nil
  then show ?case by (auto simp: prog_simps)
next
  case (Cons ty tys)
  obtain r1 t1 where c: "rf_consume ty f = (r1, t1)" by (cases "rf_consume ty f")
  note one = rf_consume_sound [OF Cons.prems(1) c]
  obtain r2 t2 where c2: "rf_consume_all tys t1 = (r2, t2)" by (cases "rf_consume_all tys t1")
  from one have "rf_ok t1" by simp
  from Cons.IH [OF this c2] one c c2 Cons.prems(2) show ?case
    by (cases r1; cases r2) (auto simp: prog_simps)
qed

interpretation rf_unsigned: codec "ser_unsigned rf_write" "deser_unsigned rf_read" int_enc "\<lambda>_. True"
  rf_bytes rf_ok
  by (rule rpcf.codec_unsigned)

section \<open>Properties\<close>

text \<open>
  C26: Arguments round trip.  The arguments appended to a call, plain values and strings of any
  content and any length a size_t can hold, survive \<open>Serialize\<close> and the construction of a new
  \<open>RPCFunction\<close> from the bytes: consuming them by their types in the same order gives them
  back, and nothing is left.
\<close>

theorem rpc_args_roundtrip:
  assumes "list_all (\<lambda>a. arg_fits (arg_data a)) as"
  shows "\<exists>q g t. rf_serialize (fold rf_append as rf_new) = Inr q \<and> rf_of_buffer q = Inr g \<and>
           rf_consume_all (map type_of_arg as) g = (Inr as, t) \<and> rf_bytes t = []"
proof -
  let ?f = "fold rf_append as rf_new"
  let ?bs = "concat (map (\<lambda>a. arg_enc (arg_data a)) as)"
  have f: "rf_ok ?f" "rf_bytes ?f = ?bs" using fold_rf_append [of rf_new as] by auto
  let ?q = "bq_append_unmanaged ?bs BufferDeleterFree 0 bq_new"
  have q: "rf_serialize ?f = Inr ?q" and g: "rf_of_buffer ?q = Inr \<lparr>rf_buffer = ?q\<rparr>"
    using f by (simp_all add: rf_serialize_def bq_copy_def bq_append_copy_from_bytes rf_ok_def
        rf_bytes_def rf_of_buffer_def)
  have "rf_ok \<lparr>rf_buffer = ?q\<rparr>" "rf_bytes \<lparr>rf_buffer = ?q\<rparr> = ?bs @ []"
    by (simp_all add: rf_ok_def rf_bytes_def)
  from rf_consume_all_enc [OF this(1) assms this(2)] q g show ?thesis by auto
qed

theorem rpc_args_roundtrip_witness:
  "\<exists>q g t. rf_serialize (fold rf_append [PodArg [1, 2], StringArg [7, 0, 9]] rf_new) = Inr q \<and>
     rf_of_buffer q = Inr g \<and>
     rf_consume_all [PodType 2, StringType] g = (Inr [PodArg [1, 2], StringArg [7, 0, 9]], t) \<and>
     rf_bytes t = []"
  using rpc_args_roundtrip [of "[PodArg [1, 2], StringArg [7, 0, 9]]"]
  by (simp add: arg_fits_def sizeof_size_t_def numeral_2_eq_2)



text \<open>
  The generic serializers compose.  Given overload pairs for the key and the value type that
  read back what they wrote, a \<open>std::map\<close> written to a call is read back with the same keys,
  values and order, and the stream stands right after it, whatever follows.
\<close>

theorem serialize_map_roundtrip:
  fixes desk :: "(rpc_function, 'k::linorder) prog"
  assumes "codec serk desk enck vk rf_bytes rf_ok" and "codec sert dest enct vt rf_bytes rf_ok"
    and "sm_ok m" and "short_list m" and "list_all (\<lambda>p. vk (fst p) \<and> vt (snd p)) m"
  shows "\<exists>t. deser_map rf_read desk dest []
               (rf_write rest (ser_map rf_write serk sert m rf_new)) = (Inr m, t) \<and> rf_bytes t = rest"
proof -
  note c = rpcf.codec_map [OF assms(1,2)]
  have "rf_ok (ser_map rf_write serk sert m rf_new) \<and>
        rf_bytes (ser_map rf_write serk sert m rf_new) = list_enc (pair_enc enck enct) m"
    using codec.ser_enc [OF c, of rf_new m] assms(3-5) by simp
  then show ?thesis
    using codec.des_enc [OF c, of "rf_write rest (ser_map rf_write serk sert m rf_new)" m rest] assms(3-5)
    by auto
qed

theorem serialize_map_roundtrip_witness:
  "\<exists>t. deser_map rf_read (deser_unsigned rf_read) (deser_string rf_read) []
         (rf_write [5] (ser_map rf_write (ser_unsigned rf_write) (ser_string rf_write)
            [(1, [104, 105]), (7, [])] rf_new)) = (Inr [(1, [104, 105]), (7, [])], t) \<and>
     rf_bytes t = [5]"
  by (rule serialize_map_roundtrip [OF rf_unsigned.codec_axioms rf_str.codec_axioms])
    (simp_all add: sm_ok_def short_list_def c_string_def)

text \<open>
  Strings through the serializer stop at their first zero byte: the whole buffer is written
  and read, but \<open>std::string(buf)\<close> keeps only what precedes the NUL.  The stream itself stays
  in step.
\<close>

theorem serialize_string_nul:
  assumes "short_list str"
  shows "\<exists>t. deser_string rf_read (ser_string rf_write str rf_new) =
               (Inr (takeWhile (\<lambda>c. c \<noteq> 0) str), t) \<and> rf_bytes t = []"
proof -
  let ?f = "ser_string rf_write str rf_new"
  have f: "rf_ok ?f" "rf_bytes ?f = len_enc str @ str"
    using assms by (simp_all add: ser_string_def short_len len_enc_def Let_def)
  obtain t where t: "deser_int rf_read ?f = (Inr (word_of_nat (length str)), t)" "rf_ok t"
    "rf_bytes t = str @ []"
    using rpcf.deser_len [OF f(1) assms, of str] f(2) by auto
  obtain u where "rf_read (length str) t = (Inr str, u)" "rf_bytes u = []"
    using rpcf.rd_prefix [OF t(2,3)] by blast
  with t assms show ?thesis by (simp add: deser_string_def prog_simps short_len)
qed

theorem serialize_string_nul_witness:
  "\<exists>t. deser_string rf_read (ser_string rf_write [65, 0, 66] rf_new) = (Inr [65], t) \<and> rf_bytes t = []"
  using serialize_string_nul [of "[65, 0, 66]"] by (simp add: short_list_def)

end
