(* ===== verification/RPCConnection.thy ===== *)
theory RPCConnection
  imports RPCFunction SocketDevice
begin

text \<open>
  \<open>DPL::RPC::GenericRPCConnection\<close> (modules/rpc/src/generic_rpc_connection.cpp): calls framed
  into packets of a 4-byte header and a body, on top of the input-output support.  Events are
  emitted in queued mode; the model keeps them in the order of emission.
\<close>

datatype rpc_event = AsyncCallEv rpc_function | ConnectionClosedEv | ConnectionBrokenEv

record 'd rpc_conn = "'d ioctx" +
  rc_events :: "rpc_event list"

definition packet_async_call :: nat where
  "packet_async_call = 0"

definition packet_ping_pong :: nat where
  "packet_ping_pong = 1"

definition sizeof_header :: nat where
  "sizeof_header = 4"

text \<open>The header's memory image: two unsigned shorts, byte aligned.\<close>

definition header_bytes :: "nat \<Rightarrow> nat \<Rightarrow> byte list" where
  "header_bytes body_size ty = le_encode 2 body_size @ le_encode 2 ty"

definition header_size_field :: "byte list \<Rightarrow> nat" where
  "header_size_field h = le_decode (take 2 h)"

definition header_type_field :: "byte list \<Rightarrow> nat" where
  "header_type_field h = le_decode (take 2 (drop 2 h))"

section \<open>Callbacks\<close>

definition rc_emit :: "rpc_event \<Rightarrow> ('d rpc_conn, unit) prog" where
  "rc_emit e = modifyP (\<lambda>s. s\<lparr>rc_events := rc_events s @ [e]\<rparr>)"

definition rc_on_closed :: "('d rpc_conn, unit) prog" where
  "rc_on_closed = rc_emit ConnectionClosedEv"

definition rc_on_broken :: "('d rpc_conn, unit) prog" where
  "rc_on_broken = rc_emit ConnectionBrokenEv"

section \<open>Construction, calls and pings\<close>

definition rc_construct :: "'d io_device \<Rightarrow> 'd \<Rightarrow> ('d rpc_conn, unit) prog" where
  "rc_construct D d = io_open D d"

definition rc_destroy :: "'d io_device \<Rightarrow> ('d rpc_conn, unit) prog" where
  "rc_destroy D = io_close D"

definition rc_append_out :: "byte list \<Rightarrow> ('d rpc_conn, unit) prog" where
  "rc_append_out d = modifyP (\<lambda>s. s\<lparr>io_out := bq_append_copy d (io_out s)\<rparr>)"

definition rc_async_call :: "'d io_device \<Rightarrow> rpc_function \<Rightarrow> ('d rpc_conn, unit) prog" where
  "rc_async_call D f =
     (case rf_serialize f of
        Inl e \<Rightarrow> raise e
      | Inr serializedCall \<Rightarrow>
          thenP (rc_append_out (header_bytes (bq_Size serializedCall) packet_async_call))
            (thenP (modifyP (\<lambda>s. s\<lparr>io_out := fst (bq_append_move_from serializedCall (io_out s))\<rparr>))
              (catchP (io_feed_output D rc_on_broken)
                 (\<lambda>e. e = NotOpened) (\<lambda>_. raise AsyncCallFailed))))"

definition rc_ping :: "'d io_device \<Rightarrow> ('d rpc_conn, unit) prog" where
  "rc_ping D =
     thenP (rc_append_out (header_bytes 0 packet_ping_pong))
       (catchP (io_feed_output D rc_on_broken) (\<lambda>e. e = NotOpened) (\<lambda>_. raise PingFailed))"

section \<open>Parsing the input stream\<close>

text \<open>The call queue is made of the whole packet, then the header is consumed.\<close>

definition rc_emit_call :: "byte list \<Rightarrow> ('d rpc_conn, unit) prog" where
  "rc_emit_call packet =
     (case bq_consume sizeof_header (bq_append_unmanaged packet BufferDeleterFree 0 bq_new) of
        Inl e \<Rightarrow> raise e
      | Inr call \<Rightarrow>
          (case rf_of_buffer call of
             Inl e \<Rightarrow> raise e
           | Inr f \<Rightarrow> rc_emit (AsyncCallEv f)))"

definition rc_dispatch :: "'d io_device \<Rightarrow> nat \<Rightarrow> byte list \<Rightarrow> ('d rpc_conn, unit) prog" where
  "rc_dispatch D ty packet =
     (if ty = packet_async_call then rc_emit_call packet
      else if ty = packet_ping_pong then rc_ping D
      else ret ())"

text \<open>None of this touches the input stream: the loop below stops because it shrinks.\<close>

lemma keeps_dev_watch [inv_intros]:
  "keeps (\<lambda>s. io_in s = q) (io_remove_read_watch D)"
  "keeps (\<lambda>s. io_in s = q) (io_remove_write_watch D)"
  "keeps (\<lambda>s. io_in s = q) (io_add_write_watch D)"
  by (auto simp: keeps_def io_remove_read_watch_def io_remove_write_watch_def io_add_write_watch_def
      io_add_watch_def io_remove_watch_def split: prod.split)

lemma keeps_checked_remove [inv_intros]:
  "keeps (\<lambda>s. io_in s = q) (io_checked_remove_read D)"
  "keeps (\<lambda>s. io_in s = q) (io_checked_remove_write D)"
  unfolding io_checked_remove_read_def [abs_def] io_checked_remove_write_def [abs_def]
  by (intro inv_intros; simp)+

lemma keeps_shutdown [inv_intros]: "keeps (\<lambda>s. io_in s = q) (io_shutdown D)"
  unfolding io_shutdown_def io_checked_remove_read_write_def
  by (intro inv_intros; simp)

lemma keeps_emit [inv_intros]: "keeps (\<lambda>s. io_in s = q) (rc_emit e)"
  unfolding rc_emit_def by (intro inv_intros) simp

lemma keeps_dev_io [inv_intros]:
  "keeps (\<lambda>s. io_in s = q) (io_dev_write D p n)" "keeps (\<lambda>s. io_in s = q) (io_consume_out n)"
  by (auto simp: keeps_def io_dev_write_def io_consume_out_def split: prod.split sum.split)

lemma keeps_feed [inv_intros]: "keeps (\<lambda>s. io_in s = q) (io_feed_output D rc_on_broken)"
proof -
  have w: "keeps (\<lambda>s. io_in s = q) (\<lambda>s. bindP (io_dev_write D (io_out s) (bq_Size (io_out s))) k s)"
    if "\<And>n. keeps (\<lambda>s. io_in s = q) (k n)" for k
    using keeps_bind [OF keeps_dev_io(1) that] by (simp add: keeps_def)
  show ?thesis
    unfolding io_feed_output_def [abs_def] rc_on_broken_def
    by (intro inv_intros w; simp)
qed

lemma keeps_dispatch: "keeps (\<lambda>s. io_in s = q) (rc_dispatch D ty packet)"
proof -
  have "keeps (\<lambda>s. io_in s = q) (rc_emit_call packet)"
    unfolding rc_emit_call_def by (auto intro: inv_intros split: sum.split)
  moreover have "keeps (\<lambda>s. io_in s = q) (rc_ping D)"
    unfolding rc_ping_def rc_append_out_def by (intro inv_intros; simp)
  ultimately show ?thesis by (auto simp: rc_dispatch_def intro: inv_intros)
qed

lemma bq_consume_loop_size: "bq_consume_loop n bs sz = Inr (bs', sz') \<Longrightarrow> sz' = sz - n"
proof (induction n bs sz rule: bq_consume_loop.induct)
  case (1 n bs sz)
  then show ?case
    by (cases bs) (auto simp: bq_consume_loop.simps [of n] Let_def min_def split: if_splits)
qed

lemma bq_flatten_consume_size:
  assumes "bq_flatten_consume n q = Inr (d, q')"
  shows "bq_size q' = bq_size q - n \<and> n \<le> bq_size q"
  using assms bq_consume_loop_size
  by (auto simp: bq_flatten_consume_def bq_consume_def bind_res_eq_Inr split: if_splits)

text \<open>\<open>malloc_ok n\<close> tells whether \<open>malloc(n)\<close> gives memory.\<close>

function rc_read_loop :: "(nat \<Rightarrow> bool) \<Rightarrow> 'd io_device \<Rightarrow> ('d rpc_conn, unit) prog" where
  "rc_read_loop malloc_ok D s =
     (if bq_Size (io_in s) < sizeof_header then ret () s
      else (case bq_flatten sizeof_header (io_in s) of
              Inl e \<Rightarrow> raise e s
            | Inr header \<Rightarrow>
                (let size = header_size_field header; ty = header_type_field header
                 in if bq_Size (io_in s) < sizeof_header + size then ret () s
                    else if \<not> malloc_ok (sizeof_header + size) then raise BadAlloc s
                    else (case bq_flatten_consume (sizeof_header + size) (io_in s) of
                            Inl e \<Rightarrow> raise e s
                          | Inr (packet, q) \<Rightarrow>
                              (case rc_dispatch D ty packet (s\<lparr>io_in := q\<rparr>) of
                                 (Inl e, t) \<Rightarrow> (Inl e, t)
                               | (Inr _, t) \<Rightarrow> rc_read_loop malloc_ok D t)))))"
  by pat_completeness auto
termination
proof (relation "measure (\<lambda>(m, D, s). bq_size (io_in s))", goal_cases)
  case 1
  then show ?case by simp
next
  case (2 m D s header size ty res packet q r t u)
  then have "bq_flatten_consume (sizeof_header + size) (io_in s) = Inr (packet, q)" by simp
  from bq_flatten_consume_size [OF this] have "bq_size q < bq_size (io_in s)"
    by (simp add: sizeof_header_def)
  moreover have "snd (rc_dispatch D ty packet (s\<lparr>io_in := q\<rparr>)) = t"
    using 2 by (metis snd_conv)
  then have "io_in t = q"
    using keepsD [OF keeps_dispatch [of q D ty packet], of "s\<lparr>io_in := q\<rparr>"] by simp
  ultimately show ?case by simp
qed

declare rc_read_loop.simps [simp del]

definition rc_on_input_stream_read :: "(nat \<Rightarrow> bool) \<Rightarrow> 'd io_device \<Rightarrow> ('d rpc_conn, unit) prog" where
  "rc_on_input_stream_read malloc_ok D s =
     (if sizeof_header \<le> bq_Size (io_in s) then rc_read_loop malloc_ok D s else ret () s)"

text \<open>The connection's entry point from the event loop.\<close>

definition rc_on_waitable_handle_event ::
  "(nat \<Rightarrow> bool) \<Rightarrow> 'd io_device \<Rightarrow> wait_mode \<Rightarrow> ('d rpc_conn, unit) prog" where
  "rc_on_waitable_handle_event malloc_ok D mode =
     io_on_waitable_handle_event D (rc_on_input_stream_read malloc_ok D) rc_on_closed rc_on_broken mode"

section \<open>Framing\<close>

text \<open>The packets of a byte stream, as (type, body), and the bytes of an unfinished packet.\<close>

function parse_packets :: "byte list \<Rightarrow> (nat \<times> byte list) list \<times> byte list" where
  "parse_packets bs =
     (let size = header_size_field bs in
      if length bs < sizeof_header + size then ([], bs)
      else (case parse_packets (drop (sizeof_header + size) bs) of
              (ps, r) \<Rightarrow>
                ((header_type_field bs, take size (drop sizeof_header bs)) # ps, r)))"
  by pat_completeness auto
termination
  by (relation "measure length") (auto simp: sizeof_header_def)

declare parse_packets.simps [simp del]

definition frame :: "nat \<times> byte list \<Rightarrow> byte list" where
  "frame p = header_bytes (length (snd p)) (fst p) @ snd p"

lemma header_fields [simp]:
  "header_size_field (header_bytes n ty @ r) = n mod 65536"
  "header_type_field (header_bytes n ty @ r) = ty mod 65536"
  "length (header_bytes n ty) = sizeof_header"
  by (simp_all add: header_size_field_def header_type_field_def header_bytes_def sizeof_header_def
      le_decode_encode)

lemma header_bytes_mod: "header_bytes (n mod 65536) ty = header_bytes n ty"
proof -
  have "n mod 65536 = 256 * (n div 256 mod 256) + n mod 256"
    using mod_mult2_eq [of n 256 256] by simp
  then have "n mod 65536 div 256 = n div 256 mod 256" by simp
  moreover have "n mod 65536 mod 256 = n mod 256" by (simp add: mod_mod_cancel)
  ultimately show ?thesis by (simp add: header_bytes_def numeral_2_eq_2)
qed

lemma header_fields_take:
  assumes "sizeof_header \<le> length bs"
  shows "header_size_field (take sizeof_header bs) = header_size_field bs"
    and "header_type_field (take sizeof_header bs) = header_type_field bs"
  using assms
  by (simp_all add: header_size_field_def header_type_field_def sizeof_header_def drop_take min_def)

lemma header_fields_append:
  assumes "sizeof_header \<le> length bs"
  shows "header_size_field (bs @ cs) = header_size_field bs"
    and "header_type_field (bs @ cs) = header_type_field bs"
  using assms
  by (simp_all add: header_size_field_def header_type_field_def sizeof_header_def)

lemma parse_short: "length bs < sizeof_header + header_size_field bs \<Longrightarrow> parse_packets bs = ([], bs)"
  by (simp add: parse_packets.simps [of bs])

lemma parse_step:
  "sizeof_header + header_size_field bs \<le> length bs \<Longrightarrow>
     parse_packets bs =
       (let (ps, r) = parse_packets (drop (sizeof_header + header_size_field bs) bs)
        in ((header_type_field bs, take (header_size_field bs) (drop sizeof_header bs)) # ps, r))"
  by (simp add: parse_packets.simps [of bs] Let_def)

definition fits_frame :: "nat \<times> byte list \<Rightarrow> bool" where
  "fits_frame p \<longleftrightarrow> fst p < 65536 \<and> length (snd p) < 65536"

lemma parse_frame:
  assumes "fits_frame p"
  shows "parse_packets (frame p @ bs) = (let (ps, r) = parse_packets bs in (p # ps, r))"
proof -
  obtain ty body where p: "p = (ty, body)" by (cases p)
  let ?bs = "header_bytes (length body) ty @ body @ bs"
  have h: "header_size_field ?bs = length body" "header_type_field ?bs = ty"
    using assms by (simp_all add: p fits_frame_def)
  have "parse_packets ?bs =
      (let (ps, r) = parse_packets (drop (sizeof_header + length body) ?bs)
       in ((ty, take (length body) (drop sizeof_header ?bs)) # ps, r))"
    using parse_step [of ?bs] h by simp
  then show ?thesis by (simp add: p frame_def)
qed

lemma parse_frames:
  "list_all fits_frame ps \<Longrightarrow>
     parse_packets (concat (map frame ps) @ bs) = (let (qs, r) = parse_packets bs in (ps @ qs, r))"
  by (induction ps) (auto simp: parse_frame split: prod.split)

lemma parse_nil [simp]: "parse_packets [] = ([], [])"
  by (simp add: parse_short sizeof_header_def)

text \<open>Parsing in two chunks is parsing their concatenation.\<close>

lemma parse_append:
  "parse_packets (xs @ ys) =
     (let (ps, r) = parse_packets xs; (qs, r') = parse_packets (r @ ys) in (ps @ qs, r'))"
proof (induction xs rule: parse_packets.induct)
  case (1 bs)
  show ?case
  proof (cases "length bs < sizeof_header + header_size_field bs")
    case True
    then show ?thesis by (simp add: parse_short split: prod.split)
  next
    case False
    then have h: "header_size_field (bs @ ys) = header_size_field bs"
      "header_type_field (bs @ ys) = header_type_field bs"
      by (simp_all add: header_fields_append)
    note IH = "1.IH" [OF refl, unfolded Let_def, simplified, OF False]
    from False show ?thesis
      using IH by (simp add: parse_step h Let_def split: prod.split)
  qed
qed

text \<open>Putting the packets of a stream back together gives the stream.\<close>

lemma parse_frames_inverse:
  "parse_packets bs = (ps, r) \<Longrightarrow> concat (map frame ps) @ r = bs"
proof (induction bs arbitrary: ps r rule: parse_packets.induct)
  case (1 bs)
  show ?case
  proof (cases "length bs < sizeof_header + header_size_field bs")
    case True
    with "1.prems" show ?thesis by (simp add: parse_short)
  next
    case False
    let ?n = "header_size_field bs"
    obtain qs where ps: "ps = (header_type_field bs, take ?n (drop sizeof_header bs)) # qs"
      and qs: "parse_packets (drop (sizeof_header + ?n) bs) = (qs, r)"
      using "1.prems" False by (auto simp: parse_step split: prod.splits)
    have IH: "concat (map frame qs) @ r = drop (sizeof_header + ?n) bs"
      using "1.IH" [OF refl False qs] .
    have len: "length (take ?n (drop sizeof_header bs)) = ?n" using False by simp
    have l2: "length (take 2 bs) = 2" "length (take 2 (drop 2 bs)) = 2"
      using False by (simp_all add: sizeof_header_def)
    have "le_encode 2 ?n = take 2 bs"
      using le_encode_decode [of "take 2 bs"] unfolding header_size_field_def l2 .
    moreover have "le_encode 2 (header_type_field bs) = take 2 (drop 2 bs)"
      using le_encode_decode [of "take 2 (drop 2 bs)"] unfolding header_type_field_def l2 .
    ultimately have "header_bytes ?n (header_type_field bs) = take sizeof_header bs"
      using take_add [of 2 2 bs] by (simp add: header_bytes_def sizeof_header_def)
    then have "frame (hd ps) = take sizeof_header bs @ take ?n (drop sizeof_header bs)"
      using ps len by (simp add: frame_def)
    also have "\<dots> = take (sizeof_header + ?n) bs" by (simp add: take_add)
    finally show ?thesis using ps IH by simp
  qed
qed

section \<open>The read handler does what the packets say\<close>

primrec call_bodies :: "rpc_event list \<Rightarrow> byte list list" where
  "call_bodies [] = []"
| "call_bodies (e # es) = (case e of AsyncCallEv f \<Rightarrow> [rf_bytes f] | _ \<Rightarrow> []) @ call_bodies es"

definition packet_calls :: "(nat \<times> byte list) list \<Rightarrow> byte list list" where
  "packet_calls ps = map snd (filter (\<lambda>p. fst p = packet_async_call) ps)"

definition packet_pongs :: "(nat \<times> byte list) list \<Rightarrow> byte list" where
  "packet_pongs ps =
     concat (map (\<lambda>_. header_bytes 0 packet_ping_pong) (filter (\<lambda>p. fst p = packet_ping_pong) ps))"

lemma call_bodies_append [simp]: "call_bodies (xs @ ys) = call_bodies xs @ call_bodies ys"
  by (induction xs) auto

lemma packet_list_simps [simp]:
  "packet_calls [] = []" "packet_pongs [] = []"
  "packet_calls (p # ps) = (if fst p = packet_async_call then [snd p] else []) @ packet_calls ps"
  "packet_pongs (p # ps) =
     (if fst p = packet_ping_pong then header_bytes 0 packet_ping_pong else []) @ packet_pongs ps"
  by (simp_all add: packet_calls_def packet_pongs_def)

lemma rc_events_more: "ioctx.more t = ioctx.more s \<Longrightarrow> rc_events t = rc_events s"
  by (cases s; cases t) simp

lemma quiet_rc [simp, intro]: "quiet rc_on_broken" "quiet rc_on_closed"
  by (simp_all add: quiet_def rc_on_broken_def rc_on_closed_def rc_emit_def modifyP_def truncate_fields)

lemma io_inv_update:
  "io_inv D ok s \<Longrightarrow> bq_ok q \<Longrightarrow> io_inv D ok (s\<lparr>io_in := q\<rparr>)"
  "io_inv D ok s \<Longrightarrow> bq_ok q \<Longrightarrow> io_inv D ok (s\<lparr>io_out := q\<rparr>)"
  "io_inv D ok (s\<lparr>rc_events := es\<rparr>) = io_inv D ok s"
  by (auto simp: io_inv_def io_own_def io_watches_def)

lemma io_inv_queues: "io_inv D ok s \<Longrightarrow> bq_ok (io_in s) \<and> bq_ok (io_out s)"
  by (simp add: io_inv_def)

lemma rc_emit_call_step:
  assumes "length header = sizeof_header"
  shows "\<exists>f. rc_emit_call (header @ body) s = (Inr (), s\<lparr>rc_events := rc_events s @ [AsyncCallEv f]\<rparr>) \<and>
           rf_ok f \<and> rf_bytes f = body"
proof -
  let ?q = "bq_append_unmanaged (header @ body) BufferDeleterFree 0 bq_new"
  obtain q where q: "bq_consume sizeof_header ?q = Inr q" "bq_ok q" "bq_bytes q = body"
    using bq_consume_bytes [of ?q sizeof_header] assms by auto
  then show ?thesis
    by (intro exI [of _ "\<lparr>rf_buffer = bq_append_unmanaged body BufferDeleterFree 0 bq_new\<rparr>"])
      (simp add: rc_emit_call_def rf_of_buffer_def bq_append_copy_from_bytes rc_emit_def modifyP_def
        rf_ok_def rf_bytes_def)
qed

text \<open>One round of the loop, on the bytes of the stream.\<close>

lemma rc_read_loop_short:
  assumes ok: "bq_ok (io_in s)"
    and "length (bq_bytes (io_in s)) < sizeof_header + header_size_field (bq_bytes (io_in s))"
  shows "rc_read_loop malloc_ok D s = (Inr (), s)"
  using assms
  by (simp add: rc_read_loop.simps [of malloc_ok D s] bq_flatten_bytes [OF ok] header_fields_take
      ret_def Let_def not_less)

lemma rc_read_loop_round:
  assumes ok: "bq_ok (io_in s)"
    and len: "sizeof_header + header_size_field (bq_bytes (io_in s)) \<le> length (bq_bytes (io_in s))"
    and k: "k = sizeof_header + header_size_field (bq_bytes (io_in s))"
  shows "\<exists>q. bq_ok q \<and> bq_bytes q = drop k (bq_bytes (io_in s)) \<and> bq_size q < bq_size (io_in s) \<and>
           rc_read_loop malloc_ok D s =
             (if \<not> malloc_ok k then (Inl BadAlloc, s)
              else (case rc_dispatch D (header_type_field (bq_bytes (io_in s)))
                           (take k (bq_bytes (io_in s))) (s\<lparr>io_in := q\<rparr>) of
                      (Inl e, t) \<Rightarrow> (Inl e, t)
                    | (Inr _, t) \<Rightarrow> rc_read_loop malloc_ok D t))"
proof -
  obtain q where q: "bq_flatten_consume k (io_in s) = Inr (take k (bq_bytes (io_in s)), q)"
    "bq_ok q" "bq_bytes q = drop k (bq_bytes (io_in s))"
    using bq.pull_ok [OF ok, of k] len k by auto
  then have "bq_size q < bq_size (io_in s)"
    using bq_flatten_consume_size [OF q(1)] by (simp add: k sizeof_header_def)
  with q ok len k show ?thesis
    by (intro exI [of _ q])
      (simp add: rc_read_loop.simps [of malloc_ok D s] bq_flatten_bytes [OF ok] header_fields_take
        raise_def Let_def)
qed

context waitable_io begin

text \<open>Appending to the output stream and feeding the device.\<close>

lemma rc_feed_catch:
  fixes s :: "'d rpc_conn"
  assumes inv: "io_inv D dev_ok s"
    and f: "catchP (io_feed_output D rc_on_broken) (\<lambda>e. e = NotOpened) (\<lambda>_. raise e') s = (r, t)"
  shows "io_inv D dev_ok t \<and> io_in t = io_in s \<and>
         sent (io_dev t) @ bq_bytes (io_out t) = sent (io_dev s) @ bq_bytes (io_out s) \<and>
         received (io_dev t) = received (io_dev s) \<and>
         call_bodies (rc_events t) = call_bodies (rc_events s) \<and>
         (\<not> io_opened s \<longrightarrow> r = Inl e' \<and> t = s)"
proof -
  obtain r' t' where f': "io_feed_output D rc_on_broken s = (r', t')"
    by (cases "io_feed_output D rc_on_broken s")
  with f have t: "t = t'" by (auto simp: catchP_def raise_def split: sum.splits if_splits)
  note F = feed_output [OF inv quiet_rc(1) f']
  have "call_bodies (rc_events t') = call_bodies (rc_events s)"
  proof (cases "ioctx.more t' = ioctx.more s")
    case True
    then show ?thesis using rc_events_more by metis
  next
    case False
    then obtain d where "ioctx.more t' = ioctx.more (snd (rc_on_broken (s\<lparr>io_dev := d\<rparr>)))"
      using F by blast
    from rc_events_more [OF this] show ?thesis
      by (simp add: rc_on_broken_def rc_emit_def modifyP_def)
  qed
  with F f f' t show ?thesis by (auto simp: catchP_def raise_def)
qed

lemma rc_ping_spec:
  fixes s :: "'d rpc_conn"
  assumes inv: "io_inv D dev_ok s" and f: "rc_ping D s = (r, t)"
  shows "io_inv D dev_ok t \<and> io_in t = io_in s \<and>
         sent (io_dev t) @ bq_bytes (io_out t) =
           sent (io_dev s) @ bq_bytes (io_out s) @ header_bytes 0 packet_ping_pong \<and>
         received (io_dev t) = received (io_dev s) \<and>
         call_bodies (rc_events t) = call_bodies (rc_events s) \<and>
         (\<not> io_opened s \<longrightarrow> r = Inl PingFailed)"
proof -
  let ?s = "s\<lparr>io_out := bq_append_copy (header_bytes 0 packet_ping_pong) (io_out s)\<rparr>"
  have "io_inv D dev_ok ?s" using io_inv_update(2) [OF inv] io_inv_queues [OF inv] by simp
  moreover have "catchP (io_feed_output D rc_on_broken) (\<lambda>e. e = NotOpened) (\<lambda>_. raise PingFailed) ?s = (r, t)"
    using f by (simp add: rc_ping_def rc_append_out_def thenP_def bindP_def modifyP_def)
  ultimately show ?thesis using rc_feed_catch by fastforce
qed

text \<open>A call appends one frame to what is sent or pending, whole, behind earlier calls.\<close>

lemma rc_async_call_spec:
  fixes s :: "'d rpc_conn"
  assumes inv: "io_inv D dev_ok s" and rf: "rf_ok f" and c: "rc_async_call D f s = (r, t)"
  shows "io_inv D dev_ok t \<and> io_in t = io_in s \<and>
         sent (io_dev t) @ bq_bytes (io_out t) =
           sent (io_dev s) @ bq_bytes (io_out s) @ frame (packet_async_call, rf_bytes f) \<and>
         received (io_dev t) = received (io_dev s) \<and>
         call_bodies (rc_events t) = call_bodies (rc_events s) \<and>
         (\<not> io_opened s \<longrightarrow> r = Inl AsyncCallFailed)"
proof -
  let ?c = "bq_append_unmanaged (rf_bytes f) BufferDeleterFree 0 bq_new"
  let ?h = "header_bytes (bq_Size ?c) packet_async_call"
  let ?s = "s\<lparr>io_out := fst (bq_append_move_from ?c (bq_append_copy ?h (io_out s)))\<rparr>"
  have ser: "rf_serialize f = Inr ?c"
    using rf by (simp add: rf_serialize_def bq_copy_def bq_append_copy_from_bytes rf_ok_def rf_bytes_def)
  have "io_inv D dev_ok ?s" using io_inv_update(2) [OF inv] io_inv_queues [OF inv] by simp
  moreover have "catchP (io_feed_output D rc_on_broken) (\<lambda>e. e = NotOpened) (\<lambda>_. raise AsyncCallFailed) ?s = (r, t)"
    using c by (simp add: rc_async_call_def ser rc_append_out_def thenP_def bindP_def modifyP_def)
  ultimately show ?thesis using rc_feed_catch by (fastforce simp: frame_def)
qed

lemma rc_dispatch_spec:
  fixes s :: "'d rpc_conn"
  assumes inv: "io_inv D dev_ok s" and h: "length header = sizeof_header"
    and d: "rc_dispatch D ty (header @ body) s = (r, t)"
  shows "io_inv D dev_ok t \<and> io_in t = io_in s \<and>
         sent (io_dev t) @ bq_bytes (io_out t) =
           sent (io_dev s) @ bq_bytes (io_out s) @ packet_pongs [(ty, body)] \<and>
         received (io_dev t) = received (io_dev s) \<and>
         call_bodies (rc_events t) = call_bodies (rc_events s) @ packet_calls [(ty, body)] \<and>
         (ty \<noteq> packet_ping_pong \<longrightarrow> r = Inr ())"
proof -
  consider "ty = packet_async_call" | "ty = packet_ping_pong"
    | "ty \<noteq> packet_async_call" "ty \<noteq> packet_ping_pong" by blast
  then show ?thesis
  proof cases
    case 1
    obtain f where f: "rc_emit_call (header @ body) s = (Inr (), s\<lparr>rc_events := rc_events s @ [AsyncCallEv f]\<rparr>)"
      "rf_bytes f = body"
      using rc_emit_call_step [OF h] by blast
    with d inv 1 show ?thesis
      by (auto simp: rc_dispatch_def io_inv_update packet_async_call_def packet_ping_pong_def)
  next
    case 2
    then have "rc_ping D s = (r, t)" using d by (simp add: rc_dispatch_def packet_async_call_def packet_ping_pong_def)
    from rc_ping_spec [OF inv this] 2 show ?thesis
      by (simp add: packet_async_call_def packet_ping_pong_def)
  next
    case 3
    with d inv show ?thesis by (simp add: rc_dispatch_def ret_def)
  qed
qed

text \<open>
  The whole handler: it processes a prefix of the packets in the stream (all of them when it
  returns), in order, and leaves exactly the bytes of the others.
\<close>

lemma rc_read_loop_spec:
  fixes s :: "'d rpc_conn"
  assumes "io_inv D dev_ok s" and "rc_read_loop malloc_ok D s = (r, t)"
    and "parse_packets (bq_bytes (io_in s)) = (ps, rest)"
  shows "\<exists>done todo. ps = done @ todo \<and> parse_packets (bq_bytes (io_in t)) = (todo, rest) \<and>
           io_inv D dev_ok t \<and>
           call_bodies (rc_events t) = call_bodies (rc_events s) @ packet_calls done \<and>
           sent (io_dev t) @ bq_bytes (io_out t) =
             sent (io_dev s) @ bq_bytes (io_out s) @ packet_pongs done \<and>
           received (io_dev t) = received (io_dev s) \<and>
           (case r of Inr _ \<Rightarrow> todo = []
            | Inl e \<Rightarrow> e = BadAlloc \<and> \<not> (\<forall>n. malloc_ok n) \<or> packet_ping_pong \<in> fst ` set done)"
  using assms
proof (induction "bq_size (io_in s)" arbitrary: s ps rule: less_induct)
  case less
  let ?bs = "bq_bytes (io_in s)" and ?n = "header_size_field (bq_bytes (io_in s))"
  let ?ty = "header_type_field ?bs" and ?body = "take ?n (drop sizeof_header ?bs)"
  have ok: "bq_ok (io_in s)" using io_inv_queues less.prems(1) by blast
  show ?case
  proof (cases "length ?bs < sizeof_header + ?n")
    case True
    then have "ps = []" "rest = ?bs" "r = Inr ()" "t = s"
      using less.prems(2,3) by (simp_all add: parse_short rc_read_loop_short [OF ok True])
    with less.prems True show ?thesis by (simp add: parse_short)
  next
    case False
    then have len: "sizeof_header + ?n \<le> length ?bs" by simp
    obtain q where q: "bq_ok q" "bq_bytes q = drop (sizeof_header + ?n) ?bs"
      "bq_size q < bq_size (io_in s)" and round: "rc_read_loop malloc_ok D s =
         (if \<not> malloc_ok (sizeof_header + ?n) then (Inl BadAlloc, s)
          else (case rc_dispatch D ?ty (take (sizeof_header + ?n) ?bs) (s\<lparr>io_in := q\<rparr>) of
                  (Inl e, t) \<Rightarrow> (Inl e, t)
                | (Inr _, t) \<Rightarrow> rc_read_loop malloc_ok D t))"
      using rc_read_loop_round [OF ok len refl] by blast
    obtain ps' where ps: "ps = (?ty, ?body) # ps'"
      and ps': "parse_packets (bq_bytes q) = (ps', rest)"
      using less.prems(3) len q(2) by (auto simp: parse_step split: prod.splits)
    show ?thesis
    proof (cases "malloc_ok (sizeof_header + ?n)")
      case False
      with round less.prems show ?thesis by (intro exI [of _ "[]"] exI [of _ ps]) auto
    next
      case m: True
      obtain r1 t1 where d: "rc_dispatch D ?ty (take sizeof_header ?bs @ ?body) (s\<lparr>io_in := q\<rparr>) = (r1, t1)"
        by (cases "rc_dispatch D ?ty (take sizeof_header ?bs @ ?body) (s\<lparr>io_in := q\<rparr>)")
      have loop: "rc_read_loop malloc_ok D s =
          (case r1 of Inl e \<Rightarrow> (Inl e, t1) | Inr _ \<Rightarrow> rc_read_loop malloc_ok D t1)"
        using round m d by (simp add: take_add)
      have "io_inv D dev_ok (s\<lparr>io_in := q\<rparr>)" using less.prems(1) q(1) by (rule io_inv_update)
      moreover have "length (take sizeof_header ?bs) = sizeof_header" using len by simp
      ultimately have step: "io_inv D dev_ok t1" "io_in t1 = q"
        "sent (io_dev t1) @ bq_bytes (io_out t1) =
           sent (io_dev s) @ bq_bytes (io_out s) @ packet_pongs [(?ty, ?body)]"
        "received (io_dev t1) = received (io_dev s)"
        "call_bodies (rc_events t1) = call_bodies (rc_events s) @ packet_calls [(?ty, ?body)]"
        "?ty \<noteq> packet_ping_pong \<Longrightarrow> r1 = Inr ()"
        using rc_dispatch_spec [OF _ _ d] by auto
      show ?thesis
      proof (cases r1)
        case (Inl e)
        then have "r = Inl e" "t = t1" "?ty = packet_ping_pong"
          using loop less.prems(2) step(6) by auto
        with step ps ps' show ?thesis
          by (intro exI [of _ "[(?ty, ?body)]"] exI [of _ ps']) auto
      next
        case (Inr u)
        have "rc_read_loop malloc_ok D t1 = (r, t)" using loop less.prems(2) Inr by simp
        moreover have "bq_size (io_in t1) < bq_size (io_in s)" using step(2) q(3) by simp
        ultimately obtain done1 todo where IH: "ps' = done1 @ todo"
          "parse_packets (bq_bytes (io_in t)) = (todo, rest)" "io_inv D dev_ok t"
          "call_bodies (rc_events t) = call_bodies (rc_events t1) @ packet_calls done1"
          "sent (io_dev t) @ bq_bytes (io_out t) =
             sent (io_dev t1) @ bq_bytes (io_out t1) @ packet_pongs done1"
          "received (io_dev t) = received (io_dev t1)"
          "case r of Inr _ \<Rightarrow> todo = []
           | Inl e \<Rightarrow> e = BadAlloc \<and> \<not> (\<forall>n. malloc_ok n) \<or> packet_ping_pong \<in> fst ` set done1"
          using less.hyps [of t1 ps'] step(1,2) ps' by blast
        show ?thesis
          by (intro exI [of _ "(?ty, ?body) # done1"] exI [of _ todo])
            (use IH step ps in \<open>auto split: sum.splits\<close>)
      qed
    qed
  qed
qed

end

section \<open>Histories of a connection\<close>

text \<open>
  A connection's life: calls, pings, and read and write events while the event loop watches for
  them, with or without exceptions.  \<open>fs\<close> is the log of the calls made, in order.
\<close>

inductive rc_reach ::
  "'d io_device \<Rightarrow> ('d \<Rightarrow> bool) \<Rightarrow> (nat \<Rightarrow> bool) \<Rightarrow> 'd rpc_conn \<Rightarrow> rpc_function list \<Rightarrow> 'd rpc_conn \<Rightarrow> bool"
  for D :: "'d io_device" and dev_ok :: "'d \<Rightarrow> bool" and malloc_ok :: "nat \<Rightarrow> bool" and s0 :: "'d rpc_conn"
where
  start: "rc_reach D dev_ok malloc_ok s0 [] s0"
| call: "rc_reach D dev_ok malloc_ok s0 fs s \<Longrightarrow> rf_ok f \<Longrightarrow> rc_async_call D f s = (r, t) \<Longrightarrow>
     rc_reach D dev_ok malloc_ok s0 (fs @ [f]) t"
| ping: "rc_reach D dev_ok malloc_ok s0 fs s \<Longrightarrow> rc_ping D s = (r, t) \<Longrightarrow>
     rc_reach D dev_ok malloc_ok s0 fs t"
| read_ev: "rc_reach D dev_ok malloc_ok s0 fs s \<Longrightarrow> io_opened s \<Longrightarrow>
     rc_on_waitable_handle_event malloc_ok D WaitRead s = (r, t) \<Longrightarrow>
     rc_reach D dev_ok malloc_ok s0 fs t"
| write_ev: "rc_reach D dev_ok malloc_ok s0 fs s \<Longrightarrow> io_opened s \<Longrightarrow> io_hasWrite s \<Longrightarrow>
     rc_on_waitable_handle_event malloc_ok D WaitWrite s = (r, t) \<Longrightarrow>
     rc_reach D dev_ok malloc_ok s0 fs t"

text \<open>What was received: packets handled, packets parsed but not handled, an unfinished one.\<close>

definition rx_inv :: "('d \<Rightarrow> byte list) \<Rightarrow> 'd rpc_conn \<Rightarrow> bool" where
  "rx_inv received s \<longleftrightarrow>
     (\<exists>done todo rest. parse_packets (received (io_dev s)) = (done @ todo, rest) \<and>
        parse_packets (bq_bytes (io_in s)) = (todo, rest) \<and>
        call_bodies (rc_events s) = packet_calls done)"

text \<open>What was sent or is pending: whole frames, the calls among them in order.\<close>

definition tx_inv :: "('d \<Rightarrow> byte list) \<Rightarrow> rpc_function list \<Rightarrow> 'd rpc_conn \<Rightarrow> bool" where
  "tx_inv sent fs s \<longleftrightarrow>
     (\<exists>ps. sent (io_dev s) @ bq_bytes (io_out s) = concat (map frame ps) \<and>
        packet_calls ps = map rf_bytes fs \<and>
        (\<forall>p \<in> set ps. fst p = packet_async_call \<or> p = (packet_ping_pong, [])))"

definition rc_fresh :: "'d io_device \<Rightarrow> ('d \<Rightarrow> bool) \<Rightarrow> ('d \<Rightarrow> byte list) \<Rightarrow> ('d \<Rightarrow> byte list) \<Rightarrow> 'd rpc_conn \<Rightarrow> bool" where
  "rc_fresh D dev_ok sent received s \<longleftrightarrow>
     io_inv D dev_ok s \<and> sent (io_dev s) = [] \<and> received (io_dev s) = [] \<and>
     bq_bytes (io_in s) = [] \<and> bq_bytes (io_out s) = [] \<and> rc_events s = []"

lemma packet_lists_append [simp]:
  "packet_calls (xs @ ys) = packet_calls xs @ packet_calls ys"
  "packet_pongs (xs @ ys) = packet_pongs xs @ packet_pongs ys"
  by (simp_all add: packet_calls_def packet_pongs_def)

lemma pongs_frames:
  "\<exists>qs. packet_pongs ps = concat (map frame qs) \<and> packet_calls qs = [] \<and>
        (\<forall>p \<in> set qs. p = (packet_ping_pong, []))"
proof -
  let ?qs = "map (\<lambda>_. (packet_ping_pong, [])) (filter (\<lambda>p. fst p = packet_ping_pong) ps)"
  have "packet_pongs ps = concat (map frame ?qs)"
    by (simp add: packet_pongs_def frame_def o_def)
  moreover have "packet_calls ?qs = []"
    by (simp add: packet_calls_def packet_async_call_def packet_ping_pong_def o_def)
  ultimately show ?thesis by (intro exI [of _ ?qs]) auto
qed

lemma tx_inv_append:
  assumes "tx_inv sent fs s"
    and "sent (io_dev t) @ bq_bytes (io_out t) = sent (io_dev s) @ bq_bytes (io_out s) @ x"
    and "\<exists>qs. x = concat (map frame qs) \<and> packet_calls qs = map rf_bytes gs \<and>
           (\<forall>p \<in> set qs. fst p = packet_async_call \<or> p = (packet_ping_pong, []))"
  shows "tx_inv sent (fs @ gs) t"
proof -
  obtain ps where ps: "sent (io_dev s) @ bq_bytes (io_out s) = concat (map frame ps)"
    "packet_calls ps = map rf_bytes fs"
    "\<forall>p \<in> set ps. fst p = packet_async_call \<or> p = (packet_ping_pong, [])"
    using assms(1) by (auto simp: tx_inv_def)
  obtain qs where qs: "x = concat (map frame qs)" "packet_calls qs = map rf_bytes gs"
    "\<forall>p \<in> set qs. fst p = packet_async_call \<or> p = (packet_ping_pong, [])"
    using assms(3) by blast
  have "sent (io_dev t) @ bq_bytes (io_out t) = concat (map frame (ps @ qs))"
    using assms(2) ps(1) qs(1) by (simp add: append_assoc [symmetric] del: append_assoc)
  with ps qs show ?thesis unfolding tx_inv_def by (intro exI [of _ "ps @ qs"]) auto
qed

lemmas tx_inv_same = tx_inv_append [where x = "[]" and gs = "[]", simplified]

lemma rx_inv_same:
  "rx_inv received s \<Longrightarrow> received (io_dev t) = received (io_dev s) \<Longrightarrow>
   bq_bytes (io_in t) = bq_bytes (io_in s) \<Longrightarrow> call_bodies (rc_events t) = call_bodies (rc_events s) \<Longrightarrow>
   rx_inv received t"
  by (simp add: rx_inv_def)

text \<open>New data, then the handler.\<close>

lemma rx_inv_data:
  assumes inv: "rx_inv received s"
    and d: "received (io_dev u) = received (io_dev s) @ q" "bq_bytes (io_in u) = bq_bytes (io_in s) @ q"
    and e: "call_bodies (rc_events u) = call_bodies (rc_events s)"
  shows "rx_inv received u"
proof -
  obtain done1 todo rest where p: "parse_packets (received (io_dev s)) = (done1 @ todo, rest)"
    "parse_packets (bq_bytes (io_in s)) = (todo, rest)"
    "call_bodies (rc_events s) = packet_calls done1"
    using inv by (auto simp: rx_inv_def)
  obtain qs r where q: "parse_packets (rest @ q) = (qs, r)" by (cases "parse_packets (rest @ q)")
  have "parse_packets (received (io_dev u)) = (done1 @ todo @ qs, r)"
    "parse_packets (bq_bytes (io_in u)) = (todo @ qs, r)"
    using parse_append [of "received (io_dev s)" q] parse_append [of "bq_bytes (io_in s)" q]
    by (simp_all add: d p q)
  with p e show ?thesis unfolding rx_inv_def by auto
qed

lemma rx_inv_handled:
  assumes inv: "rx_inv received u"
    and h: "fst (parse_packets (bq_bytes (io_in u))) = hs @ todo"
      "parse_packets (bq_bytes (io_in t)) = (todo, snd (parse_packets (bq_bytes (io_in u))))"
      "call_bodies (rc_events t) = call_bodies (rc_events u) @ packet_calls hs"
      "received (io_dev t) = received (io_dev u)"
  shows "rx_inv received t"
proof -
  obtain done1 todo1 rest where p: "parse_packets (received (io_dev u)) = (done1 @ todo1, rest)"
    "parse_packets (bq_bytes (io_in u)) = (todo1, rest)"
    "call_bodies (rc_events u) = packet_calls done1"
    using inv by (auto simp: rx_inv_def)
  with h show ?thesis
    unfolding rx_inv_def by (intro exI [of _ "done1 @ hs"] exI [of _ todo] exI [of _ rest]) simp
qed

lemma quiet_callbacks_calls:
  "call_bodies (rc_events (snd (rc_on_closed s))) = call_bodies (rc_events s)"
  "call_bodies (rc_events (snd (rc_on_broken s))) = call_bodies (rc_events s)"
  by (simp_all add: rc_on_closed_def rc_on_broken_def rc_emit_def modifyP_def)

lemma calls_more:
  "ioctx.more t = ioctx.more (snd (rc_on_closed (s\<lparr>io_dev := d\<rparr>))) \<Longrightarrow>
     call_bodies (rc_events t) = call_bodies (rc_events s)"
  "ioctx.more t = ioctx.more (snd (rc_on_broken (s\<lparr>io_dev := d\<rparr>))) \<Longrightarrow>
     call_bodies (rc_events t) = call_bodies (rc_events s)"
  using rc_events_more [of t "snd (rc_on_closed (s\<lparr>io_dev := d\<rparr>))"]
    rc_events_more [of t "snd (rc_on_broken (s\<lparr>io_dev := d\<rparr>))"]
  by (simp_all add: quiet_callbacks_calls)

lemma rc_on_read_loop: "rc_on_input_stream_read malloc_ok D s = rc_read_loop malloc_ok D s"
  by (simp add: rc_on_input_stream_read_def rc_read_loop.simps [of malloc_ok D s] not_le)

definition rc_inv ::
  "'d io_device \<Rightarrow> ('d \<Rightarrow> bool) \<Rightarrow> ('d \<Rightarrow> byte list) \<Rightarrow> ('d \<Rightarrow> byte list) \<Rightarrow> rpc_function list \<Rightarrow>
   'd rpc_conn \<Rightarrow> bool" where
  "rc_inv D dev_ok sent received fs s \<longleftrightarrow> io_inv D dev_ok s \<and> rx_inv received s \<and> tx_inv sent fs s"

context waitable_io begin

lemma rc_call_inv:
  assumes "rc_inv D dev_ok sent received fs s" and "rf_ok f" and "rc_async_call D f s = (r, t)"
  shows "rc_inv D dev_ok sent received (fs @ [f]) t"
proof -
  have inv: "io_inv D dev_ok s" "rx_inv received s" "tx_inv sent fs s"
    using assms(1) by (simp_all add: rc_inv_def)
  note c = rc_async_call_spec [OF inv(1) assms(2,3)]
  have "\<exists>qs. frame (packet_async_call, rf_bytes f) = concat (map frame qs) \<and>
          packet_calls qs = map rf_bytes [f] \<and>
          (\<forall>p \<in> set qs. fst p = packet_async_call \<or> p = (packet_ping_pong, []))"
    by (intro exI [of _ "[(packet_async_call, rf_bytes f)]"]) simp
  then have "tx_inv sent (fs @ [f]) t" using tx_inv_append [OF inv(3)] c by blast
  moreover have "rx_inv received t" using rx_inv_same [OF inv(2)] c by simp
  ultimately show ?thesis using c by (simp add: rc_inv_def)
qed

lemma rc_ping_inv:
  assumes "rc_inv D dev_ok sent received fs s" and "rc_ping D s = (r, t)"
  shows "rc_inv D dev_ok sent received fs t"
proof -
  have inv: "io_inv D dev_ok s" "rx_inv received s" "tx_inv sent fs s"
    using assms(1) by (simp_all add: rc_inv_def)
  note c = rc_ping_spec [OF inv(1) assms(2)]
  have "\<exists>qs. header_bytes 0 packet_ping_pong = concat (map frame qs) \<and>
          packet_calls qs = map rf_bytes [] \<and>
          (\<forall>p \<in> set qs. fst p = packet_async_call \<or> p = (packet_ping_pong, []))"
    by (intro exI [of _ "[(packet_ping_pong, [])]"])
      (simp add: frame_def packet_ping_pong_def packet_async_call_def)
  then have "tx_inv sent (fs @ []) t" using tx_inv_append [OF inv(3)] c by blast
  moreover have "rx_inv received t" using rx_inv_same [OF inv(2)] c by simp
  ultimately show ?thesis using c by (simp add: rc_inv_def)
qed

lemma rc_write_inv:
  assumes "rc_inv D dev_ok sent received fs s" and "io_opened s" and "io_hasWrite s"
    and "rc_on_waitable_handle_event malloc_ok D WaitWrite s = (r, t)"
  shows "rc_inv D dev_ok sent received fs t"
proof -
  have inv: "io_inv D dev_ok s" "rx_inv received s" "tx_inv sent fs s"
    using assms(1) by (simp_all add: rc_inv_def)
  note c = write_event [OF inv(1) assms(2,3) quiet_rc(1) assms(4) [unfolded rc_on_waitable_handle_event_def]]
  note c2 = conjunct2 [OF conjunct2 [OF c]]
  note p = conjunct1 [OF c] conjunct1 [OF conjunct2 [OF c]] conjunct1 [OF c2] conjunct1 [OF conjunct2 [OF c2]]
  have "ioctx.more t = ioctx.more s \<or>
      (\<exists>d. ioctx.more t = ioctx.more (snd (rc_on_broken (s\<lparr>io_dev := d\<rparr>))))"
    by (rule conjunct1 [OF conjunct2 [OF conjunct2 [OF c2]]])
  then have "call_bodies (rc_events t) = call_bodies (rc_events s)"
  proof
    assume "ioctx.more t = ioctx.more s"
    from rc_events_more [OF this] show ?thesis by simp
  next
    assume "\<exists>d. ioctx.more t = ioctx.more (snd (rc_on_broken (s\<lparr>io_dev := d\<rparr>)))"
    then show ?thesis by (elim exE) (rule calls_more(2))
  qed
  then have "rx_inv received t" using rx_inv_same [OF inv(2)] p by simp
  moreover have "tx_inv sent fs t" using inv(3) p(3) by (simp add: tx_inv_def)
  ultimately show ?thesis using p(1) by (simp add: rc_inv_def)
qed

lemma rc_handler_inv:
  assumes "rc_inv D dev_ok sent received fs u" and "rc_read_loop malloc_ok D u = (r, t)"
  shows "rc_inv D dev_ok sent received fs t"
proof -
  have inv: "io_inv D dev_ok u" "rx_inv received u" "tx_inv sent fs u"
    using assms(1) by (simp_all add: rc_inv_def)
  obtain ps rest where p: "parse_packets (bq_bytes (io_in u)) = (ps, rest)"
    by (cases "parse_packets (bq_bytes (io_in u))")
  obtain hs todo where L: "ps = hs @ todo" "parse_packets (bq_bytes (io_in t)) = (todo, rest)"
    "io_inv D dev_ok t" "call_bodies (rc_events t) = call_bodies (rc_events u) @ packet_calls hs"
    "sent (io_dev t) @ bq_bytes (io_out t) = sent (io_dev u) @ bq_bytes (io_out u) @ packet_pongs hs"
    "received (io_dev t) = received (io_dev u)"
    using rc_read_loop_spec [OF inv(1) assms(2) p] by blast
  have "tx_inv sent (fs @ []) t"
    using tx_inv_append [OF inv(3) L(5), of "[]"] pongs_frames [of hs] by auto
  moreover have "rx_inv received t"
    using rx_inv_handled [OF inv(2)] L p by simp
  ultimately show ?thesis using L(3) by (simp add: rc_inv_def)
qed

lemma rc_read_inv:
  assumes "rc_inv D dev_ok sent received fs s" and op: "io_opened s"
    and e: "rc_on_waitable_handle_event malloc_ok D WaitRead s = (r, t)"
  shows "rc_inv D dev_ok sent received fs t"
proof -
  have inv: "io_inv D dev_ok s" "rx_inv received s" "tx_inv sent fs s"
    using assms(1) by (simp_all add: rc_inv_def)
  obtain a d where rd: "dev_read D default_read_size (io_dev s) = (a, d)"
    by (cases "dev_read D default_read_size (io_dev s)")
  have "dev_ok (io_dev s)" using inv(1) by (simp add: io_inv_def)
  note law = read_law [OF this rd]
  have e': "io_read_input D (rc_on_input_stream_read malloc_ok D) rc_on_closed rc_on_broken s = (r, t)"
    using e by (simp add: rc_on_waitable_handle_event_def io_on_waitable_handle_event_def)
  have gone: "rc_inv D dev_ok sent received fs t"
    if "io_inv D dev_ok t" "io_in t = io_in s" "io_out t = io_out s" "io_dev t = d"
      "call_bodies (rc_events t) = call_bodies (rc_events s)" "received d = received (io_dev s)" for t
    using that inv law rx_inv_same [OF inv(2), of t] by (simp add: rc_inv_def tx_inv_def)
  show ?thesis
  proof (cases a)
    case (Inl x)
    show ?thesis
    proof (cases "x = ConnectionBroken")
      case True
      obtain t' where t': "io_read_input D (rc_on_input_stream_read malloc_ok D) rc_on_closed rc_on_broken s =
           (Inr (), t')" "io_inv D dev_ok t'" "io_in t' = io_in s" "io_out t' = io_out s" "io_dev t' = d"
        "ioctx.more t' = ioctx.more (snd (rc_on_broken (s\<lparr>io_dev := d\<rparr>)))"
        using read_broken [OF inv(1) op quiet_rc(1) rd [unfolded Inl True]] by blast
      have "rc_inv D dev_ok sent received fs t'"
        by (rule gone [OF t'(2-5) calls_more(2) [OF t'(6)]]) (use law Inl in simp)
      with e' t'(1) show ?thesis by simp
    next
      case False
      have "t = s\<lparr>io_dev := d\<rparr>"
        using e' read_failed [OF rd [unfolded Inl] False] by simp
      with gone [of t] read_law_inv [OF inv(1) rd] law Inl show ?thesis by simp
    qed
  next
    case (Inr b)
    show ?thesis
    proof (cases b)
      case None
      have "t = s\<lparr>io_dev := d\<rparr>"
        using e' read_nothing [OF rd [unfolded Inr None]] by simp
      with gone [of t] read_law_inv [OF inv(1) rd] law Inr None show ?thesis by simp
    next
      case (Some q)
      have q: "bq_Empty q \<longleftrightarrow> bq_bytes q = []" using law Inr Some by simp
      show ?thesis
      proof (cases "bq_Empty q")
        case True
        obtain t' where t': "io_read_input D (rc_on_input_stream_read malloc_ok D) rc_on_closed rc_on_broken s =
             (Inr (), t')" "io_inv D dev_ok t'" "io_in t' = io_in s" "io_out t' = io_out s" "io_dev t' = d"
          "ioctx.more t' = ioctx.more (snd (rc_on_closed (s\<lparr>io_dev := d\<rparr>)))"
          using read_closed [OF inv(1) op quiet_rc(2) True rd [unfolded Inr Some]] by blast
        have "rc_inv D dev_ok sent received fs t'"
          by (rule gone [OF t'(2-5) calls_more(1) [OF t'(6)]]) (use law Inr Some True q in simp)
        with e' t'(1) show ?thesis by simp
      next
        case False
        obtain u where u: "io_read_input D (rc_on_input_stream_read malloc_ok D) rc_on_closed rc_on_broken s =
             rc_on_input_stream_read malloc_ok D u" "io_inv D dev_ok u"
          "bq_bytes (io_in u) = bq_bytes (io_in s) @ bq_bytes q"
          "received (io_dev u) = received (io_dev s) @ bq_bytes q"
          "io_out u = io_out s" "sent (io_dev u) = sent (io_dev s)" "ioctx.more u = ioctx.more s"
          using read_data [OF inv(1) False rd [unfolded Inr Some]] by blast
        have "rx_inv received u"
          by (rule rx_inv_data [OF inv(2) u(4,3)]) (simp add: rc_events_more [OF u(7)])
        moreover have "tx_inv sent fs u" using inv(3) u(5,6) by (simp add: tx_inv_def)
        ultimately have "rc_inv D dev_ok sent received fs u" using u(2) by (simp add: rc_inv_def)
        then show ?thesis
          by (rule rc_handler_inv) (use e' u(1) in \<open>simp add: rc_on_read_loop\<close>)
      qed
    qed
  qed
qed

lemma rc_reach_inv:
  assumes "rc_reach D dev_ok malloc_ok s0 fs s" and "rc_fresh D dev_ok sent received s0"
  shows "rc_inv D dev_ok sent received fs s"
  using assms
proof (induction rule: rc_reach.induct)
  case start
  then have "tx_inv sent [] s0" "rx_inv received s0"
    by (simp_all add: rc_fresh_def tx_inv_def rx_inv_def exI [of _ "[]"])
  with start show ?case by (simp add: rc_inv_def rc_fresh_def)
next
  case (call fs s f r t)
  then show ?case using rc_call_inv by blast
next
  case (ping fs s r t)
  then show ?case using rc_ping_inv by blast
next
  case (read_ev fs s r t)
  then show ?case using rc_read_inv by blast
next
  case (write_ev fs s r t)
  then show ?case using rc_write_inv by blast
qed

end

lemma parse_packets_sound:
  "parse_packets bs = (ps, r) \<Longrightarrow>
     list_all fits_frame ps \<and> length r < sizeof_header + header_size_field r"
proof (induction bs arbitrary: ps r rule: parse_packets.induct)
  case (1 bs)
  show ?case
  proof (cases "length bs < sizeof_header + header_size_field bs")
    case True
    with "1.prems" show ?thesis by (simp add: parse_short)
  next
    case False
    let ?n = "header_size_field bs"
    obtain qs where ps: "ps = (header_type_field bs, take ?n (drop sizeof_header bs)) # qs"
      and qs: "parse_packets (drop (sizeof_header + ?n) bs) = (qs, r)"
      using "1.prems" False by (auto simp: parse_step split: prod.splits)
    have lt: "le_decode (take 2 xs) < 65536" for xs
    proof -
      have "le_decode (take 2 xs) < 256 ^ length (take 2 xs)" by (rule le_decode_bound)
      also have "\<dots> \<le> 256 ^ 2" by (rule power_increasing) simp_all
      finally show ?thesis by simp
    qed
    have "fits_frame (header_type_field bs, take ?n (drop sizeof_header bs))"
      using lt [of bs] lt [of "drop 2 bs"]
      by (simp add: fits_frame_def header_size_field_def header_type_field_def min_def)
    with ps "1.IH" [OF refl False qs] show ?thesis by simp
  qed
qed

lemma packet_calls_frames:
  assumes "\<forall>p \<in> set ps. fst p = packet_async_call \<or> p = (packet_ping_pong, [])"
    and "\<forall>b \<in> set (packet_calls ps). length b < 65536"
  shows "list_all fits_frame ps"
  using assms
  by (induction ps) (auto simp: fits_frame_def packet_async_call_def packet_ping_pong_def)

section \<open>A connection over a scripted socket\<close>

definition sample_conn :: "(errno + byte list) list \<Rightarrow> (errno + nat) list \<Rightarrow> script_kernel sock_dev rpc_conn" where
  "sample_conn ins outs =
     \<lparr>io_opened = True, io_hasRead = True, io_hasWrite = False, io_in = bq_new, io_out = bq_new,
      io_dev = sample_dev ins outs,
      io_ws = \<lparr>ws_map = [(4, \<lparr>w_listeners = [(2, WaitRead)], w_reads = 1, w_writes = 0\<rparr>)],
               ws_thread = None, ws_invoker = False, ws_commit = False, ws_direct = 1\<rparr>,
      io_self = 2, rc_events = []\<rparr>"

lemma sample_conn_fresh:
  "rc_fresh (socket_device sk_recv sk_send) (\<lambda>_. True) (\<lambda>d. sk_sent (sd_kernel d))
     (\<lambda>d. sk_received (sd_kernel d)) (sample_conn ins outs)"
proof -
  have "io_inv (socket_device sk_recv sk_send) (\<lambda>_. True) (sample_conn ins outs)"
    by (simp add: sample_conn_def io_inv_def)
      (auto simp: ws_ok_def sm_ok_def sm_find_def watchers_ok_def io_own_def io_watches_def
        registered_def socket_device_def sample_dev_def split: if_splits)
  then show ?thesis by (simp add: rc_fresh_def sample_conn_def sample_dev_def)
qed

definition sample_call :: rpc_function where
  "sample_call = rf_append_arg [7, 8] rf_new"

definition sample_sender :: "script_kernel sock_dev rpc_conn" where
  "sample_sender =
     snd (rc_async_call (socket_device sk_recv sk_send) sample_call (sample_conn [] [Inr 100]))"

definition sample_receiver :: "script_kernel sock_dev rpc_conn" where
  "sample_receiver =
     snd (rc_on_waitable_handle_event (\<lambda>_. True) (socket_device sk_recv sk_send) WaitRead
            (sample_conn [Inr (frame (packet_async_call, rf_bytes sample_call))] []))"

lemma sample_sender_sent:
  "sk_sent (sd_kernel (io_dev sample_sender)) = [6, 0, 0, 0, 2, 0, 0, 0, 7, 8]" 
  "bq_bytes (io_out sample_sender) = []"
  by code_simp+

lemma sample_receiver_received:
  "sk_received (sd_kernel (io_dev sample_receiver)) = [6, 0, 0, 0, 2, 0, 0, 0, 7, 8]"
  "bq_bytes (io_in sample_receiver) = []"
  by code_simp+

section \<open>Properties\<close>

text \<open>
  C1: End-to-end delivery.  Two connections, each over any device that keeps its contract, go
  through any histories of calls, pings and events; what B received so far is a prefix of what A
  sent.  If every call fits the 16-bit size field, the calls B has reported are a prefix of the calls
  A made, byte for byte and in order, and when nothing is queued, in flight or unread they are
  all of them.
\<close>

theorem rpc_end_to_end:
  assumes "waitable_io DA okA sentA rcvdA" and "waitable_io DB okB sentB rcvdB"
    and "rc_fresh DA okA sentA rcvdA a0" and "rc_reach DA okA mA a0 fs a"
    and "rc_fresh DB okB sentB rcvdB b0" and "rc_reach DB okB mB b0 gs b"
    and "\<forall>f \<in> set fs. length (rf_bytes f) < 65536"
    and "sentA (io_dev a) = rcvdB (io_dev b) @ flight"
  shows "\<exists>later. map rf_bytes fs = call_bodies (rc_events b) @ later \<and>
           (bq_bytes (io_out a) = [] \<and> flight = [] \<and> bq_bytes (io_in b) = [] \<longrightarrow> later = [])"
proof -
  have "rc_inv DA okA sentA rcvdA fs a" by (rule waitable_io.rc_reach_inv [OF assms(1,4,3)])
  then obtain ps where ps: "sentA (io_dev a) @ bq_bytes (io_out a) = concat (map frame ps)"
    "packet_calls ps = map rf_bytes fs"
    "\<forall>p \<in> set ps. fst p = packet_async_call \<or> p = (packet_ping_pong, [])"
    by (auto simp: rc_inv_def tx_inv_def)
  have "rc_inv DB okB sentB rcvdB gs b" by (rule waitable_io.rc_reach_inv [OF assms(2,6,5)])
  then obtain hs todo rest where B: "parse_packets (rcvdB (io_dev b)) = (hs @ todo, rest)"
    "parse_packets (bq_bytes (io_in b)) = (todo, rest)" "call_bodies (rc_events b) = packet_calls hs"
    by (auto simp: rc_inv_def rx_inv_def)
  have "list_all fits_frame ps"
    by (rule packet_calls_frames [OF ps(3)]) (use ps(2) assms(7) in auto)
  from parse_frames [OF this, of "[]"] have P: "parse_packets (concat (map frame ps)) = (ps, [])" by simp
  let ?x = "flight @ bq_bytes (io_out a)"
  have split: "concat (map frame ps) = rcvdB (io_dev b) @ ?x" using ps(1) assms(8) by simp
  obtain qs r where q: "parse_packets (rest @ ?x) = (qs, r)" by (cases "parse_packets (rest @ ?x)")
  have "(ps, []) = (hs @ todo @ qs, r)"
    using P parse_append [of "rcvdB (io_dev b)" ?x] by (simp add: split B(1) q)
  then have "map rf_bytes fs = call_bodies (rc_events b) @ packet_calls (todo @ qs)"
    using ps(2) B(3) by auto
  moreover have "packet_calls (todo @ qs) = []"
    if "bq_bytes (io_out a) = []" "flight = []" "bq_bytes (io_in b) = []"
  proof -
    have "todo = []" "rest = []" using B(2) that(3) by simp_all
    with q that show ?thesis by simp
  qed
  ultimately show ?thesis by blast
qed

theorem rpc_end_to_end_witness:
  "call_bodies (rc_events sample_receiver) = [rf_bytes sample_call]"
proof -
  let ?D = "socket_device sk_recv sk_send"
  let ?a0 = "sample_conn [] [Inr 100]"
  let ?b0 = "sample_conn [Inr (frame (packet_async_call, rf_bytes sample_call))] []"
  have f: "rf_ok sample_call" "length (rf_bytes sample_call) = 6"
    by (simp_all add: sample_call_def arg_enc_def sizeof_size_t_def)
  have a: "rc_reach ?D (\<lambda>_. True) (\<lambda>_. True) ?a0 ([] @ [sample_call]) sample_sender"
    unfolding sample_sender_def
    by (rule rc_reach.call [OF rc_reach.start f(1), where r = "fst (rc_async_call ?D sample_call ?a0)"]) simp
  have "io_opened ?b0" by (simp add: sample_conn_def)
  then have b: "rc_reach ?D (\<lambda>_. True) (\<lambda>_. True) ?b0 [] sample_receiver"
    unfolding sample_receiver_def
    by (rule rc_reach.read_ev [OF rc_reach.start, where
          r = "fst (rc_on_waitable_handle_event (\<lambda>_. True) ?D WaitRead ?b0)"]) simp
  from rpc_end_to_end [OF sk.sock.waitable_io_axioms sk.sock.waitable_io_axioms sample_conn_fresh a
      sample_conn_fresh b, of "[]"]
  show ?thesis
    by (simp add: f sample_sender_sent sample_receiver_received)
qed

text \<open>
  C10: The read handler.  Whatever is in the input stream, the handler processes a prefix of its
  complete packets in order: one event per call with exactly its body, one ping sent or queued per
  ping, unknown types skipped.  When it returns, every complete packet has been processed and the
  bytes of the unfinished one remain; it can only throw when memory is exhausted or a reply
  to a ping fails, and then exactly the unprocessed packets remain.
\<close>

theorem rpc_read_handler:
  fixes s :: "'d rpc_conn"
  assumes "waitable_io D dev_ok sent received" and "io_inv D dev_ok s"
    and "rc_on_input_stream_read malloc_ok D s = (r, t)"
    and "parse_packets (bq_bytes (io_in s)) = (ps, rest)"
  shows "\<exists>done todo. ps = done @ todo \<and> parse_packets (bq_bytes (io_in t)) = (todo, rest) \<and>
           io_inv D dev_ok t \<and>
           call_bodies (rc_events t) = call_bodies (rc_events s) @ packet_calls done \<and>
           sent (io_dev t) @ bq_bytes (io_out t) =
             sent (io_dev s) @ bq_bytes (io_out s) @ packet_pongs done \<and>
           (case r of Inr _ \<Rightarrow> todo = []
            | Inl e \<Rightarrow> e = BadAlloc \<and> \<not> (\<forall>n. malloc_ok n) \<or> packet_ping_pong \<in> fst ` set done)"
  using waitable_io.rc_read_loop_spec [OF assms(1,2) assms(3) [unfolded rc_on_read_loop] assms(4)]
  by blast

theorem rpc_read_handler_witness:
  "\<exists>r t. rc_on_input_stream_read (\<lambda>_. True) (socket_device sk_recv sk_send)
          ((sample_conn [] [])\<lparr>io_in := bq_append_copy (frame (packet_async_call, [5]) @ [1]) bq_new\<rparr>) = (r, t) \<and>
     call_bodies (rc_events t) = [[5]] \<and> parse_packets (bq_bytes (io_in t)) = ([], [1])"
proof -
  let ?D = "socket_device sk_recv sk_send"
  let ?s = "(sample_conn [] [])\<lparr>io_in := bq_append_copy (frame (packet_async_call, [5]) @ [1]) bq_new\<rparr>"
  have inv: "io_inv ?D (\<lambda>_. True) ?s"
    by (rule io_inv_update(1)) (use sample_conn_fresh in \<open>simp_all add: rc_fresh_def\<close>)
  have "fits_frame (packet_async_call, [5])" by (simp add: fits_frame_def packet_async_call_def)
  from parse_frame [OF this, of "[1]"]
  have p: "parse_packets (bq_bytes (io_in ?s)) = ([(packet_async_call, [5])], [1])"
    by (simp add: parse_short sizeof_header_def)
  obtain r t where h: "rc_on_input_stream_read (\<lambda>_. True) ?D ?s = (r, t)"
    by (cases "rc_on_input_stream_read (\<lambda>_. True) ?D ?s")
  obtain hs todo where H: "[(packet_async_call, [5])] = hs @ todo"
    "parse_packets (bq_bytes (io_in t)) = (todo, [1])"
    "call_bodies (rc_events t) = call_bodies (rc_events ?s) @ packet_calls hs"
    "case r of Inr _ \<Rightarrow> todo = []
     | Inl e \<Rightarrow> e = BadAlloc \<and> \<not> (\<forall>n :: nat. True) \<or> packet_ping_pong \<in> fst ` set hs"
    using rpc_read_handler [OF sk.sock.waitable_io_axioms inv h p] by blast
  have "packet_ping_pong \<notin> fst ` set hs"
    using H(1) by (auto simp: packet_ping_pong_def packet_async_call_def Cons_eq_append_conv)
  with H(4) have todo: "todo = []" by (cases r) auto
  then have hs: "hs = [(packet_async_call, [5])]" using H(1) by simp
  have "call_bodies (rc_events t) = [[5]]" using H(3) by (simp add: hs sample_conn_def)
  with H(2) h todo show ?thesis by blast
qed

text \<open>
  The framing is unambiguous.  A byte stream parses to packets \<open>ps\<close> and a remainder exactly
  when it is the concatenation of their frames followed by that remainder, every packet fits the two
  16-bit header fields, and the remainder is too short for the packet it announces.
\<close>

theorem rpc_framing_unique:
  "parse_packets bs = (ps, r) \<longleftrightarrow>
     bs = concat (map frame ps) @ r \<and> list_all fits_frame ps \<and>
     length r < sizeof_header + header_size_field r"
proof
  assume "parse_packets bs = (ps, r)"
  then show "bs = concat (map frame ps) @ r \<and> list_all fits_frame ps \<and>
      length r < sizeof_header + header_size_field r"
    using parse_frames_inverse parse_packets_sound by metis
next
  assume a: "bs = concat (map frame ps) @ r \<and> list_all fits_frame ps \<and>
      length r < sizeof_header + header_size_field r"
  with parse_frames [of ps r] show "parse_packets bs = (ps, r)" by (simp add: parse_short)
qed

text \<open>
  Chunking does not matter: parsing what arrived and then the remainder together with what
  arrives later gives the packets of the whole stream.
\<close>

theorem rpc_chunk_independent:
  "parse_packets (xs @ ys) =
     (fst (parse_packets xs) @ fst (parse_packets (snd (parse_packets xs) @ ys)),
      snd (parse_packets (snd (parse_packets xs) @ ys)))"
  by (subst parse_append) (simp add: case_prod_unfold Let_def)

text \<open>
  The 16-bit size field.  A call whose serialized size is 65536 bytes or more is queued whole,
  without an error, behind a header announcing only the size modulo 65536: the receiver gets a call
  cut to that length, and parses the rest of the call's own bytes as packet headers.
\<close>

theorem rpc_large_call_desynchronises:
  fixes s :: "'d rpc_conn"
  assumes "waitable_io D dev_ok sent received" and "io_inv D dev_ok s" and "rf_ok f"
    and "rc_async_call D f s = (r, t)" and n: "65536 \<le> length (rf_bytes f)"
  shows "sent (io_dev t) @ bq_bytes (io_out t) =
           sent (io_dev s) @ bq_bytes (io_out s) @ frame (packet_async_call, rf_bytes f) \<and>
         parse_packets (frame (packet_async_call, rf_bytes f)) =
           (let k = length (rf_bytes f) mod 65536; (ps, rest) = parse_packets (drop k (rf_bytes f))
            in ((packet_async_call, take k (rf_bytes f)) # ps, rest))"
proof -
  let ?b = "rf_bytes f" and ?k = "length (rf_bytes f) mod 65536"
  have h: "header_bytes (length ?b) packet_async_call = header_bytes (length (take ?k ?b)) packet_async_call"
    by (simp add: header_bytes_mod)
  have "frame (packet_async_call, ?b) = frame (packet_async_call, take ?k ?b) @ drop ?k ?b"
    using h by (simp add: frame_def)
  moreover have "?k < 65536" by simp
  then have "fits_frame (packet_async_call, take ?k ?b)"
    unfolding fits_frame_def packet_async_call_def length_take by (simp only: fst_conv snd_conv min_less_iff_disj) simp
  ultimately show ?thesis
    using waitable_io.rc_async_call_spec [OF assms(1-4)] parse_frame by (simp add: Let_def)
qed

theorem rpc_large_call_desynchronises_witness:
  "parse_packets (frame (packet_async_call, replicate 65538 3)) =
     (let (ps, rest) = parse_packets (drop 2 (replicate 65538 3))
      in ((packet_async_call, [3, 3]) # ps, rest))"
proof -
  let ?f = "\<lparr>rf_buffer = bq_append_copy (replicate 65538 3) bq_new\<rparr>"
  let ?D = "socket_device sk_recv sk_send"
  have f: "rf_ok ?f" "rf_bytes ?f = replicate 65538 3" by (simp_all add: rf_ok_def rf_bytes_def)
  have inv: "io_inv ?D (\<lambda>_. True) (sample_conn [] [])" using sample_conn_fresh by (simp add: rc_fresh_def)
  obtain r t where c: "rc_async_call ?D ?f (sample_conn [] []) = (r, t)"
    by (cases "rc_async_call ?D ?f (sample_conn [] [])")
  have "65536 \<le> length (rf_bytes ?f)" by (simp add: f(2))
  note L = rpc_large_call_desynchronises [OF sk.sock.waitable_io_axioms inv f(1) c this]
  have "take 2 (replicate 65538 3) = [3, 3 :: byte]" by (simp add: numeral_2_eq_2)
  with L show ?thesis unfolding f(2) by (simp add: Let_def)
qed

text \<open>
  A call on a closed connection throws \<open>AsyncCallFailed\<close>, but only after its frame was put in
  the output stream, where it stays: a later successful \<open>FeedOutput\<close> would send it.
\<close>

theorem rpc_call_on_closed_stays_queued:
  fixes s :: "'d rpc_conn"
  assumes "waitable_io D dev_ok sent received" and "io_inv D dev_ok s" and "rf_ok f"
    and "\<not> io_opened s" and "rc_async_call D f s = (r, t)"
  shows "r = Inl AsyncCallFailed \<and> \<not> io_opened t \<and> io_dev t = io_dev s \<and>
         bq_bytes (io_out t) = bq_bytes (io_out s) @ frame (packet_async_call, rf_bytes f)"
proof -
  let ?c = "bq_append_unmanaged (rf_bytes f) BufferDeleterFree 0 bq_new"
  have "rf_serialize f = Inr ?c"
    using assms(3) by (simp add: rf_serialize_def bq_copy_def bq_append_copy_from_bytes rf_ok_def rf_bytes_def)
  with assms(4,5) show ?thesis
    by (auto simp: rc_async_call_def rc_append_out_def thenP_def bindP_def modifyP_def catchP_def
        io_feed_output_def raise_def frame_def)
qed

theorem rpc_call_on_closed_stays_queued_witness:
  "\<exists>s t. rc_async_call (socket_device sk_recv sk_send) sample_call s = (Inl AsyncCallFailed, t) \<and>
     bq_bytes (io_out t) = bq_bytes (io_out s) @ frame (packet_async_call, rf_bytes sample_call)"
proof -
  let ?D = "socket_device sk_recv sk_send"
  have "io_inv ?D (\<lambda>_. True) (sample_conn [] [])" using sample_conn_fresh by (simp add: rc_fresh_def)
  from io_close_step [OF this] obtain s :: "script_kernel sock_dev rpc_conn"
    where s: "io_inv ?D (\<lambda>_. True) s" "\<not> io_opened s" by blast
  have f: "rf_ok sample_call" by (simp add: sample_call_def)
  obtain r t where c: "rc_async_call ?D sample_call s = (r, t)" by (cases "rc_async_call ?D sample_call s")
  from rpc_call_on_closed_stays_queued [OF sk.sock.waitable_io_axioms s(1) f s(2) c] c
  show ?thesis by blast
qed

end
