(* ===== verification/StringTools.thy ===== *)
theory StringTools
  imports Prelude
begin

text \<open>
  \<open>DPL::String\<close> and the parts of modules/core/include/dpl/string.h and
  modules/core/src/string.cpp that other modules use.  A string is the list of its character
  codes; \<open>npos\<close> is \<open>None\<close>.
\<close>

type_synonym wstr = "nat list"

text \<open>The codes of an ASCII literal.\<close>

definition W :: "string \<Rightarrow> wstr" where
  "W s = map of_char s"

definition find_from :: "(nat \<Rightarrow> bool) \<Rightarrow> wstr \<Rightarrow> nat \<Rightarrow> nat option" where
  "find_from p str start = List.find (\<lambda>i. p (str ! i)) [start..<length str]"

lemma find_from_Some:
  "find_from p str start = Some i \<Longrightarrow>
     start \<le> i \<and> i < length str \<and> p (str ! i) \<and> (\<forall>j. start \<le> j \<and> j < i \<longrightarrow> \<not> p (str ! j))"
  by (auto simp: find_from_def find_Some_iff) (metis add_diff_cancel_left' le_add_diff_inverse nat_add_left_cancel_less nth_upt)

lemma find_from_None:
  "find_from p str start = None \<longleftrightarrow> (\<forall>i. start \<le> i \<and> i < length str \<longrightarrow> \<not> p (str ! i))"
  by (auto simp: find_from_def find_None_iff)

section \<open>Tokenize\<close>

function tokenize_loop :: "(nat \<Rightarrow> bool) \<Rightarrow> bool \<Rightarrow> wstr \<Rightarrow> nat \<Rightarrow> wstr list" where
  "tokenize_loop delim ignoreEmpty str nextSearchStart =
     (let pos = find_from delim str nextSearchStart;
          len = (case pos of None \<Rightarrow> length str | Some p \<Rightarrow> p) - nextSearchStart;
          found = (if \<not> ignoreEmpty \<or> len > 0 then [take len (drop nextSearchStart str)] else [])
      in case pos of
           None \<Rightarrow> found
         | Some p \<Rightarrow> found @ tokenize_loop delim ignoreEmpty str (Suc p))"
  by pat_completeness auto
termination
  by (relation "measure (\<lambda>(d, e, str, n). Suc (length str) - n)")
    (auto dest!: find_from_Some [OF sym] find_from_Some)

declare tokenize_loop.simps [simp del]

definition tokenize :: "(nat \<Rightarrow> bool) \<Rightarrow> bool \<Rightarrow> wstr \<Rightarrow> wstr list" where
  "tokenize delim ignoreEmpty str = tokenize_loop delim ignoreEmpty str 0"

text \<open>Joining with one delimiter character.\<close>

fun join :: "nat \<Rightarrow> wstr list \<Rightarrow> wstr" where
  "join d [] = []"
| "join d [t] = t"
| "join d (t # ts) = t @ d # join d ts"

lemma join_Cons: "ts \<noteq> [] \<Longrightarrow> join d (t # ts) = t @ d # join d ts"
  by (cases ts) auto

lemma tokenize_loop_nonempty: "tokenize_loop delim False str n \<noteq> []"
  by (simp add: tokenize_loop.simps [of delim False str n] Let_def split: option.split)

lemma tokenize_loop_None:
  "find_from delim str n = None \<Longrightarrow> tokenize_loop delim False str n = [drop n str]"
  by (simp add: tokenize_loop.simps [of delim False str n] Let_def)

lemma tokenize_loop_Some:
  "find_from delim str n = Some p \<Longrightarrow>
     tokenize_loop delim False str n = take (p - n) (drop n str) # tokenize_loop delim False str (Suc p)"
  by (simp add: tokenize_loop.simps [of delim False str n] Let_def)

lemma tokenize_loop_spec:
  "n \<le> length str \<Longrightarrow>
     join d (tokenize_loop (\<lambda>c. c = d) False str n) = drop n str \<and>
     (\<forall>t \<in> set (tokenize_loop (\<lambda>c. c = d) False str n). d \<notin> set t)"
proof (induction "length str - n" arbitrary: n rule: less_induct)
  case less
  show ?case
  proof (cases "find_from (\<lambda>c. c = d) str n")
    case None
    then have "d \<notin> set (drop n str)"
      using less.prems by (auto simp: find_from_None in_set_conv_nth add.commute)
    then show ?thesis by (simp add: tokenize_loop_None [OF None])
  next
    case (Some p)
    note p = find_from_Some [OF Some]
    have IH: "join d (tokenize_loop (\<lambda>c. c = d) False str (Suc p)) = drop (Suc p) str"
      "\<forall>t \<in> set (tokenize_loop (\<lambda>c. c = d) False str (Suc p)). d \<notin> set t"
      using less.hyps [of "Suc p"] p by auto
    have "drop n str = take (p - n) (drop n str) @ drop (p - n) (drop n str)"
      by (rule append_take_drop_id [symmetric])
    also have "drop (p - n) (drop n str) = str ! p # drop (Suc p) str"
      using p Cons_nth_drop_Suc [of p str] by simp
    finally have split: "drop n str = take (p - n) (drop n str) @ d # drop (Suc p) str"
      using p by simp
    have "d \<notin> set (take (p - n) (drop n str))"
      using p by (auto simp: in_set_conv_nth add.commute less_diff_conv)
    with IH split show ?thesis
      by (simp add: tokenize_loop_Some [OF Some] join_Cons tokenize_loop_nonempty)
  qed
qed

lemma tokenize_spec:
  "join d (tokenize (\<lambda>c. c = d) False str) = str"
  "t \<in> set (tokenize (\<lambda>c. c = d) False str) \<Longrightarrow> d \<notin> set t"
  using tokenize_loop_spec [of 0 str d] by (simp_all add: tokenize_def)

text \<open>The tokens are the only delimiter-free pieces that join to the string.\<close>

lemma takeWhile_mark: "d \<notin> set t \<Longrightarrow> takeWhile (\<lambda>c. c \<noteq> d) (t @ d # x) = t"
  by (induction t) auto

lemma mark_inject:
  assumes "t @ d # x = u @ d # y" and "d \<notin> set t" and "d \<notin> set u"
  shows "t = u \<and> x = y"
proof -
  have "t = u"
    using takeWhile_mark [OF assms(2), of x] takeWhile_mark [OF assms(3), of y] assms(1) by simp
  with assms(1) show ?thesis by simp
qed

lemma join_mem: "us \<noteq> [] \<Longrightarrow> d \<notin> set (join d us) \<Longrightarrow> \<exists>u. us = [u]"
  by (cases us rule: remdups_adj.cases) auto

lemma join_inject:
  "join d ts = join d us \<Longrightarrow> ts \<noteq> [] \<Longrightarrow> us \<noteq> [] \<Longrightarrow> \<forall>t \<in> set ts. d \<notin> set t \<Longrightarrow>
   \<forall>u \<in> set us. d \<notin> set u \<Longrightarrow> ts = us"
proof (induction d ts arbitrary: us rule: join.induct)
  case (1 d)
  then show ?case by simp
next
  case (2 d t)
  then have "d \<notin> set (join d us)" by auto
  with 2 obtain u where "us = [u]" using join_mem by blast
  with 2 show ?case by simp
next
  case (3 d t t' ts)
  have "d \<in> set (join d us)" using "3.prems"(1) [symmetric] by simp
  then obtain u u' us'' where us: "us = u # u' # us''"
    using "3.prems" by (cases us rule: remdups_adj.cases) auto
  have "t = u \<and> join d (t' # ts) = join d (u' # us'')"
    by (rule mark_inject [of _ d]) (use "3.prems" us in auto)
  with "3.IH" [of "u' # us''"] "3.prems" us show ?case by auto
qed

lemma tokenize_join:
  assumes "ts \<noteq> []" and "\<forall>t \<in> set ts. d \<notin> set t"
  shows "tokenize (\<lambda>c. c = d) False (join d ts) = ts"
proof (rule join_inject [of d])
  show "tokenize (\<lambda>c. c = d) False (join d ts) \<noteq> []"
    by (simp add: tokenize_def tokenize_loop_nonempty)
qed (use assms tokenize_spec in auto)

section \<open>Conversions\<close>

text \<open>\<open>FromASCIIString\<close> rejects a NUL and everything above 127 (\<open>char\<close> is signed).\<close>

fun from_ascii :: "nat list \<Rightarrow> wstr res" where
  "from_ascii s = (if \<forall>c \<in> set s. 0 < c \<and> c < 128 then Inr s else Inl InvalidASCIICharacter)"

end
