(* ===== verification/WidgetVersion.thy ===== *)
theory WidgetVersion
  imports StringTools
begin

text \<open>
  \<open>WidgetVersion\<close> (modules/utils/src/widget_version.cpp): parsing, certification and comparison of
  the WAC version strings of the header's requirement WL-3371.
\<close>

section \<open>Characters and numbers\<close>

definition is_alpha :: "nat \<Rightarrow> bool" where
  "is_alpha c \<longleftrightarrow> (c \<ge> 0x41 \<and> c \<le> 0x5A) \<or> (c \<ge> 0x61 \<and> c \<le> 0x7A)"

definition is_digit :: "nat \<Rightarrow> bool" where
  "is_digit c \<longleftrightarrow> c \<ge> 0x30 \<and> c \<le> 0x39"

definition is_sp :: "nat \<Rightarrow> bool" where
  "is_sp c \<longleftrightarrow> c = 0x20"

definition leading_zero_char :: nat where
  "leading_zero_char = 0x30"

text \<open>The loop of \<open>RemoveLeadingZeroes\<close>: it looks one character ahead.\<close>

function leading_zero_loop :: "wstr \<Rightarrow> nat \<Rightarrow> nat" where
  "leading_zero_loop str pos =
     (if pos + 1 < length str \<and> str ! (pos + 1) = leading_zero_char
      then leading_zero_loop str (pos + 1) else pos)"
  by pat_completeness auto
termination
  by (relation "measure (\<lambda>(str, pos). length str - pos)") auto

declare leading_zero_loop.simps [simp del]

definition remove_leading_zeroes :: "wstr \<Rightarrow> wstr res" where
  "remove_leading_zeroes str =
     (if str = [] then Inl AssertFailed
      else if str ! 0 \<noteq> leading_zero_char then Inr str
      else Inr (drop (leading_zero_loop str 0) str))"

text \<open>The comparison loop runs from the last character to the first.\<close>

primrec number_less_loop :: "nat \<Rightarrow> wstr \<Rightarrow> wstr \<Rightarrow> bool" where
  "number_less_loop 0 left right = False"
| "number_less_loop (Suc i) left right =
     (if left ! i < right ! i then True
      else if left ! i > right ! i then False
      else number_less_loop i left right)"

definition number_less :: "wstr \<Rightarrow> wstr \<Rightarrow> bool" where
  "number_less left right =
     (if length left < length right then True
      else if length left > length right then False
      else number_less_loop (length left) left right)"

definition certify_number :: "wstr \<Rightarrow> bool" where
  "certify_number str \<longleftrightarrow> list_all is_digit str"

definition certify_alnum_space :: "wstr \<Rightarrow> bool" where
  "certify_alnum_space str \<longleftrightarrow> list_all (\<lambda>c. is_digit c \<or> is_alpha c \<or> is_sp c) str"

section \<open>The class\<close>

record widget_version =
  wv_is_wac :: bool
  wv_raw :: wstr
  wv_major :: wstr
  wv_minor :: wstr
  wv_micro :: "wstr option"
  wv_optional :: "wstr option"

definition wv_uncertified :: "wstr \<Rightarrow> widget_version" where
  "wv_uncertified raw =
     \<lparr>wv_is_wac = False, wv_raw = raw, wv_major = [], wv_minor = [], wv_micro = None, wv_optional = None\<rparr>"

definition wac_certify ::
  "wstr \<Rightarrow> wstr \<Rightarrow> wstr option \<Rightarrow> wstr option \<Rightarrow> widget_version \<Rightarrow> widget_version" where
  "wac_certify major minor micro optional v =
     (if major = [] \<or> \<not> certify_number major then v
      else if minor = [] \<or> \<not> certify_number minor then v
      else if (case micro of None \<Rightarrow> False | Some m \<Rightarrow> m = [] \<or> \<not> certify_number m) then v
      else if (case optional of None \<Rightarrow> False | Some p \<Rightarrow> p = [] \<or> \<not> certify_alnum_space p) then v
      else v\<lparr>wv_major := major, wv_minor := minor, wv_micro := micro, wv_optional := optional,
             wv_is_wac := True\<rparr>)"

definition wv_parse :: "wstr \<Rightarrow> widget_version" where
  "wv_parse str =
     (let v = wv_uncertified str;
          (mandatoryPart, optionalPart) =
            (case find_from (\<lambda>c. c = 0x20) str 0 of
               None \<Rightarrow> (str, None)
             | Some p \<Rightarrow> (take p str, Some (drop (p + 1) str)));
          parts = tokenize (\<lambda>c. c = 0x2E) False mandatoryPart
      in if length parts \<noteq> 2 \<and> length parts \<noteq> 3 then v
         else wac_certify (parts ! 0) (parts ! 1)
                (if length parts = 3 then Some (parts ! 2) else None) optionalPart v)"

definition wv_of_parts :: "wstr \<Rightarrow> wstr \<Rightarrow> wstr option \<Rightarrow> wstr option \<Rightarrow> widget_version" where
  "wv_of_parts major minor micro optional =
     wac_certify major minor micro optional
       (wv_uncertified
          (major @ [0x2E] @ minor @ [0x2E] @
           (case micro of None \<Rightarrow> [] | Some m \<Rightarrow> m) @
           (case optional of None \<Rightarrow> [] | Some p \<Rightarrow> 0x20 # p)))"

section \<open>Comparison\<close>

definition num_less :: "wstr \<Rightarrow> wstr \<Rightarrow> bool res" where
  "num_less a b =
     bind_res (remove_leading_zeroes a)
       (\<lambda>x. bind_res (remove_leading_zeroes b) (\<lambda>y. Inr (number_less x y)))"

definition num_eq :: "wstr \<Rightarrow> wstr \<Rightarrow> bool res" where
  "num_eq a b =
     bind_res (remove_leading_zeroes a)
       (\<lambda>x. bind_res (remove_leading_zeroes b) (\<lambda>y. Inr (x = y)))"

definition wv_less :: "widget_version \<Rightarrow> widget_version \<Rightarrow> bool res" where
  "wv_less left right =
     (if \<not> (wv_is_wac left \<and> wv_is_wac right) then Inl AssertFailed
      else bind_res (num_less (wv_major left) (wv_major right)) (\<lambda>b1. if b1 then Inr True
      else bind_res (num_less (wv_major right) (wv_major left)) (\<lambda>b2. if b2 then Inr False
      else bind_res (num_less (wv_minor left) (wv_minor right)) (\<lambda>b3. if b3 then Inr True
      else bind_res (num_less (wv_minor right) (wv_minor left)) (\<lambda>b4. if b4 then Inr False
      else bind_res (case (wv_micro left, wv_micro right) of
                       (Some l, Some r) \<Rightarrow> num_less l r | _ \<Rightarrow> Inr False) (\<lambda>b5. if b5 then Inr True
      else if wv_micro left = None \<and> wv_micro right \<noteq> None then Inr True
      else Inr False))))))"

definition wv_eq :: "widget_version \<Rightarrow> widget_version \<Rightarrow> bool res" where
  "wv_eq left right =
     (if \<not> (wv_is_wac left \<and> wv_is_wac right) then Inl AssertFailed
      else bind_res (num_eq (wv_major left) (wv_major right)) (\<lambda>b1. if \<not> b1 then Inr False
      else bind_res (num_eq (wv_minor left) (wv_minor right)) (\<lambda>b2. if \<not> b2 then Inr False
      else (case (wv_micro left, wv_micro right) of
              (Some l, Some r) \<Rightarrow> num_eq l r
            | (None, None) \<Rightarrow> Inr True
            | _ \<Rightarrow> Inr False))))"

definition wv_le :: "widget_version \<Rightarrow> widget_version \<Rightarrow> bool res" where
  "wv_le left right =
     (if \<not> (wv_is_wac left \<and> wv_is_wac right) then Inl AssertFailed
      else bind_res (wv_eq left right) (\<lambda>b. if b then Inr True else wv_less left right))"

definition wv_gt :: "widget_version \<Rightarrow> widget_version \<Rightarrow> bool res" where
  "wv_gt left right =
     (if \<not> (wv_is_wac left \<and> wv_is_wac right) then Inl AssertFailed
      else bind_res (wv_le left right) (\<lambda>b. Inr (\<not> b)))"

definition wv_ge :: "widget_version \<Rightarrow> widget_version \<Rightarrow> bool res" where
  "wv_ge left right =
     (if \<not> (wv_is_wac left \<and> wv_is_wac right) then Inl AssertFailed
      else bind_res (wv_eq left right) (\<lambda>b. if b then Inr True else wv_gt left right))"

definition wv_ne :: "widget_version \<Rightarrow> widget_version \<Rightarrow> bool res" where
  "wv_ne left right =
     (if \<not> (wv_is_wac left \<and> wv_is_wac right) then Inl AssertFailed
      else bind_res (wv_eq left right) (\<lambda>b. Inr (\<not> b)))"

section \<open>Removing zeroes\<close>

text \<open>One leading zero is kept, whatever follows it.\<close>

lemma leading_zero_loop_spec:
  "pos < length str \<Longrightarrow>
     leading_zero_loop str pos =
       pos + length (takeWhile (\<lambda>c. c = leading_zero_char) (drop (Suc pos) str))"
proof (induction str pos rule: leading_zero_loop.induct)
  case (1 str pos)
  show ?case
  proof (cases "pos + 1 < length str \<and> str ! (pos + 1) = leading_zero_char")
    case True
    then have "drop (Suc pos) str = leading_zero_char # drop (Suc (Suc pos)) str"
      using Cons_nth_drop_Suc [of "Suc pos" str] by simp
    with True 1 show ?thesis by (simp add: leading_zero_loop.simps [of str pos])
  next
    case False
    have "takeWhile (\<lambda>c. c = leading_zero_char) (drop (Suc pos) str) = []"
    proof (cases "Suc pos < length str")
      case True
      with False Cons_nth_drop_Suc [of "Suc pos" str, symmetric] show ?thesis by simp
    qed simp
    with False show ?thesis by (subst leading_zero_loop.simps) auto
  qed
qed

definition strip_zeroes :: "wstr \<Rightarrow> wstr" where
  "strip_zeroes str =
     (if hd str = leading_zero_char
      then leading_zero_char # dropWhile (\<lambda>c. c = leading_zero_char) str else str)"

lemma drop_takeWhile_length: "drop (length (takeWhile p xs)) xs = dropWhile p xs"
  by (induction xs) auto

lemma remove_leading_zeroes_spec:
  "remove_leading_zeroes str = (if str = [] then Inl AssertFailed else Inr (strip_zeroes str))"
proof (cases str)
  case Nil
  then show ?thesis by (simp add: remove_leading_zeroes_def)
next
  case (Cons c cs)
  let ?z = "\<lambda>c. c = leading_zero_char"
  have "drop (length (takeWhile ?z cs)) (c # cs) = c # dropWhile ?z cs" if "c = leading_zero_char"
    using that
  proof (induction cs)
    case Nil
    then show ?case by simp
  next
    case (Cons x xs)
    then show ?case by auto
  qed
  with Cons show ?thesis
    by (simp add: remove_leading_zeroes_def strip_zeroes_def leading_zero_loop_spec)
qed

lemma strip_zeroes_nonempty: "str \<noteq> [] \<Longrightarrow> strip_zeroes str \<noteq> []"
  by (simp add: strip_zeroes_def)

section \<open>The order of the comparison loop\<close>

lemma number_less_loop_iff:
  "number_less_loop n l r \<longleftrightarrow> (\<exists>i < n. l ! i < r ! i \<and> (\<forall>j. i < j \<and> j < n \<longrightarrow> l ! j = r ! j))"
proof (induction n)
  case 0
  then show ?case by simp
next
  case (Suc n)
  have "(\<exists>i < Suc n. l ! i < r ! i \<and> (\<forall>j. i < j \<and> j < Suc n \<longrightarrow> l ! j = r ! j)) \<longleftrightarrow>
      l ! n < r ! n \<or> l ! n = r ! n \<and> (\<exists>i < n. l ! i < r ! i \<and> (\<forall>j. i < j \<and> j < n \<longrightarrow> l ! j = r ! j))"
    by (auto simp: less_Suc_eq)
  with Suc show ?case by auto
qed

lemma number_less_iff:
  "number_less l r \<longleftrightarrow>
     length l < length r \<or>
     length l = length r \<and> (\<exists>i < length l. l ! i < r ! i \<and> (\<forall>j. i < j \<and> j < length l \<longrightarrow> l ! j = r ! j))"
  by (auto simp: number_less_def number_less_loop_iff)

lemma number_less_irrefl: "\<not> number_less a a"
  by (simp add: number_less_iff)

lemma number_less_loop_trans:
  assumes "number_less_loop n a b" and "number_less_loop n b c"
  shows "number_less_loop n a c"
  using assms by (induction n) (auto split: if_splits)

lemma number_less_trans: "number_less a b \<Longrightarrow> number_less b c \<Longrightarrow> number_less a c"
  using number_less_loop_trans [of "length a" a b c]
  by (auto simp: number_less_def split: if_splits)

lemma number_less_loop_total:
  "(\<forall>i < n. l ! i = r ! i) \<or> number_less_loop n l r \<or> number_less_loop n r l"
  by (induction n) (auto simp: less_Suc_eq)

lemma number_less_total: "a = b \<or> number_less a b \<or> number_less b a"
proof (cases "length a = length b")
  case True
  from number_less_loop_total [of "length a" a b] show ?thesis
  proof (elim disjE)
    assume "\<forall>i < length a. a ! i = b ! i"
    with True have "a = b" by (intro nth_equalityI) auto
    then show ?thesis by simp
  qed (use True in \<open>auto simp: number_less_def\<close>)
next
  case False
  then show ?thesis by (auto simp: number_less_def)
qed

text \<open>Read as a numeral with the least significant digit first, it is the numeric order.\<close>

fun num_value :: "wstr \<Rightarrow> nat" where
  "num_value [] = 0"
| "num_value (c # cs) = (c - 0x30) + 10 * num_value cs"

lemma num_value_snoc: "num_value (cs @ [c]) = num_value cs + 10 ^ length cs * (c - 0x30)"
  by (induction cs) (auto simp: algebra_simps)

lemma num_value_bound: "list_all is_digit cs \<Longrightarrow> num_value cs < 10 ^ length cs"
  by (induction cs) (auto simp: is_digit_def)

lemma number_less_loop_value:
  "list_all is_digit l \<Longrightarrow> list_all is_digit r \<Longrightarrow> n \<le> length l \<Longrightarrow> n \<le> length r \<Longrightarrow>
     number_less_loop n l r \<longleftrightarrow> num_value (take n l) < num_value (take n r)"
proof (induction n)
  case 0
  then show ?case by simp
next
  case (Suc n)
  let ?a = "num_value (take n l)" and ?b = "num_value (take n r)"
  let ?x = "l ! n - 0x30" and ?y = "r ! n - 0x30"
  have d: "is_digit (l ! n)" "is_digit (r ! n)"
    using Suc.prems by (auto simp: list_all_length)
  have a: "?a < 10 ^ n" and b: "?b < 10 ^ n"
    using num_value_bound [of "take n l"] num_value_bound [of "take n r"] Suc.prems
    by (auto simp: list_all_iff min_def dest!: in_set_takeD)
  have v: "num_value (take (Suc n) l) = ?a + 10 ^ n * ?x" "num_value (take (Suc n) r) = ?b + 10 ^ n * ?y"
    using Suc.prems by (simp_all add: take_Suc_conv_app_nth num_value_snoc min_def)
  have less: "u + 10 ^ n * x < w + 10 ^ n * y" if "x < y" "u < 10 ^ n" for u w x y :: nat
  proof -
    have "u + 10 ^ n * x < 10 ^ n * Suc x" using that(2) by simp
    also have "\<dots> \<le> 10 ^ n * y" using that(1) by (intro mult_le_mono2) simp
    finally show ?thesis by simp
  qed
  consider "l ! n < r ! n" | "r ! n < l ! n" | "l ! n = r ! n" by linarith
  then show ?case
  proof cases
    case 1
    then have "?x < ?y" using d by (auto simp: is_digit_def)
    from less [OF this a, of ?b] 1 v show ?thesis by simp
  next
    case 2
    then have "?y < ?x" using d by (auto simp: is_digit_def)
    from less [OF this b, of ?a] 2 v show ?thesis by simp
  next
    case 3
    with Suc v show ?thesis by simp
  qed
qed

section \<open>Certified versions\<close>

definition wv_ok :: "widget_version \<Rightarrow> bool" where
  "wv_ok v \<longleftrightarrow>
     wv_major v \<noteq> [] \<and> certify_number (wv_major v) \<and> wv_minor v \<noteq> [] \<and> certify_number (wv_minor v) \<and>
     (\<forall>m. wv_micro v = Some m \<longrightarrow> m \<noteq> [] \<and> certify_number m)"

definition parts_ok :: "wstr \<Rightarrow> wstr \<Rightarrow> wstr option \<Rightarrow> wstr option \<Rightarrow> bool" where
  "parts_ok major minor micro optional \<longleftrightarrow>
     major \<noteq> [] \<and> certify_number major \<and> minor \<noteq> [] \<and> certify_number minor \<and>
     (\<forall>m. micro = Some m \<longrightarrow> m \<noteq> [] \<and> certify_number m) \<and>
     (\<forall>p. optional = Some p \<longrightarrow> p \<noteq> [] \<and> certify_alnum_space p)"

lemma wac_certify_spec:
  "wac_certify major minor micro optional v =
     (if parts_ok major minor micro optional
      then v\<lparr>wv_major := major, wv_minor := minor, wv_micro := micro, wv_optional := optional,
             wv_is_wac := True\<rparr>
      else v)"
  by (auto simp: wac_certify_def parts_ok_def split: option.splits)

definition wv_certified :: "wstr \<Rightarrow> wstr \<Rightarrow> wstr \<Rightarrow> wstr option \<Rightarrow> wstr option \<Rightarrow> widget_version" where
  "wv_certified raw major minor micro optional =
     \<lparr>wv_is_wac = True, wv_raw = raw, wv_major = major, wv_minor = minor, wv_micro = micro,
      wv_optional = optional\<rparr>"

lemma wac_certify_uncertified:
  "wac_certify major minor micro optional (wv_uncertified raw) =
     (if parts_ok major minor micro optional then wv_certified raw major minor micro optional
      else wv_uncertified raw)"
  by (simp add: wac_certify_spec wv_uncertified_def wv_certified_def)

text \<open>The grammar: major "." minor [ "." micro ] [ " " optional ].\<close>

definition render_mandatory :: "wstr \<Rightarrow> wstr \<Rightarrow> wstr option \<Rightarrow> wstr" where
  "render_mandatory major minor micro =
     major @ 0x2E # minor @ (case micro of None \<Rightarrow> [] | Some m \<Rightarrow> 0x2E # m)"

definition render_optional :: "wstr option \<Rightarrow> wstr" where
  "render_optional optional = (case optional of None \<Rightarrow> [] | Some p \<Rightarrow> 0x20 # p)"

definition split_space :: "wstr \<Rightarrow> wstr \<times> wstr option" where
  "split_space str =
     (case find_from (\<lambda>c. c = 0x20) str 0 of
        None \<Rightarrow> (str, None) | Some p \<Rightarrow> (take p str, Some (drop (p + 1) str)))"

lemma split_space_spec:
  "split_space str = (M, optional) \<longleftrightarrow> str = M @ render_optional optional \<and> 0x20 \<notin> set M"
proof (cases "find_from (\<lambda>c. c = 0x20) str 0")
  case None
  then have "0x20 \<notin> set str" by (auto simp: find_from_None in_set_conv_nth)
  with None show ?thesis
    by (cases optional) (auto simp: split_space_def render_optional_def)
next
  case (Some p)
  note p = find_from_Some [OF Some]
  have eq: "str = take p str @ 0x20 # drop (p + 1) str"
    using p id_take_nth_drop [of p str] by simp
  have free: "0x20 \<notin> set (take p str)" using p by (auto simp: in_set_conv_nth)
  show ?thesis
  proof
    assume "split_space str = (M, optional)"
    with Some eq free show "str = M @ render_optional optional \<and> 0x20 \<notin> set M"
      by (auto simp: split_space_def render_optional_def)
  next
    assume a: "str = M @ render_optional optional \<and> 0x20 \<notin> set M"
    show "split_space str = (M, optional)"
    proof (cases optional)
      case None
      with a have "0x20 \<notin> set str" by (simp add: render_optional_def)
      moreover have "0x20 \<in> set str" by (subst eq) simp
      ultimately show ?thesis by simp
    next
      case (Some q)
      have "str = M @ 0x20 # q" using a Some by (simp add: render_optional_def)
      then have "take p str @ 0x20 # drop (p + 1) str = M @ 0x20 # q" using eq by (rule trans [OF sym, rotated])
      then have "take p str = M \<and> drop (p + 1) str = q"
        by (rule mark_inject) (use a free in simp_all)
      with Some \<open>find_from (\<lambda>c. c = 0x20) str 0 = Some p\<close> show ?thesis by (simp add: split_space_def)
    qed
  qed
qed

lemma wv_parse_split:
  "wv_parse str =
     (let (M, optional) = split_space str; parts = tokenize (\<lambda>c. c = 0x2E) False M
      in if length parts \<noteq> 2 \<and> length parts \<noteq> 3 then wv_uncertified str
         else wac_certify (parts ! 0) (parts ! 1)
                (if length parts = 3 then Some (parts ! 2) else None) optional (wv_uncertified str))"
  by (simp add: wv_parse_def split_space_def Let_def split: option.split)

lemma certified_chars:
  "certify_number str \<Longrightarrow> 0x2E \<notin> set str \<and> 0x20 \<notin> set str"
  by (auto simp: certify_number_def list_all_iff is_digit_def)

lemma render_mandatory_join:
  "render_mandatory major minor micro =
     join 0x2E (major # minor # (case micro of None \<Rightarrow> [] | Some m \<Rightarrow> [m]))"
  by (simp add: render_mandatory_def split: option.split)

lemma wv_parse_render:
  assumes ok: "parts_ok major minor micro optional"
    and str: "str = render_mandatory major minor micro @ render_optional optional"
  shows "wv_parse str = wv_certified str major minor micro optional"
proof -
  let ?ts = "major # minor # (case micro of None \<Rightarrow> [] | Some m \<Rightarrow> [m])"
  have ts: "\<forall>t \<in> set ?ts. 0x2E \<notin> set t \<and> 0x20 \<notin> set t"
    using ok certified_chars by (auto simp: parts_ok_def split: option.splits)
  have "0x20 \<notin> set (render_mandatory major minor micro)"
    using ts by (auto simp: render_mandatory_def split: option.splits)
  with str have "split_space str = (render_mandatory major minor micro, optional)"
    by (simp add: split_space_spec)
  moreover have "tokenize (\<lambda>c. c = 0x2E) False (render_mandatory major minor micro) = ?ts"
    unfolding render_mandatory_join by (rule tokenize_join) (use ts in auto)
  ultimately show ?thesis
    using ok by (cases micro) (simp_all add: wv_parse_split wac_certify_uncertified)
qed

lemma wv_parse_cases:
  obtains (none) "wv_parse str = wv_uncertified str"
  | (wac) major minor micro optional where "parts_ok major minor micro optional"
      and "str = render_mandatory major minor micro @ render_optional optional"
      and "wv_parse str = wv_certified str major minor micro optional"
proof -
  obtain M optional where s: "split_space str = (M, optional)" by (cases "split_space str")
  then have str: "str = M @ render_optional optional" by (simp add: split_space_spec)
  let ?ts = "tokenize (\<lambda>c. c = 0x2E) False M"
  have M: "join 0x2E ?ts = M" by (rule tokenize_spec)
  consider (two) "length ?ts = 2" | (three) "length ?ts = 3" | (other) "length ?ts \<noteq> 2" "length ?ts \<noteq> 3"
    by blast
  then show thesis
  proof cases
    case two
    then obtain a b where ts: "?ts = [a, b]" by (auto simp: numeral_2_eq_2 length_Suc_conv)
    have P: "wv_parse str = wac_certify a b None optional (wv_uncertified str)"
      by (simp add: wv_parse_split s ts)
    have "M = render_mandatory a b None" using M by (simp add: ts render_mandatory_def)
    with P str that show thesis by (auto simp: wac_certify_uncertified split: if_splits)
  next
    case three
    then obtain a b c where ts: "?ts = [a, b, c]" by (auto simp: numeral_3_eq_3 length_Suc_conv)
    have P: "wv_parse str = wac_certify a b (Some c) optional (wv_uncertified str)"
      by (simp add: wv_parse_split s ts)
    have "M = render_mandatory a b (Some c)" using M by (simp add: ts render_mandatory_def)
    with P str that show thesis by (auto simp: wac_certify_uncertified split: if_splits)
  next
    case other
    then have "wv_parse str = wv_uncertified str" by (simp add: wv_parse_split s)
    then show thesis by (rule none)
  qed
qed

lemma wv_parse_ok: "wv_is_wac (wv_parse str) \<Longrightarrow> wv_ok (wv_parse str)"
  by (rule wv_parse_cases [of str])
    (simp_all add: wv_uncertified_def wv_certified_def wv_ok_def parts_ok_def)

text \<open>The comparison operators on the keys they look at.\<close>

definition micro_less :: "wstr option \<Rightarrow> wstr option \<Rightarrow> bool" where
  "micro_less l r =
     (case (l, r) of (None, Some _) \<Rightarrow> True | (Some x, Some y) \<Rightarrow> number_less x y | _ \<Rightarrow> False)"

definition key_less :: "wstr \<times> wstr \<times> wstr option \<Rightarrow> wstr \<times> wstr \<times> wstr option \<Rightarrow> bool" where
  "key_less k l \<longleftrightarrow>
     number_less (fst k) (fst l) \<or> fst k = fst l \<and>
       (number_less (fst (snd k)) (fst (snd l)) \<or> fst (snd k) = fst (snd l) \<and>
          micro_less (snd (snd k)) (snd (snd l)))"

definition wv_key :: "widget_version \<Rightarrow> wstr \<times> wstr \<times> wstr option" where
  "wv_key v = (strip_zeroes (wv_major v), strip_zeroes (wv_minor v), map_option strip_zeroes (wv_micro v))"

lemma num_ops:
  "a \<noteq> [] \<Longrightarrow> b \<noteq> [] \<Longrightarrow> num_less a b = Inr (number_less (strip_zeroes a) (strip_zeroes b))"
  "a \<noteq> [] \<Longrightarrow> b \<noteq> [] \<Longrightarrow> num_eq a b = Inr (strip_zeroes a = strip_zeroes b)"
  by (simp_all add: num_less_def num_eq_def remove_leading_zeroes_spec)

lemma wv_less_key:
  assumes "wv_is_wac l" and "wv_is_wac r" and "wv_ok l" and "wv_ok r"
  shows "wv_less l r = Inr (key_less (wv_key l) (wv_key r))"
  using assms number_less_total [of "strip_zeroes (wv_major l)" "strip_zeroes (wv_major r)"]
    number_less_total [of "strip_zeroes (wv_minor l)" "strip_zeroes (wv_minor r)"]
    number_less_trans number_less_irrefl
  by (auto simp: wv_less_def wv_ok_def num_ops key_less_def wv_key_def micro_less_def
      split: option.splits)

lemma wv_eq_key:
  assumes "wv_is_wac l" and "wv_is_wac r" and "wv_ok l" and "wv_ok r"
  shows "wv_eq l r = Inr (wv_key l = wv_key r)"
  using assms by (auto simp: wv_eq_def wv_ok_def num_ops wv_key_def split: option.splits)

lemma micro_less_order:
  "\<not> micro_less a a" "micro_less a b \<Longrightarrow> micro_less b c \<Longrightarrow> micro_less a c"
  "a = b \<or> micro_less a b \<or> micro_less b a"
  using number_less_irrefl number_less_trans number_less_total
  by (auto simp: micro_less_def split: option.splits)

lemma key_less_irrefl: "\<not> key_less k k"
  by (simp add: key_less_def number_less_irrefl micro_less_order)

lemma key_less_trans: "key_less k l \<Longrightarrow> key_less l m \<Longrightarrow> key_less k m"
  by (cases k; cases l; cases m)
    (auto simp: key_less_def intro: number_less_trans micro_less_order(2))

lemma key_less_total: "k = l \<or> key_less k l \<or> key_less l k"
  using number_less_total [of "fst k" "fst l"] number_less_total [of "fst (snd k)" "fst (snd l)"]
    micro_less_order(3) [of "snd (snd k)" "snd (snd l)"]
  by (cases k; cases l) (auto simp: key_less_def)

section \<open>Properties\<close>


text \<open>
  On certified versions the six comparison operators are coherent: none asserts, exactly one of
  less, equal and greater holds, the other operators are what these three say, and less is
  transitive.
\<close>

theorem version_order_total:
  assumes "wv_is_wac (wv_parse a)" and "wv_is_wac (wv_parse b)" and "wv_is_wac (wv_parse c)"
  shows "(\<exists>l e g. wv_less (wv_parse a) (wv_parse b) = Inr l \<and> wv_eq (wv_parse a) (wv_parse b) = Inr e \<and>
            wv_gt (wv_parse a) (wv_parse b) = Inr g \<and> wv_less (wv_parse b) (wv_parse a) = Inr g \<and>
            (if l then \<not> e \<and> \<not> g else e \<noteq> g) \<and>
            wv_le (wv_parse a) (wv_parse b) = Inr (l \<or> e) \<and>
            wv_ge (wv_parse a) (wv_parse b) = Inr (g \<or> e) \<and>
            wv_ne (wv_parse a) (wv_parse b) = Inr (\<not> e)) \<and>
         (wv_less (wv_parse a) (wv_parse b) = Inr True \<and> wv_less (wv_parse b) (wv_parse c) = Inr True \<longrightarrow>
            wv_less (wv_parse a) (wv_parse c) = Inr True)"
proof -
  let ?k = "\<lambda>x. wv_key (wv_parse x)"
  have less: "wv_less (wv_parse x) (wv_parse y) = Inr (key_less (?k x) (?k y))"
    and eq: "wv_eq (wv_parse x) (wv_parse y) = Inr (?k x = ?k y)"
    if "wv_is_wac (wv_parse x)" "wv_is_wac (wv_parse y)" for x y
    using that wv_less_key wv_eq_key wv_parse_ok by blast+
  have total: "?k a = ?k b \<or> key_less (?k a) (?k b) \<or> key_less (?k b) (?k a)"
    by (rule key_less_total)
  have asym: "\<not> (key_less (?k a) (?k b) \<and> key_less (?k b) (?k a))"
    using key_less_trans key_less_irrefl by blast
  have "key_less (?k a) (?k b) \<Longrightarrow> key_less (?k b) (?k c) \<Longrightarrow> key_less (?k a) (?k c)"
    by (rule key_less_trans)
  then show ?thesis
    using assms total asym key_less_irrefl [of "?k a"]
    by (auto simp: less eq wv_le_def wv_gt_def wv_ge_def wv_ne_def)
qed

theorem version_order_total_witness:
  "wv_less (wv_parse (W ''1.2'')) (wv_parse (W ''1.2.3'')) = Inr True \<and>
   wv_less (wv_parse (W ''1.2.3'')) (wv_parse (W ''2.0 beta'')) = Inr True \<and>
   wv_less (wv_parse (W ''1.2'')) (wv_parse (W ''2.0 beta'')) = Inr True"
proof -
  have wac: "wv_is_wac (wv_parse (W ''1.2''))" "wv_is_wac (wv_parse (W ''1.2.3''))"
    "wv_is_wac (wv_parse (W ''2.0 beta''))" by code_simp+
  have "wv_less (wv_parse (W ''1.2'')) (wv_parse (W ''1.2.3'')) = Inr True"
    "wv_less (wv_parse (W ''1.2.3'')) (wv_parse (W ''2.0 beta'')) = Inr True" by code_simp+
  with version_order_total [OF wac] show ?thesis by blast
qed

text \<open>
  What the number comparison means.  On non-empty strings of digits it compares lengths first (after
  all leading zeroes but one are dropped) and then the values of the digit strings read backwards, the
  last digit being the most significant one.
\<close>

theorem version_number_order:
  assumes "a \<noteq> []" and "b \<noteq> []" and "certify_number a" and "certify_number b"
  shows "num_less a b =
           Inr (length (strip_zeroes a) < length (strip_zeroes b) \<or>
                length (strip_zeroes a) = length (strip_zeroes b) \<and>
                num_value (strip_zeroes a) < num_value (strip_zeroes b))"
proof -
  have "list_all is_digit (strip_zeroes x)" if "certify_number x" for x
    using that
    by (auto simp: strip_zeroes_def certify_number_def list_all_iff leading_zero_char_def is_digit_def
        dest: set_dropWhileD)
  then have "list_all is_digit (strip_zeroes a)" "list_all is_digit (strip_zeroes b)" using assms by auto
  from number_less_loop_value [OF this, of "length (strip_zeroes a)"] show ?thesis
    by (auto simp: num_ops(1) [OF assms(1,2)] number_less_def)
qed

theorem version_number_order_witness:
  "num_less (W ''0021'') (W ''12'') = Inr (length (strip_zeroes (W ''0021'')) < length (strip_zeroes (W ''12'')) \<or>
     length (strip_zeroes (W ''0021'')) = length (strip_zeroes (W ''12'')) \<and>
     num_value (strip_zeroes (W ''0021'')) < num_value (strip_zeroes (W ''12'')))"
proof -
  have "W ''0021'' \<noteq> []" "W ''12'' \<noteq> []" "certify_number (W ''0021'')" "certify_number (W ''12'')"
    by code_simp+
  then show ?thesis by (rule version_number_order)
qed

text \<open>
  Requirement WL-3371 is not met: 1.12 is not less than 1.21 (it is greater), and versions that
  differ only in leading zeroes are different: 1.05 and 1.5 are, and so are 1.005 and 1.5.
\<close>

theorem version_requirement_violated:
  "wv_less (wv_parse (W ''1.12'')) (wv_parse (W ''1.21'')) = Inr False \<and>
   wv_gt (wv_parse (W ''1.12'')) (wv_parse (W ''1.21'')) = Inr True \<and>
   wv_eq (wv_parse (W ''1.05'')) (wv_parse (W ''1.5'')) = Inr False \<and>
   wv_eq (wv_parse (W ''1.005'')) (wv_parse (W ''1.5'')) = Inr False"
  by (intro conjI; code_simp)

text \<open>
  A version built from its parts has a raw string that parses back to the same version when it
  has a micro part; without one the raw string ends in a dot and is not a certified version.
\<close>

theorem version_parts_raw:
  assumes "parts_ok major minor micro optional"
  shows "wv_is_wac (wv_of_parts major minor micro optional) \<and>
         (micro \<noteq> None \<longrightarrow>
            wv_parse (wv_raw (wv_of_parts major minor micro optional)) = wv_of_parts major minor micro optional) \<and>
         (micro = None \<longrightarrow> \<not> wv_is_wac (wv_parse (wv_raw (wv_of_parts major minor micro optional))))"
proof -
  let ?m = "case micro of None \<Rightarrow> [] | Some m \<Rightarrow> m"
  let ?raw = "render_mandatory major minor (Some ?m) @ render_optional optional"
  have v: "wv_of_parts major minor micro optional = wv_certified ?raw major minor micro optional"
    using assms
    by (simp add: wv_of_parts_def wac_certify_uncertified render_mandatory_def render_optional_def
        split: option.split)
  moreover have "wv_parse ?raw = wv_certified ?raw major minor micro optional" if "micro \<noteq> None"
    by (rule wv_parse_render) (use assms that in auto)
  moreover have "\<not> wv_is_wac (wv_parse ?raw)" if none: "micro = None"
  proof -
    have chars: "0x2E \<notin> set major" "0x2E \<notin> set minor" "0x20 \<notin> set major" "0x20 \<notin> set minor"
      using assms certified_chars by (auto simp: parts_ok_def)
    have "split_space ?raw = (render_mandatory major minor (Some []), optional)"
      using chars none by (simp add: split_space_spec render_mandatory_def)
    moreover have "tokenize (\<lambda>c. c = 0x2E) False (render_mandatory major minor (Some [])) = [major, minor, []]"
      using tokenize_join [where ts = "[major, minor, []]" and d = "0x2E"] chars by (simp add: render_mandatory_join)
    ultimately show ?thesis
      using none by (simp add: wv_parse_split wac_certify_spec parts_ok_def wv_uncertified_def)
  qed
  moreover have "wv_raw (wv_certified ?raw major minor micro optional) = ?raw"
    "wv_is_wac (wv_certified ?raw major minor micro optional)"
    by (simp_all add: wv_certified_def)
  ultimately show ?thesis by metis
qed

theorem version_parts_raw_witness:
  "\<not> wv_is_wac (wv_parse (wv_raw (wv_of_parts (W ''1'') (W ''0'') None None)))"
proof -
  have "parts_ok (W ''1'') (W ''0'') None None"
    by (simp add: parts_ok_def W_def certify_number_def is_digit_def)
  from version_parts_raw [OF this] show ?thesis by simp
qed

end
