(* ===== verification/WarpIRI.thy ===== *)
theory WarpIRI
  imports StringTools "HOL-Library.Sublist"
begin

text \<open>
  \<open>WarpIRI\<close> (modules/utils/src/warp_iri.cpp): the access definitions of the widget access request
  policy and the test that a requested address falls under one.  The IRI parser (\<open>iri_parse\<close>),
  libidn, the UTF-8 conversion and \<open>StringCompare\<close> (ICU) are parameters.
\<close>

record iri_struct =
  iri_scheme :: "nat list option"
  iri_user :: "nat list option"
  iri_host :: "nat list option"
  iri_port :: nat
  iri_path :: "nat list option"
  iri_query :: "nat list option"
  iri_anchor :: "nat list option"

record warp_env =
  env_iri_parse :: "nat list \<Rightarrow> iri_struct option"
  env_idna :: "nat list \<Rightarrow> nat list option"
  env_from_utf8 :: "nat list \<Rightarrow> wstr"
  env_to_utf8 :: "wstr \<Rightarrow> nat list"
  env_string_compare :: "wstr \<Rightarrow> wstr \<Rightarrow> int"

record warp_iri =
  wi_domain :: bool
  wi_host :: "wstr list"
  wi_schema :: wstr
  wi_port :: nat
  wi_access :: bool
  wi_valid :: bool

definition unknown_port :: nat where
  "unknown_port = 0"

definition schema_http :: wstr where
  "schema_http = W ''http''"

definition schema_https :: wstr where
  "schema_https = W ''https''"

definition schema_ftp :: wstr where
  "schema_ftp = W ''ftp''"

definition wi_new :: warp_iri where
  "wi_new = \<lparr>wi_domain = False, wi_host = [], wi_schema = [], wi_port = unknown_port,
             wi_access = False, wi_valid = False\<rparr>"

definition wi_get_port :: "wstr \<Rightarrow> nat" where
  "wi_get_port schema =
     (if schema = schema_http then 80
      else if schema = schema_https then 443
      else if schema = schema_ftp then 21
      else unknown_port)"

text \<open>\<open>tolower\<close> of the C locale.\<close>

definition to_lower :: "nat \<Rightarrow> nat" where
  "to_lower c = (if 0x41 \<le> c \<and> c \<le> 0x5A then c + 0x20 else c)"

text \<open>The host labels, last label first, pushed one by one.\<close>

primrec wi_push_idna :: "warp_env \<Rightarrow> nat list list \<Rightarrow> warp_iri \<Rightarrow> warp_iri" where
  "wi_push_idna E [] w = w"
| "wi_push_idna E (i # is) w =
     wi_push_idna E is
       (case env_idna E i of
          None \<Rightarrow> w\<lparr>wi_valid := False, wi_access := False\<rparr>
        | Some output \<Rightarrow> w\<lparr>wi_host := wi_host w @ [env_from_utf8 E (map to_lower output)]\<rparr>)"

primrec wi_push_plain :: "warp_env \<Rightarrow> nat list list \<Rightarrow> warp_iri \<Rightarrow> warp_iri" where
  "wi_push_plain E [] w = w"
| "wi_push_plain E (i # is) w =
     wi_push_plain E is (w\<lparr>wi_host := wi_host w @ [env_from_utf8 E i]\<rparr>)"

definition wi_push_hosts :: "warp_env \<Rightarrow> nat list \<Rightarrow> (warp_iri, unit) prog" where
  "wi_push_hosts E host = modifyP (\<lambda>w.
     let hostTokenList = rev (tokenize (\<lambda>c. c = 0x2E) False host)
     in if schema_http = wi_schema w \<or> schema_https = wi_schema w
        then wi_push_idna E hostTokenList w else wi_push_plain E hostTokenList w)"

definition wi_set_parsed :: "warp_env \<Rightarrow> iri_struct \<Rightarrow> nat list \<Rightarrow> nat list \<Rightarrow> (warp_iri, unit) prog" where
  "wi_set_parsed E iri scheme host =
     thenP (modifyP (\<lambda>w. if iri_user iri \<noteq> None \<or> iri_path iri \<noteq> None \<or> iri_query iri \<noteq> None \<or>
                            iri_anchor iri \<noteq> None
                         then w\<lparr>wi_access := False\<rparr> else w))
       (case from_ascii scheme of
          Inl e \<Rightarrow> raise e
        | Inr sch \<Rightarrow>
            thenP (modifyP (\<lambda>w. w\<lparr>wi_schema := sch, wi_port := iri_port iri\<rparr>))
              (\<lambda>w.
                 let rest = (case from_ascii host of Inl e \<Rightarrow> raise e | Inr _ \<Rightarrow> wi_push_hosts E host)
                 in if wi_port w = 0
                    then thenP (modifyP (\<lambda>w. w\<lparr>wi_port := wi_get_port (wi_schema w)\<rparr>))
                           (\<lambda>w. if wi_port w = unknown_port
                                then modifyP (\<lambda>w. w\<lparr>wi_access := False\<rparr>) w
                                else rest w) w
                    else rest w))"

definition wi_set :: "warp_env \<Rightarrow> nat list option \<Rightarrow> bool \<Rightarrow> (warp_iri, unit) prog" where
  "wi_set E p_iri domain =
     (case p_iri of
        None \<Rightarrow> modifyP (\<lambda>w. w\<lparr>wi_access := False, wi_valid := False\<rparr>)
      | Some s \<Rightarrow>
          thenP (modifyP (\<lambda>w. w\<lparr>wi_domain := domain, wi_access := True, wi_valid := True, wi_host := []\<rparr>))
            (if s = W ''*'' then ret ()
             else (case env_iri_parse E s of
                     None \<Rightarrow> modifyP (\<lambda>w. w\<lparr>wi_valid := False, wi_access := False\<rparr>)
                   | Some iri \<Rightarrow>
                       (case (iri_scheme iri, iri_host iri) of
                          (Some scheme, Some host) \<Rightarrow> wi_set_parsed E iri scheme host
                        | _ \<Rightarrow> modifyP (\<lambda>w. w\<lparr>wi_valid := False, wi_access := False\<rparr>)))))"

definition wi_set_string :: "warp_env \<Rightarrow> wstr \<Rightarrow> bool \<Rightarrow> (warp_iri, unit) prog" where
  "wi_set_string E s domain = wi_set E (Some (env_to_utf8 E s)) domain"

fun wi_compare_loop :: "warp_env \<Rightarrow> nat \<Rightarrow> wstr list \<Rightarrow> wstr list \<Rightarrow> bool" where
  "wi_compare_loop E n (x # xs) (y # ys) =
     (case n of 0 \<Rightarrow> True
      | Suc n' \<Rightarrow> if env_string_compare E x y \<noteq> 0 then False else wi_compare_loop E n' xs ys)"
| "wi_compare_loop E n _ _ = True"

definition wi_is_sub_domain :: "warp_env \<Rightarrow> warp_iri \<Rightarrow> warp_iri \<Rightarrow> bool" where
  "wi_is_sub_domain E w second =
     (if \<not> wi_access w \<or> \<not> wi_valid second then False
      else if wi_schema w \<noteq> wi_schema second then False
      else if wi_port w \<noteq> wi_port second then False
      else let size = (if length (wi_host w) < length (wi_host second) then length (wi_host w)
                       else length (wi_host second))
           in if length (wi_host w) > length (wi_host second) then False
              else if \<not> wi_domain w \<and> length (wi_host w) \<noteq> length (wi_host second) then False
              else wi_compare_loop E size (wi_host w) (wi_host second))"

definition ignored_schemes :: "wstr list" where
  "ignored_schemes =
     [W ''file://'', W ''widget://'', W ''tel:'', W ''sms:'', W ''mmsto:'', W ''mailto:'', W ''data:'', W ''blob:'']"

text \<open>\<open>strncmp\<close> over the length of the scheme: a prefix test on strings without NUL.\<close>

definition wi_schema_ignored :: "wstr \<Rightarrow> bool" where
  "wi_schema_ignored iri = list_ex (\<lambda>s. take (length s) iri = s) ignored_schemes"

definition wi_equal :: "warp_iri \<Rightarrow> warp_iri \<Rightarrow> bool" where
  "wi_equal w other \<longleftrightarrow>
     wi_domain w = wi_domain other \<and> wi_host w = wi_host other \<and> wi_schema w = wi_schema other \<and>
     wi_port w = wi_port other \<and> wi_access w = wi_access other \<and> wi_valid w = wi_valid other"

section \<open>Lemmas\<close>

definition compare_ok :: "warp_env \<Rightarrow> bool" where
  "compare_ok E \<longleftrightarrow> (\<forall>x y. env_string_compare E x y = 0 \<longleftrightarrow> x = y)"

lemma wi_compare_loop_prefix:
  "compare_ok E \<Longrightarrow> length xs \<le> length ys \<Longrightarrow> wi_compare_loop E (length xs) xs ys = prefix xs ys"
  by (induction xs arbitrary: ys) (auto simp: compare_ok_def Suc_le_length_iff split: if_splits)

lemma wi_is_sub_domain_iff:
  assumes "compare_ok E"
  shows "wi_is_sub_domain E w second \<longleftrightarrow>
     wi_access w \<and> wi_valid second \<and> wi_schema w = wi_schema second \<and> wi_port w = wi_port second \<and>
     (if wi_domain w then prefix (wi_host w) (wi_host second) else wi_host w = wi_host second)"
proof (cases "length (wi_host w) \<le> length (wi_host second)")
  case True
  have eq: "prefix (wi_host w) (wi_host second) \<longleftrightarrow> wi_host w = wi_host second"
    if "length (wi_host w) = length (wi_host second)"
    using that by (auto simp: prefix_def)
  from True wi_compare_loop_prefix [OF assms True] eq show ?thesis
    by (auto simp: wi_is_sub_domain_def Let_def)
next
  case False
  then show ?thesis by (auto simp: wi_is_sub_domain_def dest: prefix_length_le)
qed

text \<open>The normal form of a host label.\<close>

definition idna_label :: "warp_env \<Rightarrow> nat list \<Rightarrow> wstr" where
  "idna_label E l = env_from_utf8 E (map to_lower (the (env_idna E l)))"

lemma wi_push_idna_ok:
  "\<forall>l \<in> set ls. env_idna E l \<noteq> None \<Longrightarrow>
     wi_push_idna E ls w = w\<lparr>wi_host := wi_host w @ map (idna_label E) ls\<rparr>"
  by (induction ls arbitrary: w) (auto simp: idna_label_def)

lemma wi_push_idna_bad:
  "\<exists>l \<in> set ls. env_idna E l = None \<Longrightarrow>
     \<not> wi_valid (wi_push_idna E ls w) \<and> \<not> wi_access (wi_push_idna E ls w)"
proof (induction ls arbitrary: w)
  case Nil
  then show ?case by simp
next
  case (Cons l ls)
  have keep: "\<not> wi_valid w \<Longrightarrow> \<not> wi_access w \<Longrightarrow>
      \<not> wi_valid (wi_push_idna E ls w) \<and> \<not> wi_access (wi_push_idna E ls w)" for w
    by (induction ls arbitrary: w) (auto split: option.split)
  show ?case
  proof (cases "env_idna E l")
    case None
    with keep [of "w\<lparr>wi_valid := False, wi_access := False\<rparr>"] show ?thesis by simp
  next
    case (Some out)
    with Cons show ?thesis by auto
  qed
qed

definition is_ascii :: "nat list \<Rightarrow> bool" where
  "is_ascii s \<longleftrightarrow> (\<forall>c \<in> set s. 0 < c \<and> c < 128)"

lemma from_ascii_iff: "from_ascii s = (if is_ascii s then Inr s else Inl InvalidASCIICharacter)"
  by (simp add: is_ascii_def)

declare from_ascii.simps [simp del]

definition effective_port :: "wstr \<Rightarrow> nat \<Rightarrow> nat" where
  "effective_port schema port = (if port = 0 then wi_get_port schema else port)"

definition host_labels :: "nat list \<Rightarrow> nat list list" where
  "host_labels host = tokenize (\<lambda>c. c = 0x2E) False host"

text \<open>A web address: http or https, an ASCII host libidn accepts, nothing else.\<close>

definition web_iri :: "warp_env \<Rightarrow> nat list \<Rightarrow> iri_struct \<Rightarrow> nat list \<Rightarrow> nat list \<Rightarrow> bool" where
  "web_iri E s iri scheme host \<longleftrightarrow>
     s \<noteq> W ''*'' \<and> env_iri_parse E s = Some iri \<and> iri_scheme iri = Some scheme \<and>
     iri_host iri = Some host \<and> (scheme = schema_http \<or> scheme = schema_https) \<and> is_ascii host \<and>
     (\<forall>l \<in> set (host_labels host). env_idna E l \<noteq> None)"

definition bare_iri :: "iri_struct \<Rightarrow> bool" where
  "bare_iri iri \<longleftrightarrow> iri_user iri = None \<and> iri_path iri = None \<and> iri_query iri = None \<and> iri_anchor iri = None"

lemma web_schema:
  "scheme = schema_http \<or> scheme = schema_https \<Longrightarrow> is_ascii scheme \<and> wi_get_port scheme \<noteq> unknown_port"
  by (auto simp: is_ascii_def schema_http_def schema_https_def W_def wi_get_port_def unknown_port_def
      schema_ftp_def)

lemma wi_set_web:
  assumes "web_iri E s iri scheme host"
  shows "wi_set E (Some s) domain w =
     (Inr (), \<lparr>wi_domain = domain, wi_host = map (idna_label E) (rev (host_labels host)),
              wi_schema = scheme, wi_port = effective_port scheme (iri_port iri),
              wi_access = bare_iri iri, wi_valid = True\<rparr>)"
proof -
  note a = assms [unfolded web_iri_def]
  from a have sch: "scheme = schema_http \<or> scheme = schema_https" by blast
  have push: "wi_push_hosts E host v = (Inr (), v\<lparr>wi_host := wi_host v @ map (idna_label E) (rev (host_labels host))\<rparr>)"
    if "wi_schema v = scheme" for v
    using a that wi_push_idna_ok [of "rev (host_labels host)" E v] sch
    by (auto simp: wi_push_hosts_def modifyP_def host_labels_def)
  have "wi_set E (Some s) domain w = wi_set_parsed E iri scheme host
      (w\<lparr>wi_domain := domain, wi_access := True, wi_valid := True, wi_host := []\<rparr>)"
    using a by (simp add: wi_set_def thenP_def bindP_def modifyP_def)
  with a web_schema [OF sch] push show ?thesis
    by (auto simp: wi_set_parsed_def thenP_def bindP_def modifyP_def from_ascii_iff bare_iri_def
        effective_port_def Let_def)
qed

section \<open>Properties\<close>

text \<open>
  C34: The access decision for web addresses.  For an access definition and a requested address whose
  hosts are ASCII and accepted by libidn label by label, the request is granted exactly when the
  definition has neither user, path, query nor anchor, the schemes are the same, the ports are
  the same after filling in the scheme's default, and the normalised labels of the requested host
  are those of the definition or, for a definition with subdomains, end with them as whole labels.
\<close>

theorem warp_decision:
  assumes "compare_ok E" and "web_iri E s iri scheme host" and "web_iri E s' iri' scheme' host'"
  shows "wi_is_sub_domain E (snd (wi_set E (Some s) domain w)) (snd (wi_set E (Some s') domain' w')) \<longleftrightarrow>
     bare_iri iri \<and> scheme = scheme' \<and>
     effective_port scheme (iri_port iri) = effective_port scheme' (iri_port iri') \<and>
     (let L = map (idna_label E) (host_labels host); R = map (idna_label E) (host_labels host')
      in if domain then suffix L R else L = R)"
  by (auto simp: wi_is_sub_domain_iff [OF assms(1)] wi_set_web [OF assms(2)] wi_set_web [OF assms(3)]
      suffix_to_prefix rev_map [symmetric] Let_def)

text \<open>A small environment: three addresses, identity for libidn and UTF-8.\<close>

definition sample_iri :: "string \<Rightarrow> nat \<Rightarrow> iri_struct" where
  "sample_iri host port =
     \<lparr>iri_scheme = Some schema_http, iri_user = None, iri_host = Some (W host), iri_port = port,
      iri_path = None, iri_query = None, iri_anchor = None\<rparr>"

definition sample_env :: warp_env where
  "sample_env =
     \<lparr>env_iri_parse = (\<lambda>s. if s = W ''d'' then Some (sample_iri ''example.org'' 0)
                           else if s = W ''s'' then Some (sample_iri ''www.Example.org'' 80)
                           else if s = W ''e'' then Some (sample_iri ''evilexample.org'' 0)
                           else None),
      env_idna = Some, env_from_utf8 = id, env_to_utf8 = id,
      env_string_compare = (\<lambda>x y. if x = y then 0 else 1)\<rparr>"

theorem warp_decision_witness:
  "wi_is_sub_domain sample_env (snd (wi_set sample_env (Some (W ''d'')) True wi_new))
     (snd (wi_set sample_env (Some (W ''s'')) False wi_new)) \<and>
   \<not> wi_is_sub_domain sample_env (snd (wi_set sample_env (Some (W ''d'')) True wi_new))
     (snd (wi_set sample_env (Some (W ''e'')) False wi_new))"
proof -
  have env: "compare_ok sample_env" by (simp add: compare_ok_def sample_env_def)
  have iri: "web_iri sample_env (W ''d'') (sample_iri ''example.org'' 0) schema_http (W ''example.org'')"
    "web_iri sample_env (W ''s'') (sample_iri ''www.Example.org'' 80) schema_http (W ''www.Example.org'')"
    "web_iri sample_env (W ''e'') (sample_iri ''evilexample.org'' 0) schema_http (W ''evilexample.org'')"
    by (simp_all add: web_iri_def sample_env_def sample_iri_def is_ascii_def W_def)
  have "suffix (map (idna_label sample_env) (host_labels (W ''example.org'')))
          (map (idna_label sample_env) (host_labels (W ''www.Example.org'')))"
    "\<not> suffix (map (idna_label sample_env) (host_labels (W ''example.org'')))
          (map (idna_label sample_env) (host_labels (W ''evilexample.org'')))"
    by code_simp+
  moreover have "effective_port schema_http 0 = 80" "effective_port schema_http 80 = 80" by code_simp+
  moreover have "bare_iri (sample_iri ''example.org'' 0)" by (simp add: bare_iri_def sample_iri_def)
  moreover have "iri_port (sample_iri h p) = p" for h p by (simp add: sample_iri_def)
  ultimately show ?thesis
    using warp_decision [OF env iri(1) iri(2), of True wi_new False wi_new]
      warp_decision [OF env iri(1) iri(3), of True wi_new False wi_new]
    by (simp add: Let_def)
qed

text \<open>
  A host label libidn refuses makes the whole address invalid: it is neither an access definition
  nor a request that any definition grants, whatever the other labels are.
\<close>

theorem warp_bad_label_denied:
  assumes "s \<noteq> W ''*''" and "env_iri_parse E s = Some iri" and "iri_scheme iri = Some scheme"
    and "iri_host iri = Some host" and "scheme = schema_http \<or> scheme = schema_https"
    and "is_ascii host" and "l \<in> set (host_labels host)" and "env_idna E l = None"
  shows "\<not> wi_access (snd (wi_set E (Some s) domain w)) \<and>
         \<not> wi_is_sub_domain E definition_iri (snd (wi_set E (Some s) domain w))"
proof -
  have "wi_set E (Some s) domain w = wi_set_parsed E iri scheme host
      (w\<lparr>wi_domain := domain, wi_access := True, wi_valid := True, wi_host := []\<rparr>)"
    using assms by (simp add: wi_set_def thenP_def bindP_def modifyP_def)
  moreover have "\<exists>l \<in> set (rev (host_labels host)). env_idna E l = None" using assms(7,8) by auto
  note bad = wi_push_idna_bad [OF this]
  have "\<not> wi_valid (snd (wi_push_hosts E host v)) \<and> \<not> wi_access (snd (wi_push_hosts E host v))"
    if "wi_schema v = scheme" for v
    using that bad [of v] assms(5) by (auto simp: wi_push_hosts_def modifyP_def host_labels_def Let_def)
  ultimately have "\<not> wi_valid (snd (wi_set E (Some s) domain w)) \<and> \<not> wi_access (snd (wi_set E (Some s) domain w))"
    using assms(6) web_schema [OF assms(5)]
    by (auto simp: wi_set_parsed_def thenP_def bindP_def modifyP_def from_ascii_iff Let_def)
  then show ?thesis by (simp add: wi_is_sub_domain_def)
qed

theorem warp_bad_label_denied_witness:
  "\<not> wi_access (snd (wi_set (sample_env\<lparr>env_idna := \<lambda>l. if l = W ''www'' then None else Some l\<rparr>)
       (Some (W ''s'')) True wi_new))"
proof -
  let ?E = "sample_env\<lparr>env_idna := \<lambda>l. if l = W ''www'' then None else Some l\<rparr>"
  have "W ''www'' \<in> set (host_labels (W ''www.Example.org''))" by code_simp
  moreover have "W ''s'' \<noteq> W ''*''" "env_iri_parse ?E (W ''s'') = Some (sample_iri ''www.Example.org'' 80)"
    "iri_scheme (sample_iri ''www.Example.org'' 80) = Some schema_http"
    "iri_host (sample_iri ''www.Example.org'' 80) = Some (W ''www.Example.org'')"
    "is_ascii (W ''www.Example.org'')" "env_idna ?E (W ''www'') = None"
    by (simp_all add: sample_env_def sample_iri_def is_ascii_def W_def)
  ultimately show ?thesis
    using warp_bad_label_denied [of "W ''s''" ?E "sample_iri ''www.Example.org'' 80" schema_http
        "W ''www.Example.org''" "W ''www''" True wi_new wi_new] by blast
qed

text \<open>
  The wildcard definition depends on the object's past.  On a new object "*" matches no address
  with a scheme; on an object that last held a web address it keeps that scheme and port, and with
  subdomains it then matches every valid address with them.
\<close>

theorem warp_star_keeps_scheme:
  assumes "compare_ok E" and "web_iri E s iri scheme host"
  shows "(wi_is_sub_domain E (snd (wi_set E (Some (W ''*'')) True (snd (wi_set E (Some s) domain w)))) other \<longleftrightarrow>
           wi_valid other \<and> wi_schema other = scheme \<and>
           wi_port other = effective_port scheme (iri_port iri)) \<and>
         (wi_is_sub_domain E (snd (wi_set E (Some (W ''*'')) True wi_new)) other \<longleftrightarrow>
           wi_valid other \<and> wi_schema other = [] \<and> wi_port other = 0)"
  by (auto simp: wi_is_sub_domain_iff [OF assms(1)] wi_set_web [OF assms(2)]
      wi_set_def [of E "Some (W ''*'')"] thenP_def bindP_def modifyP_def ret_def wi_new_def unknown_port_def)

theorem warp_star_keeps_scheme_witness:
  "wi_is_sub_domain sample_env
     (snd (wi_set sample_env (Some (W ''*'')) True (snd (wi_set sample_env (Some (W ''d'')) True wi_new))))
     (snd (wi_set sample_env (Some (W ''e'')) False wi_new))"
proof -
  have env: "compare_ok sample_env" by (simp add: compare_ok_def sample_env_def)
  have iri: "web_iri sample_env (W ''d'') (sample_iri ''example.org'' 0) schema_http (W ''example.org'')"
    "web_iri sample_env (W ''e'') (sample_iri ''evilexample.org'' 0) schema_http (W ''evilexample.org'')"
    by (simp_all add: web_iri_def sample_env_def sample_iri_def is_ascii_def W_def)
  have "wi_valid (snd (wi_set sample_env (Some (W ''e'')) False wi_new))"
    "wi_schema (snd (wi_set sample_env (Some (W ''e'')) False wi_new)) = schema_http"
    "wi_port (snd (wi_set sample_env (Some (W ''e'')) False wi_new)) =
       effective_port schema_http (iri_port (sample_iri ''example.org'' 0))"
    by (simp_all add: wi_set_web [OF iri(2)] sample_iri_def)
  with warp_star_keeps_scheme [OF env iri(1)] show ?thesis by blast
qed

end
