(* ===== verification/UnixSocket.thy ===== *)
theory UnixSocket
  imports GenericSocket
begin

text \<open>
  \<open>DPL::Socket::UnixSocket\<close> (modules/socket/src/unix_socket.cpp) and \<open>DPL::Address\<close>
  (modules/core/src/address.cpp): the members \<open>GenericSocket\<close> leaves virtual.  A path is the
  list of its characters; \<open>sun_path\<close> has 108 bytes.
\<close>

record address =
  ad_address :: "byte list"
  ad_port :: "16 word"

definition address_of :: "byte list \<Rightarrow> address" where
  "address_of a = \<lparr>ad_address = a, ad_port = 0\<rparr>"

definition sun_path_size :: nat where
  "sun_path_size = 108"

text \<open>The characters of a C string.\<close>

definition c_str :: "byte list \<Rightarrow> byte list" where
  "c_str bs = takeWhile (\<lambda>c. c \<noteq> 0) bs"

text \<open>\<open>strncpy\<close> copies up to the terminator and pads with zeroes.\<close>

definition str_n_cpy :: "nat \<Rightarrow> byte list \<Rightarrow> byte list \<Rightarrow> byte list" where
  "str_n_cpy n src dst =
     (let s = take n (c_str src) in s @ replicate (n - length s) 0 @ drop n dst)"

record sockaddr_un =
  sun_family :: nat
  sun_path :: "byte list"

definition af_unix :: nat where
  "af_unix = 1"

definition us_alloc_descriptor :: "int \<Rightarrow> int res" where
  "us_alloc_descriptor newSocket = (if newSocket = -1 then Inl CreateFailed else Inr newSocket)"

text \<open>\<open>SUN_LEN\<close>: the offset of the path (2) and the length of the string in it.\<close>

definition sun_len :: "sockaddr_un \<Rightarrow> nat" where
  "sun_len a = 2 + length (c_str (sun_path a))"

definition us_to_specific :: "bool \<Rightarrow> address \<Rightarrow> (sockaddr_un \<times> nat) res" where
  "us_to_specific malloc_ok addr =
     (if \<not> malloc_ok then Inl BadAlloc
      else let a0 = \<lparr>sun_family = af_unix, sun_path = replicate sun_path_size 0\<rparr>;
               a1 = a0\<lparr>sun_path := str_n_cpy (sun_path_size - 1) (ad_address addr) (sun_path a0)\<rparr>;
               a2 = a1\<lparr>sun_path := (sun_path a1)[sun_path_size - 1 := 0]\<rparr>
           in Inr (a2, sun_len a2))"

definition us_to_generic :: "sockaddr_un \<Rightarrow> address" where
  "us_to_generic a = address_of (c_str (sun_path a))"

text \<open>
  \<open>Bind\<close> unlinks the path, binds, and sets the permissions of the file.  The file system is the log
  of the calls made on it.
\<close>

datatype fs_call = Unlink "byte list" | Chmod "byte list" nat

type_synonym 'a us_prog = "((gsocket \<times> watch_support) \<times> fs_call list, 'a) prog"

definition us_fs :: "fs_call \<Rightarrow> unit us_prog" where
  "us_fs c = modifyP (\<lambda>(st, fs). (st, fs @ [c]))"

definition us_base :: "'a gs_prog \<Rightarrow> 'a us_prog" where
  "us_base m = (\<lambda>(st, fs). case m st of (r, st') \<Rightarrow> (r, (st', fs)))"

definition us_bind :: "bool \<Rightarrow> bool \<Rightarrow> address \<Rightarrow> unit us_prog" where
  "us_bind malloc_ok bind_ok addr =
     thenP (us_fs (Unlink (c_str (ad_address addr))))
       (thenP (us_base (gs_bind (case us_to_specific malloc_ok addr of Inl e \<Rightarrow> Inl e | Inr _ \<Rightarrow> Inr ()) bind_ok))
         (us_fs (Chmod (c_str (ad_address addr)) 511)))"

section \<open>Lemmas\<close>

lemma c_str_id: "0 \<notin> set bs \<Longrightarrow> c_str bs = bs"
  by (auto simp: c_str_def takeWhile_eq_all_conv)

lemma c_str_no_nul: "0 \<notin> set (c_str bs)"
  by (auto simp: c_str_def dest: set_takeWhileD)

lemma c_str_pad: "0 \<notin> set bs \<Longrightarrow> c_str (bs @ 0 # r) = bs"
  by (induction bs) (auto simp: c_str_def)

lemma us_sun_path:
  assumes "us_to_specific True addr = Inr (a, len)"
  shows "length (sun_path a) = sun_path_size \<and> c_str (sun_path a) = take 107 (c_str (ad_address addr)) \<and>
         len = 2 + length (take 107 (c_str (ad_address addr)))"
proof -
  let ?s = "take 107 (c_str (ad_address addr))"
  let ?p = "?s @ replicate (107 - length ?s) 0 @ [0]"
  have free: "0 \<notin> set ?s" using c_str_no_nul by (auto dest: in_set_takeD)
  have "replicate (107 - length ?s) (0 :: byte) @ [0] = 0 # replicate (107 - length ?s) 0"
    by (simp add: replicate_append_same)
  then have c: "c_str ?p = ?s" using c_str_pad [OF free] by simp
  have "(?s @ replicate (107 - length ?s) 0 @ [0])[107 := 0] = ?p"
    by (rule list_update_same_conv [THEN iffD2]) (auto simp: nth_append)
  moreover have "drop 107 (replicate 108 (0 :: byte)) = [0]" by simp
  ultimately have "sun_path a = ?p" "len = sun_len a"
    using assms by (auto simp: us_to_specific_def str_n_cpy_def sun_path_size_def Let_def)
  with c show ?thesis by (simp add: sun_len_def sun_path_size_def)
qed

section \<open>Properties\<close>

text \<open>
  Addresses and paths.  The kernel structure always holds a terminated path of at most 107
  characters and its length is consistent; reading it back gives the address exactly when it fits
  and holds no NUL, and its first 107 characters otherwise.  \<open>Bind\<close> binds that truncated path but
  unlinks and changes the permissions of the untruncated one.
\<close>

theorem unix_address_roundtrip:
  assumes "us_to_specific True addr = Inr (a, len)"
  shows "length (sun_path a) = 108 \<and> 0 \<in> set (sun_path a) \<and> len = 2 + length (c_str (sun_path a)) \<and>
         us_to_generic a = address_of (take 107 (c_str (ad_address addr))) \<and>
         (ad_address (us_to_generic a) = ad_address addr \<longleftrightarrow>
            length (ad_address addr) \<le> 107 \<and> 0 \<notin> set (ad_address addr)) \<and>
         snd (snd (us_bind True True addr ((s, ws), []))) =
           (if gs_state s = StPrepare
            then [Unlink (c_str (ad_address addr)), Chmod (c_str (ad_address addr)) 511]
            else [Unlink (c_str (ad_address addr))])"
proof -
  note p = us_sun_path [OF assms]
  have "0 \<in> set (sun_path a)"
  proof (rule ccontr)
    assume "0 \<notin> set (sun_path a)"
    then have "c_str (sun_path a) = sun_path a" by (rule c_str_id)
    with p have "sun_path a = take 107 (c_str (ad_address addr))" by simp
    then have "length (sun_path a) \<le> 107" by simp
    with p show False by (simp add: sun_path_size_def)
  qed
  moreover have "take 107 (c_str (ad_address addr)) = ad_address addr \<longleftrightarrow>
      length (ad_address addr) \<le> 107 \<and> 0 \<notin> set (ad_address addr)"
  proof
    assume eq: "take 107 (c_str (ad_address addr)) = ad_address addr"
    have "length (take 107 (c_str (ad_address addr))) \<le> 107" by simp
    then have "length (ad_address addr) \<le> 107" unfolding eq .
    moreover have "0 \<notin> set (take 107 (c_str (ad_address addr)))"
      using c_str_no_nul by (auto dest: in_set_takeD)
    ultimately show "length (ad_address addr) \<le> 107 \<and> 0 \<notin> set (ad_address addr)"
      using eq by simp
  qed (simp add: c_str_id)
  moreover have "snd (snd (us_bind True True addr ((s, ws), []))) =
      (if gs_state s = StPrepare
       then [Unlink (c_str (ad_address addr)), Chmod (c_str (ad_address addr)) 511]
       else [Unlink (c_str (ad_address addr))])"
    using assms
    by (simp add: us_bind_def us_fs_def us_base_def gs_bind_def prog_simps gs_step_defs)
  ultimately show ?thesis using p
    by (simp add: us_to_generic_def address_of_def sun_path_size_def)
qed

theorem unix_address_roundtrip_witness:
  "\<exists>a len. us_to_specific True (address_of [47, 120]) = Inr (a, len) \<and>
     us_to_generic a = address_of [47, 120] \<and> len = 4"
proof -
  obtain a len where a: "us_to_specific True (address_of [47, 120]) = Inr (a, len)"
    by (simp add: us_to_specific_def Let_def)
  have "c_str [47, 120] = [47, 120]" by (simp add: c_str_def)
  with unix_address_roundtrip [OF a, of "gs_new 1" "ws_new None"] a us_sun_path [OF a]
  show ?thesis by (auto simp: address_of_def)
qed

end
