(* ===== verification/EventSupport.thy ===== *)
theory EventSupport
  imports Complex_Main StdMap
begin

text \<open>
  \<open>DPL::Event::EventSupport\<close> (modules/event/include/dpl/event/event_support.h), its queued calls
  (\<open>generic_event_call.h\<close>) and the dispatchers that carry them (\<open>main_event_dispatcher.cpp\<close>,
  \<open>thread_event_dispatcher.cpp\<close>).  Every call object has a number, its address; a thread is a
  number, \<open>None\<close> the main thread (\<open>NULL\<close>).  Each operation of the support is one step, as its
  mutex makes it.  What a handler does is a list of operations on the same support, the handler
  \<open>H\<close> a parameter.  \<open>std::bad_alloc\<close> and a failed \<open>WaitableEvent\<close> are not represented.
\<close>

type_synonym thread = "nat option"

datatype target = Listener nat | Delegate nat

datatype emit_mode = Auto | Queued | Blocking | Deffered

text \<open>
  Where a pending call waits: the event queue of a thread, the ECORE queue of the main loop, or
  the list of cross-thread calls the main loop has not stolen yet.
\<close>

datatype place = ThreadQueue nat | MainQueue | CrossList

record 'e event_call =
  ec_target :: target
  ec_event :: 'e
  ec_sync :: "nat option"
  ec_support :: bool

record pending =
  pd_place :: place
  pd_due :: "rat option"
  pd_poster :: thread
  pd_call :: nat

record 'e event_support =
  es_listeners :: "(nat, thread) smap"
  es_delegates :: "(nat, thread) smap"
  es_calls :: "nat list"
  es_guarded :: int
  es_alive :: bool
  es_heap :: "nat \<Rightarrow> 'e event_call option"
  es_next :: nat
  es_pending :: "pending list"
  es_delivered :: "(target \<times> thread \<times> thread option \<times> 'e) list"
  es_signals :: "nat list"

datatype 'e es_op =
    AddListener target
  | RemoveListener target
  | SwitchListenerToThread target thread
  | SwitchAllListenersToThread thread
  | EmitEvent emit_mode 'e rat
  | Destroy
  | Throw exn

type_synonym 'e handler = "target \<Rightarrow> 'e \<Rightarrow> 'e es_op list"

type_synonym ('e, 'a) es_prog = "('e event_support, 'a) prog"

definition es_new :: "'e event_support" where
  "es_new = \<lparr>es_listeners = [], es_delegates = [], es_calls = [], es_guarded = 0, es_alive = True,
             es_heap = Map.empty, es_next = 1, es_pending = [], es_delivered = [], es_signals = []\<rparr>"

section \<open>Registration\<close>

fun null_target :: "target \<Rightarrow> bool" where
  "null_target (Listener l) = (l = 0)"
| "null_target (Delegate d) = (d = 0)"

fun es_find :: "'e event_support \<Rightarrow> target \<Rightarrow> thread option" where
  "es_find s (Listener l) = sm_find (es_listeners s) l"
| "es_find s (Delegate d) = sm_find (es_delegates s) d"

fun es_bind :: "target \<Rightarrow> thread \<Rightarrow> 'e event_support \<Rightarrow> 'e event_support" where
  "es_bind (Listener l) thr s = s\<lparr>es_listeners := sm_put l thr (es_listeners s)\<rparr>"
| "es_bind (Delegate d) thr s = s\<lparr>es_delegates := sm_put d thr (es_delegates s)\<rparr>"

fun es_unbind :: "target \<Rightarrow> 'e event_support \<Rightarrow> 'e event_support" where
  "es_unbind (Listener l) s = s\<lparr>es_listeners := sm_erase l (es_listeners s)\<rparr>"
| "es_unbind (Delegate d) s = s\<lparr>es_delegates := sm_erase d (es_delegates s)\<rparr>"

definition es_add_listener :: "thread \<Rightarrow> target \<Rightarrow> ('e, unit) es_prog" where
  "es_add_listener cur t =
     thenP (assertP (\<lambda>s. \<not> null_target t))
       (thenP (assertP (\<lambda>s. es_find s t = None)) (modifyP (es_bind t cur)))"

definition es_remove_listener :: "target \<Rightarrow> ('e, unit) es_prog" where
  "es_remove_listener t =
     thenP (assertP (\<lambda>s. \<not> null_target t))
       (thenP (assertP (\<lambda>s. es_find s t \<noteq> None)) (modifyP (es_unbind t)))"

definition es_switch_listener :: "target \<Rightarrow> thread \<Rightarrow> ('e, unit) es_prog" where
  "es_switch_listener t thr =
     thenP (assertP (\<lambda>s. \<not> null_target t))
       (thenP (assertP (\<lambda>s. es_find s t \<noteq> None)) (modifyP (es_bind t thr)))"

definition es_switch_all :: "thread \<Rightarrow> ('e, unit) es_prog" where
  "es_switch_all thr = modifyP (\<lambda>s.
     s\<lparr>es_listeners := map (\<lambda>(k, _). (k, thr)) (es_listeners s),
       es_delegates := map (\<lambda>(k, _). (k, thr)) (es_delegates s)\<rparr>)"

section \<open>Calls and dispatchers\<close>

text \<open>\<open>RegisterEventCall\<close>: the call object and its data, remembered in \<open>m_eventsList\<close>.\<close>

definition es_register_call :: "target \<Rightarrow> 'e \<Rightarrow> nat option \<Rightarrow> ('e, nat) es_prog" where
  "es_register_call t e sync = (\<lambda>s.
     let c = es_next s
     in (Inr c, s\<lparr>es_next := c + 1, es_calls := es_calls s @ [c],
                  es_heap := (es_heap s)(c \<mapsto> \<lparr>ec_target = t, ec_event = e, ec_sync = sync, ec_support = True\<rparr>)\<rparr>))"

text \<open>\<open>RemoveEventCall\<close>.\<close>

definition es_remove_call :: "nat \<Rightarrow> ('e, unit) es_prog" where
  "es_remove_call c = modifyP (\<lambda>s. s\<lparr>es_calls := remove1 c (es_calls s)\<rparr>)"

text \<open>
  \<open>AddEventCall\<close> and \<open>AddTimedEventCall\<close> of the dispatcher of a thread: the main dispatcher
  queues calls of the main thread itself and collects those of other threads.
\<close>

definition dispatch_place :: "thread \<Rightarrow> thread \<Rightarrow> place" where
  "dispatch_place cur thr =
     (case thr of
        Some t \<Rightarrow> ThreadQueue t
      | None \<Rightarrow> (if cur = None then MainQueue else CrossList))"

definition es_add_event_call :: "thread \<Rightarrow> thread \<Rightarrow> rat option \<Rightarrow> nat \<Rightarrow> ('e, unit) es_prog" where
  "es_add_event_call cur thr due c = modifyP (\<lambda>s.
     s\<lparr>es_pending := es_pending s @
         [\<lparr>pd_place = dispatch_place cur thr, pd_due = due, pd_poster = cur, pd_call = c\<rparr>]\<rparr>)"

text \<open>The main loop steals the cross-thread calls and pushes them onto its own queue.\<close>

definition dispatch_cross_invoker :: "('e, unit) es_prog" where
  "dispatch_cross_invoker = modifyP (\<lambda>s.
     s\<lparr>es_pending :=
         filter (\<lambda>p. pd_place p \<noteq> CrossList) (es_pending s) @
         map (\<lambda>p. p\<lparr>pd_place := MainQueue\<rparr>) (filter (\<lambda>p. pd_place p = CrossList) (es_pending s))\<rparr>)"

section \<open>Calling handlers\<close>

text \<open>
  \<open>GuardedEventCall\<close>: an exception of the handler aborts the process.  \<open>es_delivered\<close> records each
  call of a handler, its thread, and the thread the target is registered for at that moment.
\<close>

definition es_guarded_call :: "thread \<Rightarrow> target \<Rightarrow> 'e \<Rightarrow> ('e, unit) es_prog \<Rightarrow> ('e, unit) es_prog" where
  "es_guarded_call cur t e body =
     thenP (modifyP (\<lambda>s. s\<lparr>es_guarded := es_guarded s + 1, es_delivered := es_delivered s @ [(t, cur, es_find s t, e)]\<rparr>))
       (thenP (catchP body (\<lambda>x. \<not> terminal x) (\<lambda>_. raise Aborted))
         (modifyP (\<lambda>s. s\<lparr>es_guarded := es_guarded s - 1\<rparr>)))"

text \<open>
  A handler called directly from \<open>EmitEvent\<close> runs under the listeners' mutex, which is not
  recursive: its first operation on the support waits for ever.
\<close>

fun es_locked_body :: "'e es_op list \<Rightarrow> ('e, unit) es_prog" where
  "es_locked_body [] = ret ()"
| "es_locked_body (Throw x # _) = raise x"
| "es_locked_body (Destroy # _) = raise AssertFailed"
| "es_locked_body (_ # _) = raise Deadlock"

section \<open>Emission\<close>

definition es_signal :: "nat option \<Rightarrow> ('e, unit) es_prog" where
  "es_signal sync = modifyP (\<lambda>s.
     case sync of None \<Rightarrow> s | Some w \<Rightarrow> s\<lparr>es_signals := es_signals s @ [w]\<rparr>)"

definition es_new_sync :: "('e, nat) es_prog" where
  "es_new_sync = (\<lambda>s. (Inr (es_next s), s\<lparr>es_next := es_next s + 1\<rparr>))"

definition es_post :: "thread \<Rightarrow> thread \<Rightarrow> target \<Rightarrow> 'e \<Rightarrow> nat option \<Rightarrow> rat option \<Rightarrow> ('e, unit) es_prog" where
  "es_post cur thr t e sync due = bindP (es_register_call t e sync) (es_add_event_call cur thr due)"

text \<open>One listener or delegate; the result are the objects the emitter waits for.\<close>

definition es_emit_one ::
  "'e handler \<Rightarrow> thread \<Rightarrow> emit_mode \<Rightarrow> 'e \<Rightarrow> rat \<Rightarrow> target \<times> thread \<Rightarrow> ('e, nat list) es_prog" where
  "es_emit_one H cur mode e due = (\<lambda>(t, thr).
     (case mode of
        Auto \<Rightarrow>
          (if thr = cur then thenP (es_guarded_call cur t e (es_locked_body (H t e))) (ret [])
           else thenP (es_post cur thr t e None None) (ret []))
      | Queued \<Rightarrow> thenP (es_post cur thr t e None None) (ret [])
      | Blocking \<Rightarrow>
          (if thr = cur then thenP (es_guarded_call cur t e (es_locked_body (H t e))) (ret [])
           else bindP es_new_sync (\<lambda>w. thenP (es_post cur thr t e (Some w) None) (ret [w])))
      | Deffered \<Rightarrow>
          thenP (assertP (\<lambda>_. due \<ge> 0)) (thenP (es_post cur thr t e None (Some due)) (ret []))))"

primrec es_emit_all :: "('x \<Rightarrow> ('e, nat list) es_prog) \<Rightarrow> 'x list \<Rightarrow> ('e, nat list) es_prog" where
  "es_emit_all f [] = ret []"
| "es_emit_all f (x # xs) = bindP (f x) (\<lambda>b. bindP (es_emit_all f xs) (\<lambda>bs. ret (b @ bs)))"

definition es_targets :: "'e event_support \<Rightarrow> (target \<times> thread) list" where
  "es_targets s = map (\<lambda>(l, thr). (Listener l, thr)) (es_listeners s) @
                  map (\<lambda>(d, thr). (Delegate d, thr)) (es_delegates s)"

text \<open>
  \<open>EmitEvent\<close> up to its wait, with the synchronization barrier as its result.  The maps cannot
  change while the loops run, since the lock is held.
\<close>

definition es_emit :: "'e handler \<Rightarrow> thread \<Rightarrow> emit_mode \<Rightarrow> 'e \<Rightarrow> rat \<Rightarrow> ('e, nat list) es_prog" where
  "es_emit H cur mode e due = (\<lambda>s. es_emit_all (es_emit_one H cur mode e due) (es_targets s) s)"

text \<open>
  The wait: each answer of \<open>WaitForMultipleHandles\<close> is a list of indexes into the barrier, whose
  entries leave it.  The result is what is still waited for when the answers end.
\<close>

definition barrier_round :: "nat list \<Rightarrow> nat list \<Rightarrow> nat list" where
  "barrier_round indexes barrier =
     map fst (filter (\<lambda>(w, i). i \<notin> set indexes) (zip barrier [0..<length barrier]))"

fun barrier_wait :: "nat list list \<Rightarrow> nat list \<Rightarrow> nat list" where
  "barrier_wait answers [] = []"
| "barrier_wait [] barrier = barrier"
| "barrier_wait (a # answers) barrier = barrier_wait answers (barrier_round a barrier)"

section \<open>Destruction\<close>

text \<open>The destructor disables every call it has created and that was not delivered.\<close>

definition es_disable :: "nat list \<Rightarrow> 'e event_support \<Rightarrow> 'e event_support" where
  "es_disable cs s =
     s\<lparr>es_heap := (\<lambda>c. if c \<in> set cs then map_option (\<lambda>k. k\<lparr>ec_support := False\<rparr>) (es_heap s c)
                       else es_heap s c)\<rparr>"

definition es_destroy :: "('e, unit) es_prog" where
  "es_destroy =
     thenP (assertP (\<lambda>s. es_guarded s = 0))
       (modifyP (\<lambda>s. (es_disable (es_calls s) s)\<lparr>es_listeners := [], es_delegates := [], es_alive := False\<rparr>))"

section \<open>Operations of a client and of a handler\<close>

text \<open>
  An operation of the support by the thread \<open>cur\<close>; one on a destroyed support is undefined.  The
  wait of a blocking emission is not part of the step.
\<close>

definition es_exec :: "'e handler \<Rightarrow> thread \<Rightarrow> 'e es_op \<Rightarrow> ('e, unit) es_prog" where
  "es_exec H cur op = (\<lambda>s.
     if \<not> es_alive s then (case op of Throw x \<Rightarrow> raise x s | _ \<Rightarrow> raise UndefinedBehaviour s)
     else (case op of
             AddListener t \<Rightarrow> es_add_listener cur t
           | RemoveListener t \<Rightarrow> es_remove_listener t
           | SwitchListenerToThread t thr \<Rightarrow> es_switch_listener t thr
           | SwitchAllListenersToThread thr \<Rightarrow> es_switch_all thr
           | EmitEvent mode e due \<Rightarrow> thenP (es_emit H cur mode e due) (ret ())
           | Destroy \<Rightarrow> es_destroy
           | Throw x \<Rightarrow> raise x) s)"

primrec es_body :: "'e handler \<Rightarrow> thread \<Rightarrow> 'e es_op list \<Rightarrow> ('e, unit) es_prog" where
  "es_body H cur [] = ret ()"
| "es_body H cur (op # ops) = thenP (es_exec H cur op) (es_body H cur ops)"

section \<open>Delivery\<close>

text \<open>\<open>ReceiveAbstractEventCall\<close>, run by the dispatcher of the thread \<open>cur\<close>.\<close>

definition es_receive :: "'e handler \<Rightarrow> thread \<Rightarrow> 'e \<Rightarrow> target \<Rightarrow> nat option \<Rightarrow> ('e, unit) es_prog" where
  "es_receive H cur e t sync = (\<lambda>s.
     (case es_find s t of
        None \<Rightarrow> es_signal sync
      | Some thr \<Rightarrow>
          (if thr \<noteq> cur
           then (case sync of
                   None \<Rightarrow> thenP (es_emit H cur Queued e 0) (ret ())
                 | Some _ \<Rightarrow> es_signal sync)
           else thenP (es_guarded_call cur t e (es_body H cur (H t e))) (es_signal sync))) s)"

text \<open>\<open>Call\<close>, which is \<open>CallAndDestroy\<close> with \<open>~EventSupportData\<close>, and the deletion of the call.\<close>

definition es_free :: "nat \<Rightarrow> ('e, unit) es_prog" where
  "es_free c = (\<lambda>s.
     (case es_heap s c of
        None \<Rightarrow> raise UndefinedBehaviour
      | Some k \<Rightarrow>
          thenP (if ec_support k then es_remove_call c else ret ())
            (modifyP (\<lambda>s. s\<lparr>es_heap := (es_heap s)(c := None)\<rparr>))) s)"

definition es_call :: "'e handler \<Rightarrow> thread \<Rightarrow> nat \<Rightarrow> ('e, unit) es_prog" where
  "es_call H cur c = (\<lambda>s.
     (case es_heap s c of
        None \<Rightarrow> raise UndefinedBehaviour
      | Some k \<Rightarrow>
          thenP (if ec_support k then es_receive H cur (ec_event k) (ec_target k) (ec_sync k) else ret ())
            (es_free c)) s)"

definition es_take :: "nat \<Rightarrow> ('e, unit) es_prog" where
  "es_take i = modifyP (\<lambda>s. s\<lparr>es_pending := take i (es_pending s) @ drop (Suc i) (es_pending s)\<rparr>)"

text \<open>The thread at whose place a call waits; none dispatches the cross-thread list.\<close>

fun place_thread :: "place \<Rightarrow> thread option" where
  "place_thread (ThreadQueue t) = Some (Some t)"
| "place_thread MainQueue = Some None"
| "place_thread CrossList = None"

text \<open>A dispatcher takes its first call, or a timed call that is due.\<close>

definition dispatchable :: "thread \<Rightarrow> nat \<Rightarrow> 'e event_support \<Rightarrow> bool" where
  "dispatchable cur i s \<longleftrightarrow>
     i < length (es_pending s) \<and>
     (let p = es_pending s ! i in
        place_thread (pd_place p) = Some cur \<and>
        (pd_due p = None \<longrightarrow>
           (\<forall>j < i. pd_due (es_pending s ! j) = None \<longrightarrow> pd_place (es_pending s ! j) \<noteq> pd_place p)))"

definition es_dispatch :: "'e handler \<Rightarrow> thread \<Rightarrow> nat \<Rightarrow> ('e, unit) es_prog" where
  "es_dispatch H cur i = (\<lambda>s. thenP (es_take i) (es_call H cur (pd_call (es_pending s ! i))) s)"

text \<open>
  A dispatcher that goes away deletes its calls, and \<open>~GenericEventCall\<close> asserts that the call was
  made.
\<close>

definition es_discard :: "nat \<Rightarrow> ('e, unit) es_prog" where
  "es_discard i = thenP (es_take i) (raise AssertFailed)"

section \<open>The system\<close>

inductive es_step :: "'e handler \<Rightarrow> 'e event_support \<Rightarrow> 'e event_support \<Rightarrow> bool" for H where
  api: "es_alive s \<Longrightarrow> es_exec H cur op s = (Inr (), t) \<Longrightarrow> es_step H s t"
| steal: "dispatch_cross_invoker s = (Inr (), t) \<Longrightarrow> es_step H s t"
| dispatch: "dispatchable cur i s \<Longrightarrow> es_dispatch H cur i s = (Inr (), t) \<Longrightarrow> es_step H s t"

inductive es_reach :: "'e handler \<Rightarrow> 'e event_support \<Rightarrow> bool" for H where
  init: "es_reach H es_new"
| step: "es_reach H s \<Longrightarrow> es_step H s t \<Longrightarrow> es_reach H t"

inductive_cases es_step_cases: "es_step H s t"

section \<open>Invariant\<close>

text \<open>
  Every pending call is one live object, registered while the support lives; the only live calls
  that do not wait are those being called, \<open>running\<close>.  Calls of one thread to another wait in
  the order of their emission, and handlers only ran in the thread they were registered for.
\<close>

definition same_way :: "pending \<Rightarrow> pending \<Rightarrow> bool" where
  "same_way p q \<longleftrightarrow>
     pd_poster p = pd_poster q \<and> pd_due p = None \<and> pd_due q = None \<and>
     (pd_place p = pd_place q \<or> {pd_place p, pd_place q} = {MainQueue, CrossList})"

definition es_fifo :: "pending list \<Rightarrow> bool" where
  "es_fifo ps \<longleftrightarrow>
     sorted_wrt (\<lambda>p q. same_way p q \<longrightarrow>
       pd_call p < pd_call q \<and> \<not> (pd_place p = CrossList \<and> pd_place q = MainQueue)) ps \<and>
     (\<forall>p \<in> set ps. pd_poster p = None \<longrightarrow> pd_place p \<noteq> CrossList)"

definition delivered_right :: "'e event_support \<Rightarrow> bool" where
  "delivered_right s \<longleftrightarrow> (\<forall>(t, cur, found, e) \<in> set (es_delivered s). found = Some cur)"

definition es_inv :: "bool \<Rightarrow> nat set \<Rightarrow> 'e event_support \<Rightarrow> bool" where
  "es_inv alive running s \<longleftrightarrow>
     es_alive s = alive \<and> es_fifo (es_pending s) \<and> delivered_right s \<and>
     sm_ok (es_listeners s) \<and> sm_ok (es_delegates s) \<and>
     distinct (map pd_call (es_pending s)) \<and>
     (\<forall>c \<in> pd_call ` set (es_pending s) \<union> running. c < es_next s) \<and>
     (alive \<longrightarrow> distinct (es_calls s) \<and> set (es_calls s) = dom (es_heap s)) \<and>
     (\<forall>c k. es_heap s c = Some k \<longrightarrow> ec_support k = alive) \<and>
     dom (es_heap s) = pd_call ` set (es_pending s) \<union> running \<and>
     running \<inter> pd_call ` set (es_pending s) = {}"

lemma es_new_inv [simp]: "es_inv True {} es_new"
  by (simp add: es_inv_def es_new_def es_fifo_def delivered_right_def)

lemma es_fifo_post:
  assumes "es_fifo ps" and "\<forall>p \<in> set ps. pd_call p < c"
  shows "es_fifo (ps @ [\<lparr>pd_place = dispatch_place cur thr, pd_due = due, pd_poster = cur, pd_call = c\<rparr>])"
  using assms
  by (fastforce simp: es_fifo_def sorted_wrt_append same_way_def dispatch_place_def split: option.splits if_splits)

lemma delivered_right_more [simp]: "delivered_right (s\<lparr>es_pending := ps\<rparr>) = delivered_right s"
  "delivered_right (s\<lparr>es_heap := h\<rparr>) = delivered_right s" "delivered_right (s\<lparr>es_next := n\<rparr>) = delivered_right s"
  "delivered_right (s\<lparr>es_calls := cs\<rparr>) = delivered_right s" "delivered_right (s\<lparr>es_listeners := ls\<rparr>) = delivered_right s"
  "delivered_right (s\<lparr>es_delegates := ds\<rparr>) = delivered_right s" "delivered_right (s\<lparr>es_alive := al\<rparr>) = delivered_right s"
  "delivered_right (s\<lparr>es_guarded := g\<rparr>) = delivered_right s" "delivered_right (s\<lparr>es_signals := w\<rparr>) = delivered_right s"
  by (simp_all add: delivered_right_def)

lemma delivered_right_call:
  "delivered_right s \<Longrightarrow> delivered_right (s\<lparr>es_delivered := es_delivered s @ [(t, cur, Some cur, e)]\<rparr>)"
  by (auto simp: delivered_right_def)

lemma sm_ok_rebind [simp]: "sm_ok (map (\<lambda>(k, _). (k, v)) m) = sm_ok m"
proof -
  have "map fst (map (\<lambda>(k, _). (k, v)) m) = map fst m" by (induction m) auto
  then show ?thesis unfolding sm_ok_def by (simp only:)
qed

lemma keeps_es_bind [inv_intros]: "keeps (es_inv a R) (modifyP (es_bind t thr))"
  by (cases t) (simp_all add: keeps_def modifyP_def es_inv_def sm_ok_put)

lemma keeps_es_unbind [inv_intros]: "keeps (es_inv a R) (modifyP (es_unbind t))"
  by (cases t) (simp_all add: keeps_def modifyP_def es_inv_def sm_ok_erase)

lemma keeps_es_switch_all [inv_intros]: "keeps (es_inv a R) (es_switch_all thr)"
  by (simp add: keeps_def modifyP_def es_inv_def es_switch_all_def)

lemma keeps_es_registration [inv_intros]:
  "keeps (es_inv a R) (es_add_listener cur t)" "keeps (es_inv a R) (es_remove_listener t)"
  "keeps (es_inv a R) (es_switch_listener t thr)"
  unfolding es_add_listener_def es_remove_listener_def es_switch_listener_def
  by (intro inv_intros)+

lemma keeps_es_signal [inv_intros]: "keeps (es_inv a R) (es_signal sync)"
  by (cases sync) (simp_all add: keeps_def modifyP_def es_inv_def es_signal_def)

lemma keeps_es_new_sync [inv_intros]: "keeps (es_inv a R) es_new_sync"
  by (simp add: keeps_def es_inv_def es_new_sync_def less_Suc_eq)

lemma es_post_run:
  "es_post cur thr t e sync due s =
     (Inr (), s\<lparr>es_next := es_next s + 1, es_calls := es_calls s @ [es_next s],
        es_heap := (es_heap s)(es_next s \<mapsto> \<lparr>ec_target = t, ec_event = e, ec_sync = sync, ec_support = True\<rparr>),
        es_pending := es_pending s @
          [\<lparr>pd_place = dispatch_place cur thr, pd_due = due, pd_poster = cur, pd_call = es_next s\<rparr>]\<rparr>)"
  by (simp add: es_post_def es_register_call_def es_add_event_call_def bindP_def modifyP_def Let_def)

lemma keeps_es_post [inv_intros]: "keeps (es_inv True R) (es_post cur thr t e sync due)"
proof
  fix s :: "'a event_support" assume inv: "es_inv True R s"
  have lt: "\<forall>c \<in> pd_call ` set (es_pending s) \<union> R. c < es_next s"
    using inv by (simp add: es_inv_def)
  then have new: "es_next s \<notin> pd_call ` set (es_pending s) \<union> R" by blast
  then have "es_next s \<notin> pd_call ` set (es_pending s)" "es_next s \<notin> R" by simp_all
  moreover have "es_fifo (es_pending s @ [\<lparr>pd_place = dispatch_place cur thr, pd_due = due, pd_poster = cur,
      pd_call = es_next s\<rparr>])"
    using inv by (intro es_fifo_post) (auto simp: es_inv_def)
  ultimately show "es_inv True R (snd (es_post cur thr t e sync due s))"
    using inv lt unfolding es_inv_def es_post_run
    by (simp add: less_Suc_eq)
qed

lemma es_inv_guarded [simp]: "es_inv a R (s\<lparr>es_guarded := g\<rparr>) = es_inv a R s"
  by (simp add: es_inv_def)

lemma es_inv_delivered:
  assumes "es_inv a R s" and "es_find s t = Some cur"
  shows "es_inv a R (s\<lparr>es_guarded := g, es_delivered := es_delivered s @ [(t, cur, es_find s t, e)]\<rparr>)"
proof -
  have "delivered_right (s\<lparr>es_delivered := es_delivered s @ [(t, cur, es_find s t, e)]\<rparr>)"
    using assms delivered_right_call [of s t cur e] by (simp add: es_inv_def)
  with assms(1) show ?thesis unfolding es_inv_def delivered_right_def by simp
qed

text \<open>Within an emission the registrations do not change.\<close>

definition es_inv_at :: "(nat, thread) smap \<Rightarrow> (nat, thread) smap \<Rightarrow> nat set \<Rightarrow> 'e event_support \<Rightarrow> bool" where
  "es_inv_at L D R s \<longleftrightarrow> es_inv True R s \<and> es_listeners s = L \<and> es_delegates s = D"

lemma es_find_cong: "es_listeners s = es_listeners u \<Longrightarrow> es_delegates s = es_delegates u \<Longrightarrow> es_find s = es_find u"
  by (rule ext, rename_tac t, case_tac t) simp_all

lemma keeps_es_post_at: "keeps (es_inv_at L D R) (es_post cur thr t e sync due)"
  using keepsD [OF keeps_es_post, of R] by (fastforce simp: keeps_def es_inv_at_def es_post_run)

lemma keeps_es_new_sync_at: "keeps (es_inv_at L D R) es_new_sync"
  using keepsD [OF keeps_es_new_sync, of True R] by (fastforce simp: keeps_def es_inv_at_def es_new_sync_def)

lemma locked_body_state: "snd (es_locked_body ops s) = s"
  by (induction ops rule: es_locked_body.induct) (simp_all add: ret_def raise_def)

lemma guarded_locked_run:
  "snd (es_guarded_call cur t e (es_locked_body ops) s) =
     s\<lparr>es_guarded := es_guarded (snd (es_guarded_call cur t e (es_locked_body ops) s)),
       es_delivered := es_delivered s @ [(t, cur, es_find s t, e)]\<rparr>"
proof -
  let ?u = "s\<lparr>es_guarded := es_guarded s + 1, es_delivered := es_delivered s @ [(t, cur, es_find s t, e)]\<rparr>"
  obtain r where "es_locked_body ops ?u = (r, ?u)" by (metis locked_body_state prod.collapse)
  then show ?thesis
    by (cases r) (simp_all add: es_guarded_call_def thenP_def bindP_def modifyP_def catchP_def raise_def)
qed

lemma keeps_es_guarded_locked:
  assumes "\<And>s :: 'e event_support. es_inv_at L D R s \<Longrightarrow> es_find s t = Some cur"
  shows "keeps (es_inv_at L D R) (es_guarded_call cur t (e :: 'e) (es_locked_body ops))"
proof
  fix s :: "'e event_support" assume inv: "es_inv_at L D R s"
  with assms have f: "es_find s t = Some cur" by simp
  have "es_inv_at L D R (s\<lparr>es_guarded := g, es_delivered := es_delivered s @ [(t, cur, es_find s t, e)]\<rparr>)" for g
    using inv es_inv_delivered [of True R s t cur] f by (simp add: es_inv_at_def)
  then show "es_inv_at L D R (snd (es_guarded_call cur t e (es_locked_body ops) s))"
    by (subst guarded_locked_run) simp
qed

lemma keeps_es_emit_one:
  assumes "\<And>s :: 'e event_support. es_inv_at L D R s \<Longrightarrow> es_find s (fst tt) = Some (snd tt)"
  shows "keeps (es_inv_at L D R) (es_emit_one H cur mode (e :: 'e) due tt)"
proof -
  have "keeps (es_inv_at L D R) (es_guarded_call cur (fst tt) e (es_locked_body (H (fst tt) e)))"
    if "snd tt = cur"
    using assms that by (intro keeps_es_guarded_locked) simp
  then show ?thesis
    by (cases tt; cases mode)
      (auto simp: es_emit_one_def intro!: keeps_then keeps_ret keeps_bind keeps_assert keeps_es_post_at
        keeps_es_new_sync_at)
qed

lemma keeps_es_emit_all: "(\<And>x. x \<in> set xs \<Longrightarrow> keeps I (f x)) \<Longrightarrow> keeps I (es_emit_all f xs)"
  by (induction xs) (auto intro!: keeps_ret keeps_bind)

lemma es_targets_find: "es_inv a R s \<Longrightarrow> (t, thr) \<in> set (es_targets s) \<Longrightarrow> es_find s t = Some thr"
  by (auto simp: es_targets_def es_inv_def sm_mem_find)

lemma keeps_es_emit [inv_intros]: "keeps (es_inv True R) (es_emit H cur mode e due)"
proof
  fix s :: "'a event_support" assume inv: "es_inv True R s"
  let ?I = "es_inv_at (es_listeners s) (es_delegates s) R"
  have "keeps ?I (es_emit_all (es_emit_one H cur mode e due) (es_targets s))"
  proof (intro keeps_es_emit_all keeps_es_emit_one)
    fix x u assume "x \<in> set (es_targets s)" "?I u"
    then show "es_find u (fst x) = Some (snd x)"
      using es_targets_find [OF inv, of "fst x" "snd x"] es_find_cong [of u s]
      by (simp add: es_inv_at_def)
  qed
  from keepsD [OF this, of s] inv show "es_inv True R (snd (es_emit H cur mode e due s))"
    by (simp add: es_emit_def es_inv_at_def)
qed

lemma es_destroy_inv: "es_inv True R s \<Longrightarrow> es_inv False R (snd (es_destroy s)) \<or> es_destroy s = (Inl AssertFailed, s)"
  by (auto simp: es_destroy_def thenP_def bindP_def assertP_def modifyP_def es_inv_def es_disable_def
      dom_def split: if_splits)

text \<open>An operation other than the destruction.\<close>

lemma es_exec_inv:
  assumes "es_inv True R s" and "op \<noteq> Destroy"
  shows "es_inv True R (snd (es_exec H cur op s))"
proof -
  have "es_alive s" using assms(1) by (simp add: es_inv_def)
  moreover have "keeps (es_inv True R) (es_add_listener cur t)" for t by (intro inv_intros)
  ultimately show ?thesis using assms
    by (cases op) (auto simp: es_exec_def intro!: keepsD [of "es_inv True R"] inv_intros)
qed

text \<open>A step that returns leaves the count of guarded calls as it was.\<close>

definition steady :: "('e, 'a) es_prog \<Rightarrow> bool" where
  "steady m \<longleftrightarrow> (\<forall>s x t. m s = (Inr x, t) \<longrightarrow> es_guarded t = es_guarded s)"

lemma steadyD: "steady m \<Longrightarrow> m s = (Inr x, t) \<Longrightarrow> es_guarded t = es_guarded s"
  by (simp add: steady_def)

lemma steady_simple:
  "steady (ret x)" "steady (raise e)" "steady (assertP p)"
  by (auto simp: steady_def ret_def raise_def assertP_def split: if_splits)

lemma steady_modify: "(\<And>s. es_guarded (f s) = es_guarded s) \<Longrightarrow> steady (modifyP f)"
  by (simp add: steady_def modifyP_def)

lemma steady_bind: "steady m \<Longrightarrow> (\<And>x. steady (f x)) \<Longrightarrow> steady (bindP m f)"
  by (fastforce simp: steady_def bindP_def split: prod.splits sum.splits)

lemma steady_then: "steady m \<Longrightarrow> steady k \<Longrightarrow> steady (thenP m k)"
  unfolding thenP_def by (rule steady_bind)

lemma steady_dep: "(\<And>x. steady (f x)) \<Longrightarrow> steady (\<lambda>s. f (g s) s)"
  by (simp add: steady_def)

lemma steady_post: "steady (es_post cur thr t e sync due)"
  by (simp add: steady_def es_post_run)

lemma steady_new_sync: "steady es_new_sync"
  by (auto simp: steady_def es_new_sync_def)

lemma steady_bind_target: "es_guarded (es_bind t thr s) = es_guarded s" "es_guarded (es_unbind t s) = es_guarded s"
  by (cases t; simp)+

lemma steady_signal: "steady (es_signal sync)"
  unfolding es_signal_def by (intro steady_modify) (simp split: option.split)

lemma guarded_call_run:
  assumes "es_guarded_call cur t e body s = (Inr x, u)"
  obtains y v where "body (s\<lparr>es_guarded := es_guarded s + 1, es_delivered := es_delivered s @ [(t, cur, es_find s t, e)]\<rparr>) = (Inr y, v)"
    and "u = v\<lparr>es_guarded := es_guarded v - 1\<rparr>"
proof -
  obtain r v where rv: "body (s\<lparr>es_guarded := es_guarded s + 1, es_delivered := es_delivered s @ [(t, cur, es_find s t, e)]\<rparr>) = (r, v)"
    by fastforce
  with assms that show ?thesis
    by (cases r) (auto simp: es_guarded_call_def thenP_def bindP_def modifyP_def catchP_def raise_def split: if_splits)
qed

lemma steady_guarded:
  assumes "steady body" shows "steady (es_guarded_call cur t e body)"
  unfolding steady_def
proof (intro allI impI)
  fix s :: "'a event_support" and x u assume "es_guarded_call cur t e body s = (Inr x, u)"
  then obtain y v where bv: "body (s\<lparr>es_guarded := es_guarded s + 1, es_delivered := es_delivered s @ [(t, cur, es_find s t, e)]\<rparr>) = (Inr y, v)"
    and u: "u = v\<lparr>es_guarded := es_guarded v - 1\<rparr>" by (rule guarded_call_run)
  from steadyD [OF assms bv] u show "es_guarded u = es_guarded s" by simp
qed

lemma steady_locked_body: "steady (es_locked_body ops)"
  by (induction ops rule: es_locked_body.induct) (simp_all add: steady_simple)

lemmas steady_intros = steady_simple steady_modify steady_then steady_bind steady_post steady_new_sync
  steady_signal steady_guarded steady_locked_body

lemma steady_emit_one: "steady (es_emit_one H cur mode e due tt)"
  by (cases tt; cases mode) (auto simp: es_emit_one_def intro!: steady_intros)

lemma steady_emit_all: "(\<And>x. steady (f x)) \<Longrightarrow> steady (es_emit_all f xs)"
  by (induction xs) (auto intro!: steady_intros)

lemma steady_emit: "steady (es_emit H cur mode e due)"
  unfolding es_emit_def
  by (rule steady_dep [where f = "es_emit_all (es_emit_one H cur mode e due)" and g = es_targets])
    (intro steady_emit_all steady_emit_one)

lemma steady_registration:
  "steady (es_add_listener cur t)" "steady (es_remove_listener t)" "steady (es_switch_listener t thr)"
  unfolding es_add_listener_def es_remove_listener_def es_switch_listener_def
  by (rule steady_then steady_simple steady_modify steady_bind_target)+

lemma steady_destroy: "steady es_destroy" "steady (es_switch_all thr)"
  unfolding es_destroy_def es_switch_all_def
  by (rule steady_then steady_simple steady_modify | simp add: es_disable_def)+

lemma steady_alive: "steady m \<Longrightarrow> steady (\<lambda>s. if \<not> es_alive s then raise e s else m s)"
  by (auto simp: steady_def raise_def)

lemma steady_exec: "steady (es_exec H cur op)"
proof (cases op)
  case (EmitEvent mode e due)
  have "steady (thenP (es_emit H cur mode e due) (ret ()))"
    by (intro steady_then steady_emit steady_simple)
  from steady_alive [OF this] EmitEvent show ?thesis by (simp add: es_exec_def cong: if_cong)
next
  case (Throw x)
  then show ?thesis using steady_simple(2) [of x] by (simp add: es_exec_def cong: if_cong)
qed (use steady_alive [OF steady_registration(1)] steady_alive [OF steady_registration(2)]
      steady_alive [OF steady_registration(3)] steady_alive [OF steady_destroy(1)]
      steady_alive [OF steady_destroy(2)] in \<open>simp_all add: es_exec_def cong: if_cong\<close>)

lemma es_exec_guarded_destroy:
  "es_alive s \<Longrightarrow> es_guarded s \<noteq> 0 \<Longrightarrow> es_exec H cur Destroy s = (Inl AssertFailed, s)"
  by (simp add: es_exec_def es_destroy_def thenP_def bindP_def assertP_def)

lemma es_body_inv:
  assumes "es_inv True R s" and "es_guarded s \<noteq> 0"
  shows "es_inv True R (snd (es_body H cur ops s))"
  using assms
proof (induction ops arbitrary: s)
  case Nil
  then show ?case by (simp add: ret_def)
next
  case (Cons op ops)
  obtain r t where rt: "es_exec H cur op s = (r, t)" by fastforce
  have inv: "es_inv True R t"
  proof (cases "op = Destroy")
    case True
    with rt Cons.prems es_exec_guarded_destroy [of s H cur] show ?thesis by (auto simp: es_inv_def)
  next
    case False
    from es_exec_inv [OF Cons.prems(1) False, of H cur] rt show ?thesis by simp
  qed
  show ?case
  proof (cases r)
    case (Inl e)
    with rt inv show ?thesis by (simp add: thenP_def bindP_def)
  next
    case (Inr u)
    then have "es_guarded t = es_guarded s" using steadyD [OF steady_exec] rt by blast
    with Cons.IH [OF inv] Cons.prems(2) rt Inr show ?thesis by (simp add: thenP_def bindP_def)
  qed
qed

lemma steady_body: "steady (es_body H cur ops)"
  by (induction ops) (auto intro!: steady_intros steady_exec)

lemma guarded_call_inv:
  assumes "es_inv True R s" and "es_guarded s \<ge> 0" and "es_find s t = Some cur"
    and "\<And>u. es_inv True R u \<Longrightarrow> es_guarded u \<noteq> 0 \<Longrightarrow> es_inv True R (snd (body u))"
  shows "es_inv True R (snd (es_guarded_call cur t e body s))"
proof -
  let ?u = "s\<lparr>es_guarded := es_guarded s + 1, es_delivered := es_delivered s @ [(t, cur, es_find s t, e)]\<rparr>"
  have "es_inv True R ?u" by (rule es_inv_delivered [OF assms(1,3)])
  moreover have "es_guarded ?u \<noteq> 0" using assms(2) by simp
  ultimately have inv: "es_inv True R (snd (body ?u))" by (rule assms(4))
  obtain r v where rv: "body ?u = (r, v)" by fastforce
  with inv show ?thesis
    by (cases r) (simp_all add: es_guarded_call_def thenP_def bindP_def modifyP_def catchP_def raise_def)
qed

lemma es_receive_inv:
  assumes "es_inv True R s" and "es_guarded s \<ge> 0"
  shows "es_inv True R (snd (es_receive H cur e t sync s))"
proof -
  have sig: "es_inv True R (snd (es_signal sync s))" if "es_inv True R s" for sync and s :: "'a event_support"
    using keepsD [OF keeps_es_signal that] .
  show ?thesis
  proof (cases "es_find s t")
    case None
    with sig assms(1) show ?thesis by (simp add: es_receive_def)
  next
    case (Some thr)
    show ?thesis
    proof (cases "thr = cur")
      case True
      obtain r u where ru: "es_guarded_call cur t e (es_body H cur (H t e)) s = (r, u)" by fastforce
      have "es_inv True R u"
        using guarded_call_inv [OF assms, of t cur "es_body H cur (H t e)" e] es_body_inv ru Some True
        by (metis snd_conv)
      with Some True ru sig show ?thesis
        by (cases r) (simp_all add: es_receive_def thenP_def bindP_def)
    next
      case False
      have "keeps (es_inv True R) (thenP (es_emit H cur Queued e 0) (ret ()))" by (intro inv_intros)
      from keepsD [OF this assms(1)] Some False sig assms(1) show ?thesis
        by (cases sync) (simp_all add: es_receive_def)
    qed
  qed
qed

lemma es_receive_steady: "steady (es_receive H cur e t sync)"
proof -
  have "steady (thenP (es_emit H cur Queued e 0) (ret ()))"
    by (intro steady_then steady_emit steady_simple)
  moreover have "steady (thenP (es_guarded_call cur t e (es_body H cur (H t e))) (es_signal sync))"
    by (intro steady_then steady_guarded steady_body steady_signal)
  ultimately have "steady (case r of None \<Rightarrow> es_signal sync
        | Some thr \<Rightarrow> if thr \<noteq> cur
            then (case sync of None \<Rightarrow> thenP (es_emit H cur Queued e 0) (ret ()) | Some _ \<Rightarrow> es_signal sync)
            else thenP (es_guarded_call cur t e (es_body H cur (H t e))) (es_signal sync))" for r
    by (cases r; cases sync) (simp_all add: steady_signal)
  then show ?thesis
    unfolding es_receive_def by (rule steady_dep)
qed

lemma es_free_run:
  assumes "es_inv a {c} s"
  shows "es_free c s = (Inr (), s\<lparr>es_calls := (if a then remove1 c (es_calls s) else es_calls s),
           es_heap := (es_heap s)(c := None)\<rparr>)"
    and "es_inv a {} (snd (es_free c s))"
proof -
  have "c \<in> dom (es_heap s)" using assms by (simp add: es_inv_def)
  then obtain k where k: "es_heap s c = Some k" by auto
  with assms have "ec_support k = a" by (simp add: es_inv_def)
  with k show run: "es_free c s = (Inr (), s\<lparr>es_calls := (if a then remove1 c (es_calls s) else es_calls s),
           es_heap := (es_heap s)(c := None)\<rparr>)"
    by (simp add: es_free_def es_remove_call_def thenP_def bindP_def modifyP_def ret_def)
  have "dom ((es_heap s)(c := None)) = pd_call ` set (es_pending s)"
    using assms by (auto simp: es_inv_def)
  then show "es_inv a {} (snd (es_free c s))"
    using assms unfolding run by (simp add: es_inv_def set_remove1_eq)
qed

lemma es_fifo_drop: "es_fifo (l @ p # r) \<Longrightarrow> es_fifo (l @ r)"
  by (auto simp: es_fifo_def sorted_wrt_append)

lemma es_remove_inv:
  assumes inv: "es_inv a {} s" and ps: "es_pending s = l @ p # r"
  shows "es_inv a {pd_call p} (s\<lparr>es_pending := l @ r\<rparr>)"
proof -
  from inv have "es_fifo (l @ p # r)" and d: "distinct (map pd_call (l @ p # r))"
    and dom: "dom (es_heap s) = pd_call ` set (l @ p # r)"
    and lt: "\<forall>c \<in> pd_call ` set (l @ p # r). c < es_next s"
    unfolding es_inv_def ps Un_empty_right by blast+
  have "es_fifo (l @ r)" using \<open>es_fifo (l @ p # r)\<close> by (rule es_fifo_drop)
  moreover have "distinct (map pd_call (l @ r))" "{pd_call p} \<inter> pd_call ` set (l @ r) = {}"
    using d by auto
  moreover have "dom (es_heap s) = pd_call ` set (l @ r) \<union> {pd_call p}" unfolding dom by auto
  moreover have "\<forall>c \<in> pd_call ` set (l @ r) \<union> {pd_call p}. c < es_next s" using lt by auto
  moreover have "sm_ok (es_listeners s)" "sm_ok (es_delegates s)" "delivered_right s" "es_alive s = a"
    "a \<longrightarrow> distinct (es_calls s) \<and> set (es_calls s) = dom (es_heap s)"
    "\<forall>c k. es_heap s c = Some k \<longrightarrow> ec_support k = a"
    using inv unfolding es_inv_def by blast+
  ultimately have "es_inv a {pd_call p} (s\<lparr>es_pending := l @ r\<rparr>) = True"
    by (simp add: es_inv_def del: map_append set_append)
  then show ?thesis by simp
qed

lemma es_take_inv:
  assumes "es_inv a {} s" and "i < length (es_pending s)"
  shows "es_inv a {pd_call (es_pending s ! i)} (s\<lparr>es_pending := take i (es_pending s) @ drop (Suc i) (es_pending s)\<rparr>)"
  by (rule es_remove_inv [OF assms(1) id_take_nth_drop [OF assms(2)]])

text \<open>What one dispatch does: to the state, and through the receiving method.\<close>

lemma es_call_inv:
  assumes inv: "es_inv a {c} s" and g: "es_guarded s \<ge> 0"
    and run: "es_call H cur c s = (Inr u, t)"
  shows "es_inv a {} t \<and> es_guarded t = es_guarded s"
proof -
  have "c \<in> dom (es_heap s)" using inv by (simp add: es_inv_def)
  then obtain k where k: "es_heap s c = Some k" by auto
  with inv have sup: "ec_support k = a" by (simp add: es_inv_def)
  show ?thesis
  proof (cases a)
    case False
    with k sup run have "es_free c s = (Inr u, t)"
      by (simp add: es_call_def thenP_def bindP_def ret_def)
    with es_free_run [OF inv] False show ?thesis by auto
  next
    case True
    obtain r v where rv: "es_receive H cur (ec_event k) (ec_target k) (ec_sync k) s = (r, v)" by fastforce
    with True k sup run obtain x where x: "r = Inr x" "es_free c v = (Inr u, t)"
      by (cases r) (auto simp: es_call_def thenP_def bindP_def)
    have "es_inv True {c} v"
      using es_receive_inv [of "{c}" s H cur "ec_event k" "ec_target k" "ec_sync k"] inv g True rv by simp
    from es_free_run [OF this] x(2) have "es_inv True {} t" "es_guarded t = es_guarded v" by auto
    moreover have "es_guarded v = es_guarded s"
      using steadyD [OF es_receive_steady, of H cur "ec_event k" "ec_target k" "ec_sync k" s x v] rv x(1) by simp
    ultimately show ?thesis using True by simp
  qed
qed

lemma es_dispatch_unfold:
  "es_dispatch H cur i s =
     es_call H cur (pd_call (es_pending s ! i)) (s\<lparr>es_pending := take i (es_pending s) @ drop (Suc i) (es_pending s)\<rparr>)"
  by (simp add: es_dispatch_def es_take_def thenP_def bindP_def modifyP_def)

text \<open>Stealing the cross-thread calls keeps the order of each sender's calls.\<close>

definition steal :: "pending list \<Rightarrow> pending list" where
  "steal ps = filter (\<lambda>p. pd_place p \<noteq> CrossList) ps @
              map (\<lambda>p. p\<lparr>pd_place := MainQueue\<rparr>) (filter (\<lambda>p. pd_place p = CrossList) ps)"

lemma steal_calls: "pd_call ` set (steal ps) = pd_call ` set ps"
  by (induction ps) (auto simp: steal_def)

lemma steal_distinct:
  assumes "distinct (map pd_call ps)" shows "distinct (map pd_call (steal ps))"
proof -
  have "map pd_call (steal ps) = map pd_call (filter (\<lambda>p. pd_place p \<noteq> CrossList) ps) @
      map pd_call (filter (\<lambda>p. pd_place p = CrossList) ps)"
    by (simp add: steal_def)
  moreover have "inj_on pd_call (set ps)" using assms by (simp add: distinct_map)
  then have "pd_call ` {p \<in> set ps. pd_place p \<noteq> CrossList} \<inter> pd_call ` {p \<in> set ps. pd_place p = CrossList} = {}"
    by (auto dest: inj_onD)
  ultimately show ?thesis using assms by (simp add: distinct_map_filter)
qed

lemma sorted_wrt_mem: "sorted_wrt P xs \<Longrightarrow> x \<in> set xs \<Longrightarrow> y \<in> set xs \<Longrightarrow> x = y \<or> P x y \<or> P y x"
  by (induction xs) auto

lemma steal_fifo:
  assumes "es_fifo ps" shows "es_fifo (steal ps)"
proof -
  let ?P = "\<lambda>p q. same_way p q \<longrightarrow>
       pd_call p < pd_call q \<and> \<not> (pd_place p = CrossList \<and> pd_place q = MainQueue)"
  let ?f = "\<lambda>p :: pending. p\<lparr>pd_place := MainQueue\<rparr>"
  have srt: "sorted_wrt ?P ps" using assms by (simp add: es_fifo_def)
  have "sorted_wrt ?P (map ?f (filter (\<lambda>p. pd_place p = CrossList) ps))"
    unfolding sorted_wrt_map
    by (rule sorted_wrt_mono_rel [OF _ sorted_wrt_filter [OF srt]]) (auto simp: same_way_def)
  moreover have "?P p (?f q)" if "p \<in> set ps" "q \<in> set ps" "pd_place p \<noteq> CrossList" "pd_place q = CrossList" for p q
  proof (intro impI)
    assume "same_way p (?f q)"
    with that have "same_way p q" "same_way q p" "pd_place p = MainQueue"
      by (auto simp: same_way_def doubleton_eq_iff)
    with sorted_wrt_mem [OF srt that(1,2)] that(3,4)
    show "pd_call p < pd_call (?f q) \<and> \<not> (pd_place p = CrossList \<and> pd_place (?f q) = MainQueue)"
      by auto
  qed
  ultimately show ?thesis
    using assms sorted_wrt_filter [OF srt]
    by (auto simp: es_fifo_def steal_def sorted_wrt_append)
qed

lemma es_steal_inv: "es_inv a R s \<Longrightarrow> es_inv a R (snd (dispatch_cross_invoker s))"
proof -
  assume inv: "es_inv a R s"
  then have "es_fifo (steal (es_pending s))" "distinct (map pd_call (steal (es_pending s)))"
    by (simp_all add: steal_fifo steal_distinct es_inv_def del: distinct_map)
  moreover have "snd (dispatch_cross_invoker s) = s\<lparr>es_pending := steal (es_pending s)\<rparr>"
    by (simp add: dispatch_cross_invoker_def modifyP_def steal_def)
  ultimately show ?thesis using inv by (simp add: es_inv_def steal_calls)
qed

lemma es_step_inv:
  assumes step: "es_step H s t" and inv: "es_inv (es_alive s) {} s" and g: "es_guarded s = 0"
  shows "es_inv (es_alive t) {} t \<and> es_guarded t = 0"
  using step
proof (cases rule: es_step.cases)
  case (api cur op)
  have "es_guarded t = 0" using steadyD [OF steady_exec api(2)] g by simp
  moreover have "es_inv (es_alive t) {} t"
  proof (cases "op = Destroy")
    case True
    with api have "es_destroy s = (Inr (), t)" by (simp add: es_exec_def)
    with es_destroy_inv [of "{}" s] inv api(1) show ?thesis by (auto simp: es_inv_def)
  next
    case False
    with es_exec_inv [of "{}" s op H cur] inv api have "es_inv True {} t" by simp
    then show ?thesis by (simp add: es_inv_def)
  qed
  ultimately show ?thesis by simp
next
  case steal
  then have t: "t = s\<lparr>es_pending := steal (es_pending s)\<rparr>"
    by (simp add: dispatch_cross_invoker_def modifyP_def EventSupport.steal_def)
  from es_steal_inv [OF inv] steal have "es_inv (es_alive s) {} t" by simp
  with g show ?thesis unfolding t by simp
next
  case (dispatch cur i)
  let ?u = "s\<lparr>es_pending := take i (es_pending s) @ drop (Suc i) (es_pending s)\<rparr>"
  have "i < length (es_pending s)" using dispatch(1) by (simp add: dispatchable_def)
  from es_take_inv [OF inv this] have "es_inv (es_alive s) {pd_call (es_pending s ! i)} ?u" .
  from es_call_inv [OF this, of H cur "()" t] dispatch(2) g
  have "es_inv (es_alive s) {} t" "es_guarded t = 0" by (auto simp: es_dispatch_unfold)
  then show ?thesis by (simp add: es_inv_def)
qed

lemma es_reach_inv: "es_reach H s \<Longrightarrow> es_inv (es_alive s) {} s \<and> es_guarded s = 0"
proof (induction rule: es_reach.induct)
  case init
  have "es_inv True {} (es_new :: 'a event_support)" by simp
  then show ?case by (simp add: es_new_def)
next
  case (step s t)
  with es_step_inv show ?case by blast
qed

section \<open>Emission in full\<close>

text \<open>The state after posting one call per target.\<close>

definition new_pending :: "thread \<Rightarrow> nat \<Rightarrow> (target \<times> thread) list \<Rightarrow> pending list" where
  "new_pending cur n xs =
     map (\<lambda>(c, t, thr). \<lparr>pd_place = dispatch_place cur thr, pd_due = None, pd_poster = cur, pd_call = c\<rparr>)
       (zip [n..<n + length xs] xs)"

definition new_calls :: "'e \<Rightarrow> nat \<Rightarrow> (target \<times> thread) list \<Rightarrow> (nat \<times> 'e event_call) list" where
  "new_calls e n xs =
     map (\<lambda>(c, t, thr). (c, \<lparr>ec_target = t, ec_event = e, ec_sync = None, ec_support = True\<rparr>))
       (zip [n..<n + length xs] xs)"

definition posted :: "thread \<Rightarrow> 'e \<Rightarrow> (target \<times> thread) list \<Rightarrow> 'e event_support \<Rightarrow> 'e event_support" where
  "posted cur e xs s =
     s\<lparr>es_next := es_next s + length xs, es_calls := es_calls s @ [es_next s..<es_next s + length xs],
       es_heap := es_heap s ++ map_of (new_calls e (es_next s) xs),
       es_pending := es_pending s @ new_pending cur (es_next s) xs\<rparr>"

lemma new_calls_Cons:
  "new_calls e n ((t, thr) # xs) =
     (n, \<lparr>ec_target = t, ec_event = e, ec_sync = None, ec_support = True\<rparr>) # new_calls e (Suc n) xs"
  by (simp add: new_calls_def upt_conv_Cons del: upt_Suc)

lemma new_pending_Cons:
  "new_pending cur n ((t, thr) # xs) =
     \<lparr>pd_place = dispatch_place cur thr, pd_due = None, pd_poster = cur, pd_call = n\<rparr> # new_pending cur (Suc n) xs"
  by (simp add: new_pending_def upt_conv_Cons del: upt_Suc)

lemma new_calls_keys: "map fst (new_calls e n xs) = [n..<n + length xs]"
  by (simp add: new_calls_def split_def o_def)

lemma new_calls_fresh: "k < n \<Longrightarrow> map_of (new_calls e n xs) k = None"
  by (auto simp: map_of_eq_None_iff new_calls_keys simp flip: set_map)

lemma es_emit_queued_list:
  "es_emit_all (es_emit_one H cur Queued e due) xs s = (Inr [], posted cur e xs s)"
proof (induction xs arbitrary: s)
  case Nil
  then show ?case by (simp add: ret_def posted_def new_calls_def new_pending_def)
next
  case (Cons x xs)
  obtain t thr where x: "x = (t, thr)" by (cases x)
  let ?k = "\<lparr>ec_target = t, ec_event = e, ec_sync = None, ec_support = True\<rparr>"
  have heap: "(es_heap s)(es_next s \<mapsto> ?k) ++ map_of (new_calls e (Suc (es_next s)) xs) =
      es_heap s ++ map_of (new_calls e (es_next s) ((t, thr) # xs))"
    using new_calls_fresh [of "es_next s" "Suc (es_next s)" e xs]
    by (auto simp: fun_eq_iff map_add_def new_calls_Cons split: option.split)
  show ?case
    using Cons.IH
    by (simp add: x es_emit_one_def es_post_run thenP_def bindP_def ret_def posted_def heap
        new_pending_Cons upt_conv_Cons del: upt_Suc)
qed

lemma es_emit_queued: "es_emit H cur Queued e due s = (Inr [], posted cur e (es_targets s) s)"
  by (simp add: es_emit_def es_emit_queued_list)

lemma barrier_round_nths: "barrier_round indexes barrier = nths barrier (- set indexes)"
  by (simp add: barrier_round_def nths_def split_def)

lemma guarded_locked_result:
  "fst (es_guarded_call cur t e (es_locked_body ops) s) =
     (case ops of [] \<Rightarrow> Inr ()
      | Throw x # _ \<Rightarrow> Inl (if terminal x then x else Aborted)
      | Destroy # _ \<Rightarrow> Inl AssertFailed
      | _ \<Rightarrow> Inl Deadlock)"
  by (cases ops rule: es_locked_body.cases)
    (simp_all add: es_guarded_call_def thenP_def bindP_def modifyP_def catchP_def raise_def ret_def terminal_def)

lemma es_emit_auto_list:
  "fst (es_emit_all (es_emit_one H cur Auto e due) xs s) = Inr [] \<longleftrightarrow>
     list_all (\<lambda>(t, thr). thr = cur \<longrightarrow> H t e = []) xs"
proof (induction xs arbitrary: s)
  case Nil
  then show ?case by (simp add: ret_def)
next
  case (Cons x xs)
  obtain t thr where x: "x = (t, thr)" by (cases x)
  show ?case
  proof (cases "thr = cur")
    case True
    obtain r u where ru: "es_guarded_call cur t e (es_locked_body (H t e)) s = (r, u)" by fastforce
    have r: "r = Inr () \<longleftrightarrow> H t e = []"
      using guarded_locked_result [of cur t e "H t e" s] ru
      by (auto split: list.splits es_op.splits)
    obtain r2 v where v: "es_emit_all (es_emit_one H cur Auto e due) xs u = (r2, v)" by fastforce
    show ?thesis
      using Cons.IH [of u] True x ru r v
      by (cases r; cases r2) (auto simp: es_emit_one_def thenP_def bindP_def ret_def)
  next
    case False
    obtain u where u: "es_post cur thr t e None None s = (Inr (), u)" by (simp add: es_post_run)
    obtain r2 v where v: "es_emit_all (es_emit_one H cur Auto e due) xs u = (r2, v)" by fastforce
    show ?thesis
      using Cons.IH [of u] False x u v
      by (cases r2) (auto simp: es_emit_one_def thenP_def bindP_def ret_def)
  qed
qed

section \<open>Properties\<close>


text \<open>
  C23: Calls are dispatched in the order of their emission: of the untimed calls one thread has
  posted to another, a dispatcher takes the oldest, whether they went through the main loop's
  cross-thread list or not.
\<close>

theorem event_dispatch_fifo:
  assumes reach: "es_reach H s" and disp: "dispatchable cur i s" and due: "pd_due (es_pending s ! i) = None"
    and j: "j < length (es_pending s)" "j \<noteq> i" and way: "same_way (es_pending s ! i) (es_pending s ! j)"
  shows "pd_call (es_pending s ! i) < pd_call (es_pending s ! j)"
proof -
  let ?ps = "es_pending s"
  have "es_fifo ?ps" using es_reach_inv [OF reach] unfolding es_inv_def by blast
  then have fifo: "same_way (?ps ! k) (?ps ! l) \<longrightarrow> pd_call (?ps ! k) < pd_call (?ps ! l) \<and>
      \<not> (pd_place (?ps ! k) = CrossList \<and> pd_place (?ps ! l) = MainQueue)"
    if "k < l" "l < length ?ps" for k l
    using sorted_wrt_nth_less that unfolding es_fifo_def by blast
  have i: "i < length ?ps" and th: "place_thread (pd_place (?ps ! i)) = Some cur"
    and first: "\<forall>j < i. pd_due (?ps ! j) = None \<longrightarrow> pd_place (?ps ! j) \<noteq> pd_place (?ps ! i)"
    using disp due by (auto simp: dispatchable_def Let_def)
  have cross: "pd_place (?ps ! i) \<noteq> CrossList" using th by auto
  consider "i < j" | "j < i" using j(2) by linarith
  then show ?thesis
  proof cases
    case 1
    with fifo [OF _ j(1)] way show ?thesis by blast
  next
    case 2
    have "pd_place (?ps ! j) \<noteq> pd_place (?ps ! i)" using first 2 way by (simp add: same_way_def)
    with way cross have "pd_place (?ps ! i) = MainQueue \<and> pd_place (?ps ! j) = CrossList"
      unfolding same_way_def doubleton_eq_iff by metis
    moreover have "same_way (?ps ! j) (?ps ! i)"
      using way unfolding same_way_def insert_commute [of "pd_place (?ps ! i)"] by metis
    ultimately show ?thesis using fifo [OF 2 i] by blast
  qed
qed


text \<open>
  A queued call whose listener has moved to another thread meanwhile is not handed on to that
  listener alone: it is emitted again, so that every listener and delegate registered now gets one
  more call with the event, those that have had it included.
\<close>

theorem ping_pong_emits_to_all:
  assumes reach: "es_reach H s" and alive: "es_alive s" and disp: "dispatchable cur i s"
    and k: "es_heap s (pd_call (es_pending s ! i)) = Some k" and sync: "ec_sync k = None"
    and moved: "es_find s (ec_target k) = Some thr" "thr \<noteq> cur"
  shows "\<exists>t. es_dispatch H cur i s = (Inr (), t) \<and> es_delivered t = es_delivered s \<and>
           es_pending t = take i (es_pending s) @ drop (Suc i) (es_pending s) @
             new_pending cur (es_next s) (es_targets s) \<and>
           es_heap t = (es_heap s ++ map_of (new_calls (ec_event k) (es_next s) (es_targets s)))
                         (pd_call (es_pending s ! i) := None)"
proof -
  let ?c = "pd_call (es_pending s ! i)"
  let ?u = "s\<lparr>es_pending := take i (es_pending s) @ drop (Suc i) (es_pending s)\<rparr>"
  have i: "i < length (es_pending s)" using disp by (simp add: dispatchable_def)
  have inv: "es_inv True {?c} ?u" using es_take_inv [OF _ i] es_reach_inv [OF reach] alive by simp
  with k have sup: "ec_support k" by (simp add: es_inv_def)
  have find: "es_find ?u (ec_target k) = Some thr" using moved(1) es_find_cong [of ?u s] by simp
  have tg: "es_targets ?u = es_targets s" by (simp add: es_targets_def)
  let ?v = "posted cur (ec_event k) (es_targets s) ?u"
  have rec: "es_receive H cur (ec_event k) (ec_target k) (ec_sync k) ?u = (Inr (), ?v)"
    using find moved(2) sync
    by (simp add: es_receive_def thenP_def bindP_def es_emit_queued tg ret_def)
  have "es_inv True {?c} ?v"
    using es_receive_inv [OF inv, of H cur "ec_event k" "ec_target k" "ec_sync k"] es_reach_inv [OF reach] rec
    by simp
  from es_free_run(1) [OF this] rec k sup show ?thesis
    by (simp add: es_dispatch_unfold es_call_def thenP_def bindP_def posted_def)
qed


section \<open>A concrete support\<close>

text \<open>
  Listener 1 of the main thread, listener 2 of thread 5, and one event the main thread has queued
  for both.
\<close>

definition silent :: "nat handler" where
  "silent = (\<lambda>t e. [])"

definition demo_registered :: "nat event_support" where
  "demo_registered = es_new\<lparr>es_listeners := [(1, None), (2, Some 5)]\<rparr>"

definition demo_queued :: "nat event_support" where
  "demo_queued = posted None 7 [(Listener 1, None), (Listener 2, Some 5)] demo_registered"

lemma es_reach_api: "es_reach H s \<Longrightarrow> es_alive s \<Longrightarrow> es_exec H cur op s = (Inr (), t) \<Longrightarrow> es_reach H t"
  by (blast intro: es_reach.step es_step.api)

lemma demo_registered_reach: "es_reach silent demo_registered"
proof -
  have "es_exec silent None (AddListener (Listener 1)) es_new =
      (Inr (), es_new\<lparr>es_listeners := [(1, None)]\<rparr>)"
    by (simp add: es_exec_def es_add_listener_def prog_simps es_new_def)
  from es_reach_api [OF es_reach.init _ this]
  have 1: "es_reach silent (es_new\<lparr>es_listeners := [(1, None)]\<rparr>)" by (simp add: es_new_def)
  have "es_exec silent (Some 5) (AddListener (Listener 2)) (es_new\<lparr>es_listeners := [(1, None)]\<rparr>) =
      (Inr (), demo_registered)"
    by (simp add: es_exec_def es_add_listener_def prog_simps es_new_def demo_registered_def sm_find_def)
  from es_reach_api [OF 1 _ this] show ?thesis by (simp add: es_new_def)
qed

lemma demo_targets [simp]: "es_targets demo_registered = [(Listener 1, None), (Listener 2, Some 5)]"
  "es_alive demo_registered" "es_next demo_registered = 1"
  by (simp_all add: es_targets_def demo_registered_def es_new_def)

lemma demo_queued_reach: "es_reach silent demo_queued"
proof -
  have "es_exec silent None (EmitEvent Queued 7 0) demo_registered = (Inr (), demo_queued)"
    by (simp add: es_exec_def es_emit_queued demo_queued_def thenP_def bindP_def ret_def)
  from es_reach_api [OF demo_registered_reach _ this] show ?thesis by simp
qed

lemma demo_queued_simps [simp]:
  "es_pending demo_queued =
     [\<lparr>pd_place = MainQueue, pd_due = None, pd_poster = None, pd_call = 1\<rparr>,
      \<lparr>pd_place = ThreadQueue 5, pd_due = None, pd_poster = None, pd_call = 2\<rparr>]"
  "es_alive demo_queued" "es_next demo_queued = 3" "es_delivered demo_queued = []"
  "es_targets demo_queued = [(Listener 1, None), (Listener 2, Some 5)]"
  "es_guarded demo_queued = 0" "es_calls demo_queued = [1, 2]"
  "es_heap demo_queued 1 = Some \<lparr>ec_target = Listener 1, ec_event = 7, ec_sync = None, ec_support = True\<rparr>"
  by (simp_all add: demo_queued_def posted_def new_pending_Cons new_calls_Cons dispatch_place_def
      demo_registered_def es_new_def es_targets_def)
    (simp_all add: new_pending_def upt_rec)

lemma es_disable_sel [simp]:
  "es_pending (es_disable cs s) = es_pending s" "es_alive (es_disable cs s) = es_alive s"
  "es_delivered (es_disable cs s) = es_delivered s"
  by (simp_all add: es_disable_def)

lemma new_Nil [simp]: "new_calls e n [] = []" "new_pending cur n [] = []"
  by (simp_all add: new_calls_def new_pending_def)


definition demo_dead :: "nat event_support" where
  "demo_dead = (es_disable (es_calls demo_queued) demo_queued)\<lparr>es_listeners := [], es_delegates := [], es_alive := False\<rparr>"

lemma demo_dead_simps [simp]:
  "es_pending demo_dead = es_pending demo_queued" "\<not> es_alive demo_dead" "es_delivered demo_dead = []"
  unfolding demo_dead_def by simp_all

lemma es_destroy_run:
  "es_guarded s = 0 \<Longrightarrow> es_destroy s =
     (Inr (), (es_disable (es_calls s) s)\<lparr>es_listeners := [], es_delegates := [], es_alive := False\<rparr>)"
  by (simp add: es_destroy_def thenP_def bindP_def assertP_def modifyP_def)

lemma demo_dead_reach: "es_reach silent demo_dead"
proof -
  have "es_destroy demo_queued = (Inr (), demo_dead)"
    unfolding demo_dead_def by (rule es_destroy_run) simp
  then have "es_exec silent None Destroy demo_queued = (Inr (), demo_dead)"
    by (simp add: es_exec_def)
  from es_reach_api [OF demo_queued_reach _ this] show ?thesis by simp
qed


text \<open>Listener 1 moves to thread 5 before the main loop runs: listener 2 hears the event twice.\<close>

theorem ping_pong_emits_to_all_witness:
  "\<exists>s t. es_reach silent s \<and> es_dispatch silent None 0 s = (Inr (), t) \<and>
     map (\<lambda>p. map_option ec_target (es_heap t (pd_call p))) (es_pending t) =
       [Some (Listener 2), Some (Listener 1), Some (Listener 2)]"
proof -
  let ?s = "demo_queued\<lparr>es_listeners := [(1, Some 5), (2, Some 5)]\<rparr>"
  have l: "es_listeners demo_queued = [(1, None), (2, Some 5)]"
    by (simp add: demo_queued_def posted_def demo_registered_def)
  have "es_exec silent None (SwitchListenerToThread (Listener 1) (Some 5)) demo_queued = (Inr (), ?s)"
    by (simp add: es_exec_def es_switch_listener_def prog_simps l sm_find_def)
  from es_reach_api [OF demo_queued_reach _ this] have reach: "es_reach silent ?s" by simp
  have disp: "dispatchable None 0 ?s" by (simp add: dispatchable_def)
  have tg: "es_targets ?s = [(Listener 1, Some 5), (Listener 2, Some 5)]"
    by (simp add: es_targets_def demo_queued_def posted_def demo_registered_def es_new_def)
  have heap: "es_heap demo_queued 2 = Some \<lparr>ec_target = Listener 2, ec_event = 7, ec_sync = None, ec_support = True\<rparr>"
    by (simp add: demo_queued_def posted_def new_calls_Cons)
  obtain t where t: "es_dispatch silent None 0 ?s = (Inr (), t)"
    "es_pending t = [\<lparr>pd_place = ThreadQueue 5, pd_due = None, pd_poster = None, pd_call = 2\<rparr>] @
       new_pending None 3 [(Listener 1, Some 5), (Listener 2, Some 5)]"
    "es_heap t = (es_heap demo_queued ++ map_of (new_calls 7 3 [(Listener 1, Some 5), (Listener 2, Some 5)]))(1 := None)"
    using ping_pong_emits_to_all [OF reach _ disp, where thr = "Some 5" and
        k = "\<lparr>ec_target = Listener 1, ec_event = 7, ec_sync = None, ec_support = True\<rparr>"]
      demo_queued_simps(8) tg [unfolded One_nat_def]
    by (auto simp: sm_find_def)
  then have "map (\<lambda>p. map_option ec_target (es_heap t (pd_call p))) (es_pending t) =
       [Some (Listener 2), Some (Listener 1), Some (Listener 2)]"
    using heap by (simp add: new_pending_Cons new_calls_Cons map_add_def new_pending_def)
  with t(1) reach show ?thesis by (intro exI conjI)
qed


theorem event_dispatch_fifo_witness:
  "\<exists>s. es_reach silent s \<and> dispatchable None 0 s \<and> length (es_pending s) = 4 \<and>
     pd_call (es_pending s ! 0) < pd_call (es_pending s ! 2)"
proof -
  define s where "s = posted None 8 (es_targets demo_queued) demo_queued"
  have "es_exec silent None (EmitEvent Queued 8 0) demo_queued = (Inr (), s)"
    by (simp add: es_exec_def es_emit_queued s_def thenP_def bindP_def ret_def)
  from es_reach_api [OF demo_queued_reach _ this] have reach: "es_reach silent s" by simp
  have pend: "es_pending s = es_pending demo_queued @ new_pending None 3 [(Listener 1, None), (Listener 2, Some 5)]"
    by (simp add: posted_def s_def)
  have disp: "dispatchable None 0 s" unfolding dispatchable_def pend by (simp add: Let_def)
  have len: "2 < length (es_pending s)" unfolding pend by (simp add: new_pending_Cons)
  have due: "pd_due (es_pending s ! 0) = None" unfolding pend by simp
  have way: "same_way (es_pending s ! 0) (es_pending s ! 2)"
    unfolding pend by (simp add: same_way_def new_pending_Cons dispatch_place_def)
  have "pd_call (es_pending s ! 0) < pd_call (es_pending s ! 2)"
    by (rule event_dispatch_fifo [OF reach disp due len _ way]) simp
  moreover have "length (es_pending s) = 4" unfolding pend by (simp add: new_pending_Cons)
  ultimately show ?thesis using reach disp by blast
qed

section \<open>Destruction against a call that ends\<close>

text \<open>
  Inside the two atomic steps above, the destructor takes the list's mutex and then, in
  \<open>DisableEvent\<close>, the mutex of each call's data, while \<open>~EventSupportData\<close> holds its own mutex
  and then, in \<open>RemoveEventCall\<close>, takes the list's.  The destructor's thread and a thread that
  ends one call, at the grain of their lock operations:
\<close>

datatype destroyer = DestroyStart | DestroyList | DestroyData | DestroyReset | DestroyEnd

datatype finisher = FreeStart | FreeData | FreeList | FreeErased | FreeEnd

record lock_state =
  ls_destroyer :: destroyer
  ls_finisher :: finisher
  ls_list_mutex :: bool
  ls_data_mutex :: bool
  ls_supported :: bool

definition locks_start :: lock_state where
  "locks_start = \<lparr>ls_destroyer = DestroyStart, ls_finisher = FreeStart, ls_list_mutex = False,
                  ls_data_mutex = False, ls_supported = True\<rparr>"

fun destroyer_step :: "lock_state \<Rightarrow> lock_state option" where
  "destroyer_step s =
     (case ls_destroyer s of
        DestroyStart \<Rightarrow>
          (if ls_list_mutex s then None else Some (s\<lparr>ls_destroyer := DestroyList, ls_list_mutex := True\<rparr>))
      | DestroyList \<Rightarrow>
          (if ls_data_mutex s then None else Some (s\<lparr>ls_destroyer := DestroyData, ls_data_mutex := True\<rparr>))
      | DestroyData \<Rightarrow> Some (s\<lparr>ls_destroyer := DestroyReset, ls_supported := False, ls_data_mutex := False\<rparr>)
      | DestroyReset \<Rightarrow> Some (s\<lparr>ls_destroyer := DestroyEnd, ls_list_mutex := False\<rparr>)
      | DestroyEnd \<Rightarrow> None)"

fun finisher_step :: "lock_state \<Rightarrow> lock_state option" where
  "finisher_step s =
     (case ls_finisher s of
        FreeStart \<Rightarrow>
          (if ls_data_mutex s then None else Some (s\<lparr>ls_finisher := FreeData, ls_data_mutex := True\<rparr>))
      | FreeData \<Rightarrow>
          (if \<not> ls_supported s then Some (s\<lparr>ls_finisher := FreeErased\<rparr>)
           else if ls_list_mutex s then None
           else Some (s\<lparr>ls_finisher := FreeList, ls_list_mutex := True\<rparr>))
      | FreeList \<Rightarrow> Some (s\<lparr>ls_finisher := FreeErased, ls_list_mutex := False\<rparr>)
      | FreeErased \<Rightarrow> Some (s\<lparr>ls_finisher := FreeEnd, ls_data_mutex := False\<rparr>)
      | FreeEnd \<Rightarrow> None)"

inductive locks_reach :: "lock_state \<Rightarrow> bool" where
  start: "locks_reach locks_start"
| destroyer: "locks_reach s \<Longrightarrow> destroyer_step s = Some t \<Longrightarrow> locks_reach t"
| finisher: "locks_reach s \<Longrightarrow> finisher_step s = Some t \<Longrightarrow> locks_reach t"

definition locks_stuck :: "lock_state \<Rightarrow> bool" where
  "locks_stuck s \<longleftrightarrow> destroyer_step s = None \<and> finisher_step s = None \<and>
     (ls_destroyer s \<noteq> DestroyEnd \<or> ls_finisher s \<noteq> FreeEnd)"

text \<open>
  Destroying a support while another thread ends one of its calls can block both for ever: the
  two mutexes are taken in opposite orders.
\<close>

theorem destroy_lock_inversion:
  "\<exists>s. locks_reach s \<and> locks_stuck s \<and> ls_destroyer s = DestroyList \<and> ls_finisher s = FreeData"
proof -
  let ?a = "locks_start\<lparr>ls_destroyer := DestroyList, ls_list_mutex := True\<rparr>"
  let ?b = "?a\<lparr>ls_finisher := FreeData, ls_data_mutex := True\<rparr>"
  have "locks_reach ?a" by (rule locks_reach.destroyer [OF locks_reach.start]) (simp add: locks_start_def)
  then have "locks_reach ?b" by (rule locks_reach.finisher) (simp add: locks_start_def)
  then show ?thesis by (intro exI [of _ ?b]) (simp add: locks_stuck_def locks_start_def)
qed

end
