(* ===== verification/Property.thy ===== *)
theory Property
  imports EventSupport
begin

text \<open>
  \<open>DPL::Event::Property\<close> (modules/event/include/dpl/event/property.h): a model's field with its
  storage method, its access rights and the event it emits when it changes.  The read and write
  delegates are programs over the external store; the listeners are those of the property's
  \<open>EventSupport\<close>, with the operations \<open>H\<close> gives them.
\<close>

datatype storage_method = PropertyStorageCached | PropertyStorageDynamic | PropertyStorageDynamicCached

record ('v, 'w) property =
  pr_storage :: storage_method
  pr_read :: "('w, 'v) prog option"
  pr_write :: "('v \<Rightarrow> ('w, unit) prog) option"
  pr_value :: 'v
  pr_once :: bool
  pr_world :: 'w
  pr_write_locked :: bool
  pr_support :: "'v event_support"

type_synonym ('v, 'w, 'a) pr_prog = "(('v, 'w) property, 'a) prog"

section \<open>Storage methods\<close>

text \<open>A program over one member of the property.\<close>

definition on_world :: "('w, 'a) prog \<Rightarrow> ('v, 'w, 'a) pr_prog" where
  "on_world m s = (case m (pr_world s) of (r, w) \<Rightarrow> (r, s\<lparr>pr_world := w\<rparr>))"

definition on_support :: "('v, 'a) es_prog \<Rightarrow> ('v, 'w, 'a) pr_prog" where
  "on_support m s = (case m (pr_support s) of (r, es) \<Rightarrow> (r, s\<lparr>pr_support := es\<rparr>))"

definition pr_call_read :: "('v, 'w, 'v) pr_prog" where
  "pr_call_read = (\<lambda>s. case pr_read s of None \<Rightarrow> raise AssertFailed s | Some rd \<Rightarrow> on_world rd s)"

definition pr_call_write :: "'v \<Rightarrow> ('v, 'w, unit) pr_prog" where
  "pr_call_write v = (\<lambda>s. case pr_write s of None \<Rightarrow> raise AssertFailed s | Some wr \<Rightarrow> on_world (wr v) s)"

definition pr_store :: "'v \<Rightarrow> ('v, 'w, unit) pr_prog" where
  "pr_store v = modifyP (\<lambda>s. s\<lparr>pr_value := v\<rparr>)"

text \<open>\<open>Once::Call\<close>: a delegate that throws leaves the flag as it was.\<close>

definition once_call :: "('v, 'w, unit) pr_prog \<Rightarrow> ('v, 'w, unit) pr_prog" where
  "once_call delegate = (\<lambda>s.
     if pr_once s then ret () s
     else thenP delegate (modifyP (\<lambda>s. s\<lparr>pr_once := True\<rparr>)) s)"

definition st_get :: "('v, 'w, 'v) pr_prog" where
  "st_get = (\<lambda>s.
     (case pr_storage s of
        PropertyStorageCached \<Rightarrow> (\<lambda>s. ret (pr_value s) s)
      | PropertyStorageDynamic \<Rightarrow> pr_call_read
      | PropertyStorageDynamicCached \<Rightarrow>
          thenP (assertP (\<lambda>s. pr_read s \<noteq> None))
            (thenP (once_call (bindP pr_call_read pr_store)) (\<lambda>s. ret (pr_value s) s))) s)"

definition st_set :: "'v \<Rightarrow> ('v, 'w, unit) pr_prog" where
  "st_set v = (\<lambda>s.
     (case pr_storage s of
        PropertyStorageCached \<Rightarrow> pr_store v
      | PropertyStorageDynamic \<Rightarrow> pr_call_write v
      | PropertyStorageDynamicCached \<Rightarrow>
          thenP (assertP (\<lambda>s. pr_write s \<noteq> None))
            (thenP (pr_call_write v) (thenP (pr_store v) (once_call (ret ()))))) s)"

section \<open>Properties\<close>

text \<open>
  Construction.  A read-only property never has a write delegate; \<open>dflt\<close> is the value of the
  default-constructed member.
\<close>

definition pr_base ::
  "storage_method \<Rightarrow> ('w, 'v) prog option \<Rightarrow> ('v \<Rightarrow> ('w, unit) prog) option \<Rightarrow> 'v \<Rightarrow> 'w \<Rightarrow> ('v, 'w) property" where
  "pr_base st rd wr dflt w =
     \<lparr>pr_storage = st, pr_read = rd, pr_write = wr, pr_value = dflt, pr_once = False, pr_world = w,
      pr_write_locked = False, pr_support = es_new\<rparr>"

definition pr_read_only ::
  "storage_method \<Rightarrow> ('w, 'v) prog option \<Rightarrow> 'v option \<Rightarrow> 'v \<Rightarrow> 'w \<Rightarrow> unit res \<times> ('v, 'w) property" where
  "pr_read_only st rd initial dflt w =
     (case initial of
        None \<Rightarrow> ret () (pr_base st rd None dflt w)
      | Some v \<Rightarrow> st_set v (pr_base st rd None dflt w))"

definition pr_read_write ::
  "storage_method \<Rightarrow> ('w, 'v) prog option \<Rightarrow> ('v \<Rightarrow> ('w, unit) prog) option \<Rightarrow> 'v option \<Rightarrow> 'v \<Rightarrow> 'w \<Rightarrow>
   unit res \<times> ('v, 'w) property" where
  "pr_read_write st rd wr initial dflt w =
     (case initial of
        None \<Rightarrow> ret () (pr_base st rd wr dflt w)
      | Some v \<Rightarrow> st_set v (pr_base st rd wr dflt w))"

text \<open>
  The model's read-write lock, as the thread that holds it for writing meets it: a second lock is
  refused.
\<close>

definition with_read_lock :: "('v, 'w, 'a) pr_prog \<Rightarrow> ('v, 'w, 'a) pr_prog" where
  "with_read_lock m = (\<lambda>s. if pr_write_locked s then raise ReadLockFailed s else m s)"

definition with_write_lock :: "('v, 'w, 'a) pr_prog \<Rightarrow> ('v, 'w, 'a) pr_prog" where
  "with_write_lock m = (\<lambda>s.
     if pr_write_locked s then raise WriteLockFailed s
     else (case m (s\<lparr>pr_write_locked := True\<rparr>) of (r, t) \<Rightarrow> (r, t\<lparr>pr_write_locked := False\<rparr>)))"

definition prop_get :: "('v, 'w, 'v) pr_prog" where
  "prop_get = with_read_lock st_get"

text \<open>The part of both setters that changes the storage; it tells whether the value was new.\<close>

definition st_update :: "'v \<Rightarrow> ('v, 'w, bool) pr_prog" where
  "st_update v = bindP st_get (\<lambda>x. if x = v then ret False else thenP (st_set v) (ret True))"

definition prop_set_without_lock :: "'v \<Rightarrow> ('v, 'w, unit) pr_prog" where
  "prop_set_without_lock v = thenP (st_update v) (ret ())"

definition prop_set :: "'v handler \<Rightarrow> thread \<Rightarrow> 'v \<Rightarrow> ('v, 'w, unit) pr_prog" where
  "prop_set H cur v =
     with_write_lock
       (bindP (st_update v)
         (\<lambda>new. if new then thenP (on_support (es_emit H cur Auto v 0)) (ret ()) else ret ()))"

definition prop_add_listener :: "thread \<Rightarrow> nat \<Rightarrow> ('v, 'w, unit) pr_prog" where
  "prop_add_listener cur d = on_support (es_add_listener cur (Delegate d))"

definition prop_remove_listener :: "nat \<Rightarrow> ('v, 'w, unit) pr_prog" where
  "prop_remove_listener d = on_support (es_remove_listener (Delegate d))"

section \<open>What a storage promises\<close>

text \<open>
  A cell: reading gives its view and keeps it, writing replaces it.  Whatever the storage, an
  update over a cell changes it exactly when the value is new.
\<close>

locale cell =
  fixes get :: "('s, 'v) prog"
    and set :: "'v \<Rightarrow> ('s, unit) prog"
    and view :: "'s \<Rightarrow> 'v"
    and good :: "'s \<Rightarrow> bool"
  assumes get_view: "good s \<Longrightarrow> \<exists>t. get s = (Inr (view s), t) \<and> good t \<and> view t = view s"
    and set_view: "good s \<Longrightarrow> \<exists>t. set v s = (Inr (), t) \<and> good t \<and> view t = v"
begin

lemma update_view:
  assumes "good s"
  shows "\<exists>t. bindP get (\<lambda>x. if x = v then ret False else thenP (set v) (ret True)) s =
             (Inr (view s \<noteq> v), t) \<and> good t \<and> view t = v"
proof -
  obtain u where u: "get s = (Inr (view s), u)" "good u" "view u = view s"
    using get_view [OF assms] by blast
  obtain t where "set v u = (Inr (), t)" "good t" "view t = v" using set_view [OF u(2)] by blast
  with u show ?thesis by (auto simp: bindP_def thenP_def ret_def)
qed

lemma get_after_update:
  assumes "good s"
  shows "\<exists>t. thenP (bindP get (\<lambda>x. if x = v then ret False else thenP (set v) (ret True))) get s = (Inr v, t)"
proof -
  obtain t where t: "bindP get (\<lambda>x. if x = v then ret False else thenP (set v) (ret True)) s =
      (Inr (view s \<noteq> v), t)" "good t" "view t = v"
    using update_view [OF assms] by blast
  from get_view [OF t(2)] t show ?thesis by (auto simp: thenP_def bindP_def)
qed

end

text \<open>
  The delegates of a coherent external store: the value \<open>peek\<close> is what is read, reading keeps it,
  and what is written is read next.
\<close>

definition coherent :: "('w \<Rightarrow> 'v) \<Rightarrow> ('v, 'w) property \<Rightarrow> bool" where
  "coherent peek s \<longleftrightarrow>
     pr_storage s \<noteq> PropertyStorageCached \<longrightarrow>
       (\<exists>rd wr. pr_read s = Some rd \<and> pr_write s = Some wr \<and>
          (\<forall>w. \<exists>w'. rd w = (Inr (peek w), w') \<and> peek w' = peek w) \<and>
          (\<forall>v w. \<exists>w'. wr v w = (Inr (), w') \<and> peek w' = v))"

definition pr_view :: "('w \<Rightarrow> 'v) \<Rightarrow> ('v, 'w) property \<Rightarrow> 'v" where
  "pr_view peek s =
     (case pr_storage s of
        PropertyStorageCached \<Rightarrow> pr_value s
      | PropertyStorageDynamic \<Rightarrow> peek (pr_world s)
      | PropertyStorageDynamicCached \<Rightarrow> (if pr_once s then pr_value s else peek (pr_world s)))"

lemmas storage_defs = pr_call_read_def pr_call_write_def pr_store_def once_call_def on_world_def

lemma st_get_view:
  assumes "coherent peek s"
  shows "\<exists>t. st_get s = (Inr (pr_view peek s), t) \<and> coherent peek t \<and> pr_view peek t = pr_view peek s"
proof (cases "pr_storage s = PropertyStorageCached")
  case True
  with assms show ?thesis by (simp add: st_get_def pr_view_def ret_def coherent_def)
next
  case False
  with assms obtain rd wr where d: "pr_read s = Some rd" "pr_write s = Some wr"
    "\<forall>w. \<exists>w'. rd w = (Inr (peek w), w') \<and> peek w' = peek w"
    "\<forall>v w. \<exists>w'. wr v w = (Inr (), w') \<and> peek w' = v"
    unfolding coherent_def by blast
  then obtain w' where w': "rd (pr_world s) = (Inr (peek (pr_world s)), w')" "peek w' = peek (pr_world s)"
    by blast
  with d False show ?thesis
    by (cases "pr_storage s") (auto simp: st_get_def pr_view_def coherent_def storage_defs prog_simps)
qed

lemma st_set_view:
  assumes "coherent peek s"
  shows "\<exists>t. st_set v s = (Inr (), t) \<and> coherent peek t \<and> pr_view peek t = v"
proof (cases "pr_storage s = PropertyStorageCached")
  case True
  with assms show ?thesis by (simp add: st_set_def pr_view_def coherent_def pr_store_def modifyP_def)
next
  case False
  with assms obtain rd wr where d: "pr_read s = Some rd" "pr_write s = Some wr"
    "\<forall>w. \<exists>w'. rd w = (Inr (peek w), w') \<and> peek w' = peek w"
    "\<forall>v w. \<exists>w'. wr v w = (Inr (), w') \<and> peek w' = v"
    unfolding coherent_def by blast
  then obtain w' where w': "wr v (pr_world s) = (Inr (), w')" "peek w' = v"
    by blast
  with d False show ?thesis
    by (cases "pr_storage s") (auto simp: st_set_def pr_view_def coherent_def storage_defs prog_simps)
qed

interpretation storage: cell st_get st_set "pr_view peek" "coherent peek"
  for peek
  by unfold_locales (rule st_get_view st_set_view, assumption)+

section \<open>Setting and emitting\<close>

text \<open>The storage does not touch the listeners or the lock.\<close>

lemma keeps_on_world: "keeps (\<lambda>s. pr_support s = es \<and> pr_write_locked s = l) (on_world m)"
  by (simp add: keeps_def on_world_def split: prod.split)

lemma keeps_storage:
  "keeps (\<lambda>s. pr_support s = es \<and> pr_write_locked s = l) (st_get :: ('v, 'w, 'v) pr_prog)"
  "keeps (\<lambda>s. pr_support s = es \<and> pr_write_locked s = l) (st_set v :: ('v, 'w, unit) pr_prog)"
proof -
  have rd: "keeps (\<lambda>s. pr_support s = es \<and> pr_write_locked s = l) (pr_call_read :: ('v, 'w, 'v) pr_prog)"
    using keeps_on_world by (fastforce simp: keeps_def pr_call_read_def raise_def split: option.split)
  have wr: "keeps (\<lambda>s. pr_support s = es \<and> pr_write_locked s = l) (pr_call_write v :: ('v, 'w, unit) pr_prog)" for v
    using keeps_on_world by (fastforce simp: keeps_def pr_call_write_def raise_def split: option.split)
  have store: "keeps (\<lambda>s. pr_support s = es \<and> pr_write_locked s = l) (pr_store v :: ('v, 'w, unit) pr_prog)" for v
    unfolding pr_store_def by (intro keeps_modify) simp
  have once: "keeps (\<lambda>s. pr_support s = es \<and> pr_write_locked s = l) (once_call d)"
    if "keeps (\<lambda>s. pr_support s = es \<and> pr_write_locked s = l) d" for d :: "('v, 'w, unit) pr_prog"
    unfolding once_call_def by (intro keeps_if keeps_ret keeps_then that keeps_modify) simp
  have val: "keeps (\<lambda>s. pr_support s = es \<and> pr_write_locked s = l) (\<lambda>s :: ('v, 'w) property. ret (pr_value s) s)"
    by (simp add: keeps_def ret_def)
  have get: "keeps (\<lambda>s. pr_support s = es \<and> pr_write_locked s = l)
      (thenP (assertP (\<lambda>s. pr_read s \<noteq> None))
        (thenP (once_call (bindP pr_call_read pr_store)) (\<lambda>s :: ('v, 'w) property. ret (pr_value s) s)))"
    by (intro keeps_then keeps_assert once keeps_bind rd store val)
  have set: "keeps (\<lambda>s. pr_support s = es \<and> pr_write_locked s = l)
      (thenP (assertP (\<lambda>s. pr_write s \<noteq> None))
        (thenP (pr_call_write v) (thenP (pr_store v) (once_call (ret ())))) :: ('v, 'w, unit) pr_prog)"
    by (intro keeps_then keeps_assert once wr store keeps_ret)
  show "keeps (\<lambda>s. pr_support s = es \<and> pr_write_locked s = l) (st_get :: ('v, 'w, 'v) pr_prog)"
    using rd val get unfolding st_get_def keeps_def by (simp split: storage_method.split)
  show "keeps (\<lambda>s. pr_support s = es \<and> pr_write_locked s = l) (st_set v :: ('v, 'w, unit) pr_prog)"
    using wr [of v] store [of v] set unfolding st_set_def keeps_def by (simp split: storage_method.split)
qed

lemma keeps_update: "keeps (\<lambda>s. pr_support s = es \<and> pr_write_locked s = l) (st_update v)"
proof -
  have "keeps (\<lambda>s. pr_support s = es \<and> pr_write_locked s = l)
      (if x = v then ret False else thenP (st_set v) (ret True))" for x
    by (cases "x = v") (simp_all add: keeps_ret keeps_then keeps_storage)
  then show ?thesis unfolding st_update_def by (intro keeps_bind keeps_storage)
qed

lemma st_update_view:
  assumes "coherent peek s"
  shows "\<exists>t. st_update v s = (Inr (pr_view peek s \<noteq> v), t) \<and> coherent peek t \<and> pr_view peek t = v \<and>
           pr_support t = pr_support s \<and> pr_write_locked t = pr_write_locked s"
proof -
  obtain t where t: "st_update v s = (Inr (pr_view peek s \<noteq> v), t)" "coherent peek t" "pr_view peek t = v"
    using storage.update_view [OF assms, of v] unfolding st_update_def by blast
  with keepsD [OF keeps_update, of s "pr_support s" "pr_write_locked s" v] show ?thesis by simp
qed

lemma view_lock [simp]:
  "coherent peek (s\<lparr>pr_write_locked := l\<rparr>) = coherent peek s"
  "pr_view peek (s\<lparr>pr_write_locked := l\<rparr>) = pr_view peek s"
  "coherent peek (s\<lparr>pr_support := es\<rparr>) = coherent peek s"
  "pr_view peek (s\<lparr>pr_support := es\<rparr>) = pr_view peek s"
  by (simp_all add: coherent_def pr_view_def split: storage_method.split)

lemma prop_set_run:
  assumes coh: "coherent peek s" and free: "\<not> pr_write_locked s"
  shows "\<exists>t. coherent peek t \<and> pr_view peek t = v \<and> pr_support t = pr_support s \<and> \<not> pr_write_locked t \<and>
           prop_set H cur v s =
             (if pr_view peek s = v then (Inr (), t)
              else (case es_emit H cur Auto v 0 (pr_support s) of
                      (r, es) \<Rightarrow> (map_sum id (\<lambda>_. ()) r, t\<lparr>pr_support := es\<rparr>)))"
proof -
  obtain u where u: "st_update v (s\<lparr>pr_write_locked := True\<rparr>) = (Inr (pr_view peek s \<noteq> v), u)"
    "coherent peek u" "pr_view peek u = v" "pr_support u = pr_support s"
    using st_update_view [of peek "s\<lparr>pr_write_locked := True\<rparr>" v] coh by auto
  obtain r es where e: "es_emit H cur Auto v 0 (pr_support s) = (r, es)" by fastforce
  let ?t = "u\<lparr>pr_write_locked := False\<rparr>"
  have "prop_set H cur v s =
      (if pr_view peek s = v then (Inr (), ?t) else (map_sum id (\<lambda>_. ()) r, ?t\<lparr>pr_support := es\<rparr>))"
    using free u e
    by (cases r) (auto simp: prop_set_def with_write_lock_def bindP_def thenP_def ret_def on_support_def)
  with u e show ?thesis by (intro exI [of _ ?t]) simp
qed

section \<open>Properties of properties\<close>

text \<open>
  Setting a property over a coherent store, whatever its storage method: when the listeners of
  the calling thread do nothing on the support, \<open>Set\<close> returns, the property then has the value,
  the lock is free again, and the event is emitted exactly when the value is new.
\<close>

theorem property_set_effect:
  assumes "coherent peek s" and "\<not> pr_write_locked s"
    and "list_all (\<lambda>(t, thr). thr = cur \<longrightarrow> H t v = []) (es_targets (pr_support s))"
  shows "\<exists>t. prop_set H cur v s = (Inr (), t) \<and> \<not> pr_write_locked t \<and> coherent peek t \<and>
           fst (prop_get t) = Inr v \<and>
           pr_support t = (if pr_view peek s = v then pr_support s
                           else snd (es_emit H cur Auto v 0 (pr_support s)))"
proof -
  obtain t where t: "coherent peek t" "pr_view peek t = v" "pr_support t = pr_support s" "\<not> pr_write_locked t"
    "prop_set H cur v s =
             (if pr_view peek s = v then (Inr (), t)
              else (case es_emit H cur Auto v 0 (pr_support s) of
                      (r, es) \<Rightarrow> (map_sum id (\<lambda>_. ()) r, t\<lparr>pr_support := es\<rparr>)))"
    using prop_set_run [OF assms(1,2)] by blast
  have get: "fst (prop_get u) = Inr v" if "coherent peek u" "pr_view peek u = v" "\<not> pr_write_locked u" for u
    using st_get_view [OF that(1)] that(2,3) by (auto simp: prop_get_def with_read_lock_def)
  obtain es where es: "es_emit H cur Auto v 0 (pr_support s) = (Inr [], es)"
    using assms(3) es_emit_auto_list unfolding es_emit_def by (metis prod.collapse)
  show ?thesis
  proof (cases "pr_view peek s = v")
    case True
    with t get show ?thesis by auto
  next
    case False
    have "fst (prop_get (t\<lparr>pr_support := es\<rparr>)) = Inr v" using t by (intro get) simp_all
    with False t es show ?thesis by simp
  qed
qed

text \<open>
  The event is emitted with the model's lock held for writing: a listener of the calling
  thread that reads or sets a property of the model gets a lock exception, which aborts the
  process.
\<close>

theorem property_listener_reads_aborts:
  assumes "coherent peek s" and "\<not> pr_write_locked s" and "pr_view peek s \<noteq> v"
    and "es_targets (pr_support s) = (t, cur) # rest" and "H t v = Throw x # ops"
    and "x = ReadLockFailed \<or> x = WriteLockFailed"
  shows "fst (prop_set H cur v s) = Inl Aborted \<and>
         fst (prop_get (s\<lparr>pr_write_locked := True\<rparr>)) = Inl ReadLockFailed \<and>
         fst (prop_set H cur w (s\<lparr>pr_write_locked := True\<rparr>)) = Inl WriteLockFailed"
proof -
  obtain r es where r: "es_guarded_call cur t v (es_locked_body (H t v)) (pr_support s) = (r, es)" by fastforce
  then have "r = Inl Aborted"
    using guarded_locked_result [of cur t v "H t v" "pr_support s"] assms(5,6) by (auto simp: terminal_def)
  with r assms(4) have "es_emit H cur Auto v 0 (pr_support s) = (Inl Aborted, es)"
    by (simp add: es_emit_def es_emit_one_def thenP_def bindP_def)
  with prop_set_run [OF assms(1,2), of v H cur] assms(3) show ?thesis
    by (auto simp: prop_get_def prop_set_def with_read_lock_def with_write_lock_def raise_def)
qed

text \<open>
  A read-only property can be given an initial value only with cached storage: with the dynamic
  storages its constructor asserts, whatever read delegate it is given.
\<close>

theorem read_only_initial_value:
  "fst (pr_read_only st rd initial dflt w) =
     (if initial = None \<or> st = PropertyStorageCached then Inr () else Inl AssertFailed)"
  by (cases st; cases initial)
    (simp_all add: pr_read_only_def st_set_def pr_base_def storage_defs prog_simps)

text \<open>The read delegate of a cached dynamic property is called at most once.\<close>

lemma dynamic_cached_reads_once:
  assumes "pr_storage s = PropertyStorageDynamicCached" and "st_get s = (Inr v, t)"
  shows "st_get t = (Inr v, t)"
proof -
  obtain rd where rd: "pr_read s = Some rd"
    using assms by (cases "pr_read s") (auto simp: st_get_def prog_simps)
  show ?thesis
  proof (cases "pr_once s")
    case True
    with assms rd show ?thesis by (auto simp: st_get_def once_call_def prog_simps)
  next
    case False
    obtain r w where "rd (pr_world s) = (r, w)" by fastforce
    with False assms rd show ?thesis
      by (cases r) (auto simp: st_get_def storage_defs prog_simps)
  qed
qed

theorem property_set_effect_witness:
  "\<exists>t. prop_set (\<lambda>_ _. []) None 5 (pr_base PropertyStorageCached None None (0 :: nat) ()) = (Inr (), t) \<and>
     fst (prop_get t) = Inr 5"
  using property_set_effect [of "\<lambda>_. 0" "pr_base PropertyStorageCached None None (0 :: nat) ()" None
      "\<lambda>_ _. []" 5]
  by (auto simp: coherent_def pr_base_def es_targets_def es_new_def)

theorem property_listener_reads_aborts_witness:
  "fst (prop_set (\<lambda>_ _. [Throw ReadLockFailed]) None 5
     ((pr_base PropertyStorageCached None None (0 :: nat) ())
        \<lparr>pr_support := es_new\<lparr>es_delegates := [(1, None)]\<rparr>\<rparr>)) = Inl Aborted"
  using property_listener_reads_aborts [of "\<lambda>_. 0" "(pr_base PropertyStorageCached None None (0 :: nat) ())
        \<lparr>pr_support := es_new\<lparr>es_delegates := [(1, None)]\<rparr>\<rparr>" 5 "Delegate 1" None "[]"
      "\<lambda>_ _. [Throw ReadLockFailed]" ReadLockFailed "[]"]
  by (simp add: coherent_def pr_base_def es_targets_def es_new_def pr_view_def)

end
