(* ===== verification/ThreadLoop.thy ===== *)
theory ThreadLoop
  imports Complex_Main WaitableHandles
begin

text \<open>
  \<open>DPL::Thread\<close> (modules/core/src/thread.cpp): the event list, the timed events and the loop that
  waits on four handles of its own and on the watched ones.  An event is a number; \<open>E\<close> gives what
  its dispatch procedure and what a watch listener does.  \<open>tl_invoker\<close>, \<open>tl_timed_invoker\<close> and
  \<open>tl_quit_event\<close> count the bytes in the pipes of the three waitable events.  \<open>unsigned long\<close> has the
  32 bits of the targets.  The loop is in its own thread, so its operations on the registry take
  the direct way and \<open>m_directInvoke\<close> is set when \<open>ws_direct\<close> has grown since it was last cleared.
\<close>

type_synonym ulong = "32 word"

record timed_event =
  te_event :: nat
  te_due :: ulong
  te_register :: ulong

record thread_loop =
  tl_ws :: watch_support
  tl_events :: "nat list"
  tl_invoker :: nat
  tl_timed :: "timed_event list"
  tl_timed_invoker :: nat
  tl_quit_event :: nat
  tl_direct_seen :: nat
  tl_now :: ulong
  tl_pushed :: "nat list"
  tl_dispatched :: "nat list"
  tl_deleted :: "nat list"

type_synonym 'a tl_prog = "(thread_loop, 'a) prog"

record loop_env =
  le_dispatch :: "nat \<Rightarrow> unit tl_prog"
  le_listener :: "listener \<Rightarrow> int \<Rightarrow> wait_mode \<Rightarrow> unit tl_prog"

definition tl_new :: "nat \<Rightarrow> thread_loop" where
  "tl_new self =
     \<lparr>tl_ws = ws_new (Some self), tl_events = [], tl_invoker = 0, tl_timed = [], tl_timed_invoker = 0,
      tl_quit_event = 0, tl_direct_seen = 0, tl_now = 0, tl_pushed = [], tl_dispatched = [], tl_deleted = []\<rparr>"

section \<open>Immediate events\<close>

text \<open>
  A pipe takes 64 KiB; \<open>Signal\<close> writes a byte and blocks when the pipe is full, holding the event
  mutex its reader needs.
\<close>

definition pipe_capacity :: nat where
  "pipe_capacity = 65536"

definition push_event :: "nat \<Rightarrow> unit tl_prog" where
  "push_event e = (\<lambda>s.
     let t = s\<lparr>tl_events := tl_events s @ [e], tl_pushed := tl_pushed s @ [e]\<rparr>
     in if tl_invoker s \<ge> pipe_capacity then raise Deadlock t
        else ret () (t\<lparr>tl_invoker := tl_invoker s + 1\<rparr>))"

definition delete_event :: "nat \<Rightarrow> unit tl_prog" where
  "delete_event e = modifyP (\<lambda>s. s\<lparr>tl_deleted := tl_deleted s @ [e]\<rparr>)"

primrec dispatch_events :: "loop_env \<Rightarrow> nat list \<Rightarrow> unit tl_prog" where
  "dispatch_events E [] = ret ()"
| "dispatch_events E (e # es) =
     thenP (modifyP (\<lambda>s. s\<lparr>tl_dispatched := tl_dispatched s @ [e]\<rparr>))
       (thenP (le_dispatch E e) (thenP (delete_event e) (dispatch_events E es)))"

definition process_events :: "loop_env \<Rightarrow> unit tl_prog" where
  "process_events E = (\<lambda>s.
     let stolen = tl_events s; t = s\<lparr>tl_events := []\<rparr>
     in if tl_invoker s = 0 then raise ResetFailed t
        else dispatch_events E stolen (t\<lparr>tl_invoker := tl_invoker s - 1\<rparr>))"

section \<open>Timed events\<close>

text \<open>
  The vector is a heap whose front is an earliest event; the model keeps it sorted, which is one of
  its arrangements, and resolves ties in favour of the newest.
\<close>

definition te_time :: "timed_event \<Rightarrow> ulong" where
  "te_time t = te_register t + te_due t"

definition to_miliseconds :: "rat \<Rightarrow> ulong" where
  "to_miliseconds seconds = word_of_int \<lfloor>1000 * seconds\<rfloor>"

definition push_timed_event :: "nat \<Rightarrow> rat \<Rightarrow> unit tl_prog" where
  "push_timed_event e seconds =
     thenP (assertP (\<lambda>_. seconds \<ge> 0))
       (\<lambda>s.
          let t = s\<lparr>tl_timed := insort_key te_time
                \<lparr>te_event = e, te_due = to_miliseconds seconds, te_register = tl_now s\<rparr> (tl_timed s)\<rparr>
          in if tl_timed_invoker s \<ge> pipe_capacity then raise Deadlock t
             else ret () (t\<lparr>tl_timed_invoker := tl_timed_invoker s + 1\<rparr>))"

fun emit_timed :: "timed_event list \<Rightarrow> unit tl_prog" where
  "emit_timed [] = modifyP (\<lambda>s. s\<lparr>tl_timed := []\<rparr>)"
| "emit_timed (t # ts) = (\<lambda>s.
     if tl_now s \<ge> te_time t then thenP (push_event (te_event t)) (emit_timed ts) s
     else ret () (s\<lparr>tl_timed := t # ts\<rparr>))"

definition process_timed_events :: "unit tl_prog" where
  "process_timed_events = (\<lambda>s. emit_timed (tl_timed s) s)"

definition minimum_wait_time :: "thread_loop \<Rightarrow> ulong" where
  "minimum_wait_time s =
     (case tl_timed s of
        [] \<Rightarrow> 0xFFFFFFFF
      | t # _ \<Rightarrow> (if tl_now s > te_time t then 0 else te_time t - tl_now s))"

section \<open>The loop\<close>

text \<open>The loop's own four handles; their numbers are arguments of nothing but the wait.\<close>

definition own_handles :: "(int \<times> wait_mode) list" where
  "own_handles = [(-10, WaitRead), (-11, WaitRead), (-12, WaitRead), (-13, WaitRead)]"

definition handle_list :: "thread_loop \<Rightarrow> (int \<times> wait_mode) list" where
  "handle_list s = own_handles @ waitable_watcher_handles (tl_ws s)"

definition direct_invoke :: "thread_loop \<Rightarrow> bool" where
  "direct_invoke s \<longleftrightarrow> ws_direct (tl_ws s) \<noteq> tl_direct_seen s"

text \<open>The list of handles and the quit flag are local to \<open>Exec\<close>.\<close>

type_synonym loop_state = "(int \<times> wait_mode) list \<times> bool"

definition after_direct :: "loop_state \<Rightarrow> loop_state tl_prog" where
  "after_direct = (\<lambda>(hs, quit) s.
     if direct_invoke s then ret (handle_list s, quit) (s\<lparr>tl_direct_seen := ws_direct (tl_ws s)\<rparr>)
     else ret (hs, quit) s)"

definition loop_index :: "loop_env \<Rightarrow> nat \<Rightarrow> loop_state \<Rightarrow> loop_state tl_prog" where
  "loop_index E index = (\<lambda>(hs, quit).
     (if index = 0 then ret (hs, True)
      else if index = 1 then thenP (process_events E) (after_direct (hs, quit))
      else if index = 2 then
        thenP process_timed_events
          (\<lambda>s. if tl_timed_invoker s = 0 then raise ResetFailed s
               else ret (hs, quit) (s\<lparr>tl_timed_invoker := tl_timed_invoker s - 1\<rparr>))
      else if index = 3 then
        (\<lambda>s. ret (handle_list s, quit) (s\<lparr>tl_ws := invoker_finished (tl_ws s)\<rparr>))
      else if index < length hs then
        thenP (handle_watcher tl_ws (le_listener E) (fst (hs ! index)) (snd (hs ! index)))
          (after_direct (hs, quit))
      else raise UndefinedBehaviour))"

primrec loop_batch :: "loop_env \<Rightarrow> nat list \<Rightarrow> loop_state \<Rightarrow> loop_state tl_prog" where
  "loop_batch E [] ls = ret ls"
| "loop_batch E (i # is) ls = bindP (loop_index E i ls) (loop_batch E is)"

definition loop_iteration :: "loop_env \<Rightarrow> nat list \<Rightarrow> loop_state \<Rightarrow> loop_state tl_prog" where
  "loop_iteration E indexes ls =
     (if indexes = [] then thenP process_timed_events (ret ls) else loop_batch E indexes ls)"

text \<open>
  \<open>Exec\<close> over the answers of its waits, each a list of indexes into the handles it waited on; it
  goes on for as long as there are answers and \<open>Quit\<close> was not asked for.
\<close>

fun exec_loop :: "loop_env \<Rightarrow> nat list list \<Rightarrow> loop_state \<Rightarrow> loop_state tl_prog" where
  "exec_loop E [] ls = ret ls"
| "exec_loop E (a # answers) (hs, quit) =
     (if quit then ret (hs, quit) else bindP (loop_iteration E a (hs, quit)) (exec_loop E answers))"

definition thread_exec :: "loop_env \<Rightarrow> nat list list \<Rightarrow> loop_state tl_prog" where
  "thread_exec E answers = (\<lambda>s. exec_loop E answers (handle_list s, False) s)"

section \<open>The life of a thread\<close>

text \<open>\<open>m_running\<close> and \<open>m_abandon\<close>; \<open>create_ok\<close> and \<open>join_ok\<close> are the answers of pthread.\<close>

record thread_state =
  th_running :: bool
  th_abandon :: bool
  th_quit_signals :: nat

definition thread_run :: "bool \<Rightarrow> (thread_state, unit) prog" where
  "thread_run create_ok = (\<lambda>s.
     if th_running s then ret () s
     else if \<not> create_ok then raise RunFailed s
     else ret () (s\<lparr>th_abandon := True, th_running := True\<rparr>))"

text \<open>\<open>Quit\<close> up to the join, and what the join then finds; \<open>None\<close> is that nothing was running.\<close>

definition thread_quit_request :: "(thread_state, bool) prog" where
  "thread_quit_request = (\<lambda>s.
     if \<not> th_running s then ret False s
     else ret True (s\<lparr>th_abandon := False, th_quit_signals := th_quit_signals s + 1\<rparr>))"

definition thread_join :: "bool \<Rightarrow> bool \<Rightarrow> (thread_state, unit) prog" where
  "thread_join waits join_ok = (if waits \<and> \<not> join_ok then raise QuitFailed else ret ())"

text \<open>The end of \<open>StaticThreadEntry\<close>: the result tells whether the thread detaches itself.\<close>

definition thread_leave :: "(thread_state, bool) prog" where
  "thread_leave = (\<lambda>s. ret (th_abandon s) (s\<lparr>th_running := False\<rparr>))"

definition thread_destroy_events :: "unit tl_prog" where
  "thread_destroy_events = modifyP (\<lambda>s.
     s\<lparr>tl_deleted := tl_deleted s @ tl_events s, tl_events := []\<rparr>)"

section \<open>Clients of the loop\<close>

text \<open>
  A dispatch procedure or a listener is a sequence of calls of the thread: \<open>P e\<close> for event \<open>e\<close> and
  \<open>L l h m\<close> for listener \<open>l\<close>.  All run in the loop's own thread \<open>self\<close>.
\<close>

datatype thread_call =
    CallPush nat
  | CallPushTimed nat rat
  | CallAddWatch listener int wait_mode
  | CallRemoveWatch listener int wait_mode

definition on_watches :: "(watch_support, unit) prog \<Rightarrow> unit tl_prog" where
  "on_watches f = (\<lambda>s. case f (tl_ws s) of (r, w) \<Rightarrow> (r, s\<lparr>tl_ws := w\<rparr>))"

fun thread_call_do :: "nat \<Rightarrow> thread_call \<Rightarrow> unit tl_prog" where
  "thread_call_do self (CallPush e) = push_event e"
| "thread_call_do self (CallPushTimed e d) = push_timed_event e d"
| "thread_call_do self (CallAddWatch l h m) = on_watches (add_watch (Some self) l h m)"
| "thread_call_do self (CallRemoveWatch l h m) = on_watches (remove_watch (Some self) l h m)"

primrec run_calls :: "nat \<Rightarrow> thread_call list \<Rightarrow> unit tl_prog" where
  "run_calls self [] = ret ()"
| "run_calls self (c # cs) = thenP (thread_call_do self c) (run_calls self cs)"

type_synonym listener_calls = "listener \<Rightarrow> int \<Rightarrow> wait_mode \<Rightarrow> thread_call list"

definition client_env :: "nat \<Rightarrow> (nat \<Rightarrow> thread_call list) \<Rightarrow> listener_calls \<Rightarrow> loop_env" where
  "client_env self P L =
     \<lparr>le_dispatch = (\<lambda>e. run_calls self (P e)), le_listener = (\<lambda>l h m. run_calls self (L l h m))\<rparr>"

section \<open>What the client's calls do to the queues\<close>

text \<open>
  \<open>grows s t\<close>: between the two states events were only pushed, each with its byte in the pipe, and
  timed events only added.  It is reflexive and transitive, so every sequence of calls that returns
  has it.
\<close>

definition grows :: "thread_loop \<Rightarrow> thread_loop \<Rightarrow> bool" where
  "grows s t \<longleftrightarrow>
     (\<exists>es. tl_events t = tl_events s @ es \<and> tl_pushed t = tl_pushed s @ es \<and>
           tl_invoker t = tl_invoker s + length es) \<and>
     tl_dispatched t = tl_dispatched s \<and> tl_deleted t = tl_deleted s \<and>
     tl_timed_invoker s \<le> tl_timed_invoker t \<and> tl_now t = tl_now s \<and>
     (sorted (map te_time (tl_timed s)) \<longrightarrow> sorted (map te_time (tl_timed t)))"

lemma grows_refl [simp, intro]: "grows s s"
  by (simp add: grows_def)

lemma grows_trans [trans]:
  assumes "grows s t" and "grows t u"
  shows "grows s u"
proof -
  obtain es where es: "tl_events t = tl_events s @ es" "tl_pushed t = tl_pushed s @ es"
    "tl_invoker t = tl_invoker s + length es"
    using assms(1) by (auto simp: grows_def)
  obtain fs where fs: "tl_events u = tl_events t @ fs" "tl_pushed u = tl_pushed t @ fs"
    "tl_invoker u = tl_invoker t + length fs"
    using assms(2) by (auto simp: grows_def)
  have "tl_events u = tl_events s @ (es @ fs) \<and> tl_pushed u = tl_pushed s @ (es @ fs) \<and>
        tl_invoker u = tl_invoker s + length (es @ fs)"
    using es fs by simp
  then have "\<exists>gs. tl_events u = tl_events s @ gs \<and> tl_pushed u = tl_pushed s @ gs \<and>
        tl_invoker u = tl_invoker s + length gs" by blast
  with assms show ?thesis by (simp add: grows_def)
qed

text \<open>
  \<open>calls_ok m\<close>: when the program returns it has only grown the queues, and it never reads past a
  container or finds a wake-up byte missing.
\<close>

definition calls_ok :: "unit tl_prog \<Rightarrow> bool" where
  "calls_ok m \<longleftrightarrow>
     (\<forall>s. (fst (m s) = Inr () \<longrightarrow> grows s (snd (m s))) \<and>
          fst (m s) \<noteq> Inl UndefinedBehaviour \<and> fst (m s) \<noteq> Inl ResetFailed)"

lemma calls_okI:
  assumes "\<And>s r t. m s = (r, t) \<Longrightarrow>
     (r = Inr () \<longrightarrow> grows s t) \<and> r \<noteq> Inl UndefinedBehaviour \<and> r \<noteq> Inl ResetFailed"
  shows "calls_ok m"
  unfolding calls_ok_def using assms by (metis prod.collapse)

lemma calls_okD:
  "calls_ok m \<Longrightarrow> m s = (r, t) \<Longrightarrow>
     (r = Inr () \<longrightarrow> grows s t) \<and> r \<noteq> Inl UndefinedBehaviour \<and> r \<noteq> Inl ResetFailed"
  unfolding calls_ok_def by (metis fst_conv snd_conv)

lemma calls_ok_ret [intro]: "calls_ok (ret ())"
  by (simp add: calls_ok_def ret_def)

lemma calls_ok_then [intro]:
  assumes "calls_ok m" and "calls_ok k"
  shows "calls_ok (thenP m k)"
proof (rule calls_okI)
  fix s r t assume run: "thenP m k s = (r, t)"
  obtain r1 u where m: "m s = (r1, u)" by (cases "m s")
  show "(r = Inr () \<longrightarrow> grows s t) \<and> r \<noteq> Inl UndefinedBehaviour \<and> r \<noteq> Inl ResetFailed"
  proof (cases r1)
    case (Inl e)
    with run m calls_okD [OF assms(1) m] show ?thesis by (auto simp: thenP_def bindP_def)
  next
    case (Inr x)
    with run m have "k u = (r, t)" by (simp add: thenP_def bindP_def)
    from calls_okD [OF assms(2) this] calls_okD [OF assms(1) m] Inr grows_trans show ?thesis
      by auto
  qed
qed

lemma calls_ok_if: "calls_ok m \<Longrightarrow> calls_ok k \<Longrightarrow> calls_ok (\<lambda>s. if c s then m s else k s)"
  by (simp add: calls_ok_def)

lemma calls_ok_push: "calls_ok (push_event e)"
  by (rule calls_okI) (auto simp: push_event_def prog_simps grows_def Let_def split: if_splits)

lemma calls_ok_push_timed: "calls_ok (push_timed_event e d)"
  by (rule calls_okI)
    (auto simp: push_timed_event_def prog_simps grows_def Let_def sorted_insort_key split: if_splits)

lemma calls_ok_watches:
  assumes "\<And>w. fst (f w) \<in> {Inr (), Inl AssertFailed}"
  shows "calls_ok (on_watches f)"
proof (rule calls_okI)
  fix s r t assume "on_watches f s = (r, t)"
  with assms [of "tl_ws s"]
  show "(r = Inr () \<longrightarrow> grows s t) \<and> r \<noteq> Inl UndefinedBehaviour \<and> r \<noteq> Inl ResetFailed"
    by (auto simp: on_watches_def grows_def split: prod.splits)
qed

lemma calls_ok_do: "calls_ok (thread_call_do self c)"
proof (cases c)
  case (CallAddWatch l h m)
  then show ?thesis
    by (auto intro!: calls_ok_watches simp: add_watch_def split: option.splits if_splits)
next
  case (CallRemoveWatch l h m)
  then show ?thesis
    by (auto intro!: calls_ok_watches simp: remove_watch_def Let_def split: option.splits if_splits)
qed (auto intro: calls_ok_push calls_ok_push_timed)

lemma calls_ok_run: "calls_ok (run_calls self cs)"
  by (induction cs) (auto intro: calls_ok_do)

section \<open>The queues\<close>

lemma handle_watcher_ok:
  "(\<And>l h m. calls_ok (call l h m)) \<Longrightarrow> calls_ok (handle_watcher tl_ws call h m)"
proof -
  assume call: "\<And>l h m. calls_ok (call l h m)"
  have "calls_ok (notify_all tl_ws call h m lms)" for lms
  proof (induction lms)
    case Nil
    then show ?case by (simp add: calls_ok_ret)
  next
    case (Cons lm lms)
    have "calls_ok (thenP (call (fst lm) h (snd lm)) (notify_all tl_ws call h m lms))"
      using call Cons by blast
    with Cons show ?case unfolding notify_all.simps by (intro calls_ok_if calls_ok_ret)
  qed
  then show "calls_ok (handle_watcher tl_ws call h m)"
    unfolding calls_ok_def handle_watcher_notify by (simp add: ret_def split: option.split)
qed

lemma dispatch_events_all:
  assumes "dispatch_events (client_env self P L) es s = (r, t)"
  shows "(r = Inr () \<longrightarrow>
            (\<exists>new. tl_events t = tl_events s @ new \<and> tl_pushed t = tl_pushed s @ new \<and>
                   tl_invoker t = tl_invoker s + length new) \<and>
            tl_dispatched t = tl_dispatched s @ es \<and> tl_deleted t = tl_deleted s @ es \<and>
            tl_timed_invoker s \<le> tl_timed_invoker t \<and>
            (sorted (map te_time (tl_timed s)) \<longrightarrow> sorted (map te_time (tl_timed t)))) \<and>
         r \<noteq> Inl UndefinedBehaviour \<and> r \<noteq> Inl ResetFailed"
  using assms
proof (induction es arbitrary: s)
  case Nil
  then show ?case by (auto simp: ret_def)
next
  case (Cons e es)
  let ?s = "s\<lparr>tl_dispatched := tl_dispatched s @ [e]\<rparr>"
  obtain r1 u where call: "run_calls self (P e) ?s = (r1, u)" by fastforce
  note ok = calls_okD [OF calls_ok_run call]
  show ?case
  proof (cases r1)
    case (Inl x)
    with call Cons.prems ok show ?thesis by (auto simp: prog_simps client_env_def)
  next
    case (Inr x)
    let ?u = "u\<lparr>tl_deleted := tl_deleted u @ [e]\<rparr>"
    have "dispatch_events (client_env self P L) es ?u = (r, t)"
      using Inr call Cons.prems by (simp add: prog_simps client_env_def delete_event_def)
    from Cons.IH [OF this] ok Inr show ?thesis by (auto simp: grows_def)
  qed
qed

text \<open>
  Every pushed event is queued or has been dispatched and deleted, in the order of the pushes, and
  each queued event has its byte in the pipe of the event invoker.
\<close>

definition tl_inv :: "thread_loop \<Rightarrow> bool" where
  "tl_inv s \<longleftrightarrow>
     sorted (map te_time (tl_timed s)) \<and> length (tl_events s) \<le> tl_invoker s \<and>
     tl_pushed s = tl_dispatched s @ tl_events s \<and> tl_deleted s = tl_dispatched s"

lemma grows_inv: "grows s t \<Longrightarrow> tl_inv s \<Longrightarrow> tl_inv t"
  by (auto simp: grows_def tl_inv_def)

lemma process_events_inv:
  assumes "process_events (client_env self P L) s = (r, t)" and "tl_inv s" and "tl_invoker s > 0"
  shows "(r = Inr () \<longrightarrow> tl_inv t \<and> tl_timed_invoker s \<le> tl_timed_invoker t \<and>
            (\<exists>new. tl_dispatched t = tl_pushed s \<and> tl_events t = new \<and> tl_pushed t = tl_pushed s @ new)) \<and>
         r \<noteq> Inl UndefinedBehaviour \<and> r \<noteq> Inl ResetFailed"
proof -
  have run: "dispatch_events (client_env self P L) (tl_events s)
      (s\<lparr>tl_events := [], tl_invoker := tl_invoker s - 1\<rparr>) = (r, t)"
    using assms(1,3) by (simp add: process_events_def Let_def)
  from dispatch_events_all [OF run] assms(2) show ?thesis by (auto simp: tl_inv_def)
qed

lemma emit_timed_inv:
  assumes "emit_timed ts s = (r, t)" and "sorted (map te_time ts)" and "tl_inv s"
  shows "(r = Inr () \<longrightarrow> tl_inv t \<and> tl_timed_invoker t = tl_timed_invoker s \<and> tl_invoker s \<le> tl_invoker t) \<and>
         r \<noteq> Inl UndefinedBehaviour \<and> r \<noteq> Inl ResetFailed"
  using assms
proof (induction ts arbitrary: s)
  case Nil
  then show ?case by (auto simp: prog_simps tl_inv_def)
next
  case (Cons x ts)
  show ?case
  proof (cases "tl_now s \<ge> te_time x \<and> tl_invoker s < pipe_capacity")
    case True
    let ?s = "s\<lparr>tl_events := tl_events s @ [te_event x], tl_pushed := tl_pushed s @ [te_event x],
                tl_invoker := tl_invoker s + 1\<rparr>"
    have "emit_timed ts ?s = (r, t)"
      using True Cons.prems(1) by (simp add: prog_simps push_event_def Let_def)
    moreover have "tl_inv ?s" using Cons.prems(3) by (simp add: tl_inv_def)
    ultimately show ?thesis using Cons.IH Cons.prems(2) by fastforce
  next
    case False
    with Cons.prems show ?thesis
      by (auto simp: prog_simps push_event_def Let_def tl_inv_def split: if_splits)
  qed
qed

lemma process_timed_inv:
  "process_timed_events s = (r, t) \<Longrightarrow> tl_inv s \<Longrightarrow>
     (r = Inr () \<longrightarrow> tl_inv t \<and> tl_timed_invoker t = tl_timed_invoker s \<and> tl_invoker s \<le> tl_invoker t) \<and>
     r \<noteq> Inl UndefinedBehaviour \<and> r \<noteq> Inl ResetFailed"
  unfolding process_timed_events_def by (rule emit_timed_inv) (auto simp: tl_inv_def)

text \<open>
  What \<open>select\<close> may answer: each index once, and a pipe's only when there is a byte to read.
\<close>

definition answer_ok :: "nat list \<Rightarrow> loop_state \<Rightarrow> thread_loop \<Rightarrow> bool" where
  "answer_ok answer ls s \<longleftrightarrow>
     distinct answer \<and> list_all (\<lambda>i. i < length (fst ls)) answer \<and>
     (0 \<in> set answer \<longrightarrow> tl_quit_event s > 0) \<and> (1 \<in> set answer \<longrightarrow> tl_invoker s > 0) \<and>
     (2 \<in> set answer \<longrightarrow> tl_timed_invoker s > 0) \<and> (3 \<in> set answer \<longrightarrow> ws_invoker (tl_ws s))"

text \<open>
  The states of a thread: other threads push events between the loop's iterations, the wall clock
  moves as it likes, and an iteration serves any answer \<open>select\<close> may give.
\<close>

inductive tl_reach :: "nat \<Rightarrow> (nat \<Rightarrow> thread_call list) \<Rightarrow> listener_calls \<Rightarrow>
    thread_loop \<Rightarrow> loop_state \<Rightarrow> bool" for self P L where
  start: "tl_reach self P L (tl_new self) (handle_list (tl_new self), False)"
| pushed: "tl_reach self P L s ls \<Longrightarrow> push_event e s = (Inr (), t) \<Longrightarrow> tl_reach self P L t ls"
| pushed_timed: "tl_reach self P L s ls \<Longrightarrow> push_timed_event e d s = (Inr (), t) \<Longrightarrow>
    tl_reach self P L t ls"
| quit_asked: "tl_reach self P L s ls \<Longrightarrow>
    tl_reach self P L (s\<lparr>tl_quit_event := tl_quit_event s + 1\<rparr>) ls"
| clock: "tl_reach self P L s ls \<Longrightarrow> tl_reach self P L (s\<lparr>tl_now := now\<rparr>) ls"
| iteration: "tl_reach self P L s ls \<Longrightarrow> \<not> snd ls \<Longrightarrow> answer_ok answer ls s \<Longrightarrow>
    loop_iteration (client_env self P L) answer ls s = (Inr ls', t) \<Longrightarrow> tl_reach self P L t ls'"

lemma after_direct_inv:
  "after_direct ls s = (r, t) \<Longrightarrow> tl_inv s \<Longrightarrow>
     tl_inv t \<and> tl_invoker t = tl_invoker s \<and> tl_timed_invoker t = tl_timed_invoker s \<and>
     (\<exists>ls'. r = Inr ls')"
  by (auto simp: after_direct_def prog_simps tl_inv_def split: prod.splits if_splits)

text \<open>The bytes the rest of a batch still needs.\<close>

definition batch_ok :: "nat list \<Rightarrow> thread_loop \<Rightarrow> bool" where
  "batch_ok answer s \<longleftrightarrow>
     distinct answer \<and> (1 \<in> set answer \<longrightarrow> tl_invoker s > 0) \<and>
     (2 \<in> set answer \<longrightarrow> tl_timed_invoker s > 0)"

lemma loop_index_inv:
  assumes run: "loop_index (client_env self P L) i ls s = (r, t)"
    and inv: "tl_inv s" and need: "batch_ok (i # rest) s"
  shows "(\<forall>ls'. r = Inr ls' \<longrightarrow> tl_inv t \<and> batch_ok rest t) \<and> r \<noteq> Inl ResetFailed"
proof -
  obtain hs quit where ls: "ls = (hs, quit)" by (cases ls)
  consider "i = 0" | "i = 1" | "i = 2" | "i = 3" | "i > 3" by linarith
  then show ?thesis
  proof cases
    case 1
    with run inv need show ?thesis by (auto simp: ls loop_index_def prog_simps batch_ok_def)
  next
    case 2
    obtain r1 u where p: "process_events (client_env self P L) s = (r1, u)" by fastforce
    have pos: "tl_invoker s > 0" using need 2 by (simp add: batch_ok_def)
    note pe = process_events_inv [OF p inv pos]
    show ?thesis
    proof (cases r1)
      case (Inl e)
      with run p pe 2 show ?thesis by (auto simp: ls loop_index_def prog_simps)
    next
      case (Inr x)
      with run p 2 have "after_direct (hs, quit) u = (r, t)"
        by (simp add: ls loop_index_def prog_simps)
      from after_direct_inv [OF this] pe Inr need 2 show ?thesis
        by (auto simp: batch_ok_def)
    qed
  next
    case 3
    obtain r1 u where p: "process_timed_events s = (r1, u)" by fastforce
    note pt = process_timed_inv [OF p inv]
    have pos: "tl_timed_invoker s > 0" using need 3 by (simp add: batch_ok_def)
    show ?thesis
    proof (cases r1)
      case (Inl e)
      with run p pt 3 show ?thesis by (auto simp: ls loop_index_def prog_simps)
    next
      case (Inr x)
      with run p pt Inr pos need 3 show ?thesis
        by (auto simp: ls loop_index_def prog_simps batch_ok_def tl_inv_def split: if_splits)
    qed
  next
    case 4
    with run inv need show ?thesis
      by (auto simp: ls loop_index_def prog_simps batch_ok_def tl_inv_def)
  next
    case 5
    show ?thesis
    proof (cases "i < length hs")
      case False
      with run 5 show ?thesis by (auto simp: ls loop_index_def prog_simps)
    next
      case True
      let ?call = "handle_watcher tl_ws (le_listener (client_env self P L)) (fst (hs ! i)) (snd (hs ! i))"
      have ok: "calls_ok ?call"
        by (rule handle_watcher_ok) (simp add: client_env_def calls_ok_run)
      obtain r1 u where p: "?call s = (r1, u)" by fastforce
      note co = calls_okD [OF ok p]
      show ?thesis
      proof (cases r1)
        case (Inl e)
        with run p co 5 True show ?thesis by (auto simp: ls loop_index_def prog_simps)
      next
        case (Inr x)
        with run p 5 True have ad: "after_direct (hs, quit) u = (r, t)"
          by (simp add: ls loop_index_def prog_simps)
        have g: "grows s u" using co Inr by simp
        from after_direct_inv [OF ad grows_inv [OF g inv]] g need show ?thesis
          by (auto simp: batch_ok_def grows_def)
      qed
    qed
  qed
qed

lemma loop_batch_inv:
  "loop_batch (client_env self P L) answer ls s = (r, t) \<Longrightarrow> tl_inv s \<Longrightarrow> batch_ok answer s \<Longrightarrow>
     (\<forall>ls'. r = Inr ls' \<longrightarrow> tl_inv t) \<and> r \<noteq> Inl ResetFailed"
proof (induction answer arbitrary: ls s)
  case Nil
  then show ?case by (auto simp: prog_simps)
next
  case (Cons i rest)
  obtain r1 u where p: "loop_index (client_env self P L) i ls s = (r1, u)" by fastforce
  note li = loop_index_inv [OF p Cons.prems(2,3)]
  show ?case
  proof (cases r1)
    case (Inl e)
    with Cons.prems(1) p li show ?thesis by (auto simp: prog_simps)
  next
    case (Inr ls')
    with Cons.prems(1) p have "loop_batch (client_env self P L) rest ls' u = (r, t)"
      by (simp add: prog_simps)
    from Cons.IH [OF this] li Inr show ?thesis by auto
  qed
qed

lemma loop_iteration_inv:
  assumes run: "loop_iteration (client_env self P L) answer ls s = (r, t)"
    and inv: "tl_inv s" and ok: "answer_ok answer ls s"
  shows "(\<forall>ls'. r = Inr ls' \<longrightarrow> tl_inv t) \<and> r \<noteq> Inl ResetFailed"
proof (cases "answer = []")
  case True
  obtain r1 u where p: "process_timed_events s = (r1, u)" by fastforce
  from process_timed_inv [OF p inv] p run True show ?thesis
    by (cases r1) (auto simp: loop_iteration_def prog_simps)
next
  case False
  then have "loop_batch (client_env self P L) answer ls s = (r, t)"
    using run by (simp add: loop_iteration_def)
  from loop_batch_inv [OF this inv] ok show ?thesis
    by (simp add: batch_ok_def answer_ok_def)
qed

lemma tl_reach_inv: "tl_reach self P L s ls \<Longrightarrow> tl_inv s"
proof (induction rule: tl_reach.induct)
  case start
  then show ?case by (simp add: tl_inv_def tl_new_def)
next
  case (pushed s ls e t)
  with calls_okD [OF calls_ok_push] grows_inv show ?case by blast
next
  case (pushed_timed s ls e d t)
  with calls_okD [OF calls_ok_push_timed] grows_inv show ?case by blast
next
  case (iteration s ls answer ls' t)
  with loop_iteration_inv show ?case by blast
qed (auto simp: tl_inv_def)

section \<open>Exact effect of the two queues\<close>

lemma run_pushes:
  "tl_invoker s + length es \<le> pipe_capacity \<Longrightarrow>
     run_calls self (map CallPush es) s =
       (Inr (), s\<lparr>tl_events := tl_events s @ es, tl_pushed := tl_pushed s @ es,
                  tl_invoker := tl_invoker s + length es\<rparr>)"
  by (induction es arbitrary: s) (simp_all add: prog_simps push_event_def Let_def)

lemma dispatch_events_pushes:
  assumes "tl_invoker s + length (concat (map Q es)) \<le> pipe_capacity"
  shows "dispatch_events (client_env self (\<lambda>e. map CallPush (Q e)) L) es s =
     (Inr (), s\<lparr>tl_events := tl_events s @ concat (map Q es),
                tl_pushed := tl_pushed s @ concat (map Q es),
                tl_invoker := tl_invoker s + length (concat (map Q es)),
                tl_dispatched := tl_dispatched s @ es, tl_deleted := tl_deleted s @ es\<rparr>)"
  using assms
  by (induction es arbitrary: s)
    (simp_all add: prog_simps client_env_def delete_event_def run_pushes)

lemma emit_timed_exact:
  assumes "sorted (map te_time ts)"
    and "tl_invoker s + length (filter (\<lambda>t. te_time t \<le> tl_now s) ts) \<le> pipe_capacity"
  shows "emit_timed ts s =
     (Inr (), s\<lparr>tl_timed := filter (\<lambda>t. te_time t > tl_now s) ts,
                tl_events := tl_events s @ map te_event (filter (\<lambda>t. te_time t \<le> tl_now s) ts),
                tl_pushed := tl_pushed s @ map te_event (filter (\<lambda>t. te_time t \<le> tl_now s) ts),
                tl_invoker := tl_invoker s + length (filter (\<lambda>t. te_time t \<le> tl_now s) ts)\<rparr>)"
  using assms
proof (induction ts arbitrary: s)
  case Nil
  then show ?case by (simp add: prog_simps)
next
  case (Cons x ts)
  show ?case
  proof (cases "te_time x \<le> tl_now s")
    case True
    with Cons show ?thesis by (simp add: prog_simps push_event_def Let_def not_le)
  next
    case False
    then have "\<not> te_time t \<le> tl_now s" if "t \<in> set ts" for t
      using Cons.prems(1) that by fastforce
    then have "filter (\<lambda>t. te_time t \<le> tl_now s) ts = []" "filter (\<lambda>t. tl_now s < te_time t) ts = ts"
      by (auto simp: filter_empty_conv not_le intro: filter_all_True)
    moreover have "tl_now s < te_time x" "\<not> te_time x \<le> tl_now s" using False by simp_all
    ultimately show ?thesis by (simp add: prog_simps)
  qed
qed

definition watched :: "nat \<Rightarrow> (listener \<times> int) list \<Rightarrow> thread_loop" where
  "watched self lhs =
     snd (run_calls self (map (\<lambda>(l, h). CallAddWatch l h WaitRead) lhs) (tl_new self))"

text \<open>Listener 1 stops the watch of listener 2 on descriptor 6; listener 3 pushes event 99.\<close>

definition unwatching :: listener_calls where
  "unwatching l h m =
     (if l = 1 then [CallRemoveWatch 2 6 WaitRead] else if l = 3 then [CallPush 99] else [])"

section \<open>Properties\<close>

text \<open>
  C12: In every reachable state of a thread the pushed events are the dispatched ones followed by the
  queued ones, each dispatched one was deleted once, a byte in the invoker's pipe waits for each
  queued event, and no iteration finds a pipe empty that it has to reset.
\<close>

theorem loop_no_lost_wakeup:
  assumes "tl_reach self P L s ls"
  shows "tl_pushed s = tl_dispatched s @ tl_events s \<and> tl_deleted s = tl_dispatched s \<and>
         length (tl_events s) \<le> tl_invoker s \<and>
         (\<forall>answer. answer_ok answer ls s \<longrightarrow>
            fst (loop_iteration (client_env self P L) answer ls s) \<noteq> Inl ResetFailed)"
proof -
  note inv = tl_reach_inv [OF assms]
  have "fst (loop_iteration (client_env self P L) answer ls s) \<noteq> Inl ResetFailed"
    if "answer_ok answer ls s" for answer
    using loop_iteration_inv [OF _ inv that] by (metis prod.collapse)
  with inv show ?thesis by (simp add: tl_inv_def)
qed

lemma pushed_reachable:
  "tl_reach 0 (\<lambda>_. []) (\<lambda>_ _ _. []) (snd (push_event 7 (tl_new 0))) (handle_list (tl_new 0), False)"
proof (rule tl_reach.pushed [OF tl_reach.start])
  show "push_event 7 (tl_new 0) = (Inr (), snd (push_event 7 (tl_new 0)))"
    by (simp add: push_event_def tl_new_def pipe_capacity_def prog_simps Let_def)
qed

theorem loop_no_lost_wakeup_witness:
  "length (tl_events (snd (push_event 7 (tl_new 0)))) \<le> tl_invoker (snd (push_event 7 (tl_new 0)))"
  using loop_no_lost_wakeup [OF pushed_reachable] by blast

text \<open>
  \<open>ProcessEvents\<close> dispatches exactly the events queued when it starts, in order, deleting each;
  what their procedures push is queued for a later round, in the order of the pushes.
\<close>

theorem process_events_exact:
  assumes "0 < tl_invoker s"
    and "tl_invoker s + length (concat (map Q (tl_events s))) \<le> pipe_capacity + 1"
  shows "process_events (client_env self (\<lambda>e. map CallPush (Q e)) L) s =
     (Inr (), s\<lparr>tl_events := concat (map Q (tl_events s)),
                tl_pushed := tl_pushed s @ concat (map Q (tl_events s)),
                tl_invoker := tl_invoker s - 1 + length (concat (map Q (tl_events s))),
                tl_dispatched := tl_dispatched s @ tl_events s,
                tl_deleted := tl_deleted s @ tl_events s\<rparr>)"
  using assms by (simp add: process_events_def Let_def dispatch_events_pushes)

theorem process_events_exact_witness:
  "process_events (client_env 0 (\<lambda>e. map CallPush (if e = 7 then [8] else []))
       (\<lambda>_ _ _. [])) (snd (push_event 7 (tl_new 0))) =
     (Inr (), tl_new 0\<lparr>tl_events := [8], tl_pushed := [7, 8], tl_invoker := 1,
                tl_dispatched := [7], tl_deleted := [7]\<rparr>)"
  using process_events_exact [of "snd (push_event 7 (tl_new 0))" "\<lambda>e. if e = 7 then [8] else []" 0
      "\<lambda>_ _ _. []"]
  by (simp add: push_event_def tl_new_def pipe_capacity_def prog_simps Let_def)


lemma timed_reachable:
  "tl_reach 0 (\<lambda>_. []) (\<lambda>_ _ _. [])
     (snd (push_timed_event 7 2 (tl_new 0))\<lparr>tl_now := 2500\<rparr>) (handle_list (tl_new 0), False)"
proof (rule tl_reach.clock, rule tl_reach.pushed_timed [OF tl_reach.start])
  show "push_timed_event 7 2 (tl_new 0) = (Inr (), snd (push_timed_event 7 2 (tl_new 0)))"
    by (simp add: push_timed_event_def tl_new_def pipe_capacity_def prog_simps Let_def)
qed


text \<open>
  The wait the loop asks for ends exactly when the earliest timed event is due: until then
  \<open>ProcessTimedEvents\<close> would push nothing, and once it has passed it pushes at least that event.
\<close>

theorem minimum_wait_exact:
  assumes "tl_timed s = x # xs" and "tl_invoker s < pipe_capacity"
    and "tl_reach self P L s ls"
  shows "list_all (\<lambda>t. te_time x \<le> te_time t) xs \<and>
        (if te_time x < tl_now s then minimum_wait_time s = 0
         else tl_now s + minimum_wait_time s = te_time x \<and>
              unat (tl_now s) + unat (minimum_wait_time s) < 2 ^ 32 \<and>
              (\<forall>now. now < te_time x \<longrightarrow>
                 process_timed_events (s\<lparr>tl_now := now\<rparr>) = (Inr (), s\<lparr>tl_now := now\<rparr>)) \<and>
              te_event x \<in> set (tl_pushed (snd (process_timed_events
                 (s\<lparr>tl_now := tl_now s + minimum_wait_time s\<rparr>)))))"
proof -
  have first: "list_all (\<lambda>t. te_time x \<le> te_time t) xs"
    using tl_reach_inv [OF assms(3)] assms(1) by (auto simp: tl_inv_def list_all_iff)
  show ?thesis
  proof (cases "te_time x < tl_now s")
    case True
    with assms first show ?thesis by (simp add: minimum_wait_time_def)
  next
    case False
    have now: "process_timed_events (s\<lparr>tl_now := now\<rparr>) = (Inr (), s\<lparr>tl_now := now\<rparr>)"
      if "now < te_time x" for now
      using assms(1) by (simp add: process_timed_events_def prog_simps iffD2 [OF not_le that])
    have min: "minimum_wait_time s = te_time x - tl_now s"
      using False assms(1) by (simp add: minimum_wait_time_def)
    have sum: "unat (tl_now s) + unat (minimum_wait_time s) = unat (te_time x)"
      using False by (simp add: min unat_sub not_less word_le_nat_alt)
    have grow: "set (tl_pushed t) \<subseteq> set (tl_pushed (snd (emit_timed ts t)))" for ts t
      by (induction ts arbitrary: t)
        (force simp: prog_simps push_event_def Let_def split: if_splits)+
    have "te_event x \<in> set (tl_pushed (snd (process_timed_events (s\<lparr>tl_now := te_time x\<rparr>))))"
      using assms(1,2) by (simp add: process_timed_events_def prog_simps push_event_def Let_def)
        (rule subsetD [OF grow], simp)
    with False now min sum first show ?thesis
      using unsigned_less [of "te_time x", where ?'a = nat] by simp
  qed
qed

lemma waiting_reachable:
  "tl_reach 0 (\<lambda>_. []) (\<lambda>_ _ _. [])
     (snd (push_timed_event 7 2 (tl_new 0))\<lparr>tl_now := 500\<rparr>) (handle_list (tl_new 0), False)"
proof (rule tl_reach.clock, rule tl_reach.pushed_timed [OF tl_reach.start])
  show "push_timed_event 7 2 (tl_new 0) = (Inr (), snd (push_timed_event 7 2 (tl_new 0)))"
    by (simp add: push_timed_event_def tl_new_def pipe_capacity_def prog_simps Let_def)
qed

theorem minimum_wait_exact_witness:
  "500 + minimum_wait_time (snd (push_timed_event 7 2 (tl_new 0))\<lparr>tl_now := 500\<rparr>) = 2000"
  using minimum_wait_exact [OF _ _ waiting_reachable,
      of "\<lparr>te_event = 7, te_due = 2000, te_register = 0\<rparr>" "[]"]
  by (simp add: push_timed_event_def tl_new_def pipe_capacity_def prog_simps Let_def te_time_def
      to_miliseconds_def split: if_splits)

text \<open>
  Where \<open>unsigned long\<close> has 32 bits, a timed event whose due time passes the clock's wrap-around
  (every 49.7 days) is dispatched at once instead of after its delay.
\<close>

theorem timed_event_wraps:
  assumes "tl_timed s = []" and "0 \<le> d" and "tl_invoker s < pipe_capacity"
    and "tl_timed_invoker s < pipe_capacity"
    and "2 ^ 32 \<le> unat (tl_now s) + unat (to_miliseconds d)"
  shows "tl_events (snd (thenP (push_timed_event e d) process_timed_events s)) = tl_events s @ [e]"
proof -
  have "tl_now s + to_miliseconds d \<le> tl_now s"
    using assms(5) unsigned_less [of "to_miliseconds d", where ?'a = nat]
    by (simp add: word_le_nat_alt unat_word_ariths(1) le_mod_geq)
  with assms show ?thesis
    by (simp add: prog_simps push_timed_event_def push_event_def Let_def process_timed_events_def
        te_time_def add.commute)
qed

theorem timed_event_wraps_witness:
  "tl_events (snd (thenP (push_timed_event 7 2) process_timed_events
     (tl_new 0\<lparr>tl_now := 4294967000\<rparr>))) = [7]"
  using timed_event_wraps [of "tl_new 0\<lparr>tl_now := 4294967000\<rparr>" 2 7]
  by (simp add: tl_new_def pipe_capacity_def to_miliseconds_def)

text \<open>
  The indexes \<open>select\<close> answered are used on the handle list of that moment, but a listener that
  changes its watches makes the loop rebuild the list before it serves the next index.  Descriptors
  5 and 6 are ready and the listener of 5 stops watching 6: with a third descriptor watched, the
  listener of that one is called although it is not ready; with none, the access is past the end.
\<close>

theorem stale_index_wrong_handle:
  "tl_events (snd (thread_exec (client_env 0 (\<lambda>_. []) unwatching) [[4, 5]]
     (watched 0 [(1, 5), (2, 6), (3, 7)]))) = [99] \<and>
   handle_list (watched 0 [(1, 5), (2, 6), (3, 7)]) ! 5 = (6, WaitRead) \<and>
   fst (thread_exec (client_env 0 (\<lambda>_. []) unwatching) [[4, 5]]
     (watched 0 [(1, 5), (2, 6)])) = Inl UndefinedBehaviour"
proof (intro conjI)
  have w3: "watched 0 [(1, 5), (2, 6), (3, 7)] =
     tl_new 0\<lparr>tl_ws := \<lparr>ws_map =
        [(5, \<lparr>w_listeners = [(1, WaitRead)], w_reads = 1, w_writes = 0\<rparr>),
         (6, \<lparr>w_listeners = [(2, WaitRead)], w_reads = 1, w_writes = 0\<rparr>),
         (7, \<lparr>w_listeners = [(3, WaitRead)], w_reads = 1, w_writes = 0\<rparr>)],
      ws_thread = Some 0, ws_invoker = False, ws_commit = False, ws_direct = 3\<rparr>\<rparr>"
    by (simp add: watched_def tl_new_def on_watches_def add_watch_def sm_find_def ws_new_def
        no_watchers_def commit_invoker_def prog_simps)
  have w2: "watched 0 [(1, 5), (2, 6)] =
     tl_new 0\<lparr>tl_ws := \<lparr>ws_map =
        [(5, \<lparr>w_listeners = [(1, WaitRead)], w_reads = 1, w_writes = 0\<rparr>),
         (6, \<lparr>w_listeners = [(2, WaitRead)], w_reads = 1, w_writes = 0\<rparr>)],
      ws_thread = Some 0, ws_invoker = False, ws_commit = False, ws_direct = 2\<rparr>\<rparr>"
    by (simp add: watched_def tl_new_def on_watches_def add_watch_def sm_find_def ws_new_def
        no_watchers_def commit_invoker_def prog_simps)
  show "handle_list (watched 0 [(1, 5), (2, 6), (3, 7)]) ! 5 = (6, WaitRead)"
    unfolding w3 by (simp add: handle_list_def own_handles_def waitable_watcher_handles_def)
  show "tl_events (snd (thread_exec (client_env 0 (\<lambda>_. []) unwatching) [[4, 5]]
     (watched 0 [(1, 5), (2, 6), (3, 7)]))) = [99]"
    unfolding w3
    by (simp add: thread_exec_def handle_list_def own_handles_def waitable_watcher_handles_def
        loop_iteration_def loop_index_def handle_watcher_notify sm_find_def client_env_def
        unwatching_def on_watches_def remove_watch_def commit_invoker_def tl_new_def
        after_direct_def direct_invoke_def sm_erase_def push_event_def pipe_capacity_def prog_simps Let_def)
  show "fst (thread_exec (client_env 0 (\<lambda>_. []) unwatching) [[4, 5]]
     (watched 0 [(1, 5), (2, 6)])) = Inl UndefinedBehaviour"
    unfolding w2
    by (simp add: thread_exec_def handle_list_def own_handles_def waitable_watcher_handles_def
        loop_iteration_def loop_index_def handle_watcher_notify sm_find_def client_env_def
        unwatching_def on_watches_def remove_watch_def commit_invoker_def tl_new_def
        after_direct_def direct_invoke_def sm_erase_def prog_simps Let_def)
qed

lemma loop_index_quit:
  "loop_index E i ls s = (Inr ls', t) \<Longrightarrow> snd ls' \<longleftrightarrow> i = 0 \<or> snd ls"
  by (auto simp: loop_index_def prog_simps after_direct_def split: prod.splits sum.splits if_splits)

lemma loop_batch_quit:
  "loop_batch E answer ls s = (Inr ls', t) \<Longrightarrow> snd ls' \<longleftrightarrow> 0 \<in> set answer \<or> snd ls"
proof (induction answer arbitrary: ls s)
  case Nil
  then show ?case by (simp add: prog_simps)
next
  case (Cons i rest)
  obtain r u where p: "loop_index E i ls s = (r, u)" by fastforce
  with Cons.prems obtain ls1 where r: "r = Inr ls1" and
    rest: "loop_batch E rest ls1 u = (Inr ls', t)"
    by (cases r) (auto simp: prog_simps)
  from Cons.IH [OF rest] loop_index_quit [of E i ls s ls1 u] p r show ?case by auto
qed

text \<open>
  \<open>Quit\<close> ends the loop with the batch that sees its signal.  Nothing resets the quit event, so a
  thread that was run, quit and joined can be run again but leaves its loop at the first wait.
\<close>

theorem rerun_quits_at_once:
  "(0 \<in> set answer \<longrightarrow>
      exec_loop E (answer # answers) (hs, False) s = loop_iteration E answer (hs, False) s) \<and>
   (\<not> th_running th \<longrightarrow>
      thenP (thread_run True) (bindP thread_quit_request (\<lambda>waits.
        thenP thread_leave (thenP (thread_join waits True) (thread_run True)))) th =
        (Inr (), th\<lparr>th_running := True, th_abandon := True,
                    th_quit_signals := th_quit_signals th + 1\<rparr>))"
proof (intro conjI impI)
  assume quit: "0 \<in> set answer"
  then have batch: "loop_iteration E answer (hs, False) s = loop_batch E answer (hs, False) s"
    by (auto simp: loop_iteration_def)
  obtain r t where run: "loop_batch E answer (hs, False) s = (r, t)" by fastforce
  show "exec_loop E (answer # answers) (hs, False) s = loop_iteration E answer (hs, False) s"
  proof (cases r)
    case (Inl e)
    then show ?thesis by (simp add: batch run prog_simps)
  next
    case (Inr ls')
    with loop_batch_quit [of E answer "(hs, False)" s ls' t] run quit
    obtain hs' where "ls' = (hs', True)" by (cases ls') auto
    with Inr show ?thesis by (cases answers) (simp_all add: batch run prog_simps)
  qed
next
  assume "\<not> th_running th"
  then show "thenP (thread_run True) (bindP thread_quit_request (\<lambda>waits.
        thenP thread_leave (thenP (thread_join waits True) (thread_run True)))) th =
        (Inr (), th\<lparr>th_running := True, th_abandon := True,
                    th_quit_signals := th_quit_signals th + 1\<rparr>)"
    by (simp add: thread_run_def thread_quit_request_def thread_leave_def thread_join_def prog_simps)
qed

theorem rerun_quits_at_once_witness:
  "exec_loop (client_env 0 (\<lambda>_. []) (\<lambda>_ _ _. [])) [[0], [1]] ([], False) (tl_new 0) =
     loop_iteration (client_env 0 (\<lambda>_. []) (\<lambda>_ _ _. [])) [0] ([], False) (tl_new 0)"
  using rerun_quits_at_once [of "[0]"] by simp

end
