(* ===== verification/TaskList.thy ===== *)
theory TaskList
  imports Prelude "HOL-Library.Multiset"
begin

text \<open>
  Tasks and task lists (modules/core/include/dpl/task.h, modules/core/src/task_list.cpp).  A step is
  a number for its member function, a task a number for its address; \<open>B t s\<close> is what step \<open>s\<close> of
  task \<open>t\<close> asks for while it runs.  \<open>tq_trace\<close> records the steps called and \<open>tq_freed\<close> the tasks
  deleted, for the properties.  An iterator into a list that is only appended to is an index, and
  \<open>Dangling\<close> once its element was erased.
\<close>

type_synonym task_id = nat
type_synonym step_id = nat

datatype iter = AtEnd | At nat | Dangling

record task =
  tk_steps :: "step_id list"
  tk_abort_steps :: "step_id list"
  tk_current :: iter
  tk_next :: iter
  tk_switched :: bool
  tk_running :: bool

record task_list =
  tq_heap :: "task_id \<rightharpoonup> task"
  tq_tasks :: "task_id list"
  tq_current :: iter
  tq_switched :: bool
  tq_running :: bool
  tq_trace :: "(task_id \<times> step_id) list"
  tq_freed :: "task_id list"

type_synonym 'a tq_prog = "(task_list, 'a) prog"

text \<open>Pushing back moves the start iterator to the first element and leaves the others.\<close>

fun iter_next :: "'a list \<Rightarrow> iter \<Rightarrow> iter" where
  "iter_next xs (At i) = (if Suc i < length xs then At (Suc i) else AtEnd)"
| "iter_next xs it = it"

primrec find_iter :: "'a \<Rightarrow> 'a list \<Rightarrow> nat \<Rightarrow> iter" where
  "find_iter x [] k = AtEnd"
| "find_iter x (y # ys) k = (if y = x then At k else find_iter x ys (Suc k))"

definition begin_iter :: "'a list \<Rightarrow> iter" where
  "begin_iter xs = (if xs = [] then AtEnd else At 0)"

section \<open>Tasks\<close>

definition new_task :: task where
  "new_task = \<lparr>tk_steps = [], tk_abort_steps = [], tk_current = AtEnd, tk_next = AtEnd,
               tk_switched = False, tk_running = False\<rparr>"

definition add_step :: "step_id \<Rightarrow> (task, unit) prog" where
  "add_step st =
     thenP (assertP (\<lambda>tk. \<not> tk_running tk))
       (thenP (assertP (\<lambda>tk. st \<notin> set (tk_steps tk)))
         (modifyP (\<lambda>tk. tk\<lparr>tk_steps := tk_steps tk @ [st], tk_next := begin_iter (tk_steps tk @ [st])\<rparr>)))"

definition add_abort_step :: "step_id \<Rightarrow> (task, unit) prog" where
  "add_abort_step st =
     thenP (assertP (\<lambda>tk. \<not> tk_running tk))
       (thenP (assertP (\<lambda>tk. st \<notin> set (tk_abort_steps tk)))
         (modifyP (\<lambda>tk. tk\<lparr>tk_abort_steps := st # tk_abort_steps tk\<rparr>)))"

definition switch_to_step :: "step_id \<Rightarrow> (task, unit) prog" where
  "switch_to_step st = (\<lambda>tk.
     let i = find_iter st (tk_steps tk) 0
     in thenP (assertP (\<lambda>_. i \<noteq> AtEnd)) (modifyP (\<lambda>tk. tk\<lparr>tk_next := i, tk_switched := True\<rparr>)) tk)"

definition get_current_step :: "task \<Rightarrow> step_id option res" where
  "get_current_step tk =
     (case tk_current tk of
        AtEnd \<Rightarrow> Inr None
      | At i \<Rightarrow> Inr (Some (tk_steps tk ! i))
      | Dangling \<Rightarrow> Inl UndefinedBehaviour)"

definition task_abort :: "(task, bool) prog" where
  "task_abort = (\<lambda>tk.
     let t = tk\<lparr>tk_running := True, tk_steps := [],
                tk_current := (if tk_current tk = AtEnd then AtEnd else Dangling),
                tk_next := (if tk_next tk = AtEnd then AtEnd else Dangling)\<rparr>
     in if tk_abort_steps tk = [] then ret False t
        else ret True (t\<lparr>tk_steps := tk_abort_steps tk, tk_next := begin_iter (tk_abort_steps tk),
                         tk_abort_steps := []\<rparr>))"

definition task_step_count :: "task \<Rightarrow> nat" where
  "task_step_count tk = length (tk_steps tk)"

section \<open>Task lists\<close>

definition with_task :: "task_id \<Rightarrow> (task, 'a) prog \<Rightarrow> 'a tq_prog" where
  "with_task t f = (\<lambda>s.
     case tq_heap s t of
       None \<Rightarrow> raise UndefinedBehaviour s
     | Some tk \<Rightarrow> (case f tk of (r, tk') \<Rightarrow> (r, s\<lparr>tq_heap := (tq_heap s)(t \<mapsto> tk')\<rparr>)))"

definition new_task_list :: "(task_id \<rightharpoonup> task) \<Rightarrow> task_list" where
  "new_task_list h = \<lparr>tq_heap = h, tq_tasks = [], tq_current = AtEnd, tq_switched = False,
     tq_running = False, tq_trace = [], tq_freed = []\<rparr>"

definition add_task :: "task_id \<Rightarrow> unit tq_prog" where
  "add_task t =
     thenP (assertP (\<lambda>s. \<not> tq_running s))
       (modifyP (\<lambda>s. s\<lparr>tq_tasks := tq_tasks s @ [t], tq_current := begin_iter (tq_tasks s @ [t])\<rparr>))"

definition switch_to_task :: "task_id \<Rightarrow> unit tq_prog" where
  "switch_to_task t = (\<lambda>s.
     let i = find_iter t (tq_tasks s) 0
     in thenP (assertP (\<lambda>_. i \<noteq> AtEnd)) (modifyP (\<lambda>s. s\<lparr>tq_current := i, tq_switched := True\<rparr>)) s)"

text \<open>What a step may ask for: the next step of its task, another task of the list, or to throw.\<close>

datatype step_action = SwitchStep step_id | SwitchTask task_id | ThrowUser nat

type_synonym step_bodies = "task_id \<Rightarrow> step_id \<Rightarrow> step_action list"

fun step_action_do :: "task_id \<Rightarrow> step_action \<Rightarrow> unit tq_prog" where
  "step_action_do t (SwitchStep st) = with_task t (switch_to_step st)"
| "step_action_do t (SwitchTask u) = switch_to_task u"
| "step_action_do t (ThrowUser n) = raise (UserException n)"

primrec run_actions :: "task_id \<Rightarrow> step_action list \<Rightarrow> unit tq_prog" where
  "run_actions t [] = ret ()"
| "run_actions t (a # as) = thenP (step_action_do t a) (run_actions t as)"

definition call_step :: "step_bodies \<Rightarrow> task_id \<Rightarrow> step_id \<Rightarrow> unit tq_prog" where
  "call_step B t st = (\<lambda>s. run_actions t (B t st) (s\<lparr>tq_trace := tq_trace s @ [(t, st)]\<rparr>))"

definition task_fetch :: "(task, step_id) prog" where
  "task_fetch = (\<lambda>tk.
     let tk = tk\<lparr>tk_running := True\<rparr>
     in case tk_next tk of
          AtEnd \<Rightarrow> raise AssertFailed tk
        | Dangling \<Rightarrow> raise UndefinedBehaviour (tk\<lparr>tk_switched := False\<rparr>)
        | At i \<Rightarrow> ret (tk_steps tk ! i) (tk\<lparr>tk_switched := False\<rparr>))"

definition task_advance :: "(task, bool) prog" where
  "task_advance = (\<lambda>tk.
     let tk = tk\<lparr>tk_current := tk_next tk\<rparr>
     in if tk_switched tk then ret True tk
        else let n = iter_next (tk_steps tk) (tk_next tk) in ret (n \<noteq> AtEnd) (tk\<lparr>tk_next := n\<rparr>))"

definition task_next_step :: "step_bodies \<Rightarrow> task_id \<Rightarrow> bool tq_prog" where
  "task_next_step B t =
     bindP (with_task t task_fetch) (\<lambda>st. thenP (call_step B t st) (with_task t task_advance))"

definition list_next_step :: "step_bodies \<Rightarrow> bool tq_prog" where
  "list_next_step B = (\<lambda>s0.
     let s = s0\<lparr>tq_running := True\<rparr>
     in case tq_current s of
          AtEnd \<Rightarrow> raise AssertFailed s
        | Dangling \<Rightarrow> raise UndefinedBehaviour (s\<lparr>tq_switched := False\<rparr>)
        | At j \<Rightarrow>
            bindP (task_next_step B (tq_tasks s ! j)) (\<lambda>result u.
              if result \<or> tq_switched u then ret True u
              else let n = iter_next (tq_tasks u) (tq_current u)
                   in ret (n \<noteq> AtEnd) (u\<lparr>tq_current := n\<rparr>))
              (s\<lparr>tq_switched := False\<rparr>))"

definition free_task :: "task_id \<Rightarrow> unit tq_prog" where
  "free_task t = (\<lambda>s.
     if tq_heap s t = None then raise UndefinedBehaviour s
     else ret () (s\<lparr>tq_heap := (tq_heap s)(t := None), tq_freed := tq_freed s @ [t]\<rparr>))"

text \<open>The loop of \<open>Abort\<close>; the result is the list it leaves.\<close>

primrec abort_tasks :: "task_id list \<Rightarrow> task_id list tq_prog" where
  "abort_tasks [] = ret []"
| "abort_tasks (t # ts) =
     bindP (with_task t task_abort) (\<lambda>keep.
       if keep then bindP (abort_tasks ts) (\<lambda>us. ret (t # us))
       else thenP (free_task t) (abort_tasks ts))"

definition erase_from :: "iter \<Rightarrow> 'a list \<Rightarrow> 'a list" where
  "erase_from it xs = (case it of At j \<Rightarrow> take j xs | _ \<Rightarrow> xs)"

definition list_abort :: "bool tq_prog" where
  "list_abort = (\<lambda>s.
     if tq_current s = Dangling then raise UndefinedBehaviour s
     else bindP (abort_tasks (rev (erase_from (tq_current s) (tq_tasks s)))) (\<lambda>us u.
       if us = []
       then ret False (u\<lparr>tq_tasks := [],
                        tq_current := (if tq_current s = AtEnd then AtEnd else Dangling)\<rparr>)
       else ret True (u\<lparr>tq_tasks := us, tq_current := At 0\<rparr>)) s)"

primrec free_tasks :: "task_id list \<Rightarrow> unit tq_prog" where
  "free_tasks [] = ret ()"
| "free_tasks (t # ts) = thenP (free_task t) (free_tasks ts)"

definition list_destroy :: "unit tq_prog" where
  "list_destroy = (\<lambda>s. free_tasks (tq_tasks s) s)"

definition task_count :: "task_list \<Rightarrow> nat" where
  "task_count s = length (tq_tasks s)"

definition list_step_count :: "task_list \<Rightarrow> nat" where
  "list_step_count s = sum_list (map (\<lambda>t. task_step_count (the (tq_heap s t))) (tq_tasks s))"

text \<open>\<open>n\<close> calls of \<open>NextStep\<close>, as a driver makes them; an exception stops it.\<close>

primrec run_steps :: "step_bodies \<Rightarrow> nat \<Rightarrow> bool list tq_prog" where
  "run_steps B 0 = ret []"
| "run_steps B (Suc n) =
     bindP (list_next_step B) (\<lambda>b. bindP (run_steps B n) (\<lambda>bs. ret (b # bs)))"

section \<open>Progress of a list whose steps do not switch\<close>

text \<open>
  The list is at step \<open>i\<close> of its task \<open>j\<close>, or finished; the later tasks have not started.
\<close>

definition steps_of :: "task_list \<Rightarrow> task_id \<Rightarrow> (task_id \<times> step_id) list" where
  "steps_of s t = map (Pair t) (case tq_heap s t of None \<Rightarrow> [] | Some tk \<Rightarrow> tk_steps tk)"

definition ready_task :: "task option \<Rightarrow> bool" where
  "ready_task x \<longleftrightarrow> (\<exists>tk. x = Some tk \<and> tk_steps tk \<noteq> [] \<and> tk_next tk = At 0)"

definition at_pos :: "nat \<Rightarrow> nat \<Rightarrow> task_list \<Rightarrow> bool" where
  "at_pos j i s \<longleftrightarrow>
     distinct (tq_tasks s) \<and> j < length (tq_tasks s) \<and> tq_current s = At j \<and>
     (\<exists>tk. tq_heap s (tq_tasks s ! j) = Some tk \<and> i < length (tk_steps tk) \<and> tk_next tk = At i) \<and>
     (\<forall>t \<in> set (drop (Suc j) (tq_tasks s)). ready_task (tq_heap s t))"

definition remaining :: "nat \<Rightarrow> nat \<Rightarrow> task_list \<Rightarrow> (task_id \<times> step_id) list" where
  "remaining j i s =
     drop i (steps_of s (tq_tasks s ! j)) @ concat (map (steps_of s) (drop (Suc j) (tq_tasks s)))"

lemma task_next_step_plain:
  assumes "tq_heap s t = Some tk" and "tk_next tk = At i" and "B t (tk_steps tk ! i) = []"
  shows "\<exists>tk'. task_next_step B t s =
      (Inr (Suc i < length (tk_steps tk)),
       s\<lparr>tq_heap := (tq_heap s)(t \<mapsto> tk'), tq_trace := tq_trace s @ [(t, tk_steps tk ! i)]\<rparr>) \<and>
    tk_steps tk' = tk_steps tk \<and> tk_abort_steps tk' = tk_abort_steps tk \<and>
    tk_next tk' = iter_next (tk_steps tk) (At i)"
  using assms
  by (intro exI [of _ "tk\<lparr>tk_running := True, tk_switched := False, tk_current := At i,
      tk_next := iter_next (tk_steps tk) (At i)\<rparr>"])
    (simp add: task_next_step_def with_task_def task_fetch_def call_step_def task_advance_def
      prog_simps Let_def)

lemma distinct_nth_drop:
  "distinct xs \<Longrightarrow> j < length xs \<Longrightarrow> xs ! j \<notin> set (drop (Suc j) xs)"
  by (metis Cons_nth_drop_Suc distinct.simps(2) distinct_drop)

text \<open>
  One call of \<open>NextStep\<close> calls the first of the remaining steps; it answers whether any is left and
  leaves the list at the next position.
\<close>

definition pos_after :: "nat \<Rightarrow> nat \<Rightarrow> task_list \<Rightarrow> nat \<times> nat" where
  "pos_after j i s = (if Suc i < length (steps_of s (tq_tasks s ! j)) then (j, Suc i) else (Suc j, 0))"

lemma list_next_step_plain:
  assumes pos: "at_pos j i s" and plain: "B = (\<lambda>_ _. [])"
  shows "\<exists>x rest s'. remaining j i s = x # rest \<and>
      list_next_step B s = (Inr (rest \<noteq> []), s') \<and>
      tq_trace s' = tq_trace s @ [x] \<and> tq_tasks s' = tq_tasks s \<and> tq_freed s' = tq_freed s \<and>
      (if rest = [] then tq_current s' = AtEnd
       else \<exists>j' i'. at_pos j' i' s' \<and> remaining j' i' s' = rest)"
proof -
  let ?ts = "tq_tasks s" and ?t = "tq_tasks s ! j"
  from pos obtain tk where tk: "tq_heap s ?t = Some tk" "i < length (tk_steps tk)" "tk_next tk = At i"
    and d: "distinct ?ts" "j < length ?ts" "tq_current s = At j"
    and ready: "\<And>t. t \<in> set (drop (Suc j) ?ts) \<Longrightarrow> ready_task (tq_heap s t)"
    by (auto simp: at_pos_def)
  let ?s = "s\<lparr>tq_running := True, tq_switched := False\<rparr>"
  let ?x = "(?t, tk_steps tk ! i)"
  obtain tk' where run: "task_next_step B ?t ?s =
      (Inr (Suc i < length (tk_steps tk)),
       ?s\<lparr>tq_heap := (tq_heap s)(?t \<mapsto> tk'), tq_trace := tq_trace s @ [?x]\<rparr>)"
    and tk': "tk_steps tk' = tk_steps tk" "tk_next tk' = iter_next (tk_steps tk) (At i)"
    using task_next_step_plain [of ?s ?t tk i B] tk plain by auto
  have notin: "?t \<notin> set (drop (Suc j) ?ts)" using distinct_nth_drop d by blast
  let ?u = "?s\<lparr>tq_heap := (tq_heap s)(?t \<mapsto> tk'), tq_trace := tq_trace s @ [?x]\<rparr>"
  have later: "concat (map (steps_of v) (drop (Suc j) ?ts)) =
      concat (map (steps_of s) (drop (Suc j) ?ts))"
    if "tq_heap v = (tq_heap s)(?t \<mapsto> tk')" for v :: task_list
    using notin that by (intro arg_cong [where f = concat] map_cong) (auto simp: steps_of_def)
  have ready': "ready_task (tq_heap (?u\<lparr>tq_current := c\<rparr>) t)" if "t \<in> set (drop (Suc j) ?ts)" for t c
    using that notin ready by auto
  let ?later = "concat (map (steps_of s) (drop (Suc j) ?ts))"
  have rem: "remaining j i s = ?x # map (Pair ?t) (drop (Suc i) (tk_steps tk)) @ ?later"
    using tk by (simp add: remaining_def steps_of_def drop_map Cons_nth_drop_Suc [symmetric])
  show ?thesis
  proof (cases "Suc i < length (tk_steps tk)")
    case True
    have eq: "list_next_step B s = (Inr True, ?u)"
      using d run True by (simp add: list_next_step_def prog_simps Let_def)
    have "at_pos j (Suc i) ?u"
      using d tk' True ready' [of _ "At j"] by (auto simp: at_pos_def)
    moreover have "remaining j (Suc i) ?u = map (Pair ?t) (drop (Suc i) (tk_steps tk)) @ ?later"
      using later [of ?u] tk' unfolding remaining_def by (simp add: steps_of_def drop_map)
    moreover have "map (Pair ?t) (drop (Suc i) (tk_steps tk)) @ ?later \<noteq> []" using True by simp
    ultimately show ?thesis using rem eq by fastforce
  next
    case False
    then have none: "drop (Suc i) (tk_steps tk) = []" by simp
    let ?n = "iter_next ?ts (At j)"
    have eq: "list_next_step B s = (Inr (?n \<noteq> AtEnd), ?u\<lparr>tq_current := ?n\<rparr>)"
      using d run False by (simp add: list_next_step_def prog_simps Let_def)
    show ?thesis
    proof (cases "Suc j < length ?ts")
      case True
      let ?t2 = "?ts ! Suc j"
      have t2: "?t2 \<in> set (drop (Suc j) ?ts)" "?t2 # drop (Suc (Suc j)) ?ts = drop (Suc j) ?ts"
        using True Cons_nth_drop_Suc by (auto simp: Cons_nth_drop_Suc [symmetric])
      have sub: "set (drop (Suc (Suc j)) ?ts) \<subseteq> set (drop (Suc j) ?ts)"
        using t2(2) by (metis set_subset_Cons)
      let ?v = "?u\<lparr>tq_current := ?n\<rparr>"
      from ready' [OF t2(1), of ?n] obtain tk2 where
        tk2: "tq_heap ?v ?t2 = Some tk2" "tk_steps tk2 \<noteq> []" "tk_next tk2 = At 0"
        unfolding ready_task_def by blast
      have "\<forall>t \<in> set (drop (Suc (Suc j)) ?ts). ready_task (tq_heap ?v t)"
        using ready' [of _ ?n] sub by blast
      then have "at_pos (Suc j) 0 ?v"
        using d True tk2 unfolding at_pos_def by (intro conjI) simp_all
      moreover have "remaining (Suc j) 0 ?v = ?later"
      proof -
        have "remaining (Suc j) 0 ?v = concat (map (steps_of ?v) (?t2 # drop (Suc (Suc j)) ?ts))"
          by (simp add: remaining_def)
        also have "\<dots> = ?later" unfolding t2(2) by (rule later) simp
        finally show ?thesis .
      qed
      moreover have "?later \<noteq> []"
      proof -
        have "steps_of s ?t2 \<noteq> []"
          using ready [OF t2(1)] by (auto simp: ready_task_def steps_of_def)
        with t2(1) show ?thesis by (auto simp del: set_drop_subset)
      qed
      ultimately show ?thesis using rem none eq True by fastforce
    next
      case last: False
      then have "?later = []" by simp
      with rem none eq last show ?thesis by fastforce
    qed
  qed
qed

lemma run_steps_plain:
  assumes "at_pos j i s" and plain: "B = (\<lambda>_ _. [])" and "length (remaining j i s) = Suc n"
  shows "\<exists>s'. run_steps B (Suc n) s = (Inr (replicate n True @ [False]), s') \<and>
      tq_trace s' = tq_trace s @ remaining j i s \<and> tq_tasks s' = tq_tasks s \<and>
      tq_freed s' = tq_freed s \<and> tq_current s' = AtEnd"
  using assms(1,3)
proof (induction n arbitrary: j i s)
  case 0
  from list_next_step_plain [OF 0(1) plain] 0(2) show ?case
    by (force simp: prog_simps length_Suc_conv)
next
  case (Suc n)
  from list_next_step_plain [OF Suc.prems(1) plain] obtain x rest s1 where
    one: "remaining j i s = x # rest" "list_next_step B s = (Inr (rest \<noteq> []), s1)"
      "tq_trace s1 = tq_trace s @ [x]" "tq_tasks s1 = tq_tasks s" "tq_freed s1 = tq_freed s"
    and nxt: "if rest = [] then tq_current s1 = AtEnd
       else \<exists>j' i'. at_pos j' i' s1 \<and> remaining j' i' s1 = rest"
    by blast
  have ne: "rest \<noteq> []" using one(1) Suc.prems(2) by auto
  with nxt obtain j' i' where pos: "at_pos j' i' s1" "remaining j' i' s1 = rest" by auto
  have "length (remaining j' i' s1) = Suc n" using pos(2) one(1) Suc.prems(2) by simp
  from Suc.IH [OF pos(1) this] obtain s2 where
    "run_steps B (Suc n) s1 = (Inr (replicate n True @ [False]), s2)"
    "tq_trace s2 = tq_trace s1 @ remaining j' i' s1" "tq_tasks s2 = tq_tasks s1"
    "tq_freed s2 = tq_freed s1" "tq_current s2 = AtEnd" by blast
  with one pos ne show ?case by (simp add: prog_simps del: run_steps.simps(2)) (simp add: prog_simps)
qed

lemma run_steps_remaining:
  assumes "at_pos j i s"
  shows "\<exists>s'. run_steps (\<lambda>_ _. []) (length (remaining j i s)) s =
        (Inr (replicate (length (remaining j i s) - 1) True @ [False]), s') \<and>
      tq_trace s' = tq_trace s @ remaining j i s \<and> tq_current s' = AtEnd"
proof -
  obtain x rest where "remaining j i s = x # rest"
    using list_next_step_plain [OF assms refl] by blast
  with run_steps_plain [OF assms refl, of "length rest"] show ?thesis by auto
qed

section \<open>Building and aborting a list\<close>

primrec add_tasks :: "task_id list \<Rightarrow> unit tq_prog" where
  "add_tasks [] = ret ()"
| "add_tasks (t # ts) = thenP (add_task t) (add_tasks ts)"

lemma add_tasks_state:
  "\<not> tq_running s \<Longrightarrow>
     add_tasks ts s = (Inr (), s\<lparr>tq_tasks := tq_tasks s @ ts,
       tq_current := (if ts = [] then tq_current s else At 0)\<rparr>)"
  by (induction ts arbitrary: s) (simp_all add: prog_simps add_task_def begin_iter_def)

definition built :: "(task_id \<rightharpoonup> task) \<Rightarrow> task_id list \<Rightarrow> task_list" where
  "built h ts = snd (add_tasks ts (new_task_list h))"

lemma built_at_pos:
  assumes "distinct ts" and "ts \<noteq> []" and "\<And>t. t \<in> set ts \<Longrightarrow> ready_task (h t)"
  shows "at_pos 0 0 (built h ts)"
    and "remaining 0 0 (built h ts) = concat (map (steps_of (built h ts)) ts)"
proof -
  have b: "built h ts = (new_task_list h)\<lparr>tq_tasks := ts, tq_current := At 0\<rparr>"
    using assms(2) by (simp add: built_def add_tasks_state new_task_list_def)
  obtain t us where ts: "ts = t # us" using assms(2) by (cases ts) auto
  show "at_pos 0 0 (built h ts)"
    unfolding b at_pos_def using assms(1,3) by (force simp: ts ready_task_def new_task_list_def)
  show "remaining 0 0 (built h ts) = concat (map (steps_of (built h ts)) ts)"
    unfolding b by (simp add: remaining_def ts steps_of_def)
qed

definition aborts_of :: "task_list \<Rightarrow> task_id \<Rightarrow> step_id list" where
  "aborts_of s t = (case tq_heap s t of None \<Rightarrow> [] | Some tk \<Rightarrow> tk_abort_steps tk)"

text \<open>The tasks before the current one, and the abort steps they give, last task first.\<close>

definition completed :: "task_list \<Rightarrow> task_id list" where
  "completed s = erase_from (tq_current s) (tq_tasks s)"

definition rollback_plan :: "task_list \<Rightarrow> (task_id \<times> step_id) list" where
  "rollback_plan s = concat (map (\<lambda>t. map (Pair t) (aborts_of s t)) (rev (completed s)))"

lemma abort_first:
  assumes "tq_heap s t = Some tk"
  shows "\<exists>x. abort_tasks (t # us) s =
      bindP (abort_tasks us) (\<lambda>vs. ret (if aborts_of s t = [] then vs else t # vs))
        (s\<lparr>tq_heap := (tq_heap s)(t := x),
           tq_freed := tq_freed s @ (if aborts_of s t = [] then [t] else [])\<rparr>) \<and>
    (if aborts_of s t = [] then x = None
     else \<exists>tk. x = Some tk \<and> tk_steps tk = aborts_of s t \<and> tk_next tk = At 0)"
proof (cases "tk_abort_steps tk = []")
  case True
  with assms show ?thesis
    by (intro exI [of _ None])
      (simp add: aborts_of_def with_task_def task_abort_def free_task_def prog_simps Let_def
        split: prod.split sum.split)
next
  case False
  with assms show ?thesis
    by (intro exI [of _ "Some (tk\<lparr>tk_running := True,
          tk_current := (if tk_current tk = AtEnd then AtEnd else Dangling),
          tk_steps := tk_abort_steps tk, tk_next := At 0,
          tk_abort_steps := []\<rparr>)"])
      (simp add: aborts_of_def with_task_def task_abort_def begin_iter_def prog_simps Let_def)
qed

lemma abort_tasks_run:
  assumes "distinct us" and "\<And>t. t \<in> set us \<Longrightarrow> tq_heap s t \<noteq> None"
  shows "\<exists>h. abort_tasks us s =
      (Inr (filter (\<lambda>t. aborts_of s t \<noteq> []) us),
       s\<lparr>tq_heap := h, tq_freed := tq_freed s @ filter (\<lambda>t. aborts_of s t = []) us\<rparr>) \<and>
    (\<forall>t. t \<notin> set us \<longrightarrow> h t = tq_heap s t) \<and>
    (\<forall>t \<in> set us. if aborts_of s t = [] then h t = None
        else \<exists>tk. h t = Some tk \<and> tk_steps tk = aborts_of s t \<and> tk_next tk = At 0)"
  using assms
proof (induction us arbitrary: s)
  case Nil
  show ?case by (rule exI [of _ "tq_heap s"]) (simp add: prog_simps)
next
  case (Cons t us)
  obtain tk where tk: "tq_heap s t = Some tk" using Cons.prems(2) [of t] by auto
  let ?s = "\<lambda>x. s\<lparr>tq_heap := (tq_heap s)(t := x),
      tq_freed := tq_freed s @ (if aborts_of s t = [] then [t] else [])\<rparr>"
  obtain x where step: "abort_tasks (t # us) s =
      bindP (abort_tasks us) (\<lambda>vs. ret (if aborts_of s t = [] then vs else t # vs)) (?s x)"
    and x: "if aborts_of s t = [] then x = None
        else \<exists>tk. x = Some tk \<and> tk_steps tk = aborts_of s t \<and> tk_next tk = At 0"
    using abort_first [OF tk] by blast
  have ab: "aborts_of (?s x) u = aborts_of s u" if "u \<in> set us" for u
    using that Cons.prems(1) by (auto simp: aborts_of_def)
  have fil: "filter (\<lambda>u. aborts_of (?s x) u \<noteq> []) us = filter (\<lambda>u. aborts_of s u \<noteq> []) us"
    "filter (\<lambda>u. aborts_of (?s x) u = []) us = filter (\<lambda>u. aborts_of s u = []) us"
    using ab by (simp_all cong: filter_cong)
  have alive: "tq_heap (?s x) u \<noteq> None" if "u \<in> set us" for u
    using that Cons.prems by auto
  obtain h where h: "abort_tasks us (?s x) =
      (Inr (filter (\<lambda>t. aborts_of (?s x) t \<noteq> []) us),
       (?s x)\<lparr>tq_heap := h, tq_freed := tq_freed (?s x) @ filter (\<lambda>t. aborts_of (?s x) t = []) us\<rparr>)"
    "\<forall>u. u \<notin> set us \<longrightarrow> h u = tq_heap (?s x) u"
    "\<forall>u \<in> set us. if aborts_of (?s x) u = [] then h u = None
        else \<exists>tk. h u = Some tk \<and> tk_steps tk = aborts_of (?s x) u \<and> tk_next tk = At 0"
    using Cons.IH [of "?s x"] Cons.prems(1) alive by force
  have run: "abort_tasks (t # us) s =
      (Inr (filter (\<lambda>t. aborts_of s t \<noteq> []) (t # us)),
       s\<lparr>tq_heap := h, tq_freed := tq_freed s @ filter (\<lambda>t. aborts_of s t = []) (t # us)\<rparr>)"
    using step h(1) by (simp add: fil prog_simps)
  have "h u = tq_heap s u" if "u \<notin> set (t # us)" for u using h(2) that by simp
  moreover have "if aborts_of s u = [] then h u = None
        else \<exists>tk. h u = Some tk \<and> tk_steps tk = aborts_of s u \<and> tk_next tk = At 0"
    if "u \<in> set (t # us)" for u
  proof (cases "u = t")
    case True
    with h(2) Cons.prems(1) x show ?thesis by simp
  next
    case False
    with that have mem: "u \<in> set us" by simp
    show ?thesis using bspec [OF h(3) mem] unfolding ab [OF mem] .
  qed
  ultimately show ?case using run by blast
qed

lemma list_abort_run:
  assumes d: "distinct (tq_tasks s)" and c: "tq_current s \<noteq> Dangling"
    and alive: "\<And>t. t \<in> set (completed s) \<Longrightarrow> tq_heap s t \<noteq> None"
  shows "\<exists>s'. list_abort s = (Inr (rollback_plan s \<noteq> []), s') \<and> tq_trace s' = tq_trace s \<and>
      tq_tasks s' = filter (\<lambda>t. aborts_of s t \<noteq> []) (rev (completed s)) \<and>
      tq_freed s' = tq_freed s @ filter (\<lambda>t. aborts_of s t = []) (rev (completed s)) \<and>
      (\<forall>t. t \<notin> set (completed s) \<longrightarrow> tq_heap s' t = tq_heap s t) \<and>
      (\<forall>t \<in> set (tq_tasks s'). tq_heap s' t \<noteq> None) \<and>
      (\<forall>t \<in> set (completed s). t \<notin> set (tq_tasks s') \<longrightarrow> tq_heap s' t = None) \<and>
      (rollback_plan s \<noteq> [] \<longrightarrow> at_pos 0 0 s' \<and> remaining 0 0 s' = rollback_plan s)"
proof -
  let ?us = "rev (completed s)"
  let ?keep = "filter (\<lambda>t. aborts_of s t \<noteq> []) ?us"
  have dc: "distinct ?us" using d by (simp add: completed_def erase_from_def split: iter.split)
  obtain h where run: "abort_tasks ?us s =
      (Inr ?keep, s\<lparr>tq_heap := h, tq_freed := tq_freed s @ filter (\<lambda>t. aborts_of s t = []) ?us\<rparr>)"
    and out: "\<And>t. t \<notin> set (completed s) \<Longrightarrow> h t = tq_heap s t"
    and ins: "\<And>t. t \<in> set (completed s) \<Longrightarrow> if aborts_of s t = [] then h t = None
        else \<exists>tk. h t = Some tk \<and> tk_steps tk = aborts_of s t \<and> tk_next tk = At 0"
    using abort_tasks_run [OF dc, of s] alive by auto
  let ?s' = "s\<lparr>tq_heap := h, tq_freed := tq_freed s @ filter (\<lambda>t. aborts_of s t = []) ?us,
      tq_tasks := ?keep, tq_current := (if ?keep \<noteq> [] then At 0
        else if tq_current s = AtEnd then AtEnd else Dangling)\<rparr>"
  have drop: "concat (map g (filter (\<lambda>t. aborts_of s t \<noteq> []) ts)) = concat (map g ts)"
    if "\<And>t. aborts_of s t = [] \<Longrightarrow> g t = []" for ts and g :: "task_id \<Rightarrow> (task_id \<times> step_id) list"
    using that by (induction ts) auto
  have plan: "rollback_plan s = concat (map (\<lambda>t. map (Pair t) (aborts_of s t)) ?keep)"
    unfolding rollback_plan_def by (rule drop [symmetric]) simp
  have ne: "rollback_plan s \<noteq> [] \<longleftrightarrow> ?keep \<noteq> []"
    unfolding plan by (auto simp: filter_empty_conv)
  have "list_abort s = (Inr (?keep \<noteq> []), ?s')"
    using c run by (simp add: list_abort_def completed_def prog_simps)
  moreover have "at_pos 0 0 ?s'" "remaining 0 0 ?s' = rollback_plan s" if keep: "?keep \<noteq> []"
  proof -
    have ready: "\<exists>tk. h t = Some tk \<and> tk_steps tk = aborts_of s t \<and> tk_steps tk \<noteq> [] \<and> tk_next tk = At 0"
      if "t \<in> set ?keep" for t
      using that ins [of t] by auto
    obtain t ts where tts: "?keep = t # ts" using keep by (cases ?keep) auto
    have st: "steps_of ?s' u = map (Pair u) (aborts_of s u)" if "u \<in> set ?keep" for u
      using ready [OF that] by (auto simp: steps_of_def)
    have dk: "distinct ?keep" using dc by simp
    show "at_pos 0 0 ?s'"
      unfolding at_pos_def ready_task_def using keep ready dk unfolding tts by auto
    have "remaining 0 0 ?s' = concat (map (steps_of ?s') ?keep)"
      using keep by (simp add: remaining_def tts)
    also have "\<dots> = rollback_plan s"
      unfolding plan using st by (intro arg_cong [where f = concat] map_cong) auto
    finally show "remaining 0 0 ?s' = rollback_plan s" .
  qed
  moreover have "h t \<noteq> None" if "t \<in> set ?keep" for t using that ins [of t] by auto
  moreover have "h t = None" if "t \<in> set (completed s)" "t \<notin> set ?keep" for t
    using that ins [of t] by auto
  ultimately show ?thesis
    using out ne by (intro exI [of _ ?s']) auto
qed

lemma free_tasks_run:
  "distinct ts \<Longrightarrow> (\<And>t. t \<in> set ts \<Longrightarrow> tq_heap s t \<noteq> None) \<Longrightarrow>
     free_tasks ts s = (Inr (), s\<lparr>tq_heap := tq_heap s |` (- set ts), tq_freed := tq_freed s @ ts\<rparr>)"
proof (induction ts arbitrary: s)
  case Nil
  have "tq_heap s |` UNIV = tq_heap s" by (simp add: restrict_map_def fun_eq_iff)
  then show ?case by (simp add: prog_simps)
next
  case (Cons t ts)
  let ?s = "s\<lparr>tq_heap := (tq_heap s)(t := None), tq_freed := tq_freed s @ [t]\<rparr>"
  obtain tk where "tq_heap s t = Some tk" using Cons.prems(2) [of t] by auto
  then have "free_tasks (t # ts) s = free_tasks ts ?s" by (simp add: prog_simps free_task_def)
  moreover have "tq_heap ?s u \<noteq> None" if "u \<in> set ts" for u
    using Cons.prems that by auto
  then have "free_tasks ts ?s =
      (Inr (), ?s\<lparr>tq_heap := tq_heap ?s |` (- set ts), tq_freed := tq_freed ?s @ ts\<rparr>)"
    using Cons.prems(1) by (intro Cons.IH) auto
  moreover have heap: "tq_heap ?s |` (- set ts) = tq_heap s |` (- set (t # ts))"
    by (auto simp: restrict_map_def fun_eq_iff)
  ultimately show ?case unfolding heap by simp
qed

section \<open>Properties\<close>

text \<open>Two tasks: task 2 with steps 10, 11 and abort steps 18, 19, task 3 with step 20.\<close>

definition sample_tasks :: "task_id \<rightharpoonup> task" where
  "sample_tasks =
     [2 \<mapsto> snd (thenP (add_step 10) (thenP (add_step 11)
            (thenP (add_abort_step 18) (add_abort_step 19))) new_task),
      3 \<mapsto> snd (add_step 20 new_task)]"

lemma sample_tasks_built:
  "sample_tasks 2 = Some \<lparr>tk_steps = [10, 11], tk_abort_steps = [19, 18], tk_current = AtEnd,
     tk_next = At 0, tk_switched = False, tk_running = False\<rparr>"
  "sample_tasks 3 = Some \<lparr>tk_steps = [20], tk_abort_steps = [], tk_current = AtEnd,
     tk_next = At 0, tk_switched = False, tk_running = False\<rparr>"
  by (simp_all add: sample_tasks_def add_step_def add_abort_step_def new_task_def begin_iter_def
      prog_simps)

text \<open>
  A list of distinct tasks, each with a step, whose steps do not switch: \<open>NextStep\<close> answers true
  until its last call, one call per step of \<open>GetStepCount\<close>, and calls every step of every task once, in
  the order in which they were added.  One more call fails the assertion.
\<close>

theorem list_runs_every_step:
  assumes "distinct ts" and "ts \<noteq> []" and "\<And>t. t \<in> set ts \<Longrightarrow> ready_task (h t)"
  shows "\<exists>s'. run_steps (\<lambda>_ _. []) (list_step_count (built h ts)) (built h ts) =
        (Inr (replicate (list_step_count (built h ts) - 1) True @ [False]), s') \<and>
      tq_trace s' = concat (map (\<lambda>t. map (Pair t) (tk_steps (the (h t)))) ts) \<and>
      fst (list_next_step (\<lambda>_ _. []) s') = Inl AssertFailed"
proof -
  have b: "built h ts = (new_task_list h)\<lparr>tq_tasks := ts, tq_current := At 0\<rparr>"
    using assms(2) by (simp add: built_def add_tasks_state new_task_list_def)
  have "steps_of (built h ts) t = map (Pair t) (tk_steps (the (h t)))" if "t \<in> set ts" for t
    using assms(3) [OF that] unfolding b by (auto simp: steps_of_def new_task_list_def ready_task_def)
  then have steps: "map (steps_of (built h ts)) ts = map (\<lambda>t. map (Pair t) (tk_steps (the (h t)))) ts"
    by simp
  have rem: "remaining 0 0 (built h ts) = concat (map (\<lambda>t. map (Pair t) (tk_steps (the (h t)))) ts)"
    using built_at_pos(2) [of ts h, OF assms] by (simp only: steps)
  have "list_step_count (built h ts) = length (remaining 0 0 (built h ts))"
    unfolding rem unfolding b
    by (simp add: list_step_count_def task_step_count_def new_task_list_def length_concat comp_def)
  with run_steps_remaining [OF built_at_pos(1) [of ts h, OF assms]] obtain s' where
    "run_steps (\<lambda>_ _. []) (list_step_count (built h ts)) (built h ts) =
        (Inr (replicate (list_step_count (built h ts) - 1) True @ [False]), s')"
    "tq_trace s' = tq_trace (built h ts) @ remaining 0 0 (built h ts)" "tq_current s' = AtEnd"
    by auto
  moreover have "tq_trace (built h ts) = []" unfolding b by (simp add: new_task_list_def)
  ultimately show ?thesis
    by (auto simp: rem list_next_step_def raise_def Let_def)
qed

theorem list_runs_every_step_witness:
  "\<exists>s'. run_steps (\<lambda>_ _. []) 3 (built sample_tasks [2, 3]) = (Inr [True, True, False], s') \<and>
     tq_trace s' = [(2, 10), (2, 11), (3, 20)]"
proof -
  have count: "list_step_count (built sample_tasks [2, 3]) = 3"
    by (simp add: built_def add_tasks_state new_task_list_def list_step_count_def
        task_step_count_def sample_tasks_built del: add_tasks.simps)
  have ready: "ready_task (sample_tasks t)" if "t \<in> set [2, 3]" for t
    using that by (auto simp: ready_task_def sample_tasks_built)
  have "replicate (3 - 1) True @ [False] = [True, True, False]" by (simp add: numeral_eq_Suc)
  with list_runs_every_step [of "[2, 3]" sample_tasks, OF _ _ ready] show ?thesis
    unfolding count by (simp add: sample_tasks_built) blast
qed

text \<open>
  \<open>Abort\<close> turns the list into the abort steps of the tasks before the current one, the last such task
  first and each task's own in the reverse of the order they were added; it answers whether there
  are any, and the following calls of \<open>NextStep\<close> call exactly those.
\<close>

theorem list_abort_rolls_back:
  assumes "distinct (tq_tasks s)" and "tq_current s \<noteq> Dangling"
    and "\<And>t. t \<in> set (completed s) \<Longrightarrow> tq_heap s t \<noteq> None"
  shows "fst (list_abort s) = Inr (rollback_plan s \<noteq> []) \<and>
      (rollback_plan s \<noteq> [] \<longrightarrow>
        (\<exists>s'. run_steps (\<lambda>_ _. []) (length (rollback_plan s)) (snd (list_abort s)) =
           (Inr (replicate (length (rollback_plan s) - 1) True @ [False]), s') \<and>
           tq_trace s' = tq_trace s @ rollback_plan s))"
proof -
  obtain s' where ab: "list_abort s = (Inr (rollback_plan s \<noteq> []), s')" "tq_trace s' = tq_trace s"
    and pos: "rollback_plan s \<noteq> [] \<longrightarrow> at_pos 0 0 s' \<and> remaining 0 0 s' = rollback_plan s"
    using list_abort_run [of s, OF assms] by blast
  show ?thesis
  proof (cases "rollback_plan s = []")
    case True
    with ab show ?thesis by simp
  next
    case False
    with pos have "at_pos 0 0 s'" "remaining 0 0 s' = rollback_plan s" by simp_all
    with run_steps_remaining [of 0 0 s'] ab False show ?thesis by auto
  qed
qed

text \<open>The sample after the two steps of its first task.\<close>

definition sample_half :: task_list where
  "sample_half = snd (run_steps (\<lambda>_ _. []) (Suc (Suc 0)) (built sample_tasks [2, 3]))"

lemma sample_half_state:
  "tq_tasks sample_half = [2, 3]" "tq_current sample_half = At 1"
  "aborts_of sample_half 2 = [19, 18]" "tq_heap sample_half 2 \<noteq> None" "tq_heap sample_half 3 \<noteq> None"
  "tq_trace sample_half = [(2, 10), (2, 11)]" "tq_freed sample_half = []"
  by (simp_all add: sample_half_def built_def add_tasks_state new_task_list_def list_next_step_def task_next_step_def with_task_def task_fetch_def call_step_def
      task_advance_def aborts_of_def sample_tasks_built
      prog_simps Let_def del: add_tasks.simps)

lemma sample_half_ok:
  "distinct (tq_tasks sample_half)" "tq_current sample_half \<noteq> Dangling"
  "t \<in> set (completed sample_half) \<Longrightarrow> tq_heap sample_half t \<noteq> None"
  by (auto simp: sample_half_state completed_def erase_from_def)

theorem list_abort_rolls_back_witness:
  "\<exists>s'. run_steps (\<lambda>_ _. []) 2 (snd (list_abort sample_half)) = (Inr [True, False], s') \<and>
     tq_trace s' = [(2, 10), (2, 11), (2, 19), (2, 18)]"
proof -
  have plan: "rollback_plan sample_half = [(2, 19), (2, 18)]"
    by (simp add: rollback_plan_def completed_def erase_from_def sample_half_state)
  show ?thesis
    using list_abort_rolls_back [of sample_half, OF sample_half_ok]
    unfolding plan by (simp add: sample_half_state numeral_eq_Suc)
qed

text \<open>
  A list that is aborted and destroyed frees the tasks before the current one; the current task
  and those after it were erased without being deleted and stay allocated.
\<close>

theorem abort_leaks_rest:
  assumes "distinct (tq_tasks s)" and "tq_current s \<noteq> Dangling"
    and "\<And>t. t \<in> set (completed s) \<Longrightarrow> tq_heap s t \<noteq> None"
  shows "fst (thenP list_abort list_destroy s) = Inr () \<and>
      tq_heap (snd (thenP list_abort list_destroy s)) = tq_heap s |` (- set (completed s)) \<and>
      mset (tq_freed (snd (thenP list_abort list_destroy s))) =
        mset (tq_freed s) + mset (completed s)"
proof -
  let ?us = "rev (completed s)"
  obtain s' where ab: "list_abort s = (Inr (rollback_plan s \<noteq> []), s')"
    and st: "tq_tasks s' = filter (\<lambda>t. aborts_of s t \<noteq> []) ?us"
      "tq_freed s' = tq_freed s @ filter (\<lambda>t. aborts_of s t = []) ?us"
      "\<forall>t. t \<notin> set (completed s) \<longrightarrow> tq_heap s' t = tq_heap s t"
      "\<forall>t \<in> set (tq_tasks s'). tq_heap s' t \<noteq> None"
      "\<forall>t \<in> set (completed s). t \<notin> set (tq_tasks s') \<longrightarrow> tq_heap s' t = None"
    using list_abort_run [of s, OF assms] by blast
  have dt: "distinct (tq_tasks s')"
    using assms(1) by (simp add: st(1) completed_def erase_from_def split: iter.split)
  have "list_destroy s' = (Inr (), s'\<lparr>tq_heap := tq_heap s' |` (- set (tq_tasks s')),
      tq_freed := tq_freed s' @ tq_tasks s'\<rparr>)"
    unfolding list_destroy_def using free_tasks_run [OF dt] st(4) by blast
  then have run: "thenP list_abort list_destroy s = (Inr (),
      s'\<lparr>tq_heap := tq_heap s' |` (- set (tq_tasks s')), tq_freed := tq_freed s' @ tq_tasks s'\<rparr>)"
    using ab by (simp add: prog_simps)
  have "tq_heap s' |` (- set (tq_tasks s')) = tq_heap s |` (- set (completed s))"
  proof
    fix t
    have "set (tq_tasks s') \<subseteq> set (completed s)" by (auto simp: st(1))
    with st(3,5) show "(tq_heap s' |` (- set (tq_tasks s'))) t = (tq_heap s |` (- set (completed s))) t"
      by (cases "t \<in> set (completed s)"; cases "t \<in> set (tq_tasks s')") (auto simp: restrict_map_def)
  qed
  moreover have "mset (tq_freed s' @ tq_tasks s') = mset (tq_freed s) + mset (completed s)"
  proof -
    have "mset ?us = mset (filter (\<lambda>t. aborts_of s t = []) ?us) + mset (filter (\<lambda>t. aborts_of s t \<noteq> []) ?us)"
      unfolding mset_filter by (rule multiset_partition)
    then show ?thesis by (simp only: st(1,2) mset_append mset_rev add.assoc)
  qed
  ultimately show ?thesis using run by simp
qed

theorem abort_leaks_rest_witness:
  "tq_heap (snd (thenP list_abort list_destroy sample_half)) 3 \<noteq> None \<and>
   mset (tq_freed (snd (thenP list_abort list_destroy sample_half))) = {#2#}"
  using abort_leaks_rest [of sample_half, OF sample_half_ok]
  by (simp add: completed_def erase_from_def sample_half_state)

lemma find_iter_at:
  "x \<in> set xs \<Longrightarrow> \<exists>k < length xs. find_iter x xs n = At (n + k) \<and> xs ! k = x"
proof (induction xs arbitrary: n)
  case Nil
  then show ?case by simp
next
  case (Cons y ys)
  show ?case
  proof (cases "y = x")
    case True
    then show ?thesis by (intro exI [of _ 0]) simp
  next
    case False
    with Cons.prems Cons.IH [of "Suc n"] obtain k where
      "k < length ys" "find_iter x ys (Suc n) = At (Suc n + k)" "ys ! k = x" by auto
    with False show ?thesis by (intro exI [of _ "Suc k"]) simp
  qed
qed

text \<open>
  What \<open>GetCurrentStep\<close> names: the step just called when it did not switch, the step that comes
  next when it switched to it, and after \<open>Abort\<close> of a task that has run an erased element.
\<close>

theorem current_step_meaning:
  assumes "tq_heap s t = Some tk" and "tk_next tk = At i"
  shows "(B t (tk_steps tk ! i) = [] \<longrightarrow>
            get_current_step (the (tq_heap (snd (task_next_step B t s)) t)) = Inr (Some (tk_steps tk ! i))) \<and>
         (B t (tk_steps tk ! i) = [SwitchStep st] \<and> st \<in> set (tk_steps tk) \<longrightarrow>
            fst (task_next_step B t s) = Inr True \<and>
            get_current_step (the (tq_heap (snd (task_next_step B t s)) t)) = Inr (Some st)) \<and>
         (tk_current tk \<noteq> AtEnd \<longrightarrow>
            get_current_step (snd (task_abort tk)) = Inl UndefinedBehaviour)"
proof (intro conjI impI)
  assume "B t (tk_steps tk ! i) = []"
  with assms show "get_current_step (the (tq_heap (snd (task_next_step B t s)) t)) =
      Inr (Some (tk_steps tk ! i))"
    by (simp add: task_next_step_def with_task_def task_fetch_def call_step_def task_advance_def
        get_current_step_def prog_simps Let_def)
next
  assume body: "B t (tk_steps tk ! i) = [SwitchStep st] \<and> st \<in> set (tk_steps tk)"
  then obtain k where k: "find_iter st (tk_steps tk) 0 = At k" "tk_steps tk ! k = st"
    using find_iter_at [of st "tk_steps tk" 0] by auto
  show "fst (task_next_step B t s) = Inr True"
    using assms body k
    by (simp add: task_next_step_def with_task_def task_fetch_def call_step_def task_advance_def
        switch_to_step_def prog_simps Let_def)
  show "get_current_step (the (tq_heap (snd (task_next_step B t s)) t)) = Inr (Some st)"
    using assms body k
    by (simp add: task_next_step_def with_task_def task_fetch_def call_step_def task_advance_def
        switch_to_step_def get_current_step_def prog_simps Let_def)
next
  assume "tk_current tk \<noteq> AtEnd"
  then show "get_current_step (snd (task_abort tk)) = Inl UndefinedBehaviour"
    by (simp add: task_abort_def get_current_step_def prog_simps Let_def)
qed

theorem current_step_meaning_witness:
  "get_current_step (the (tq_heap (snd (task_next_step (\<lambda>_ _. []) 2
     (new_task_list sample_tasks))) 2)) = Inr (Some 10)"
  using current_step_meaning [of "new_task_list sample_tasks" 2 _ 0 "\<lambda>_ _. []"]
  by (simp add: new_task_list_def sample_tasks_built)

end
