(* ===== verification/SqlConnection.thy ===== *)
theory SqlConnection
  imports Prelude "HOL-Library.Word"
begin

text \<open>
  \<open>SqlConnection\<close> and its data commands (modules/db/src/sql_connection.cpp).  SQLite is not part of
  the repository: \<open>sc_answers\<close> are the codes it will answer to the calls of a connection, in their
  order, and the record \<open>sqlite\<close> holds the functions of its interface on statements of an abstract
  type.  A call that SQLite answers \<open>SQLITE_BUSY\<close> for ever does not return: it is \<open>Waits\<close>.
\<close>

datatype sql_code = SQLITE_OK | SQLITE_BUSY | SQLITE_ROW | SQLITE_DONE | SQLITE_ERROR nat

datatype sql_value = SqlNull | SqlInt "64 word" | SqlText string

section \<open>Connections\<close>

record sql_connection =
  sc_open :: bool
  sc_lucene :: bool
  sc_commands :: int
  sc_sync :: bool
  sc_answers :: "sql_code list"
  sc_synchronized :: nat
  sc_notified :: nat
  sc_log :: "string list"

type_synonym 'a sc_prog = "(sql_connection, 'a) prog"

definition sc_new :: "bool \<Rightarrow> sql_code list \<Rightarrow> sql_connection" where
  "sc_new sync answers =
     \<lparr>sc_open = False, sc_lucene = False, sc_commands = 0, sc_sync = sync, sc_answers = answers,
      sc_synchronized = 0, sc_notified = 0, sc_log = []\<rparr>"

text \<open>
  The loop around every call: an answer that is a success ends it, a busy database is waited for
  when there is a synchronization object, and everything else throws.
\<close>

fun retry_sql :: "(sql_code \<Rightarrow> 'a option) \<Rightarrow> exn \<Rightarrow> sql_code list \<Rightarrow> 'a sc_prog" where
  "retry_sql ok err [] = (\<lambda>s. (Inl Waits, s\<lparr>sc_answers := []\<rparr>))"
| "retry_sql ok err (a # as) = (\<lambda>s.
     case ok a of
       Some x \<Rightarrow> (Inr x, s\<lparr>sc_answers := as\<rparr>)
     | None \<Rightarrow>
         if a = SQLITE_BUSY \<and> sc_sync s
         then retry_sql ok err as (s\<lparr>sc_synchronized := sc_synchronized s + 1\<rparr>)
         else (Inl err, s\<lparr>sc_answers := as\<rparr>))"

text \<open>\<open>ScopedNotifyAll\<close>: on every way out, if there is a synchronization object.\<close>

definition scoped_notify_all :: "'a sc_prog \<Rightarrow> 'a sc_prog" where
  "scoped_notify_all m = (\<lambda>s. case m s of (r, t) \<Rightarrow>
     (r, if r \<noteq> Inl Waits \<and> sc_sync t then t\<lparr>sc_notified := sc_notified t + 1\<rparr> else t))"

definition sql_call :: "(sql_code \<Rightarrow> 'a option) \<Rightarrow> exn \<Rightarrow> 'a sc_prog" where
  "sql_call ok err = scoped_notify_all (\<lambda>s. retry_sql ok err (sc_answers s) s)"

definition ok_code :: "sql_code \<Rightarrow> unit option" where
  "ok_code c = (if c = SQLITE_OK then Some () else None)"

definition step_code :: "sql_code \<Rightarrow> bool option" where
  "step_code c = (case c of SQLITE_ROW \<Rightarrow> Some True | SQLITE_DONE \<Rightarrow> Some False | _ \<Rightarrow> None)"

text \<open>
  \<open>vasprintf\<close> with no further arguments: \<open>%%\<close> is a percent sign and any other directive reads an
  argument that is not there.
\<close>

fun expand_format :: "string \<Rightarrow> string res" where
  "expand_format [] = Inr []"
| "expand_format (c # cs) =
     (if c = CHR ''%'' then
        (case cs of
           [] \<Rightarrow> Inl UndefinedBehaviour
         | d # ds \<Rightarrow> if d = CHR ''%'' then bind_res (expand_format ds) (\<lambda>t. Inr (c # t))
                    else Inl UndefinedBehaviour)
      else bind_res (expand_format cs) (\<lambda>t. Inr (c # t)))"

definition exec_command :: "string \<Rightarrow> unit sc_prog" where
  "exec_command format = (\<lambda>s.
     if \<not> sc_open s then ret () s
     else (case expand_format format of
             Inl e \<Rightarrow> raise e s
           | Inr buffer \<Rightarrow>
               thenP (sql_call ok_code SyntaxError)
                 (modifyP (\<lambda>s. s\<lparr>sc_log := sc_log s @ [buffer]\<rparr>)) s))"

text \<open>\<open>PrepareDataCommand\<close>: the text it prepared, or a null pointer when not connected.\<close>

definition new_data_command :: "unit sc_prog" where
  "new_data_command =
     thenP (sql_call ok_code SyntaxError) (modifyP (\<lambda>s. s\<lparr>sc_commands := sc_commands s + 1\<rparr>))"

definition delete_data_command :: "unit sc_prog" where
  "delete_data_command = modifyP (\<lambda>s. s\<lparr>sc_commands := sc_commands s - 1\<rparr>)"

definition prepare_data_command :: "string \<Rightarrow> string option sc_prog" where
  "prepare_data_command format = (\<lambda>s.
     if \<not> sc_open s then ret None s
     else (case expand_format format of
             Inl e \<Rightarrow> raise e s
           | Inr buffer \<Rightarrow> thenP new_data_command (ret (Some buffer)) s))"

definition command_step :: "bool sc_prog" where
  "command_step = sql_call step_code SqlInternalError"

definition sc_connect :: "bool \<Rightarrow> bool \<Rightarrow> unit sc_prog" where
  "sc_connect lucene opened = (\<lambda>s.
     if sc_open s then ret () s
     else (let t = s\<lparr>sc_open := True, sc_lucene := lucene\<rparr>
           in if opened then exec_command ''PRAGMA foreign_keys = ON;'' t
              else raise DbConnectionBroken t))"

definition sc_disconnect :: "bool \<Rightarrow> unit sc_prog" where
  "sc_disconnect closed = (\<lambda>s.
     if \<not> sc_open s then ret () s
     else if sc_commands s \<noteq> 0 then raise AssertFailed s
     else if \<not> closed then raise SqlInternalError s
     else ret () (s\<lparr>sc_open := False\<rparr>))"

text \<open>The destructor swallows what \<open>Disconnect\<close> throws, but not a failed assertion.\<close>

definition sc_destroy :: "bool \<Rightarrow> unit sc_prog" where
  "sc_destroy closed = catchP (sc_disconnect closed) (\<lambda>e. \<not> terminal e) (\<lambda>_. ret ())"

text \<open>
  \<open>CheckTableExist\<close>: \<open>bound\<close> is the answer of the bind and \<open>name\<close> the first column of the row.
\<close>

definition check_table_exist :: "sql_code \<Rightarrow> string \<Rightarrow> string \<Rightarrow> bool sc_prog" where
  "check_table_exist bound name tableName = (\<lambda>s.
     if \<not> sc_open s then ret False s
     else bindP (prepare_data_command ''select tbl_name from sqlite_master where name=?;'') (\<lambda>_ u.
       case (if bound = SQLITE_OK then bindP command_step (\<lambda>row. ret (row \<and> name = tableName))
             else raise SyntaxError) u of
         (r, t) \<Rightarrow> (r, snd (delete_data_command t))) s)"

section \<open>Parameters and columns\<close>

text \<open>A DPL string stands for its UTF-8 text; \<open>c_str\<close> ends at its first NUL.\<close>

record 'st sqlite =
  sq_bind :: "int \<Rightarrow> sql_value \<Rightarrow> 'st \<Rightarrow> sql_code \<times> 'st"
  sq_column_count :: "'st \<Rightarrow> int"
  sq_column_null :: "'st \<Rightarrow> int \<Rightarrow> bool"
  sq_column_int :: "'st \<Rightarrow> int \<Rightarrow> 32 word"
  sq_column_int64 :: "'st \<Rightarrow> int \<Rightarrow> 64 word"
  sq_column_text :: "'st \<Rightarrow> int \<Rightarrow> string option"

definition c_str :: "string \<Rightarrow> string" where
  "c_str s = takeWhile (\<lambda>c. c \<noteq> CHR 0x00) s"

definition check_bind :: "(int \<Rightarrow> sql_value \<Rightarrow> 'st \<Rightarrow> sql_code \<times> 'st) \<Rightarrow> int \<Rightarrow> sql_value \<Rightarrow> ('st, unit) prog" where
  "check_bind bnd pos v = (\<lambda>st. case bnd pos v st of (code, st') \<Rightarrow>
     if code \<noteq> SQLITE_OK then raise SyntaxError st' else ret () st')"

definition bind_null :: "'st sqlite \<Rightarrow> int \<Rightarrow> ('st, unit) prog" where
  "bind_null Q pos = check_bind (sq_bind Q) pos SqlNull"

definition bind_integer :: "'st sqlite \<Rightarrow> int \<Rightarrow> 32 word \<Rightarrow> ('st, unit) prog" where
  "bind_integer Q pos v = check_bind (sq_bind Q) pos (SqlInt (scast v))"

definition bind_int8 :: "'st sqlite \<Rightarrow> int \<Rightarrow> 8 word \<Rightarrow> ('st, unit) prog" where
  "bind_int8 Q pos v = check_bind (sq_bind Q) pos (SqlInt (scast (scast v :: 32 word)))"

definition bind_int16 :: "'st sqlite \<Rightarrow> int \<Rightarrow> 16 word \<Rightarrow> ('st, unit) prog" where
  "bind_int16 Q pos v = check_bind (sq_bind Q) pos (SqlInt (scast (scast v :: 32 word)))"

definition bind_int32 :: "'st sqlite \<Rightarrow> int \<Rightarrow> 32 word \<Rightarrow> ('st, unit) prog" where
  "bind_int32 Q pos v = check_bind (sq_bind Q) pos (SqlInt (scast v))"

definition bind_int64 :: "'st sqlite \<Rightarrow> int \<Rightarrow> 64 word \<Rightarrow> ('st, unit) prog" where
  "bind_int64 Q pos v = check_bind (sq_bind Q) pos (SqlInt v)"

definition bind_char_ptr :: "'st sqlite \<Rightarrow> int \<Rightarrow> string option \<Rightarrow> ('st, unit) prog" where
  "bind_char_ptr Q pos v =
     (case v of None \<Rightarrow> bind_null Q pos | Some t \<Rightarrow> check_bind (sq_bind Q) pos (SqlText (c_str t)))"

definition bind_string :: "'st sqlite \<Rightarrow> int \<Rightarrow> string \<Rightarrow> ('st, unit) prog" where
  "bind_string Q pos v = bind_char_ptr Q pos (Some v)"

text \<open>The overloads for optional values.\<close>

definition bind_optional ::
  "('st sqlite \<Rightarrow> int \<Rightarrow> 'v \<Rightarrow> ('st, unit) prog) \<Rightarrow> 'st sqlite \<Rightarrow> int \<Rightarrow> 'v option \<Rightarrow> ('st, unit) prog" where
  "bind_optional bnd Q pos v = (case v of None \<Rightarrow> bind_null Q pos | Some x \<Rightarrow> bnd Q pos x)"

definition check_column_index :: "'st sqlite \<Rightarrow> 'st \<Rightarrow> int \<Rightarrow> unit res" where
  "check_column_index Q st c =
     (if c < 0 \<or> c \<ge> sq_column_count Q st then Inl InvalidColumn else Inr ())"

definition is_column_null :: "'st sqlite \<Rightarrow> 'st \<Rightarrow> int \<Rightarrow> bool res" where
  "is_column_null Q st c = bind_res (check_column_index Q st c) (\<lambda>_. Inr (sq_column_null Q st c))"

definition get_column_integer :: "'st sqlite \<Rightarrow> 'st \<Rightarrow> int \<Rightarrow> 32 word res" where
  "get_column_integer Q st c = bind_res (check_column_index Q st c) (\<lambda>_. Inr (sq_column_int Q st c))"

definition get_column_int8 :: "'st sqlite \<Rightarrow> 'st \<Rightarrow> int \<Rightarrow> 8 word res" where
  "get_column_int8 Q st c = bind_res (check_column_index Q st c) (\<lambda>_. Inr (ucast (sq_column_int Q st c)))"

definition get_column_int16 :: "'st sqlite \<Rightarrow> 'st \<Rightarrow> int \<Rightarrow> 16 word res" where
  "get_column_int16 Q st c = bind_res (check_column_index Q st c) (\<lambda>_. Inr (ucast (sq_column_int Q st c)))"

definition get_column_int32 :: "'st sqlite \<Rightarrow> 'st \<Rightarrow> int \<Rightarrow> 32 word res" where
  "get_column_int32 Q st c = bind_res (check_column_index Q st c) (\<lambda>_. Inr (sq_column_int Q st c))"

definition get_column_int64 :: "'st sqlite \<Rightarrow> 'st \<Rightarrow> int \<Rightarrow> 64 word res" where
  "get_column_int64 Q st c = bind_res (check_column_index Q st c) (\<lambda>_. Inr (sq_column_int64 Q st c))"

definition get_column_string :: "'st sqlite \<Rightarrow> 'st \<Rightarrow> int \<Rightarrow> string res" where
  "get_column_string Q st c = bind_res (check_column_index Q st c) (\<lambda>_.
     Inr (case sq_column_text Q st c of None \<Rightarrow> [] | Some t \<Rightarrow> c_str t))"

text \<open>The readers of optional values check the index, then for null, then read.\<close>

definition get_column_optional ::
  "('st sqlite \<Rightarrow> 'st \<Rightarrow> int \<Rightarrow> 'v) \<Rightarrow> 'st sqlite \<Rightarrow> 'st \<Rightarrow> int \<Rightarrow> 'v option res" where
  "get_column_optional rd Q st c = bind_res (check_column_index Q st c) (\<lambda>_.
     if sq_column_null Q st c then Inr None else Inr (Some (rd Q st c)))"

definition get_column_optional_integer :: "'st sqlite \<Rightarrow> 'st \<Rightarrow> int \<Rightarrow> 32 word option res" where
  "get_column_optional_integer = get_column_optional sq_column_int"

definition get_column_optional_int8 :: "'st sqlite \<Rightarrow> 'st \<Rightarrow> int \<Rightarrow> 8 word option res" where
  "get_column_optional_int8 = get_column_optional (\<lambda>Q st c. ucast (sq_column_int Q st c))"

definition get_column_optional_int16 :: "'st sqlite \<Rightarrow> 'st \<Rightarrow> int \<Rightarrow> 16 word option res" where
  "get_column_optional_int16 = get_column_optional (\<lambda>Q st c. ucast (sq_column_int Q st c))"

definition get_column_optional_int32 :: "'st sqlite \<Rightarrow> 'st \<Rightarrow> int \<Rightarrow> 32 word option res" where
  "get_column_optional_int32 = get_column_optional sq_column_int"

definition get_column_optional_int64 :: "'st sqlite \<Rightarrow> 'st \<Rightarrow> int \<Rightarrow> 64 word option res" where
  "get_column_optional_int64 = get_column_optional sq_column_int64"

definition get_column_optional_string :: "'st sqlite \<Rightarrow> 'st \<Rightarrow> int \<Rightarrow> string option res" where
  "get_column_optional_string Q st c = bind_res (check_column_index Q st c) (\<lambda>_.
     if sq_column_null Q st c then Inr None
     else (case sq_column_text Q st c of
             None \<Rightarrow> Inl UndefinedBehaviour
           | Some t \<Rightarrow> Inr (Some (c_str t))))"

text \<open>
  What SQLite documents: \<open>cell\<close> gives the value of a column of the current row, the integer readers
  take its low bits, and null reads as zero or as no text.
\<close>

definition sqlite_reads :: "'st sqlite \<Rightarrow> ('st \<Rightarrow> int \<Rightarrow> sql_value) \<Rightarrow> bool" where
  "sqlite_reads Q cell \<longleftrightarrow>
     (\<forall>st c. sq_column_null Q st c = (cell st c = SqlNull) \<and>
        (\<forall>w. cell st c = SqlInt w \<longrightarrow> sq_column_int Q st c = ucast w \<and> sq_column_int64 Q st c = w) \<and>
        (\<forall>t. cell st c = SqlText t \<longrightarrow> sq_column_text Q st c = Some t) \<and>
        (cell st c = SqlNull \<longrightarrow> sq_column_int Q st c = 0 \<and> sq_column_int64 Q st c = 0 \<and>
           sq_column_text Q st c = None))"

text \<open>Column \<open>c\<close> of the row shows parameter \<open>p\<close>, as in \<open>SELECT ?\<close>.\<close>

definition echoes :: "'st sqlite \<Rightarrow> ('st \<Rightarrow> int \<Rightarrow> sql_value) \<Rightarrow> int \<Rightarrow> int \<Rightarrow> bool" where
  "echoes Q cell p c \<longleftrightarrow>
     (\<forall>v st st'. sq_bind Q p v st = (SQLITE_OK, st') \<longrightarrow> cell st' c = v) \<and>
     c \<ge> 0 \<and> (\<forall>st. c < sq_column_count Q st)"

section \<open>Lemmas\<close>

lemma narrow_widen:
  "ucast (ucast (scast (scast (v :: 8 word) :: 32 word) :: 64 word) :: 32 word) = v"
  "ucast (ucast (scast (scast (u :: 16 word) :: 32 word) :: 64 word) :: 32 word) = u"
  "ucast (scast (w :: 32 word) :: 64 word) = w"
  "ucast (scast (v :: 8 word) :: 32 word) = v"
  "ucast (scast (u :: 16 word) :: 32 word) = u"
proof -
  have top: "k \<le> n \<Longrightarrow> n < Suc k \<Longrightarrow> bit x k = bit x n" for x :: "'a::len word" and k n
    by (rule arg_cong) linarith
  show "ucast (ucast (scast (scast (v :: 8 word) :: 32 word) :: 64 word) :: 32 word) = v"
    by (rule bit_word_eqI) (use top [of 7 _ v] in \<open>auto simp: bit_simps min_def\<close>)
  show "ucast (ucast (scast (scast (u :: 16 word) :: 32 word) :: 64 word) :: 32 word) = u"
    by (rule bit_word_eqI) (use top [of 15 _ u] in \<open>auto simp: bit_simps min_def\<close>)
  show "ucast (scast (w :: 32 word) :: 64 word) = w"
    by (rule bit_word_eqI) (use top [of 31 _ w] in \<open>auto simp: bit_simps min_def\<close>)
  show "ucast (scast (v :: 8 word) :: 32 word) = v"
    by (rule bit_word_eqI) (use top [of 7 _ v] in \<open>auto simp: bit_simps min_def\<close>)
  show "ucast (scast (u :: 16 word) :: 32 word) = u"
    by (rule bit_word_eqI) (use top [of 15 _ u] in \<open>auto simp: bit_simps min_def\<close>)
qed

lemma check_bind_stored:
  "check_bind (sq_bind Q) p v st = (Inr (), st') \<Longrightarrow> echoes Q cell p c \<Longrightarrow> cell st' c = v"
  by (auto simp: check_bind_def echoes_def prog_simps split: prod.splits if_splits)

lemma echoes_index: "echoes Q cell p c \<Longrightarrow> check_column_index Q st c = Inr ()"
  by (simp add: echoes_def check_column_index_def not_le)

lemma reads_cell:
  assumes "sqlite_reads Q cell"
  shows "sq_column_null Q st c = (cell st c = SqlNull)"
    and "cell st c = SqlInt w \<Longrightarrow> sq_column_int Q st c = ucast w"
    and "cell st c = SqlInt w \<Longrightarrow> sq_column_int64 Q st c = w"
    and "cell st c = SqlText t \<Longrightarrow> sq_column_text Q st c = Some t"
    and "cell st c = SqlNull \<Longrightarrow> sq_column_int Q st c = 0"
    and "cell st c = SqlNull \<Longrightarrow> sq_column_text Q st c = None"
  using assms by (simp_all add: sqlite_reads_def)

lemma c_str_idem [simp]: "c_str (c_str s) = c_str s"
  by (simp add: c_str_def)

lemma retry_sql_waits:
  "list_all (\<lambda>a. a = SQLITE_BUSY) as \<Longrightarrow> ok SQLITE_BUSY = None \<Longrightarrow> sc_sync s \<Longrightarrow>
     retry_sql ok err as s = (Inl Waits, s\<lparr>sc_answers := [], sc_synchronized := sc_synchronized s + length as\<rparr>)"
  by (induction as arbitrary: s) simp_all

lemma retry_sql_answer:
  "list_all (\<lambda>a. a = SQLITE_BUSY) busy \<Longrightarrow> ok SQLITE_BUSY = None \<Longrightarrow> sc_sync s \<Longrightarrow> a \<noteq> SQLITE_BUSY \<Longrightarrow>
     retry_sql ok err (busy @ a # as) s =
       (case ok a of Some x \<Rightarrow> Inr x | None \<Rightarrow> Inl err,
        s\<lparr>sc_answers := as, sc_synchronized := sc_synchronized s + length busy\<rparr>)"
  by (induction busy arbitrary: s) (auto split: option.split)

lemma expand_format_plain:
  "CHR ''%'' \<notin> set cs \<Longrightarrow> expand_format cs = Inr cs"
  by (induction cs) auto

section \<open>Properties\<close>

text \<open>
  A call to SQLite is repeated exactly while the answer is \<open>SQLITE_BUSY\<close> and there is an object to
  synchronize on; its outcome is that of the first other answer, with one notification after it.
  Without the object a busy database is an error at once, and a database that stays busy keeps the
  call waiting.
\<close>

theorem sql_call_outcome:
  assumes "ok SQLITE_BUSY = None" and "list_all (\<lambda>a. a = SQLITE_BUSY) busy" and "err \<noteq> Waits"
  shows "(sc_sync s \<and> a \<noteq> SQLITE_BUSY \<and> sc_answers s = busy @ a # rest \<longrightarrow>
      sql_call ok err s =
        (case ok a of Some x \<Rightarrow> Inr x | None \<Rightarrow> Inl err,
         s\<lparr>sc_answers := rest, sc_synchronized := sc_synchronized s + length busy,
           sc_notified := sc_notified s + 1\<rparr>)) \<and>
    (sc_sync s \<and> sc_answers s = busy \<longrightarrow> fst (sql_call ok err s) = Inl Waits) \<and>
    (\<not> sc_sync s \<and> sc_answers s = a # rest \<longrightarrow>
      sql_call ok err s =
        (case ok a of Some x \<Rightarrow> Inr x | None \<Rightarrow> Inl err, s\<lparr>sc_answers := rest\<rparr>))"
proof (intro conjI impI)
  assume h: "sc_sync s \<and> a \<noteq> SQLITE_BUSY \<and> sc_answers s = busy @ a # rest"
  then have "retry_sql ok err (sc_answers s) s =
      (case ok a of Some x \<Rightarrow> Inr x | None \<Rightarrow> Inl err,
       s\<lparr>sc_answers := rest, sc_synchronized := sc_synchronized s + length busy\<rparr>)"
    using retry_sql_answer [of busy ok s a err rest] assms by simp
  then show "sql_call ok err s =
        (case ok a of Some x \<Rightarrow> Inr x | None \<Rightarrow> Inl err,
         s\<lparr>sc_answers := rest, sc_synchronized := sc_synchronized s + length busy,
           sc_notified := sc_notified s + 1\<rparr>)"
    using h assms(3) by (auto simp: sql_call_def scoped_notify_all_def split: option.split)
next
  assume "sc_sync s \<and> sc_answers s = busy"
  then show "fst (sql_call ok err s) = Inl Waits"
    using retry_sql_waits [of busy ok s err] assms
    by (simp add: sql_call_def scoped_notify_all_def)
next
  assume "\<not> sc_sync s \<and> sc_answers s = a # rest"
  then show "sql_call ok err s =
        (case ok a of Some x \<Rightarrow> Inr x | None \<Rightarrow> Inl err, s\<lparr>sc_answers := rest\<rparr>)"
    by (auto simp: sql_call_def scoped_notify_all_def split: option.split)
qed

theorem sql_call_outcome_witness:
  "sql_call step_code SqlInternalError (sc_new True [SQLITE_BUSY, SQLITE_BUSY, SQLITE_ROW]) =
     (Inr True, (sc_new True [])\<lparr>sc_synchronized := 2, sc_notified := 1\<rparr>)"
  using sql_call_outcome [of step_code "[SQLITE_BUSY, SQLITE_BUSY]" SqlInternalError
      "sc_new True [SQLITE_BUSY, SQLITE_BUSY, SQLITE_ROW]" SQLITE_ROW "[]"]
  by (simp add: step_code_def sc_new_def)


text \<open>A statement whose one column shows its parameter, as SQLite runs it.\<close>

definition echo_sqlite :: "sql_value sqlite" where
  "echo_sqlite =
     \<lparr>sq_bind = (\<lambda>p v st. if p = 1 then (SQLITE_OK, v) else (SQLITE_ERROR 25, st)),
      sq_column_count = (\<lambda>_. 1),
      sq_column_null = (\<lambda>st c. st = SqlNull),
      sq_column_int = (\<lambda>st c. case st of SqlInt w \<Rightarrow> ucast w | _ \<Rightarrow> 0),
      sq_column_int64 = (\<lambda>st c. case st of SqlInt w \<Rightarrow> w | _ \<Rightarrow> 0),
      sq_column_text = (\<lambda>st c. case st of SqlText t \<Rightarrow> Some t | _ \<Rightarrow> None)\<rparr>"

lemma echo_sqlite_documented:
  "sqlite_reads echo_sqlite (\<lambda>st c. st)" "echoes echo_sqlite (\<lambda>st c. st) 1 0"
  by (auto simp: sqlite_reads_def echoes_def echo_sqlite_def split: if_splits)


text \<open>
  No reader touches a column outside the row: a negative index or one past the last column
  throws \<open>InvalidColumn\<close>, whatever the type and whatever SQLite would answer.
\<close>

theorem column_index_checked:
  assumes "c < 0 \<or> sq_column_count Q st \<le> c"
  shows "is_column_null Q st c = Inl InvalidColumn \<and>
     get_column_integer Q st c = Inl InvalidColumn \<and> get_column_int8 Q st c = Inl InvalidColumn \<and>
     get_column_int16 Q st c = Inl InvalidColumn \<and> get_column_int32 Q st c = Inl InvalidColumn \<and>
     get_column_int64 Q st c = Inl InvalidColumn \<and> get_column_string Q st c = Inl InvalidColumn \<and>
     get_column_optional_integer Q st c = Inl InvalidColumn \<and>
     get_column_optional_int8 Q st c = Inl InvalidColumn \<and>
     get_column_optional_int16 Q st c = Inl InvalidColumn \<and>
     get_column_optional_int32 Q st c = Inl InvalidColumn \<and>
     get_column_optional_int64 Q st c = Inl InvalidColumn \<and>
     get_column_optional_string Q st c = Inl InvalidColumn"
proof -
  have "check_column_index Q st c = Inl InvalidColumn"
    using assms by (auto simp: check_column_index_def)
  then show ?thesis
    by (simp add: is_column_null_def get_column_integer_def get_column_int8_def get_column_int16_def
        get_column_int32_def get_column_int64_def get_column_string_def get_column_optional_def
        get_column_optional_integer_def get_column_optional_int8_def get_column_optional_int16_def
        get_column_optional_int32_def get_column_optional_int64_def get_column_optional_string_def)
qed

theorem column_index_checked_witness:
  "get_column_int64 echo_sqlite (SqlInt 7) 1 = Inl InvalidColumn"
  using column_index_checked [of 1 echo_sqlite "SqlInt 7"] by (simp add: echo_sqlite_def)

end
