(* ===== verification/ThreadDatabase.thy ===== *)
theory ThreadDatabase
  imports SqlConnection
begin

text \<open>
  The database connection of a thread (modules/db/include/dpl/db/thread_database_support.h) over
  thread-local variables (modules/core/include/dpl/thread.h), and the scoped transactions of the
  generated database classes (modules/db/include/dpl/db/orm_generator.h).  \<open>size_t\<close> has the 32 bits of
  the targets.  The connection object stands for the pointer to it.
\<close>

section \<open>Thread-local variables\<close>

text \<open>A value that was instantiated, with its guard against the end of the thread.\<close>

type_synonym 'a tlv = "('a \<times> bool) option"

definition tlv_assign :: "'a \<Rightarrow> 'a tlv \<Rightarrow> 'a tlv" where
  "tlv_assign x v = (case v of None \<Rightarrow> Some (x, False) | Some (_, g) \<Rightarrow> Some (x, g))"

definition tlv_deref :: "'a tlv \<Rightarrow> 'a res" where
  "tlv_deref v = (case v of None \<Rightarrow> Inl NullReference | Some (x, _) \<Rightarrow> Inr x)"

definition tlv_guard :: "bool \<Rightarrow> 'a tlv \<Rightarrow> 'a tlv res" where
  "tlv_guard guard v = (case v of None \<Rightarrow> Inl AssertFailed | Some (x, _) \<Rightarrow> Inr (Some (x, guard)))"

definition tlv_internal_destroy :: "'a \<times> bool \<Rightarrow> 'a tlv" where
  "tlv_internal_destroy inst = (if snd inst then Some inst else None)"

definition tlv_reset :: "'a tlv \<Rightarrow> 'a tlv" where
  "tlv_reset v = None"

definition tlv_thread_exit :: "'a tlv \<Rightarrow> 'a tlv" where
  "tlv_thread_exit v = (case v of None \<Rightarrow> None | Some inst \<Rightarrow> tlv_internal_destroy inst)"

section \<open>The state of a thread\<close>

type_synonym size_t = "32 word"

record thread_db =
  td_connection :: "sql_connection tlv"
  td_linger :: "bool tlv"
  td_ref :: "size_t tlv"
  td_depth :: "size_t tlv"
  td_attach :: "size_t tlv"
  td_cancel :: "bool tlv"
  td_destroyed :: nat

type_synonym 'a td_prog = "(thread_db, 'a) prog"

definition td_new :: thread_db where
  "td_new = \<lparr>td_connection = None, td_linger = None, td_ref = None, td_depth = None,
     td_attach = None, td_cancel = None, td_destroyed = 0\<rparr>"

definition rd :: "(thread_db \<Rightarrow> 'a tlv) \<Rightarrow> 'a td_prog" where
  "rd f = (\<lambda>s. (tlv_deref (f s), s))"

definition assert_connection :: "unit td_prog" where
  "assert_connection = assertP (\<lambda>s. td_connection s \<noteq> None)"

definition on_connection :: "'a sc_prog \<Rightarrow> 'a td_prog" where
  "on_connection f = (\<lambda>s.
     case td_connection s of
       None \<Rightarrow> raise NullReference s
     | Some (c, g) \<Rightarrow> (case f c of (r, c') \<Rightarrow> (r, s\<lparr>td_connection := Some (c', g)\<rparr>)))"

text \<open>Guarding, which asserts that the value is there.\<close>

definition guard_all :: "bool \<Rightarrow> unit td_prog" where
  "guard_all guard = (\<lambda>s.
     case (tlv_guard guard (td_connection s), tlv_guard guard (td_linger s),
           tlv_guard guard (td_ref s), tlv_guard guard (td_depth s),
           tlv_guard guard (td_attach s), tlv_guard guard (td_cancel s)) of
       (Inr c, Inr l, Inr r, Inr d, Inr a, Inr x) \<Rightarrow>
         ret () (s\<lparr>td_connection := c, td_linger := l, td_ref := r, td_depth := d,
                   td_attach := a, td_cancel := x\<rparr>)
     | _ \<Rightarrow> raise AssertFailed s)"

definition reset_all :: "unit td_prog" where
  "reset_all = modifyP (\<lambda>s. s\<lparr>td_connection := tlv_reset (td_connection s),
     td_linger := tlv_reset (td_linger s), td_ref := tlv_reset (td_ref s),
     td_depth := tlv_reset (td_depth s), td_attach := tlv_reset (td_attach s),
     td_cancel := tlv_reset (td_cancel s)\<rparr>)"

section \<open>Attaching and detaching\<close>

text \<open>\<open>closed\<close> is SQLite's answer to closing the connection.\<close>

definition checked_connection_delete :: "bool \<Rightarrow> unit td_prog" where
  "checked_connection_delete closed =
     thenP assert_connection
       (bindP (rd td_linger) (\<lambda>linger. thenP (assertP (\<lambda>_. linger))
         (bindP (rd td_ref) (\<lambda>ref. bindP (if ref > 0 then ret True else bindP (rd td_attach) (\<lambda>n. ret (n > 0)))
           (\<lambda>used. if used then ret ()
             else thenP (on_connection (sc_destroy closed))
               (thenP (modifyP (\<lambda>s. s\<lparr>td_destroyed := td_destroyed s + 1\<rparr>))
                 (thenP (guard_all False) reset_all)))))))"

text \<open>\<open>opened\<close> and \<open>answers\<close> are what SQLite answers to a new connection.\<close>

definition attach_to_thread :: "bool \<Rightarrow> sql_code list \<Rightarrow> unit td_prog" where
  "attach_to_thread opened answers =
     thenP (modifyP (\<lambda>s. s\<lparr>td_linger := tlv_assign False (td_linger s)\<rparr>))
       (\<lambda>s. if td_connection s \<noteq> None
            then bindP (rd td_attach) (\<lambda>n. modifyP (\<lambda>s. s\<lparr>td_attach := tlv_assign (n + 1) (td_attach s)\<rparr>)) s
            else (case sc_connect False opened (sc_new True answers) of
                    (Inl e, _) \<Rightarrow> raise e s
                  | (Inr _, c) \<Rightarrow>
                      thenP (modifyP (\<lambda>s. s\<lparr>td_connection := tlv_assign c (td_connection s),
                               td_ref := tlv_assign 0 (td_ref s), td_attach := tlv_assign 1 (td_attach s),
                               td_depth := tlv_assign 0 (td_depth s),
                               td_cancel := tlv_assign False (td_cancel s)\<rparr>))
                        (guard_all True) s))"

definition detach_from_thread :: "bool \<Rightarrow> unit td_prog" where
  "detach_from_thread closed =
     thenP assert_connection
       (bindP (rd td_attach) (\<lambda>n.
         thenP (modifyP (\<lambda>s. s\<lparr>td_attach := tlv_assign (n - 1) (td_attach s)\<rparr>))
           (if n - 1 > 0 then ret ()
            else bindP (rd td_linger) (\<lambda>linger. thenP (assertP (\<lambda>_. \<not> linger))
              (thenP (modifyP (\<lambda>s. s\<lparr>td_linger := tlv_assign True (td_linger s)\<rparr>))
                (checked_connection_delete closed))))))"

definition is_attached :: "thread_db \<Rightarrow> bool" where
  "is_attached s = (case td_attach s of None \<Rightarrow> False | Some (n, _) \<Rightarrow> n > 0)"

section \<open>Data commands\<close>

definition alloc_data_command :: "string \<Rightarrow> string option td_prog" where
  "alloc_data_command statement =
     thenP assert_connection
       (bindP (rd td_linger) (\<lambda>linger. thenP (assertP (\<lambda>_. \<not> linger))
         (bindP (rd td_ref) (\<lambda>n.
           thenP (modifyP (\<lambda>s. s\<lparr>td_ref := tlv_assign (n + 1) (td_ref s)\<rparr>))
             (on_connection (prepare_data_command (c_str statement)))))))"

definition free_data_command :: "bool \<Rightarrow> unit td_prog" where
  "free_data_command closed =
     thenP assert_connection
       (thenP (on_connection delete_data_command)
         (bindP (rd td_ref) (\<lambda>n.
           thenP (modifyP (\<lambda>s. s\<lparr>td_ref := tlv_assign (n - 1) (td_ref s)\<rparr>))
             (bindP (rd td_linger) (\<lambda>linger.
               if linger then checked_connection_delete closed else ret ())))))"

section \<open>Transactions\<close>

definition transaction_unref :: "unit td_prog" where
  "transaction_unref =
     bindP (rd td_depth) (\<lambda>n.
       thenP (modifyP (\<lambda>s. s\<lparr>td_depth := tlv_assign (n - 1) (td_depth s)\<rparr>))
         (if n - 1 = 0
          then bindP (rd td_cancel) (\<lambda>cancel.
            on_connection (exec_command (if cancel then ''ROLLBACK;'' else ''COMMIT;'')))
          else ret ()))"

definition transaction_begin :: "unit td_prog" where
  "transaction_begin =
     thenP assert_connection
       (bindP (rd td_depth) (\<lambda>n.
         thenP (modifyP (\<lambda>s. s\<lparr>td_depth := tlv_assign (n + 1) (td_depth s)\<rparr>))
           (if n + 1 = 1
            then thenP (modifyP (\<lambda>s. s\<lparr>td_cancel := tlv_assign False (td_cancel s)\<rparr>))
                   (on_connection (exec_command ''BEGIN;''))
            else ret ())))"

definition transaction_commit :: "unit td_prog" where
  "transaction_commit = thenP assert_connection transaction_unref"

definition transaction_rollback :: "unit td_prog" where
  "transaction_rollback =
     thenP assert_connection
       (thenP (modifyP (\<lambda>s. s\<lparr>td_cancel := tlv_assign True (td_cancel s)\<rparr>)) transaction_unref)"

definition td_check_table_exist :: "sql_code \<Rightarrow> string \<Rightarrow> string \<Rightarrow> bool td_prog" where
  "td_check_table_exist bound name tableName =
     thenP assert_connection (on_connection (check_table_exist bound name tableName))"

text \<open>
  A scope with a \<open>ScopedTransaction\<close>: its body, then \<open>Commit\<close> if \<open>commit\<close>; the destructor rolls back
  what was not committed, also while an exception leaves the scope, and an exception out of it then
  ends the program.
\<close>

definition scoped_transaction :: "bool \<Rightarrow> unit td_prog \<Rightarrow> unit td_prog" where
  "scoped_transaction commit body =
     thenP transaction_begin (\<lambda>s.
       case thenP body (if commit then transaction_commit else ret ()) s of
         (Inl e, t) \<Rightarrow>
           (if terminal e then (Inl e, t)
            else (case transaction_rollback t of
                    (Inl f, u) \<Rightarrow> (Inl (if terminal f then f else Aborted), u)
                  | (Inr _, u) \<Rightarrow> (Inl e, u)))
       | (Inr _, t) \<Rightarrow> (if commit then ret () t else transaction_rollback t))"

section \<open>Nested transactions\<close>

text \<open>Statements and scopes, each scope with what its end asks for.\<close>

datatype tx = Stmt string | Tx bool "tx list"

fun tx_run :: "tx \<Rightarrow> unit td_prog" and txs_run :: "tx list \<Rightarrow> unit td_prog" where
  "tx_run (Stmt st) = on_connection (exec_command st)"
| "tx_run (Tx commit ts) = scoped_transaction commit (txs_run ts)"
| "txs_run [] = ret ()"
| "txs_run (t # ts) = thenP (tx_run t) (txs_run ts)"

fun tx_stmts :: "tx \<Rightarrow> string list" and txs_stmts :: "tx list \<Rightarrow> string list" where
  "tx_stmts (Stmt st) = [st]"
| "tx_stmts (Tx commit ts) = txs_stmts ts"
| "txs_stmts [] = []"
| "txs_stmts (t # ts) = tx_stmts t @ txs_stmts ts"

text \<open>Some scope inside is left without a commit.\<close>

fun tx_cancels :: "tx \<Rightarrow> bool" and txs_cancel :: "tx list \<Rightarrow> bool" where
  "tx_cancels (Stmt st) = False"
| "tx_cancels (Tx commit ts) = (\<not> commit \<or> txs_cancel ts)"
| "txs_cancel [] = False"
| "txs_cancel (t # ts) = (tx_cancels t \<or> txs_cancel ts)"

fun tx_depth :: "tx \<Rightarrow> nat" and txs_depth :: "tx list \<Rightarrow> nat" where
  "tx_depth (Stmt st) = 0"
| "tx_depth (Tx commit ts) = Suc (txs_depth ts)"
| "txs_depth [] = 0"
| "txs_depth (t # ts) = max (tx_depth t) (txs_depth ts)"

definition after_exec :: "string \<Rightarrow> sql_connection \<Rightarrow> sql_connection" where
  "after_exec st c = c\<lparr>sc_answers := tl (sc_answers c),
     sc_notified := sc_notified c + (if sc_sync c then 1 else 0), sc_log := sc_log c @ [st]\<rparr>"

definition accepts :: "nat \<Rightarrow> sql_connection \<Rightarrow> bool" where
  "accepts k c \<longleftrightarrow> sc_open c \<and> k \<le> length (sc_answers c) \<and>
     list_all (\<lambda>a. a = SQLITE_OK) (take k (sc_answers c))"

definition plain :: "string \<Rightarrow> bool" where
  "plain st \<longleftrightarrow> CHR ''%'' \<notin> set st"

lemma exec_command_ok:
  assumes "accepts (Suc k) c" and "plain st"
  shows "exec_command st c = (Inr (), after_exec st c)" and "accepts k (after_exec st c)"
proof -
  obtain as where "sc_answers c = SQLITE_OK # as" "sc_open c"
    using assms(1) by (cases "sc_answers c") (auto simp: accepts_def)
  then show "exec_command st c = (Inr (), after_exec st c)"
    using assms(2)
    by (simp add: exec_command_def plain_def expand_format_plain sql_call_def scoped_notify_all_def
        ok_code_def after_exec_def prog_simps)
  show "accepts k (after_exec st c)"
    using assms(1) by (cases "sc_answers c") (auto simp: accepts_def after_exec_def)
qed

lemma exec_on_connection:
  assumes "accepts (Suc k) c" and "plain st" and "td_connection s = Some (c, g)"
  shows "on_connection (exec_command st) s = (Inr (), s\<lparr>td_connection := Some (after_exec st c, g)\<rparr>)"
  using exec_command_ok(1) [OF assms(1,2)] assms(3) by (simp add: on_connection_def)

text \<open>An attached thread at transaction depth \<open>n\<close>.\<close>

definition at_depth :: "sql_connection \<Rightarrow> bool \<Rightarrow> size_t \<Rightarrow> thread_db \<Rightarrow> thread_db" where
  "at_depth c x n s = s\<lparr>td_connection := Some (c, True), td_depth := Some (n, True),
     td_cancel := Some (x, True)\<rparr>"

lemma at_depth_again [simp]: "at_depth c x n (at_depth d y m s) = at_depth c x n s"
  by (simp add: at_depth_def)

lemmas td_step = rd_def tlv_deref_def tlv_assign_def assert_connection_def prog_simps ex_bool_eq

lemma commit_inner:
  "n \<noteq> 0 \<Longrightarrow> transaction_commit (at_depth c x (n + 1) s) = (Inr (), at_depth c x n s)"
  by (simp add: transaction_commit_def transaction_unref_def at_depth_def td_step)

lemma rollback_inner:
  "n \<noteq> 0 \<Longrightarrow> transaction_rollback (at_depth c x (n + 1) s) = (Inr (), at_depth c True n s)"
  by (simp add: transaction_rollback_def transaction_unref_def at_depth_def td_step)

lemma begin_inner:
  "n \<noteq> 0 \<Longrightarrow> transaction_begin (at_depth c x n s) = (Inr (), at_depth c x (n + 1) s)"
  by (simp add: transaction_begin_def at_depth_def td_step)

lemma scoped_returns:
  assumes "transaction_begin s = (Inr (), t)" and "body t = (Inr (), u)"
  shows "scoped_transaction commit body s =
     (if commit then (case transaction_commit u of
         (Inl e, v) \<Rightarrow> (if terminal e then (Inl e, v)
            else (case transaction_rollback v of
                    (Inl f, w) \<Rightarrow> (Inl (if terminal f then f else Aborted), w)
                  | (Inr _, w) \<Rightarrow> (Inl e, w)))
       | (Inr _, v) \<Rightarrow> (Inr (), v))
      else transaction_rollback u)"
  using assms by (simp add: scoped_transaction_def thenP_def bindP_def ret_def split: prod.split sum.split)

lemma accepts_after: "accepts (Suc k) c \<Longrightarrow> accepts k (after_exec st c)"
  by (cases "sc_answers c") (auto simp: accepts_def after_exec_def)

lemma fold_exec_accepts:
  "accepts (length sts + k) c \<Longrightarrow> accepts k (fold after_exec sts c)"
  by (induction sts arbitrary: c) (simp_all add: accepts_after)

lemma fold_exec_log [simp]: "sc_log (fold after_exec sts c) = sc_log c @ sts"
  by (induction sts arbitrary: c) (simp_all add: after_exec_def)

text \<open>
  Below an open transaction a scope only counts: its statements are executed, the depth is what it
  was, and a scope without commit leaves the cancel mark.
\<close>

lemma accepts_mono: "accepts k c \<Longrightarrow> j \<le> k \<Longrightarrow> accepts j c"
  by (auto simp: accepts_def list_all_iff dest: set_take_subset_set_take [THEN subsetD, rotated])

lemma word_room:
  fixes n :: size_t
  assumes "0 < unat n" and "unat n + Suc k < 2 ^ 32"
  shows "n \<noteq> 0" and "unat (n + 1) = Suc (unat n)"
  using assms by (auto simp: unat_word_ariths(1) unat_eq_0)

lemma tx_run_inner:
  "accepts (length (tx_stmts t)) c \<Longrightarrow> list_all plain (tx_stmts t) \<Longrightarrow>
     0 < unat n \<Longrightarrow> unat n + tx_depth t < 2 ^ 32 \<Longrightarrow>
     tx_run t (at_depth c x n s) = (Inr (), at_depth (fold after_exec (tx_stmts t) c) (x \<or> tx_cancels t) n s)"
  "accepts (length (txs_stmts ts)) c \<Longrightarrow> list_all plain (txs_stmts ts) \<Longrightarrow>
     0 < unat n \<Longrightarrow> unat n + txs_depth ts < 2 ^ 32 \<Longrightarrow>
     txs_run ts (at_depth c x n s) = (Inr (), at_depth (fold after_exec (txs_stmts ts) c) (x \<or> txs_cancel ts) n s)"
proof (induction t and ts arbitrary: c x n and c x n rule: tx_run_txs_run.induct)
  case (1 st)
  then have "exec_command st c = (Inr (), after_exec st c)"
    using exec_command_ok(1) [of 0 c st] by simp
  then show ?case by (simp add: on_connection_def at_depth_def)
next
  case (2 commit ts)
  have room: "n \<noteq> 0" "unat (n + 1) = Suc (unat n)"
    using word_room [of n "txs_depth ts"] 2 by simp_all
  have "txs_run ts (at_depth c x (n + 1) s) =
      (Inr (), at_depth (fold after_exec (txs_stmts ts) c) (x \<or> txs_cancel ts) (n + 1) s)"
    using 2 room by simp
  then show ?case
    by (simp add: scoped_returns [OF begin_inner [OF room(1)]] commit_inner rollback_inner room(1))
next
  case 3
  then show ?case by (simp add: prog_simps)
next
  case (4 t ts)
  have "accepts (length (tx_stmts t)) c" using 4(3) by (rule accepts_mono) simp
  then have "tx_run t (at_depth c x n s) =
      (Inr (), at_depth (fold after_exec (tx_stmts t) c) (x \<or> tx_cancels t) n s)"
    using 4 by simp
  moreover have "accepts (length (txs_stmts ts)) (fold after_exec (tx_stmts t) c)"
    using 4(3) by (intro fold_exec_accepts) (simp add: add.commute)
  ultimately show ?case using 4 by (simp add: prog_simps disj_assoc)
qed

lemma plain_controls: "plain ''BEGIN;''" "plain ''COMMIT;''" "plain ''ROLLBACK;''"
  by (simp_all add: plain_def)

lemma begin_outer:
  assumes "accepts (Suc k) c"
  shows "transaction_begin (at_depth c x 0 s) = (Inr (), at_depth (after_exec ''BEGIN;'' c) False 1 s)"
  using exec_command_ok(1) [OF assms plain_controls(1)]
  by (simp add: transaction_begin_def at_depth_def on_connection_def td_step)

lemma commit_outer:
  assumes "accepts (Suc k) c"
  shows "transaction_commit (at_depth c x 1 s) =
     (Inr (), at_depth (after_exec (if x then ''ROLLBACK;'' else ''COMMIT;'') c) x 0 s)"
  using exec_command_ok(1) [OF assms plain_controls(2)] exec_command_ok(1) [OF assms plain_controls(3)]
  by (simp add: transaction_commit_def transaction_unref_def at_depth_def on_connection_def td_step)

lemma rollback_outer:
  assumes "accepts (Suc k) c"
  shows "transaction_rollback (at_depth c x 1 s) =
     (Inr (), at_depth (after_exec ''ROLLBACK;'' c) True 0 s)"
  using exec_command_ok(1) [OF assms plain_controls(3)]
  by (simp add: transaction_rollback_def transaction_unref_def at_depth_def on_connection_def td_step)

section \<open>Lifetime of the connection\<close>

definition td_ok :: "thread_db \<Rightarrow> bool" where
  "td_ok s \<longleftrightarrow>
     (case td_connection s of
        None \<Rightarrow> td_ref s = None \<and> td_attach s = None \<and> td_depth s = None \<and> td_cancel s = None
      | Some (c, g) \<Rightarrow>
          (\<exists>r a d x g1 g2 g3 g4 g5. td_ref s = Some (r, g1) \<and> td_attach s = Some (a, g2) \<and>
             td_depth s = Some (d, g3) \<and> td_cancel s = Some (x, g4) \<and>
             td_linger s = Some (a = 0, g5) \<and> sc_open c \<and>
             0 \<le> sc_commands c \<and> sc_commands c \<le> uint r \<and> (a \<noteq> 0 \<or> r \<noteq> 0)))"

text \<open>The commands of the thread that were allocated and not freed.\<close>

definition live_commands :: "thread_db \<Rightarrow> int" where
  "live_commands s = (case td_connection s of None \<Rightarrow> 0 | Some (c, g) \<Rightarrow> sc_commands c)"

text \<open>The part of a connection its statements leave alone.\<close>

definition same_handle :: "bool \<Rightarrow> int \<Rightarrow> sql_connection \<Rightarrow> bool" where
  "same_handle opn k c \<longleftrightarrow> sc_open c = opn \<and> sc_commands c = k"

lemma retry_sql_keeps: "keeps (same_handle opn k) (retry_sql ok err as)"
proof (induction as)
  case Nil
  then show ?case by (simp add: keeps_def same_handle_def)
next
  case (Cons a as)
  then show ?case by (auto simp: keeps_def same_handle_def split: option.split)
qed

lemma sql_call_keeps [inv_intros]: "keeps (same_handle opn k) (sql_call ok err)"
proof (rule keepsI)
  fix c :: sql_connection
  assume c: "same_handle opn k c"
  obtain r d where run: "retry_sql ok err (sc_answers c) c = (r, d)" by fastforce
  with keepsD [OF retry_sql_keeps c, of ok err "sc_answers c"]
  show "same_handle opn k (snd (sql_call ok err c))"
    by (auto simp: sql_call_def scoped_notify_all_def same_handle_def)
qed

lemma exec_keeps: "keeps (same_handle opn k) (exec_command st)"
proof (cases "expand_format st")
  case (Inl e)
  then show ?thesis by (auto simp: exec_command_def keeps_def prog_simps)
next
  case (Inr buffer)
  have "keeps (same_handle opn k) (thenP (sql_call ok_code SyntaxError)
      (modifyP (\<lambda>s. s\<lparr>sc_log := sc_log s @ [buffer]\<rparr>)))"
    by (intro inv_intros) (simp add: same_handle_def)
  with Inr show ?thesis by (simp add: exec_command_def keeps_def ret_def)
qed

lemma prepare_commands:
  "sc_open (snd (prepare_data_command st c)) = sc_open c \<and>
   sc_commands c \<le> sc_commands (snd (prepare_data_command st c)) \<and>
   sc_commands (snd (prepare_data_command st c)) \<le> sc_commands c + 1"
proof (cases "sc_open c \<and> (\<exists>buffer. expand_format st = Inr buffer)")
  case False
  then show ?thesis by (auto simp: prepare_data_command_def prog_simps split: sum.split)
next
  case True
  obtain r d where run: "sql_call ok_code SyntaxError c = (r, d)" by fastforce
  have "same_handle (sc_open c) (sc_commands c) c" by (simp add: same_handle_def)
  from keepsD [OF sql_call_keeps this, of ok_code SyntaxError] run
  have "sc_open d = sc_open c" "sc_commands d = sc_commands c" by (simp_all add: same_handle_def)
  with True run show ?thesis
    by (cases r) (auto simp: prepare_data_command_def new_data_command_def prog_simps)
qed

lemma td_ok_new: "td_ok td_new"
  by (simp add: td_ok_def td_new_def)

lemma connect_fields:
  assumes "sc_connect False opened (sc_new True answers) = (Inr u, c)"
  shows "sc_open c \<and> sc_commands c = 0"
proof -
  let ?c = "(sc_new True answers)\<lparr>sc_open := True, sc_lucene := False\<rparr>"
  have run: "exec_command ''PRAGMA foreign_keys = ON;'' ?c = (Inr u, c)"
    using assms by (simp add: sc_connect_def sc_new_def Let_def raise_def split: if_splits)
  have "same_handle True 0 ?c" by (simp add: same_handle_def sc_new_def)
  from keeps_pair [OF exec_keeps this run] show ?thesis by (simp add: same_handle_def)
qed


text \<open>An attached or lingering thread, field by field.\<close>

lemma td_okE:
  assumes "td_ok s" and "td_connection s = Some (c, g)"
  obtains r a d x g1 g2 g3 g4 g5 where
    "td_ref s = Some (r, g1)" "td_attach s = Some (a, g2)" "td_depth s = Some (d, g3)"
    "td_cancel s = Some (x, g4)" "td_linger s = Some (a = 0, g5)" "sc_open c" "0 \<le> sc_commands c"
    "sc_commands c \<le> uint r" "a \<noteq> 0 \<or> r \<noteq> 0"
  using assms unfolding td_ok_def by auto

lemma uint_pred:
  assumes "(n :: size_t) \<noteq> 0"
  shows "uint (n - 1) = uint n - 1"
proof -
  have "0 < uint n" "uint n < 2 ^ 32"
    using assms unsigned_less [of n, where ?'a = int]
    by (simp_all add: word_gt_0 [symmetric] word_less_def word_neq_0_conv)
  then show ?thesis by (simp add: uint_word_ariths(2))
qed

lemma uint_suc:
  assumes "(n :: size_t) \<noteq> - 1"
  shows "uint (n + 1) = uint n + 1"
proof -
  have "uint n \<noteq> uint (- 1 :: size_t)" using assms by (metis word_uint_eqI)
  then have "uint n \<noteq> 2 ^ 32 - 1" by (simp add: unsigned_minus_1_eq_mask mask_eq_exp_minus_1)
  moreover have "0 \<le> uint n" "uint n < 2 ^ 32"
    using unsigned_less [of n, where ?'a = int] by simp_all
  ultimately show ?thesis by (simp add: uint_word_ariths(1))
qed

lemma checked_delete_run:
  assumes "td_connection s = Some (c, g)" "td_ref s = Some (r, g1)" "td_attach s = Some (a, g2)"
    "td_depth s = Some (d, g3)" "td_cancel s = Some (x, g4)" "td_linger s = Some (True, g5)"
    "sc_open c" "sc_commands c = 0 \<or> r \<noteq> 0 \<or> a \<noteq> 0"
  shows "checked_connection_delete closed s =
     (if r = 0 \<and> a = 0 then (Inr (), td_new\<lparr>td_destroyed := td_destroyed s + 1\<rparr>) else (Inr (), s))"
proof (cases "r = 0 \<and> a = 0")
  case True
  with assms show ?thesis
    by (simp add: checked_connection_delete_def on_connection_def sc_destroy_def sc_disconnect_def
        guard_all_def tlv_guard_def reset_all_def tlv_reset_def td_new_def td_step terminal_def)
      (cases g; simp)
next
  case False
  with assms show ?thesis
    by (auto simp: checked_connection_delete_def td_step word_neq_0_conv)
qed


lemma detach_run:
  assumes ok: "td_ok s" and att: "is_attached s"
  shows "\<exists>t. detach_from_thread closed s = (Inr (), t) \<and> td_ok t"
proof -
  obtain c g where conn: "td_connection s = Some (c, g)"
    using ok att by (cases "td_connection s") (auto simp: td_ok_def is_attached_def)
  from td_okE [OF ok conn] obtain r a d x g1 g2 g3 g4 g5 where
    f: "td_ref s = Some (r, g1)" "td_attach s = Some (a, g2)" "td_depth s = Some (d, g3)"
    "td_cancel s = Some (x, g4)" "td_linger s = Some (a = 0, g5)" "sc_open c" "0 \<le> sc_commands c"
    "sc_commands c \<le> uint r" .
  have a: "a \<noteq> 0" using att f by (simp add: is_attached_def)
  show ?thesis
  proof (cases "a - 1 = 0")
    case False
    let ?t = "s\<lparr>td_attach := Some (a - 1, g2)\<rparr>"
    have p: "0 < a - 1" using False by (simp add: word_gt_0)
    have "detach_from_thread closed s = (Inr (), ?t)"
      using conn f p by (cases g) (simp_all add: detach_from_thread_def td_step)
    moreover have "td_ok ?t" using conn f a False by (auto simp: td_ok_def)
    ultimately show ?thesis by blast
  next
    case True
    let ?t = "s\<lparr>td_attach := Some (a - 1, g2), td_linger := Some (True, g5)\<rparr>"
    have "detach_from_thread closed s = checked_connection_delete closed ?t"
      using conn f a True by (cases g) (simp_all add: detach_from_thread_def td_step)
    also have "\<dots> = (if r = 0 then (Inr (), td_new\<lparr>td_destroyed := td_destroyed s + 1\<rparr>) else (Inr (), ?t))"
      using checked_delete_run [of ?t c g r g1 "a - 1" g2 d g3 x g4 g5 closed] conn f True by auto
    finally have run: "detach_from_thread closed s =
        (Inr (), if r = 0 then td_new\<lparr>td_destroyed := td_destroyed s + 1\<rparr> else ?t)" by simp
    have "td_ok ?t" if "r \<noteq> 0" using conn f True that by (auto simp: td_ok_def)
    moreover have "td_ok (td_new\<lparr>td_destroyed := k\<rparr>)" for k by (simp add: td_ok_def td_new_def)
    ultimately show ?thesis using run by auto
  qed
qed

lemma free_run:
  assumes ok: "td_ok s" and live: "live_commands s > 0"
  shows "\<exists>t. free_data_command closed s = (Inr (), t) \<and> td_ok t"
proof -
  obtain c g where conn: "td_connection s = Some (c, g)"
    using live by (cases "td_connection s") (auto simp: live_commands_def)
  from td_okE [OF ok conn] obtain r a d x g1 g2 g3 g4 g5 where
    f: "td_ref s = Some (r, g1)" "td_attach s = Some (a, g2)" "td_depth s = Some (d, g3)"
    "td_cancel s = Some (x, g4)" "td_linger s = Some (a = 0, g5)" "sc_open c" "0 \<le> sc_commands c"
    "sc_commands c \<le> uint r" .
  have pos: "sc_commands c > 0" using live conn by (simp add: live_commands_def)
  then have r: "r \<noteq> 0" using f(8) by auto
  let ?c = "c\<lparr>sc_commands := sc_commands c - 1\<rparr>"
  let ?t = "s\<lparr>td_connection := Some (?c, g), td_ref := Some (r - 1, g1)\<rparr>"
  have cmd: "0 \<le> sc_commands c - 1" "sc_commands c - 1 \<le> uint (r - 1)"
    using pos f(8) uint_pred [OF r] by simp_all
  have step: "free_data_command closed s =
      (if a = 0 then checked_connection_delete closed ?t else (Inr (), ?t))"
    using conn f
    by (cases g) (simp_all add: free_data_command_def on_connection_def delete_data_command_def td_step)
  show ?thesis
  proof (cases "a = 0")
    case True
    have "r - 1 = 0 \<Longrightarrow> sc_commands ?c = 0" using cmd by simp
    then have run: "checked_connection_delete closed ?t =
        (if r - 1 = 0 then (Inr (), td_new\<lparr>td_destroyed := td_destroyed s + 1\<rparr>) else (Inr (), ?t))"
      using checked_delete_run [of ?t ?c g "r - 1" g1 a g2 d g3 x g4 g5 closed] conn f True by auto
    have "td_ok ?t" if "r - 1 \<noteq> 0" using conn f True that cmd by (auto simp: td_ok_def)
    moreover have "td_ok (td_new\<lparr>td_destroyed := k\<rparr>)" for k by (simp add: td_ok_def td_new_def)
    ultimately show ?thesis using run step True by auto
  next
    case False
    then have "td_ok ?t" using conn f cmd by (auto simp: td_ok_def)
    with step False show ?thesis by simp
  qed
qed


text \<open>With a connection, transactions touch only the depth, the cancel mark and the log.\<close>

definition td_live :: "thread_db \<Rightarrow> bool" where
  "td_live s \<longleftrightarrow> td_ok s \<and> td_connection s \<noteq> None"

lemma keeps_guarded:
  assumes "keeps td_live k"
  shows "keeps td_ok (thenP assert_connection k)"
proof (rule keepsI)
  fix s assume ok: "td_ok s"
  show "td_ok (snd (thenP assert_connection k s))"
  proof (cases "td_connection s = None")
    case True
    with ok show ?thesis by (simp add: assert_connection_def prog_simps)
  next
    case False
    then have "thenP assert_connection k s = k s" by (simp add: assert_connection_def prog_simps)
    moreover have "td_live s" using ok False by (simp add: td_live_def)
    ultimately show ?thesis using keepsD [OF assms, of s] by (simp add: td_live_def)
  qed
qed

lemma keeps_rd [inv_intros]: "keeps I (rd f)"
  by (simp add: keeps_def rd_def)

lemma keeps_depth [inv_intros]: "keeps td_live (modifyP (\<lambda>s. s\<lparr>td_depth := tlv_assign n (td_depth s)\<rparr>))"
  by (rule keeps_modify) (auto simp: td_live_def td_ok_def tlv_assign_def)

lemma keeps_cancel [inv_intros]: "keeps td_live (modifyP (\<lambda>s. s\<lparr>td_cancel := tlv_assign x (td_cancel s)\<rparr>))"
  by (rule keeps_modify) (auto simp: td_live_def td_ok_def tlv_assign_def)

lemma keeps_on_connection [inv_intros]: "keeps td_live (on_connection (exec_command st))"
proof (rule keepsI)
  fix s assume live: "td_live s"
  then obtain c g where conn: "td_connection s = Some (c, g)" by (auto simp: td_live_def)
  obtain r c' where run: "exec_command st c = (r, c')" by fastforce
  have "same_handle (sc_open c) (sc_commands c) c" by (simp add: same_handle_def)
  from keeps_pair [OF exec_keeps this run] live conn run
  show "td_live (snd (on_connection (exec_command st) s))"
    by (auto simp: on_connection_def same_handle_def td_live_def td_ok_def)
qed

lemma keeps_if_const: "keeps I m \<Longrightarrow> keeps I k \<Longrightarrow> keeps I (if b then m else k)"
  by simp

lemma keeps_unref: "keeps td_live transaction_unref"
  unfolding transaction_unref_def by (intro inv_intros keeps_if_const) 

lemma transactions_keep:
  "keeps td_ok transaction_begin" "keeps td_ok transaction_commit" "keeps td_ok transaction_rollback"
  unfolding transaction_begin_def transaction_commit_def transaction_rollback_def
  by (intro keeps_guarded inv_intros keeps_unref keeps_if_const)+

lemma attach_run:
  assumes ok: "td_ok s" and room: "\<And>g. td_attach s \<noteq> Some (- 1, g)"
    and run: "attach_to_thread opened answers s = (r, t)"
  shows "td_ok t"
proof (cases "td_connection s")
  case None
  show ?thesis
  proof (cases "fst (sc_connect False opened (sc_new True answers))")
    case (Inl e)
    with ok None run show ?thesis
      by (auto simp: attach_to_thread_def td_ok_def prog_simps split: prod.splits)
  next
    case (Inr u)
    then obtain c where c: "sc_connect False opened (sc_new True answers) = (Inr u, c)"
      by (metis prod.collapse)
    with connect_fields [OF c] ok None run show ?thesis
      by (auto simp: attach_to_thread_def td_ok_def guard_all_def tlv_guard_def tlv_assign_def prog_simps
          ex_bool_eq
          split: option.splits)
  qed
next
  case (Some cg)
  obtain c g where conn: "td_connection s = Some (c, g)" using Some by (cases cg) auto
  from td_okE [OF ok conn] obtain rf a d x g1 g2 g3 g4 g5 where
    f: "td_ref s = Some (rf, g1)" "td_attach s = Some (a, g2)" "td_depth s = Some (d, g3)"
    "td_cancel s = Some (x, g4)" "td_linger s = Some (a = 0, g5)" "sc_open c" "0 \<le> sc_commands c"
    "sc_commands c \<le> uint rf" .
  have "a \<noteq> - 1" using room f(2) by auto
  then have "a + 1 \<noteq> 0" by (metis add.commute add_left_cancel add.right_inverse)
  with conn f run show ?thesis
    by (cases g) (auto simp: attach_to_thread_def td_ok_def td_step)
qed

lemma alloc_run:
  assumes ok: "td_ok s" and room: "\<And>g. td_ref s \<noteq> Some (- 1, g)"
    and run: "alloc_data_command st s = (r, t)"
  shows "td_ok t"
proof (cases "td_connection s")
  case None
  with ok run show ?thesis by (auto simp: alloc_data_command_def assert_connection_def prog_simps)
next
  case (Some cg)
  obtain c g where conn: "td_connection s = Some (c, g)" using Some by (cases cg) auto
  from td_okE [OF ok conn] obtain rf a d x g1 g2 g3 g4 g5 where
    f: "td_ref s = Some (rf, g1)" "td_attach s = Some (a, g2)" "td_depth s = Some (d, g3)"
    "td_cancel s = Some (x, g4)" "td_linger s = Some (a = 0, g5)" "sc_open c" "0 \<le> sc_commands c"
    "sc_commands c \<le> uint rf" .
  show ?thesis
  proof (cases "a = 0")
    case True
    with conn f ok run show ?thesis
      by (cases g) (auto simp: alloc_data_command_def td_step)
  next
    case False
    have "rf \<noteq> - 1" using room f(1) by auto
    then have ref: "uint (rf + 1) = uint rf + 1" by (rule uint_suc)
    obtain r' c' where p: "prepare_data_command (c_str st) c = (r', c')" by fastforce
    with prepare_commands [of "c_str st" c] have
      "sc_open c' = sc_open c" "sc_commands c \<le> sc_commands c'" "sc_commands c' \<le> sc_commands c + 1"
      by simp_all
    moreover have "t = s\<lparr>td_ref := Some (rf + 1, g1), td_connection := Some (c', g)\<rparr>"
      using conn f False run p
      by (cases g) (simp_all add: alloc_data_command_def on_connection_def td_step)
    ultimately show ?thesis using conn f ref False by (auto simp: td_ok_def)
  qed
qed


text \<open>
  The states of a thread under calls in any order.  A detach follows an attach and a free an
  allocation, and the counters do not reach the greatest \<open>size_t\<close>; what SQLite answers is arbitrary
  and calls may throw.
\<close>

inductive td_reach :: "thread_db \<Rightarrow> bool" where
  new: "td_reach td_new"
| attach: "td_reach s \<Longrightarrow> (\<And>g. td_attach s \<noteq> Some (- 1, g)) \<Longrightarrow>
    attach_to_thread opened answers s = (r, t) \<Longrightarrow> td_reach t"
| detach: "td_reach s \<Longrightarrow> is_attached s \<Longrightarrow> detach_from_thread closed s = (r, t) \<Longrightarrow> td_reach t"
| alloc: "td_reach s \<Longrightarrow> (\<And>g. td_ref s \<noteq> Some (- 1, g)) \<Longrightarrow>
    alloc_data_command st s = (r', t) \<Longrightarrow> td_reach t"
| free: "td_reach s \<Longrightarrow> live_commands s > 0 \<Longrightarrow> free_data_command closed s = (r, t) \<Longrightarrow> td_reach t"
| transaction: "td_reach s \<Longrightarrow> m \<in> {transaction_begin, transaction_commit, transaction_rollback} \<Longrightarrow>
    m s = (r, t) \<Longrightarrow> td_reach t"

lemma td_reach_ok: "td_reach s \<Longrightarrow> td_ok s"
proof (induction rule: td_reach.induct)
  case new
  show ?case by (rule td_ok_new)
next
  case (attach s opened answers r t)
  then show ?case using attach_run by blast
next
  case (detach s closed r t)
  then show ?case using detach_run [of s closed] by auto
next
  case (alloc s st r t)
  then show ?case using alloc_run by blast
next
  case (free s closed r t)
  then show ?case using free_run [of s closed] by auto
next
  case (transaction s m r t)
  then show ?case using transactions_keep [THEN keeps_pair] by blast
qed

section \<open>Properties\<close>

text \<open>
  C24: Nested scoped transactions are one transaction of the database: the outermost scope begins it,
  every statement of every scope is executed in order, and the outermost scope commits it exactly when
  every scope committed and rolls it back otherwise.  The depth is zero again afterwards.
\<close>

theorem nested_transactions_are_one:
  assumes "accepts (length (txs_stmts ts) + 2) c" and "list_all plain (txs_stmts ts)"
    and "txs_depth ts + 1 < 2 ^ 32"
  shows "\<exists>c' x'. tx_run (Tx commit ts) (at_depth c x 0 s) = (Inr (), at_depth c' x' 0 s) \<and>
     sc_log c' = sc_log c @ [''BEGIN;''] @ txs_stmts ts @
       [if tx_cancels (Tx commit ts) then ''ROLLBACK;'' else ''COMMIT;'']"
proof -
  let ?b = "after_exec ''BEGIN;'' c"
  let ?d = "fold after_exec (txs_stmts ts) ?b"
  have acc: "accepts (Suc (Suc (length (txs_stmts ts)))) c" using assms(1) by simp
  have acc_b: "accepts (length (txs_stmts ts)) ?b" "accepts (length (txs_stmts ts) + 1) ?b"
    using accepts_after [OF acc, of "''BEGIN;''"] accepts_mono [of "Suc (length (txs_stmts ts))" ?b]
    by simp_all
  have acc_d: "accepts (Suc 0) ?d" using fold_exec_accepts [OF acc_b(2)] by simp
  have inner: "txs_run ts (at_depth ?b False 1 s) = (Inr (), at_depth ?d (txs_cancel ts) 1 s)"
    using tx_run_inner(2) [OF acc_b(1) assms(2), of 1 False s] assms(3) by simp
  have log: "sc_log (after_exec st ?d) = sc_log c @ [''BEGIN;''] @ txs_stmts ts @ [st]" for st
    by (simp add: after_exec_def [of st] after_exec_def [of "''BEGIN;''"])
  show ?thesis
    using scoped_returns [where body = "txs_run ts", OF begin_outer [OF acc] inner, of commit] commit_outer [OF acc_d] rollback_outer [OF acc_d] log
    by (cases commit) (auto simp: exI)
qed

text \<open>An attached thread whose database accepts four more statements.\<close>

definition four_ok :: sql_connection where
  "four_ok = (sc_new True (replicate 4 SQLITE_OK))\<lparr>sc_open := True\<rparr>"

theorem nested_transactions_are_one_witness:
  "\<exists>c' x'. tx_run (Tx True [Stmt ''A'', Tx False [Stmt ''B'']]) (at_depth four_ok False 0 td_new) =
       (Inr (), at_depth c' x' 0 td_new) \<and>
     sc_log c' = [''BEGIN;'', ''A'', ''B'', ''ROLLBACK;'']"
proof -
  have "accepts (length (txs_stmts [Stmt ''A'', Tx False [Stmt ''B'']]) + 2) four_ok"
    by (simp add: accepts_def four_ok_def sc_new_def numeral_eq_Suc)
  from nested_transactions_are_one [OF this, of True False td_new] show ?thesis
    by (simp add: plain_def four_ok_def sc_new_def)
qed

text \<open>
  C37: When \<open>BEGIN\<close> fails the depth is already one, so the next scope is taken for an inner one: its
  statement is executed outside any transaction, and its commit commits nothing.
\<close>

theorem failed_begin_disables_transactions:
  assumes "sc_open c" and "sc_answers c = SQLITE_ERROR n # SQLITE_OK # rest" and "plain st"
  shows "\<exists>c'. tx_run (Tx True [Stmt st]) (at_depth c x 0 s) = (Inl SyntaxError, at_depth c' False 1 s) \<and>
     sc_log c' = sc_log c \<and>
     (\<exists>c''. tx_run (Tx True [Stmt st]) (at_depth c' False 1 s) = (Inr (), at_depth c'' False 1 s) \<and>
            sc_log c'' = sc_log c @ [st])"
proof -
  let ?c = "c\<lparr>sc_answers := SQLITE_OK # rest, sc_notified := sc_notified c + (if sc_sync c then 1 else 0)\<rparr>"
  have fail: "exec_command ''BEGIN;'' c = (Inl SyntaxError, ?c)"
    using assms(1,2) plain_controls(1) [unfolded plain_def]
    by (simp add: exec_command_def expand_format_plain sql_call_def scoped_notify_all_def ok_code_def
        prog_simps)
  have "tx_run (Tx True [Stmt st]) (at_depth c x 0 s) = (Inl SyntaxError, at_depth ?c False 1 s)"
    using fail
    by (simp add: scoped_transaction_def transaction_begin_def at_depth_def on_connection_def td_step)
  moreover have "accepts 1 ?c" using assms(1) by (simp add: accepts_def)
  then have "tx_run (Tx True [Stmt st]) (at_depth ?c False 1 s) =
      (Inr (), at_depth (after_exec st ?c) False 1 s)"
    using tx_run_inner(1) [of "Tx True [Stmt st]" ?c 1 False s] assms(3) by simp
  ultimately show ?thesis
    by (intro exI [of _ ?c] conjI exI [of _ "after_exec st ?c"]) (simp_all add: after_exec_def)
qed

theorem failed_begin_disables_transactions_witness:
  "\<exists>c'. tx_run (Tx True [Stmt ''A''])
       (at_depth (four_ok\<lparr>sc_answers := [SQLITE_ERROR 1, SQLITE_OK]\<rparr>) False 0 td_new) =
     (Inl SyntaxError, at_depth c' False 1 td_new)"
  using failed_begin_disables_transactions [of "four_ok\<lparr>sc_answers := [SQLITE_ERROR 1, SQLITE_OK]\<rparr>" 1 "[]"
      "''A''" False td_new]
  by (auto simp: four_ok_def plain_def)

text \<open>
  When \<open>COMMIT\<close> fails the destructor of the scope rolls back a second time: the depth goes below
  zero, no \<open>ROLLBACK\<close> is executed, and the next scope neither begins nor ends a transaction.
\<close>

theorem failed_commit_disables_transactions:
  assumes "sc_open c" and "sc_answers c = [SQLITE_OK, SQLITE_ERROR n, SQLITE_OK]" and "plain st"
  shows "\<exists>c'. tx_run (Tx True []) (at_depth c x 0 s) = (Inl SyntaxError, at_depth c' True (- 1) s) \<and>
     sc_log c' = sc_log c @ [''BEGIN;''] \<and>
     (\<exists>c''. tx_run (Tx True [Stmt st]) (at_depth c' True (- 1) s) = (Inr (), at_depth c'' True (- 1) s) \<and>
            sc_log c'' = sc_log c @ [''BEGIN;'', st])"
proof -
  let ?k = "if sc_sync c then 1 else 0"
  let ?b = "after_exec ''BEGIN;'' c"
  let ?e = "?b\<lparr>sc_answers := [SQLITE_OK], sc_notified := sc_notified ?b + (if sc_sync ?b then 1 else 0)\<rparr>"
  have acc: "accepts (Suc 0) c" using assms(1,2) by (simp add: accepts_def)
  have b: "sc_answers ?b = [SQLITE_ERROR n, SQLITE_OK]" "sc_open ?b"
    using assms(1,2) by (simp_all add: after_exec_def)
  have "exec_command ''COMMIT;'' ?b = (Inl SyntaxError, ?e)"
    using b plain_controls(2) [unfolded plain_def]
    by (simp add: exec_command_def expand_format_plain sql_call_def scoped_notify_all_def ok_code_def
        prog_simps)
  then have com: "transaction_commit (at_depth ?b False 1 s) = (Inl SyntaxError, at_depth ?e False 0 s)"
    by (simp add: transaction_commit_def transaction_unref_def at_depth_def on_connection_def td_step)
  have roll: "transaction_rollback (at_depth ?e False 0 s) = (Inr (), at_depth ?e True (- 1) s)"
    by (simp add: transaction_rollback_def transaction_unref_def at_depth_def td_step)
  have empty: "txs_run [] (at_depth ?b False 1 s) = (Inr (), at_depth ?b False 1 s)"
    by (simp add: prog_simps)
  have "tx_run (Tx True []) (at_depth c x 0 s) = (Inl SyntaxError, at_depth ?e True (- 1) s)"
    using scoped_returns [where body = "txs_run []", OF begin_outer [OF acc] empty, of True]
    by (simp add: com roll terminal_def del: txs_run.simps)
  moreover have "sc_log ?e = sc_log c @ [''BEGIN;'']" by (simp add: after_exec_def)
  moreover have "tx_run (Tx True [Stmt st]) (at_depth ?e True (- 1) s) =
      (Inr (), at_depth (after_exec st ?e) True (- 1) s)"
  proof -
    have "exec_command st ?e = (Inr (), after_exec st ?e)"
      using exec_command_ok(1) [of 0 ?e st] assms(3) b(2) by (simp add: accepts_def)
    then show ?thesis
      by (simp add: scoped_transaction_def transaction_begin_def transaction_commit_def
          transaction_unref_def at_depth_def on_connection_def td_step)
  qed
  moreover have "sc_log (after_exec st ?e) = sc_log c @ [''BEGIN;'', st]" by (simp add: after_exec_def)
  ultimately show ?thesis by blast
qed

theorem failed_commit_disables_transactions_witness:
  "\<exists>c'. tx_run (Tx True [])
       (at_depth (four_ok\<lparr>sc_answers := [SQLITE_OK, SQLITE_ERROR 5, SQLITE_OK]\<rparr>) False 0 td_new) =
     (Inl SyntaxError, at_depth c' True (- 1) td_new)"
  using failed_commit_disables_transactions [of
      "four_ok\<lparr>sc_answers := [SQLITE_OK, SQLITE_ERROR 5, SQLITE_OK]\<rparr>" 5 "''A''" False td_new]
  by (auto simp: four_ok_def plain_def)

text \<open>
  C25: In every reachable state the thread has a connection exactly while it is attached or a reference is
  counted, and a reference is counted for every live command; detaching an attached thread and
  freeing a live command always return, so the connection is never closed under a live command.
\<close>

theorem connection_lifetime:
  assumes "td_reach s"
  shows "(td_connection s \<noteq> None \<longleftrightarrow>
            is_attached s \<or> (\<exists>r g. td_ref s = Some (r, g) \<and> r \<noteq> 0)) \<and>
         0 \<le> live_commands s \<and>
         (\<forall>r g. td_ref s = Some (r, g) \<longrightarrow> live_commands s \<le> uint r) \<and>
         (is_attached s \<longrightarrow> fst (detach_from_thread closed s) = Inr ()) \<and>
         (live_commands s > 0 \<longrightarrow> fst (free_data_command closed s) = Inr ())"
proof -
  note ok = td_reach_ok [OF assms]
  have "is_attached s \<longrightarrow> fst (detach_from_thread closed s) = Inr ()"
    using detach_run [OF ok, of closed] by auto
  moreover have "live_commands s > 0 \<longrightarrow> fst (free_data_command closed s) = Inr ()"
    using free_run [OF ok, of closed] by auto
  moreover have "(td_connection s \<noteq> None \<longleftrightarrow>
            is_attached s \<or> (\<exists>r g. td_ref s = Some (r, g) \<and> r \<noteq> 0)) \<and>
         0 \<le> live_commands s \<and> (\<forall>r g. td_ref s = Some (r, g) \<longrightarrow> live_commands s \<le> uint r)"
    using ok unfolding td_ok_def is_attached_def live_commands_def
    by (cases "td_connection s") (auto simp: word_neq_0_conv)
  ultimately show ?thesis by blast
qed

definition attached_once :: thread_db where
  "attached_once = snd (attach_to_thread True [SQLITE_OK, SQLITE_ERROR 1] td_new)"

lemma attached_once_state:
  "attached_once = td_new\<lparr>
     td_connection := Some ((sc_new True [SQLITE_ERROR 1])\<lparr>sc_open := True, sc_notified := 1,
       sc_log := [''PRAGMA foreign_keys = ON;'']\<rparr>, True),
     td_linger := Some (False, True), td_ref := Some (0, True), td_depth := Some (0, True),
     td_attach := Some (1, True), td_cancel := Some (False, True)\<rparr>"
  by (simp add: attached_once_def attach_to_thread_def td_new_def sc_connect_def exec_command_def
      expand_format_plain sql_call_def scoped_notify_all_def ok_code_def sc_new_def guard_all_def
      tlv_guard_def tlv_assign_def prog_simps Let_def)

lemma attached_once_reachable: "td_reach attached_once"
  by (rule td_reach.attach [OF td_reach.new, of True "[SQLITE_OK, SQLITE_ERROR 1]" "Inr ()"])
    (simp_all add: td_new_def attached_once_def attach_to_thread_def sc_connect_def exec_command_def
      expand_format_plain sql_call_def scoped_notify_all_def ok_code_def sc_new_def guard_all_def
      tlv_guard_def tlv_assign_def prog_simps Let_def)

theorem connection_lifetime_witness:
  "fst (detach_from_thread True attached_once) = Inr () \<and> is_attached attached_once"
  using connection_lifetime [OF attached_once_reachable, of True]
  by (simp add: attached_once_state is_attached_def)

text \<open>
  An allocation whose statement does not compile throws after it counted a reference that nothing
  gives back: the thread that then detaches keeps its connection for ever, without any command.
\<close>

theorem failed_alloc_keeps_connection:
  assumes "td_reach s" and "td_attach s = Some (1, g)" and "td_ref s = Some (0, h)"
    and "td_connection s = Some (c, True)" and "sc_answers c = SQLITE_ERROR n # rest"
    and "plain (c_str st)"
  shows "\<exists>t u. alloc_data_command st s = (Inl SyntaxError, t) \<and>
     detach_from_thread closed t = (Inr (), u) \<and> td_connection u \<noteq> None \<and>
     \<not> is_attached u \<and> live_commands u = 0"
proof -
  from td_okE [OF td_reach_ok [OF assms(1)] assms(4)] assms(2,3) obtain g5 where
    f: "td_linger s = Some (False, g5)" "sc_open c" "0 \<le> sc_commands c" "sc_commands c \<le> 0"
    by fastforce
  let ?c = "c\<lparr>sc_answers := rest, sc_notified := sc_notified c + (if sc_sync c then 1 else 0)\<rparr>"
  have fail: "prepare_data_command (c_str st) c = (Inl SyntaxError, ?c)"
    using assms(5,6) f(2)
    by (simp add: prepare_data_command_def plain_def expand_format_plain new_data_command_def
        sql_call_def scoped_notify_all_def ok_code_def prog_simps)
  let ?t = "s\<lparr>td_ref := Some (1, h), td_connection := Some (?c, True)\<rparr>"
  let ?u = "?t\<lparr>td_attach := Some (0, g), td_linger := Some (True, g5)\<rparr>"
  have "alloc_data_command st s = (Inl SyntaxError, ?t)"
    using assms(2,3,4) f fail by (simp add: alloc_data_command_def on_connection_def td_step)
  moreover have "detach_from_thread closed ?t = (Inr (), ?u)"
    using assms(2,3,4) f
    by (simp add: detach_from_thread_def checked_connection_delete_def td_step)
  moreover have "live_commands ?u = 0" using f by (simp add: live_commands_def)
  ultimately show ?thesis by (intro exI [of _ ?t] exI [of _ ?u]) (simp add: is_attached_def)
qed

theorem failed_alloc_keeps_connection_witness:
  "\<exists>t. alloc_data_command ''SELEC'' attached_once = (Inl SyntaxError, t)"
  using failed_alloc_keeps_connection [OF attached_once_reachable, of True True
      "(sc_new True [SQLITE_ERROR 1])\<lparr>sc_open := True, sc_notified := 1,
       sc_log := [''PRAGMA foreign_keys = ON;'']\<rparr>" 1 "[]" "''SELEC''" True]
  by (auto simp: attached_once_state sc_new_def plain_def c_str_def)

text \<open>
  A statement is passed to SQLite through a \<open>printf\<close> format: one without a percent sign is prepared
  as it is, one with a lone percent sign reads an argument that was not passed.
\<close>

theorem statement_is_a_format:
  assumes "td_reach s" and "is_attached s" and "td_connection s = Some (c, g)" and "accepts 1 c"
    and "CHR 0x00 \<notin> set st"
  shows "(CHR ''%'' \<notin> set st \<longrightarrow> fst (alloc_data_command st s) = Inr (Some st)) \<and>
     (\<forall>a b d. st = a @ CHR ''%'' # d # b \<and> CHR ''%'' \<notin> set a \<and> d \<noteq> CHR ''%'' \<longrightarrow>
        fst (alloc_data_command st s) = Inl UndefinedBehaviour)"
proof -
  from td_okE [OF td_reach_ok [OF assms(1)] assms(3)] obtain r a g1 g2 g5 where
    f: "td_ref s = Some (r, g1)" "td_attach s = Some (a, g2)" "td_linger s = Some (a = 0, g5)"
    "sc_open c" by metis
  have a: "a \<noteq> 0" using assms(2) f(2) by (simp add: is_attached_def)
  have cs: "c_str st = st" using assms(5) by (simp add: c_str_def takeWhile_eq_all_conv) metis
  have alloc: "fst (alloc_data_command st s) = fst (prepare_data_command st c)"
    using assms(3) f a cs
    by (cases g) (simp_all add: alloc_data_command_def on_connection_def td_step split: prod.split)
  obtain as where as: "sc_answers c = SQLITE_OK # as"
    using assms(4) by (cases "sc_answers c") (auto simp: accepts_def)
  have bad: "expand_format (p @ CHR ''%'' # d # q) = Inl UndefinedBehaviour"
    if "CHR ''%'' \<notin> set p" "d \<noteq> CHR ''%''" for p d q
    using that by (induction p) auto
  show ?thesis
    unfolding alloc using f(4) as
    by (auto simp: prepare_data_command_def expand_format_plain bad new_data_command_def
        sql_call_def scoped_notify_all_def ok_code_def prog_simps)
qed

lemma attached_twice_reachable:
  "td_reach (snd (attach_to_thread True [SQLITE_OK, SQLITE_OK] td_new))"
  by (rule td_reach.attach [OF td_reach.new, of True "[SQLITE_OK, SQLITE_OK]" "Inr ()"])
    (simp_all add: td_new_def attach_to_thread_def sc_connect_def exec_command_def
      expand_format_plain sql_call_def scoped_notify_all_def ok_code_def sc_new_def guard_all_def
      tlv_guard_def tlv_assign_def prog_simps Let_def)

theorem statement_is_a_format_witness:
  "fst (alloc_data_command ''LIKE %x'' (snd (attach_to_thread True [SQLITE_OK, SQLITE_OK] td_new))) =
     Inl UndefinedBehaviour"
proof -
  let ?s = "snd (attach_to_thread True [SQLITE_OK, SQLITE_OK] td_new)"
  have s: "?s = td_new\<lparr>
     td_connection := Some ((sc_new True [SQLITE_OK])\<lparr>sc_open := True, sc_notified := 1,
       sc_log := [''PRAGMA foreign_keys = ON;'']\<rparr>, True),
     td_linger := Some (False, True), td_ref := Some (0, True), td_depth := Some (0, True),
     td_attach := Some (1, True), td_cancel := Some (False, True)\<rparr>"
    by (simp add: attach_to_thread_def td_new_def sc_connect_def exec_command_def
        expand_format_plain sql_call_def scoped_notify_all_def ok_code_def sc_new_def guard_all_def
        tlv_guard_def tlv_assign_def prog_simps Let_def)
  have att: "is_attached ?s" unfolding s by (simp add: is_attached_def)
  have acc: "accepts 1 ((sc_new True [SQLITE_OK])\<lparr>sc_open := True, sc_notified := 1,
       sc_log := [''PRAGMA foreign_keys = ON;'']\<rparr>)"
    by (simp add: accepts_def sc_new_def)
  have conn: "td_connection ?s = Some ((sc_new True [SQLITE_OK])\<lparr>sc_open := True, sc_notified := 1,
       sc_log := [''PRAGMA foreign_keys = ON;'']\<rparr>, True)"
    unfolding s by simp
  have chars: "CHR 0x00 \<notin> set ''LIKE %x''" by simp
  have split: "''LIKE %x'' = ''LIKE '' @ CHR ''%'' # CHR ''x'' # [] \<and> CHR ''%'' \<notin> set ''LIKE '' \<and>
      CHR ''x'' \<noteq> CHR ''%''"
    by simp
  show ?thesis
    by (rule statement_is_a_format [OF attached_twice_reachable att conn acc chars, THEN conjunct2,
          THEN spec, THEN spec, THEN spec, THEN mp, OF split])
qed

end
