(* ===== verification/SqlTables.thy ===== *)
theory SqlTables
  imports StringTools
begin

text \<open>
  The part of SQL the schema files (modules/widget_dao/orm/wrt_db, modules/auto_save_dao/orm) and the
  generated statements use: tables with typed columns, defaults, \<open>NOT NULL\<close>, \<open>CHECK\<close>, primary and
  unique keys and foreign keys with \<open>ON DELETE CASCADE\<close>; inserting, updating and deleting rows.  A
  schema lists the tables in the order of their declarations, parents first.  A statement that would
  break a constraint fails and changes nothing.
\<close>

section \<open>Tables\<close>

datatype sql_cell = CNull | CInt int | CText wstr

type_synonym row = "(string \<times> sql_cell) list"

type_synonym tables = "string \<Rightarrow> row list"

record column =
  col_name :: string
  col_null :: bool
  col_default :: sql_cell
  col_check :: "(int \<times> int) option"

text \<open>
  \<open>ts_rowid\<close> is the column of type \<open>INTEGER PRIMARY KEY\<close>, \<open>ts_auto\<close> its \<open>AUTOINCREMENT\<close>; a foreign key
  is its column, the parent table and the parent's column.
\<close>

type_synonym foreign_key = "string \<times> string \<times> string"

record table_schema =
  ts_columns :: "column list"
  ts_rowid :: "string option"
  ts_auto :: bool
  ts_keys :: "string list list"
  ts_fks :: "foreign_key list"

type_synonym schema = "(string \<times> table_schema) list"

definition get :: "row \<Rightarrow> string \<Rightarrow> sql_cell" where
  "get r c = (case map_of r c of None \<Rightarrow> CNull | Some v \<Rightarrow> v)"

definition cell_int :: "sql_cell \<Rightarrow> int" where
  "cell_int v = (case v of CInt i \<Rightarrow> i | _ \<Rightarrow> 0)"

section \<open>Constraints\<close>

definition cell_ok :: "column \<Rightarrow> sql_cell \<Rightarrow> bool" where
  "cell_ok col v \<longleftrightarrow> (v \<noteq> CNull \<or> col_null col) \<and>
     (case (col_check col, v) of (Some (lo, hi), CInt i) \<Rightarrow> lo \<le> i \<and> i \<le> hi | _ \<Rightarrow> True)"

definition same_key :: "string list \<Rightarrow> row \<Rightarrow> row \<Rightarrow> bool" where
  "same_key ks r r' \<longleftrightarrow> list_all (\<lambda>c. get r c = get r' c \<and> get r c \<noteq> CNull) ks"

definition row_ok :: "table_schema \<Rightarrow> row \<Rightarrow> bool" where
  "row_ok sc r \<longleftrightarrow> list_all (\<lambda>col. cell_ok col (get r (col_name col))) (ts_columns sc)"

definition row_fits :: "table_schema \<Rightarrow> row list \<Rightarrow> row \<Rightarrow> bool" where
  "row_fits sc others r \<longleftrightarrow> row_ok sc r \<and>
     list_all (\<lambda>ks. \<not> list_ex (same_key ks r) others) (ts_keys sc)"

definition fk_holds :: "tables \<Rightarrow> row \<Rightarrow> foreign_key \<Rightarrow> bool" where
  "fk_holds db r = (\<lambda>(c, pt, pc). get r c = CNull \<or> list_ex (\<lambda>p. get p pc = get r c) (db pt))"

section \<open>Statements\<close>

definition next_rowid :: "string \<Rightarrow> row list \<Rightarrow> int \<Rightarrow> int" where
  "next_rowid c rows used = foldr max (map (\<lambda>r. cell_int (get r c)) rows) used + 1"

text \<open>The row an \<open>INSERT\<close> of the given columns makes: defaults, and a fresh row id where none is given.\<close>

definition full_row :: "table_schema \<Rightarrow> int \<Rightarrow> row \<Rightarrow> row" where
  "full_row sc fresh cv = map (\<lambda>col.
     (col_name col,
      case map_of cv (col_name col) of
        Some v \<Rightarrow> (if v = CNull \<and> ts_rowid sc = Some (col_name col) then CInt fresh else v)
      | None \<Rightarrow> (if ts_rowid sc = Some (col_name col) then CInt fresh else col_default col)))
     (ts_columns sc)"

definition insert_row ::
  "schema \<Rightarrow> string \<Rightarrow> row \<Rightarrow> tables \<times> (string \<Rightarrow> int) \<Rightarrow> (int \<times> tables \<times> (string \<Rightarrow> int)) option" where
  "insert_row sch t cv = (\<lambda>(db, seq).
     case map_of sch t of
       None \<Rightarrow> None
     | Some sc \<Rightarrow>
         let fresh = (case ts_rowid sc of Some c \<Rightarrow> next_rowid c (db t) (seq t) | None \<Rightarrow> 0);
             r = full_row sc fresh cv;
             rid = (case ts_rowid sc of Some c \<Rightarrow> cell_int (get r c) | None \<Rightarrow> 0)
         in if row_fits sc (db t) r \<and> list_all (fk_holds db r) (ts_fks sc)
            then Some (rid, db(t := db t @ [r]), if ts_auto sc then seq(t := max (seq t) rid) else seq)
            else None)"

text \<open>The rows a \<open>DELETE\<close> takes with it: those that refer to a row that goes.\<close>

fun doomed :: "schema \<Rightarrow> string \<Rightarrow> (row \<Rightarrow> bool) \<Rightarrow> tables \<Rightarrow> (string \<Rightarrow> row \<Rightarrow> bool) \<Rightarrow> string \<Rightarrow> row \<Rightarrow> bool" where
  "doomed [] t p db d = d"
| "doomed ((n, sc) # sch) t p db d =
     doomed sch t p db (d(n := \<lambda>r. n = t \<and> p r \<or>
       list_ex (\<lambda>(c, pt, pc). get r c \<noteq> CNull \<and> list_ex (\<lambda>q. d pt q \<and> get q pc = get r c) (db pt))
         (ts_fks sc)))"

definition delete_rows :: "schema \<Rightarrow> string \<Rightarrow> (row \<Rightarrow> bool) \<Rightarrow> tables \<Rightarrow> tables" where
  "delete_rows sch t p db = (\<lambda>n. filter (\<lambda>r. \<not> doomed sch t p db (\<lambda>_ _. False) n r) (db n))"

definition set_cells :: "row \<Rightarrow> row \<Rightarrow> row" where
  "set_cells cv r = map (\<lambda>(c, v). (c, case map_of cv c of Some w \<Rightarrow> w | None \<Rightarrow> v)) r"

text \<open>The rows are updated one after the other, each checked against the table as it is then.\<close>

fun update_list :: "table_schema \<Rightarrow> (row \<Rightarrow> bool) \<Rightarrow> row \<Rightarrow> row list \<Rightarrow> row list \<Rightarrow> row list option" where
  "update_list sc p cv old [] = Some old"
| "update_list sc p cv old (r # rs) =
     (if p r
      then (if row_fits sc (old @ rs) (set_cells cv r)
            then update_list sc p cv (old @ [set_cells cv r]) rs else None)
      else update_list sc p cv (old @ [r]) rs)"

definition update_rows :: "schema \<Rightarrow> string \<Rightarrow> (row \<Rightarrow> bool) \<Rightarrow> row \<Rightarrow> tables \<Rightarrow> tables option" where
  "update_rows sch t p cv db =
     (case map_of sch t of
        None \<Rightarrow> None
      | Some sc \<Rightarrow>
          (case update_list sc p cv [] (db t) of
             None \<Rightarrow> None
           | Some rows \<Rightarrow>
               let db' = db(t := rows)
               in if list_all (\<lambda>(n, sc'). list_all (\<lambda>r. list_all (\<lambda>(c, pt, pc).
                       (n = t \<or> pt = t) \<longrightarrow> fk_holds db' r (c, pt, pc)) (ts_fks sc')) (db' n)) sch
                  then Some db' else None))"

section \<open>Integrity\<close>

text \<open>
  The promise of a schema: every row has the columns of its table and satisfies its constraints, no
  two rows agree on a key, and every reference has its row.
\<close>

definition table_ok :: "table_schema \<Rightarrow> row list \<Rightarrow> bool" where
  "table_ok sc rows \<longleftrightarrow>
     (\<forall>r \<in> set rows. row_ok sc r \<and> map fst r = map col_name (ts_columns sc)) \<and>
     (\<forall>ks \<in> set (ts_keys sc). sorted_wrt (\<lambda>r r'. \<not> same_key ks r r') rows)"

definition db_ok :: "schema \<Rightarrow> tables \<Rightarrow> bool" where
  "db_ok sch db \<longleftrightarrow>
     (\<forall>(n, sc) \<in> set sch. table_ok sc (db n) \<and> (\<forall>r \<in> set (db n). \<forall>fk \<in> set (ts_fks sc). fk_holds db r fk))"

text \<open>Tables have one declaration each, after those of the tables they refer to.\<close>

fun parents_first :: "string list \<Rightarrow> schema \<Rightarrow> bool" where
  "parents_first seen [] = True"
| "parents_first seen ((n, sc) # sch) =
     (n \<notin> set seen \<and> list_all (\<lambda>(c, pt, pc). pt \<in> set seen) (ts_fks sc) \<and> parents_first (n # seen) sch)"

lemma same_key_sym: "same_key ks r r' = same_key ks r' r"
  by (auto simp: same_key_def list_all_iff)

lemma same_key_trans: "same_key ks r r' \<Longrightarrow> same_key ks r' r'' \<Longrightarrow> same_key ks r r''"
  by (auto simp: same_key_def list_all_iff)

lemma table_ok_Nil [simp]: "table_ok sc []"
  by (simp add: table_ok_def)

lemma table_ok_append:
  "table_ok sc (rows @ [r]) \<longleftrightarrow>
     table_ok sc rows \<and> row_fits sc rows r \<and> map fst r = map col_name (ts_columns sc)"
  by (auto simp: table_ok_def row_fits_def sorted_wrt_append list_all_iff list_ex_iff same_key_sym)

lemma full_row_columns [simp]: "map fst (full_row sc k cv) = map col_name (ts_columns sc)"
  by (simp add: full_row_def)

lemma set_cells_columns [simp]: "map fst (set_cells cv r) = map fst r"
  by (simp add: set_cells_def case_prod_unfold)

lemma fk_holds_mono: "fk_holds db r fk \<Longrightarrow> (\<And>n. set (db n) \<subseteq> set (db' n)) \<Longrightarrow> fk_holds db' r fk"
  by (cases fk) (auto simp: fk_holds_def list_ex_iff)

lemma insert_row_ok:
  assumes "db_ok sch db" and "distinct (map fst sch)" and "insert_row sch t cv (db, seq) = Some (i, db', seq')"
  shows "db_ok sch db'"
proof -
  obtain sc r where sc: "map_of sch t = Some sc" and db': "db' = db(t := db t @ [r])"
    and r: "row_fits sc (db t) r" "list_all (fk_holds db r) (ts_fks sc)" "map fst r = map col_name (ts_columns sc)"
    using assms(3) by (auto simp: insert_row_def Let_def split: option.splits if_splits)
  have mono: "\<And>n. set (db n) \<subseteq> set (db' n)" by (auto simp: db')
  show ?thesis
    unfolding db_ok_def
  proof (intro ballI, clarify)
    fix n sc'
    assume n: "(n, sc') \<in> set sch"
    then have old: "table_ok sc' (db n)" "\<forall>r \<in> set (db n). \<forall>fk \<in> set (ts_fks sc'). fk_holds db r fk"
      using assms(1) by (auto simp: db_ok_def)
    have "n = t \<Longrightarrow> sc' = sc" using n sc assms(2) by (metis map_of_is_SomeI option.inject)
    with old r have "table_ok sc' (db' n) \<and> (\<forall>r' \<in> set (db' n). \<forall>fk \<in> set (ts_fks sc'). fk_holds db r' fk)"
      by (auto simp: db' table_ok_append list_all_iff)
    then show "table_ok sc' (db' n) \<and> (\<forall>r' \<in> set (db' n). \<forall>fk \<in> set (ts_fks sc'). fk_holds db' r' fk)"
      using mono by (blast intro: fk_holds_mono)
  qed
qed

lemma table_ok_filter: "table_ok sc rows \<Longrightarrow> table_ok sc (filter p rows)"
  by (auto simp: table_ok_def sorted_wrt_filter)

lemma doomed_other: "n \<notin> fst ` set sch \<Longrightarrow> doomed sch t p db d n = d n"
  by (induction sch arbitrary: d) auto

lemma parents_fresh: "parents_first seen sch \<Longrightarrow> x \<in> set seen \<Longrightarrow> x \<notin> fst ` set sch"
proof (induction sch arbitrary: seen)
  case Nil
  then show ?case by simp
next
  case (Cons a sch)
  obtain n sc where a: "a = (n, sc)" by (cases a)
  have "x \<noteq> n" using Cons.prems by (auto simp: a)
  moreover have "x \<notin> fst ` set sch" by (rule Cons.IH [of "n # seen"]) (use Cons.prems in \<open>auto simp: a\<close>)
  ultimately show ?case by (simp add: a)
qed

lemma doomed_child:
  assumes "parents_first seen sch" and "(n, sc) \<in> set sch" and "(c, pt, pc) \<in> set (ts_fks sc)"
    and "get r c \<noteq> CNull" and "q \<in> set (db pt)" and "get q pc = get r c"
    and "doomed sch t p db d pt q"
  shows "doomed sch t p db d n r"
  using assms
proof (induction sch arbitrary: seen d)
  case Nil
  then show ?case by simp
next
  case (Cons a sch)
  obtain m sm where a: "a = (m, sm)" by (cases a)
  have first: "m \<notin> set seen" "parents_first (m # seen) sch" using Cons.prems(1) by (simp_all add: a)
  show ?case
  proof (cases "(n, sc) = a")
    case True
    then have n: "n = m" "sc = sm" using a by auto
    have pt: "pt \<in> set seen" using Cons.prems(1,3) n a by (auto simp: list_all_iff)
    then have ne: "pt \<noteq> m" using first by auto
    have "pt \<notin> fst ` set sch" "m \<notin> fst ` set sch"
      using parents_fresh [OF first(2)] pt by auto
    then have "d pt q" and goal: "doomed (a # sch) t p db d n r \<longleftrightarrow> n = t \<and> p r \<or>
       list_ex (\<lambda>(c, pt, pc). get r c \<noteq> CNull \<and> list_ex (\<lambda>q. d pt q \<and> get q pc = get r c) (db pt)) (ts_fks sm)"
      using Cons.prems(7) ne n by (simp_all add: a doomed_other)
    then have "list_ex (\<lambda>q. d pt q \<and> get q pc = get r c) (db pt)"
      using Cons.prems(5,6) by (auto simp: list_ex_iff)
    then show ?thesis
      unfolding goal using Cons.prems(3,4) n by (auto simp: list_ex_iff intro!: bexI [of _ "(c, pt, pc)"])
  next
    case False
    then have "(n, sc) \<in> set sch" using Cons.prems(2) a by auto
    then show ?thesis
      using Cons.IH [of "m # seen"] Cons.prems first by (simp add: a)
  qed
qed

lemma delete_rows_ok:
  assumes "db_ok sch db" and "parents_first [] sch"
  shows "db_ok sch (delete_rows sch t p db)"
  unfolding db_ok_def
proof (intro ballI, clarify, intro conjI ballI)
  fix n sc
  assume n: "(n, sc) \<in> set sch"
  then show "table_ok sc (delete_rows sch t p db n)"
    using assms(1) by (auto simp: db_ok_def delete_rows_def table_ok_filter)
  fix r fk
  assume r: "r \<in> set (delete_rows sch t p db n)" and fk: "fk \<in> set (ts_fks sc)"
  obtain c pt pc where f: "fk = (c, pt, pc)" by (cases fk)
  have stays: "\<not> doomed sch t p db (\<lambda>_ _. False) n r" "r \<in> set (db n)"
    using r by (auto simp: delete_rows_def)
  have "fk_holds db r fk" using assms(1) n stays(2) fk by (auto simp: db_ok_def)
  then consider "get r c = CNull" | q where "get r c \<noteq> CNull" "q \<in> set (db pt)" "get q pc = get r c"
    by (auto simp: f fk_holds_def list_ex_iff)
  then show "fk_holds (delete_rows sch t p db) r fk"
  proof cases
    case 1
    then show ?thesis by (simp add: f fk_holds_def)
  next
    case (2 q)
    with doomed_child [OF assms(2) n, of c pt pc r q db t p] stays(1) fk f
    show ?thesis by (auto simp: fk_holds_def list_ex_iff delete_rows_def)
  qed
qed

lemma sorted_wrt_replace:
  "sorted_wrt P (xs @ y # zs) \<Longrightarrow> (\<And>x. x \<in> set xs \<Longrightarrow> P x y') \<Longrightarrow> (\<And>z. z \<in> set zs \<Longrightarrow> P y' z) \<Longrightarrow>
   sorted_wrt P (xs @ y' # zs)"
  by (auto simp: sorted_wrt_append)

lemma table_ok_replace:
  assumes "table_ok sc (old @ r # rs)" and "row_fits sc (old @ rs) (set_cells cv r)"
  shows "table_ok sc ((old @ [set_cells cv r]) @ rs)"
proof -
  have "sorted_wrt (\<lambda>r r'. \<not> same_key ks r r') (old @ set_cells cv r # rs)" if "ks \<in> set (ts_keys sc)" for ks
  proof (rule sorted_wrt_replace)
    show "sorted_wrt (\<lambda>r r'. \<not> same_key ks r r') (old @ r # rs)"
      using assms(1) that by (simp add: table_ok_def)
  next
    fix x assume "x \<in> set old"
    then show "\<not> same_key ks x (set_cells cv r)"
      using assms(2) that by (auto simp: row_fits_def list_all_iff list_ex_iff same_key_sym [of ks x])
  next
    fix x assume "x \<in> set rs"
    then show "\<not> same_key ks (set_cells cv r) x"
      using assms(2) that by (auto simp: row_fits_def list_all_iff list_ex_iff)
  qed
  then show ?thesis
    using assms by (auto simp: table_ok_def row_fits_def)
qed

lemma update_list_ok:
  "update_list sc p cv old rows = Some out \<Longrightarrow> table_ok sc (old @ rows) \<Longrightarrow> table_ok sc out"
proof (induction rows arbitrary: old)
  case Nil
  then show ?case by simp
next
  case (Cons r rs)
  then show ?case
    using table_ok_replace [of sc old r rs cv] by (auto split: if_splits)
qed

lemma update_rows_ok:
  assumes "db_ok sch db" and "distinct (map fst sch)" and "update_rows sch t p cv db = Some db'"
  shows "db_ok sch db'"
proof -
  obtain sc rows where sc: "map_of sch t = Some sc" and rows: "update_list sc p cv [] (db t) = Some rows"
    and db': "db' = db(t := rows)"
    and fks: "\<And>n sc' r c pt pc. (n, sc') \<in> set sch \<Longrightarrow> r \<in> set (db' n) \<Longrightarrow> (c, pt, pc) \<in> set (ts_fks sc') \<Longrightarrow>
        n = t \<or> pt = t \<Longrightarrow> fk_holds db' r (c, pt, pc)"
    using assms(3) by (force simp: update_rows_def Let_def list_all_iff split: option.splits if_splits)
  show ?thesis
    unfolding db_ok_def
  proof (intro ballI, clarify, intro conjI ballI)
    fix n sc'
    assume n: "(n, sc') \<in> set sch"
    then have "n = t \<Longrightarrow> sc' = sc" using sc assms(2) by (metis map_of_is_SomeI option.inject)
    then show "table_ok sc' (db' n)"
      using update_list_ok [OF rows] n assms(1) by (auto simp: db' db_ok_def)
    fix r fk
    assume r: "r \<in> set (db' n)" and fk: "fk \<in> set (ts_fks sc')"
    obtain c pt pc where f: "fk = (c, pt, pc)" by (cases fk)
    show "fk_holds db' r fk"
    proof (cases "n = t \<or> pt = t")
      case True
      then show ?thesis using fks [OF n r] fk by (simp add: f)
    next
      case False
      then have "fk_holds db r fk" using assms(1) n r fk by (auto simp: db' db_ok_def)
      then show ?thesis using False by (simp add: f fk_holds_def db')
    qed
  qed
qed

text \<open>An update that leaves the keys and the references alone only rewrites the rows it selects.\<close>

definition rewrite :: "(row \<Rightarrow> bool) \<Rightarrow> row \<Rightarrow> row \<Rightarrow> row" where
  "rewrite p cv r = (if p r then set_cells cv r else r)"

definition harmless :: "schema \<Rightarrow> string \<Rightarrow> table_schema \<Rightarrow> row \<Rightarrow> bool" where
  "harmless sch t sc cv \<longleftrightarrow>
     list_all (list_all (\<lambda>c. map_of cv c = None)) (ts_keys sc) \<and>
     list_all (\<lambda>(c, _). map_of cv c = None) (ts_fks sc) \<and>
     list_all (\<lambda>(_, sc'). list_all (\<lambda>(_, pt, pc). pt = t \<longrightarrow> map_of cv pc = None) (ts_fks sc')) sch"

lemma get_set_cells:
  "get (set_cells cv r) c = (if c \<in> set (map fst r) then (case map_of cv c of Some w \<Rightarrow> w | None \<Rightarrow> get r c) else CNull)"
proof (induction r)
  case Nil
  then show ?case by (simp add: set_cells_def get_def)
next
  case (Cons a r)
  obtain d v where a: "a = (d, v)" by (cases a)
  show ?case
  proof (cases "d = c")
    case True
    then show ?thesis by (cases "map_of cv c") (simp_all add: a set_cells_def get_def)
  next
    case False
    then have "get (set_cells cv (a # r)) c = get (set_cells cv r) c" "get (a # r) c = get r c"
      by (simp_all add: a set_cells_def get_def)
    then show ?thesis using Cons False unfolding a by (simp split: option.split)
  qed
qed

lemma get_missing: "c \<notin> set (map fst r) \<Longrightarrow> get r c = CNull"
  by (auto simp: get_def split: option.split dest: map_of_SomeD intro: rev_image_eqI)

lemma get_set_cells_other: "map_of cv c = None \<Longrightarrow> get (set_cells cv r) c = get r c"
  using get_missing [of c r] by (simp add: get_set_cells)

lemma get_rewrite_other: "map_of cv c = None \<Longrightarrow> get (rewrite p cv r) c = get r c"
  by (simp add: rewrite_def get_set_cells_other)

lemma same_key_rewrite:
  "list_all (\<lambda>c. map_of cv c = None) ks \<Longrightarrow> same_key ks (set_cells cv r) r' = same_key ks r r'"
  by (auto simp: same_key_def list_all_iff get_set_cells_other)

lemma update_list_rewrites:
  assumes "list_all (list_all (\<lambda>c. map_of cv c = None)) (ts_keys sc)"
    and "\<And>r. r \<in> set rows \<Longrightarrow> p r \<Longrightarrow> row_ok sc (set_cells cv r)"
    and "table_ok sc (old @ rows)"
  shows "update_list sc p cv old rows = Some (old @ map (rewrite p cv) rows)"
  using assms(2,3)
proof (induction rows arbitrary: old)
  case Nil
  then show ?case by simp
next
  case (Cons r rs)
  show ?case
  proof (cases "p r")
    case True
    have "\<not> same_key ks (set_cells cv r) x" if "ks \<in> set (ts_keys sc)" "x \<in> set (old @ rs)" for ks x
    proof -
      have "\<not> same_key ks r x"
        using Cons.prems(2) that by (auto simp: table_ok_def sorted_wrt_append same_key_sym [of ks r])
      moreover have "list_all (\<lambda>c. map_of cv c = None) ks" using assms(1) that by (auto simp: list_all_iff)
      ultimately show ?thesis by (simp add: same_key_rewrite)
    qed
    then have fits: "row_fits sc (old @ rs) (set_cells cv r)"
      using Cons.prems(1) True by (auto simp: row_fits_def list_all_iff list_ex_iff)
    show ?thesis
      using Cons.IH [of "old @ [set_cells cv r]"] Cons.prems(1) table_ok_replace [OF Cons.prems(2) fits] fits True
      by (simp add: rewrite_def)
  next
    case False
    then show ?thesis using Cons.IH [of "old @ [r]"] Cons.prems by (simp add: rewrite_def)
  qed
qed

lemma harmlessD:
  assumes "harmless sch t sc cv"
  shows "(c, pt, pc) \<in> set (ts_fks sc) \<Longrightarrow> map_of cv c = None"
    and "(n, sc') \<in> set sch \<Longrightarrow> (c, t, pc) \<in> set (ts_fks sc') \<Longrightarrow> map_of cv pc = None"
    and "list_all (list_all (\<lambda>c. map_of cv c = None)) (ts_keys sc)"
  using assms unfolding harmless_def list_all_iff by fast+

lemma update_rows_rewrites:
  assumes "db_ok sch db" and "map_of sch t = Some sc" and "distinct (map fst sch)" and "harmless sch t sc cv"
    and "\<And>r. r \<in> set (db t) \<Longrightarrow> p r \<Longrightarrow> row_ok sc (set_cells cv r)"
  shows "update_rows sch t p cv db = Some (db(t := map (rewrite p cv) (db t)))"
proof -
  let ?db = "db(t := map (rewrite p cv) (db t))"
  have ok: "table_ok sc (db t)" using assms(1,2) by (auto simp: db_ok_def dest: map_of_SomeD)
  have list: "update_list sc p cv [] (db t) = Some (map (rewrite p cv) (db t))"
    using update_list_rewrites [of cv sc "db t" p "[]", OF harmlessD(3) [OF assms(4)] assms(5)] ok by simp
  have fk: "fk_holds ?db r' (c, pt, pc)"
    if n: "(n, sc') \<in> set sch" "r' \<in> set (?db n)" "(c, pt, pc) \<in> set (ts_fks sc')" for n sc' r' c pt pc
  proof -
    have nt: "n = t \<Longrightarrow> sc' = sc" using n(1) assms(2,3) by (metis map_of_is_SomeI option.inject)
    have "\<exists>r \<in> set (db n). get r' c = get r c"
    proof (cases "n = t")
      case True
      then obtain r where r: "r \<in> set (db t)" "r' = rewrite p cv r" using n(2) by auto
      have "(c, pt, pc) \<in> set (ts_fks sc)" using n(3) nt [OF True] by simp
      then have "map_of cv c = None" by (rule harmlessD(1) [OF assms(4)])
      then show ?thesis using r True by (auto simp: get_rewrite_other)
    next
      case False
      then show ?thesis using n(2) by auto
    qed
    then obtain r where r: "r \<in> set (db n)" "get r' c = get r c" by blast
    have "\<forall>r \<in> set (db n). \<forall>fk \<in> set (ts_fks sc'). fk_holds db r fk"
      using assms(1) n(1) by (auto simp: db_ok_def)
    then have h: "fk_holds db r (c, pt, pc)" using r(1) n(3) by blast
    have pc: "pt = t \<Longrightarrow> map_of cv pc = None"
      using harmlessD(2) [OF assms(4) n(1)] n(3) by simp
    show ?thesis
    proof (cases "pt = t")
      case True
      then show ?thesis using h pc r(2) by (auto simp: fk_holds_def list_ex_iff get_rewrite_other)
    next
      case False
      then show ?thesis using h r(2) by (simp add: fk_holds_def)
    qed
  qed
  then have "list_all (\<lambda>(n, sc'). list_all (\<lambda>r. list_all (\<lambda>(c, pt, pc).
      (n = t \<or> pt = t) \<longrightarrow> fk_holds ?db r (c, pt, pc)) (ts_fks sc')) (?db n)) sch"
    unfolding list_all_iff by blast
  then show ?thesis
    unfolding update_rows_def assms(2) option.case list Let_def by simp
qed

text \<open>A table nothing refers to loses the selected rows and nothing else goes.\<close>

definition unreferenced :: "schema \<Rightarrow> string \<Rightarrow> bool" where
  "unreferenced sch t \<longleftrightarrow> list_all (\<lambda>(_, sc). list_all (\<lambda>(_, pt, _). pt \<noteq> t) (ts_fks sc)) sch"

lemma doomed_leaf:
  assumes "unreferenced sch t" and "\<And>x q. x \<noteq> t \<Longrightarrow> \<not> d x q"
  shows "doomed sch t p db d n r \<longleftrightarrow> n = t \<and> (if t \<in> fst ` set sch then p r else d t r)"
  using assms
proof (induction sch arbitrary: d)
  case Nil
  then show ?case by (cases "n = t") auto
next
  case (Cons a sch)
  obtain m sm where a: "a = (m, sm)" by (cases a)
  have fks: "list_all (\<lambda>(_, pt, _). pt \<noteq> t) (ts_fks sm)" and rest: "unreferenced sch t"
    using Cons.prems(1) by (simp_all add: unreferenced_def a)
  have no: "\<not> list_ex (\<lambda>(c, pt, pc). get r c \<noteq> CNull \<and> list_ex (\<lambda>q. d pt q \<and> get q pc = get r c) (db pt)) (ts_fks sm)" for r
    using fks Cons.prems(2) by (fastforce simp: list_all_iff list_ex_iff)
  define d' where "d' = d(m := \<lambda>r. m = t \<and> p r \<or>
      list_ex (\<lambda>(c, pt, pc). get r c \<noteq> CNull \<and> list_ex (\<lambda>q. d pt q \<and> get q pc = get r c) (db pt)) (ts_fks sm))"
  have d': "d' m r = (m = t \<and> p r)" for r
    unfolding d'_def using no [of r] by simp
  have "\<And>x q. x \<noteq> t \<Longrightarrow> \<not> d' x q"
    using d' Cons.prems(2) by (auto simp: d'_def)
  then have IH: "doomed sch t p db d' n r \<longleftrightarrow> n = t \<and> (if t \<in> fst ` set sch then p r else d' t r)"
    by (rule Cons.IH [OF rest])
  have "doomed (a # sch) t p db d = doomed sch t p db d'"
    unfolding a doomed.simps d'_def ..
  with IH have "doomed (a # sch) t p db d n r \<longleftrightarrow> n = t \<and> (if t \<in> fst ` set sch then p r else d' t r)"
    by simp
  moreover have "d' t r = (if m = t then p r else d t r)"
    using d' by (auto simp: d'_def)
  ultimately show ?case by (auto simp: a)
qed

lemma delete_leaf:
  assumes "unreferenced sch t" and "t \<in> fst ` set sch"
  shows "delete_rows sch t p db = db(t := filter (\<lambda>r. \<not> p r) (db t))"
  using assms by (auto simp: delete_rows_def doomed_leaf [OF assms(1)])

end
