(* ===== verification/Orm.thy ===== *)
theory Orm
  imports SqlTables "HOL-Library.Multiset"
begin

text \<open>
  The query builder of modules/db/include/dpl/db/orm.h and the generated row classes and transactions
  of orm_generator.h: expressions and the text and arguments of the statements they make, rows with
  their set marks, the queries a thread keeps for each place of the program (\<open>WRT_DB_INTERNAL\<close>), and
  scoped transactions.  What a statement does to the tables is SqlTables.
\<close>

section \<open>Expressions\<close>

datatype relation = EqualRel | LessThanRel | AndRel | OrRel | IsRel | InRel

fun relation_text :: "relation \<Rightarrow> string" where
  "relation_text EqualRel = ''=''"
| "relation_text LessThanRel = ''<''"
| "relation_text AndRel = ''AND''"
| "relation_text OrRel = ''OR''"
| "relation_text IsRel = ''IS''"
| "relation_text InRel = ''IN''"

text \<open>\<open>Compare\<close>: table, column and argument; \<open>Numerous\<close>: column and the set of arguments in its order.\<close>

datatype expr =
    Compare relation string string sql_cell
  | Binary relation expr expr bool
  | Numerous relation string "sql_cell list"

definition Equals :: "string \<Rightarrow> string \<Rightarrow> sql_cell \<Rightarrow> expr" where
  "Equals t c v = Compare EqualRel t c v"

definition Is :: "string \<Rightarrow> string \<Rightarrow> sql_cell \<Rightarrow> expr" where
  "Is t c v = Compare IsRel t c v"

definition And :: "expr \<Rightarrow> expr \<Rightarrow> expr" where
  "And l r = Binary AndRel l r True"

definition In :: "string \<Rightarrow> sql_cell list \<Rightarrow> expr" where
  "In c vs = Numerous InRel c vs"

fun question_marks :: "nat \<Rightarrow> string" where
  "question_marks 0 = []"
| "question_marks (Suc n) = ''?'' @ (if n > 0 then '', '' else []) @ question_marks n"

fun get_string :: "expr \<Rightarrow> string" where
  "get_string (Compare rel t c v) = t @ ''.'' @ c @ '' '' @ relation_text rel @ '' ?''"
| "get_string (Binary rel l r paren) =
     (if paren then ''( '' else '' '') @ get_string l @ '' '' @ relation_text rel @ '' '' @ get_string r @
     (if paren then '' )'' else '' '')"
| "get_string (Numerous rel c vs) =
     c @ '' '' @ relation_text rel @ '' ( '' @ question_marks (length vs) @ '' )''"

text \<open>\<open>BindTo\<close>: the arguments with the indices they are bound at, and the index it returns.\<close>

fun bind_to :: "expr \<Rightarrow> nat \<Rightarrow> (nat \<times> sql_cell) list \<times> nat" where
  "bind_to (Compare rel t c v) i = ([(i, v)], i + 1)"
| "bind_to (Binary rel l r paren) i =
     (case bind_to l i of (bs, j) \<Rightarrow> (case bind_to r j of (cs, k) \<Rightarrow> (bs @ cs, k)))"
| "bind_to (Numerous rel c vs) i = (zip [i..<i + length vs] vs, i + length vs + 1)"

fun arguments :: "expr \<Rightarrow> sql_cell list" where
  "arguments (Compare rel t c v) = [v]"
| "arguments (Binary rel l r paren) = arguments l @ arguments r"
| "arguments (Numerous rel c vs) = vs"

text \<open>A text argument ends at its first NUL (\<open>c_str\<close>); null equals nothing but \<open>IS\<close> null.\<close>

definition bound :: "sql_cell \<Rightarrow> sql_cell" where
  "bound v = (case v of CText w \<Rightarrow> CText (takeWhile (\<lambda>c. c \<noteq> 0) w) | _ \<Rightarrow> v)"

fun compares :: "relation \<Rightarrow> sql_cell \<Rightarrow> sql_cell \<Rightarrow> bool" where
  "compares LessThanRel (CInt a) (CInt b) = (a < b)"
| "compares IsRel a b = (a = b)"
| "compares EqualRel a b = (a = b \<and> a \<noteq> CNull)"
| "compares _ _ _ = False"

fun holds :: "expr \<Rightarrow> row \<Rightarrow> bool" where
  "holds (Compare rel t c v) r = compares rel (get r c) (bound v)"
| "holds (Binary rel l r' paren) r =
     (case rel of AndRel \<Rightarrow> holds l r \<and> holds r' r | OrRel \<Rightarrow> holds l r \<or> holds r' r | _ \<Rightarrow> False)"
| "holds (Numerous rel c vs) r = (rel = InRel \<and> list_ex (\<lambda>v. compares EqualRel (get r c) (bound v)) vs)"

section \<open>Statements\<close>

fun comma_join :: "string list \<Rightarrow> string" where
  "comma_join [] = []"
| "comma_join [c] = c"
| "comma_join (c # cs) = c @ '', '' @ comma_join cs"

definition where_text :: "expr option \<Rightarrow> string" where
  "where_text wh = (case wh of None \<Rightarrow> [] | Some e \<Rightarrow> '' WHERE '' @ get_string e)"

definition or_text :: "string option \<Rightarrow> string" where
  "or_text orc = (case orc of None \<Rightarrow> [] | Some o1 \<Rightarrow> '' OR '' @ o1 @ '' '')"

definition delete_text :: "string \<Rightarrow> expr option \<Rightarrow> string" where
  "delete_text t wh = ''DELETE FROM '' @ t @ where_text wh"

definition insert_text :: "string option \<Rightarrow> string \<Rightarrow> string list \<Rightarrow> string" where
  "insert_text orc t cols = ''INSERT '' @ or_text orc @ ''INTO '' @ t @ '' ( '' @ comma_join cols @ '' ) '' @
     ''VALUES ( '' @ comma_join (map (\<lambda>_. ''?'') cols) @ '' )''"

definition select_text :: "bool \<Rightarrow> string \<Rightarrow> string \<Rightarrow> string \<Rightarrow> expr option \<Rightarrow> string option \<Rightarrow> string" where
  "select_text dist cols t jn wh order =
     ''SELECT '' @ (if dist then ''DISTINCT '' else []) @ cols @ '' FROM '' @ t @ jn @ where_text wh @
     (case order of None \<Rightarrow> [] | Some o1 \<Rightarrow> '' ORDER BY '' @ o1)"

definition update_text :: "string option \<Rightarrow> string \<Rightarrow> string list \<Rightarrow> expr option \<Rightarrow> string res" where
  "update_text orc t cols wh =
     (if cols = [] then Inl EmptyUpdateStatement
      else Inr (''UPDATE '' @ or_text orc @ t @ '' SET '' @ comma_join (map (\<lambda>c. c @ '' = ?'') cols) @
                where_text wh))"

text \<open>The columns of a join, and the table a further join names: the first not in the text so far.\<close>

definition occurs :: "string \<Rightarrow> string \<Rightarrow> bool" where
  "occurs p s \<longleftrightarrow> list_ex (\<lambda>i. take (length p) (drop i s) = p) [0..<Suc (length s)]"

definition join_columns :: "(string \<times> string) list \<Rightarrow> string" where
  "join_columns cols = comma_join (map (\<lambda>(t, c). t @ ''.'' @ c) cols)"

fun join_table_name :: "(string \<times> string) list \<Rightarrow> string \<Rightarrow> string" where
  "join_table_name [] used = []"
| "join_table_name ((t, c) # cols) used = (if \<not> occurs t used then t else join_table_name cols used)"

text \<open>A custom row finds a column by its name alone; a missing name is the index -1, which is asserted.\<close>

fun custom_column_index :: "(string \<times> string) list \<Rightarrow> string \<Rightarrow> nat option" where
  "custom_column_index [] name = None"
| "custom_column_index ((t, c) # cols) name =
     (if c = name then Some 0 else map_option Suc (custom_column_index cols name))"

definition custom_get :: "(string \<times> string) list \<Rightarrow> sql_cell list \<Rightarrow> string \<Rightarrow> sql_cell res" where
  "custom_get cols vals name =
     (case custom_column_index cols name of
        Some i \<Rightarrow> (if i < length vals then Inr (vals ! i) else Inl AssertFailed)
      | None \<Rightarrow> Inl AssertFailed)"

section \<open>Rows\<close>

text \<open>A generated row: the columns that have been set.  Visiting goes in the order of the table.\<close>

definition row_set :: "string \<Rightarrow> sql_cell \<Rightarrow> row \<Rightarrow> row" where
  "row_set c v r = (c, v) # filter (\<lambda>(d, _). d \<noteq> c) r"

definition row_get :: "string \<Rightarrow> row \<Rightarrow> sql_cell res" where
  "row_get c r = (case map_of r c of None \<Rightarrow> Inl RowFieldNotInitialized | Some v \<Rightarrow> Inr v)"

definition signature_matching :: "string list \<Rightarrow> row \<Rightarrow> row \<Rightarrow> bool" where
  "signature_matching cols r r' \<longleftrightarrow> list_all (\<lambda>c. (map_of r c = None) = (map_of r' c = None)) cols"

definition visit_columns :: "string list \<Rightarrow> row \<Rightarrow> row" where
  "visit_columns cols r = List.map_filter (\<lambda>c. map_option (Pair c) (map_of r c)) cols"

text \<open>\<open>Values\<close>: a prepared query takes only rows with the same columns set.\<close>

definition query_values :: "bool \<Rightarrow> string list \<Rightarrow> row \<Rightarrow> row \<Rightarrow> row res" where
  "query_values prepared cols m_row r =
     (if prepared \<and> \<not> signature_matching cols r m_row then Inl SelectReuse else Inr r)"

text \<open>The columns of a result as the row classes read them; a missing row reads as nulls.\<close>

definition int_of :: "row \<Rightarrow> string \<Rightarrow> int" where
  "int_of r c = cell_int (get r c)"

definition text_of :: "row \<Rightarrow> string \<Rightarrow> wstr" where
  "text_of r c = (case get r c of CText w \<Rightarrow> w | _ \<Rightarrow> [])"

definition opt_int_of :: "row \<Rightarrow> string \<Rightarrow> int option" where
  "opt_int_of r c = (case get r c of CInt i \<Rightarrow> Some i | _ \<Rightarrow> None)"

definition opt_text_of :: "row \<Rightarrow> string \<Rightarrow> wstr option" where
  "opt_text_of r c = (case get r c of CText w \<Rightarrow> Some w | _ \<Rightarrow> None)"

definition bool_cell :: "bool \<Rightarrow> sql_cell" where
  "bool_cell b = CInt (if b then 1 else 0)"

definition opt_int :: "int option \<Rightarrow> sql_cell" where
  "opt_int v = (case v of None \<Rightarrow> CNull | Some i \<Rightarrow> CInt i)"

definition opt_text :: "wstr option \<Rightarrow> sql_cell" where
  "opt_text v = (case v of None \<Rightarrow> CNull | Some w \<Rightarrow> CText w)"

section \<open>A connection and its queries\<close>

text \<open>
  The state a thread sees through its connection: the tables and row-id counters, the queries it keeps
  that were stepped and not reset since, the coming failures of statements for reasons outside the
  model (\<open>True\<close>: the statement fails; nothing left: no failure), the order in which the engine
  delivers the rows of a select without \<open>ORDER BY\<close>, and the transaction: its depth and cancel mark
  (ThreadDatabase), what \<open>ROLLBACK\<close> restores, and the \<open>m_commited\<close> of the scopes that are open.
\<close>

record sql_env =
  e_db :: tables
  e_seq :: "string \<Rightarrow> int"
  e_busy :: "string \<Rightarrow> bool"
  e_io :: "bool list"
  e_scan :: "row list \<Rightarrow> row list"
  e_depth :: "32 word"
  e_cancel :: bool
  e_saved :: "(tables \<times> (string \<Rightarrow> int)) option"
  e_scopes :: "bool list"

type_synonym 'a db_prog = "(sql_env, 'a) prog"

text \<open>
  \<open>Bind\<close>, \<open>Step\<close>, \<open>Reset\<close> of the query kept for a place of the program.  SQLite refuses to bind a
  statement that was stepped and not reset; an exception out of \<open>Step\<close> skips \<open>Reset\<close>.
\<close>

definition run_query :: "string \<Rightarrow> 'a db_prog \<Rightarrow> 'a db_prog" where
  "run_query site step s =
     (if e_busy s site then (Inl SqlInternalError, s)
      else let t = s\<lparr>e_busy := (e_busy s)(site := True), e_io := tl (e_io s)\<rparr>
           in if e_io s \<noteq> [] \<and> hd (e_io s) then (Inl SqlInternalError, t)
              else (case step t of
                      (Inl e, u) \<Rightarrow> (Inl e, u)
                    | (Inr x, u) \<Rightarrow> (Inr x, u\<lparr>e_busy := (e_busy u)(site := False)\<rparr>)))"

definition insert_step :: "schema \<Rightarrow> string \<Rightarrow> row \<Rightarrow> int db_prog" where
  "insert_step sch t cv s =
     (case insert_row sch t (map (\<lambda>(c, v). (c, bound v)) cv) (e_db s, e_seq s) of
        None \<Rightarrow> (Inl SqlInternalError, s)
      | Some (rid, db, seq) \<Rightarrow> (Inr rid, s\<lparr>e_db := db, e_seq := seq\<rparr>))"

definition delete_step :: "schema \<Rightarrow> string \<Rightarrow> expr \<Rightarrow> unit db_prog" where
  "delete_step sch t wh = modifyP (\<lambda>s. s\<lparr>e_db := delete_rows sch t (holds wh) (e_db s)\<rparr>)"

definition update_step :: "schema \<Rightarrow> string \<Rightarrow> (row \<Rightarrow> bool) \<Rightarrow> row \<Rightarrow> unit db_prog" where
  "update_step sch t p cv s =
     (case update_rows sch t p (map (\<lambda>(c, v). (c, bound v)) cv) (e_db s) of
        None \<Rightarrow> (Inl SqlInternalError, s)
      | Some db \<Rightarrow> (Inr (), s\<lparr>e_db := db\<rparr>))"

definition select_step :: "string \<Rightarrow> (row \<Rightarrow> bool) \<Rightarrow> row list db_prog" where
  "select_step t p s = (Inr (e_scan s (filter p (e_db s t))), s)"

definition do_insert :: "schema \<Rightarrow> string \<Rightarrow> string \<Rightarrow> row \<Rightarrow> int db_prog" where
  "do_insert sch site t cv = run_query site (insert_step sch t cv)"

definition do_delete :: "schema \<Rightarrow> string \<Rightarrow> string \<Rightarrow> expr \<Rightarrow> unit db_prog" where
  "do_delete sch site t wh = run_query site (delete_step sch t wh)"

definition do_update :: "schema \<Rightarrow> string \<Rightarrow> string \<Rightarrow> expr \<Rightarrow> row \<Rightarrow> unit db_prog" where
  "do_update sch site t wh cv =
     (if cv = [] then raise EmptyUpdateStatement else run_query site (update_step sch t (holds wh) cv))"

definition do_update_all :: "schema \<Rightarrow> string \<Rightarrow> string \<Rightarrow> row \<Rightarrow> unit db_prog" where
  "do_update_all sch site t cv =
     (if cv = [] then raise EmptyUpdateStatement else run_query site (update_step sch t (\<lambda>_. True) cv))"

definition get_row_list :: "string \<Rightarrow> string \<Rightarrow> expr \<Rightarrow> row list db_prog" where
  "get_row_list site t wh = run_query site (select_step t (holds wh))"

definition get_all_rows :: "string \<Rightarrow> string \<Rightarrow> row list db_prog" where
  "get_all_rows site t = run_query site (select_step t (\<lambda>_. True))"

definition first_row :: "row list \<Rightarrow> row" where
  "first_row rs = (case rs of [] \<Rightarrow> [] | r # _ \<Rightarrow> r)"

text \<open>\<open>GetSingleRow\<close> and \<open>GetSingleValue\<close> do not look at what \<open>Step\<close> returns.\<close>

definition get_single_row :: "string \<Rightarrow> string \<Rightarrow> expr \<Rightarrow> row db_prog" where
  "get_single_row site t wh = bindP (get_row_list site t wh) (\<lambda>rs. ret (first_row rs))"

definition get_single_of_all :: "string \<Rightarrow> string \<Rightarrow> row db_prog" where
  "get_single_of_all site t = bindP (get_all_rows site t) (\<lambda>rs. ret (first_row rs))"

definition get_value_list :: "string \<Rightarrow> string \<Rightarrow> expr \<Rightarrow> (row \<Rightarrow> 'a) \<Rightarrow> 'a list db_prog" where
  "get_value_list site t wh f = bindP (get_row_list site t wh) (\<lambda>rs. ret (map f rs))"

section \<open>Transactions\<close>

definition tx_begin :: "unit db_prog" where
  "tx_begin s =
     (let t = s\<lparr>e_depth := e_depth s + 1\<rparr>
      in if e_depth s + 1 = 1
         then (case e_saved s of
                 None \<Rightarrow> (Inr (), t\<lparr>e_cancel := False, e_saved := Some (e_db s, e_seq s)\<rparr>)
               | Some _ \<Rightarrow> (Inl SyntaxError, t\<lparr>e_cancel := False\<rparr>))
         else (Inr (), t))"

definition tx_unref :: "unit db_prog" where
  "tx_unref s =
     (let t = s\<lparr>e_depth := e_depth s - 1\<rparr>
      in if e_depth s - 1 = 0
         then (case e_saved s of
                 None \<Rightarrow> (Inl SyntaxError, t)
               | Some (db, seq) \<Rightarrow>
                   (Inr (), if e_cancel s then t\<lparr>e_db := db, e_seq := seq, e_saved := None\<rparr>
                            else t\<lparr>e_saved := None\<rparr>))
         else (Inr (), t))"

definition tx_rollback :: "unit db_prog" where
  "tx_rollback = thenP (modifyP (\<lambda>s. s\<lparr>e_cancel := True\<rparr>)) tx_unref"

text \<open>\<open>Commit\<close> of the innermost open scope.\<close>

definition commit :: "unit db_prog" where
  "commit = thenP tx_unref (modifyP (\<lambda>s. s\<lparr>e_scopes := True # tl (e_scopes s)\<rparr>))"

definition scope :: "'a db_prog \<Rightarrow> 'a db_prog" where
  "scope body s =
     (case tx_begin s of
        (Inl e, t) \<Rightarrow> (Inl e, t)
      | (Inr _, t) \<Rightarrow>
          (case body (t\<lparr>e_scopes := False # e_scopes t\<rparr>) of
             (r, u) \<Rightarrow>
               let v = u\<lparr>e_scopes := tl (e_scopes u)\<rparr>
               in if hd (e_scopes u) then (r, v)
                  else (case tx_rollback v of
                          (Inr _, w) \<Rightarrow> (r, w)
                        | (Inl f, w) \<Rightarrow> (Inl (case r of Inl _ \<Rightarrow> Aborted | Inr _ \<Rightarrow> f), w))))"

text \<open>\<open>Catch(SqlConnection::Exception::Base)\<close> with the rethrow of a data access object.\<close>

definition is_sql :: "exn \<Rightarrow> bool" where
  "is_sql e \<longleftrightarrow> e \<in> {SyntaxError, DbConnectionBroken, SqlInternalError, InvalidColumn}"

definition sql_handler :: "dao_class \<Rightarrow> 'a db_prog \<Rightarrow> 'a db_prog" where
  "sql_handler cls m = catchP m is_sql (\<lambda>_. raise (DatabaseError cls))"

section \<open>Arguments and placeholders\<close>

fun plain_names :: "expr \<Rightarrow> bool" where
  "plain_names (Compare rel t c v) = (CHR ''?'' \<notin> set t \<and> CHR ''?'' \<notin> set c)"
| "plain_names (Binary rel l r paren) = (plain_names l \<and> plain_names r)"
| "plain_names (Numerous rel c vs) = (CHR ''?'' \<notin> set c)"

fun numerous_free :: "expr \<Rightarrow> bool" where
  "numerous_free (Compare rel t c v) = True"
| "numerous_free (Binary rel l r paren) = (numerous_free l \<and> numerous_free r)"
| "numerous_free (Numerous rel c vs) = False"

lemma count_list_none: "x \<notin> set xs \<Longrightarrow> count_list xs x = 0"
  by (simp add: count_list_0_iff)

lemma relation_text_plain: "count_list (relation_text rel) (CHR ''?'') = 0"
  by (cases rel) simp_all

lemma question_marks_count: "count_list (question_marks n) (CHR ''?'') = n"
  by (induction n) simp_all

lemma placeholders: "plain_names e \<Longrightarrow> count_list (get_string e) (CHR ''?'') = length (arguments e)"
  by (induction e) (simp_all add: relation_text_plain question_marks_count count_list_none)

lemma bind_to_contiguous:
  "numerous_free e \<Longrightarrow> bind_to e i = (zip [i..<i + length (arguments e)] (arguments e), i + length (arguments e))"
proof (induction e arbitrary: i)
  case (Binary rel l r paren)
  have split: "[i..<i + (length (arguments l) + length (arguments r))] =
      [i..<i + length (arguments l)] @ [i + length (arguments l)..<i + length (arguments l) + length (arguments r)]"
    by (simp only: add.assoc [symmetric] upt_add_eq_append [OF le_add1])
  show ?case using Binary by (simp add: split add.assoc)
qed simp_all

section \<open>Running queries\<close>

text \<open>No query of the thread is waiting for a reset and no statement is going to fail from outside.\<close>

definition idle :: "sql_env \<Rightarrow> bool" where
  "idle s \<longleftrightarrow> (\<forall>q. \<not> e_busy s q) \<and> e_io s = []"

definition outside_tx :: "sql_env \<Rightarrow> bool" where
  "outside_tx s \<longleftrightarrow> e_depth s = 0 \<and> e_saved s = None"

text \<open>A select delivers the rows of the table, each as often as it is there.\<close>

definition fair_scan :: "sql_env \<Rightarrow> bool" where
  "fair_scan s \<longleftrightarrow> (\<forall>rs. mset (e_scan s rs) = mset rs)"

lemma idle_upd [simp]:
  "idle (s\<lparr>e_db := d\<rparr>) = idle s" "idle (s\<lparr>e_seq := q\<rparr>) = idle s" "idle (s\<lparr>e_depth := n\<rparr>) = idle s"
  "idle (s\<lparr>e_cancel := c\<rparr>) = idle s" "idle (s\<lparr>e_saved := v\<rparr>) = idle s" "idle (s\<lparr>e_scopes := w\<rparr>) = idle s"
  by (simp_all add: idle_def)

lemma busy_blocks: "e_busy s site \<Longrightarrow> run_query site step s = (Inl SqlInternalError, s)"
  by (simp add: run_query_def)

text \<open>Nothing keeps one query from running.\<close>

definition free :: "string \<Rightarrow> sql_env \<Rightarrow> bool" where
  "free q s \<longleftrightarrow> \<not> e_busy s q \<and> e_io s = []"

lemma idle_free: "idle s \<Longrightarrow> free q s"
  by (simp add: idle_def free_def)

lemma free_idem: "free q s \<Longrightarrow> (e_busy s)(q := False) = e_busy s"
  by (simp add: free_def fun_upd_idem)

lemma insert_runs:
  assumes "free site s" and "insert_row sch t (map (\<lambda>(c, v). (c, bound v)) cv) (e_db s, e_seq s) = Some (k, db, seq)"
  shows "do_insert sch site t cv s = (Inr k, s\<lparr>e_db := db, e_seq := seq\<rparr>)"
  using assms free_idem [OF assms(1)]
  by (simp add: do_insert_def run_query_def insert_step_def free_def Let_def)

lemma insert_fails:
  assumes "free site s" and "insert_row sch t (map (\<lambda>(c, v). (c, bound v)) cv) (e_db s, e_seq s) = None"
  shows "do_insert sch site t cv s = (Inl SqlInternalError, s\<lparr>e_busy := (e_busy s)(site := True)\<rparr>)"
  using assms by (simp add: do_insert_def run_query_def insert_step_def free_def Let_def)

lemma delete_runs:
  assumes "free site s"
  shows "do_delete sch site t wh s = (Inr (), s\<lparr>e_db := delete_rows sch t (holds wh) (e_db s)\<rparr>)"
  using assms free_idem [OF assms]
  by (simp add: do_delete_def run_query_def delete_step_def modifyP_def free_def Let_def)

lemma update_runs:
  assumes "free site s" and "cv \<noteq> []"
    and "update_rows sch t (holds wh) (map (\<lambda>(c, v). (c, bound v)) cv) (e_db s) = Some db"
  shows "do_update sch site t wh cv s = (Inr (), s\<lparr>e_db := db\<rparr>)"
  using assms free_idem [OF assms(1)]
  by (simp add: do_update_def run_query_def update_step_def free_def Let_def)

lemma update_all_runs:
  assumes "free site s" and "cv \<noteq> []"
    and "update_rows sch t (\<lambda>_. True) (map (\<lambda>(c, v). (c, bound v)) cv) (e_db s) = Some db"
  shows "do_update_all sch site t cv s = (Inr (), s\<lparr>e_db := db\<rparr>)"
  using assms free_idem [OF assms(1)]
  by (simp add: do_update_all_def run_query_def update_step_def free_def Let_def)

lemma update_fails:
  assumes "free site s" and "cv \<noteq> []"
    and "update_rows sch t (holds wh) (map (\<lambda>(c, v). (c, bound v)) cv) (e_db s) = None"
  shows "do_update sch site t wh cv s = (Inl SqlInternalError, s\<lparr>e_busy := (e_busy s)(site := True)\<rparr>)"
  using assms by (simp add: do_update_def run_query_def update_step_def free_def Let_def)

lemma rows_run:
  assumes "free site s"
  shows "get_row_list site t wh s = (Inr (e_scan s (filter (holds wh) (e_db s t))), s)"
    and "get_all_rows site t s = (Inr (e_scan s (e_db s t)), s)"
  using assms free_idem [OF assms]
  by (simp_all add: get_row_list_def get_all_rows_def run_query_def select_step_def free_def Let_def)

lemma single_runs:
  assumes "free site s"
  shows "get_single_row site t wh s = (Inr (first_row (e_scan s (filter (holds wh) (e_db s t)))), s)"
    and "get_single_of_all site t s = (Inr (first_row (e_scan s (e_db s t))), s)"
    and "get_value_list site t wh f s = (Inr (map f (e_scan s (filter (holds wh) (e_db s t)))), s)"
  by (simp_all add: get_single_row_def get_single_of_all_def get_value_list_def rows_run [OF assms] prog_simps)

lemmas query_runs = rows_run single_runs delete_runs

lemma scan_Nil [simp]: "fair_scan s \<Longrightarrow> e_scan s [] = []"
  unfolding fair_scan_def by (metis mset_zero_iff)

lemma scan_single [simp]: "fair_scan s \<Longrightarrow> e_scan s [r] = [r]"
  unfolding fair_scan_def by (metis mset_eq_length mset.simps length_0_conv mset_single_iff_right)

lemma scan_set [simp]: "fair_scan s \<Longrightarrow> set (e_scan s rs) = set rs"
  unfolding fair_scan_def by (metis set_mset_mset)

lemma scan_empty_iff [simp]: "fair_scan s \<Longrightarrow> e_scan s rs = [] \<longleftrightarrow> rs = []"
  unfolding fair_scan_def by (metis mset_zero_iff)

section \<open>Invariants of programs over a connection\<close>

text \<open>
  What the statements promise: an assertion that they keep, whatever they do to the queries of the
  thread, is kept by every query of the builder.
\<close>

locale statements =
  fixes sch :: schema and I :: "sql_env \<Rightarrow> bool"
  assumes quiet: "I s \<Longrightarrow> I (s\<lparr>e_busy := b, e_io := i\<rparr>)"
    and ins: "I s \<Longrightarrow> insert_row sch t cv (e_db s, e_seq s) = Some (k, db, seq) \<Longrightarrow> I (s\<lparr>e_db := db, e_seq := seq\<rparr>)"
    and del: "I s \<Longrightarrow> I (s\<lparr>e_db := delete_rows sch t p (e_db s)\<rparr>)"
    and upd: "I s \<Longrightarrow> update_rows sch t q cv (e_db s) = Some db \<Longrightarrow> I (s\<lparr>e_db := db\<rparr>)"
begin

lemma quiet_busy: "I s \<Longrightarrow> I (s\<lparr>e_busy := b\<rparr>)"
proof -
  assume "I s"
  then have "I (s\<lparr>e_busy := b, e_io := e_io s\<rparr>)" by (rule quiet)
  moreover have "s\<lparr>e_busy := b, e_io := e_io s\<rparr> = s\<lparr>e_busy := b\<rparr>" by (cases s) simp
  ultimately show ?thesis by simp
qed

lemma keeps_query: "keeps I step \<Longrightarrow> keeps I (run_query site step)"
proof
  fix s
  assume step: "keeps I step" and s: "I s"
  let ?t = "s\<lparr>e_busy := (e_busy s)(site := True), e_io := tl (e_io s)\<rparr>"
  have t: "I ?t" using s by (rule quiet)
  obtain r u where ru: "step ?t = (r, u)" by fastforce
  then have "I u" using keeps_pair [OF step t] by blast
  then show "I (snd (run_query site step s))"
    using s t ru by (cases r) (auto simp: run_query_def Let_def quiet_busy)
qed

lemma keeps_statements:
  "keeps I (insert_step sch t cv)" "keeps I (delete_step sch t wh)"
  "keeps I (update_step sch t q cv)" "keeps I (select_step t q)"
  by (auto simp: keeps_def insert_step_def delete_step_def update_step_def select_step_def modifyP_def
      intro: ins del upd split: option.split)

lemma keeps_queries:
  "keeps I (do_insert sch site t cv)" "keeps I (do_delete sch site t wh)"
  "keeps I (do_update sch site t wh cv)" "keeps I (do_update_all sch site t cv)"
  "keeps I (get_row_list site t wh)" "keeps I (get_all_rows site t)"
  "keeps I (get_single_row site t wh)" "keeps I (get_single_of_all site t)"
  "keeps I (get_value_list site t wh f)"
  by (auto simp: do_insert_def do_delete_def do_update_def do_update_all_def get_row_list_def
      get_all_rows_def get_single_row_def get_single_of_all_def get_value_list_def
      intro!: keeps_query keeps_statements keeps_bind keeps_ret keeps_raise)

lemma keeps_handler: "keeps I m \<Longrightarrow> keeps I (sql_handler cls m)"
  unfolding sql_handler_def by (intro keeps_catch keeps_raise)

lemmas keeps_db = keeps_queries keeps_handler keeps_ret keeps_raise keeps_bind keeps_then keeps_for keeps_map

end

text \<open>With the transactions.\<close>

locale transactional = statements +
  assumes begins: "keeps I tx_begin" and ends: "keeps I tx_unref"
    and marks: "I s \<Longrightarrow> I (s\<lparr>e_cancel := c\<rparr>)" "I s \<Longrightarrow> I (s\<lparr>e_scopes := sc\<rparr>)"
begin

lemma keeps_commit: "keeps I commit"
  unfolding commit_def by (intro keeps_then ends keeps_modify marks)

lemma keeps_scope: "keeps I body \<Longrightarrow> keeps I (scope body)"
proof
  fix s
  assume body: "keeps I body" and s: "I s"
  have rollback: "keeps I tx_rollback"
    unfolding tx_rollback_def by (intro keeps_then ends keeps_modify marks)
  obtain r1 t where t: "tx_begin s = (r1, t)" by fastforce
  then have It: "I (t\<lparr>e_scopes := sc\<rparr>)" for sc using keeps_pair [OF begins s] marks(2) by blast
  obtain r u where u: "body (t\<lparr>e_scopes := False # e_scopes t\<rparr>) = (r, u)" by fastforce
  then have Iu: "I (u\<lparr>e_scopes := tl (e_scopes u)\<rparr>)" using keeps_pair [OF body It] marks(2) by blast
  obtain r2 w where w: "tx_rollback (u\<lparr>e_scopes := tl (e_scopes u)\<rparr>) = (r2, w)" by fastforce
  then have "I w" using keeps_pair [OF rollback Iu] by blast
  moreover have "I t" using t keeps_pair [OF begins s] by blast
  ultimately show "I (snd (scope body s))"
    using t u w Iu by (cases r1; cases r2) (auto simp: scope_def Let_def)
qed

lemmas keeps_tx = keeps_commit keeps_scope keeps_db

end

lemma keeps_cond: "keeps I m \<Longrightarrow> keeps I k \<Longrightarrow> keeps I (if b then m else k)"
  by simp

lemma keeps_case_list: "keeps I m \<Longrightarrow> (\<And>x xs. keeps I (f x xs)) \<Longrightarrow> keeps I (case l of [] \<Rightarrow> m | x # xs \<Rightarrow> f x xs)"
  by (simp split: list.split)

lemma keeps_case_option: "keeps I m \<Longrightarrow> (\<And>x. keeps I (f x)) \<Longrightarrow> keeps I (case v of None \<Rightarrow> m | Some x \<Rightarrow> f x)"
  by (simp split: option.split)

lemma keeps_case_sum: "(\<And>x. keeps I (f x)) \<Longrightarrow> (\<And>x. keeps I (g x)) \<Longrightarrow> keeps I (case v of Inl x \<Rightarrow> f x | Inr x \<Rightarrow> g x)"
  by (simp split: sum.split)

lemmas keeps_cases = keeps_cond keeps_case_list keeps_case_option keeps_case_sum

text \<open>The integrity of the tables, those a rollback would restore included.\<close>

definition integrity :: "schema \<Rightarrow> sql_env \<Rightarrow> bool" where
  "integrity sch s \<longleftrightarrow> parents_first [] sch \<and> distinct (map fst sch) \<and> db_ok sch (e_db s) \<and>
     (\<forall>db seq. e_saved s = Some (db, seq) \<longrightarrow> db_ok sch db)"

interpretation integ: transactional sch "integrity sch" for sch
proof
  show "keeps (integrity sch) tx_begin"
    by (auto simp: keeps_def integrity_def tx_begin_def Let_def split: option.split)
  show "keeps (integrity sch) tx_unref"
    by (auto simp: keeps_def integrity_def tx_unref_def Let_def split: option.split)
qed (auto simp: integrity_def intro: insert_row_ok delete_rows_ok update_rows_ok)

text \<open>Inside the scope that opened the transaction.\<close>

definition in_tx :: "tables \<times> (string \<Rightarrow> int) \<Rightarrow> bool list \<Rightarrow> sql_env \<Rightarrow> bool" where
  "in_tx snap sc s \<longleftrightarrow> e_saved s = Some snap \<and> e_depth s = 1 \<and> \<not> e_cancel s \<and> e_scopes s = False # sc"

interpretation intx: statements sch "in_tx snap sc" for sch snap sc
  by unfold_locales (auto simp: in_tx_def)

definition opened :: "sql_env \<Rightarrow> sql_env" where
  "opened s = s\<lparr>e_depth := 1, e_cancel := False, e_saved := Some (e_db s, e_seq s), e_scopes := False # e_scopes s\<rparr>"

definition closed :: "bool \<Rightarrow> sql_env \<Rightarrow> sql_env" where
  "closed cancel s = s\<lparr>e_depth := 0, e_cancel := cancel, e_saved := None, e_scopes := tl (e_scopes s)\<rparr>"

lemma opened_in_tx: "in_tx (e_db s, e_seq s) (e_scopes s) (opened s)"
  by (simp add: in_tx_def opened_def)

lemma scope_run:
  assumes "tx_begin s = (Inr (), t)" and "body (t\<lparr>e_scopes := False # e_scopes t\<rparr>) = (r, u)"
  shows "scope body s =
     (let v = u\<lparr>e_scopes := tl (e_scopes u)\<rparr>
      in if hd (e_scopes u) then (r, v)
         else (case tx_rollback v of
                 (Inr _, w) \<Rightarrow> (r, w)
               | (Inl f, w) \<Rightarrow> (Inl (case r of Inl _ \<Rightarrow> Aborted | Inr _ \<Rightarrow> f), w)))"
  using assms by (simp add: scope_def)

text \<open>
  A scope that ends with its commit: what the body did stays when it returns, and none of it when it
  throws.
\<close>

lemma scope_outcome:
  assumes "outside_tx s" and "keeps (in_tx (e_db s, e_seq s) (e_scopes s)) body"
    and "body (opened s) = (r, u)"
  shows "scope (bindP body (\<lambda>x. thenP commit (ret x))) s =
     (case r of
        Inr x \<Rightarrow> (Inr x, closed False u)
      | Inl e \<Rightarrow> (Inl e, (closed True u)\<lparr>e_db := e_db s, e_seq := e_seq s\<rparr>))"
proof -
  have u: "in_tx (e_db s, e_seq s) (e_scopes s) u"
    using keeps_pair [OF assms(2) opened_in_tx assms(3)] .
  have start: "tx_begin s = (Inr (), s\<lparr>e_depth := 1, e_cancel := False, e_saved := Some (e_db s, e_seq s)\<rparr>)"
    using assms(1) by (simp add: tx_begin_def outside_tx_def Let_def)
  show ?thesis
  proof (cases r)
    case (Inl e)
    then show ?thesis
      using assms(3) u
      by (simp add: scope_def start bindP_def Let_def tx_rollback_def tx_unref_def thenP_def modifyP_def
          in_tx_def closed_def opened_def)
  next
    case (Inr x)
    then show ?thesis
      using assms(3) u
      by (simp add: scope_def start bindP_def Let_def commit_def tx_unref_def thenP_def modifyP_def
          in_tx_def closed_def opened_def ret_def)
  qed
qed

end
