(* ===== verification/WrtSchema.thy ===== *)
theory WrtSchema
  imports Orm
begin

text \<open>
  The tables of modules/widget_dao/orm/wrt_db and iana_db, in the order of their declarations, and the
  rows the schema itself inserts.  A column is \<open>required\<close> (\<open>COLUMN_NOT_NULL\<close>), \<open>with_default\<close> (not null with
  a default), \<open>nullable\<close> (\<open>COLUMN\<close>) or \<open>checked\<close>; \<open>sql_table\<close> takes the columns, the row-id column and
  whether it is auto-incremented, the primary and unique keys, and the foreign keys.
\<close>

definition required :: "string \<Rightarrow> column" where
  "required c = \<lparr>col_name = c, col_null = False, col_default = CNull, col_check = None\<rparr>"

definition with_default :: "string \<Rightarrow> sql_cell \<Rightarrow> column" where
  "with_default c d = \<lparr>col_name = c, col_null = False, col_default = d, col_check = None\<rparr>"

definition nullable :: "string \<Rightarrow> sql_cell \<Rightarrow> column" where
  "nullable c d = \<lparr>col_name = c, col_null = True, col_default = d, col_check = None\<rparr>"

definition checked :: "string \<Rightarrow> bool \<Rightarrow> sql_cell \<Rightarrow> int \<Rightarrow> int \<Rightarrow> column" where
  "checked c null d lo hi = \<lparr>col_name = c, col_null = null, col_default = d, col_check = Some (lo, hi)\<rparr>"

definition sql_table :: "column list \<Rightarrow> string option \<Rightarrow> bool \<Rightarrow> string list list \<Rightarrow> foreign_key list \<Rightarrow> table_schema" where
  "sql_table cols rowid auto keys fks =
     \<lparr>ts_columns = cols, ts_rowid = rowid, ts_auto = auto, ts_keys = keys, ts_fks = fks\<rparr>"

lemmas column_defs = required_def with_default_def nullable_def checked_def

definition GlobalProperties_table :: table_schema where
  "GlobalProperties_table = sql_table
     [with_default ''developer_mode'' (CInt 0), with_default ''secure_by_default'' (CInt 1),
      with_default ''home_network_data_usage'' (CInt 1),
      with_default ''roaming_data_usage'' (CInt 1), with_default ''compliance_mode'' (CInt 0),
      with_default ''compliance_fake_imei'' (CText []),
      with_default ''compliance_fake_meid'' (CText []),
      with_default ''cookie_sharing_mode'' (CInt 0)]
     None False
     []
     []"

definition WidgetInfo_table :: table_schema where
  "WidgetInfo_table = sql_table
     [required ''app_id'', nullable ''widget_type'' (CInt 1), nullable ''widget_id'' (CText []),
      nullable ''widget_version'' (CText []), nullable ''widget_width'' (CInt 0),
      nullable ''widget_height'' (CInt 0), nullable ''author_name'' (CText []),
      nullable ''author_email'' (CText []), nullable ''author_href'' (CText []),
      nullable ''base_folder'' (CText []), nullable ''webkit_plugins_required'' (CInt 0),
      nullable ''security_domain'' (CInt 0), nullable ''recognized'' (CInt 0),
      nullable ''wac_signed'' (CInt 0), nullable ''distributor_signed'' (CInt 0),
      nullable ''min_version'' (CText (W ''1.0'')), with_default ''back_supported'' (CInt 0),
      nullable ''access_network'' (CInt 0), nullable ''defaultlocale'' (CText (W ''0'')),
      nullable ''pkgname'' (CText (W ''0'')), nullable ''pkg_type'' (CInt 0)]
     (Some ''app_id'') False
     [[''app_id'']]
     []"

definition WidgetCertificate_table :: table_schema where
  "WidgetCertificate_table = sql_table
     [required ''app_id'', required ''encoded_chain'']
     None False
     []
     [(''app_id'', ''WidgetInfo'', ''app_id'')]"

definition WidgetWindowModes_table :: table_schema where
  "WidgetWindowModes_table = sql_table
     [required ''app_id'', required ''window_mode'']
     None False
     []
     [(''app_id'', ''WidgetInfo'', ''app_id'')]"

definition LocalizedWidgetInfo_table :: table_schema where
  "LocalizedWidgetInfo_table = sql_table
     [required ''app_id'', required ''widget_locale'', nullable ''widget_name'' CNull,
      nullable ''widget_shortname'' CNull, nullable ''widget_description'' CNull,
      nullable ''widget_license'' CNull, nullable ''widget_license_file'' CNull,
      nullable ''widget_license_href'' CNull]
     None False
     [[''app_id'', ''widget_locale'']]
     [(''app_id'', ''WidgetInfo'', ''app_id'')]"

definition WidgetExtendedInfo_table :: table_schema where
  "WidgetExtendedInfo_table = sql_table
     [required ''app_id'', nullable ''last_update_time'' (CInt 0),
      nullable ''install_time'' (CInt 0), nullable ''option_state'' (CInt 0),
      nullable ''share_href'' (CText []), nullable ''signature_type'' (CInt 0),
      nullable ''factory_widget'' (CInt 0), nullable ''updated'' (CInt 0),
      nullable ''update_policy'' (CInt 0), checked ''test_widget'' False (CInt 0) 0 1,
      nullable ''splash_img_src'' (CText [])]
     (Some ''app_id'') False
     [[''app_id'']]
     [(''app_id'', ''WidgetInfo'', ''app_id'')]"

definition WidgetPreference_table :: table_schema where
  "WidgetPreference_table = sql_table
     [required ''app_id'', required ''key_name'', nullable ''key_value'' (CText []),
      nullable ''readonly'' (CInt 0)]
     None False
     [[''app_id'', ''key_name'']]
     [(''app_id'', ''WidgetInfo'', ''app_id'')]"

definition WidgetFeature_table :: table_schema where
  "WidgetFeature_table = sql_table
     [required ''widget_feature_id'', required ''app_id'', required ''name'',
      required ''required'', required ''rejected'']
     (Some ''widget_feature_id'') True
     [[''widget_feature_id'']]
     [(''app_id'', ''WidgetInfo'', ''app_id'')]"

definition FeatureParam_table :: table_schema where
  "FeatureParam_table = sql_table
     [required ''widget_feature_id'', required ''name'', required ''value'']
     None False
     []
     [(''widget_feature_id'', ''WidgetFeature'', ''widget_feature_id'')]"

definition WidgetIcon_table :: table_schema where
  "WidgetIcon_table = sql_table
     [required ''icon_id'', required ''app_id'', required ''icon_src'',
      nullable ''icon_width'' (CInt 0), nullable ''icon_height'' (CInt 0)]
     (Some ''icon_id'') True
     [[''icon_id'']]
     [(''app_id'', ''WidgetInfo'', ''app_id'')]"

definition WidgetLocalizedIcon_table :: table_schema where
  "WidgetLocalizedIcon_table = sql_table
     [required ''app_id'', required ''icon_id'', required ''widget_locale'']
     None False
     [[''icon_id'', ''widget_locale'']]
     [(''icon_id'', ''WidgetIcon'', ''icon_id'')]"

definition WidgetStartFile_table :: table_schema where
  "WidgetStartFile_table = sql_table
     [required ''start_file_id'', required ''app_id'', required ''src'']
     (Some ''start_file_id'') True
     [[''start_file_id'']]
     [(''app_id'', ''WidgetInfo'', ''app_id'')]"

definition WidgetLocalizedStartFile_table :: table_schema where
  "WidgetLocalizedStartFile_table = sql_table
     [required ''app_id'', required ''start_file_id'', required ''widget_locale'',
      required ''type'', required ''encoding'']
     None False
     [[''start_file_id'', ''widget_locale'']]
     [(''start_file_id'', ''WidgetStartFile'', ''start_file_id'')]"

definition WidgetAccessHost_table :: table_schema where
  "WidgetAccessHost_table = sql_table
     [required ''app_id'', required ''host'']
     None False
     [[''app_id'', ''host'']]
     [(''app_id'', ''WidgetInfo'', ''app_id'')]"

definition WidgetCertificateFingerprint_table :: table_schema where
  "WidgetCertificateFingerprint_table = sql_table
     [required ''app_id'', required ''owner'', required ''chainid'', required ''type'',
      nullable ''md5_fingerprint'' CNull, nullable ''sha1_fingerprint'' CNull,
      nullable ''common_name'' CNull]
     None False
     [[''app_id'', ''chainid'', ''owner'', ''type'']]
     [(''app_id'', ''WidgetInfo'', ''app_id'')]"

definition WidgetWARPInfo_table :: table_schema where
  "WidgetWARPInfo_table = sql_table
     [required ''app_id'', required ''iri'', checked ''subdomain_access'' True (CNull) 0 1]
     None False
     [[''app_id'', ''iri'']]
     [(''app_id'', ''WidgetInfo'', ''app_id'')]"

definition FeaturesList_table :: table_schema where
  "FeaturesList_table = sql_table
     [required ''FeatureUUID'', required ''FeatureName'', required ''PluginPropertiesId'']
     (Some ''FeatureUUID'') True
     [[''FeatureUUID''], [''FeatureName'']]
     []"

definition PluginProperties_table :: table_schema where
  "PluginProperties_table = sql_table
     [required ''PluginPropertiesId'', with_default ''InstallationState'' (CInt 0),
      required ''PluginLibraryName'', nullable ''PluginLibraryPath'' CNull]
     (Some ''PluginPropertiesId'') True
     [[''PluginPropertiesId''], [''PluginLibraryName'']]
     []"

definition PluginDependencies_table :: table_schema where
  "PluginDependencies_table = sql_table
     [required ''PluginPropertiesId'', required ''RequiredPluginPropertiesId'']
     None False
     []
     []"

definition PluginImplementedObjects_table :: table_schema where
  "PluginImplementedObjects_table = sql_table
     [required ''PluginObject'', required ''PluginPropertiesId'']
     None False
     [[''PluginObject'']]
     []"

definition PluginRequiredObjects_table :: table_schema where
  "PluginRequiredObjects_table = sql_table
     [required ''PluginPropertiesId'', required ''PluginObject'']
     None False
     []
     []"

definition DeviceCapabilities_table :: table_schema where
  "DeviceCapabilities_table = sql_table
     [required ''DeviceCapID'', required ''DeviceCapName'',
      nullable ''DeviceCapDefaultValue'' CNull]
     (Some ''DeviceCapID'') True
     [[''DeviceCapID''], [''DeviceCapName'']]
     []"

definition FeatureDeviceCapProxy_table :: table_schema where
  "FeatureDeviceCapProxy_table = sql_table
     [required ''FeatureUUID'', required ''DeviceCapID'']
     None False
     [[''FeatureUUID'', ''DeviceCapID'']]
     []"

definition OCSPResponseStorage_table :: table_schema where
  "OCSPResponseStorage_table = sql_table
     [required ''cert_chain'', nullable ''end_entity_check'' CNull,
      nullable ''ocsp_status'' CNull, nullable ''next_update_time'' CNull]
     None False
     [[''cert_chain'']]
     []"

definition CRLResponseStorage_table :: table_schema where
  "CRLResponseStorage_table = sql_table
     [required ''distribution_point'', required ''crl_body'', nullable ''next_update_time'' CNull]
     None False
     [[''distribution_point'']]
     []"

definition SettginsList_table :: table_schema where
  "SettginsList_table = sql_table
     [required ''appId'', required ''settingName'', required ''settingValue'']
     None False
     []
     [(''appId'', ''WidgetInfo'', ''app_id'')]"

definition ApplicationServiceInfo_table :: table_schema where
  "ApplicationServiceInfo_table = sql_table
     [required ''app_id'', required ''src'', required ''operation'', required ''scheme'',
      required ''mime'']
     None False
     [[''app_id'', ''operation'', ''scheme'', ''mime'']]
     [(''app_id'', ''WidgetInfo'', ''app_id'')]"

definition WidgetWhiteURIList_table :: table_schema where
  "WidgetWhiteURIList_table = sql_table
     [required ''uri'', checked ''subdomain_access'' False (CNull) 0 1]
     None False
     [[''uri'']]
     []"

definition EncryptedResourceList_table :: table_schema where
  "EncryptedResourceList_table = sql_table
     [required ''app_id'', required ''resource'', required ''size'']
     None False
     []
     [(''app_id'', ''WidgetInfo'', ''app_id'')]"

definition UserAgents_table :: table_schema where
  "UserAgents_table = sql_table
     [required ''key_name'', nullable ''key_value'' (CText [])]
     None False
     [[''key_name'']]
     []"

definition iana_records_table :: table_schema where
  "iana_records_table = sql_table
     [required ''REC_ID'', required ''TYPE'', nullable ''TAG'' CNull, nullable ''SUBTAG'' CNull,
      nullable ''DESCRIPTION'' CNull, nullable ''ADDED'' CNull, nullable ''DEPRECATED'' CNull,
      nullable ''PREFERRED_VALUE'' CNull, nullable ''PREFIX'' CNull,
      nullable ''SUPPRESS_SCRIPT'' CNull, nullable ''MACRO_LANGUAGE'' CNull,
      nullable ''SCOPE'' CNull, nullable ''COMMENTS'' CNull]
     None False
     []
     []"

definition wrt_schema :: schema where
  "wrt_schema =
     [(''GlobalProperties'', GlobalProperties_table),
      (''WidgetInfo'', WidgetInfo_table),
      (''WidgetCertificate'', WidgetCertificate_table),
      (''WidgetWindowModes'', WidgetWindowModes_table),
      (''LocalizedWidgetInfo'', LocalizedWidgetInfo_table),
      (''WidgetExtendedInfo'', WidgetExtendedInfo_table),
      (''WidgetPreference'', WidgetPreference_table),
      (''WidgetFeature'', WidgetFeature_table),
      (''FeatureParam'', FeatureParam_table),
      (''WidgetIcon'', WidgetIcon_table),
      (''WidgetLocalizedIcon'', WidgetLocalizedIcon_table),
      (''WidgetStartFile'', WidgetStartFile_table),
      (''WidgetLocalizedStartFile'', WidgetLocalizedStartFile_table),
      (''WidgetAccessHost'', WidgetAccessHost_table),
      (''WidgetCertificateFingerprint'', WidgetCertificateFingerprint_table),
      (''WidgetWARPInfo'', WidgetWARPInfo_table),
      (''FeaturesList'', FeaturesList_table),
      (''PluginProperties'', PluginProperties_table),
      (''PluginDependencies'', PluginDependencies_table),
      (''PluginImplementedObjects'', PluginImplementedObjects_table),
      (''PluginRequiredObjects'', PluginRequiredObjects_table),
      (''DeviceCapabilities'', DeviceCapabilities_table),
      (''FeatureDeviceCapProxy'', FeatureDeviceCapProxy_table),
      (''OCSPResponseStorage'', OCSPResponseStorage_table),
      (''CRLResponseStorage'', CRLResponseStorage_table),
      (''SettginsList'', SettginsList_table),
      (''ApplicationServiceInfo'', ApplicationServiceInfo_table),
      (''WidgetWhiteURIList'', WidgetWhiteURIList_table),
      (''EncryptedResourceList'', EncryptedResourceList_table),
      (''UserAgents'', UserAgents_table),
      (''iana_records'', iana_records_table)]"


lemmas table_defs = GlobalProperties_table_def
  WidgetInfo_table_def
  WidgetCertificate_table_def
  WidgetWindowModes_table_def LocalizedWidgetInfo_table_def
  WidgetExtendedInfo_table_def
  WidgetPreference_table_def
  WidgetFeature_table_def FeatureParam_table_def
  WidgetIcon_table_def
  WidgetLocalizedIcon_table_def
  WidgetStartFile_table_def
  WidgetLocalizedStartFile_table_def
  WidgetAccessHost_table_def
  WidgetCertificateFingerprint_table_def
  WidgetWARPInfo_table_def FeaturesList_table_def
  PluginProperties_table_def
  PluginDependencies_table_def
  PluginImplementedObjects_table_def
  PluginRequiredObjects_table_def DeviceCapabilities_table_def FeatureDeviceCapProxy_table_def OCSPResponseStorage_table_def CRLResponseStorage_table_def SettginsList_table_def ApplicationServiceInfo_table_def
  WidgetWhiteURIList_table_def EncryptedResourceList_table_def UserAgents_table_def iana_records_table_def

lemma wrt_schema_ok: "parents_first [] wrt_schema" "distinct (map fst wrt_schema)"
  by (simp_all add: wrt_schema_def table_defs sql_table_def)

lemma table_of:
  "map_of wrt_schema ''GlobalProperties'' = Some GlobalProperties_table"
  "map_of wrt_schema ''WidgetInfo'' = Some WidgetInfo_table"
  "map_of wrt_schema ''WidgetCertificate'' = Some WidgetCertificate_table"
  "map_of wrt_schema ''WidgetWindowModes'' = Some WidgetWindowModes_table"
  "map_of wrt_schema ''LocalizedWidgetInfo'' = Some LocalizedWidgetInfo_table"
  "map_of wrt_schema ''WidgetExtendedInfo'' = Some WidgetExtendedInfo_table"
  "map_of wrt_schema ''WidgetPreference'' = Some WidgetPreference_table"
  "map_of wrt_schema ''WidgetFeature'' = Some WidgetFeature_table"
  "map_of wrt_schema ''FeatureParam'' = Some FeatureParam_table"
  "map_of wrt_schema ''WidgetIcon'' = Some WidgetIcon_table"
  "map_of wrt_schema ''WidgetLocalizedIcon'' = Some WidgetLocalizedIcon_table"
  "map_of wrt_schema ''WidgetStartFile'' = Some WidgetStartFile_table"
  "map_of wrt_schema ''WidgetLocalizedStartFile'' = Some WidgetLocalizedStartFile_table"
  "map_of wrt_schema ''WidgetAccessHost'' = Some WidgetAccessHost_table"
  "map_of wrt_schema ''WidgetCertificateFingerprint'' = Some WidgetCertificateFingerprint_table"
  "map_of wrt_schema ''WidgetWARPInfo'' = Some WidgetWARPInfo_table"
  "map_of wrt_schema ''FeaturesList'' = Some FeaturesList_table"
  "map_of wrt_schema ''PluginProperties'' = Some PluginProperties_table"
  "map_of wrt_schema ''PluginDependencies'' = Some PluginDependencies_table"
  "map_of wrt_schema ''PluginImplementedObjects'' = Some PluginImplementedObjects_table"
  "map_of wrt_schema ''PluginRequiredObjects'' = Some PluginRequiredObjects_table"
  "map_of wrt_schema ''DeviceCapabilities'' = Some DeviceCapabilities_table"
  "map_of wrt_schema ''FeatureDeviceCapProxy'' = Some FeatureDeviceCapProxy_table"
  "map_of wrt_schema ''OCSPResponseStorage'' = Some OCSPResponseStorage_table"
  "map_of wrt_schema ''CRLResponseStorage'' = Some CRLResponseStorage_table"
  "map_of wrt_schema ''SettginsList'' = Some SettginsList_table"
  "map_of wrt_schema ''ApplicationServiceInfo'' = Some ApplicationServiceInfo_table"
  "map_of wrt_schema ''WidgetWhiteURIList'' = Some WidgetWhiteURIList_table"
  "map_of wrt_schema ''EncryptedResourceList'' = Some EncryptedResourceList_table"
  "map_of wrt_schema ''UserAgents'' = Some UserAgents_table"
  "map_of wrt_schema ''iana_records'' = Some iana_records_table"
  by (simp_all add: wrt_schema_def)

text \<open>The rows of the schema; the strings of the user agents are not modelled.\<close>

definition insert_all :: "schema \<Rightarrow> string \<Rightarrow> row list \<Rightarrow> tables \<Rightarrow> tables" where
  "insert_all sch t cvs db = foldl (\<lambda>d cv.
     case insert_row sch t cv (d, \<lambda>_. 0) of Some (_, d', _) \<Rightarrow> d' | None \<Rightarrow> d) db cvs"

definition wrt_initial :: "(wstr \<times> wstr) list \<Rightarrow> tables" where
  "wrt_initial agents =
     insert_all wrt_schema ''UserAgents'' (map (\<lambda>(k, v). [(''key_name'', CText k), (''key_value'', CText v)]) agents)
      (insert_all wrt_schema ''WidgetWhiteURIList''
        (map (\<lambda>u. [(''uri'', CText (W u)), (''subdomain_access'', CInt 1)])
          [''http://samsung.com'', ''http://orange.fr'', ''http://orange.co.uk''])
        (insert_all wrt_schema ''GlobalProperties'' [[]] (\<lambda>_. [])))"

lemma insert_all_ok: "db_ok sch db \<Longrightarrow> distinct (map fst sch) \<Longrightarrow> db_ok sch (insert_all sch t cvs db)"
proof (induction cvs arbitrary: db)
  case Nil
  then show ?case by (simp add: insert_all_def)
next
  case (Cons cv cvs)
  have "db_ok sch (case insert_row sch t cv (db, \<lambda>_. 0) of Some (_, d', _) \<Rightarrow> d' | None \<Rightarrow> db)"
    using Cons.prems by (auto split: option.split intro: insert_row_ok)
  then show ?case using Cons by (simp add: insert_all_def)
qed

lemma wrt_initial_ok: "db_ok wrt_schema (wrt_initial agents)"
  unfolding wrt_initial_def
  by (intro insert_all_ok wrt_schema_ok) (simp add: db_ok_def case_prod_unfold)

text \<open>A thread that has just attached to the fresh database.\<close>

definition wrt_fresh :: sql_env where
  "wrt_fresh = \<lparr>e_db = wrt_initial [], e_seq = \<lambda>_. 0, e_busy = \<lambda>_. False, e_io = [], e_scan = \<lambda>rs. rs,
     e_depth = 0, e_cancel = False, e_saved = None, e_scopes = []\<rparr>"

lemma wrt_fresh_state: "idle wrt_fresh" "outside_tx wrt_fresh" "fair_scan wrt_fresh" "integrity wrt_schema wrt_fresh"
  by (simp_all add: wrt_fresh_def idle_def outside_tx_def fair_scan_def integrity_def wrt_schema_ok wrt_initial_ok)

text \<open>What a \<open>DELETE\<close> dooms, table by table.\<close>

lemma doomed_unfold:
  assumes "parents_first seen sch" and "(n, sc) \<in> set sch" and "\<And>x q. x \<notin> set seen \<Longrightarrow> \<not> d x q"
  shows "doomed sch t p db d n r \<longleftrightarrow> n = t \<and> p r \<or>
     list_ex (\<lambda>(c, pt, pc). get r c \<noteq> CNull \<and>
       list_ex (\<lambda>q. doomed sch t p db d pt q \<and> get q pc = get r c) (db pt)) (ts_fks sc)"
  using assms
proof (induction sch arbitrary: seen d)
  case Nil
  then show ?case by simp
next
  case (Cons a sch)
  obtain m sm where a: "a = (m, sm)" by (cases a)
  have first: "m \<notin> set seen" "parents_first (m # seen) sch" and fks: "list_all (\<lambda>(c, pt, pc). pt \<in> set seen) (ts_fks sm)"
    using Cons.prems(1) by (simp_all add: a)
  define d' where "d' = d(m := \<lambda>r. m = t \<and> p r \<or>
       list_ex (\<lambda>(c, pt, pc). get r c \<noteq> CNull \<and> list_ex (\<lambda>q. d pt q \<and> get q pc = get r c) (db pt)) (ts_fks sm))"
  have step: "doomed (a # sch) t p db d = doomed sch t p db d'" by (simp add: a d'_def)
  show ?case
  proof (cases "(n, sc) = a")
    case True
    have fixed: "doomed sch t p db d' x = d' x" if "x \<in> set (m # seen)" for x
      using parents_fresh [OF first(2) that] by (rule doomed_other)
    have old: "doomed sch t p db d' x = d x" if "x \<in> set seen" for x
      using fixed [of x] that first(1) by (auto simp: d'_def)
    have "list_ex (\<lambda>(c, pt, pc). get r c \<noteq> CNull \<and> list_ex (\<lambda>q. d pt q \<and> get q pc = get r c) (db pt)) (ts_fks sm) =
       list_ex (\<lambda>(c, pt, pc). get r c \<noteq> CNull \<and> list_ex (\<lambda>q. doomed sch t p db d' pt q \<and> get q pc = get r c) (db pt)) (ts_fks sm)"
      using fks old by (intro list_ex_cong refl) (auto simp: list_all_iff split: prod.splits)
    then show ?thesis
      using True unfolding step by (simp add: fixed a) (simp add: d'_def)
  next
    case False
    then have n: "(n, sc) \<in> set sch" using Cons.prems(2) a by auto
    have "\<And>x q. x \<notin> set (m # seen) \<Longrightarrow> \<not> d' x q" using Cons.prems(3) by (auto simp: d'_def)
    from Cons.IH [OF first(2) n this] show ?thesis unfolding step .
  qed
qed

end
