(* ===== verification/ConfigData.thy ===== *)
theory ConfigData
  imports StringTools
begin

text \<open>
  The parsed configuration of a widget and the text normalisation of its parser
  (modules/widget_dao/include/dpl/wrt-dao-ro/config_parser_data.h, dao/config_parser_data.cpp).
  A \<open>std::set\<close>, \<open>std::map\<close> or \<open>std::list\<close> is the list of its elements in iteration order.
\<close>

section \<open>Text comparison\<close>

fun lex_less :: "('a \<Rightarrow> 'a \<Rightarrow> bool) \<Rightarrow> 'a list \<Rightarrow> 'a list \<Rightarrow> bool" where
  "lex_less lt xs [] = False"
| "lex_less lt [] (y # ys) = True"
| "lex_less lt (x # xs) (y # ys) = (lt x y \<or> \<not> lt y x \<and> lex_less lt xs ys)"

definition wless :: "wstr \<Rightarrow> wstr \<Rightarrow> bool" where
  "wless = lex_less (<)"

section \<open>The records\<close>

record cd_param =
  pa_name :: wstr
  pa_value :: wstr

record cd_feature =
  fe_name :: wstr
  fe_required :: bool
  fe_params :: "cd_param list"

record cd_icon =
  ic_src :: wstr
  ic_width :: "int option"
  ic_height :: "int option"

record localized_data =
  ld_name :: "wstr option"
  ld_shortName :: "wstr option"
  ld_description :: "wstr option"
  ld_license :: "wstr option"
  ld_licenseFile :: "wstr option"
  ld_licenseHref :: "wstr option"

record cd_preference =
  pr_name :: wstr
  pr_value :: "wstr option"
  pr_readonly :: bool

record cd_access =
  ac_iri :: wstr
  ac_subdomains :: bool

record cd_setting =
  se_name :: wstr
  se_value :: wstr

record cd_service =
  sv_src :: wstr
  sv_operation :: wstr
  sv_scheme :: wstr
  sv_mime :: wstr

record config_data =
  cd_nameSpaces :: "wstr list"
  cd_localizedDataSet :: "(wstr \<times> localized_data) list"
  cd_authorName :: "wstr option"
  cd_authorHref :: "wstr option"
  cd_authorEmail :: "wstr option"
  cd_featuresList :: "cd_feature list"
  cd_settingsList :: "cd_setting list"
  cd_width :: "int option"
  cd_height :: "int option"
  cd_widget_id :: "wstr option"
  cd_defaultlocale :: "wstr option"
  cd_preferencesList :: "cd_preference list"
  cd_version :: "wstr option"
  cd_windowModes :: "wstr list"
  cd_accessInfoSet :: "cd_access list"
  cd_flashNeeded :: bool
  cd_minVersionRequired :: "wstr option"
  cd_powderDescriptionLinks :: "wstr list"
  cd_backSupported :: bool
  cd_accessNetwork :: bool
  cd_startFileEncountered :: bool
  cd_startFile :: "wstr option"
  cd_startFileEncoding :: "wstr option"
  cd_startFileContentType :: "wstr option"
  cd_iconsList :: "cd_icon list"
  cd_tizenId :: "wstr option"
  cd_tizenMinVersionRequired :: "wstr option"
  cd_appServiceList :: "cd_service list"
  cd_dependsPkgList :: "wstr option list"
  cd_splashImgSrc :: "wstr option"

definition new_config :: config_data where
  "new_config = \<lparr>cd_nameSpaces = [], cd_localizedDataSet = [], cd_authorName = None, cd_authorHref = None,
     cd_authorEmail = None, cd_featuresList = [], cd_settingsList = [], cd_width = None, cd_height = None,
     cd_widget_id = None, cd_defaultlocale = None, cd_preferencesList = [], cd_version = None,
     cd_windowModes = [], cd_accessInfoSet = [], cd_flashNeeded = False, cd_minVersionRequired = None,
     cd_powderDescriptionLinks = [], cd_backSupported = False, cd_accessNetwork = False,
     cd_startFileEncountered = False, cd_startFile = None, cd_startFileEncoding = None,
     cd_startFileContentType = None, cd_iconsList = [], cd_tizenId = None,
     cd_tizenMinVersionRequired = None, cd_appServiceList = [], cd_dependsPkgList = [],
     cd_splashImgSrc = None\<rparr>"

section \<open>The comparison operators\<close>

definition param_eq :: "cd_param \<Rightarrow> cd_param \<Rightarrow> bool" where
  "param_eq a b \<longleftrightarrow> pa_name a = pa_name b \<and> pa_value a = pa_value b"

definition param_ne :: "cd_param \<Rightarrow> cd_param \<Rightarrow> bool" where
  "param_ne a b \<longleftrightarrow> pa_name a \<noteq> pa_name b \<or> pa_value a \<noteq> pa_value b"

definition param_gt :: "cd_param \<Rightarrow> cd_param \<Rightarrow> bool" where
  "param_gt a b = (if pa_name a = pa_name b then wless (pa_value b) (pa_value a) else wless (pa_name b) (pa_name a))"

definition param_ge :: "cd_param \<Rightarrow> cd_param \<Rightarrow> bool" where
  "param_ge a b = (if \<not> wless (pa_name a) (pa_name b) then True else \<not> wless (pa_value a) (pa_value b))"

definition param_less :: "cd_param \<Rightarrow> cd_param \<Rightarrow> bool" where
  "param_less a b = (if pa_name a = pa_name b then wless (pa_value a) (pa_value b) else wless (pa_name a) (pa_name b))"

definition param_le :: "cd_param \<Rightarrow> cd_param \<Rightarrow> bool" where
  "param_le a b = (if \<not> wless (pa_name b) (pa_name a) then True else \<not> wless (pa_value b) (pa_value a))"

definition feature_eq :: "cd_feature \<Rightarrow> cd_feature \<Rightarrow> bool" where
  "feature_eq a b \<longleftrightarrow> fe_name a = fe_name b \<and> list_all2 param_eq (fe_params a) (fe_params b)"

definition feature_ne :: "cd_feature \<Rightarrow> cd_feature \<Rightarrow> bool" where
  "feature_ne a b \<longleftrightarrow> fe_name a \<noteq> fe_name b \<or> \<not> list_all2 param_eq (fe_params a) (fe_params b)"

definition feature_gt :: "cd_feature \<Rightarrow> cd_feature \<Rightarrow> bool" where
  "feature_gt a b = (if wless (fe_name b) (fe_name a) then True
     else if wless (fe_name a) (fe_name b) then False else lex_less param_less (fe_params b) (fe_params a))"

definition feature_ge :: "cd_feature \<Rightarrow> cd_feature \<Rightarrow> bool" where
  "feature_ge a b = (if wless (fe_name b) (fe_name a) then True
     else if wless (fe_name a) (fe_name b) then False else \<not> lex_less param_less (fe_params a) (fe_params b))"

definition feature_less :: "cd_feature \<Rightarrow> cd_feature \<Rightarrow> bool" where
  "feature_less a b = (if wless (fe_name a) (fe_name b) then True
     else if wless (fe_name b) (fe_name a) then False else lex_less param_less (fe_params a) (fe_params b))"

definition feature_le :: "cd_feature \<Rightarrow> cd_feature \<Rightarrow> bool" where
  "feature_le a b = (if wless (fe_name a) (fe_name b) then True
     else if wless (fe_name b) (fe_name a) then False else \<not> lex_less param_less (fe_params b) (fe_params a))"

definition icon_less :: "cd_icon \<Rightarrow> cd_icon \<Rightarrow> bool" where
  "icon_less a b = wless (ic_src a) (ic_src b)"

definition icon_eq :: "cd_icon \<Rightarrow> cd_icon \<Rightarrow> bool" where
  "icon_eq a b \<longleftrightarrow> ic_src a = ic_src b"

definition preference_less :: "cd_preference \<Rightarrow> cd_preference \<Rightarrow> bool" where
  "preference_less a b = wless (pr_name a) (pr_name b)"

definition preference_eq :: "cd_preference \<Rightarrow> cd_preference \<Rightarrow> bool" where
  "preference_eq a b \<longleftrightarrow> pr_name a = pr_name b"

definition access_eq :: "cd_access \<Rightarrow> cd_access \<Rightarrow> bool" where
  "access_eq a b \<longleftrightarrow> ac_iri a = ac_iri b \<and> ac_subdomains a = ac_subdomains b"

definition access_ne :: "cd_access \<Rightarrow> cd_access \<Rightarrow> bool" where
  "access_ne a b \<longleftrightarrow> ac_iri a \<noteq> ac_iri b \<or> ac_subdomains a \<noteq> ac_subdomains b"

definition access_less :: "cd_access \<Rightarrow> cd_access \<Rightarrow> bool" where
  "access_less a b = (if ac_iri a = ac_iri b then \<not> ac_subdomains a \<and> ac_subdomains b
     else wless (ac_iri a) (ac_iri b))"

definition setting_eq :: "cd_setting \<Rightarrow> cd_setting \<Rightarrow> bool" where
  "setting_eq a b \<longleftrightarrow> se_name a = se_name b \<and> se_value a = se_value b"

definition setting_less :: "cd_setting \<Rightarrow> cd_setting \<Rightarrow> bool" where
  "setting_less a b = wless (se_name a) (se_name b)"

definition service_eq :: "cd_service \<Rightarrow> cd_service \<Rightarrow> bool" where
  "service_eq a b \<longleftrightarrow> sv_src a = sv_src b \<and> sv_operation a = sv_operation b \<and>
     sv_scheme a = sv_scheme b \<and> sv_mime a = sv_mime b"

definition service_ne :: "cd_service \<Rightarrow> cd_service \<Rightarrow> bool" where
  "service_ne a b \<longleftrightarrow> sv_src a \<noteq> sv_src b \<and> sv_operation a \<noteq> sv_operation b \<and>
     sv_scheme a \<noteq> sv_scheme b \<and> sv_mime a \<noteq> sv_mime b"

text \<open>Inserting into a \<open>std::set\<close>: an element equivalent to one that is there is dropped.\<close>

fun set_insert :: "('a \<Rightarrow> 'a \<Rightarrow> bool) \<Rightarrow> 'a \<Rightarrow> 'a list \<Rightarrow> 'a list" where
  "set_insert lt x [] = [x]"
| "set_insert lt x (y # ys) =
     (if lt x y then x # y # ys else if lt y x then y # set_insert lt x ys else y # ys)"

section \<open>White space\<close>

text \<open>
  A character is the list of its UTF-8 bytes; \<open>xmlUTF8Size\<close> is their number.  The cases fall through
  where the source does.
\<close>

definition is_space :: "nat list \<Rightarrow> bool" where
  "is_space ch =
     (case ch of
        [c] \<Rightarrow> c \<in> {0x09, 0x0a, 0x0b, 0x0c, 0x0d, 0x20}
      | [_, c2] \<Rightarrow> c2 \<in> {0x85, 0xa0}
      | [c1, c2, c3] \<Rightarrow>
          (if c1 = 0xe1 then c2 = 0x9a \<and> c3 = 0x80 \<or> c2 = 0xa0 \<and> c3 = 0x8e
           else if c1 = 0xe2
           then (if c2 = 0x80 \<and> c3 \<in> {0x80, 0x81, 0x82, 0x83, 0x84, 0x85, 0x86, 0x87, 0x88, 0x89, 0x8a, 0xa8, 0xa9, 0xaf}
                 then True
                 else if c2 = 0x80 \<or> c2 = 0x81 then c3 = 0x9f else False)
           else if c1 = 0xe3 then c2 = 0x80 \<and> c3 = 0x80 else False)
      | _ \<Rightarrow> False)"

text \<open>\<open>CopyChar\<close>: the bytes written, or nothing for a length it does not know.\<close>

definition copy_char :: "nat list \<Rightarrow> nat list \<Rightarrow> nat list \<times> bool" where
  "copy_char out ch = (if length ch \<in> {1, 2, 3, 4, 5, 6} then (ch @ drop (length ch) out, True) else (out, False))"

text \<open>
  \<open>NormalizeString\<close> on a text of valid UTF-8, as the list of its characters: the first loop skips
  white space, the second copies with a single space before a character that follows white space.
\<close>

fun skip_spaces :: "nat list list \<Rightarrow> nat list list" where
  "skip_spaces [] = []"
| "skip_spaces (c # cs) = (if is_space c then skip_spaces cs else c # cs)"

fun copy_words :: "bool \<Rightarrow> nat list list \<Rightarrow> nat list list" where
  "copy_words first [] = []"
| "copy_words first (c # cs) =
     (if is_space c then copy_words True cs
      else if c = [0] then []
      else (if first then [[0x20]] else []) @ c # copy_words False cs)"

definition normalize_string :: "bool \<Rightarrow> nat list list \<Rightarrow> nat list list" where
  "normalize_string valid txt = (if \<not> valid then txt else copy_words False (skip_spaces txt))"

definition normalize_optional :: "bool \<Rightarrow> nat list list option \<Rightarrow> nat list list option" where
  "normalize_optional valid txt = map_option (normalize_string valid) txt"

section \<open>Facts\<close>

lemma lex_less_irrefl: "(\<And>x. \<not> lt x x) \<Longrightarrow> \<not> lex_less lt xs xs"
  by (induction xs) auto

lemma lex_less_trans:
  assumes tr: "\<And>x y z. lt x y \<Longrightarrow> lt y z \<Longrightarrow> lt x z"
    and eq: "\<And>x y. \<not> lt x y \<Longrightarrow> \<not> lt y x \<Longrightarrow> x = y"
  shows "lex_less lt xs ys \<Longrightarrow> lex_less lt ys zs \<Longrightarrow> lex_less lt xs zs"
proof (induction xs arbitrary: ys zs)
  case Nil
  then show ?case by (cases ys; cases zs) auto
next
  case (Cons x xs)
  obtain y ys' z zs' where yz: "ys = y # ys'" "zs = z # zs'"
    using Cons.prems by (cases ys; cases zs) auto
  show ?case
    using Cons.prems Cons.IH [of ys' zs'] unfolding yz lex_less.simps by (metis tr eq)
qed

lemma lex_less_total:
  assumes "\<And>x y. \<not> lt x y \<Longrightarrow> \<not> lt y x \<Longrightarrow> x = y"
  shows "\<not> lex_less lt xs ys \<Longrightarrow> \<not> lex_less lt ys xs \<Longrightarrow> xs = ys"
proof (induction xs arbitrary: ys)
  case Nil
  then show ?case by (cases ys) auto
next
  case (Cons x xs)
  then show ?case using assms by (cases ys) auto
qed

text \<open>The order a \<open>std::set\<close> needs, with its equivalence the identity.\<close>

locale strict_order =
  fixes lt :: "'a \<Rightarrow> 'a \<Rightarrow> bool"
  assumes irrefl: "\<not> lt x x"
    and trans: "lt x y \<Longrightarrow> lt y z \<Longrightarrow> lt x z"
    and total: "\<not> lt x y \<Longrightarrow> \<not> lt y x \<Longrightarrow> x = y"
begin

lemma asym: "lt x y \<Longrightarrow> \<not> lt y x"
  using irrefl trans by blast

lemma equal_iff: "x = y \<longleftrightarrow> \<not> lt x y \<and> \<not> lt y x"
  using irrefl total by blast

lemma set_insert_set: "set (set_insert lt x xs) = insert x (set xs)"
  by (induction xs) (auto dest: total)

lemma set_insert_sorted: "sorted_wrt lt xs \<Longrightarrow> sorted_wrt lt (set_insert lt x xs)"
proof (induction xs)
  case Nil
  then show ?case by simp
next
  case (Cons y ys)
  then show ?case by (auto simp: set_insert_set intro: trans)
qed

lemma lex_order: "strict_order (lex_less lt)"
proof
  fix xs ys zs
  show "\<not> lex_less lt xs xs" by (rule lex_less_irrefl [OF irrefl])
  show "lex_less lt xs ys \<Longrightarrow> lex_less lt ys zs \<Longrightarrow> lex_less lt xs zs"
    by (rule lex_less_trans [OF trans total])
  show "\<not> lex_less lt xs ys \<Longrightarrow> \<not> lex_less lt ys xs \<Longrightarrow> xs = ys"
    by (rule lex_less_total [OF total])
qed

end

interpretation nat_order: strict_order "(<) :: nat \<Rightarrow> nat \<Rightarrow> bool"
  by unfold_locales auto

interpretation word_order: strict_order wless
  unfolding wless_def by (rule nat_order.lex_order)

interpretation param_order: strict_order param_less
proof
  fix x y z :: cd_param
  show "\<not> param_less x x" by (simp add: param_less_def word_order.irrefl)
  show "param_less x y \<Longrightarrow> param_less y z \<Longrightarrow> param_less x z"
    by (auto simp: param_less_def split: if_splits dest: word_order.asym intro: word_order.trans)
  show "\<not> param_less x y \<Longrightarrow> \<not> param_less y x \<Longrightarrow> x = y"
    by (auto simp: param_less_def split: if_splits dest: word_order.total intro: cd_param.equality)
qed

interpretation params_order: strict_order "lex_less param_less"
  by (rule param_order.lex_order)

interpretation access_order: strict_order access_less
proof
  fix x y z :: cd_access
  show "\<not> access_less x x" by (simp add: access_less_def)
  show "access_less x y \<Longrightarrow> access_less y z \<Longrightarrow> access_less x z"
    by (auto simp: access_less_def split: if_splits dest: word_order.asym intro: word_order.trans)
  show "\<not> access_less x y \<Longrightarrow> \<not> access_less y x \<Longrightarrow> x = y"
    by (auto simp: access_less_def split: if_splits dest: word_order.total intro: cd_access.equality)
qed

lemma feature_less_iff:
  "feature_less a b \<longleftrightarrow> wless (fe_name a) (fe_name b) \<or>
     fe_name a = fe_name b \<and> lex_less param_less (fe_params a) (fe_params b)"
  using word_order.total word_order.irrefl by (auto simp: feature_less_def)

lemma param_eq_iff: "param_eq a b \<longleftrightarrow> a = b"
  by (auto simp: param_eq_def)

lemma feature_eq_iff: "feature_eq a b \<longleftrightarrow> fe_name a = fe_name b \<and> fe_params a = fe_params b"
  by (simp add: feature_eq_def param_eq_iff [abs_def] list.rel_eq [unfolded fun_eq_iff])

text \<open>Normalisation.\<close>

definition no_nul :: "nat list list \<Rightarrow> bool" where
  "no_nul cs \<longleftrightarrow> [0] \<notin> set cs"

lemma skip_spaces_head: "skip_spaces cs = c # r \<Longrightarrow> \<not> is_space c"
  by (induction cs) (auto split: if_splits)

lemma skip_spaces_length: "length (skip_spaces cs) \<le> length cs"
  by (induction cs) auto

text \<open>The reference: the words of a text, and words with one space between them.\<close>

function words :: "nat list list \<Rightarrow> nat list list list" where
  "words cs = (case skip_spaces cs of
     [] \<Rightarrow> []
   | c # r \<Rightarrow> takeWhile (\<lambda>x. \<not> is_space x) (c # r) # words (dropWhile (\<lambda>x. \<not> is_space x) (c # r)))"
  by pat_completeness auto

termination
proof (relation "measure length")
  fix cs c r
  assume h: "skip_spaces cs = c # r"
  have "length (dropWhile (\<lambda>x. \<not> is_space x) r) \<le> length r" by (rule length_dropWhile_le)
  then show "(dropWhile (\<lambda>x. \<not> is_space x) (c # r), cs) \<in> measure length"
    using skip_spaces_head [OF h] skip_spaces_length [of cs] h by simp
qed simp

declare words.simps [simp del]

fun glue :: "nat list list list \<Rightarrow> nat list list" where
  "glue [] = []"
| "glue [w] = w"
| "glue (w # ws) = w @ [[0x20]] @ glue ws"

lemma glue_Cons: "ws \<noteq> [] \<Longrightarrow> glue (w # ws) = w @ [0x20] # glue ws"
  by (cases ws) auto

lemma copy_word: "(\<And>x. x \<in> set w \<Longrightarrow> \<not> is_space x \<and> x \<noteq> [0]) \<Longrightarrow> copy_words False (w @ r) = w @ copy_words False r"
  by (induction w) auto

lemma copy_skips: "copy_words True (skip_spaces cs) = copy_words True cs"
  by (induction cs) auto

lemma no_nul_skip: "no_nul cs \<Longrightarrow> no_nul (skip_spaces cs)"
  by (induction cs) (auto simp: no_nul_def)

lemma no_nul_drop: "no_nul cs \<Longrightarrow> no_nul (dropWhile p cs)"
  by (auto simp: no_nul_def dest: set_dropWhileD)

lemma copy_after_space: "r = [] \<or> is_space (hd r) \<Longrightarrow> copy_words False r = copy_words True r"
  by (cases r) auto

lemma copy_words_spec:
  "no_nul cs \<Longrightarrow> copy_words True cs = (if words cs = [] then [] else [0x20] # glue (words cs)) \<and>
     copy_words False (skip_spaces cs) = glue (words cs)"
proof (induction cs rule: words.induct)
  case (1 cs)
  show ?case
  proof (cases "skip_spaces cs")
    case Nil
    then show ?thesis using copy_skips [of cs] by (simp add: words.simps [of cs])
  next
    case (Cons c r)
    define w where "w = takeWhile (\<lambda>x. \<not> is_space x) r"
    define q where "q = dropWhile (\<lambda>x. \<not> is_space x) r"
    have c: "\<not> is_space c" using Cons by (rule skip_spaces_head)
    have r: "r = w @ q" by (simp add: w_def q_def)
    have nn: "no_nul (c # r)" using no_nul_skip [OF "1.prems"] Cons by simp
    have ws: "words cs = (c # w) # words q" using c by (simp add: words.simps [of cs] Cons w_def q_def)
    have "no_nul q" using no_nul_drop [OF nn, of "\<lambda>x. \<not> is_space x"] c by (simp add: q_def)
    then have IH: "copy_words True q = (if words q = [] then [] else [0x20] # glue (words q))"
      using "1.IH" [OF Cons] c by (simp add: q_def)
    have "q = [] \<or> is_space (hd q)"
      unfolding q_def by (metis hd_dropWhile)
    then have q: "copy_words False q = copy_words True q" by (rule copy_after_space)
    have w: "\<And>x. x \<in> set w \<Longrightarrow> \<not> is_space x \<and> x \<noteq> [0]"
      using nn by (auto simp: w_def no_nul_def dest: set_takeWhileD)
    have c0: "c \<noteq> [0]" using nn by (auto simp: no_nul_def)
    have "copy_words False (c # r) = glue (words cs)"
      using c c0 w by (simp add: r copy_word q IH ws glue_Cons)
    moreover have "copy_words True cs = [0x20] # copy_words False (c # r)"
      using copy_skips [of cs] c c0 by (simp add: Cons)
    ultimately show ?thesis by (simp add: Cons ws)
  qed
qed

definition proper_words :: "nat list list list \<Rightarrow> bool" where
  "proper_words ws \<longleftrightarrow> list_all (\<lambda>w. w \<noteq> [] \<and> list_all (\<lambda>x. \<not> is_space x) w) ws"

lemma words_none: "skip_spaces cs = [] \<Longrightarrow> words cs = []"
  by (simp add: words.simps [of cs])

lemma words_some:
  assumes "skip_spaces cs = c # r"
  shows "words cs = (c # takeWhile (\<lambda>x. \<not> is_space x) r) # words (dropWhile (\<lambda>x. \<not> is_space x) r)"
  using skip_spaces_head [OF assms] by (simp add: words.simps [of cs] assms)

lemma words_induct [case_names none some]:
  assumes "\<And>cs. skip_spaces cs = [] \<Longrightarrow> P cs"
    and "\<And>cs c r. skip_spaces cs = c # r \<Longrightarrow> \<not> is_space c \<Longrightarrow> P (dropWhile (\<lambda>x. \<not> is_space x) r) \<Longrightarrow> P cs"
  shows "P cs"
proof (induction cs rule: words.induct)
  case (1 cs)
  show ?case
  proof (cases "skip_spaces cs")
    case Nil
    then show ?thesis by (rule assms(1))
  next
    case (Cons c r)
    then show ?thesis
      using assms(2) [OF Cons skip_spaces_head [OF Cons]] "1" [OF Cons] skip_spaces_head [OF Cons] by simp
  qed
qed

lemma takeWhile_all: "list_all P (takeWhile P xs)"
  by (induction xs) auto

lemma words_proper: "proper_words (words cs)"
proof (induction cs rule: words_induct)
  case (none cs)
  then show ?case by (simp add: words_none proper_words_def)
next
  case (some cs c r)
  then show ?case
    by (simp add: words_some [OF some.hyps(1)] proper_words_def takeWhile_all)
qed

lemma is_space_blank [simp]: "is_space [0x20]"
  by (simp add: is_space_def)

lemma words_of_word:
  assumes "w \<noteq> []" and "list_all (\<lambda>x. \<not> is_space x) w" and "r = [] \<or> is_space (hd r)"
  shows "words (w @ r) = w # words r"
proof -
  obtain c v where w: "w = c # v" using assms(1) by (cases w) auto
  have "takeWhile (\<lambda>x. \<not> is_space x) (v @ r) = v" "dropWhile (\<lambda>x. \<not> is_space x) (v @ r) = r"
    using assms(2,3) unfolding w by (cases r; auto simp: takeWhile_append dropWhile_append list_all_iff)+
  then show ?thesis
    using assms(2) by (simp add: words.simps [of "c # v @ r"] w)
qed

lemma words_skip_blank: "words ([0x20] # r) = words r"
  by (simp add: words.simps [of "[0x20] # r"] words.simps [of r])

lemma words_glue: "proper_words ws \<Longrightarrow> words (glue ws) = ws"
proof (induction ws rule: glue.induct)
  case 1
  then show ?case by (simp add: words.simps [of "[]"])
next
  case (2 w)
  then show ?case using words_of_word [of w "[]"] by (simp add: proper_words_def words.simps [of "[]"])
next
  case (3 w v vs)
  then have "words (glue (v # vs)) = v # vs" by (simp add: proper_words_def)
  with 3 show ?case
    using words_of_word [of w "[0x20] # glue (v # vs)"] by (simp add: proper_words_def words_skip_blank)
qed

lemma glue_no_nul: "(\<And>w. w \<in> set ws \<Longrightarrow> no_nul w) \<Longrightarrow> no_nul (glue ws)"
  by (induction ws rule: glue.induct) (auto simp: no_nul_def)

lemma words_no_nul: "no_nul cs \<Longrightarrow> w \<in> set (words cs) \<Longrightarrow> no_nul w"
proof (induction cs arbitrary: w rule: words_induct)
  case (none cs)
  then show ?case by (simp add: words_none)
next
  case (some cs c r)
  have nn: "no_nul (c # r)" using no_nul_skip [OF some.prems(1)] some.hyps by simp
  then have "no_nul r" "no_nul (c # takeWhile (\<lambda>x. \<not> is_space x) r)"
    by (auto simp: no_nul_def dest: set_takeWhileD)
  then show ?case
    using some.IH [OF no_nul_drop] some.prems(2) by (auto simp: words_some [OF some.hyps(1)])
qed

section \<open>Properties\<close>

text \<open>
  the sets of the configuration are kept in a strict total order whose equivalence is the
  equality the class defines, so inserting keeps every parameter and every access rule once and in order.
\<close>

theorem config_sets_are_sets:
  "strict_order param_less \<and> strict_order access_less \<and>
   (param_eq p q \<longleftrightarrow> \<not> param_less p q \<and> \<not> param_less q p) \<and>
   (access_eq a b \<longleftrightarrow> \<not> access_less a b \<and> \<not> access_less b a) \<and>
   (feature_eq f g \<longleftrightarrow> \<not> feature_less f g \<and> \<not> feature_less g f)"
proof (intro conjI)
  show "strict_order param_less" by (rule param_order.strict_order_axioms)
  show "strict_order access_less" by (rule access_order.strict_order_axioms)
  show "param_eq p q \<longleftrightarrow> \<not> param_less p q \<and> \<not> param_less q p"
    unfolding param_eq_iff by (rule param_order.equal_iff)
  have "access_eq a b \<longleftrightarrow> a = b" by (auto simp: access_eq_def)
  then show "access_eq a b \<longleftrightarrow> \<not> access_less a b \<and> \<not> access_less b a"
    using access_order.equal_iff by simp
  show "feature_eq f g \<longleftrightarrow> \<not> feature_less f g \<and> \<not> feature_less g f"
  proof (cases "fe_name f = fe_name g")
    case True
    then show ?thesis
      using params_order.equal_iff [of "fe_params f" "fe_params g"]
      by (simp add: feature_less_iff feature_eq_iff word_order.irrefl)
  next
    case False
    then show ?thesis
      using word_order.equal_iff [of "fe_name f" "fe_name g"]
      by (auto simp: feature_less_iff feature_eq_iff)
  qed
qed



text \<open>
  a two-byte character counts as white space by its second byte alone: of the 30 lead bytes only
  one is meant (U+0085, U+00A0), and letters such as U+00E0 are dropped from a text.
\<close>

theorem letters_count_as_space:
  "is_space [lead, 0xa0] \<and> is_space [lead, 0x85] \<and> is_space [0xe2, 0x80, 0x9f] \<and>
   normalize_string True [[0x76], [0xc3, 0xa0], [0x73]] = [[0x76], [0x20], [0x73]]"
  by (simp add: is_space_def normalize_string_def)

text \<open>
  \<open>>=\<close> and \<open><=\<close> of a parameter accept a pair that \<open><\<close> or \<open>>\<close> orders the other way, and a service
  whose fields differ in part is neither equal nor different.
\<close>

theorem comparison_operators_disagree:
  assumes "wless (pa_name a) (pa_name b)" and "\<not> wless (pa_value a) (pa_value b)"
    and "sv_src s = sv_src t" and "sv_mime s \<noteq> sv_mime t"
  shows "param_less a b \<and> param_ge a b \<and> \<not> service_eq s t \<and> \<not> service_ne s t"
  using assms word_order.irrefl
  by (auto simp: param_less_def param_ge_def service_eq_def service_ne_def)

theorem comparison_operators_disagree_witness:
  "param_less \<lparr>pa_name = [97], pa_value = [98]\<rparr> \<lparr>pa_name = [98], pa_value = [97]\<rparr> \<and>
   param_ge \<lparr>pa_name = [97], pa_value = [98]\<rparr> \<lparr>pa_name = [98], pa_value = [97]\<rparr> \<and>
   \<not> service_ne \<lparr>sv_src = [], sv_operation = [], sv_scheme = [], sv_mime = [97]\<rparr>
      \<lparr>sv_src = [], sv_operation = [], sv_scheme = [], sv_mime = []\<rparr>"
  using comparison_operators_disagree
    [of "\<lparr>pa_name = [97], pa_value = [98]\<rparr>" "\<lparr>pa_name = [98], pa_value = [97]\<rparr>"
       "\<lparr>sv_src = [], sv_operation = [], sv_scheme = [], sv_mime = [97]\<rparr>"
       "\<lparr>sv_src = [], sv_operation = [], sv_scheme = [], sv_mime = []\<rparr>"]
  by (simp add: wless_def)

end
