(* ===== verification/PropertyDAO.thy ===== *)
theory PropertyDAO
  imports WrtSchema ConfigData
begin

text \<open>
  The preferences of a widget (modules/widget_dao/dao/property_dao.cpp, property_dao_read_only.cpp) over the
  table \<open>WidgetPreference\<close>.  Each query is named by the function that keeps it.
\<close>

abbreviation wrt_insert :: "string \<Rightarrow> string \<Rightarrow> row \<Rightarrow> int db_prog" where
  "wrt_insert \<equiv> do_insert wrt_schema"

abbreviation wrt_update :: "string \<Rightarrow> string \<Rightarrow> expr \<Rightarrow> row \<Rightarrow> unit db_prog" where
  "wrt_update \<equiv> do_update wrt_schema"

abbreviation wrt_delete :: "string \<Rightarrow> string \<Rightarrow> expr \<Rightarrow> unit db_prog" where
  "wrt_delete \<equiv> do_delete wrt_schema"

text \<open>Running an insert whose id is not used.\<close>

definition insert_only :: "string \<Rightarrow> string \<Rightarrow> row \<Rightarrow> unit db_prog" where
  "insert_only site t cv = bindP (wrt_insert site t cv) (\<lambda>_. ret ())"

section \<open>Reading\<close>

record preference_row =
  pf_app_id :: int
  pf_key_name :: wstr
  pf_key_value :: "wstr option"
  pf_readonly :: "int option"

definition of_key :: "int \<Rightarrow> wstr \<Rightarrow> expr" where
  "of_key h key = And (Equals ''WidgetPreference'' ''app_id'' (CInt h))
     (Equals ''WidgetPreference'' ''key_name'' (CText key))"

definition convertWidgetPreferenceRow :: "row list \<Rightarrow> preference_row list" where
  "convertWidgetPreferenceRow rows = map (\<lambda>r. \<lparr>pf_app_id = int_of r ''app_id'',
     pf_key_name = text_of r ''key_name'', pf_key_value = opt_text_of r ''key_value'',
     pf_readonly = opt_int_of r ''readonly''\<rparr>) rows"

definition GetPropertyKeyList :: "int \<Rightarrow> wstr list db_prog" where
  "GetPropertyKeyList h = sql_handler DaoProperty
     (get_value_list ''GetPropertyKeyList'' ''WidgetPreference''
       (Equals ''WidgetPreference'' ''app_id'' (CInt h)) (\<lambda>r. text_of r ''key_name''))"

definition GetPropertyList :: "int \<Rightarrow> preference_row list db_prog" where
  "GetPropertyList h = sql_handler DaoProperty
     (bindP (get_row_list ''GetPropertyList'' ''WidgetPreference''
         (Equals ''WidgetPreference'' ''app_id'' (CInt h)))
       (\<lambda>rows. ret (convertWidgetPreferenceRow rows)))"

definition GetPropertyValue :: "int \<Rightarrow> wstr \<Rightarrow> wstr option db_prog" where
  "GetPropertyValue h key = sql_handler DaoProperty
     (bindP (get_single_row ''GetPropertyValue'' ''WidgetPreference'' (of_key h key))
       (\<lambda>r. ret (opt_text_of r ''key_value'')))"

definition CheckPropertyReadFlag :: "int \<Rightarrow> wstr \<Rightarrow> int option db_prog" where
  "CheckPropertyReadFlag h key = sql_handler DaoProperty
     (bindP (get_single_row ''CheckPropertyReadFlag'' ''WidgetPreference'' (of_key h key))
       (\<lambda>r. ret (opt_int_of r ''readonly'')))"

section \<open>Writing\<close>

definition RemoveProperty :: "int \<Rightarrow> wstr \<Rightarrow> unit db_prog" where
  "RemoveProperty h key = sql_handler DaoProperty (scope
     (bindP (bindP (CheckPropertyReadFlag h key) (\<lambda>readonly.
        if readonly = Some 1 then raise ReadOnlyProperty
        else wrt_delete ''RemoveProperty'' ''WidgetPreference'' (of_key h key)))
      (\<lambda>x. thenP commit (ret x))))"

definition preference_cells :: "int \<Rightarrow> wstr \<Rightarrow> wstr option \<Rightarrow> bool \<Rightarrow> row" where
  "preference_cells h key val readonly =
     [(''app_id'', CInt h), (''key_name'', CText key), (''key_value'', opt_text val),
      (''readonly'', CInt (if readonly then 1 else 0))]"

definition SetProperty :: "int \<Rightarrow> wstr \<Rightarrow> wstr option \<Rightarrow> bool \<Rightarrow> unit db_prog" where
  "SetProperty h key val ro = sql_handler DaoProperty (scope
     (bindP (bindP (CheckPropertyReadFlag h key) (\<lambda>readonly.
        if readonly = Some 1 then raise ReadOnlyProperty
        else if readonly = None
        then insert_only ''SetProperty.insert'' ''WidgetPreference'' (preference_cells h key val ro)
        else wrt_update ''SetProperty.update'' ''WidgetPreference'' (of_key h key) [(''key_value'', opt_text val)]))
      (\<lambda>x. thenP commit (ret x))))"

definition RegisterProperties :: "int \<Rightarrow> config_data \<Rightarrow> unit db_prog" where
  "RegisterProperties h cfg = forP (\<lambda>it.
     insert_only ''RegisterProperties'' ''WidgetPreference''
       (preference_cells h (pr_name it) (pr_value it) (pr_readonly it))) (cd_preferencesList cfg)"

section \<open>The preferences of a database\<close>

definition c_text :: "wstr \<Rightarrow> wstr" where
  "c_text w = takeWhile (\<lambda>c. c \<noteq> 0) w"

definition is_pref :: "int \<Rightarrow> wstr \<Rightarrow> row \<Rightarrow> bool" where
  "is_pref h key r \<longleftrightarrow> get r ''app_id'' = CInt h \<and> get r ''key_name'' = CText key"

text \<open>The map the table stands for: the value and the read-only flag of a key of a widget.\<close>

definition pref :: "tables \<Rightarrow> int \<Rightarrow> wstr \<Rightarrow> (wstr option \<times> int option) option" where
  "pref db h key =
     (case filter (is_pref h key) (db ''WidgetPreference'') of
        [] \<Rightarrow> None
      | r # _ \<Rightarrow> Some (opt_text_of r ''key_value'', opt_int_of r ''readonly''))"

text \<open>Every preference has a flag, as both ways to make one give it.\<close>

definition flags_set :: "tables \<Rightarrow> bool" where
  "flags_set db \<longleftrightarrow> (\<forall>r \<in> set (db ''WidgetPreference''). \<exists>f. get r ''readonly'' = CInt f)"

definition installed :: "tables \<Rightarrow> int \<Rightarrow> bool" where
  "installed db h \<longleftrightarrow> (\<exists>r \<in> set (db ''WidgetInfo''). get r ''app_id'' = CInt h)"

text \<open>What the operations should do to that map; the result tells an error from success.\<close>

definition spec_set ::
  "bool \<Rightarrow> wstr \<Rightarrow> wstr option \<Rightarrow> bool \<Rightarrow> (wstr \<Rightarrow> (wstr option \<times> int option) option) \<Rightarrow>
   unit res \<times> (wstr \<Rightarrow> (wstr option \<times> int option) option)" where
  "spec_set inst key val ro m =
     (case m key of
        None \<Rightarrow> (if inst then (Inr (), m(key := Some (val, Some (if ro then 1 else 0))))
                 else (Inl (DatabaseError DaoProperty), m))
      | Some (_, f) \<Rightarrow> (if f = Some 1 then (Inl ReadOnlyProperty, m) else (Inr (), m(key := Some (val, f)))))"

definition spec_remove ::
  "wstr \<Rightarrow> (wstr \<Rightarrow> (wstr option \<times> int option) option) \<Rightarrow>
   unit res \<times> (wstr \<Rightarrow> (wstr option \<times> int option) option)" where
  "spec_remove key m =
     (if \<exists>v. m key = Some (v, Some 1) then (Inl ReadOnlyProperty, m) else (Inr (), m(key := None)))"

lemma holds_of_key [simp]: "holds (of_key h key) r \<longleftrightarrow> is_pref h (c_text key) r"
  by (auto simp: of_key_def And_def Equals_def is_pref_def bound_def c_text_def)

lemma holds_of_key_fun: "holds (of_key h key) = is_pref h (c_text key)"
  by (rule ext) simp

lemma integrity_table:
  "integrity sch s \<Longrightarrow> map_of sch t = Some sc \<Longrightarrow> table_ok sc (e_db s t)"
  by (auto simp: integrity_def db_ok_def dest: map_of_SomeD)

lemma sorted_wrt_two:
  "sorted_wrt P rs \<Longrightarrow> x \<in> set rs \<Longrightarrow> y \<in> set rs \<Longrightarrow> x \<noteq> y \<Longrightarrow> P x y \<or> P y x"
  by (induction rs) auto

text \<open>Rows that agree on a key are at most one.\<close>

lemma unique_filter:
  assumes "sorted_wrt (\<lambda>r r'. \<not> same_key ks r r') rs"
    and "\<And>r r'. p r \<Longrightarrow> p r' \<Longrightarrow> same_key ks r r'"
  shows "filter p rs = [] \<or> (\<exists>r. filter p rs = [r])"
  using assms(1)
proof (induction rs)
  case Nil
  then show ?case by simp
next
  case (Cons a rs)
  show ?case
  proof (cases "p a")
    case True
    then have "filter p rs = []"
      using Cons.prems assms(2) by (auto simp: filter_empty_conv)
    then show ?thesis using True by simp
  next
    case False
    then show ?thesis using Cons by simp
  qed
qed

lemma the_filter:
  assumes "sorted_wrt (\<lambda>r r'. \<not> same_key ks r r') rs"
    and "\<And>r r'. p r \<Longrightarrow> p r' \<Longrightarrow> same_key ks r r'" and "x \<in> set rs" and "p x"
  shows "filter p rs = [x]"
proof -
  have "x \<in> set (filter p rs)" using assms(3,4) by simp
  then show ?thesis using unique_filter [OF assms(1,2)] by (metis empty_iff list.set(1,2) singletonD)
qed

lemma one_pref:
  assumes "integrity wrt_schema s"
  shows "filter (is_pref h key) (e_db s ''WidgetPreference'') = [] \<or>
     (\<exists>r. filter (is_pref h key) (e_db s ''WidgetPreference'') = [r])"
proof (rule unique_filter)
  show "sorted_wrt (\<lambda>r r'. \<not> same_key [''app_id'', ''key_name''] r r') (e_db s ''WidgetPreference'')"
    using integrity_table [OF assms table_of(7)]
    by (auto simp: table_ok_def WidgetPreference_table_def sql_table_def)
qed (auto simp: same_key_def is_pref_def)

lemma scan_pref:
  assumes "integrity wrt_schema s" and "fair_scan s"
  shows "e_scan s (filter (is_pref h key) (e_db s ''WidgetPreference'')) =
     filter (is_pref h key) (e_db s ''WidgetPreference'')"
  using one_pref [OF assms(1), of h key] assms(2) by auto

section \<open>Facts\<close>

lemma opened_simps [simp]:
  "idle (opened s) = idle s" "e_db (opened s) = e_db s" "e_seq (opened s) = e_seq s"
  "e_scan (opened s) = e_scan s" "fair_scan (opened s) = fair_scan s" "e_busy (opened s) = e_busy s"
  by (simp_all add: opened_def idle_def fair_scan_def)

lemma closed_simps [simp]:
  "idle (closed c s) = idle s" "e_db (closed c s) = e_db s" "e_scan (closed c s) = e_scan s"
  "e_busy (closed c s) = e_busy s" "outside_tx (closed c s)"
  by (simp_all add: closed_def idle_def outside_tx_def)

lemma sql_handler_run:
  "sql_handler cls m s = (case m s of
     (Inl e, t) \<Rightarrow> (Inl (if is_sql e then DatabaseError cls else e), t) | (Inr x, t) \<Rightarrow> (Inr x, t))"
  by (simp add: sql_handler_def catchP_def raise_def split: sum.split prod.split)

lemma pref_first:
  "pref db h key = (let r = first_row (filter (is_pref h key) (db ''WidgetPreference'')) in
     if filter (is_pref h key) (db ''WidgetPreference'') = [] then None
     else Some (opt_text_of r ''key_value'', opt_int_of r ''readonly''))"
  by (simp add: pref_def first_row_def split: list.split)

lemma get_Nil [simp]: "get [] c = CNull"
  by (simp add: get_def)

lemma check_flag_runs:
  assumes "free ''CheckPropertyReadFlag'' s" and "fair_scan s" and "integrity wrt_schema s"
  shows "CheckPropertyReadFlag h key s =
     (Inr (case pref (e_db s) h (c_text key) of None \<Rightarrow> None | Some (_, f) \<Rightarrow> f), s)"
  using single_runs(1) [OF assms(1), of "''WidgetPreference''" "of_key h key"]
  by (simp add: CheckPropertyReadFlag_def sql_handler_run bindP_def ret_def holds_of_key_fun
      scan_pref [OF assms(3,2)] pref_first Let_def first_row_def opt_int_of_def)

lemma get_value_runs:
  assumes "free ''GetPropertyValue'' s" and "fair_scan s" and "integrity wrt_schema s"
  shows "GetPropertyValue h key s =
     (Inr (case pref (e_db s) h (c_text key) of None \<Rightarrow> None | Some (v, _) \<Rightarrow> v), s)"
  using single_runs(1) [OF assms(1), of "''WidgetPreference''" "of_key h key"]
  by (simp add: GetPropertyValue_def sql_handler_run bindP_def ret_def holds_of_key_fun
      scan_pref [OF assms(3,2)] pref_first Let_def first_row_def opt_text_of_def)

lemma bound_simps [simp]:
  "bound (CInt i) = CInt i" "bound (CText w) = CText (c_text w)" "bound CNull = CNull"
  "bound (opt_text v) = opt_text (map_option c_text v)" "bound (opt_int n) = opt_int n"
  "bound (bool_cell b) = bool_cell b"
  by (auto simp: bound_def opt_text_def opt_int_def bool_cell_def c_text_def split: option.split)

lemma opt_reads [simp]:
  "get r c = opt_text v \<Longrightarrow> opt_text_of r c = v" "get r c = opt_int n \<Longrightarrow> opt_int_of r c = n"
  "get r c = CInt i \<Longrightarrow> opt_int_of r c = Some i" "get r c = CText w \<Longrightarrow> text_of r c = w"
  "get r c = CInt i \<Longrightarrow> int_of r c = i"
  by (auto simp: opt_text_of_def opt_int_of_def text_of_def int_of_def cell_int_def opt_text_def opt_int_def
      split: option.split)

lemma get_Cons: "get ((c, v) # r) d = (if c = d then v else get r d)"
  by (simp add: get_def)

lemma pref_insert:
  "insert_row wrt_schema ''WidgetPreference'' (map (\<lambda>(c, v). (c, bound v)) (preference_cells h key val ro)) (db, seq) =
     (if (\<exists>r \<in> set (db ''WidgetPreference''). is_pref h (c_text key) r) \<or> \<not> installed db h then None
      else Some (0, db(''WidgetPreference'' := db ''WidgetPreference'' @
        [preference_cells h (c_text key) (map_option c_text val) ro]), seq))"
proof -
  let ?row = "preference_cells h (c_text key) (map_option c_text val) ro"
  have row: "full_row WidgetPreference_table k (map (\<lambda>(c, v). (c, bound v)) (preference_cells h key val ro)) = ?row" for k
    by (simp add: full_row_def WidgetPreference_table_def sql_table_def column_defs preference_cells_def)
  have ok: "row_ok WidgetPreference_table ?row"
    by (simp add: row_ok_def WidgetPreference_table_def sql_table_def column_defs preference_cells_def
        get_Cons cell_ok_def)
  have key: "same_key [''app_id'', ''key_name''] ?row r = is_pref h (c_text key) r" for r
    by (auto simp: same_key_def is_pref_def preference_cells_def get_Cons)
  have fk: "fk_holds db ?row (''app_id'', ''WidgetInfo'', ''app_id'') = installed db h"
    by (simp add: fk_holds_def preference_cells_def get_Cons installed_def list_ex_iff)
  have sc: "ts_keys WidgetPreference_table = [[''app_id'', ''key_name'']]" "ts_rowid WidgetPreference_table = None"
    "ts_auto WidgetPreference_table = False" "ts_fks WidgetPreference_table = [(''app_id'', ''WidgetInfo'', ''app_id'')]"
    by (simp_all add: WidgetPreference_table_def sql_table_def)
  show ?thesis
    by (simp add: insert_row_def table_of(7) sc Let_def row row_fits_def ok key fk list_ex_iff)
qed

lemma pref_cols:
  assumes "integrity wrt_schema s" and "r \<in> set (e_db s ''WidgetPreference'')"
  shows "map fst r = [''app_id'', ''key_name'', ''key_value'', ''readonly'']"
  using integrity_table [OF assms(1) table_of(7)] assms(2)
  by (simp add: table_ok_def WidgetPreference_table_def sql_table_def column_defs)

lemma harmless_value: "harmless wrt_schema ''WidgetPreference'' WidgetPreference_table [(''key_value'', v)]"
  by (simp add: harmless_def wrt_schema_def table_defs sql_table_def)

lemma pref_update:
  assumes "integrity wrt_schema s"
  shows "update_rows wrt_schema ''WidgetPreference'' (is_pref h key) [(''key_value'', v)] (e_db s) =
     Some ((e_db s)(''WidgetPreference'' :=
        map (rewrite (is_pref h key) [(''key_value'', v)]) (e_db s ''WidgetPreference'')))"
proof (rule update_rows_rewrites)
  show "db_ok wrt_schema (e_db s)" "distinct (map fst wrt_schema)"
    using assms by (auto simp: integrity_def)
  fix r
  assume r: "r \<in> set (e_db s ''WidgetPreference'')"
  have "row_ok WidgetPreference_table r"
    using integrity_table [OF assms table_of(7)] r by (simp add: table_ok_def)
  then show "row_ok WidgetPreference_table (set_cells [(''key_value'', v)] r)"
    using pref_cols [OF assms r]
    by (simp add: row_ok_def WidgetPreference_table_def sql_table_def column_defs cell_ok_def
        get_set_cells get_missing)
qed (simp_all add: table_of harmless_value)

lemma is_pref_rewrite: "is_pref h' k' (rewrite p [(''key_value'', v)] r) = is_pref h' k' r"
  by (simp add: is_pref_def get_rewrite_other)

lemma pref_rewritten:
  assumes "integrity wrt_schema s" and "pref (e_db s) h key = Some (w, f)"
    and "db = (e_db s)(''WidgetPreference'' :=
        map (rewrite (is_pref h key) [(''key_value'', opt_text v)]) (e_db s ''WidgetPreference''))"
  shows "pref db h' = (if h' = h then (pref (e_db s) h)(key := Some (v, f)) else pref (e_db s) h')"
proof
  fix k
  let ?f = "rewrite (is_pref h key) [(''key_value'', opt_text v)]"
  let ?rows = "filter (is_pref h' k) (e_db s ''WidgetPreference'')"
  have rows: "filter (is_pref h' k) (db ''WidgetPreference'') = map ?f ?rows"
    by (simp add: assms(3) filter_map o_def is_pref_rewrite)
  show "pref db h' k = (if h' = h then (pref (e_db s) h)(key := Some (v, f)) else pref (e_db s) h') k"
  proof (cases ?rows)
    case Nil
    then show ?thesis using rows assms(2) by (auto simp: pref_def split: list.splits)
  next
    case (Cons r rs)
    then have r: "is_pref h' k r" "r \<in> set (e_db s ''WidgetPreference'')"
      by (auto dest!: arg_cong [where f = set])
    have other: "opt_int_of (?f r) ''readonly'' = opt_int_of r ''readonly''"
      by (simp add: opt_int_of_def get_rewrite_other)
    have ne: "get r ''app_id'' = CInt h'" "get r ''key_name'' = CText k" using r(1) by (simp_all add: is_pref_def)
    have val: "opt_text_of (?f r) ''key_value'' = (if h' = h \<and> k = key then v else opt_text_of r ''key_value'')"
    proof (cases "h' = h \<and> k = key")
      case True
      then have "get (?f r) ''key_value'' = opt_text v"
        using r pref_cols [OF assms(1) r(2)] by (simp add: rewrite_def get_set_cells)
      then show ?thesis using True by simp
    next
      case False
      then have "\<not> is_pref h key r" using ne by (auto simp: is_pref_def)
      then show ?thesis using False by (auto simp: rewrite_def)
    qed
    show ?thesis
      using Cons rows assms(2) other val by (auto simp: pref_def)
  qed
qed

lemma pref_appended:
  assumes "\<not> (\<exists>r \<in> set (db ''WidgetPreference''). is_pref h key r)"
  shows "pref (db(''WidgetPreference'' := db ''WidgetPreference'' @ [preference_cells h key v ro])) h' =
     (if h' = h then (pref db h)(key := Some (v, Some (if ro then 1 else 0))) else pref db h')"
proof
  fix k
  have new: "is_pref h' k (preference_cells h key v ro) \<longleftrightarrow> h' = h \<and> k = key"
    by (auto simp: is_pref_def preference_cells_def get_Cons)
  have vals: "opt_text_of (preference_cells h key v ro) ''key_value'' = v"
    "opt_int_of (preference_cells h key v ro) ''readonly'' = Some (if ro then 1 else 0)"
    by (simp_all add: preference_cells_def get_Cons)
  show "pref (db(''WidgetPreference'' := db ''WidgetPreference'' @ [preference_cells h key v ro])) h' k =
     (if h' = h then (pref db h)(key := Some (v, Some (if ro then 1 else 0))) else pref db h') k"
  proof (cases "h' = h \<and> k = key")
    case True
    then have "filter (is_pref h' k) (db ''WidgetPreference'') = []"
      using assms by (auto simp: filter_empty_conv)
    then show ?thesis using True new vals by (auto simp: pref_def)
  next
    case False
    then show ?thesis by (auto simp: pref_def new)
  qed
qed

lemma pref_None_iff: "pref db h key = None \<longleftrightarrow> \<not> (\<exists>r \<in> set (db ''WidgetPreference''). is_pref h key r)"
proof -
  have "pref db h key = None \<longleftrightarrow> filter (is_pref h key) (db ''WidgetPreference'') = []"
    by (simp add: pref_def split: list.split)
  then show ?thesis by (auto simp: filter_empty_conv)
qed

lemma pref_flag:
  assumes "flags_set db" and "pref db h key = Some (v, f)"
  shows "\<exists>i. f = Some i"
proof -
  obtain r rs where r: "filter (is_pref h key) (db ''WidgetPreference'') = r # rs" "f = opt_int_of r ''readonly''"
    using assms(2) by (auto simp: pref_def split: list.splits)
  then have "r \<in> set (db ''WidgetPreference'')" by (auto dest!: arg_cong [where f = set])
  with assms(1) obtain i where "get r ''readonly'' = CInt i" by (auto simp: flags_set_def)
  then show ?thesis using r(2) by simp
qed

section \<open>Properties\<close>

text \<open>A database with one widget, for concrete runs.\<close>

definition one_widget :: sql_env where
  "one_widget = wrt_fresh\<lparr>e_db := insert_all wrt_schema ''WidgetInfo'' [[(''app_id'', CInt 7)]] (e_db wrt_fresh)\<rparr>"

definition wrt_ready :: "sql_env \<Rightarrow> bool" where
  "wrt_ready s \<longleftrightarrow> idle s \<and> outside_tx s \<and> fair_scan s \<and> integrity wrt_schema s"

lemma insert_all_other: "n \<noteq> t \<Longrightarrow> insert_all sch t cvs db n = db n"
proof (induction cvs arbitrary: db)
  case (Cons cv cvs)
  have "(case insert_row sch t cv (db, \<lambda>_. 0) of Some (_, d', _) \<Rightarrow> d' | None \<Rightarrow> db) n = db n"
    using Cons.prems by (auto simp: insert_row_def Let_def split: option.splits)
  with Cons show ?case by (simp add: insert_all_def)
qed (simp add: insert_all_def)

lemma wrt_initial_empty:
  "t \<noteq> ''UserAgents'' \<Longrightarrow> t \<noteq> ''WidgetWhiteURIList'' \<Longrightarrow> t \<noteq> ''GlobalProperties'' \<Longrightarrow> wrt_initial agents t = []"
  by (simp add: wrt_initial_def insert_all_other)

lemma one_widget_state:
  "wrt_ready one_widget" "flags_set (e_db one_widget)" "pref (e_db one_widget) h = (\<lambda>_. None)"
  "installed (e_db one_widget) h \<longleftrightarrow> h = 7"
proof -
  have "db_ok wrt_schema (e_db one_widget)"
    by (simp add: one_widget_def wrt_fresh_def insert_all_ok wrt_initial_ok wrt_schema_ok)
  then show "wrt_ready one_widget"
    using wrt_fresh_state by (simp add: wrt_ready_def one_widget_def integrity_def wrt_schema_ok idle_def outside_tx_def fair_scan_def wrt_fresh_def)
  have "e_db one_widget ''WidgetPreference'' = []"
    by (simp add: one_widget_def insert_all_other wrt_fresh_def wrt_initial_empty)
  then show "flags_set (e_db one_widget)" "pref (e_db one_widget) h = (\<lambda>_. None)"
    by (auto simp: flags_set_def pref_def)
  have empty: "e_db wrt_fresh ''WidgetInfo'' = []" by (simp add: wrt_fresh_def wrt_initial_empty)
  let ?r = "full_row WidgetInfo_table 1 [(''app_id'', CInt 7)]"
  have id: "get ?r ''app_id'' = CInt 7"
    by (simp add: full_row_def WidgetInfo_table_def sql_table_def column_defs get_Cons)
  have "row_ok WidgetInfo_table ?r"
    by (simp add: row_ok_def full_row_def WidgetInfo_table_def sql_table_def column_defs get_Cons cell_ok_def)
  then have "e_db one_widget ''WidgetInfo'' = [?r]"
    using empty by (simp add: one_widget_def insert_all_def insert_row_def table_of(2) Let_def row_fits_def)
      (simp add: WidgetInfo_table_def sql_table_def next_rowid_def)
  then show "installed (e_db one_widget) h \<longleftrightarrow> h = 7" using id by (auto simp: installed_def)
qed

definition set_body :: "int \<Rightarrow> wstr \<Rightarrow> wstr option \<Rightarrow> bool \<Rightarrow> unit db_prog" where
  "set_body h key val ro = bindP (CheckPropertyReadFlag h key) (\<lambda>readonly.
     if readonly = Some 1 then raise ReadOnlyProperty
     else if readonly = None
     then insert_only ''SetProperty.insert'' ''WidgetPreference'' (preference_cells h key val ro)
     else wrt_update ''SetProperty.update'' ''WidgetPreference'' (of_key h key) [(''key_value'', opt_text val)])"

lemma keeps_check: "keeps (in_tx snap sc) (CheckPropertyReadFlag h key)"
  unfolding CheckPropertyReadFlag_def by (intro intx.keeps_db)

lemma keeps_insert_only: "keeps (in_tx snap sc) (insert_only site t cv)"
  unfolding insert_only_def by (intro intx.keeps_db)

lemma keeps_set_body: "keeps (in_tx snap sc) (set_body h key val ro)"
  unfolding set_body_def by (intro keeps_bind keeps_check) (auto intro: keeps_insert_only keeps_raise intx.keeps_db)

lemma SetProperty_body: "SetProperty h key val ro = sql_handler DaoProperty (scope (bindP (set_body h key val ro) (\<lambda>x. thenP commit (ret x))))"
  by (simp add: SetProperty_def set_body_def)

lemma integrity_opened: "integrity sch s \<Longrightarrow> integrity sch (opened s)"
  by (simp add: integrity_def opened_def)

lemma set_body_run:
  assumes "wrt_ready s" and "flags_set (e_db s)"
  shows "set_body h key val ro (opened s) =
     (case pref (e_db s) h (c_text key) of
        Some (w, f) \<Rightarrow>
          (if f = Some 1 then (Inl ReadOnlyProperty, opened s)
           else (Inr (), (opened s)\<lparr>e_db := (e_db s)(''WidgetPreference'' :=
               map (rewrite (is_pref h (c_text key)) [(''key_value'', opt_text (map_option c_text val))])
                 (e_db s ''WidgetPreference''))\<rparr>))
      | None \<Rightarrow>
          (if installed (e_db s) h
           then (Inr (), (opened s)\<lparr>e_db := (e_db s)(''WidgetPreference'' := e_db s ''WidgetPreference'' @
               [preference_cells h (c_text key) (map_option c_text val) ro])\<rparr>)
           else (Inl SqlInternalError, (opened s)\<lparr>e_busy := (e_busy s)(''SetProperty.insert'' := True)\<rparr>)))"
proof -
  have ready: "idle (opened s)" "fair_scan (opened s)" "integrity wrt_schema (opened s)"
    using assms(1) by (simp_all add: wrt_ready_def integrity_opened)
  have flag: "CheckPropertyReadFlag h key (opened s) =
      (Inr (case pref (e_db s) h (c_text key) of None \<Rightarrow> None | Some (_, f) \<Rightarrow> f), opened s)"
    using check_flag_runs [OF idle_free [OF ready(1)] ready(2,3)] by simp
  show ?thesis
  proof (cases "pref (e_db s) h (c_text key)")
    case None
    have same: "(opened s)\<lparr>e_db := d, e_seq := e_seq s\<rparr> = (opened s)\<lparr>e_db := d\<rparr>" for d
      by (simp add: opened_def)
    let ?cells = "preference_cells h key val ro"
    have row: "insert_row wrt_schema ''WidgetPreference'' (map (\<lambda>(c, v). (c, bound v)) ?cells) (e_db (opened s), e_seq (opened s)) =
        (if installed (e_db s) h then Some (0, (e_db s)(''WidgetPreference'' := e_db s ''WidgetPreference'' @
           [preference_cells h (c_text key) (map_option c_text val) ro]), e_seq s) else None)"
      using None by (simp add: pref_insert pref_None_iff)
    show ?thesis
    proof (cases "installed (e_db s) h")
      case True
      then show ?thesis
        using insert_runs [OF idle_free [OF ready(1)] row [simplified True if_True], of "''SetProperty.insert''"] None
        by (simp add: set_body_def bindP_def flag insert_only_def ret_def same)
    next
      case False
      then show ?thesis
        using insert_fails [OF idle_free [OF ready(1)] row [simplified False if_False], of "''SetProperty.insert''"] None
        by (simp add: set_body_def bindP_def flag insert_only_def)
    qed
  next
    case (Some vf)
    obtain w f where vf: "vf = (w, f)" by (cases vf)
    obtain i where i: "f = Some i" using pref_flag [OF assms(2)] Some vf by blast
    have "wrt_update ''SetProperty.update'' ''WidgetPreference'' (of_key h key) [(''key_value'', opt_text val)] (opened s) =
        (Inr (), (opened s)\<lparr>e_db := (e_db s)(''WidgetPreference'' :=
               map (rewrite (is_pref h (c_text key)) [(''key_value'', opt_text (map_option c_text val))])
                 (e_db s ''WidgetPreference''))\<rparr>)"
      using pref_update [OF ready(3), of h "c_text key" "opt_text (map_option c_text val)"]
      by (intro update_runs idle_free [OF ready(1)]) (simp_all add: holds_of_key_fun)
    then show ?thesis
      using Some vf i by (simp add: set_body_def bindP_def flag raise_def)
  qed
qed

lemma set_property_cases:
  assumes "wrt_ready s" and "flags_set (e_db s)" and "SetProperty h key val ro s = (r, s')"
  shows "(r, pref (e_db s') h) =
      spec_set (installed (e_db s) h) (c_text key) (map_option c_text val) ro (pref (e_db s) h)"
    and "h' \<noteq> h \<Longrightarrow> pref (e_db s') h' = pref (e_db s) h'"
    and "t \<noteq> ''WidgetPreference'' \<Longrightarrow> e_db s' t = e_db s t"
proof -
  have out: "outside_tx s" and integ: "integrity wrt_schema s" using assms(1) by (simp_all add: wrt_ready_def)
  obtain b u where b: "set_body h key val ro (opened s) = (b, u)" by fastforce
  have run: "SetProperty h key val ro s = (case b of Inr x \<Rightarrow> (Inr x, closed False u)
      | Inl e \<Rightarrow> (Inl (if is_sql e then DatabaseError DaoProperty else e),
                 (closed True u)\<lparr>e_db := e_db s, e_seq := e_seq s\<rparr>))"
    using scope_outcome [OF out keeps_set_body b]
    by (simp add: SetProperty_body sql_handler_run split: sum.split)
  have "(r, pref (e_db s') h) =
      spec_set (installed (e_db s) h) (c_text key) (map_option c_text val) ro (pref (e_db s) h) \<and>
    (h' \<noteq> h \<longrightarrow> pref (e_db s') h' = pref (e_db s) h') \<and> (t \<noteq> ''WidgetPreference'' \<longrightarrow> e_db s' t = e_db s t)"
  proof (cases "pref (e_db s) h (c_text key)")
    case None
    note app = pref_appended [of "e_db s" h "c_text key" "map_option c_text val" ro,
      OF pref_None_iff [THEN iffD1, OF None]]
    note body = set_body_run [OF assms(1,2), of h key val ro, unfolded b None option.case]
    show ?thesis
    proof (cases "installed (e_db s) h")
      case True
      have "b = Inr ()" "e_db u = (e_db s)(''WidgetPreference'' := e_db s ''WidgetPreference'' @
               [preference_cells h (c_text key) (map_option c_text val) ro])"
        using body True by simp_all
      then have "r = Inr ()" and s': "e_db s' = (e_db s)(''WidgetPreference'' := e_db s ''WidgetPreference'' @
               [preference_cells h (c_text key) (map_option c_text val) ro])"
        using run assms(3) by simp_all
      then show ?thesis by (simp add: app s' spec_set_def None True)
    next
      case False
      have "b = Inl SqlInternalError" using body False by simp
      then have "r = Inl (DatabaseError DaoProperty)" "e_db s' = e_db s"
        using run assms(3) by (auto simp: is_sql_def)
      then show ?thesis by (simp add: spec_set_def None False)
    qed
  next
    case (Some vf)
    obtain w f where vf: "pref (e_db s) h (c_text key) = Some (w, f)" using Some by (cases vf) auto
    note app = pref_rewritten [OF integ vf refl, of "map_option c_text val"]
    note body = set_body_run [OF assms(1,2), of h key val ro, unfolded b vf option.case prod.case]
    show ?thesis
    proof (cases "f = Some 1")
      case True
      have "b = Inl ReadOnlyProperty" using body True by simp
      then have "r = Inl ReadOnlyProperty" "e_db s' = e_db s"
        using run assms(3) by (auto simp: is_sql_def)
      then show ?thesis by (simp add: spec_set_def vf True)
    next
      case False
      have "b = Inr ()" "e_db u = (e_db s)(''WidgetPreference'' :=
               map (rewrite (is_pref h (c_text key)) [(''key_value'', opt_text (map_option c_text val))])
                 (e_db s ''WidgetPreference''))"
        using body False by simp_all
      then have "r = Inr ()" and s': "e_db s' = (e_db s)(''WidgetPreference'' :=
               map (rewrite (is_pref h (c_text key)) [(''key_value'', opt_text (map_option c_text val))])
                 (e_db s ''WidgetPreference''))"
        using run assms(3) by simp_all
      then show ?thesis by (simp add: app s' spec_set_def vf False)
    qed
  qed
  then show "(r, pref (e_db s') h) =
      spec_set (installed (e_db s) h) (c_text key) (map_option c_text val) ro (pref (e_db s) h)"
    and "h' \<noteq> h \<Longrightarrow> pref (e_db s') h' = pref (e_db s) h'"
    and "t \<noteq> ''WidgetPreference'' \<Longrightarrow> e_db s' t = e_db s t" by auto
qed

text \<open>
  C7: setting a preference refines the map of a widget's preferences: a read-only key is refused, a key
  that is there keeps its flag and takes the new value, a new key of an installed widget is added
  with the given flag, and one of a widget that is not installed is an error; nothing else changes, the
  preferences of other widgets included.
\<close>

theorem set_property_refines:
  assumes "wrt_ready s" and "flags_set (e_db s)" and "SetProperty h key val ro s = (r, s')"
  shows "(r, pref (e_db s') h) =
      spec_set (installed (e_db s) h) (c_text key) (map_option c_text val) ro (pref (e_db s) h) \<and>
    (\<forall>h'. h' \<noteq> h \<longrightarrow> pref (e_db s') h' = pref (e_db s) h') \<and>
    (\<forall>t. t \<noteq> ''WidgetPreference'' \<longrightarrow> e_db s' t = e_db s t)"
  by (intro conjI allI impI set_property_cases [OF assms])

theorem set_property_refines_witness:
  "pref (e_db (snd (SetProperty 7 [107] (Some [118]) True one_widget))) 7 [107] = Some (Some [118], Some 1) \<and>
   fst (SetProperty 7 [107] (Some [118]) True one_widget) = Inr ()"
  using set_property_refines [OF one_widget_state(1,2), of 7 "[107]" "Some [118]" True
      "fst (SetProperty 7 [107] (Some [118]) True one_widget)" "snd (SetProperty 7 [107] (Some [118]) True one_widget)"]
  by (simp add: spec_set_def one_widget_state c_text_def)



definition remove_body :: "int \<Rightarrow> wstr \<Rightarrow> unit db_prog" where
  "remove_body h key = bindP (CheckPropertyReadFlag h key) (\<lambda>readonly.
     if readonly = Some 1 then raise ReadOnlyProperty
     else wrt_delete ''RemoveProperty'' ''WidgetPreference'' (of_key h key))"

lemma keeps_remove_body: "keeps (in_tx snap sc) (remove_body h key)"
  unfolding remove_body_def by (intro keeps_bind keeps_check) (auto intro: keeps_raise intx.keeps_db)

lemma RemoveProperty_body: "RemoveProperty h key = sql_handler DaoProperty (scope (bindP (remove_body h key) (\<lambda>x. thenP commit (ret x))))"
  by (simp add: RemoveProperty_def remove_body_def)

lemma pref_unreferenced: "unreferenced wrt_schema ''WidgetPreference''" "''WidgetPreference'' \<in> fst ` set wrt_schema"
  by (simp_all add: unreferenced_def wrt_schema_def table_defs sql_table_def)

lemma remove_property_cases:
  assumes "wrt_ready s" and "RemoveProperty h key s = (r, s')"
  shows "(r, pref (e_db s') h) = spec_remove (c_text key) (pref (e_db s) h)"
    and "h' \<noteq> h \<Longrightarrow> pref (e_db s') h' = pref (e_db s) h'"
    and "t \<noteq> ''WidgetPreference'' \<Longrightarrow> e_db s' t = e_db s t"
proof -
  have out: "outside_tx s" and ready: "idle (opened s)" "fair_scan (opened s)" "integrity wrt_schema (opened s)"
    using assms(1) by (simp_all add: wrt_ready_def integrity_opened)
  let ?db = "(e_db s)(''WidgetPreference'' := filter (\<lambda>r. \<not> is_pref h (c_text key) r) (e_db s ''WidgetPreference''))"
  have body: "remove_body h key (opened s) =
     (if \<exists>v. pref (e_db s) h (c_text key) = Some (v, Some 1) then (Inl ReadOnlyProperty, opened s)
      else (Inr (), (opened s)\<lparr>e_db := ?db\<rparr>))"
    using delete_runs [OF idle_free [OF ready(1)], of wrt_schema "''RemoveProperty''" "''WidgetPreference''" "of_key h key"]
      check_flag_runs [OF idle_free [OF ready(1)] ready(2,3), of h key]
    by (auto simp: remove_body_def bindP_def raise_def holds_of_key_fun delete_leaf [OF pref_unreferenced]
        split: option.split)
  have pref: "pref ?db h' = (if h' = h then (pref (e_db s) h)(c_text key := None) else pref (e_db s) h')" for h'
  proof
    fix k
    show "pref ?db h' k = (if h' = h then (pref (e_db s) h)(c_text key := None) else pref (e_db s) h') k"
    proof (cases "h' = h \<and> k = c_text key")
      case True
      then show ?thesis by (simp add: pref_def)
    next
      case False
      have "filter (is_pref h' k) (filter (\<lambda>r. \<not> is_pref h (c_text key) r) rs) = filter (is_pref h' k) rs" for rs
        using False by (induction rs) (auto simp: is_pref_def)
      then show ?thesis using False by (auto simp: pref_def)
    qed
  qed
  have "(r, pref (e_db s') h) = spec_remove (c_text key) (pref (e_db s) h) \<and>
      (h' \<noteq> h \<longrightarrow> pref (e_db s') h' = pref (e_db s) h') \<and> (t \<noteq> ''WidgetPreference'' \<longrightarrow> e_db s' t = e_db s t)"
  proof (cases "\<exists>v. pref (e_db s) h (c_text key) = Some (v, Some 1)")
    case True
    have "r = Inl ReadOnlyProperty" "e_db s' = e_db s"
      using scope_outcome [OF out keeps_remove_body body [simplified True if_True]] assms(2)
      by (auto simp: RemoveProperty_body sql_handler_run is_sql_def)
    then show ?thesis using True by (simp add: spec_remove_def)
  next
    case False
    have "r = Inr ()" and s': "e_db s' = ?db"
      using scope_outcome [OF out keeps_remove_body body [simplified False if_False]] assms(2)
      by (auto simp: RemoveProperty_body sql_handler_run)
    then show ?thesis using False by (simp add: spec_remove_def s' pref)
  qed
  then show "(r, pref (e_db s') h) = spec_remove (c_text key) (pref (e_db s) h)"
    and "h' \<noteq> h \<Longrightarrow> pref (e_db s') h' = pref (e_db s) h'"
    and "t \<noteq> ''WidgetPreference'' \<Longrightarrow> e_db s' t = e_db s t" by auto
qed

text \<open>
  removing a preference refines the same map: a read-only key is refused, any other key is gone
  afterwards, and nothing else changes.
\<close>

theorem remove_property_refines:
  assumes "wrt_ready s" and "RemoveProperty h key s = (r, s')"
  shows "(r, pref (e_db s') h) = spec_remove (c_text key) (pref (e_db s) h) \<and>
    (\<forall>h'. h' \<noteq> h \<longrightarrow> pref (e_db s') h' = pref (e_db s) h') \<and>
    (\<forall>t. t \<noteq> ''WidgetPreference'' \<longrightarrow> e_db s' t = e_db s t)"
  by (intro conjI allI impI remove_property_cases [OF assms])

theorem remove_property_refines_witness:
  "fst (RemoveProperty 7 [107] one_widget) = Inr () \<and>
   pref (e_db (snd (RemoveProperty 7 [107] one_widget))) 7 [107] = None"
  using remove_property_refines [OF one_widget_state(1), of 7 "[107]"
      "fst (RemoveProperty 7 [107] one_widget)" "snd (RemoveProperty 7 [107] one_widget)"]
  by (simp add: spec_remove_def one_widget_state)


text \<open>
  once setting a new preference has failed, as for a widget that is not installed, the query of the
  thread is never reset, and every new preference of any widget is refused from then on.
\<close>

theorem failed_set_blocks_new_keys:
  assumes "wrt_ready s" and "flags_set (e_db s)" and "\<not> installed (e_db s) h" and "pref (e_db s) h (c_text key) = None"
    and "pref (e_db s) h' (c_text key') = None"
    and "SetProperty h key val ro s = (r, s1)" and "SetProperty h' key' val' ro' s1 = (r', s2)"
  shows "r = Inl (DatabaseError DaoProperty) \<and> r' = Inl (DatabaseError DaoProperty) \<and> e_db s2 = e_db s"
proof -
  let ?q = "''SetProperty.insert''"
  have out: "outside_tx s" and ready: "idle s" "fair_scan s" "integrity wrt_schema s"
    using assms(1) by (simp_all add: wrt_ready_def)
  have body: "set_body h key val ro (opened s) = (Inl SqlInternalError, (opened s)\<lparr>e_busy := (e_busy s)(?q := True)\<rparr>)"
    using set_body_run [OF assms(1,2), of h key val ro] assms(3,4) by simp
  have s1: "r = Inl (DatabaseError DaoProperty)" "e_db s1 = e_db s" "outside_tx s1" "e_busy s1 ?q"
    "free ''CheckPropertyReadFlag'' (opened s1)" "fair_scan (opened s1)" "integrity wrt_schema (opened s1)"
    using scope_outcome [OF out keeps_set_body body] assms(6) ready
    by (auto simp: SetProperty_body sql_handler_run is_sql_def outside_tx_def closed_def opened_def free_def idle_def
        fair_scan_def integrity_def)
  have flag: "CheckPropertyReadFlag h' key' (opened s1) = (Inr None, opened s1)"
    using check_flag_runs [OF s1(5-7), of h' key'] assms(5) s1(2) by simp
  have body': "set_body h' key' val' ro' (opened s1) = (Inl SqlInternalError, opened s1)"
    using s1(4) by (simp add: set_body_def bindP_def flag insert_only_def do_insert_def busy_blocks)
  have "r' = Inl (DatabaseError DaoProperty)" "e_db s2 = e_db s1"
    using scope_outcome [OF s1(3) keeps_set_body body'] assms(7)
    by (auto simp: SetProperty_body sql_handler_run is_sql_def)
  with s1 show ?thesis by simp
qed

theorem failed_set_blocks_new_keys_witness:
  "fst (SetProperty 8 [107] None False one_widget) = Inl (DatabaseError DaoProperty) \<and>
   fst (SetProperty 7 [107] None False (snd (SetProperty 8 [107] None False one_widget))) = Inl (DatabaseError DaoProperty)"
  using failed_set_blocks_new_keys [OF one_widget_state(1,2), of 8 "[107]" 7 "[107]" None False
      "fst (SetProperty 8 [107] None False one_widget)" "snd (SetProperty 8 [107] None False one_widget)" None False]
  by (metis (lifting) one_widget_state(3,4) prod.collapse numeral_eq_iff num.inject(2) num.distinct(3,5))

end
