(* ===== verification/PluginFeatureDAO.thy ===== *)
theory PluginFeatureDAO
  imports PropertyDAO
begin

text \<open>
  Plugins and features (modules/widget_dao/dao/plugin_dao_read_only.cpp, plugin_dao.cpp,
  feature_dao_read_only.cpp, feature_dao.cpp).  A \<open>std::set\<close> that is returned is a set; a plugin or
  feature object is its handle.
\<close>

section \<open>Plugins, reading\<close>

datatype installation_state =
    INSTALLATION_DEFAULT | INSTALLATION_COMPLETED | INSTALLATION_IN_PROGRESS | INSTALLATION_WAITING | UNKNOWN_ERROR

fun ToInt :: "installation_state \<Rightarrow> int" where
  "ToInt INSTALLATION_DEFAULT = 0"
| "ToInt INSTALLATION_COMPLETED = 1"
| "ToInt INSTALLATION_IN_PROGRESS = 2"
| "ToInt INSTALLATION_WAITING = 3"
| "ToInt UNKNOWN_ERROR = 4"

text \<open>The cast of a number that names no state is undefined; \<open>UNKNOWN_ERROR\<close> stands for it.\<close>

definition ToState :: "int \<Rightarrow> installation_state" where
  "ToState i = (if i = 0 then INSTALLATION_DEFAULT else if i = 1 then INSTALLATION_COMPLETED
     else if i = 2 then INSTALLATION_IN_PROGRESS else if i = 3 then INSTALLATION_WAITING else UNKNOWN_ERROR)"

definition by_handle :: "int \<Rightarrow> expr" where
  "by_handle p = Equals ''PluginProperties'' ''PluginPropertiesId'' (CInt p)"

definition by_library :: "wstr \<Rightarrow> expr" where
  "by_library name = Equals ''PluginProperties'' ''PluginLibraryName'' (CText name)"

definition getPluginRow :: "int \<Rightarrow> row db_prog" where
  "getPluginRow p = sql_handler DaoPlugin
     (bindP (get_row_list ''getPluginRow'' ''PluginProperties'' (by_handle p))
       (\<lambda>rows. case rows of [] \<Rightarrow> raise PluginNotExist | r # _ \<Rightarrow> ret r))"

definition isPluginInstalled_name :: "wstr \<Rightarrow> bool db_prog" where
  "isPluginInstalled_name name = sql_handler DaoPlugin
     (bindP (get_row_list ''isPluginInstalled(name)'' ''PluginProperties'' (by_library name)) (\<lambda>rows. ret (rows \<noteq> [])))"

definition isPluginInstalled_handle :: "int \<Rightarrow> bool db_prog" where
  "isPluginInstalled_handle p = sql_handler DaoPlugin
     (bindP (get_row_list ''isPluginInstalled(handle)'' ''PluginProperties'' (by_handle p)) (\<lambda>rows. ret (rows \<noteq> [])))"

definition getInstallationStateForHandle :: "int \<Rightarrow> installation_state db_prog" where
  "getInstallationStateForHandle p = sql_handler DaoPlugin
     (bindP (get_row_list ''getInstallationStateForHandle'' ''PluginProperties'' (by_handle p))
       (\<lambda>rows. case rows of [] \<Rightarrow> ret UNKNOWN_ERROR | r # _ \<Rightarrow> ret (ToState (int_of r ''InstallationState''))))"

definition checkInstallationCompleted :: "int \<Rightarrow> unit db_prog" where
  "checkInstallationCompleted p = bindP (getInstallationStateForHandle p) (\<lambda>st.
     if st \<noteq> INSTALLATION_COMPLETED then raise PluginInstallationNotCompleted else ret ())"

text \<open>The constructors.\<close>

definition PluginDAO_handle :: "int \<Rightarrow> int db_prog" where
  "PluginDAO_handle p = bindP (isPluginInstalled_handle p) (\<lambda>b.
     if \<not> b then raise PluginNotExist
     else thenP (checkInstallationCompleted p) (ret p))"

definition PluginDAO_name :: "wstr \<Rightarrow> int db_prog" where
  "PluginDAO_name name = sql_handler DaoPlugin
     (bindP (get_row_list ''PluginDAOReadOnly(name)'' ''PluginProperties'' (by_library name))
       (\<lambda>rows. case rows of
          [] \<Rightarrow> raise PluginNotExist
        | r # _ \<Rightarrow> thenP (checkInstallationCompleted (int_of r ''PluginPropertiesId''))
                    (ret (int_of r ''PluginPropertiesId''))))"

definition getPluginHandleList :: "int list db_prog" where
  "getPluginHandleList = sql_handler DaoPlugin
     (bindP (get_all_rows ''getPluginHandleList'' ''PluginProperties'')
       (\<lambda>rows. ret (map (\<lambda>r. int_of r ''PluginPropertiesId'') rows)))"

definition getLibraryPath :: "int \<Rightarrow> wstr db_prog" where
  "getLibraryPath p = bindP (getPluginRow p) (\<lambda>r.
     ret (case opt_text_of r ''PluginLibraryPath'' of None \<Rightarrow> [] | Some w \<Rightarrow> w))"

definition getLibraryName :: "int \<Rightarrow> wstr db_prog" where
  "getLibraryName p = bindP (getPluginRow p) (\<lambda>r. ret (text_of r ''PluginLibraryName''))"

definition getLibraryDependencies :: "int \<Rightarrow> int set db_prog" where
  "getLibraryDependencies p = sql_handler DaoPlugin
     (bindP (get_row_list ''getLibraryDependencies'' ''PluginDependencies''
         (Equals ''PluginDependencies'' ''PluginPropertiesId'' (CInt p)))
       (\<lambda>rows. ret (set (map (\<lambda>r. int_of r ''RequiredPluginPropertiesId'') rows))))"

definition getPluginHandleForImplementedObject :: "wstr \<Rightarrow> int db_prog" where
  "getPluginHandleForImplementedObject obj = sql_handler DaoPlugin
     (bindP (get_row_list ''getPluginHandleForImplementedObject'' ''PluginImplementedObjects''
         (Equals ''PluginImplementedObjects'' ''PluginObject'' (CText obj)))
       (\<lambda>rows. case rows of [] \<Rightarrow> ret (- 1) | r # _ \<Rightarrow> ret (int_of r ''PluginPropertiesId'')))"

definition getImplementedObjectsForPluginHandle :: "int \<Rightarrow> wstr list db_prog" where
  "getImplementedObjectsForPluginHandle p = sql_handler DaoPlugin
     (bindP (get_row_list ''getImplementedObjectsForPluginHandle'' ''PluginImplementedObjects''
         (Equals ''PluginImplementedObjects'' ''PluginPropertiesId'' (CInt p)))
       (\<lambda>rows. ret (map (\<lambda>r. text_of r ''PluginObject'') rows)))"

definition getRequiredObjectsForPluginHandle :: "int \<Rightarrow> wstr set db_prog" where
  "getRequiredObjectsForPluginHandle p = sql_handler DaoPlugin
     (bindP (get_row_list ''getRequiredObjectsForPluginHandle'' ''PluginRequiredObjects''
         (Equals ''PluginRequiredObjects'' ''PluginPropertiesId'' (CInt p)))
       (\<lambda>rows. ret (set (map (\<lambda>r. text_of r ''PluginObject'') rows))))"

definition getPluginHandleByStatus :: "installation_state \<Rightarrow> int set db_prog" where
  "getPluginHandleByStatus st = sql_handler DaoPlugin
     (bindP (get_row_list ''getPluginHandleByStatus'' ''PluginProperties''
         (Equals ''PluginProperties'' ''InstallationState'' (CInt (ToInt st))))
       (\<lambda>rows. ret (set (map (\<lambda>r. int_of r ''PluginPropertiesId'') rows))))"

definition getInstallationStatus :: "int \<Rightarrow> installation_state db_prog" where
  "getInstallationStatus p = bindP (getPluginRow p) (\<lambda>r. ret (ToState (int_of r ''InstallationState'')))"

section \<open>Plugins, writing\<close>

definition plugin_cells :: "wstr \<Rightarrow> wstr \<Rightarrow> row" where
  "plugin_cells name path = [(''InstallationState'', CInt (ToInt INSTALLATION_IN_PROGRESS)),
     (''PluginLibraryName'', CText name), (''PluginLibraryPath'', CText path)]"

definition registerPlugin :: "wstr \<Rightarrow> wstr \<Rightarrow> int db_prog" where
  "registerPlugin name path = sql_handler DaoPlugin (scope
     (bindP (bindP (isPluginInstalled_name name) (\<lambda>b.
        if b then PluginDAO_name name
        else wrt_insert ''registerPlugin'' ''PluginProperties'' (plugin_cells name path)))
      (\<lambda>x. thenP commit (ret x))))"

definition registerPluginImplementedObject :: "wstr \<Rightarrow> int \<Rightarrow> unit db_prog" where
  "registerPluginImplementedObject obj p = sql_handler DaoPlugin (scope
     (bindP (insert_only ''registerPluginImplementedObject'' ''PluginImplementedObjects''
        [(''PluginObject'', CText obj), (''PluginPropertiesId'', CInt p)])
      (\<lambda>x. thenP commit (ret x))))"

definition registerPluginRequiredObject :: "wstr \<Rightarrow> int \<Rightarrow> unit db_prog" where
  "registerPluginRequiredObject obj p = sql_handler DaoPlugin (scope
     (bindP (insert_only ''registerPluginRequiredObject'' ''PluginRequiredObjects''
        [(''PluginPropertiesId'', CInt p), (''PluginObject'', CText obj)])
      (\<lambda>x. thenP commit (ret x))))"

text \<open>The commit stands inside the loop.\<close>

definition registerPluginLibrariesDependencies :: "int \<Rightarrow> int list \<Rightarrow> unit db_prog" where
  "registerPluginLibrariesDependencies p deps = sql_handler DaoPlugin (scope
     (forP (\<lambda>it. thenP (insert_only ''registerPluginLibrariesDependencies'' ''PluginDependencies''
         [(''PluginPropertiesId'', CInt p), (''RequiredPluginPropertiesId'', CInt it)]) commit) deps))"

definition setPluginInstallationStatus :: "int \<Rightarrow> installation_state \<Rightarrow> unit db_prog" where
  "setPluginInstallationStatus p st = sql_handler DaoPlugin (scope
     (bindP (wrt_update ''setPluginInstallationStatus'' ''PluginProperties'' (by_handle p)
        [(''InstallationState'', CInt (ToInt st))])
      (\<lambda>x. thenP commit (ret x))))"

section \<open>Features, reading\<close>

definition by_feature :: "wstr \<Rightarrow> expr" where
  "by_feature name = Equals ''FeaturesList'' ''FeatureName'' (CText name)"

definition by_uuid :: "int \<Rightarrow> expr" where
  "by_uuid f = Equals ''FeaturesList'' ''FeatureUUID'' (CInt f)"

definition isFeatureInstalled_name :: "wstr \<Rightarrow> bool db_prog" where
  "isFeatureInstalled_name name = sql_handler DaoFeature
     (bindP (get_row_list ''isFeatureInstalled(name)'' ''FeaturesList'' (by_feature name)) (\<lambda>rows. ret (rows \<noteq> [])))"

definition isFeatureInstalled_handle :: "int \<Rightarrow> bool db_prog" where
  "isFeatureInstalled_handle f = sql_handler DaoFeature
     (bindP (get_row_list ''isFeatureInstalled(handle)'' ''FeaturesList'' (by_uuid f)) (\<lambda>rows. ret (rows \<noteq> [])))"

definition FeatureDAO_handle :: "int \<Rightarrow> int db_prog" where
  "FeatureDAO_handle f = bindP (isFeatureInstalled_handle f) (\<lambda>b. if \<not> b then raise FeatureNotExist else ret f)"

definition FeatureDAO_name :: "wstr \<Rightarrow> int db_prog" where
  "FeatureDAO_name name = sql_handler DaoFeature
     (bindP (get_single_row ''FeatureDAOReadOnly(name)'' ''FeaturesList'' (by_feature name))
       (\<lambda>r. ret (int_of r ''FeatureUUID'')))"

definition GetName :: "int \<Rightarrow> wstr db_prog" where
  "GetName f = sql_handler DaoFeature
     (bindP (get_single_row ''GetName'' ''FeaturesList'' (by_uuid f)) (\<lambda>r. ret (text_of r ''FeatureName'')))"

definition GetPluginHandle :: "int \<Rightarrow> int db_prog" where
  "GetPluginHandle f = sql_handler DaoFeature
     (bindP (get_single_row ''GetPluginHandle'' ''FeaturesList'' (by_uuid f)) (\<lambda>r. ret (int_of r ''PluginPropertiesId'')))"

definition get_plugin_data :: "(int \<Rightarrow> 'a db_prog) \<Rightarrow> int \<Rightarrow> 'a db_prog" where
  "get_plugin_data func f = sql_handler DaoFeature (scope
     (bindP (bindP (GetPluginHandle f) (\<lambda>p. bindP (PluginDAO_handle p) func))
      (\<lambda>x. thenP commit (ret x))))"

definition GetLibraryPath :: "int \<Rightarrow> wstr db_prog" where
  "GetLibraryPath = get_plugin_data getLibraryPath"

definition GetLibraryName :: "int \<Rightarrow> wstr db_prog" where
  "GetLibraryName = get_plugin_data getLibraryName"

definition GetHandleList :: "int list db_prog" where
  "GetHandleList = sql_handler DaoFeature
     (bindP (get_all_rows ''GetHandleList'' ''FeaturesList'') (\<lambda>rows. ret (map (\<lambda>r. int_of r ''FeatureUUID'') rows)))"

definition by_capability :: "wstr \<Rightarrow> expr" where
  "by_capability cap = Equals ''DeviceCapabilities'' ''DeviceCapName'' (CText cap)"

definition isDeviceCapabilityInstalled :: "wstr \<Rightarrow> bool db_prog" where
  "isDeviceCapabilityInstalled cap = sql_handler DaoFeature
     (bindP (get_row_list ''isDeviceCapabilityInstalled'' ''DeviceCapabilities'' (by_capability cap))
       (\<lambda>rows. ret (rows \<noteq> [])))"

definition GetDeviceCapabilities :: "int \<Rightarrow> wstr set db_prog" where
  "GetDeviceCapabilities f = sql_handler DaoFeature (scope
     (bindP (bindP (get_value_list ''GetDeviceCapabilities.proxy'' ''FeatureDeviceCapProxy''
            (Equals ''FeatureDeviceCapProxy'' ''FeatureUUID'' (CInt f)) (\<lambda>r. int_of r ''DeviceCapID''))
          (\<lambda>ids. bindP (mapP (\<lambda>i. bindP (get_single_row ''GetDeviceCapabilities.name'' ''DeviceCapabilities''
                (Equals ''DeviceCapabilities'' ''DeviceCapID'' (CInt i))) (\<lambda>r. ret (text_of r ''DeviceCapName''))) ids)
            (\<lambda>names. ret (set names))))
      (\<lambda>x. thenP commit (ret x))))"

definition GetFeatureHandleListForPlugin :: "int \<Rightarrow> int list db_prog" where
  "GetFeatureHandleListForPlugin p = sql_handler DaoFeature
     (get_value_list ''GetFeatureHandleListForPlugin'' ''FeaturesList''
       (Equals ''FeaturesList'' ''PluginPropertiesId'' (CInt p)) (\<lambda>r. int_of r ''FeatureUUID''))"

text \<open>\<open>std::map::insert\<close> keeps the first entry of a key.\<close>

definition GetNames :: "(int \<Rightarrow> wstr option) db_prog" where
  "GetNames = sql_handler DaoFeature
     (bindP (get_all_rows ''GetNames'' ''FeaturesList'')
       (\<lambda>rows. ret (map_of (map (\<lambda>r. (int_of r ''FeatureUUID'', text_of r ''FeatureName'')) rows))))"

text \<open>The join of two tables on a pair of columns; the multimap is ordered by its keys.\<close>

definition join_step :: "string \<Rightarrow> string \<Rightarrow> string \<Rightarrow> string \<Rightarrow> row list db_prog" where
  "join_step t c t' c' s = (Inr (e_scan s (concat (map (\<lambda>r. map (\<lambda>r'. r @ r')
     (filter (\<lambda>r'. get r c = get r' c' \<and> get r c \<noteq> CNull) (e_db s t'))) (e_db s t)))), s)"

definition GetDevCapWithFeatureHandle :: "(int \<times> wstr) list db_prog" where
  "GetDevCapWithFeatureHandle = sql_handler DaoFeature
     (bindP (run_query ''GetDevCapWithFeatureHandle''
          (join_step ''FeatureDeviceCapProxy'' ''DeviceCapID'' ''DeviceCapabilities'' ''DeviceCapID''))
       (\<lambda>rows. ret (sort_key fst (map (\<lambda>r. (int_of r ''FeatureUUID'', text_of r ''DeviceCapName'')) rows))))"

section \<open>Features, writing\<close>

definition register_capability :: "int \<Rightarrow> wstr \<Rightarrow> unit db_prog" where
  "register_capability f cap =
     bindP (isDeviceCapabilityInstalled cap) (\<lambda>b.
       bindP (if b then bindP (get_single_row ''RegisterFeature.capability'' ''DeviceCapabilities'' (by_capability cap))
                         (\<lambda>r. ret (int_of r ''DeviceCapID''))
              else wrt_insert ''RegisterFeature.insertCapability'' ''DeviceCapabilities'' [(''DeviceCapName'', CText cap)])
         (\<lambda>i. insert_only ''RegisterFeature.proxy'' ''FeatureDeviceCapProxy''
                [(''FeatureUUID'', CInt f), (''DeviceCapID'', CInt i)]))"

definition RegisterFeature :: "wstr \<Rightarrow> wstr list \<Rightarrow> int \<Rightarrow> int db_prog" where
  "RegisterFeature name caps p = sql_handler DaoFeature (scope
     (bindP (isFeatureInstalled_name name) (\<lambda>b.
        if b then thenP commit (ret (- 1))
        else thenP (insert_only ''RegisterFeature'' ''FeaturesList''
                     [(''FeatureName'', CText name), (''PluginPropertiesId'', CInt p)])
               (bindP (FeatureDAO_name name) (\<lambda>f.
                 thenP (forP (register_capability f) caps) (thenP commit (ret f)))))))"

section \<open>Facts\<close>

lemma integrity_after:
  "keeps (integrity wrt_schema) m \<Longrightarrow> integrity wrt_schema s \<Longrightarrow> m s = (r, t) \<Longrightarrow> integrity wrt_schema t"
  by (rule keeps_pair)

lemma keeps_insert_only_integ [inv_intros]: "keeps (integrity wrt_schema) (insert_only site t cv)"
  unfolding insert_only_def by (intro integ.keeps_tx)

lemma foldr_max_ge: "x \<in> set xs \<Longrightarrow> x \<le> foldr max xs (a :: int)"
  by (induction xs) auto

lemma next_rowid_fresh: "r \<in> set rows \<Longrightarrow> get r c \<noteq> CInt (next_rowid c rows used)"
proof
  assume r: "r \<in> set rows" and "get r c = CInt (next_rowid c rows used)"
  then have "cell_int (get r c) = next_rowid c rows used" by (simp add: cell_int_def)
  moreover have "cell_int (get r c) \<le> foldr max (map (\<lambda>r. cell_int (get r c)) rows) used"
    using r by (intro foldr_max_ge) auto
  ultimately show False by (simp add: next_rowid_def)
qed

text \<open>Registering the libraries a plugin depends on.\<close>

definition dependency_cells :: "int \<Rightarrow> int \<Rightarrow> row" where
  "dependency_cells p d = [(''PluginPropertiesId'', CInt p), (''RequiredPluginPropertiesId'', CInt d)]"

lemma dependency_insert:
  "insert_row wrt_schema ''PluginDependencies'' (map (\<lambda>(c, v). (c, bound v)) (dependency_cells p d)) (db, seq) =
     Some (0, db(''PluginDependencies'' := db ''PluginDependencies'' @ [dependency_cells p d]), seq)"
proof -
  have row: "full_row PluginDependencies_table k (map (\<lambda>(c, v). (c, bound v)) (dependency_cells p d)) = dependency_cells p d" for k
    by (simp add: full_row_def PluginDependencies_table_def sql_table_def column_defs dependency_cells_def)
  have ok: "row_ok PluginDependencies_table (dependency_cells p d)"
    by (simp add: row_ok_def PluginDependencies_table_def sql_table_def column_defs dependency_cells_def
        get_Cons cell_ok_def)
  have sc: "ts_keys PluginDependencies_table = []" "ts_rowid PluginDependencies_table = None"
    "ts_auto PluginDependencies_table = False" "ts_fks PluginDependencies_table = []"
    by (simp_all add: PluginDependencies_table_def sql_table_def)
  show ?thesis
    by (simp add: insert_row_def table_of sc Let_def row row_fits_def ok)
qed

definition add_dependencies :: "int \<Rightarrow> int list \<Rightarrow> tables \<Rightarrow> tables" where
  "add_dependencies p deps db =
     db(''PluginDependencies'' := db ''PluginDependencies'' @ map (dependency_cells p) deps)"

definition dependency_step :: "int \<Rightarrow> int \<Rightarrow> unit db_prog" where
  "dependency_step p d = thenP (insert_only ''registerPluginLibrariesDependencies'' ''PluginDependencies''
     [(''PluginPropertiesId'', CInt p), (''RequiredPluginPropertiesId'', CInt d)]) commit"

text \<open>After the first commit of the loop every further one only takes the counter below zero.\<close>

lemma dependency_step_run:
  assumes "idle s" and "e_depth s \<noteq> 1"
  shows "dependency_step p d s = (Inr (), s\<lparr>e_db := add_dependencies p [d] (e_db s), e_depth := e_depth s - 1,
     e_scopes := True # tl (e_scopes s)\<rparr>)"
proof -
  have same: "s\<lparr>e_db := x, e_seq := e_seq s\<rparr> = s\<lparr>e_db := x\<rparr>" for x by (cases s) simp
  have "e_depth s - 1 \<noteq> 0" using assms(2) by simp
  then show ?thesis
    using insert_runs [OF idle_free [OF assms(1)] dependency_insert [unfolded dependency_cells_def]]
    by (simp add: dependency_step_def insert_only_def commit_def prog_simps tx_unref_def Let_def
        add_dependencies_def dependency_cells_def same)
qed

lemma dependency_step_first:
  assumes "idle s" and "in_tx snap sc s"
  shows "dependency_step p d s = (Inr (), s\<lparr>e_db := add_dependencies p [d] (e_db s), e_depth := 0,
     e_saved := None, e_scopes := True # sc\<rparr>)"
proof -
  have same: "s\<lparr>e_db := x, e_seq := e_seq s\<rparr> = s\<lparr>e_db := x\<rparr>" for x by (cases s) simp
  have "(case snap of (db, seq) \<Rightarrow> t) = t" for t by (cases snap) simp
  then show ?thesis
    using insert_runs [OF idle_free [OF assms(1)] dependency_insert [unfolded dependency_cells_def]] assms(2)
    by (cases snap) (simp add: dependency_step_def insert_only_def commit_def prog_simps tx_unref_def Let_def
        add_dependencies_def dependency_cells_def same in_tx_def)
qed

lemma add_dependencies_append:
  "add_dependencies p ds (add_dependencies p [d] db) = add_dependencies p (d # ds) db"
  by (simp add: add_dependencies_def)

lemma add_dependencies_Nil [simp]: "add_dependencies p [] db = db"
  by (simp add: add_dependencies_def)

lemma dependency_rest:
  "idle s \<Longrightarrow> e_depth s = - of_nat k \<Longrightarrow> k + length ds < 2 ^ 32 - 1 \<Longrightarrow> e_scopes s = True # sc \<Longrightarrow>
   forP (dependency_step p) ds s =
     (Inr (), s\<lparr>e_db := add_dependencies p ds (e_db s), e_depth := - of_nat (k + length ds)\<rparr>)"
proof (induction ds arbitrary: s k)
  case Nil
  then show ?case by (cases s) (simp add: ret_def)
next
  case (Cons d ds)
  have "e_depth s \<noteq> 1"
  proof
    assume "e_depth s = 1"
    then have "of_nat k = (- 1 :: 32 word)" using Cons.prems(2) by (metis minus_minus)
    then have "unat (of_nat k :: 32 word) = unat (- 1 :: 32 word)" by simp
    moreover have "unat (of_nat k :: 32 word) = k"
      using Cons.prems(3) by (simp add: unat_of_nat take_bit_nat_eq_self_iff)
    ultimately show False
      using Cons.prems(3) by (simp add: unsigned_minus_1_eq_mask mask_eq_exp_minus_1)
  qed
  from dependency_step_run [OF Cons.prems(1) this, of p d]
  show ?case
    using Cons.IH [of "s\<lparr>e_db := add_dependencies p [d] (e_db s), e_depth := e_depth s - 1,
       e_scopes := True # tl (e_scopes s)\<rparr>" "Suc k"] Cons.prems
    by (simp add: thenP_def bindP_def add_dependencies_append)
qed

lemma tx_begin_outside: "outside_tx s \<Longrightarrow> (case tx_begin s of (r, t) \<Rightarrow> (r, t\<lparr>e_scopes := False # e_scopes t\<rparr>)) = (Inr (), opened s)"
  by (simp add: tx_begin_def outside_tx_def Let_def opened_def)

lemma scope_opens:
  assumes "outside_tx s" and "body (opened s) = (r, u)" and "hd (e_scopes u)"
  shows "scope body s = (r, u\<lparr>e_scopes := tl (e_scopes u)\<rparr>)"
proof -
  obtain t where "tx_begin s = (Inr (), t)" "t\<lparr>e_scopes := False # e_scopes t\<rparr> = opened s"
    using tx_begin_outside [OF assms(1)] by (cases "tx_begin s") auto
  then show ?thesis using assms(2,3) by (simp add: scope_def Let_def)
qed

lemma dependencies_run:
  assumes "idle s" and "outside_tx s" and "length ds < 2 ^ 31"
  shows "registerPluginLibrariesDependencies p (d # ds) s =
     (Inr (), s\<lparr>e_db := add_dependencies p (d # ds) (e_db s), e_depth := - of_nat (length ds),
        e_cancel := False, e_saved := None\<rparr>)"
proof -
  let ?t = "(opened s)\<lparr>e_db := add_dependencies p [d] (e_db s), e_depth := 0, e_saved := None,
     e_scopes := True # e_scopes s\<rparr>"
  have first: "dependency_step p d (opened s) = (Inr (), ?t)"
    using dependency_step_first [OF _ opened_in_tx, of s p d] assms(1) by simp
  have rest: "forP (dependency_step p) ds ?t = (Inr (), ?t\<lparr>e_db := add_dependencies p ds (e_db ?t),
      e_depth := - of_nat (0 + length ds)\<rparr>)"
    using assms by (intro dependency_rest [where sc = "e_scopes s"]) simp_all
  let ?u = "(opened s)\<lparr>e_db := add_dependencies p (d # ds) (e_db s), e_depth := - of_nat (length ds),
     e_saved := None, e_scopes := True # e_scopes s\<rparr>"
  have all: "forP (dependency_step p) (d # ds) (opened s) = (Inr (), ?u)"
    using rest by (simp add: thenP_def bindP_def first add_dependencies_append)
  have "scope (forP (dependency_step p) (d # ds)) s = (Inr (), ?u\<lparr>e_scopes := tl (e_scopes ?u)\<rparr>)"
    by (rule scope_opens [where s = s and body = "forP (dependency_step p) (d # ds)" and r = "Inr ()" and u = ?u,
        OF assms(2) all]) simp
  then have "scope (forP (dependency_step p) (d # ds)) s =
      (Inr (), s\<lparr>e_db := add_dependencies p (d # ds) (e_db s), e_depth := - of_nat (length ds),
        e_cancel := False, e_saved := None\<rparr>)"
    by (simp add: opened_def)
  then show ?thesis
    by (simp add: registerPluginLibrariesDependencies_def dependency_step_def [symmetric] sql_handler_run)
qed

lemma small_negative_word:
  assumes "0 < n" and "n < 2 ^ 31"
  shows "- of_nat n \<noteq> (0 :: 32 word)"
proof
  assume "- of_nat n = (0 :: 32 word)"
  then have "unat (of_nat n :: 32 word) = 0" by (metis neg_equal_0_iff_equal unat_0)
  then show False using assms by (simp add: unat_of_nat take_bit_nat_eq_self_iff)
qed

text \<open>The life of a plugin.\<close>

definition named :: "wstr \<Rightarrow> row \<Rightarrow> bool" where
  "named name r \<longleftrightarrow> get r ''PluginLibraryName'' = CText name"

definition handled :: "int \<Rightarrow> row \<Rightarrow> bool" where
  "handled p r \<longleftrightarrow> get r ''PluginPropertiesId'' = CInt p"

lemma holds_plugin: "holds (by_library name) = named (c_text name)" "holds (by_handle p) = handled p"
  by (auto simp: by_library_def by_handle_def Equals_def named_def handled_def)

definition plugin_row :: "int \<Rightarrow> int \<Rightarrow> wstr \<Rightarrow> wstr \<Rightarrow> row" where
  "plugin_row p st name path = [(''PluginPropertiesId'', CInt p), (''InstallationState'', CInt st),
     (''PluginLibraryName'', CText name), (''PluginLibraryPath'', CText path)]"

lemma plugin_schema:
  "ts_keys PluginProperties_table = [[''PluginPropertiesId''], [''PluginLibraryName'']]"
  "ts_rowid PluginProperties_table = Some ''PluginPropertiesId''" "ts_auto PluginProperties_table = True"
  "ts_fks PluginProperties_table = []"
  "map col_name (ts_columns PluginProperties_table) =
     [''PluginPropertiesId'', ''InstallationState'', ''PluginLibraryName'', ''PluginLibraryPath'']"
  by (simp_all add: PluginProperties_table_def sql_table_def column_defs)

lemma plugin_row_ok: "row_ok PluginProperties_table (plugin_row p st name path)"
  by (simp add: row_ok_def PluginProperties_table_def sql_table_def column_defs plugin_row_def get_Cons cell_ok_def)

lemma plugin_insert:
  assumes "\<not> (\<exists>r \<in> set (db ''PluginProperties''). named (c_text name) r)"
  shows "\<exists>seq'. insert_row wrt_schema ''PluginProperties'' (map (\<lambda>(c, v). (c, bound v)) (plugin_cells name path)) (db, seq) =
     Some (next_rowid ''PluginPropertiesId'' (db ''PluginProperties'') (seq ''PluginProperties''),
       db(''PluginProperties'' := db ''PluginProperties'' @
         [plugin_row (next_rowid ''PluginPropertiesId'' (db ''PluginProperties'') (seq ''PluginProperties'')) 2
            (c_text name) (c_text path)]), seq')"
proof -
  let ?p = "next_rowid ''PluginPropertiesId'' (db ''PluginProperties'') (seq ''PluginProperties'')"
  let ?row = "plugin_row ?p 2 (c_text name) (c_text path)"
  have row: "full_row PluginProperties_table ?p (map (\<lambda>(c, v). (c, bound v)) (plugin_cells name path)) = ?row"
    by (simp add: full_row_def PluginProperties_table_def sql_table_def column_defs plugin_cells_def plugin_row_def)
  have "row_fits PluginProperties_table (db ''PluginProperties'') ?row"
    using assms next_rowid_fresh [of _ "db ''PluginProperties''" "''PluginPropertiesId''" "seq ''PluginProperties''"]
    by (auto simp: row_fits_def plugin_row_ok plugin_schema same_key_def list_ex_iff named_def)
      (auto simp: plugin_row_def get_Cons)
  then show ?thesis
    by (simp add: insert_row_def table_of plugin_schema Let_def row) (simp add: plugin_row_def get_Cons cell_int_def)
qed

lemma plugin_unique:
  assumes "integrity wrt_schema s" and "r \<in> set (e_db s ''PluginProperties'')"
  shows "get r ''PluginLibraryName'' = CText name \<Longrightarrow> filter (named name) (e_db s ''PluginProperties'') = [r]"
    and "get r ''PluginPropertiesId'' = CInt p \<Longrightarrow> filter (handled p) (e_db s ''PluginProperties'') = [r]"
proof -
  have sorted: "sorted_wrt (\<lambda>r r'. \<not> same_key ks r r') (e_db s ''PluginProperties'')"
    if "ks \<in> {[''PluginPropertiesId''], [''PluginLibraryName'']}" for ks
    using integrity_table [OF assms(1) table_of(18)] that by (auto simp: table_ok_def plugin_schema)
  show "filter (named name) (e_db s ''PluginProperties'') = [r]" if n: "get r ''PluginLibraryName'' = CText name"
    by (rule the_filter [OF sorted [of "[''PluginLibraryName'']"]]) (use assms(2) n in \<open>auto simp: same_key_def named_def\<close>)
  show "filter (handled p) (e_db s ''PluginProperties'') = [r]" if n: "get r ''PluginPropertiesId'' = CInt p"
    by (rule the_filter [OF sorted [of "[''PluginPropertiesId'']"]]) (use assms(2) n in \<open>auto simp: same_key_def handled_def\<close>)
qed

lemma installed_name_runs:
  assumes "idle s" and "fair_scan s"
  shows "isPluginInstalled_name name s = (Inr (\<exists>r \<in> set (e_db s ''PluginProperties''). named (c_text name) r), s)"
  using rows_run(1) [OF idle_free [OF assms(1)], of "''isPluginInstalled(name)''" "''PluginProperties''" "by_library name"]
    assms(2)
  by (simp add: isPluginInstalled_name_def sql_handler_run bindP_def ret_def holds_plugin filter_empty_conv)

lemma plugin_state_runs:
  assumes "idle s" and "fair_scan s" and "integrity wrt_schema s"
    and "r \<in> set (e_db s ''PluginProperties'')" and "get r ''PluginPropertiesId'' = CInt p"
  shows "getInstallationStateForHandle p s = (Inr (ToState (int_of r ''InstallationState'')), s)"
  using rows_run(1) [OF idle_free [OF assms(1)], of "''getInstallationStateForHandle''" "''PluginProperties''" "by_handle p"]
    plugin_unique(2) [OF assms(3-5)] assms(2)
  by (simp add: getInstallationStateForHandle_def sql_handler_run bindP_def ret_def holds_plugin)

lemma plugin_dao_runs:
  assumes "idle s" and "fair_scan s" and "integrity wrt_schema s"
    and "r \<in> set (e_db s ''PluginProperties'')" and "get r ''PluginPropertiesId'' = CInt p"
    and "get r ''PluginLibraryName'' = CText (c_text name)"
  shows "PluginDAO_name name s =
     (if ToState (int_of r ''InstallationState'') = INSTALLATION_COMPLETED then Inr p
      else Inl PluginInstallationNotCompleted, s)"
  using rows_run(1) [OF idle_free [OF assms(1)], of "''PluginDAOReadOnly(name)''" "''PluginProperties''" "by_library name"]
    plugin_unique(1) [OF assms(3,4,6)] plugin_state_runs [OF assms(1-5)] assms(2,5)
  by (simp add: PluginDAO_name_def checkInstallationCompleted_def sql_handler_run bindP_def thenP_def ret_def raise_def
      holds_plugin is_sql_def)

definition register_plugin_body :: "wstr \<Rightarrow> wstr \<Rightarrow> int db_prog" where
  "register_plugin_body name path = bindP (isPluginInstalled_name name) (\<lambda>b.
     if b then PluginDAO_name name
     else wrt_insert ''registerPlugin'' ''PluginProperties'' (plugin_cells name path))"

lemma registerPlugin_body: "registerPlugin name path =
    sql_handler DaoPlugin (scope (bindP (register_plugin_body name path) (\<lambda>x. thenP commit (ret x))))"
  by (simp add: registerPlugin_def register_plugin_body_def)

lemma keeps_plugin_reads:
  "keeps (in_tx snap sc) (isPluginInstalled_name name)" "keeps (in_tx snap sc) (PluginDAO_name name)"
  unfolding isPluginInstalled_name_def PluginDAO_name_def checkInstallationCompleted_def getInstallationStateForHandle_def
  by (intro intx.keeps_db keeps_cases)+

lemma keeps_register_plugin: "keeps (in_tx snap sc) (register_plugin_body name path)"
  unfolding register_plugin_body_def by (intro keeps_bind keeps_cond keeps_plugin_reads intx.keeps_db)

lemma integrity_plugin:
  "keeps (integrity wrt_schema) (registerPlugin name path)"
  "keeps (integrity wrt_schema) (setPluginInstallationStatus p st)"
  unfolding registerPlugin_def setPluginInstallationStatus_def isPluginInstalled_name_def PluginDAO_name_def
    checkInstallationCompleted_def getInstallationStateForHandle_def
  by (intro integ.keeps_tx keeps_cases)+

lemma ready_opened:
  "wrt_ready s \<Longrightarrow> idle (opened s) \<and> fair_scan (opened s) \<and> integrity wrt_schema (opened s) \<and> outside_tx s"
  by (simp add: wrt_ready_def integrity_opened)

lemma register_new_plugin:
  assumes "wrt_ready s" and "\<not> (\<exists>r \<in> set (e_db s ''PluginProperties''). named (c_text name) r)"
    and "registerPlugin name path s = (r, s1)"
  shows "\<exists>p. r = Inr p \<and> wrt_ready s1 \<and> e_db s1 = (e_db s)(''PluginProperties'' := e_db s ''PluginProperties'' @
      [plugin_row p 2 (c_text name) (c_text path)])"
proof -
  have o: "idle (opened s)" "fair_scan (opened s)" "integrity wrt_schema (opened s)" "outside_tx s"
    using ready_opened [OF assms(1)] by simp_all
  obtain p seq' where ins: "insert_row wrt_schema ''PluginProperties'' (map (\<lambda>(c, v). (c, bound v)) (plugin_cells name path))
      (e_db (opened s), e_seq (opened s)) = Some (p, (e_db s)(''PluginProperties'' := e_db s ''PluginProperties'' @
      [plugin_row p 2 (c_text name) (c_text path)]), seq')"
    using plugin_insert [where db = "e_db s" and seq = "e_seq s" and path = path, OF assms(2)] by auto
  let ?u = "(opened s)\<lparr>e_db := (e_db s)(''PluginProperties'' := e_db s ''PluginProperties'' @
      [plugin_row p 2 (c_text name) (c_text path)]), e_seq := seq'\<rparr>"
  have body: "register_plugin_body name path (opened s) = (Inr p, ?u)"
    using installed_name_runs [OF o(1,2), of name] assms(2)
      insert_runs [OF idle_free [OF o(1)] ins, of "''registerPlugin''"]
    by (simp add: register_plugin_body_def bindP_def)
  have run: "registerPlugin name path s = (Inr p, closed False ?u)"
    using scope_outcome [OF o(4) keeps_register_plugin body] by (simp add: registerPlugin_body sql_handler_run)
  have "integrity wrt_schema s" using assms(1) by (simp add: wrt_ready_def)
  from integrity_after [OF integrity_plugin(1) this run] assms(1,3) run
  show ?thesis by (auto simp: wrt_ready_def fair_scan_def)
qed

lemma register_known_plugin:
  assumes "wrt_ready s" and "r \<in> set (e_db s ''PluginProperties'')" and "get r ''PluginPropertiesId'' = CInt p"
    and "get r ''PluginLibraryName'' = CText (c_text name)" and "registerPlugin name path s = (res, s1)"
  shows "res = (if ToState (int_of r ''InstallationState'') = INSTALLATION_COMPLETED then Inr p
      else Inl PluginInstallationNotCompleted) \<and> e_db s1 = e_db s"
proof -
  have o: "idle (opened s)" "fair_scan (opened s)" "integrity wrt_schema (opened s)" "outside_tx s"
    using ready_opened [OF assms(1)] by simp_all
  have "named (c_text name) r" using assms(4) by (simp add: named_def)
  then have body: "register_plugin_body name path (opened s) =
      (if ToState (int_of r ''InstallationState'') = INSTALLATION_COMPLETED then Inr p
       else Inl PluginInstallationNotCompleted, opened s)"
    using installed_name_runs [OF o(1,2), of name] plugin_dao_runs [OF o(1-3) _ assms(3,4)] assms(2)
    by (auto simp: register_plugin_body_def bindP_def)
  show ?thesis
    using scope_outcome [OF o(4) keeps_register_plugin body] assms(5)
    by (auto simp: registerPlugin_body sql_handler_run is_sql_def split: if_splits)
qed

lemma set_status_run:
  assumes "wrt_ready s" and "setPluginInstallationStatus p st s = (res, s1)"
  shows "res = Inr () \<and> wrt_ready s1 \<and> e_db s1 = (e_db s)(''PluginProperties'' :=
      map (rewrite (handled p) [(''InstallationState'', CInt (ToInt st))]) (e_db s ''PluginProperties''))"
proof -
  have o: "idle (opened s)" "fair_scan (opened s)" "integrity wrt_schema (opened s)" "outside_tx s" and
    integ: "integrity wrt_schema s"
    using ready_opened [OF assms(1)] assms(1) by (simp_all add: wrt_ready_def)
  let ?cv = "[(''InstallationState'', CInt (ToInt st))]"
  let ?db = "(e_db s)(''PluginProperties'' := map (rewrite (handled p) ?cv) (e_db s ''PluginProperties''))"
  have "update_rows wrt_schema ''PluginProperties'' (handled p) ?cv (e_db s) = Some ?db"
  proof (rule update_rows_rewrites)
    show "db_ok wrt_schema (e_db s)" "distinct (map fst wrt_schema)" using integ by (auto simp: integrity_def)
    show "harmless wrt_schema ''PluginProperties'' PluginProperties_table ?cv"
      by (simp add: harmless_def wrt_schema_def table_defs sql_table_def)
    fix r
    assume r: "r \<in> set (e_db s ''PluginProperties'')"
    then have "row_ok PluginProperties_table r" "map fst r = map col_name (ts_columns PluginProperties_table)"
      using integrity_table [OF integ table_of(18)] by (auto simp: table_ok_def)
    then show "row_ok PluginProperties_table (set_cells ?cv r)"
      by (simp add: row_ok_def PluginProperties_table_def sql_table_def column_defs cell_ok_def get_set_cells get_missing)
  qed (simp add: table_of)
  then have body: "wrt_update ''setPluginInstallationStatus'' ''PluginProperties'' (by_handle p) ?cv (opened s) =
      (Inr (), (opened s)\<lparr>e_db := ?db\<rparr>)"
    by (intro update_runs idle_free [OF o(1)]) (simp_all add: holds_plugin)
  have run: "setPluginInstallationStatus p st s = (Inr (), closed False ((opened s)\<lparr>e_db := ?db\<rparr>))"
    using scope_outcome [OF o(4) intx.keeps_queries(3) body]
    by (simp add: setPluginInstallationStatus_def sql_handler_run)
  from integrity_after [OF integrity_plugin(2) integ run] assms run
  show ?thesis by (auto simp: wrt_ready_def fair_scan_def)
qed

section \<open>Properties\<close>

text \<open>
  registering the two or more libraries a plugin depends on commits once per library: all of them
  are stored, but the transaction counter of the thread ends below zero, and from then on no
  transaction is begun or rolled back: a scope that inserts a row and then throws leaves the row.
\<close>

theorem dependencies_disable_transactions:
  assumes "idle s" and "outside_tx s" and "ds \<noteq> []" and "length ds < 2 ^ 31"
    and "registerPluginLibrariesDependencies p (d # ds) s = (r, s1)"
    and "insert_row sch t (map (\<lambda>(c, v). (c, bound v)) cv) (e_db s1, e_seq s1) = Some (k, db, seq)"
    and "scope (thenP (do_insert sch q t cv) (raise e)) s1 = (r', s2)"
  shows "r = Inr () \<and> e_db s1 ''PluginDependencies'' = e_db s ''PluginDependencies'' @ map (dependency_cells p) (d # ds) \<and>
    e_depth s1 = - of_nat (length ds) \<and> r' = Inl e \<and> e_db s2 = db"
proof -
  have run: "r = Inr ()" "s1 = s\<lparr>e_db := add_dependencies p (d # ds) (e_db s), e_depth := - of_nat (length ds),
        e_cancel := False, e_saved := None\<rparr>"
    using dependencies_run [OF assms(1,2,4), of p d] assms(5) by simp_all
  have depth: "- of_nat (length ds) \<noteq> (0 :: 32 word)"
    using small_negative_word assms(3,4) by simp
  define t0 where "t0 = s1\<lparr>e_depth := 1 - of_nat (length ds), e_scopes := False # e_scopes s\<rparr>"
  have begins: "tx_begin s1 = (Inr (), s1\<lparr>e_depth := 1 - of_nat (length ds)\<rparr>)"
    using depth by (simp add: tx_begin_def run(2) Let_def)
  have "idle t0" using assms(1) by (simp add: t0_def run(2))
  then have "do_insert sch q t cv t0 = (Inr k, t0\<lparr>e_db := db, e_seq := seq\<rparr>)"
    using insert_runs [OF idle_free, of t0 sch t cv k db seq q] assms(6) by (simp add: t0_def)
  moreover have "s1\<lparr>e_depth := 1 - of_nat (length ds), e_scopes := False # e_scopes (s1\<lparr>e_depth := 1 - of_nat (length ds)\<rparr>)\<rparr> = t0"
    by (simp add: t0_def run(2))
  ultimately have body: "thenP (do_insert sch q t cv) (raise e)
      (s1\<lparr>e_depth := 1 - of_nat (length ds), e_scopes := False # e_scopes (s1\<lparr>e_depth := 1 - of_nat (length ds)\<rparr>)\<rparr>) =
      (Inl e, t0\<lparr>e_db := db, e_seq := seq\<rparr>)"
    by (simp add: prog_simps)
  have rolls: "tx_rollback (t0\<lparr>e_db := db, e_seq := seq, e_scopes := w\<rparr>) =
      (Inr (), t0\<lparr>e_db := db, e_seq := seq, e_scopes := w, e_cancel := True, e_depth := - of_nat (length ds)\<rparr>)" for w
    using depth by (simp add: tx_rollback_def thenP_def bindP_def modifyP_def tx_unref_def Let_def t0_def)
  have head: "hd (e_scopes (t0\<lparr>e_db := db, e_seq := seq\<rparr>)) = False" by (simp add: t0_def)
  have "scope (thenP (do_insert sch q t cv) (raise e)) s1 =
      (Inl e, t0\<lparr>e_db := db, e_seq := seq, e_scopes := tl (e_scopes t0), e_cancel := True, e_depth := - of_nat (length ds)\<rparr>)"
    unfolding scope_run [where body = "thenP (do_insert sch q t cv) (raise e)", OF begins body] Let_def head by (simp add: rolls)
  with assms(7) have "(r', s2) = (Inl e, t0\<lparr>e_db := db, e_seq := seq, e_scopes := tl (e_scopes t0),
      e_cancel := True, e_depth := - of_nat (length ds)\<rparr>)" by (rule trans [OF sym])
  then have "r' = Inl e" "e_db s2 = db" by simp_all
  then show ?thesis
    using run by (simp add: add_dependencies_def)
qed

theorem dependencies_disable_transactions_witness:
  "(case registerPluginLibrariesDependencies 1 [2, 3] one_widget of (r, s1) \<Rightarrow>
      fst (scope (thenP (do_insert [(''t'', sql_table [] None False [] [])] [] ''t'' []) (raise WidgetNotExist :: unit db_prog)) s1) =
        Inl WidgetNotExist \<and>
      e_db (snd (scope (thenP (do_insert [(''t'', sql_table [] None False [] [])] [] ''t'' []) (raise WidgetNotExist :: unit db_prog)) s1)) ''t'' =
        [[]])"
proof -
  let ?sch = "[(''t'', sql_table [] None False [] [])]"
  let ?m = "scope (thenP (do_insert ?sch [] ''t'' []) (raise WidgetNotExist :: unit db_prog))"
  obtain r s1 where a: "registerPluginLibrariesDependencies 1 [2, 3] one_widget = (r, s1)" by fastforce
  obtain r' s2 where b: "?m s1 = (r', s2)" by fastforce
  have ready: "idle one_widget" "outside_tx one_widget" using one_widget_state(1) by (simp_all add: wrt_ready_def)
  have runs: "s1 = one_widget\<lparr>e_db := add_dependencies 1 [2, 3] (e_db one_widget), e_depth := - 1,
        e_cancel := False, e_saved := None\<rparr>"
    using dependencies_run [OF ready, of "[3]" 1 2] a by simp
  have empty: "e_db s1 ''t'' = []"
    by (simp add: runs add_dependencies_def one_widget_def insert_all_other wrt_fresh_def wrt_initial_empty)
  have ins: "insert_row ?sch ''t'' (map (\<lambda>(c, v). (c, bound v)) []) (e_db s1, e_seq s1) =
      Some (0, (e_db s1)(''t'' := [[]]), e_seq s1)"
    by (simp add: insert_row_def sql_table_def full_row_def row_fits_def row_ok_def empty)
  have "r' = Inl WidgetNotExist \<and> e_db s2 = (e_db s1)(''t'' := [[]])"
    using dependencies_disable_transactions [OF ready _ _ a ins b] by simp
  then show ?thesis by (simp add: a b)
qed

lemma plugin_lifecycle_steps:
  assumes "wrt_ready s" and "\<not> (\<exists>r \<in> set (e_db s ''PluginProperties''). named (c_text name) r)"
    and "registerPlugin name path s = (r1, s1)" and "registerPlugin name path' s1 = (r2, s2)"
    and "setPluginInstallationStatus (projr r1) INSTALLATION_COMPLETED s1 = (r3, s3)"
    and "registerPlugin name path' s3 = (r4, s4)"
  shows "isl r1 = False" and "\<not> (\<exists>r \<in> set (e_db s ''PluginProperties''). handled (projr r1) r)"
    and "r2 = Inl PluginInstallationNotCompleted" and "e_db s2 = e_db s1"
    and "r3 = Inr ()" and "r4 = r1" and "e_db s4 = e_db s3"
proof -
  obtain p where p: "r1 = Inr p" and s1: "wrt_ready s1" and db1: "e_db s1 = (e_db s)(''PluginProperties'' :=
      e_db s ''PluginProperties'' @ [plugin_row p 2 (c_text name) (c_text path)])"
    using register_new_plugin [OF assms(1-3)] by blast
  let ?row = "plugin_row p 2 (c_text name) (c_text path)"
  have row: "?row \<in> set (e_db s1 ''PluginProperties'')" "get ?row ''PluginPropertiesId'' = CInt p"
    "get ?row ''PluginLibraryName'' = CText (c_text name)" "int_of ?row ''InstallationState'' = 2"
    by (simp_all add: db1 plugin_row_def get_Cons int_of_def cell_int_def)
  show "isl r1 = False" by (simp add: p)
  show "\<not> (\<exists>r \<in> set (e_db s ''PluginProperties''). handled (projr r1) r)"
  proof
    assume "\<exists>r \<in> set (e_db s ''PluginProperties''). handled (projr r1) r"
    then obtain r where r: "r \<in> set (e_db s ''PluginProperties'')" "handled p r" by (auto simp: p)
    have "integrity wrt_schema s1" using s1 by (simp add: wrt_ready_def)
    from plugin_unique(2) [OF this row(1,2)]
    have "filter (handled p) (e_db s ''PluginProperties'' @ [?row]) = [?row]" by (simp add: db1)
    moreover have "handled p ?row" using row(2) by (simp add: handled_def)
    ultimately have "filter (handled p) (e_db s ''PluginProperties'') = []" by simp
    with r show False by (auto simp: filter_empty_conv)
  qed
  show "r2 = Inl PluginInstallationNotCompleted" "e_db s2 = e_db s1"
    using register_known_plugin [OF s1 row(1-3) assms(4)] row(4) by (simp_all add: ToState_def)
  have s3: "r3 = Inr ()" "wrt_ready s3" "e_db s3 = (e_db s1)(''PluginProperties'' :=
      map (rewrite (handled p) [(''InstallationState'', CInt 1)]) (e_db s1 ''PluginProperties''))"
    using set_status_run [OF s1] assms(5) by (simp_all add: p)
  then show "r3 = Inr ()" by simp
  let ?row3 = "rewrite (handled p) [(''InstallationState'', CInt 1)] ?row"
  have "?row3 \<in> set (e_db s3 ''PluginProperties'')" using s3(3) row(1) by simp
  moreover have "?row3 = plugin_row p 1 (c_text name) (c_text path)"
    by (simp add: rewrite_def handled_def plugin_row_def set_cells_def get_Cons)
  ultimately show "r4 = r1" "e_db s4 = e_db s3"
    using register_known_plugin [OF s3(2) _ _ _ assms(6), of "plugin_row p 1 (c_text name) (c_text path)" p]
    by (simp_all add: p plugin_row_def get_Cons int_of_def cell_int_def ToState_def)
qed

text \<open>
  C38: a library that is not known is registered under a fresh handle, and while its installation is in
  progress registering it again is refused; once the installation is marked completed, registering it
  returns the same handle and changes nothing.
\<close>

theorem plugin_lifecycle:
  assumes "wrt_ready s" and "\<not> (\<exists>r \<in> set (e_db s ''PluginProperties''). named (c_text name) r)"
    and "registerPlugin name path s = (r1, s1)" and "registerPlugin name path' s1 = (r2, s2)"
    and "setPluginInstallationStatus (projr r1) INSTALLATION_COMPLETED s1 = (r3, s3)"
    and "registerPlugin name path' s3 = (r4, s4)"
  shows "isl r1 = False \<and> \<not> (\<exists>r \<in> set (e_db s ''PluginProperties''). handled (projr r1) r) \<and>
    r2 = Inl PluginInstallationNotCompleted \<and> e_db s2 = e_db s1 \<and>
    r3 = Inr () \<and> r4 = r1 \<and> e_db s4 = e_db s3"
  by (intro conjI plugin_lifecycle_steps [OF assms])

theorem plugin_lifecycle_witness:
  "(case registerPlugin [97] [98] one_widget of (r1, s1) \<Rightarrow>
      fst (registerPlugin [97] [98] s1) = Inl PluginInstallationNotCompleted \<and>
      (case setPluginInstallationStatus (projr r1) INSTALLATION_COMPLETED s1 of (r3, s3) \<Rightarrow>
         fst (registerPlugin [97] [98] s3) = r1))"
proof -
  obtain r1 s1 where a: "registerPlugin [97] [98] one_widget = (r1, s1)" by fastforce
  obtain r2 s2 where b: "registerPlugin [97] [98] s1 = (r2, s2)" by fastforce
  obtain r3 s3 where c: "setPluginInstallationStatus (projr r1) INSTALLATION_COMPLETED s1 = (r3, s3)" by fastforce
  obtain r4 s4 where d: "registerPlugin [97] [98] s3 = (r4, s4)" by fastforce
  have "e_db one_widget ''PluginProperties'' = []"
    by (simp add: one_widget_def insert_all_other wrt_fresh_def wrt_initial_empty)
  then show ?thesis
    using plugin_lifecycle [OF one_widget_state(1) _ a b c d] by (simp add: a b c d)
qed


end
