(* ===== verification/WidgetDAO.thy ===== *)
theory WidgetDAO
  imports PluginFeatureDAO
begin

text \<open>
  The widget records (modules/widget_dao/dao/widget_dao_read_only.cpp, widget_dao.cpp) and the paths of
  a widget (path_builder.cpp, widget_config.h, global_config.h).  A \<open>std::string\<close> in UTF-8 and the
  \<open>DPL::String\<close> it encodes are both the list of the characters.
\<close>

section \<open>Paths\<close>

definition pb_append :: "wstr \<Rightarrow> wstr \<Rightarrow> wstr" where
  "pb_append path p = path @ (if path \<noteq> [] then W ''/'' else []) @ p"

definition pb_concat :: "wstr \<Rightarrow> wstr \<Rightarrow> wstr" where
  "pb_concat path p = path @ p"

definition GetUserInstalledWidgetPath :: wstr where
  "GetUserInstalledWidgetPath = W ''/opt/apps''"

definition GetWidgetSrcPath :: wstr where
  "GetWidgetSrcPath = W ''res/wgt''"

definition GetWidgetBasePath :: "wstr \<Rightarrow> wstr" where
  "GetWidgetBasePath pkgName = pb_append (pb_append [] GetUserInstalledWidgetPath) pkgName"

definition GetWidgetWebLocalStoragePath :: "wstr \<Rightarrow> wstr" where
  "GetWidgetWebLocalStoragePath pkgName = pb_append (GetWidgetBasePath pkgName) (W ''data/localStorage'')"

definition GetWidgetPersistentStoragePath :: "wstr \<Rightarrow> wstr" where
  "GetWidgetPersistentStoragePath pkgName = pb_append (GetWidgetBasePath pkgName) (W ''data'')"

definition GetWidgetTemporaryStoragePath :: "wstr \<Rightarrow> wstr" where
  "GetWidgetTemporaryStoragePath pkgName = pb_append (pb_append [] (W ''/tmp'')) pkgName"

definition GetWidgetDesktopFilePath :: "wstr \<Rightarrow> wstr" where
  "GetWidgetDesktopFilePath pkgName =
     pb_concat (pb_append (pb_append [] (W ''/opt/share/applications'')) pkgName) (W ''.desktop'')"

section \<open>The row of a widget\<close>

definition info_of :: "int \<Rightarrow> expr" where
  "info_of h = Equals ''WidgetInfo'' ''app_id'' (CInt h)"

definition of_app :: "string \<Rightarrow> int \<Rightarrow> expr" where
  "of_app t h = Equals t ''app_id'' (CInt h)"

text \<open>\<open>Optional\<close>: the value, or an exception that is none of the connection's.\<close>

definition deref :: "'a option \<Rightarrow> 'a db_prog" where
  "deref v = (case v of None \<Rightarrow> raise NullReference | Some x \<Rightarrow> ret x)"

definition opt_bool :: "int option \<Rightarrow> bool" where
  "opt_bool v = (case v of None \<Rightarrow> False | Some i \<Rightarrow> i \<noteq> 0)"

definition getWidgetInfoRow :: "int \<Rightarrow> row db_prog" where
  "getWidgetInfoRow h = sql_handler DaoWidget
     (bindP (get_row_list ''getWidgetInfoRow'' ''WidgetInfo'' (info_of h))
       (\<lambda>rows. case rows of [] \<Rightarrow> raise WidgetNotExist | r # _ \<Rightarrow> ret r))"

definition from_info :: "(row \<Rightarrow> 'a) \<Rightarrow> int \<Rightarrow> 'a db_prog" where
  "from_info f h = bindP (getWidgetInfoRow h) (\<lambda>r. ret (f r))"

definition isWidgetInstalled :: "int \<Rightarrow> bool db_prog" where
  "isWidgetInstalled h = sql_handler DaoWidget
     (bindP (get_row_list ''isWidgetInstalled(handle)'' ''WidgetInfo'' (info_of h)) (\<lambda>rows. ret (rows \<noteq> [])))"

definition isWidgetInstalled_pkg :: "wstr \<Rightarrow> bool db_prog" where
  "isWidgetInstalled_pkg pkg = sql_handler DaoWidget
     (bindP (get_row_list ''isWidgetInstalled(pkgName)'' ''WidgetInfo'' (Equals ''WidgetInfo'' ''pkgname'' (CText pkg)))
       (\<lambda>rows. ret (rows \<noteq> [])))"

definition getHandle_guid :: "wstr option \<Rightarrow> int db_prog" where
  "getHandle_guid GUID = sql_handler DaoWidget
     (bindP (get_row_list ''getHandle(GUID)'' ''WidgetInfo'' (Equals ''WidgetInfo'' ''widget_id'' (opt_text GUID)))
       (\<lambda>rows. case rows of [] \<Rightarrow> raise WidgetNotExist | r # _ \<Rightarrow> ret (int_of r ''app_id'')))"

definition getHandle_pkg :: "wstr \<Rightarrow> int db_prog" where
  "getHandle_pkg pkg = sql_handler DaoWidget
     (bindP (get_row_list ''getHandle(pkgName)'' ''WidgetInfo'' (Equals ''WidgetInfo'' ''pkgname'' (CText pkg)))
       (\<lambda>rows. case rows of [] \<Rightarrow> raise WidgetNotExist | r # _ \<Rightarrow> ret (int_of r ''app_id'')))"

definition getHandleList :: "int list db_prog" where
  "getHandleList = sql_handler DaoWidget
     (bindP (get_all_rows ''getHandleList'' ''WidgetInfo'') (\<lambda>rows. ret (map (\<lambda>r. int_of r ''app_id'') rows)))"

text \<open>\<open>CHECK_WIDGET_EXISTENCE\<close> commits before it throws.\<close>

definition check_widget_existence :: "int \<Rightarrow> unit db_prog" where
  "check_widget_existence h = bindP (isWidgetInstalled h) (\<lambda>b.
     if \<not> b then thenP commit (raise WidgetNotExist) else ret ())"

definition getPreferredSize :: "int \<Rightarrow> (int option \<times> int option) db_prog" where
  "getPreferredSize = from_info (\<lambda>r. (opt_int_of r ''widget_width'', opt_int_of r ''widget_height''))"

definition getWidgetType :: "int \<Rightarrow> int db_prog" where
  "getWidgetType h = bindP (getWidgetInfoRow h) (\<lambda>r. deref (opt_int_of r ''widget_type''))"

definition getPkgType :: "int \<Rightarrow> int db_prog" where
  "getPkgType h = bindP (getWidgetInfoRow h) (\<lambda>r. deref (opt_int_of r ''pkg_type''))"

definition getGUID :: "int \<Rightarrow> wstr option db_prog" where
  "getGUID = from_info (\<lambda>r. opt_text_of r ''widget_id'')"

definition getPkgname :: "int \<Rightarrow> wstr option db_prog" where
  "getPkgname = from_info (\<lambda>r. opt_text_of r ''pkgname'')"

definition getDefaultlocale :: "int \<Rightarrow> wstr option db_prog" where
  "getDefaultlocale = from_info (\<lambda>r. opt_text_of r ''defaultlocale'')"

definition getVersion :: "int \<Rightarrow> wstr option db_prog" where
  "getVersion = from_info (\<lambda>r. opt_text_of r ''widget_version'')"

definition getAuthorName :: "int \<Rightarrow> wstr option db_prog" where
  "getAuthorName = from_info (\<lambda>r. opt_text_of r ''author_name'')"

definition getAuthorEmail :: "int \<Rightarrow> wstr option db_prog" where
  "getAuthorEmail = from_info (\<lambda>r. opt_text_of r ''author_email'')"

definition getAuthorHref :: "int \<Rightarrow> wstr option db_prog" where
  "getAuthorHref = from_info (\<lambda>r. opt_text_of r ''author_href'')"

definition getMinimumWacVersion :: "int \<Rightarrow> wstr option db_prog" where
  "getMinimumWacVersion = from_info (\<lambda>r. opt_text_of r ''min_version'')"

definition getBackSupported :: "int \<Rightarrow> bool db_prog" where
  "getBackSupported = from_info (\<lambda>r. int_of r ''back_supported'' \<noteq> 0)"

definition isRecognized :: "int \<Rightarrow> bool db_prog" where
  "isRecognized = from_info (\<lambda>r. opt_bool (opt_int_of r ''recognized''))"

definition isWacSigned :: "int \<Rightarrow> bool db_prog" where
  "isWacSigned = from_info (\<lambda>r. opt_bool (opt_int_of r ''wac_signed''))"

definition isDistributorSigned :: "int \<Rightarrow> bool db_prog" where
  "isDistributorSigned = from_info (\<lambda>r. opt_bool (opt_int_of r ''distributor_signed''))"

definition isTrusted :: "int \<Rightarrow> bool db_prog" where
  "isTrusted = isDistributorSigned"

definition getWebkitPluginsRequired :: "int \<Rightarrow> bool db_prog" where
  "getWebkitPluginsRequired = from_info (\<lambda>r. opt_bool (opt_int_of r ''webkit_plugins_required''))"

definition getAccessNetworkMode :: "int \<Rightarrow> bool db_prog" where
  "getAccessNetworkMode h = ret True"

definition getBaseFolder :: "int \<Rightarrow> wstr db_prog" where
  "getBaseFolder = from_info (\<lambda>r.
     let baseFolder = (case opt_text_of r ''base_folder'' of None \<Rightarrow> [] | Some w \<Rightarrow> w)
     in if baseFolder \<noteq> [] then baseFolder @ W ''/'' else baseFolder)"

section \<open>The extended row\<close>

definition extended_row :: "string \<Rightarrow> int \<Rightarrow> row db_prog" where
  "extended_row site h =
     bindP (get_row_list site ''WidgetExtendedInfo'' (of_app ''WidgetExtendedInfo'' h))
       (\<lambda>rows. case rows of [] \<Rightarrow> raise WidgetNotExist | r # _ \<Rightarrow> ret r)"

definition getShareHref :: "int \<Rightarrow> wstr db_prog" where
  "getShareHref h = sql_handler DaoWidget (bindP (extended_row ''getShareHref'' h)
     (\<lambda>r. ret (case opt_text_of r ''share_href'' of None \<Rightarrow> [] | Some w \<Rightarrow> w)))"

definition isTestWidget :: "int \<Rightarrow> bool db_prog" where
  "isTestWidget h = sql_handler DaoWidget (bindP (extended_row ''isTestWidget'' h)
     (\<lambda>r. ret (int_of r ''test_widget'' \<noteq> 0)))"

definition isFactory :: "int \<Rightarrow> bool db_prog" where
  "isFactory h = sql_handler DaoWidget (bindP (extended_row ''isFactory'' h)
     (\<lambda>r. ret (opt_bool (opt_int_of r ''factory_widget''))))"

definition isDeletable :: "int \<Rightarrow> bool db_prog" where
  "isDeletable h = bindP (isFactory h) (\<lambda>b. ret (\<not> b))"

definition getInstallTime :: "int \<Rightarrow> int db_prog" where
  "getInstallTime h = sql_handler DaoWidget (bindP (extended_row ''getInstallTime'' h)
     (\<lambda>r. deref (opt_int_of r ''install_time'')))"

definition getPath :: "int \<Rightarrow> wstr db_prog" where
  "getPath h = bindP (isFactory h) (\<lambda>isFactoryWidget.
     if isFactoryWidget
     then bindP (getGUID h) (\<lambda>g. case g of
            None \<Rightarrow> raise GUIDisNull
          | Some guid \<Rightarrow> ret (GetUserInstalledWidgetPath @ W ''/'' @ guid @ W ''/''))
     else bindP (getPkgname h) (\<lambda>p. bindP (deref p) (\<lambda>pkg.
            ret (GetUserInstalledWidgetPath @ W ''/'' @ pkg @ W ''/'' @ GetWidgetSrcPath @ W ''/''))))"

definition getFullPath :: "int \<Rightarrow> wstr db_prog" where
  "getFullPath h = bindP (getPath h) (\<lambda>p. ret (W ''file://'' @ p))"

definition getSplashImgSrc :: "int \<Rightarrow> wstr option db_prog" where
  "getSplashImgSrc h = sql_handler DaoWidget (bindP (extended_row ''getSplashImgSrc'' h)
     (\<lambda>r. case opt_text_of r ''splash_img_src'' of
        None \<Rightarrow> ret None
      | Some v \<Rightarrow> bindP (getPath h) (\<lambda>p. ret (Some (p @ v)))))"

definition getCookieDatabasePath :: "int \<Rightarrow> wstr db_prog" where
  "getCookieDatabasePath h = bindP (getPkgname h) (\<lambda>p. bindP (deref p) (\<lambda>pkg.
     ret (GetWidgetPersistentStoragePath pkg @ W ''/'' @ W ''.cookie.db'')))"

definition getPrivateLocalStoragePath :: "int \<Rightarrow> wstr db_prog" where
  "getPrivateLocalStoragePath h = bindP (getPkgname h) (\<lambda>p. bindP (deref p) (\<lambda>pkg.
     bindP (isFactory h) (\<lambda>b.
       if b then bindP (getGUID h) (\<lambda>g. case g of
            None \<Rightarrow> raise GUIDisNull
          | Some guid \<Rightarrow> ret (GetWidgetWebLocalStoragePath pkg @ W ''/'' @ guid))
       else ret (GetWidgetWebLocalStoragePath pkg @ W ''/''))))"

section \<open>The other tables\<close>

record localized_info =
  lo_name :: "wstr option"
  lo_shortName :: "wstr option"
  lo_description :: "wstr option"
  lo_license :: "wstr option"
  lo_licenseHref :: "wstr option"

definition read_localized :: "row \<Rightarrow> localized_info" where
  "read_localized r = \<lparr>lo_name = opt_text_of r ''widget_name'', lo_shortName = opt_text_of r ''widget_shortname'',
     lo_description = opt_text_of r ''widget_description'', lo_license = opt_text_of r ''widget_license'',
     lo_licenseHref = opt_text_of r ''widget_license_href''\<rparr>"

definition getLocalizedInfo :: "int \<Rightarrow> wstr \<Rightarrow> localized_info db_prog" where
  "getLocalizedInfo h tag = sql_handler DaoWidget (scope
     (thenP (check_widget_existence h)
       (bindP (get_single_row ''getLocalizedInfo'' ''LocalizedWidgetInfo''
          (And (of_app ''LocalizedWidgetInfo'' h) (Equals ''LocalizedWidgetInfo'' ''widget_locale'' (CText tag))))
        (\<lambda>info. thenP commit (ret (read_localized info))))))"

record db_feature =
  df_name :: wstr
  df_required :: bool
  df_rejected :: bool
  df_pluginId :: int
  df_params :: "(wstr \<times> wstr) multiset"

definition getFeatureParams :: "int \<Rightarrow> (wstr \<times> wstr) multiset db_prog" where
  "getFeatureParams i = sql_handler DaoWidget
     (bindP (get_row_list ''getFeatureParams'' ''FeatureParam''
         (Equals ''FeatureParam'' ''widget_feature_id'' (CInt i)))
       (\<lambda>rows. ret (mset (map (\<lambda>r. (text_of r ''name'', text_of r ''value'')) rows))))"

definition read_feature :: "row \<Rightarrow> db_feature db_prog" where
  "read_feature r = bindP (getFeatureParams (int_of r ''widget_feature_id'')) (\<lambda>params.
     bindP (FeatureDAO_name (text_of r ''name'')) (\<lambda>f. bindP (GetPluginHandle f) (\<lambda>p.
       ret \<lparr>df_name = text_of r ''name'', df_required = int_of r ''required'' \<noteq> 0,
            df_rejected = int_of r ''rejected'' \<noteq> 0, df_pluginId = p, df_params = params\<rparr>)))"

definition getFeaturesList :: "int \<Rightarrow> db_feature multiset db_prog" where
  "getFeaturesList h = sql_handler DaoWidget (scope
     (thenP (check_widget_existence h)
       (bindP (get_row_list ''getFeaturesList'' ''WidgetFeature'' (of_app ''WidgetFeature'' h))
         (\<lambda>rows. bindP (mapP read_feature rows) (\<lambda>fs. thenP commit (ret (mset fs)))))))"

definition named_feature :: "int \<Rightarrow> wstr \<Rightarrow> expr" where
  "named_feature h name = And (of_app ''WidgetFeature'' h) (Equals ''WidgetFeature'' ''name'' (CText name))"

definition hasFeature :: "int \<Rightarrow> wstr \<Rightarrow> bool db_prog" where
  "hasFeature h name = sql_handler DaoWidget (scope
     (thenP (check_widget_existence h)
       (bindP (get_row_list ''hasFeature'' ''WidgetFeature'' (named_feature h name))
         (\<lambda>rows. thenP commit (ret (rows \<noteq> []))))))"

definition getResourceAttribute :: "int \<Rightarrow> wstr \<Rightarrow> wstr multiset db_prog" where
  "getResourceAttribute h name =
     bindP (get_row_list ''getResourceAttribute'' ''WidgetFeature'' (named_feature h name))
       (\<lambda>rows. case rows of
          [] \<Rightarrow> ret {#}
        | r # _ \<Rightarrow> bindP (getFeatureParams (int_of r ''widget_feature_id'')) (\<lambda>ps. ret (image_mset fst ps)))"

definition getAccessHostList :: "int \<Rightarrow> wstr list db_prog" where
  "getAccessHostList h = sql_handler DaoWidget (scope
     (thenP (check_widget_existence h)
       (bindP (get_value_list ''getAccessHostList'' ''WidgetAccessHost'' (of_app ''WidgetAccessHost'' h)
            (\<lambda>r. text_of r ''host''))
         (\<lambda>hosts. thenP commit (ret hosts)))))"

definition getWidgetCertificate :: "int \<Rightarrow> wstr list db_prog" where
  "getWidgetCertificate h =
     bindP (get_row_list ''getWidgetCertificate'' ''WidgetCertificate'' (of_app ''WidgetCertificate'' h))
       (\<lambda>rows. ret (map (\<lambda>r. text_of r ''encoded_chain'') rows))"

record icon_row =
  iw_iconId :: int
  iw_appId :: int
  iw_src :: wstr
  iw_width :: "int option"
  iw_height :: "int option"

record localized_icon_row =
  il_appId :: int
  il_iconId :: int
  il_locale :: wstr

record start_file_row =
  sf_id :: int
  sf_appId :: int
  sf_src :: wstr

record localized_start_file_row =
  ls_id :: int
  ls_appId :: int
  ls_locale :: wstr
  ls_type :: wstr
  ls_encoding :: wstr

definition getLocalizedIconList :: "int \<Rightarrow> localized_icon_row list db_prog" where
  "getLocalizedIconList h = sql_handler DaoWidget
     (bindP (get_row_list ''getLocalizedIconList'' ''WidgetLocalizedIcon'' (of_app ''WidgetLocalizedIcon'' h))
       (\<lambda>rows. ret (map (\<lambda>r. \<lparr>il_appId = int_of r ''app_id'', il_iconId = int_of r ''icon_id'',
          il_locale = text_of r ''widget_locale''\<rparr>) rows)))"

definition getIconList :: "int \<Rightarrow> icon_row list db_prog" where
  "getIconList h = sql_handler DaoWidget
     (bindP (get_row_list ''getIconList'' ''WidgetIcon'' (of_app ''WidgetIcon'' h))
       (\<lambda>rows. ret (map (\<lambda>r. \<lparr>iw_iconId = int_of r ''icon_id'', iw_appId = int_of r ''app_id'',
          iw_src = text_of r ''icon_src'', iw_width = opt_int_of r ''icon_width'',
          iw_height = opt_int_of r ''icon_height''\<rparr>) rows)))"

text \<open>\<open>ORDER BY\<close> on an integer column.\<close>

definition order_by :: "string \<Rightarrow> row list \<Rightarrow> row list" where
  "order_by c rows = sort_key (\<lambda>r. int_of r c) rows"

definition getLocalizedStartFileList :: "int \<Rightarrow> localized_start_file_row list db_prog" where
  "getLocalizedStartFileList h = sql_handler DaoWidget
     (bindP (get_row_list ''getLocalizedStartFileList'' ''WidgetLocalizedStartFile'' (of_app ''WidgetLocalizedStartFile'' h))
       (\<lambda>rows. ret (map (\<lambda>r. \<lparr>ls_id = int_of r ''start_file_id'', ls_appId = int_of r ''app_id'',
          ls_locale = text_of r ''widget_locale'', ls_type = text_of r ''type'',
          ls_encoding = text_of r ''encoding''\<rparr>) (order_by ''start_file_id'' rows))))"

definition getStartFileList :: "int \<Rightarrow> start_file_row list db_prog" where
  "getStartFileList h = sql_handler DaoWidget
     (bindP (get_row_list ''getStartFileList'' ''WidgetStartFile'' (of_app ''WidgetStartFile'' h))
       (\<lambda>rows. ret (map (\<lambda>r. \<lparr>sf_id = int_of r ''start_file_id'', sf_appId = int_of r ''app_id'',
          sf_src = text_of r ''src''\<rparr>) (order_by ''start_file_id'' rows))))"

definition getWindowModes :: "int \<Rightarrow> wstr list db_prog" where
  "getWindowModes h = sql_handler DaoWidget
     (get_value_list ''getWindowModes'' ''WidgetWindowModes'' (of_app ''WidgetWindowModes'' h)
       (\<lambda>r. text_of r ''window_mode''))"

record certificate_data =
  ce_owner :: int
  ce_type :: int
  ce_chainId :: int
  ce_md5 :: wstr
  ce_sha1 :: wstr
  ce_commonName :: wstr

definition or_empty :: "wstr option \<Rightarrow> wstr" where
  "or_empty v = (case v of None \<Rightarrow> [] | Some w \<Rightarrow> w)"

definition getCertificateDataList :: "int \<Rightarrow> certificate_data list db_prog" where
  "getCertificateDataList h = sql_handler DaoWidget
     (bindP (get_row_list ''getCertificateDataList'' ''WidgetCertificateFingerprint'' (of_app ''WidgetCertificateFingerprint'' h))
       (\<lambda>rows. ret (map (\<lambda>r. \<lparr>ce_owner = int_of r ''owner'', ce_type = int_of r ''type'',
          ce_chainId = int_of r ''chainid'', ce_md5 = or_empty (opt_text_of r ''md5_fingerprint''),
          ce_sha1 = or_empty (opt_text_of r ''sha1_fingerprint''),
          ce_commonName = or_empty (opt_text_of r ''common_name'')\<rparr>) (order_by ''chainid'' rows))))"

definition of_owner :: "int \<Rightarrow> int \<Rightarrow> int \<Rightarrow> expr" where
  "of_owner h owner tp = And (And (of_app ''WidgetCertificateFingerprint'' h)
     (Equals ''WidgetCertificateFingerprint'' ''owner'' (CInt owner)))
     (Equals ''WidgetCertificateFingerprint'' ''type'' (CInt tp))"

definition getKeyFingerprints :: "int \<Rightarrow> int \<Rightarrow> int \<Rightarrow> wstr list db_prog" where
  "getKeyFingerprints h owner tp = sql_handler DaoWidget
     (bindP (get_row_list ''getKeyFingerprints'' ''WidgetCertificateFingerprint'' (of_owner h owner tp))
       (\<lambda>rows. ret (concat (map (\<lambda>r.
          (case opt_text_of r ''sha1_fingerprint'' of None \<Rightarrow> [] | Some w \<Rightarrow> [w]) @
          (case opt_text_of r ''md5_fingerprint'' of None \<Rightarrow> [] | Some w \<Rightarrow> [w])) rows))))"

definition getKeyCommonNameList :: "int \<Rightarrow> int \<Rightarrow> int \<Rightarrow> wstr list db_prog" where
  "getKeyCommonNameList h owner tp = sql_handler DaoWidget
     (bindP (get_row_list ''getKeyCommonNameList'' ''WidgetCertificateFingerprint'' (of_owner h owner tp))
       (\<lambda>rows. ret (map (\<lambda>r. or_empty (opt_text_of r ''common_name'')) rows)))"

definition getWidgetAccessInfo :: "int \<Rightarrow> (wstr \<times> bool) list db_prog" where
  "getWidgetAccessInfo h = sql_handler DaoWidget
     (bindP (get_row_list ''getWidgetAccessInfo'' ''WidgetWARPInfo'' (of_app ''WidgetWARPInfo'' h))
       (\<lambda>rows. ret (map (\<lambda>r. (text_of r ''iri'', opt_int_of r ''subdomain_access'' = Some 1)) rows)))"

definition getLanguageTags :: "int \<Rightarrow> wstr list db_prog" where
  "getLanguageTags h = sql_handler DaoWidget
     (get_value_list ''getLanguageTags'' ''LocalizedWidgetInfo'' (of_app ''LocalizedWidgetInfo'' h)
       (\<lambda>r. text_of r ''widget_locale''))"

definition getIconLanguageTags :: "int \<Rightarrow> wstr list db_prog" where
  "getIconLanguageTags h =
     bindP (get_value_list ''getIconLanguageTags'' ''WidgetLocalizedIcon'' (of_app ''WidgetLocalizedIcon'' h)
       (\<lambda>r. text_of r ''widget_locale'')) (\<lambda>tags. ret (remdups tags))"

definition getWidgetSettings :: "int \<Rightarrow> cd_setting list db_prog" where
  "getWidgetSettings h = sql_handler DaoWidget
     (bindP (get_row_list ''getWidgetSettings'' ''SettginsList'' (Equals ''SettginsList'' ''appId'' (CInt h)))
       (\<lambda>rows. ret (map (\<lambda>r. \<lparr>se_name = text_of r ''settingName'', se_value = text_of r ''settingValue''\<rparr>) rows)))"

definition getAppServiceList :: "int \<Rightarrow> cd_service list db_prog" where
  "getAppServiceList h = sql_handler DaoWidget (scope
     (thenP (check_widget_existence h)
       (bindP (get_row_list ''getAppServiceList'' ''ApplicationServiceInfo'' (of_app ''ApplicationServiceInfo'' h))
         (\<lambda>rows. thenP commit (ret (map (\<lambda>r. \<lparr>sv_src = text_of r ''src'', sv_operation = text_of r ''operation'',
            sv_scheme = text_of r ''scheme'', sv_mime = text_of r ''mime''\<rparr>) rows))))))"

record encrypted_file =
  ef_name :: wstr
  ef_size :: int

definition file_less :: "encrypted_file \<Rightarrow> encrypted_file \<Rightarrow> bool" where
  "file_less a b = wless (ef_name a) (ef_name b)"

definition getEncryptedFileList :: "int \<Rightarrow> encrypted_file list db_prog" where
  "getEncryptedFileList h =
     bindP (get_row_list ''getEncryptedFileList'' ''EncryptedResourceList'' (of_app ''EncryptedResourceList'' h))
       (\<lambda>rows. ret (foldl (\<lambda>fs r. set_insert file_less
          \<lparr>ef_name = text_of r ''resource'', ef_size = int_of r ''size''\<rparr> fs) [] rows))"

end
