(* ===== verification/WidgetRegister.thy ===== *)
theory WidgetRegister
  imports WidgetDAO
begin

text \<open>
  Registering and unregistering widgets (modules/widget_dao/dao/widget_dao.cpp, widget_dao.h): what
  the installer hands over, one operation per step of the registration, and the transaction around
  them.  The enumerations are the integers the tables keep.  \<open>IWacSecurity\<close> is an interface; its object
  is the record of its answers.
\<close>

section \<open>What is registered\<close>

record reg_icon = cd_icon +
  ri_locales :: "wstr list"

record reg_start_file =
  rs_path :: wstr
  rs_locales :: "(wstr \<times> wstr \<times> wstr) list"

record register_info =
  wi_type :: int
  wi_minVersion :: "wstr option"
  wi_baseFolder :: wstr
  wi_signatureType :: int
  wi_isFactoryWidget :: int
  wi_isTestWidget :: int
  wi_configInfo :: config_data
  wi_icons :: "reg_icon list"
  wi_startFiles :: "reg_start_file list"
  wi_pkgname :: "wstr option"
  wi_installedTime :: int
  wi_pType :: int
  wi_encryptedFiles :: "encrypted_file list"

definition new_register_info :: "int \<Rightarrow> register_info" where
  "new_register_info time = \<lparr>wi_type = 0, wi_minVersion = None, wi_baseFolder = [], wi_signatureType = 2,
     wi_isFactoryWidget = 0, wi_isTestWidget = 0, wi_configInfo = new_config, wi_icons = [], wi_startFiles = [],
     wi_pkgname = None, wi_installedTime = time, wi_pType = 0, wi_encryptedFiles = []\<rparr>"

record wac_security =
  ws_certificates :: "certificate_data list"
  ws_recognized :: bool
  ws_distributorSigned :: bool
  ws_wacSigned :: bool
  ws_chains :: "nat list list"

section \<open>The steps\<close>

text \<open>Streaming an empty optional prints words.\<close>

definition show_optional :: "wstr option \<Rightarrow> wstr" where
  "show_optional v = (case v of None \<Rightarrow> W ''null optional'' | Some w \<Rightarrow> w)"

definition info_cells :: "int \<Rightarrow> register_info \<Rightarrow> wac_security \<Rightarrow> row" where
  "info_cells h info sec = (let cfg = wi_configInfo info in
     [(''app_id'', CInt h), (''widget_type'', CInt (wi_type info)), (''widget_id'', opt_text (cd_widget_id cfg)),
      (''widget_version'', opt_text (cd_version cfg)), (''widget_width'', opt_int (cd_width cfg)),
      (''widget_height'', opt_int (cd_height cfg)), (''author_name'', opt_text (cd_authorName cfg)),
      (''author_email'', opt_text (cd_authorEmail cfg)), (''author_href'', opt_text (cd_authorHref cfg)),
      (''base_folder'', CText (wi_baseFolder info)), (''webkit_plugins_required'', bool_cell (cd_flashNeeded cfg)),
      (''recognized'', bool_cell (ws_recognized sec)), (''wac_signed'', bool_cell (ws_wacSigned sec)),
      (''distributor_signed'', bool_cell (ws_distributorSigned sec)),
      (''min_version'', CText (show_optional (wi_minVersion info))),
      (''back_supported'', bool_cell (cd_backSupported cfg)), (''access_network'', bool_cell (cd_accessNetwork cfg)),
      (''defaultlocale'', opt_text (cd_defaultlocale cfg)), (''pkgname'', opt_text (wi_pkgname info)),
      (''pkg_type'', CInt (wi_pType info))])"

definition registerWidgetInfo :: "int \<Rightarrow> register_info \<Rightarrow> wac_security \<Rightarrow> unit db_prog" where
  "registerWidgetInfo h info sec = sql_handler DaoWidget
     (insert_only ''registerWidgetInfo'' ''WidgetInfo'' (info_cells h info sec))"

definition extended_cells :: "int \<Rightarrow> register_info \<Rightarrow> row" where
  "extended_cells h info =
     [(''app_id'', CInt h), (''install_time'', CInt (wi_installedTime info)),
      (''signature_type'', CInt (wi_signatureType info)), (''factory_widget'', CInt (wi_isFactoryWidget info)),
      (''test_widget'', CInt (wi_isTestWidget info)), (''splash_img_src'', opt_text (cd_splashImgSrc (wi_configInfo info)))]"

definition registerWidgetExtendedInfo :: "int \<Rightarrow> register_info \<Rightarrow> unit db_prog" where
  "registerWidgetExtendedInfo h info =
     insert_only ''registerWidgetExtendedInfo'' ''WidgetExtendedInfo'' (extended_cells h info)"

definition localized_cells :: "int \<Rightarrow> wstr \<times> localized_data \<Rightarrow> row" where
  "localized_cells h = (\<lambda>(locale, data).
     [(''app_id'', CInt h), (''widget_locale'', CText locale), (''widget_name'', opt_text (ld_name data)),
      (''widget_shortname'', opt_text (ld_shortName data)), (''widget_description'', opt_text (ld_description data)),
      (''widget_license'', opt_text (ld_license data)), (''widget_license_file'', opt_text (ld_licenseFile data)),
      (''widget_license_href'', opt_text (ld_licenseHref data))])"

definition registerWidgetLocalizedInfo :: "int \<Rightarrow> register_info \<Rightarrow> unit db_prog" where
  "registerWidgetLocalizedInfo h info =
     forP (\<lambda>it. insert_only ''registerWidgetLocalizedInfo'' ''LocalizedWidgetInfo'' (localized_cells h it))
       (cd_localizedDataSet (wi_configInfo info))"

definition icon_cells :: "int \<Rightarrow> reg_icon \<Rightarrow> row" where
  "icon_cells h i = [(''app_id'', CInt h), (''icon_src'', CText (ic_src i)), (''icon_width'', opt_int (ic_width i)),
     (''icon_height'', opt_int (ic_height i))]"

definition icon_locale_cells :: "int \<Rightarrow> int \<Rightarrow> wstr \<Rightarrow> row" where
  "icon_locale_cells h icon_id j = [(''app_id'', CInt h), (''icon_id'', CInt icon_id), (''widget_locale'', CText j)]"

definition of_locale :: "int \<Rightarrow> wstr \<Rightarrow> expr" where
  "of_locale h j = And (of_app ''WidgetLocalizedIcon'' h)
     (Equals ''WidgetLocalizedIcon'' ''widget_locale'' (CText j))"

definition register_icon_locale :: "int \<Rightarrow> int \<Rightarrow> wstr \<Rightarrow> unit db_prog" where
  "register_icon_locale h icon_id j =
     bindP (get_row_list ''registerWidgetIcons.select'' ''WidgetLocalizedIcon'' (of_locale h j)) (\<lambda>rows.
       if rows \<noteq> []
       then wrt_update ''registerWidgetIcons.update'' ''WidgetLocalizedIcon'' (of_locale h j) (icon_locale_cells h icon_id j)
       else insert_only ''registerWidgetIcons.insert'' ''WidgetLocalizedIcon'' (icon_locale_cells h icon_id j))"

definition registerWidgetIcons :: "int \<Rightarrow> register_info \<Rightarrow> unit db_prog" where
  "registerWidgetIcons h info = forP (\<lambda>i.
     bindP (wrt_insert ''registerWidgetIcons'' ''WidgetIcon'' (icon_cells h i)) (\<lambda>icon_id.
       forP (register_icon_locale h icon_id) (ri_locales i))) (wi_icons info)"

definition start_file_cells :: "int \<Rightarrow> reg_start_file \<Rightarrow> row" where
  "start_file_cells h i = [(''app_id'', CInt h), (''src'', CText (rs_path i))]"

definition start_locale_cells :: "int \<Rightarrow> int \<Rightarrow> wstr \<times> wstr \<times> wstr \<Rightarrow> row" where
  "start_locale_cells h fid = (\<lambda>(locale, tp, enc).
     [(''app_id'', CInt h), (''start_file_id'', CInt fid), (''widget_locale'', CText locale), (''type'', CText tp),
      (''encoding'', CText enc)])"

definition registerWidgetStartFile :: "int \<Rightarrow> register_info \<Rightarrow> unit db_prog" where
  "registerWidgetStartFile h info = forP (\<lambda>i.
     bindP (wrt_insert ''registerWidgetStartFile'' ''WidgetStartFile'' (start_file_cells h i)) (\<lambda>startFileID.
       forP (\<lambda>j. insert_only ''registerWidgetStartFile.locale'' ''WidgetLocalizedStartFile''
          (start_locale_cells h startFileID j)) (rs_locales i))) (wi_startFiles info)"

definition feature_cells :: "int \<Rightarrow> cd_feature \<Rightarrow> row" where
  "feature_cells h f = [(''app_id'', CInt h), (''name'', CText (fe_name f)), (''required'', bool_cell (fe_required f)),
     (''rejected'', bool_cell False)]"

definition param_cells :: "int \<Rightarrow> cd_param \<Rightarrow> row" where
  "param_cells fid p = [(''widget_feature_id'', CInt fid), (''name'', CText (pa_name p)), (''value'', CText (pa_value p))]"

definition registerWidgetFeatures :: "int \<Rightarrow> register_info \<Rightarrow> unit db_prog" where
  "registerWidgetFeatures h info = forP (\<lambda>f.
     bindP (wrt_insert ''registerWidgetFeatures'' ''WidgetFeature'' (feature_cells h f)) (\<lambda>fid.
       forP (\<lambda>p. insert_only ''registerWidgetFeatures.param'' ''FeatureParam'' (param_cells fid p)) (fe_params f)))
     (cd_featuresList (wi_configInfo info))"

definition mode_cells :: "int \<Rightarrow> wstr \<Rightarrow> row" where
  "mode_cells h w = [(''app_id'', CInt h), (''window_mode'', CText w)]"

definition registerWidgetWindowModes :: "int \<Rightarrow> register_info \<Rightarrow> unit db_prog" where
  "registerWidgetWindowModes h info =
     forP (\<lambda>w. insert_only ''registerWidgetWindowModes'' ''WidgetWindowModes'' (mode_cells h w))
       (cd_windowModes (wi_configInfo info))"

definition access_cells :: "int \<Rightarrow> cd_access \<Rightarrow> row" where
  "access_cells h a = [(''app_id'', CInt h), (''iri'', CText (ac_iri a)),
     (''subdomain_access'', CInt (if ac_subdomains a then 1 else 0))]"

definition registerWidgetWarpInfo :: "int \<Rightarrow> register_info \<Rightarrow> unit db_prog" where
  "registerWidgetWarpInfo h info =
     forP (\<lambda>a. insert_only ''registerWidgetWarpInfo'' ''WidgetWARPInfo'' (access_cells h a))
       (cd_accessInfoSet (wi_configInfo info))"

definition certificate_cells :: "int \<Rightarrow> certificate_data \<Rightarrow> row" where
  "certificate_cells h c = [(''app_id'', CInt h), (''owner'', CInt (ce_owner c)), (''chainid'', CInt (ce_chainId c)),
     (''type'', CInt (ce_type c)), (''md5_fingerprint'', CText (ce_md5 c)), (''sha1_fingerprint'', CText (ce_sha1 c)),
     (''common_name'', CText (ce_commonName c))]"

definition registerWidgetCertificates :: "int \<Rightarrow> wac_security \<Rightarrow> unit db_prog" where
  "registerWidgetCertificates h sec =
     forP (\<lambda>c. insert_only ''registerWidgetCertificates'' ''WidgetCertificateFingerprint'' (certificate_cells h c))
       (ws_certificates sec)"

definition chain_cells :: "int \<Rightarrow> wstr \<Rightarrow> row" where
  "chain_cells h w = [(''app_id'', CInt h), (''encoded_chain'', CText w)]"

definition registerLaunchCertificates :: "int \<Rightarrow> nat list list \<Rightarrow> unit db_prog" where
  "registerLaunchCertificates h certs = forP (\<lambda>c.
     case from_ascii c of
       Inl e \<Rightarrow> raise e
     | Inr w \<Rightarrow> insert_only ''registerLaunchCertificates'' ''WidgetCertificate'' (chain_cells h w)) certs"

definition setting_cells :: "int \<Rightarrow> cd_setting \<Rightarrow> row" where
  "setting_cells h st = [(''appId'', CInt h), (''settingName'', CText (se_name st)), (''settingValue'', CText (se_value st))]"

definition registerWidgetSettings :: "int \<Rightarrow> register_info \<Rightarrow> unit db_prog" where
  "registerWidgetSettings h info =
     forP (\<lambda>st. insert_only ''registerWidgetSettings'' ''SettginsList'' (setting_cells h st))
       (cd_settingsList (wi_configInfo info))"

definition service_cells :: "int \<Rightarrow> cd_service \<Rightarrow> row" where
  "service_cells h sv = [(''app_id'', CInt h), (''src'', CText (sv_src sv)), (''operation'', CText (sv_operation sv)),
     (''scheme'', CText (sv_scheme sv)), (''mime'', CText (sv_mime sv))]"

definition registerAppService :: "int \<Rightarrow> register_info \<Rightarrow> unit db_prog" where
  "registerAppService h info =
     forP (\<lambda>sv. insert_only ''registerAppService'' ''ApplicationServiceInfo'' (service_cells h sv))
       (cd_appServiceList (wi_configInfo info))"

definition encrypted_cells :: "int \<Rightarrow> encrypted_file \<Rightarrow> row" where
  "encrypted_cells h f = [(''app_id'', CInt h), (''resource'', CText (ef_name f)), (''size'', CInt (ef_size f))]"

definition registerEncryptedResouceInfo :: "int \<Rightarrow> register_info \<Rightarrow> unit db_prog" where
  "registerEncryptedResouceInfo h info =
     forP (\<lambda>f. insert_only ''registerEncryptedResouceInfo'' ''EncryptedResourceList'' (encrypted_cells h f))
       (wi_encryptedFiles info)"

section \<open>The operations\<close>

definition register_steps :: "int \<Rightarrow> register_info \<Rightarrow> wac_security \<Rightarrow> unit db_prog" where
  "register_steps h info sec =
     thenP (registerWidgetInfo h info sec)
     (thenP (registerWidgetExtendedInfo h info)
     (thenP (registerWidgetLocalizedInfo h info)
     (thenP (registerWidgetIcons h info)
     (thenP (registerWidgetStartFile h info)
     (thenP (RegisterProperties h (wi_configInfo info))
     (thenP (registerWidgetFeatures h info)
     (thenP (registerWidgetWindowModes h info)
     (thenP (registerWidgetWarpInfo h info)
     (thenP (registerWidgetCertificates h sec)
     (thenP (registerLaunchCertificates h (ws_chains sec))
     (thenP (registerWidgetSettings h info)
     (thenP (registerAppService h info)
            (registerEncryptedResouceInfo h info)))))))))))))"

definition registerWidget :: "int \<Rightarrow> register_info \<Rightarrow> wac_security \<Rightarrow> unit db_prog" where
  "registerWidget h info sec = sql_handler DaoWidget
     (scope (bindP (register_steps h info sec) (\<lambda>x. thenP commit (ret x))))"

text \<open>The deprecated way: handles are drawn (the list is what \<open>rand\<close> gives) until one is not in use.\<close>

fun registerWidget_new :: "int list \<Rightarrow> register_info \<Rightarrow> wac_security \<Rightarrow> int db_prog" where
  "registerWidget_new [] info sec = raise Waits"
| "registerWidget_new (h # hs) info sec = bindP (isWidgetInstalled h) (\<lambda>b.
     if b then registerWidget_new hs info sec else thenP (registerWidget h info sec) (ret h))"

definition unregisterWidget :: "int \<Rightarrow> unit db_prog" where
  "unregisterWidget h = sql_handler DaoWidget (scope
     (thenP (check_widget_existence h)
       (thenP (wrt_delete ''unregisterWidget'' ''WidgetInfo'' (info_of h)) commit)))"

definition setPkgName :: "int \<Rightarrow> wstr option \<Rightarrow> unit db_prog" where
  "setPkgName h pkg = sql_handler DaoWidget (scope
     (bindP (thenP (isWidgetInstalled h)
        (wrt_update ''setPkgName'' ''WidgetInfo'' (info_of h) [(''pkgname'', opt_text pkg)]))
      (\<lambda>x. thenP commit (ret x))))"

definition feature_row_cells :: "row \<Rightarrow> bool \<Rightarrow> row" where
  "feature_row_cells r rejected = [(''widget_feature_id'', CInt (int_of r ''widget_feature_id'')),
     (''app_id'', CInt (int_of r ''app_id'')), (''name'', CText (text_of r ''name'')),
     (''required'', CInt (int_of r ''required'')), (''rejected'', bool_cell rejected)]"

definition updateFeatureRejectStatus :: "int \<Rightarrow> wstr \<Rightarrow> bool \<Rightarrow> unit db_prog" where
  "updateFeatureRejectStatus h name rejected = scope
     (bindP (bindP (get_single_row ''updateFeatureRejectStatus.select'' ''WidgetFeature'' (named_feature h name)) (\<lambda>r.
        wrt_update ''updateFeatureRejectStatus'' ''WidgetFeature'' (named_feature h name) (feature_row_cells r rejected)))
      (\<lambda>x. thenP commit (ret x)))"

definition WidgetDAO_guid :: "wstr option \<Rightarrow> int db_prog" where
  "WidgetDAO_guid GUID = getHandle_guid GUID"

definition removeProperty :: "int \<Rightarrow> wstr \<Rightarrow> unit db_prog" where
  "removeProperty h key =
     catchP (RemoveProperty h key) (\<lambda>e. e = ReadOnlyProperty) (\<lambda>_. raise (DatabaseError DaoWidget))"

definition setProperty :: "int \<Rightarrow> wstr \<Rightarrow> wstr option \<Rightarrow> bool \<Rightarrow> unit db_prog" where
  "setProperty h key val ro =
     catchP (SetProperty h key val ro) (\<lambda>e. e = ReadOnlyProperty) (\<lambda>_. raise (DatabaseError DaoWidget))"

section \<open>What a step does when it returns\<close>

type_synonym db_store = "tables \<times> (string \<Rightarrow> int)"

text \<open>\<open>does m f\<close>: whenever \<open>m\<close> returns, the value and the tables are those of \<open>f\<close>, and every query is reset.\<close>

definition does :: "'a db_prog \<Rightarrow> (db_store \<Rightarrow> 'a \<times> db_store) \<Rightarrow> bool" where
  "does m f \<longleftrightarrow> (\<forall>s x u. fair_scan s \<longrightarrow> m s = (Inr x, u) \<longrightarrow>
     f (e_db s, e_seq s) = (x, e_db u, e_seq u) \<and> e_scan u = e_scan s \<and> (idle s \<longrightarrow> idle u))"

definition stored :: "string \<Rightarrow> int \<Rightarrow> row \<Rightarrow> row" where
  "stored t k cv = full_row (the (map_of wrt_schema t)) k (map (\<lambda>(c, v). (c, bound v)) cv)"

definition put :: "string \<Rightarrow> row list \<Rightarrow> db_store \<Rightarrow> db_store" where
  "put t rows = (\<lambda>(db, seq). (db(t := db t @ rows), seq))"

lemma fair_scan_cong: "e_scan u = e_scan s \<Longrightarrow> fair_scan u = fair_scan s"
  by (simp add: fair_scan_def)

lemma doesD:
  assumes "does m f" and "fair_scan s" and "m s = (Inr x, u)"
  shows "f (e_db s, e_seq s) = (x, e_db u, e_seq u)" "e_scan u = e_scan s" "fair_scan u" "idle s \<Longrightarrow> idle u"
proof -
  have all: "f (e_db s, e_seq s) = (x, e_db u, e_seq u) \<and> e_scan u = e_scan s \<and> (idle s \<longrightarrow> idle u)"
    using assms(1) [unfolded does_def, rule_format, OF assms(2,3)] .
  from all show "f (e_db s, e_seq s) = (x, e_db u, e_seq u)" by (rule conjunct1)
  from all show scan: "e_scan u = e_scan s" by (elim conjE)
  from all show "idle s \<Longrightarrow> idle u" by blast
  show "fair_scan u" using assms(2) fair_scan_cong [OF scan] by (rule iffD2 [rotated])
qed

lemma does_ret: "does (ret x) (\<lambda>w. (x, w))"
  by (simp add: does_def ret_def)

lemma does_raise: "does (raise e) f"
  by (simp add: does_def raise_def)

lemma bindP_returns:
  assumes "bindP m k s = (Inr y, u)"
  obtains x t where "m s = (Inr x, t)" and "k x t = (Inr y, u)"
proof (cases "m s")
  case (Pair r t)
  with assms that show ?thesis by (cases r) (auto simp: bindP_def)
qed

lemma does_bind:
  assumes "does m f" and "\<And>x. does (k x) (g x)"
  shows "does (bindP m k) (\<lambda>w. case f w of (x, v) \<Rightarrow> g x v)"
  unfolding does_def
proof (intro allI impI)
  fix s y u
  assume s: "fair_scan s" and run: "bindP m k s = (Inr y, u)"
  obtain x t where m: "m s = (Inr x, t)" and k: "k x t = (Inr y, u)"
    using bindP_returns [OF run] .
  note t = doesD [OF assms(1) s m]
  note u = doesD [OF assms(2) t(3) k]
  show "(case f (e_db s, e_seq s) of (x, v) \<Rightarrow> g x v) = (y, e_db u, e_seq u) \<and>
      e_scan u = e_scan s \<and> (idle s \<longrightarrow> idle u)"
    using t u by simp
qed

lemma does_then: "does m f \<Longrightarrow> does k g \<Longrightarrow> does (thenP m k) (\<lambda>w. g (snd (f w)))"
  unfolding thenP_def using does_bind [of m f "\<lambda>_. k" "\<lambda>_. g"] by (simp add: case_prod_unfold)

lemma sql_handler_returns: "sql_handler cls m s = (Inr x, u) \<longleftrightarrow> m s = (Inr x, u)"
  by (auto simp: sql_handler_run split: prod.split sum.split)

lemma does_handler: "does m f \<Longrightarrow> does (sql_handler cls m) f"
  by (simp add: does_def sql_handler_returns)

lemma does_cong: "does m f \<Longrightarrow> (\<And>w. f w = g w) \<Longrightarrow> does m g"
  by (simp add: does_def)

lemma query_returns:
  assumes "run_query q step s = (Inr x, u)"
  obtains v where "step (s\<lparr>e_busy := (e_busy s)(q := True), e_io := tl (e_io s)\<rparr>) = (Inr x, v)"
    and "u = v\<lparr>e_busy := (e_busy v)(q := False)\<rparr>" and "e_io s = [] \<or> \<not> hd (e_io s)"
proof (cases "step (s\<lparr>e_busy := (e_busy s)(q := True), e_io := tl (e_io s)\<rparr>)")
  case (Pair r v)
  with assms that show ?thesis by (cases r) (auto simp: run_query_def Let_def split: if_splits)
qed

lemma does_query:
  assumes "\<And>s x u. fair_scan s \<Longrightarrow> step s = (Inr x, u) \<Longrightarrow>
      f (e_db s, e_seq s) = (x, e_db u, e_seq u) \<and> e_scan u = e_scan s \<and> e_busy u = e_busy s \<and> e_io u = e_io s"
  shows "does (run_query q step) f"
  unfolding does_def
proof (intro allI impI)
  fix s x u
  assume s: "fair_scan s" and run: "run_query q step s = (Inr x, u)"
  let ?t = "s\<lparr>e_busy := (e_busy s)(q := True), e_io := tl (e_io s)\<rparr>"
  obtain v where v: "step ?t = (Inr x, v)" "u = v\<lparr>e_busy := (e_busy v)(q := False)\<rparr>"
    using query_returns [OF run] by metis
  have "fair_scan ?t" using s by (simp add: fair_scan_def)
  note facts = assms [OF this v(1)]
  then show "f (e_db s, e_seq s) = (x, e_db u, e_seq u) \<and> e_scan u = e_scan s \<and> (idle s \<longrightarrow> idle u)"
    by (simp add: v(2) idle_def)
qed

text \<open>An insert into a table whose row does not take a fresh id, and one that does.\<close>

lemma insert_row_rows:
  assumes "map_of wrt_schema t = Some sc" and "insert_row wrt_schema t cv (db, seq) = Some (k, db', seq')"
  shows "db' = db(t := db t @ [full_row sc (case ts_rowid sc of Some c \<Rightarrow> next_rowid c (db t) (seq t) | None \<Rightarrow> 0) cv])"
    and "\<not> ts_auto sc \<Longrightarrow> seq' = seq"
    and "ts_rowid sc = Some c \<Longrightarrow> k = cell_int (get (full_row sc (next_rowid c (db t) (seq t)) cv) c)"
    and "ts_auto sc \<Longrightarrow> seq' = seq(t := max (seq t) k)"
  using assms by (auto simp: insert_row_def Let_def split: if_splits)

lemma does_insert_only:
  assumes sc: "map_of wrt_schema t = Some sc" and auto: "\<not> ts_auto sc" and row: "\<And>k. stored t k cv = stored t 0 cv"
  shows "does (insert_only q t cv) (\<lambda>w. ((), put t [stored t 0 cv] w))"
proof -
  let ?cv = "map (\<lambda>(c, v). (c, bound v)) cv"
  have rows: "full_row sc k ?cv = stored t 0 cv" for k
    using row [of k] by (simp add: stored_def sc)
  have "does (run_query q (\<lambda>s. bindP (insert_step wrt_schema t cv) (\<lambda>_. ret ()) s)) (\<lambda>w. ((), put t [stored t 0 cv] w))"
  proof (rule does_query)
    fix s :: sql_env and x u
    assume "bindP (insert_step wrt_schema t cv) (\<lambda>_. ret ()) s = (Inr x, u)"
    then obtain k where "insert_step wrt_schema t cv s = (Inr k, u)"
      by (rule bindP_returns) (simp add: ret_def)
    then obtain db seq where ins: "insert_row wrt_schema t ?cv (e_db s, e_seq s) = Some (k, db, seq)"
      and u: "u = s\<lparr>e_db := db, e_seq := seq\<rparr>"
      by (auto simp: insert_step_def split: option.splits)
    show "((), put t [stored t 0 cv] (e_db s, e_seq s)) = (x, e_db u, e_seq u) \<and>
       e_scan u = e_scan s \<and> e_busy u = e_busy s \<and> e_io u = e_io s"
      using insert_row_rows(1,2) [OF sc ins] auto by (simp add: u put_def rows)
  qed
  moreover have "run_query q (\<lambda>s. bindP (insert_step wrt_schema t cv) (\<lambda>_. ret ()) s) = insert_only q t cv"
  proof
    fix s
    show "run_query q (\<lambda>s. bindP (insert_step wrt_schema t cv) (\<lambda>_. ret ()) s) s = insert_only q t cv s"
      by (simp add: insert_only_def do_insert_def run_query_def bindP_def ret_def Let_def split: prod.split sum.split)
  qed
  ultimately show ?thesis by simp
qed

lemma does_for_put:
  assumes "\<And>x. does (f x) (\<lambda>w. ((), put t [g x] w))"
  shows "does (forP f xs) (\<lambda>w. ((), put t (map g xs) w))"
proof (induction xs)
  case Nil
  show ?case by (auto simp: does_def ret_def put_def)
next
  case (Cons x xs)
  have "put t (map g xs) (put t [g x] w) = put t (map g (x # xs)) w" for w
    by (cases w) (simp add: put_def)
  then show ?case using does_cong [OF does_then [OF assms Cons.IH]] by simp
qed

text \<open>Rows of a table with a counted id, and the rows of another table that refer to each.\<close>

fun numbered :: "int \<Rightarrow> 'a list \<Rightarrow> (int \<times> 'a) list" where
  "numbered k [] = []"
| "numbered k (x # xs) = (k, x) # numbered (k + 1) xs"

definition next_id :: "string \<Rightarrow> string \<Rightarrow> db_store \<Rightarrow> int" where
  "next_id t c = (\<lambda>(db, seq). next_rowid c (db t) (seq t))"

definition put_id :: "string \<Rightarrow> string \<Rightarrow> row \<Rightarrow> db_store \<Rightarrow> db_store" where
  "put_id t c cv w = (case w of (db, seq) \<Rightarrow>
     (db(t := db t @ [stored t (next_id t c w) cv]), seq(t := max (seq t) (next_id t c w))))"

lemma does_insert_id:
  assumes sc: "map_of wrt_schema t = Some sc" and auto: "ts_auto sc" and c: "ts_rowid sc = Some c"
    and id: "\<And>k. get (stored t k cv) c = CInt k"
  shows "does (wrt_insert q t cv) (\<lambda>w. (next_id t c w, put_id t c cv w))"
  unfolding do_insert_def
proof (rule does_query)
  fix s :: sql_env and x u
  let ?cv = "map (\<lambda>(c, v). (c, bound v)) cv"
  assume "insert_step wrt_schema t cv s = (Inr x, u)"
  then obtain db seq where ins: "insert_row wrt_schema t ?cv (e_db s, e_seq s) = Some (x, db, seq)"
    and u: "u = s\<lparr>e_db := db, e_seq := seq\<rparr>"
    by (auto simp: insert_step_def split: option.splits)
  have rows: "full_row sc k ?cv = stored t k cv" for k
    by (simp add: stored_def sc)
  have x: "x = next_rowid c (e_db s t) (e_seq s t)"
    using insert_row_rows(3) [OF sc ins c] id by (simp add: rows cell_int_def)
  show "(next_id t c (e_db s, e_seq s), put_id t c cv (e_db s, e_seq s)) = (x, e_db u, e_seq u) \<and>
       e_scan u = e_scan s \<and> e_busy u = e_busy s \<and> e_io u = e_io s"
    using insert_row_rows(1) [OF sc ins] insert_row_rows(4) [OF sc ins auto] c x
    by (simp add: u put_id_def next_id_def rows)
qed

lemma does_for:
  assumes "\<And>x. does (f x) (\<lambda>w. ((), g x w))"
  shows "does (forP f xs) (\<lambda>w. ((), fold g xs w))"
proof (induction xs)
  case Nil
  show ?case using does_ret by simp
next
  case (Cons x xs)
  show ?case using does_then [OF assms Cons.IH] by simp
qed

definition put_parent ::
  "string \<Rightarrow> string \<Rightarrow> string \<Rightarrow> ('a \<Rightarrow> row) \<Rightarrow> ('a \<Rightarrow> 'b list) \<Rightarrow> (int \<Rightarrow> 'b \<Rightarrow> row) \<Rightarrow> 'a \<Rightarrow> db_store \<Rightarrow> db_store" where
  "put_parent t c ct cells kids kid_cells x w =
     put ct (map (\<lambda>y. stored ct 0 (kid_cells (next_id t c w) y)) (kids x)) (put_id t c (cells x) w)"

lemma does_parent:
  assumes "\<And>x. does (ins x) (\<lambda>w. (next_id t c w, put_id t c (cells x) w))"
    and "\<And>k y. does (kid k y) (\<lambda>w. ((), put ct [stored ct 0 (kid_cells k y)] w))"
  shows "does (forP (\<lambda>x. bindP (ins x) (\<lambda>k. forP (kid k) (kids x))) xs)
     (\<lambda>w. ((), fold (put_parent t c ct cells kids kid_cells) xs w))"
proof (rule does_for)
  fix x
  show "does (bindP (ins x) (\<lambda>k. forP (kid k) (kids x))) (\<lambda>w. ((), put_parent t c ct cells kids kid_cells x w))"
    by (rule does_cong [OF does_bind [OF assms(1) does_for_put [OF assms(2)]]]) (simp add: put_parent_def)
qed

lemma foldr_max_start: "foldr max xs (max a k) = max k (foldr max xs (a :: int))"
  by (induction xs) (simp_all add: max.left_commute max.commute)

lemma next_id_put_id:
  assumes "get (stored t (next_id t c w) cv) c = CInt (next_id t c w)"
  shows "next_id t c (put_id t c cv w) = next_id t c w + 1"
proof -
  obtain db seq where w: "w = (db, seq)" by (cases w)
  define k where "k = next_id t c w"
  have k: "k = foldr max (map (\<lambda>r. cell_int (get r c)) (db t)) (seq t) + 1"
    by (simp add: k_def w next_id_def next_rowid_def)
  have "put_id t c cv w = (db(t := db t @ [stored t k cv]), seq(t := max (seq t) k))"
    unfolding put_id_def k_def by (simp add: w)
  then have "next_id t c (put_id t c cv w) =
      foldr max (map (\<lambda>r. cell_int (get r c)) (db t)) (max k (max (seq t) k)) + 1"
    using assms [folded k_def] by (simp add: next_id_def next_rowid_def cell_int_def)
  moreover have "max k (max (seq t) k) = max (seq t) k" by simp
  ultimately show ?thesis using k by (simp add: foldr_max_start flip: k_def)
qed

lemma next_id_put_other: "ct \<noteq> t \<Longrightarrow> next_id t c (put ct rows w) = next_id t c w"
  by (cases w) (simp add: next_id_def put_def)

text \<open>The ids of a run of inserts are consecutive.\<close>

lemma put_parents:
  assumes id: "\<And>k x. get (stored t k (cells x)) c = CInt k" and ct: "ct \<noteq> t"
  shows "fst (fold (put_parent t c ct cells kids kid_cells) xs w) t =
      fst w t @ map (\<lambda>(k, x). stored t k (cells x)) (numbered (next_id t c w) xs) \<and>
    fst (fold (put_parent t c ct cells kids kid_cells) xs w) ct =
      fst w ct @ concat (map (\<lambda>(k, x). map (\<lambda>y. stored ct 0 (kid_cells k y)) (kids x)) (numbered (next_id t c w) xs)) \<and>
    (\<forall>n. n \<noteq> t \<longrightarrow> n \<noteq> ct \<longrightarrow> fst (fold (put_parent t c ct cells kids kid_cells) xs w) n = fst w n \<and>
       snd (fold (put_parent t c ct cells kids kid_cells) xs w) n = snd w n)"
proof (induction xs arbitrary: w)
  case Nil
  show ?case by simp
next
  case (Cons x xs)
  let ?w = "put_parent t c ct cells kids kid_cells x w"
  have next_w: "next_id t c ?w = next_id t c w + 1"
    by (simp add: put_parent_def next_id_put_other [OF ct] next_id_put_id [OF id])
  have w: "fst ?w t = fst w t @ [stored t (next_id t c w) (cells x)]"
    "fst ?w ct = fst w ct @ map (\<lambda>y. stored ct 0 (kid_cells (next_id t c w) y)) (kids x)"
    "\<And>n. n \<noteq> t \<Longrightarrow> n \<noteq> ct \<Longrightarrow> fst ?w n = fst w n" "\<And>n. n \<noteq> t \<Longrightarrow> snd ?w n = snd w n"
    using ct by (auto simp: put_parent_def put_def put_id_def split: prod.split)
  show ?case using Cons.IH [of ?w] by (simp add: next_w w)
qed

text \<open>The icon of a locale: rewritten where there is one, added where there is none.\<close>

definition at_locale :: "int \<Rightarrow> wstr \<Rightarrow> row \<Rightarrow> bool" where
  "at_locale h j r \<longleftrightarrow> get r ''app_id'' = CInt h \<and> get r ''widget_locale'' = CText j"

definition localize :: "int \<Rightarrow> int \<times> wstr \<Rightarrow> row list \<Rightarrow> row list" where
  "localize h = (\<lambda>(k, j) rows.
     if list_ex (at_locale h (c_text j)) rows
     then map (rewrite (at_locale h (c_text j)) (icon_locale_cells h k (c_text j))) rows
     else rows @ [icon_locale_cells h k (c_text j)])"

definition localize_in :: "int \<Rightarrow> int \<Rightarrow> wstr \<Rightarrow> db_store \<Rightarrow> db_store" where
  "localize_in h k j = (\<lambda>(db, seq).
     (db(''WidgetLocalizedIcon'' := localize h (k, j) (db ''WidgetLocalizedIcon'')), seq))"

lemma holds_of_locale: "holds (of_locale h j) = at_locale h (c_text j)"
  by (rule ext) (auto simp: of_locale_def of_app_def And_def Equals_def at_locale_def)

lemma update_list_rewritten: "update_list sc p cv old rows = Some rows' \<Longrightarrow> rows' = old @ map (rewrite p cv) rows"
proof (induction rows arbitrary: old)
  case (Cons a rows)
  then show ?case
    using Cons.IH [of "old @ [set_cells cv a]"] Cons.IH [of "old @ [a]"] by (simp add: rewrite_def split: if_splits)
qed simp

lemma update_rows_rewritten:
  "update_rows sch t p cv db = Some db' \<Longrightarrow> db' = db(t := map (rewrite p cv) (db t))"
  by (auto simp: update_rows_def Let_def split: option.splits if_splits dest!: update_list_rewritten)

lemma does_update:
  "does (wrt_update q t wh cv) (\<lambda>(db, seq).
     ((), db(t := map (rewrite (holds wh) (map (\<lambda>(c, v). (c, bound v)) cv)) (db t)), seq))"
  unfolding do_update_def
  by (auto intro!: does_raise does_query simp: update_step_def split: option.splits dest!: update_rows_rewritten)

lemma does_rows:
  assumes "does A f" and "does B g"
  shows "does (bindP (get_row_list q t wh) (\<lambda>rows. if rows \<noteq> [] then A else B))
     (\<lambda>w. if list_ex (holds wh) (fst w t) then f w else g w)"
  unfolding does_def
proof (intro allI impI)
  fix s x u
  assume s: "fair_scan s" and run: "bindP (get_row_list q t wh) (\<lambda>rows. if rows \<noteq> [] then A else B) s = (Inr x, u)"
  obtain rows v where sel: "get_row_list q t wh s = (Inr rows, v)" and k: "(if rows \<noteq> [] then A else B) v = (Inr x, u)"
    using bindP_returns [OF run] by blast
  obtain v' where v': "select_step t (holds wh) (s\<lparr>e_busy := (e_busy s)(q := True), e_io := tl (e_io s)\<rparr>) = (Inr rows, v')"
    "v = v'\<lparr>e_busy := (e_busy v')(q := False)\<rparr>"
    using query_returns [OF sel [unfolded get_row_list_def]] by metis
  have rows: "rows = e_scan s (filter (holds wh) (e_db s t))" and v: "e_db v = e_db s" "e_seq v = e_seq s"
    "e_scan v = e_scan s" "idle s \<longrightarrow> idle v"
    using v' by (auto simp: select_step_def idle_def)
  have ne: "rows \<noteq> [] \<longleftrightarrow> list_ex (holds wh) (e_db s t)"
    using s by (auto simp: rows filter_empty_conv list_ex_iff)
  have fair: "fair_scan v" using s v(3) by (simp add: fair_scan_def)
  have "does (if rows \<noteq> [] then A else B) (\<lambda>w. if rows \<noteq> [] then f w else g w)"
    using assms by simp
  note facts = doesD [OF this fair k]
  show "(if list_ex (holds wh) (fst (e_db s, e_seq s) t) then f (e_db s, e_seq s) else g (e_db s, e_seq s)) =
      (x, e_db u, e_seq u) \<and> e_scan u = e_scan s \<and> (idle s \<longrightarrow> idle u)"
    using facts v by (cases "list_ex (holds wh) (e_db s t)") (simp_all add: ne)
qed

lemma stored_icon_locale: "stored ''WidgetLocalizedIcon'' n (icon_locale_cells h k j) = icon_locale_cells h k (c_text j)"
  by (simp add: stored_def table_of full_row_def WidgetLocalizedIcon_table_def sql_table_def column_defs icon_locale_cells_def)

lemma does_icon_locale: "does (register_icon_locale h k j) (\<lambda>w. ((), localize_in h k j w))"
proof -
  have ins: "does (insert_only ''registerWidgetIcons.insert'' ''WidgetLocalizedIcon'' (icon_locale_cells h k j))
      (\<lambda>w. ((), put ''WidgetLocalizedIcon'' [icon_locale_cells h k (c_text j)] w))"
    using does_insert_only [of "''WidgetLocalizedIcon''" WidgetLocalizedIcon_table "icon_locale_cells h k j"]
    by (simp add: stored_icon_locale table_of WidgetLocalizedIcon_table_def sql_table_def)
  have cells: "map (\<lambda>(c, v). (c, bound v)) (icon_locale_cells h k j) = icon_locale_cells h k (c_text j)"
    by (simp add: icon_locale_cells_def)
  show ?thesis
    unfolding register_icon_locale_def
  proof (rule does_cong [OF does_rows [OF does_update ins]])
    fix w :: db_store
    show "(if list_ex (holds (of_locale h j)) (fst w ''WidgetLocalizedIcon'') then
        (case w of (db, seq) \<Rightarrow> ((), db(''WidgetLocalizedIcon'' := map (rewrite (holds (of_locale h j))
            (map (\<lambda>(c, v). (c, bound v)) (icon_locale_cells h k j))) (db ''WidgetLocalizedIcon'')), seq))
       else ((), put ''WidgetLocalizedIcon'' [icon_locale_cells h k (c_text j)] w)) = ((), localize_in h k j w)"
      by (cases w) (simp add: cells holds_of_locale localize_in_def localize_def put_def)
  qed
qed

section \<open>What a registration leaves\<close>

definition spec_icon :: "int \<Rightarrow> reg_icon \<Rightarrow> db_store \<Rightarrow> db_store" where
  "spec_icon h i w = fold (localize_in h (next_id ''WidgetIcon'' ''icon_id'' w)) (ri_locales i)
     (put_id ''WidgetIcon'' ''icon_id'' (icon_cells h i) w)"

lemma does_icons: "does (registerWidgetIcons h info) (\<lambda>w. ((), fold (spec_icon h) (wi_icons info) w))"
  unfolding registerWidgetIcons_def
proof (rule does_for)
  fix i
  have "does (wrt_insert ''registerWidgetIcons'' ''WidgetIcon'' (icon_cells h i))
      (\<lambda>w. (next_id ''WidgetIcon'' ''icon_id'' w, put_id ''WidgetIcon'' ''icon_id'' (icon_cells h i) w))"
    by (rule does_insert_id [OF table_of(10)])
      (simp_all add: stored_def table_of WidgetIcon_table_def sql_table_def full_row_def column_defs icon_cells_def get_Cons)
  from does_bind [OF this does_for [OF does_icon_locale]]
  show "does (bindP (wrt_insert ''registerWidgetIcons'' ''WidgetIcon'' (icon_cells h i))
      (\<lambda>k. forP (register_icon_locale h k) (ri_locales i))) (\<lambda>w. ((), spec_icon h i w))"
    by (rule does_cong) (simp add: spec_icon_def)
qed

abbreviation spec_start_file :: "int \<Rightarrow> reg_start_file \<Rightarrow> db_store \<Rightarrow> db_store" where
  "spec_start_file h \<equiv> put_parent ''WidgetStartFile'' ''start_file_id'' ''WidgetLocalizedStartFile''
     (start_file_cells h) rs_locales (start_locale_cells h)"

abbreviation spec_feature :: "int \<Rightarrow> cd_feature \<Rightarrow> db_store \<Rightarrow> db_store" where
  "spec_feature h \<equiv> put_parent ''WidgetFeature'' ''widget_feature_id'' ''FeatureParam''
     (feature_cells h) fe_params param_cells"

lemma start_file_id: "get (stored ''WidgetStartFile'' k (start_file_cells h x)) ''start_file_id'' = CInt k"
  by (simp add: stored_def table_of WidgetStartFile_table_def sql_table_def full_row_def column_defs start_file_cells_def get_Cons)

lemma feature_id: "get (stored ''WidgetFeature'' k (feature_cells h x)) ''widget_feature_id'' = CInt k"
  by (simp add: stored_def table_of WidgetFeature_table_def sql_table_def full_row_def column_defs feature_cells_def get_Cons)

lemma stored_no_id: "map_of wrt_schema t = Some sc \<Longrightarrow> ts_rowid sc = None \<Longrightarrow> stored t k cv = stored t 0 cv"
  by (simp add: stored_def full_row_def split: option.split)

lemma stored_own_id:
  "map_of wrt_schema t = Some sc \<Longrightarrow> ts_rowid sc = Some c \<Longrightarrow> map_of cv c = Some (CInt i) \<Longrightarrow>
   stored t k cv = stored t 0 cv"
  by (auto simp: stored_def full_row_def map_of_map split: option.splits)

lemma table_ids:
  "ts_rowid WidgetInfo_table = Some ''app_id''" "\<not> ts_auto WidgetInfo_table"
  "ts_rowid WidgetExtendedInfo_table = Some ''app_id''" "\<not> ts_auto WidgetExtendedInfo_table"
  "ts_rowid LocalizedWidgetInfo_table = None" "\<not> ts_auto LocalizedWidgetInfo_table"
  "ts_rowid WidgetPreference_table = None" "\<not> ts_auto WidgetPreference_table"
  "ts_rowid WidgetWindowModes_table = None" "\<not> ts_auto WidgetWindowModes_table"
  "ts_rowid WidgetWARPInfo_table = None" "\<not> ts_auto WidgetWARPInfo_table"
  "ts_rowid WidgetCertificateFingerprint_table = None" "\<not> ts_auto WidgetCertificateFingerprint_table"
  "ts_rowid WidgetCertificate_table = None" "\<not> ts_auto WidgetCertificate_table"
  "ts_rowid SettginsList_table = None" "\<not> ts_auto SettginsList_table"
  "ts_rowid ApplicationServiceInfo_table = None" "\<not> ts_auto ApplicationServiceInfo_table"
  "ts_rowid EncryptedResourceList_table = None" "\<not> ts_auto EncryptedResourceList_table"
  "ts_rowid WidgetLocalizedStartFile_table = None" "\<not> ts_auto WidgetLocalizedStartFile_table"
  "ts_rowid FeatureParam_table = None" "\<not> ts_auto FeatureParam_table"
  by (simp_all add: table_defs sql_table_def)

lemma counted_ids:
  "ts_rowid WidgetStartFile_table = Some ''start_file_id''" "ts_auto WidgetStartFile_table"
  "ts_rowid WidgetFeature_table = Some ''widget_feature_id''" "ts_auto WidgetFeature_table"
  by (simp_all add: table_defs sql_table_def)

lemma does_start_files: "does (registerWidgetStartFile h info) (\<lambda>w. ((), fold (spec_start_file h) (wi_startFiles info) w))"
  unfolding registerWidgetStartFile_def
  by (intro does_parent does_insert_id [OF table_of(12) counted_ids(2,1)] start_file_id
      does_insert_only [OF table_of(13) table_ids(24) stored_no_id [OF table_of(13) table_ids(23)]])

lemma does_features: "does (registerWidgetFeatures h info)
    (\<lambda>w. ((), fold (spec_feature h) (cd_featuresList (wi_configInfo info)) w))"
  unfolding registerWidgetFeatures_def
  by (intro does_parent does_insert_id [OF table_of(8) counted_ids(4,3)] feature_id
      does_insert_only [OF table_of(9) table_ids(26) stored_no_id [OF table_of(9) table_ids(25)]])

text \<open>The rows of the tables with one row for each item.\<close>

definition simple_rows :: "int \<Rightarrow> register_info \<Rightarrow> wac_security \<Rightarrow> string \<Rightarrow> row list" where
  "simple_rows h info sec t = (let cfg = wi_configInfo info in map (stored t 0)
     (if t = ''WidgetInfo'' then [info_cells h info sec]
      else if t = ''WidgetExtendedInfo'' then [extended_cells h info]
      else if t = ''LocalizedWidgetInfo'' then map (localized_cells h) (cd_localizedDataSet cfg)
      else if t = ''WidgetPreference''
      then map (\<lambda>p. preference_cells h (pr_name p) (pr_value p) (pr_readonly p)) (cd_preferencesList cfg)
      else if t = ''WidgetWindowModes'' then map (mode_cells h) (cd_windowModes cfg)
      else if t = ''WidgetWARPInfo'' then map (access_cells h) (cd_accessInfoSet cfg)
      else if t = ''WidgetCertificateFingerprint'' then map (certificate_cells h) (ws_certificates sec)
      else if t = ''WidgetCertificate'' then map (\<lambda>c. chain_cells h (projr (from_ascii c))) (ws_chains sec)
      else if t = ''SettginsList'' then map (setting_cells h) (cd_settingsList cfg)
      else if t = ''ApplicationServiceInfo'' then map (service_cells h) (cd_appServiceList cfg)
      else if t = ''EncryptedResourceList'' then map (encrypted_cells h) (wi_encryptedFiles info)
      else []))"

definition put_simple :: "int \<Rightarrow> register_info \<Rightarrow> wac_security \<Rightarrow> string \<Rightarrow> db_store \<Rightarrow> db_store" where
  "put_simple h info sec t = put t (simple_rows h info sec t)"

lemma does_widget_info: "does (registerWidgetInfo h info sec) (\<lambda>w. ((), put_simple h info sec ''WidgetInfo'' w))"
  unfolding registerWidgetInfo_def
  by (rule does_cong [OF does_handler [OF does_insert_only [OF table_of(2) table_ids(2)
      stored_own_id [OF table_of(2) table_ids(1)]]]]) (simp_all add: put_simple_def simple_rows_def info_cells_def Let_def)

lemma does_extended_info: "does (registerWidgetExtendedInfo h info) (\<lambda>w. ((), put_simple h info sec ''WidgetExtendedInfo'' w))"
  unfolding registerWidgetExtendedInfo_def
  by (rule does_cong [OF does_insert_only [OF table_of(6) table_ids(4) stored_own_id [OF table_of(6) table_ids(3)]]])
    (simp_all add: put_simple_def simple_rows_def extended_cells_def Let_def)

lemma does_each:
  assumes "map_of wrt_schema t = Some sc" and "ts_rowid sc = None" and "\<not> ts_auto sc"
    and "simple_rows h info sec t = map (stored t 0) (map cells xs)"
  shows "does (forP (\<lambda>x. insert_only q t (cells x)) xs) (\<lambda>w. ((), put_simple h info sec t w))"
  by (rule does_cong [OF does_for_put [OF does_insert_only [OF assms(1,3) stored_no_id [OF assms(1,2)]]]])
    (simp add: put_simple_def assms(4) o_def)

lemma does_simple:
  "does (registerWidgetLocalizedInfo h info) (\<lambda>w. ((), put_simple h info sec ''LocalizedWidgetInfo'' w))"
  "does (RegisterProperties h (wi_configInfo info)) (\<lambda>w. ((), put_simple h info sec ''WidgetPreference'' w))"
  "does (registerWidgetWindowModes h info) (\<lambda>w. ((), put_simple h info sec ''WidgetWindowModes'' w))"
  "does (registerWidgetWarpInfo h info) (\<lambda>w. ((), put_simple h info sec ''WidgetWARPInfo'' w))"
  "does (registerWidgetCertificates h sec) (\<lambda>w. ((), put_simple h info sec ''WidgetCertificateFingerprint'' w))"
  "does (registerWidgetSettings h info) (\<lambda>w. ((), put_simple h info sec ''SettginsList'' w))"
  "does (registerAppService h info) (\<lambda>w. ((), put_simple h info sec ''ApplicationServiceInfo'' w))"
  "does (registerEncryptedResouceInfo h info) (\<lambda>w. ((), put_simple h info sec ''EncryptedResourceList'' w))"
  unfolding registerWidgetLocalizedInfo_def RegisterProperties_def registerWidgetWindowModes_def
    registerWidgetWarpInfo_def registerWidgetCertificates_def registerWidgetSettings_def registerAppService_def
    registerEncryptedResouceInfo_def
  by (rule does_each [OF table_of(5)] does_each [OF table_of(7)] does_each [OF table_of(4)]
      does_each [OF table_of(16)] does_each [OF table_of(15)] does_each [OF table_of(26)]
      does_each [OF table_of(27)] does_each [OF table_of(29)];
      simp add: table_ids simple_rows_def Let_def)+

lemma does_chains: "does (registerLaunchCertificates h (ws_chains sec)) (\<lambda>w. ((), put_simple h info sec ''WidgetCertificate'' w))"
proof -
  have "does (case from_ascii c of Inl e \<Rightarrow> raise e
       | Inr w \<Rightarrow> insert_only ''registerLaunchCertificates'' ''WidgetCertificate'' (chain_cells h w))
     (\<lambda>w. ((), put ''WidgetCertificate'' [stored ''WidgetCertificate'' 0 (chain_cells h (projr (from_ascii c)))] w))" for c
    using does_insert_only [OF table_of(3) table_ids(16) stored_no_id [OF table_of(3) table_ids(15)]]
    by (cases "from_ascii c") (simp_all add: does_raise)
  from does_for_put [OF this] show ?thesis
    unfolding registerLaunchCertificates_def
    by (rule does_cong) (simp add: put_simple_def simple_rows_def Let_def o_def)
qed

text \<open>The whole registration, on the tables.\<close>

definition spec_register :: "int \<Rightarrow> register_info \<Rightarrow> wac_security \<Rightarrow> db_store \<Rightarrow> db_store" where
  "spec_register h info sec =
     put_simple h info sec ''EncryptedResourceList'' \<circ> put_simple h info sec ''ApplicationServiceInfo'' \<circ>
     put_simple h info sec ''SettginsList'' \<circ> put_simple h info sec ''WidgetCertificate'' \<circ>
     put_simple h info sec ''WidgetCertificateFingerprint'' \<circ> put_simple h info sec ''WidgetWARPInfo'' \<circ>
     put_simple h info sec ''WidgetWindowModes'' \<circ> fold (spec_feature h) (cd_featuresList (wi_configInfo info)) \<circ>
     put_simple h info sec ''WidgetPreference'' \<circ> fold (spec_start_file h) (wi_startFiles info) \<circ>
     fold (spec_icon h) (wi_icons info) \<circ> put_simple h info sec ''LocalizedWidgetInfo'' \<circ>
     put_simple h info sec ''WidgetExtendedInfo'' \<circ> put_simple h info sec ''WidgetInfo''"

lemma does_register: "does (register_steps h info sec) (\<lambda>w. ((), spec_register h info sec w))"
  unfolding register_steps_def
  by (rule does_cong [OF does_then [OF does_widget_info does_then [OF does_extended_info
      does_then [OF does_simple(1) does_then [OF does_icons does_then [OF does_start_files
      does_then [OF does_simple(2) does_then [OF does_features does_then [OF does_simple(3)
      does_then [OF does_simple(4) does_then [OF does_simple(5) does_then [OF does_chains
      does_then [OF does_simple(6) does_then [OF does_simple(7) does_simple(8)]]]]]]]]]]]]]])
    (simp add: spec_register_def)

text \<open>The steps keep to the tables: the transaction and the integrity stay.\<close>

lemma keeps_steps_tx: "keeps (in_tx snap sc) (register_steps h info sec)"
  unfolding register_steps_def registerWidgetInfo_def registerWidgetExtendedInfo_def registerWidgetLocalizedInfo_def
    registerWidgetIcons_def register_icon_locale_def registerWidgetStartFile_def RegisterProperties_def
    registerWidgetFeatures_def registerWidgetWindowModes_def registerWidgetWarpInfo_def
    registerWidgetCertificates_def registerLaunchCertificates_def registerWidgetSettings_def
    registerAppService_def registerEncryptedResouceInfo_def
  by (intro intx.keeps_db keeps_cases keeps_insert_only)

lemma keeps_steps_integ: "keeps (integrity wrt_schema) (register_steps h info sec)"
  unfolding register_steps_def registerWidgetInfo_def registerWidgetExtendedInfo_def registerWidgetLocalizedInfo_def
    registerWidgetIcons_def register_icon_locale_def registerWidgetStartFile_def RegisterProperties_def
    registerWidgetFeatures_def registerWidgetWindowModes_def registerWidgetWarpInfo_def
    registerWidgetCertificates_def registerLaunchCertificates_def registerWidgetSettings_def
    registerAppService_def registerEncryptedResouceInfo_def
  by (intro integ.keeps_tx keeps_cases keeps_insert_only_integ)

lemma register_outcome:
  assumes "outside_tx s" and "registerWidget h info sec s = (r, s')"
  obtains (fails) e where "r = Inl e" and "e_db s' = e_db s" and "e_seq s' = e_seq s" and "outside_tx s'"
  | (works) u where "r = Inr ()" and "register_steps h info sec (opened s) = (Inr (), u)" and "s' = closed False u"
proof -
  obtain b u where b: "register_steps h info sec (opened s) = (b, u)" by fastforce
  note run = scope_outcome [OF assms(1) keeps_steps_tx b]
  show ?thesis
  proof (cases b)
    case (Inl e)
    show ?thesis
      by (rule fails [of "if is_sql e then DatabaseError DaoWidget else e"])
        (use run assms(2) b Inl in \<open>auto simp: registerWidget_def sql_handler_run closed_def outside_tx_def\<close>)
  next
    case (Inr x)
    show ?thesis
      by (rule works [of u]) (use run assms(2) b Inr in \<open>auto simp: registerWidget_def sql_handler_run\<close>)
  qed
qed


section \<open>The tables after a registration\<close>

definition icon_pairs :: "(int \<times> reg_icon) list \<Rightarrow> (int \<times> wstr) list" where
  "icon_pairs ns = concat (map (\<lambda>(k, i). map (Pair k) (ri_locales i)) ns)"

lemma localize_fold:
  "fold (localize_in h k) js (db, seq) =
     (db(''WidgetLocalizedIcon'' := fold (localize h) (map (Pair k) js) (db ''WidgetLocalizedIcon'')), seq)"
  by (induction js arbitrary: db) (simp_all add: localize_in_def)

lemma icon_id: "get (stored ''WidgetIcon'' k (icon_cells h i)) ''icon_id'' = CInt k"
  by (simp add: stored_def table_of WidgetIcon_table_def sql_table_def full_row_def column_defs icon_cells_def get_Cons)

lemma icons_at:
  "fst (fold (spec_icon h) is w) ''WidgetIcon'' = fst w ''WidgetIcon'' @
      map (\<lambda>(k, i). stored ''WidgetIcon'' k (icon_cells h i)) (numbered (next_id ''WidgetIcon'' ''icon_id'' w) is) \<and>
   fst (fold (spec_icon h) is w) ''WidgetLocalizedIcon'' =
      fold (localize h) (icon_pairs (numbered (next_id ''WidgetIcon'' ''icon_id'' w) is)) (fst w ''WidgetLocalizedIcon'') \<and>
   (\<forall>n. n \<noteq> ''WidgetIcon'' \<longrightarrow> n \<noteq> ''WidgetLocalizedIcon'' \<longrightarrow> fst (fold (spec_icon h) is w) n = fst w n \<and>
      snd (fold (spec_icon h) is w) n = snd w n)"
proof (induction "is" arbitrary: w)
  case Nil
  show ?case by (simp add: icon_pairs_def)
next
  case (Cons i "is")
  let ?k = "next_id ''WidgetIcon'' ''icon_id'' w"
  let ?v = "put_id ''WidgetIcon'' ''icon_id'' (icon_cells h i) w"
  let ?w = "spec_icon h i w"
  obtain vdb vseq where v: "?v = (vdb, vseq)" by (cases ?v)
  have w: "?w = (vdb(''WidgetLocalizedIcon'' := fold (localize h) (map (Pair ?k) (ri_locales i)) (vdb ''WidgetLocalizedIcon'')), vseq)"
    by (simp add: spec_icon_def v localize_fold)
  have "next_id ''WidgetIcon'' ''icon_id'' ?v = ?k + 1" by (rule next_id_put_id) (rule icon_id)
  then have next_w: "next_id ''WidgetIcon'' ''icon_id'' ?w = ?k + 1" by (simp add: w v next_id_def)
  have vw: "vdb ''WidgetIcon'' = fst w ''WidgetIcon'' @ [stored ''WidgetIcon'' ?k (icon_cells h i)]"
    "\<And>n. n \<noteq> ''WidgetIcon'' \<Longrightarrow> vdb n = fst w n \<and> vseq n = snd w n"
    using v by (auto simp: put_id_def split: prod.splits)
  show ?case using Cons.IH [of ?w] by (simp add: next_w icon_pairs_def) (simp add: w vw)
qed

lemma put_simple_at:
  "fst (put_simple h info sec t' w) t = (if t = t' then fst w t @ simple_rows h info sec t else fst w t)"
  "snd (put_simple h info sec t' w) = snd w"
  by (auto simp: put_simple_def put_def split: prod.split)

definition new_rows :: "int \<Rightarrow> register_info \<Rightarrow> wac_security \<Rightarrow> db_store \<Rightarrow> string \<Rightarrow> row list" where
  "new_rows h info sec w t =
     (let features = numbered (next_id ''WidgetFeature'' ''widget_feature_id'' w) (cd_featuresList (wi_configInfo info));
          files = numbered (next_id ''WidgetStartFile'' ''start_file_id'' w) (wi_startFiles info)
      in if t = ''WidgetFeature'' then map (\<lambda>(k, f). stored t k (feature_cells h f)) features
         else if t = ''FeatureParam'' then concat (map (\<lambda>(k, f). map (\<lambda>p. stored t 0 (param_cells k p)) (fe_params f)) features)
         else if t = ''WidgetStartFile'' then map (\<lambda>(k, f). stored t k (start_file_cells h f)) files
         else if t = ''WidgetLocalizedStartFile''
         then concat (map (\<lambda>(k, f). map (\<lambda>j. stored t 0 (start_locale_cells h k j)) (rs_locales f)) files)
         else if t = ''WidgetIcon''
         then map (\<lambda>(k, i). stored t k (icon_cells h i)) (numbered (next_id ''WidgetIcon'' ''icon_id'' w) (wi_icons info))
         else simple_rows h info sec t)"

lemma next_id_cong: "fst v t = fst w t \<Longrightarrow> snd v t = snd w t \<Longrightarrow> next_id t c v = next_id t c w"
  by (cases v; cases w) (simp add: next_id_def)

lemma no_simple_rows:
  "simple_rows h info sec ''WidgetFeature'' = []" "simple_rows h info sec ''FeatureParam'' = []"
  "simple_rows h info sec ''WidgetStartFile'' = []" "simple_rows h info sec ''WidgetLocalizedStartFile'' = []"
  "simple_rows h info sec ''WidgetIcon'' = []" "simple_rows h info sec ''WidgetLocalizedIcon'' = []"
  by (simp_all add: simple_rows_def)

definition simple_tables :: "string list" where
  "simple_tables = [''WidgetInfo'', ''WidgetExtendedInfo'', ''LocalizedWidgetInfo'', ''WidgetPreference'',
     ''WidgetWindowModes'', ''WidgetWARPInfo'', ''WidgetCertificateFingerprint'', ''WidgetCertificate'',
     ''SettginsList'', ''ApplicationServiceInfo'', ''EncryptedResourceList'']"

lemma simple_rows_other: "t \<notin> set simple_tables \<Longrightarrow> simple_rows h info sec t = []"
  by (simp add: simple_rows_def simple_tables_def)

lemma simple_not_counted:
  "t \<in> set simple_tables \<Longrightarrow> t \<noteq> ''WidgetFeature'' \<and> t \<noteq> ''FeatureParam'' \<and> t \<noteq> ''WidgetStartFile'' \<and>
     t \<noteq> ''WidgetLocalizedStartFile'' \<and> t \<noteq> ''WidgetIcon'' \<and> t \<noteq> ''WidgetLocalizedIcon''"
  by (auto simp: simple_tables_def)

definition put_simples :: "int \<Rightarrow> register_info \<Rightarrow> wac_security \<Rightarrow> string list \<Rightarrow> db_store \<Rightarrow> db_store" where
  "put_simples h info sec ts w = fold (put_simple h info sec) ts w"

lemma put_simples_at:
  assumes "distinct ts"
  shows "fst (put_simples h info sec ts w) t = (if t \<in> set ts then fst w t @ simple_rows h info sec t else fst w t)"
    and "snd (put_simples h info sec ts w) = snd w"
proof -
  have "fst (put_simples h info sec ts w) t = (if t \<in> set ts then fst w t @ simple_rows h info sec t else fst w t) \<and>
      snd (put_simples h info sec ts w) = snd w"
    using assms unfolding put_simples_def
    by (induction ts arbitrary: w) (simp_all add: put_simple_at)
  then show "fst (put_simples h info sec ts w) t = (if t \<in> set ts then fst w t @ simple_rows h info sec t else fst w t)"
    and "snd (put_simples h info sec ts w) = snd w" by simp_all
qed

lemma spec_register_stages:
  "spec_register h info sec w =
     put_simples h info sec [''WidgetWindowModes'', ''WidgetWARPInfo'', ''WidgetCertificateFingerprint'',
        ''WidgetCertificate'', ''SettginsList'', ''ApplicationServiceInfo'', ''EncryptedResourceList'']
      (fold (spec_feature h) (cd_featuresList (wi_configInfo info))
       (put_simples h info sec [''WidgetPreference'']
        (fold (spec_start_file h) (wi_startFiles info)
         (fold (spec_icon h) (wi_icons info)
          (put_simples h info sec [''WidgetInfo'', ''WidgetExtendedInfo'', ''LocalizedWidgetInfo''] w)))))"
  by (simp add: spec_register_def put_simples_def)

end
