(* ===== verification/RegisteredWidget.thy ===== *)
theory RegisteredWidget
  imports WidgetRegister
begin

text \<open>
  The tables after a registration, and what the readers of WidgetDAO find there.
\<close>

lemma spec_register_at:
  "fst (spec_register h info sec w) t =
     (if t = ''WidgetLocalizedIcon''
      then fold (localize h) (icon_pairs (numbered (next_id ''WidgetIcon'' ''icon_id'' w) (wi_icons info))) (fst w t)
      else fst w t @ new_rows h info sec w t)"
proof -
  define w1 where "w1 = put_simples h info sec [''WidgetInfo'', ''WidgetExtendedInfo'', ''LocalizedWidgetInfo''] w"
  define w2 where "w2 = fold (spec_icon h) (wi_icons info) w1"
  define w3 where "w3 = fold (spec_start_file h) (wi_startFiles info) w2"
  define w4 where "w4 = put_simples h info sec [''WidgetPreference''] w3"
  define w5 where "w5 = fold (spec_feature h) (cd_featuresList (wi_configInfo info)) w4"
  define w6 where "w6 = put_simples h info sec [''WidgetWindowModes'', ''WidgetWARPInfo'', ''WidgetCertificateFingerprint'',
        ''WidgetCertificate'', ''SettginsList'', ''ApplicationServiceInfo'', ''EncryptedResourceList''] w5"
  have all: "spec_register h info sec w = w6"
    by (simp add: spec_register_stages w6_def w5_def w4_def w3_def w2_def w1_def)
  have a1: "fst w1 n = (if n \<in> {''WidgetInfo'', ''WidgetExtendedInfo'', ''LocalizedWidgetInfo''}
       then fst w n @ simple_rows h info sec n else fst w n)" "snd w1 = snd w" for n
    by (simp_all add: w1_def put_simples_at)
  have a4: "fst w4 n = (if n = ''WidgetPreference'' then fst w3 n @ simple_rows h info sec n else fst w3 n)" "snd w4 = snd w3" for n
    by (simp_all add: w4_def put_simples_at)
  have a6: "fst w6 n = (if n \<in> {''WidgetWindowModes'', ''WidgetWARPInfo'', ''WidgetCertificateFingerprint'',
        ''WidgetCertificate'', ''SettginsList'', ''ApplicationServiceInfo'', ''EncryptedResourceList''}
       then fst w5 n @ simple_rows h info sec n else fst w5 n)" for n
    by (simp add: w6_def put_simples_at)
  note a2 = icons_at [of h "wi_icons info" w1, folded w2_def]
  have a3: "fst w3 ''WidgetStartFile'' = fst w2 ''WidgetStartFile'' @ map (\<lambda>(k, x). stored ''WidgetStartFile'' k (start_file_cells h x))
       (numbered (next_id ''WidgetStartFile'' ''start_file_id'' w2) (wi_startFiles info))"
    "fst w3 ''WidgetLocalizedStartFile'' = fst w2 ''WidgetLocalizedStartFile'' @
       concat (map (\<lambda>(k, x). map (\<lambda>y. stored ''WidgetLocalizedStartFile'' 0 (start_locale_cells h k y)) (rs_locales x))
       (numbered (next_id ''WidgetStartFile'' ''start_file_id'' w2) (wi_startFiles info)))"
    "n \<noteq> ''WidgetStartFile'' \<Longrightarrow> n \<noteq> ''WidgetLocalizedStartFile'' \<Longrightarrow> fst w3 n = fst w2 n \<and> snd w3 n = snd w2 n" for n
    using put_parents [of "''WidgetStartFile''" "start_file_cells h" "''start_file_id''" "''WidgetLocalizedStartFile''"
        rs_locales "start_locale_cells h" "wi_startFiles info" w2, OF start_file_id, folded w3_def] by simp_all
  have a5: "fst w5 ''WidgetFeature'' = fst w4 ''WidgetFeature'' @ map (\<lambda>(k, x). stored ''WidgetFeature'' k (feature_cells h x))
       (numbered (next_id ''WidgetFeature'' ''widget_feature_id'' w4) (cd_featuresList (wi_configInfo info)))"
    "fst w5 ''FeatureParam'' = fst w4 ''FeatureParam'' @
       concat (map (\<lambda>(k, x). map (\<lambda>y. stored ''FeatureParam'' 0 (param_cells k y)) (fe_params x))
       (numbered (next_id ''WidgetFeature'' ''widget_feature_id'' w4) (cd_featuresList (wi_configInfo info))))"
    "n \<noteq> ''WidgetFeature'' \<Longrightarrow> n \<noteq> ''FeatureParam'' \<Longrightarrow> fst w5 n = fst w4 n \<and> snd w5 n = snd w4 n" for n
    using put_parents [of "''WidgetFeature''" "feature_cells h" "''widget_feature_id''" "''FeatureParam''"
        fe_params param_cells "cd_featuresList (wi_configInfo info)" w4, OF feature_id, folded w5_def] by simp_all
  have ids: "next_id ''WidgetIcon'' ''icon_id'' w1 = next_id ''WidgetIcon'' ''icon_id'' w"
    "next_id ''WidgetStartFile'' ''start_file_id'' w2 = next_id ''WidgetStartFile'' ''start_file_id'' w"
    "next_id ''WidgetFeature'' ''widget_feature_id'' w4 = next_id ''WidgetFeature'' ''widget_feature_id'' w"
  proof -
    show "next_id ''WidgetIcon'' ''icon_id'' w1 = next_id ''WidgetIcon'' ''icon_id'' w"
      by (rule next_id_cong) (simp_all add: a1)
    show "next_id ''WidgetStartFile'' ''start_file_id'' w2 = next_id ''WidgetStartFile'' ''start_file_id'' w"
      using a2 by (intro next_id_cong) (simp_all add: a1)
    show "next_id ''WidgetFeature'' ''widget_feature_id'' w4 = next_id ''WidgetFeature'' ''widget_feature_id'' w"
      using a2 a3(3) [of "''WidgetFeature''"] by (intro next_id_cong) (simp_all add: a1 a4)
  qed
  have same5: "fst w6 n = fst w5 n" if "n \<notin> set simple_tables" for n using that by (simp add: a6 simple_tables_def)
  have same4: "fst w4 n = fst w3 n" if "n \<notin> set simple_tables" for n using that by (simp add: a4 simple_tables_def)
  have same1: "fst w1 n = fst w n" if "n \<notin> set simple_tables" for n using that by (simp add: a1 simple_tables_def)
  show ?thesis
  proof (cases "t \<in> set simple_tables")
    case True
    note ne = simple_not_counted [OF True]
    have "fst w6 t = fst w t @ simple_rows h info sec t"
    proof -
      have c: "fst w5 t = fst w4 t" "fst w3 t = fst w1 t" using a5(3) [of t] a3(3) [of t] a2 ne by simp_all
      show ?thesis unfolding a6 c(1) a4 c(2) a1 using True by (auto simp: simple_tables_def)
    qed
    then show ?thesis using ne by (simp add: all new_rows_def)
  next
    case False
    note same = same5 [OF False] same4 [OF False] same1 [OF False]
    consider "t = ''WidgetLocalizedIcon''" | "t = ''WidgetIcon''" | "t = ''WidgetStartFile''" | "t = ''WidgetLocalizedStartFile''"
      | "t = ''WidgetFeature''" | "t = ''FeatureParam''"
      | (other) "t \<noteq> ''WidgetLocalizedIcon''" "t \<noteq> ''WidgetIcon''" "t \<noteq> ''WidgetStartFile''" "t \<noteq> ''WidgetLocalizedStartFile''"
        "t \<noteq> ''WidgetFeature''" "t \<noteq> ''FeatureParam''" by blast
    then show ?thesis
    proof cases
      case other
      then show ?thesis
        using same a5(3) [of t] a3(3) [of t] a2 simple_rows_other [OF False] by (simp add: all new_rows_def)
    next
      case 1
      then show ?thesis using same a5(3) [of t] a3(3) [of t] a2 ids by (simp add: all)
    next
      case 2
      then show ?thesis using same a5(3) [of t] a3(3) [of t] a2 ids by (simp add: all new_rows_def)
    next
      case 3
      then show ?thesis using same a5(3) [of t] a3(1) a2 ids by (simp add: all new_rows_def)
    next
      case 4
      then show ?thesis using same a5(3) [of t] a3(2) a2 ids by (simp add: all new_rows_def)
    next
      case 5
      then show ?thesis using same a5(1) a3(3) [of t] a2 ids by (simp add: all new_rows_def)
    next
      case 6
      then show ?thesis using same a5(2) a3(3) [of t] a2 ids by (simp add: all new_rows_def)
    qed
  qed
qed

lemma register_success:
  assumes "outside_tx s" and "fair_scan s" and "registerWidget h info sec s = (Inr (), s')"
  obtains u where "register_steps h info sec (opened s) = (Inr (), u)" and "s' = closed False u"
    and "(e_db s', e_seq s') = spec_register h info sec (e_db s, e_seq s)" and "e_scan s' = e_scan s"
    and "idle s \<Longrightarrow> idle s'"
  using assms(3)
proof (cases rule: register_outcome [OF assms(1,3)])
  case (2 u)
  have "fair_scan (opened s)" using assms(2) by simp
  note d = doesD [OF does_register this 2(2)]
  show ?thesis
    by (rule that [OF 2(2,3)]) (use d in \<open>simp_all add: 2(3)\<close>, simp add: closed_def)
qed simp

lemma rows_after:
  assumes "outside_tx s" and "fair_scan s" and "registerWidget h info sec s = (Inr (), s')"
    and "t \<noteq> ''WidgetLocalizedIcon''"
  shows "e_db s' t = e_db s t @ new_rows h info sec (e_db s, e_seq s) t"
proof -
  obtain "(e_db s', e_seq s') = spec_register h info sec (e_db s, e_seq s)"
    using register_success [OF assms(1-3)] by metis
  then have "e_db s' = fst (spec_register h info sec (e_db s, e_seq s))" by (metis fst_conv)
  then show ?thesis using assms(4) by (simp add: spec_register_at)
qed


section \<open>Icons\<close>

definition rows_of :: "int \<Rightarrow> row \<Rightarrow> bool" where
  "rows_of h r \<longleftrightarrow> get r ''app_id'' = CInt h"

lemma set_cells_icon:
  "map fst r = [''app_id'', ''icon_id'', ''widget_locale''] \<Longrightarrow> set_cells (icon_locale_cells h k j) r = icon_locale_cells h k j"
  by (auto simp: set_cells_def icon_locale_cells_def map_eq_Cons_conv)

lemma at_locale_icon: "at_locale h j (icon_locale_cells h k j') \<longleftrightarrow> j' = j"
  by (auto simp: at_locale_def icon_locale_cells_def get_Cons)

lemma localize_filter:
  assumes "\<And>r. r \<in> set rows \<Longrightarrow> map fst r = [''app_id'', ''icon_id'', ''widget_locale'']"
  shows "filter (at_locale h j) (localize h (k, j') rows) =
      (if c_text j' \<noteq> j then filter (at_locale h j) rows
       else if filter (at_locale h j) rows = [] then [icon_locale_cells h k j]
       else map (\<lambda>_. icon_locale_cells h k j) (filter (at_locale h j) rows))"
proof -
  let ?f = "rewrite (at_locale h (c_text j')) (icon_locale_cells h k (c_text j'))"
  have f: "?f r = (if at_locale h (c_text j') r then icon_locale_cells h k (c_text j') else r)" if "r \<in> set rows" for r
    using set_cells_icon [OF assms [OF that]] by (simp add: rewrite_def)
  have at: "at_locale h j (?f r) = at_locale h j r" if "r \<in> set rows" for r
    using f [OF that] by (auto simp: at_locale_icon) (auto simp: at_locale_def)
  have "filter (at_locale h j) (map ?f rows) = map ?f (filter (at_locale h j) rows)"
    using at by (induction rows) auto
  also have "\<dots> = (if c_text j' \<noteq> j then filter (at_locale h j) rows
      else map (\<lambda>_. icon_locale_cells h k j) (filter (at_locale h j) rows))"
    using f by (auto simp: at_locale_def intro!: map_idI)
  finally have map_f: "filter (at_locale h j) (map ?f rows) = \<dots>" .
  show ?thesis
  proof (cases "list_ex (at_locale h (c_text j')) rows")
    case True
    then have "c_text j' = j \<Longrightarrow> filter (at_locale h j) rows \<noteq> []"
      by (auto simp: filter_empty_conv list_ex_iff)
    then show ?thesis using True map_f by (simp add: localize_def)
  next
    case False
    then have "c_text j' = j \<Longrightarrow> filter (at_locale h j) rows = []"
      by (auto simp: filter_empty_conv list_ex_iff)
    then show ?thesis using False by (simp add: localize_def at_locale_icon)
  qed
qed

lemma localize_columns:
  assumes "\<And>r. r \<in> set rows \<Longrightarrow> map fst r = [''app_id'', ''icon_id'', ''widget_locale'']" and "r \<in> set (localize h p rows)"
  shows "map fst r = [''app_id'', ''icon_id'', ''widget_locale'']"
  using assms by (cases p) (auto simp: localize_def rewrite_def icon_locale_cells_def split: if_splits)

lemma localize_last:
  assumes "\<And>r. r \<in> set rows \<Longrightarrow> map fst r = [''app_id'', ''icon_id'', ''widget_locale'']"
    and "filter (at_locale h j) rows = []"
  shows "(\<forall>r \<in> set (fold (localize h) ps rows). map fst r = [''app_id'', ''icon_id'', ''widget_locale'']) \<and>
     filter (at_locale h j) (fold (localize h) ps rows) =
       (let ks = map fst (filter (\<lambda>(k, j'). c_text j' = j) ps)
        in if ks = [] then [] else [icon_locale_cells h (last ks) j])"
proof (induction ps rule: rev_induct)
  case Nil
  then show ?case using assms by simp
next
  case (snoc p ps)
  obtain k j' where p: "p = (k, j')" by (cases p)
  have cols: "\<And>r. r \<in> set (fold (localize h) ps rows) \<Longrightarrow> map fst r = [''app_id'', ''icon_id'', ''widget_locale'']"
    using snoc by simp
  show ?case
    using snoc localize_columns [of "fold (localize h) ps rows", OF cols] localize_filter [of "fold (localize h) ps rows" h j k j', OF cols]
    by (auto simp: p Let_def)
qed

text \<open>
  after the registration of a widget that had no localized icons, each locale the icons list has one icon,
  the last one that lists it.
\<close>

theorem last_icon_wins:
  assumes "wrt_ready s" and "registerWidget h info sec s = (Inr (), s')"
    and "filter (rows_of h) (e_db s ''WidgetLocalizedIcon'') = []"
  shows "filter (at_locale h j) (e_db s' ''WidgetLocalizedIcon'') =
     (let ks = map fst (filter (\<lambda>(k, j'). c_text j' = j)
          (icon_pairs (numbered (next_id ''WidgetIcon'' ''icon_id'' (e_db s, e_seq s)) (wi_icons info))))
      in if ks = [] then [] else [icon_locale_cells h (last ks) j])"
proof -
  have ready: "outside_tx s" "fair_scan s" "integrity wrt_schema s" using assms(1) by (simp_all add: wrt_ready_def)
  obtain "(e_db s', e_seq s') = spec_register h info sec (e_db s, e_seq s)"
    using register_success [OF ready(1,2) assms(2)] by metis
  then have db: "e_db s' = fst (spec_register h info sec (e_db s, e_seq s))" by (metis fst_conv)
  have cols: "map fst r = [''app_id'', ''icon_id'', ''widget_locale'']" if "r \<in> set (e_db s ''WidgetLocalizedIcon'')" for r
    using integrity_table [OF ready(3) table_of(11)] that
    by (simp add: table_ok_def WidgetLocalizedIcon_table_def sql_table_def column_defs)
  have "filter (at_locale h j) (e_db s ''WidgetLocalizedIcon'') = []"
    using assms(3) by (auto simp: filter_empty_conv rows_of_def at_locale_def)
  from localize_last [OF cols this, THEN conjunct2] show ?thesis
    unfolding db spec_register_at by simp
qed

section \<open>Reading a registration back\<close>

lemma get_full_row:
  assumes "c \<in> col_name ` set (ts_columns sc)" and "map_of cv c = Some v" and "ts_rowid sc = Some c \<Longrightarrow> v \<noteq> CNull"
  shows "get (full_row sc k cv) c = v"
proof -
  have "c \<in> col_name ` set cols \<Longrightarrow>
    map_of (map (\<lambda>col. (col_name col, case map_of cv (col_name col) of
        Some v \<Rightarrow> (if v = CNull \<and> ts_rowid sc = Some (col_name col) then CInt k else v)
      | None \<Rightarrow> (if ts_rowid sc = Some (col_name col) then CInt k else col_default col))) cols) c = Some v" for cols
    using assms(2,3) by (induction cols) auto
  from this [OF assms(1)] show ?thesis by (simp add: get_def full_row_def)
qed

lemma map_of_bound: "map_of (map (\<lambda>(c, v). (c, bound v)) cv) c = map_option bound (map_of cv c)"
  by (induction cv) auto

lemma get_stored:
  assumes "map_of wrt_schema t = Some sc" and "c \<in> col_name ` set (ts_columns sc)"
    and "map_of cv c = Some v" and "ts_rowid sc = Some c \<Longrightarrow> bound v \<noteq> CNull"
  shows "get (stored t k cv) c = bound v"
  using get_full_row [of c sc "map (\<lambda>(c, v). (c, bound v)) cv" "bound v"] assms
  by (simp add: stored_def map_of_bound)

lemma holds_of_app: "holds (of_app t h) = rows_of h"
  by (rule ext) (auto simp: of_app_def Equals_def rows_of_def)

lemma holds_info_of: "holds (info_of h) = rows_of h"
  by (rule ext) (auto simp: info_of_def Equals_def rows_of_def)

text \<open>Rows of a widget that is not installed are in no table that refers to the widgets.\<close>

lemma no_rows:
  assumes "integrity wrt_schema s" and "\<not> installed (e_db s) h" and "map_of wrt_schema t = Some sc"
    and "(''app_id'', ''WidgetInfo'', ''app_id'') \<in> set (ts_fks sc)"
  shows "filter (rows_of h) (e_db s t) = []"
proof -
  have "fk_holds (e_db s) r (''app_id'', ''WidgetInfo'', ''app_id'')" if "r \<in> set (e_db s t)" for r
    using assms(1,3,4) that by (auto simp: integrity_def db_ok_def dest!: map_of_SomeD)
  then have "\<not> rows_of h r" if "r \<in> set (e_db s t)" for r
    using that assms(2) by (fastforce simp: fk_holds_def rows_of_def installed_def list_ex_iff)
  then show ?thesis by (auto simp: filter_empty_conv)
qed

lemma integrity_closed: "integrity sch u \<Longrightarrow> integrity sch (closed c u)"
  by (simp add: integrity_def closed_def)

lemma info_columns: "col_name ` set (ts_columns WidgetInfo_table) = {''app_id'', ''widget_type'', ''widget_id'',
   ''widget_version'', ''widget_width'', ''widget_height'', ''author_name'', ''author_email'', ''author_href'',
   ''base_folder'', ''webkit_plugins_required'', ''security_domain'', ''recognized'', ''wac_signed'',
   ''distributor_signed'', ''min_version'', ''back_supported'', ''access_network'', ''defaultlocale'', ''pkgname'',
   ''pkg_type''}"
  by (simp add: WidgetInfo_table_def sql_table_def column_defs insert_commute)

lemma info_key: "ts_keys WidgetInfo_table = [[''app_id'']]"
  by (simp add: WidgetInfo_table_def sql_table_def)

lemma get_info:
  assumes "c \<in> col_name ` set (ts_columns WidgetInfo_table)" and "c \<noteq> ''app_id''"
    and "map_of (info_cells h info sec) c \<noteq> None"
  shows "get (stored ''WidgetInfo'' 0 (info_cells h info sec)) c = bound (the (map_of (info_cells h info sec) c))"
proof -
  obtain v where "map_of (info_cells h info sec) c = Some v" using assms(3) by blast
  then show ?thesis
    using get_stored [OF table_of(2) assms(1), of "info_cells h info sec" v 0] assms(2) by (simp add: table_ids)
qed

lemma info_cell:
  "map_of (info_cells h info sec) ''widget_type'' = Some (CInt (wi_type info))"
  "map_of (info_cells h info sec) ''widget_id'' = Some (opt_text (cd_widget_id (wi_configInfo info)))"
  "map_of (info_cells h info sec) ''widget_version'' = Some (opt_text (cd_version (wi_configInfo info)))"
  "map_of (info_cells h info sec) ''widget_width'' = Some (opt_int (cd_width (wi_configInfo info)))"
  "map_of (info_cells h info sec) ''widget_height'' = Some (opt_int (cd_height (wi_configInfo info)))"
  "map_of (info_cells h info sec) ''author_name'' = Some (opt_text (cd_authorName (wi_configInfo info)))"
  "map_of (info_cells h info sec) ''recognized'' = Some (bool_cell (ws_recognized sec))"
  "map_of (info_cells h info sec) ''distributor_signed'' = Some (bool_cell (ws_distributorSigned sec))"
  "map_of (info_cells h info sec) ''min_version'' = Some (CText (show_optional (wi_minVersion info)))"
  "map_of (info_cells h info sec) ''back_supported'' = Some (bool_cell (cd_backSupported (wi_configInfo info)))"
  "map_of (info_cells h info sec) ''defaultlocale'' = Some (opt_text (cd_defaultlocale (wi_configInfo info)))"
  "map_of (info_cells h info sec) ''pkgname'' = Some (opt_text (wi_pkgname info))"
  by (simp_all add: info_cells_def Let_def)

lemma get_info_id: "get (stored ''WidgetInfo'' 0 (info_cells h info sec)) ''app_id'' = CInt h"
  using get_stored [OF table_of(2), of "''app_id''" "info_cells h info sec" "CInt h" 0]
  by (simp add: info_columns info_cells_def Let_def)

text \<open>What a successful registration leaves: a state like the one before, and the widget's row.\<close>

lemma registered_ready:
  assumes "wrt_ready s" and "registerWidget h info sec s = (Inr (), s')"
  shows "wrt_ready s'" and "\<not> installed (e_db s) h"
    and "filter (rows_of h) (e_db s' ''WidgetInfo'') = [stored ''WidgetInfo'' 0 (info_cells h info sec)]"
    and "e_scan s' = e_scan s"
proof -
  have ready: "outside_tx s" "fair_scan s" "integrity wrt_schema s" "idle s" using assms(1) by (simp_all add: wrt_ready_def)
  obtain u where u: "register_steps h info sec (opened s) = (Inr (), u)" "s' = closed False u" and scan: "e_scan s' = e_scan s"
    and idle: "idle s'"
    using register_success [OF ready(1,2) assms(2)] ready(4) by metis
  have integ: "integrity wrt_schema s'"
    using keeps_pair [OF keeps_steps_integ integrity_opened [OF ready(3)] u(1)] by (simp add: u(2) integrity_closed)
  show "e_scan s' = e_scan s" by fact
  show "wrt_ready s'"
    using idle integ ready(2) scan by (simp add: wrt_ready_def fair_scan_cong [OF scan]) (simp add: u(2))
  have info: "e_db s' ''WidgetInfo'' = e_db s ''WidgetInfo'' @ [stored ''WidgetInfo'' 0 (info_cells h info sec)]"
    using rows_after [OF ready(1,2) assms(2), of "''WidgetInfo''"] by (simp add: new_rows_def simple_rows_def Let_def)
  have key: "sorted_wrt (\<lambda>r r'. \<not> same_key [''app_id''] r r') (e_db s' ''WidgetInfo'')"
    using integrity_table [OF integ table_of(2)] by (simp add: table_ok_def info_key)
  have no: "\<not> rows_of h r" if "r \<in> set (e_db s ''WidgetInfo'')" for r
    using key that by (auto simp: info sorted_wrt_append same_key_def get_info_id rows_of_def)
  then show "\<not> installed (e_db s) h" by (auto simp: installed_def rows_of_def)
  show "filter (rows_of h) (e_db s' ''WidgetInfo'') = [stored ''WidgetInfo'' 0 (info_cells h info sec)]"
    using no by (simp add: info rows_of_def get_info_id filter_empty_conv)
qed

lemma info_row_runs:
  assumes "wrt_ready s" and "filter (rows_of h) (e_db s ''WidgetInfo'') = [r]"
  shows "getWidgetInfoRow h s = (Inr r, s)" and "isWidgetInstalled h s = (Inr True, s)"
    and "from_info f h s = (Inr (f r), s)"
proof -
  have "free q s" "fair_scan s" for q using assms(1) by (simp_all add: wrt_ready_def idle_free)
  then show run: "getWidgetInfoRow h s = (Inr r, s)" and "isWidgetInstalled h s = (Inr True, s)"
    by (simp_all add: getWidgetInfoRow_def isWidgetInstalled_def sql_handler_run bindP_def rows_run holds_info_of assms(2) ret_def)
  then show "from_info f h s = (Inr (f r), s)" by (simp add: from_info_def bindP_def ret_def)
qed

lemma info_texts:
  "get (stored ''WidgetInfo'' 0 (info_cells h info sec)) ''widget_id'' = opt_text (map_option c_text (cd_widget_id (wi_configInfo info)))"
  "get (stored ''WidgetInfo'' 0 (info_cells h info sec)) ''widget_version'' = opt_text (map_option c_text (cd_version (wi_configInfo info)))"
  "get (stored ''WidgetInfo'' 0 (info_cells h info sec)) ''pkgname'' = opt_text (map_option c_text (wi_pkgname info))"
  "get (stored ''WidgetInfo'' 0 (info_cells h info sec)) ''defaultlocale'' = opt_text (map_option c_text (cd_defaultlocale (wi_configInfo info)))"
  "get (stored ''WidgetInfo'' 0 (info_cells h info sec)) ''author_name'' = opt_text (map_option c_text (cd_authorName (wi_configInfo info)))"
  "get (stored ''WidgetInfo'' 0 (info_cells h info sec)) ''widget_width'' = opt_int (cd_width (wi_configInfo info))"
  "get (stored ''WidgetInfo'' 0 (info_cells h info sec)) ''widget_height'' = opt_int (cd_height (wi_configInfo info))"
  "get (stored ''WidgetInfo'' 0 (info_cells h info sec)) ''widget_type'' = CInt (wi_type info)"
  "get (stored ''WidgetInfo'' 0 (info_cells h info sec)) ''recognized'' = bool_cell (ws_recognized sec)"
  "get (stored ''WidgetInfo'' 0 (info_cells h info sec)) ''distributor_signed'' = bool_cell (ws_distributorSigned sec)"
  "get (stored ''WidgetInfo'' 0 (info_cells h info sec)) ''back_supported'' = bool_cell (cd_backSupported (wi_configInfo info))"
  "get (stored ''WidgetInfo'' 0 (info_cells h info sec)) ''min_version'' = CText (c_text (show_optional (wi_minVersion info)))"
  by (simp_all add: get_info info_columns info_cell)

text \<open>
  C15: what a registration stored is read back: the getters over the widget's row return the registered
  values (texts up to their first NUL), except that a registration without a minimal version reads back
  the words an empty optional is streamed as.
\<close>

theorem register_then_read:
  assumes "wrt_ready s" and "registerWidget h info sec s = (Inr (), s')"
  shows "isWidgetInstalled h s' = (Inr True, s') \<and>
    getGUID h s' = (Inr (map_option c_text (cd_widget_id (wi_configInfo info))), s') \<and>
    getVersion h s' = (Inr (map_option c_text (cd_version (wi_configInfo info))), s') \<and>
    getPkgname h s' = (Inr (map_option c_text (wi_pkgname info)), s') \<and>
    getDefaultlocale h s' = (Inr (map_option c_text (cd_defaultlocale (wi_configInfo info))), s') \<and>
    getAuthorName h s' = (Inr (map_option c_text (cd_authorName (wi_configInfo info))), s') \<and>
    getPreferredSize h s' = (Inr (cd_width (wi_configInfo info), cd_height (wi_configInfo info)), s') \<and>
    getWidgetType h s' = (Inr (wi_type info), s') \<and>
    isRecognized h s' = (Inr (ws_recognized sec), s') \<and>
    isTrusted h s' = (Inr (ws_distributorSigned sec), s') \<and>
    getBackSupported h s' = (Inr (cd_backSupported (wi_configInfo info)), s') \<and>
    getMinimumWacVersion h s' = (Inr (Some (case wi_minVersion info of
        None \<Rightarrow> W ''null optional'' | Some v \<Rightarrow> c_text v)), s')"
proof -
  note ready = registered_ready [OF assms]
  let ?r = "stored ''WidgetInfo'' 0 (info_cells h info sec)"
  note read = info_row_runs [OF ready(1,3)]
  have words: "c_text (W ''null optional'') = W ''null optional''" by (simp add: c_text_def W_def)
  have bools: "opt_bool (opt_int_of ?r c) = b" "(int_of ?r c \<noteq> 0) = b" if "get ?r c = bool_cell b" for c b
    using that by (auto simp: opt_bool_def opt_int_of_def int_of_def cell_int_def bool_cell_def)
  note texts = info_texts [of h info sec]
  have min: "c_text (show_optional v) = (case v of None \<Rightarrow> W ''null optional'' | Some w \<Rightarrow> c_text w)" for v
    by (simp add: show_optional_def words split: option.split)
  have min_read: "opt_text_of ?r ''min_version'' = Some (case wi_minVersion info of None \<Rightarrow> W ''null optional'' | Some w \<Rightarrow> c_text w)"
    by (simp add: opt_text_of_def texts min)
  show ?thesis
    by (simp add: min_read read getGUID_def getVersion_def getPkgname_def getDefaultlocale_def getAuthorName_def getPreferredSize_def
        getWidgetType_def isRecognized_def isTrusted_def isDistributorSigned_def getBackSupported_def
        getMinimumWacVersion_def texts bools bindP_def deref_def ret_def)
qed

lemma child_rows:
  assumes "wrt_ready s" and "registerWidget h info sec s = (Inr (), s')" and "map_of wrt_schema t = Some sc"
    and "(''app_id'', ''WidgetInfo'', ''app_id'') \<in> set (ts_fks sc)" and "t \<noteq> ''WidgetLocalizedIcon''"
    and "list_all (rows_of h) (new_rows h info sec (e_db s, e_seq s) t)"
  shows "filter (rows_of h) (e_db s' t) = new_rows h info sec (e_db s, e_seq s) t"
proof -
  have ready: "outside_tx s" "fair_scan s" "integrity wrt_schema s" using assms(1) by (simp_all add: wrt_ready_def)
  have "filter (rows_of h) (e_db s t) = []"
    using no_rows [OF ready(3) registered_ready(2) [OF assms(1,2)] assms(3,4)] .
  moreover have "filter (rows_of h) (new_rows h info sec (e_db s, e_seq s) t) = new_rows h info sec (e_db s, e_seq s) t"
    using assms(6) by (auto simp: list_all_iff filter_id_conv)
  ultimately show ?thesis by (simp add: rows_after [OF ready(1,2) assms(2,5)])
qed

lemma fks_app:
  "(''app_id'', ''WidgetInfo'', ''app_id'') \<in> set (ts_fks WidgetWindowModes_table)"
  "(''app_id'', ''WidgetInfo'', ''app_id'') \<in> set (ts_fks WidgetWARPInfo_table)"
  "(''app_id'', ''WidgetInfo'', ''app_id'') \<in> set (ts_fks LocalizedWidgetInfo_table)"
  "(''app_id'', ''WidgetInfo'', ''app_id'') \<in> set (ts_fks WidgetStartFile_table)"
  by (simp_all add: table_defs sql_table_def)

lemma stored_rows:
  "stored ''WidgetWindowModes'' k (mode_cells h w) = [(''app_id'', CInt h), (''window_mode'', CText (c_text w))]"
  "stored ''WidgetWARPInfo'' k (access_cells h a) = [(''app_id'', CInt h), (''iri'', CText (c_text (ac_iri a))),
     (''subdomain_access'', CInt (if ac_subdomains a then 1 else 0))]"
  "stored ''WidgetStartFile'' k (start_file_cells h f) = [(''start_file_id'', CInt k), (''app_id'', CInt h),
     (''src'', CText (c_text (rs_path f)))]"
  by (simp_all add: stored_def table_of full_row_def WidgetWindowModes_table_def WidgetWARPInfo_table_def
      WidgetStartFile_table_def sql_table_def column_defs mode_cells_def access_cells_def start_file_cells_def)

lemma stored_locale:
  "get (stored ''LocalizedWidgetInfo'' k (localized_cells h d)) ''app_id'' = CInt h"
  "get (stored ''LocalizedWidgetInfo'' k (localized_cells h d)) ''widget_locale'' = CText (c_text (fst d))"
  by (simp_all add: stored_def table_of full_row_def LocalizedWidgetInfo_table_def sql_table_def column_defs
      localized_cells_def get_Cons split: prod.split)

lemma flag_one: "(if b then 1 else 0 :: int) = 1 \<longleftrightarrow> b"
  by simp

lemma numbered_ids: "map fst (numbered k xs) = map (\<lambda>i. k + int i) [0..<length xs]"
proof (induction xs arbitrary: k)
  case (Cons x xs)
  have "map (\<lambda>i. k + int i) [0..<Suc (length xs)] = k # map (\<lambda>i. k + 1 + int i) [0..<length xs]"
    by (simp only: upt_conv_Cons zero_less_Suc map_Suc_upt [symmetric] list.map) (simp add: o_def)
  then show ?case using Cons [of "k + 1"] by simp
qed simp

lemma numbered_sorted: "sorted (map fst (numbered k xs))" "distinct (map fst (numbered k xs))"
  by (simp_all add: numbered_ids sorted_iff_nth_mono distinct_map inj_on_def)

lemma start_file_list:
  assumes "wrt_ready s" and "registerWidget h info sec s = (Inr (), s')"
  shows "getStartFileList h s' = (Inr (map (\<lambda>(k, f). \<lparr>sf_id = k, sf_appId = h, sf_src = c_text (rs_path f)\<rparr>)
       (numbered (next_id ''WidgetStartFile'' ''start_file_id'' (e_db s, e_seq s)) (wi_startFiles info))), s')"
proof -
  have ready: "free q s'" "fair_scan s'" for q
    using registered_ready(1) [OF assms] by (simp_all add: wrt_ready_def idle_free)
  have scan: "mset (e_scan s' rs) = mset rs" for rs using ready(2) by (simp add: fair_scan_def)
  let ?ns = "numbered (next_id ''WidgetStartFile'' ''start_file_id'' (e_db s, e_seq s)) (wi_startFiles info)"
  let ?files = "map (\<lambda>(k, f). stored ''WidgetStartFile'' k (start_file_cells h f)) ?ns"
  have files: "filter (rows_of h) (e_db s' ''WidgetStartFile'') = ?files"
    using child_rows [OF assms table_of(12) fks_app(4)]
    by (simp add: new_rows_def list_all_iff rows_of_def stored_rows get_Cons Let_def split: prod.split)
  have key: "map (\<lambda>r. int_of r ''start_file_id'') ?files = map fst ?ns"
    by (simp add: stored_rows int_of_def cell_int_def get_Cons split: prod.split)
  have "inj_on (\<lambda>r. int_of r ''start_file_id'') (set (e_scan s' ?files))"
    using numbered_sorted(2) [of "next_id ''WidgetStartFile'' ''start_file_id'' (e_db s, e_seq s)" "wi_startFiles info"] ready(2)
    by (simp add: key [symmetric] distinct_map del: map_map)
  then have order: "order_by ''start_file_id'' (e_scan s' ?files) = ?files"
    unfolding order_by_def by (rule sort_key_inj_key_eq [OF scan]) (simp only: key numbered_sorted)
  have "map (\<lambda>r. \<lparr>sf_id = int_of r ''start_file_id'', sf_appId = int_of r ''app_id'', sf_src = text_of r ''src''\<rparr>) ?files =
      map (\<lambda>(k, f). \<lparr>sf_id = k, sf_appId = h, sf_src = c_text (rs_path f)\<rparr>) ?ns"
    by (simp add: stored_rows int_of_def cell_int_def text_of_def get_Cons split: prod.split)
  then show ?thesis
    by (simp add: getStartFileList_def sql_handler_run bindP_def ret_def rows_run [OF ready(1)] holds_of_app files order
        del: map_map)
qed

text \<open>
  C16: the lists of a widget are read back: its window modes, its access rules and its language tags as they
  were registered, in whatever order the tables are scanned, and its start files in the order they were
  registered in, numbered from the next free id.
\<close>

theorem register_then_list:
  assumes "wrt_ready s" and "registerWidget h info sec s = (Inr (), s')"
  shows "(\<exists>modes. getWindowModes h s' = (Inr modes, s') \<and> mset modes = mset (map c_text (cd_windowModes (wi_configInfo info)))) \<and>
    (\<exists>rules. getWidgetAccessInfo h s' = (Inr rules, s') \<and>
       mset rules = mset (map (\<lambda>a. (c_text (ac_iri a), ac_subdomains a)) (cd_accessInfoSet (wi_configInfo info)))) \<and>
    (\<exists>tags. getLanguageTags h s' = (Inr tags, s') \<and>
       mset tags = mset (map (\<lambda>d. c_text (fst d)) (cd_localizedDataSet (wi_configInfo info)))) \<and>
    getStartFileList h s' = (Inr (map (\<lambda>(k, f). \<lparr>sf_id = k, sf_appId = h, sf_src = c_text (rs_path f)\<rparr>)
       (numbered (next_id ''WidgetStartFile'' ''start_file_id'' (e_db s, e_seq s)) (wi_startFiles info))), s')"
proof -
  have ready: "free q s'" "fair_scan s'" for q
    using registered_ready(1) [OF assms] by (simp_all add: wrt_ready_def idle_free)
  have scan: "mset (e_scan s' rs) = mset rs" for rs using ready(2) by (simp add: fair_scan_def)
  have modes: "filter (rows_of h) (e_db s' ''WidgetWindowModes'') =
      map (\<lambda>w. stored ''WidgetWindowModes'' 0 (mode_cells h w)) (cd_windowModes (wi_configInfo info))"
    using child_rows [OF assms table_of(4) fks_app(1)]
    by (simp add: new_rows_def simple_rows_def list_all_iff rows_of_def stored_rows get_Cons o_def Let_def)
  have rules: "filter (rows_of h) (e_db s' ''WidgetWARPInfo'') =
      map (\<lambda>a. stored ''WidgetWARPInfo'' 0 (access_cells h a)) (cd_accessInfoSet (wi_configInfo info))"
    using child_rows [OF assms table_of(16) fks_app(2)]
    by (simp add: new_rows_def simple_rows_def list_all_iff rows_of_def stored_rows get_Cons o_def Let_def)
  have tags: "filter (rows_of h) (e_db s' ''LocalizedWidgetInfo'') =
      map (\<lambda>d. stored ''LocalizedWidgetInfo'' 0 (localized_cells h d)) (cd_localizedDataSet (wi_configInfo info))"
    using child_rows [OF assms table_of(5) fks_app(3)]
    by (simp add: new_rows_def simple_rows_def list_all_iff rows_of_def stored_locale o_def Let_def)
  have m: "mset (map f (e_scan s' rs)) = mset (map f rs)" for f :: "row \<Rightarrow> 'x" and rs
    using scan by (simp add: mset_map)
  have "\<exists>modes. getWindowModes h s' = (Inr modes, s') \<and> mset modes = mset (map c_text (cd_windowModes (wi_configInfo info)))"
    using m [of "\<lambda>r. text_of r ''window_mode''"]
    by (simp add: getWindowModes_def sql_handler_run single_runs(3) [OF ready(1)] holds_of_app modes o_def stored_rows
        text_of_def get_Cons del: mset_map)
  moreover have "\<exists>rules. getWidgetAccessInfo h s' = (Inr rules, s') \<and>
       mset rules = mset (map (\<lambda>a. (c_text (ac_iri a), ac_subdomains a)) (cd_accessInfoSet (wi_configInfo info)))"
    using m [of "\<lambda>r. (text_of r ''iri'', opt_int_of r ''subdomain_access'' = Some 1)"]
    by (simp add: getWidgetAccessInfo_def sql_handler_run bindP_def ret_def rows_run [OF ready(1)] holds_of_app rules o_def
        stored_rows text_of_def opt_int_of_def get_Cons flag_one del: mset_map)
  moreover have "\<exists>tags. getLanguageTags h s' = (Inr tags, s') \<and>
       mset tags = mset (map (\<lambda>d. c_text (fst d)) (cd_localizedDataSet (wi_configInfo info)))"
    using m [of "\<lambda>r. text_of r ''widget_locale''"]
    by (simp add: getLanguageTags_def sql_handler_run single_runs(3) [OF ready(1)] holds_of_app tags o_def
        stored_locale text_of_def del: mset_map)
  moreover note start_file_list [OF assms]
  ultimately show ?thesis by blast
qed

section \<open>Registering a handle that is in use\<close>

lemma info_insert_fails:
  assumes "installed db h"
  shows "insert_row wrt_schema ''WidgetInfo'' (map (\<lambda>(c, v). (c, bound v)) (info_cells h info sec)) (db, seq) = None"
proof -
  let ?cv = "map (\<lambda>(c, v). (c, bound v)) (info_cells h info sec)"
  obtain r where r: "r \<in> set (db ''WidgetInfo'')" "get r ''app_id'' = CInt h"
    using assms by (auto simp: installed_def)
  have id: "get (full_row WidgetInfo_table k ?cv) ''app_id'' = CInt h" for k
  proof -
    have "stored ''WidgetInfo'' k (info_cells h info sec) = stored ''WidgetInfo'' 0 (info_cells h info sec)"
      by (rule stored_own_id [OF table_of(2) table_ids(1), of _ h]) (simp add: info_cells_def Let_def)
    then show ?thesis using get_info_id [of h info sec] by (simp add: stored_def table_of(2))
  qed
  have "\<not> row_fits WidgetInfo_table (db ''WidgetInfo'') (full_row WidgetInfo_table k ?cv)" for k
    using r id [of k] by (auto simp: row_fits_def info_key list_ex_iff same_key_def intro!: bexI [of _ r])
  then show ?thesis by (simp add: insert_row_def table_of(2) Let_def)
qed

definition rest_steps :: "int \<Rightarrow> register_info \<Rightarrow> wac_security \<Rightarrow> unit db_prog" where
  "rest_steps h info sec =
     thenP (registerWidgetExtendedInfo h info)
     (thenP (registerWidgetLocalizedInfo h info)
     (thenP (registerWidgetIcons h info)
     (thenP (registerWidgetStartFile h info)
     (thenP (RegisterProperties h (wi_configInfo info))
     (thenP (registerWidgetFeatures h info)
     (thenP (registerWidgetWindowModes h info)
     (thenP (registerWidgetWarpInfo h info)
     (thenP (registerWidgetCertificates h sec)
     (thenP (registerLaunchCertificates h (ws_chains sec))
     (thenP (registerWidgetSettings h info)
     (thenP (registerAppService h info)
            (registerEncryptedResouceInfo h info))))))))))))"

lemma steps_start: "register_steps h info sec = thenP (registerWidgetInfo h info sec) (rest_steps h info sec)"
  by (simp add: register_steps_def rest_steps_def)

lemma steps_fail:
  "registerWidgetInfo h info sec s = (Inl e, u) \<Longrightarrow> register_steps h info sec s = (Inl e, u)"
  by (simp add: steps_start thenP_def bindP_def)

lemma register_fails:
  assumes "outside_tx s" and "registerWidgetInfo h info sec (opened s) = (Inl (DatabaseError DaoWidget), u)"
  shows "registerWidget h info sec s =
     (Inl (DatabaseError DaoWidget), (closed True u)\<lparr>e_db := e_db s, e_seq := e_seq s\<rparr>)"
  using scope_outcome [OF assms(1) keeps_steps_tx steps_fail [OF assms(2)]]
  by (simp add: registerWidget_def sql_handler_run is_sql_def)

lemma register_installed:
  assumes "idle s" and "outside_tx s" and "installed (e_db s) h" and "registerWidget h info sec s = (r, s1)"
  shows "r = Inl (DatabaseError DaoWidget)" and "e_db s1 = e_db s" and "outside_tx s1"
    and "e_busy s1 ''registerWidgetInfo''"
proof -
  have "registerWidgetInfo h info sec (opened s) =
      (Inl (DatabaseError DaoWidget), (opened s)\<lparr>e_busy := (e_busy s)(''registerWidgetInfo'' := True)\<rparr>)"
    using insert_fails [OF idle_free, of "opened s" wrt_schema "''WidgetInfo''" "info_cells h info sec" "''registerWidgetInfo''"]
      info_insert_fails [of "e_db s" h info sec "e_seq s"] assms(1,3)
    by (simp add: registerWidgetInfo_def sql_handler_run insert_only_def bindP_def is_sql_def)
  from register_fails [OF assms(2) this] assms(4)
  show "r = Inl (DatabaseError DaoWidget)" "e_db s1 = e_db s" "outside_tx s1" "e_busy s1 ''registerWidgetInfo''"
    by (auto simp: closed_def outside_tx_def)
qed

text \<open>
  C39: registering a handle that is in use is refused and changes nothing, but the query of the thread is
  never reset: after that the registration of any widget is refused.
\<close>

theorem failed_registration_blocks:
  assumes "wrt_ready s" and "installed (e_db s) h" and "registerWidget h info sec s = (r, s1)"
    and "registerWidget h' info' sec' s1 = (r', s2)"
  shows "r = Inl (DatabaseError DaoWidget) \<and> r' = Inl (DatabaseError DaoWidget) \<and> e_db s2 = e_db s"
proof -
  have "idle s" "outside_tx s" using assms(1) by (simp_all add: wrt_ready_def)
  note first = register_installed [OF this assms(2,3)]
  have "registerWidgetInfo h' info' sec' (opened s1) = (Inl (DatabaseError DaoWidget), opened s1)"
    using first(4) by (simp add: registerWidgetInfo_def sql_handler_run insert_only_def bindP_def do_insert_def
        busy_blocks is_sql_def)
  from register_fails [OF first(3) this] assms(4) show ?thesis
    using first(1,2) by (auto simp: closed_def)
qed

definition no_security :: wac_security where
  "no_security = \<lparr>ws_certificates = [], ws_recognized = False, ws_distributorSigned = False, ws_wacSigned = False, ws_chains = []\<rparr>"

theorem failed_registration_blocks_witness:
  "fst (registerWidget 8 (new_register_info 0) no_security
     (snd (registerWidget 7 (new_register_info 0) no_security one_widget))) = Inl (DatabaseError DaoWidget)"
  using failed_registration_blocks [OF one_widget_state(1), of 7 "new_register_info 0" no_security
      "fst (registerWidget 7 (new_register_info 0) no_security one_widget)"
      "snd (registerWidget 7 (new_register_info 0) no_security one_widget)" 8 "new_register_info 0" no_security]
  by (simp add: one_widget_state prod_eq_iff)


end
