(* ===== verification/RegisterSucceeds.thy ===== *)
theory RegisterSucceeds
  imports RegisteredWidget
begin

text \<open>
  When a registration succeeds: the condition on what is registered, and that it is enough.  Each step
  is followed with the tables it starts from.
\<close>

section \<open>Steps that return\<close>

definition stage :: "db_store \<Rightarrow> sql_env \<Rightarrow> bool" where
  "stage w s \<longleftrightarrow> idle s \<and> fair_scan s \<and> integrity wrt_schema s \<and> e_db s = fst w \<and> e_seq s = snd w"

definition returns :: "'a db_prog \<Rightarrow> sql_env \<Rightarrow> bool" where
  "returns m s \<longleftrightarrow> (\<exists>x u. m s = (Inr x, u))"

lemma stage_after:
  assumes "stage w s" and "does m f" and "keeps (integrity wrt_schema) m" and "m s = (Inr x, u)"
  shows "x = fst (f w)" and "stage (snd (f w)) u"
proof -
  have s: "idle s" "fair_scan s" "integrity wrt_schema s" "(e_db s, e_seq s) = w"
    using assms(1) by (auto simp: stage_def)
  note d = doesD [OF assms(2) s(2) assms(4)]
  have fw: "f w = (x, e_db u, e_seq u)" using d(1) s(4) by simp
  show "x = fst (f w)" by (simp add: fw)
  show "stage (snd (f w)) u"
    using d(3) d(4) [OF s(1)] keeps_pair [OF assms(3) s(3) assms(4)] by (simp add: stage_def fw)
qed

lemma returns_bind:
  assumes "stage w s" and "does m f" and "keeps (integrity wrt_schema) m" and "returns m s"
    and "\<And>u. stage (snd (f w)) u \<Longrightarrow> returns (k (fst (f w))) u"
  shows "returns (bindP m k) s"
proof -
  obtain x u where run: "m s = (Inr x, u)" using assms(4) by (auto simp: returns_def)
  from stage_after [OF assms(1-3) run] assms(5) have "returns (k x) u" by simp
  then show ?thesis by (simp add: returns_def bindP_def run)
qed

lemma returns_then:
  assumes "stage w s" and "does m f" and "keeps (integrity wrt_schema) m" and "returns m s"
    and "\<And>u. stage (snd (f w)) u \<Longrightarrow> returns k u"
  shows "returns (thenP m k) s"
  unfolding thenP_def using assms by (rule returns_bind)

lemma returns_ret: "returns (ret x) s"
  by (simp add: returns_def ret_def)

text \<open>An insert returns when its row fits.\<close>

definition insertable :: "string \<Rightarrow> row \<Rightarrow> tables \<Rightarrow> bool" where
  "insertable t r db \<longleftrightarrow> (\<exists>sc. map_of wrt_schema t = Some sc \<and> row_fits sc (db t) r \<and> list_all (fk_holds db r) (ts_fks sc))"

lemma insert_returns:
  assumes "stage w s" and "map_of wrt_schema t = Some sc"
    and "insertable t (stored t (case ts_rowid sc of Some c \<Rightarrow> next_id t c w | None \<Rightarrow> 0) cv) (fst w)"
  shows "returns (wrt_insert q t cv) s" and "returns (insert_only q t cv) s"
proof -
  have s: "idle s" "e_db s = fst w" "e_seq s = snd w" using assms(1) by (simp_all add: stage_def)
  define k where "k = (case ts_rowid sc of Some c \<Rightarrow> next_rowid c (e_db s t) (e_seq s t) | None \<Rightarrow> 0)"
  define r where "r = full_row sc k (map (\<lambda>(c, v). (c, bound v)) cv)"
  have "k = (case ts_rowid sc of Some c \<Rightarrow> next_id t c w | None \<Rightarrow> 0)"
    by (simp add: k_def next_id_def s case_prod_unfold split: option.split)
  then have "r = stored t (case ts_rowid sc of Some c \<Rightarrow> next_id t c w | None \<Rightarrow> 0) cv"
    by (simp add: r_def stored_def assms(2))
  then have "row_fits sc (e_db s t) r" "list_all (fk_holds (e_db s) r) (ts_fks sc)"
    using assms(3) by (simp_all add: insertable_def assms(2) s)
  then obtain n db seq where "insert_row wrt_schema t (map (\<lambda>(c, v). (c, bound v)) cv) (e_db s, e_seq s) = Some (n, db, seq)"
    by (simp add: insert_row_def assms(2) Let_def flip: k_def r_def)
  from insert_runs [OF idle_free [OF s(1)] this]
  show "returns (wrt_insert q t cv) s" "returns (insert_only q t cv) s"
    by (simp_all add: returns_def insert_only_def bindP_def ret_def)
qed

lemma stage_table:
  assumes "stage w s" and "map_of wrt_schema t = Some sc"
  shows "table_ok sc (fst w t)" and "r \<in> set (fst w t) \<Longrightarrow> fk \<in> set (ts_fks sc) \<Longrightarrow> fk_holds (fst w) r fk"
proof -
  have db: "db_ok wrt_schema (fst w)" using assms(1) by (auto simp: stage_def integrity_def)
  then show "table_ok sc (fst w t)" "r \<in> set (fst w t) \<Longrightarrow> fk \<in> set (ts_fks sc) \<Longrightarrow> fk_holds (fst w) r fk"
    using map_of_SomeD [OF assms(2)] by (auto simp: db_ok_def)
qed

lemma put_at: "fst (put t rows w) n = (if n = t then fst w t @ rows else fst w n)"
  by (cases w) (simp add: put_def)

lemma put_more: "set (fst w n) \<subseteq> set (fst (put t rows w) n)"
  by (auto simp: put_at)

lemma each_returns:
  assumes sc: "map_of wrt_schema t = Some sc" and none: "ts_rowid sc = None" and auto: "\<not> ts_auto sc"
  shows "stage w s \<Longrightarrow> list_all (\<lambda>x. row_ok sc (stored t 0 (cells x)) \<and>
       list_all (fk_holds (fst w) (stored t 0 (cells x))) (ts_fks sc)) xs \<Longrightarrow>
     list_all (\<lambda>ks. sorted_wrt (\<lambda>r r'. \<not> same_key ks r r') (fst w t @ map (\<lambda>x. stored t 0 (cells x)) xs)) (ts_keys sc) \<Longrightarrow>
     returns (forP (\<lambda>x. insert_only q t (cells x)) xs) s"
proof (induction xs arbitrary: w s)
  case Nil
  then show ?case by (simp add: returns_ret)
next
  case (Cons x xs)
  let ?r = "stored t 0 (cells x)"
  have does: "does (insert_only q t (cells x)) (\<lambda>w. ((), put t [?r] w))"
    by (rule does_insert_only [OF sc auto stored_no_id [OF sc none]])
  have "row_fits sc (fst w t) ?r"
    using Cons.prems(2,3) by (auto simp: row_fits_def list_all_iff list_ex_iff sorted_wrt_append same_key_sym)
  then have ins: "insertable t (stored t (case ts_rowid sc of Some c \<Rightarrow> next_id t c w | None \<Rightarrow> 0) (cells x)) (fst w)"
    using Cons.prems(2) by (simp add: insertable_def sc none)
  show ?case
    unfolding forP.simps
  proof (rule returns_then [OF Cons.prems(1) does keeps_insert_only_integ insert_returns(2) [OF Cons.prems(1) sc ins]])
    fix u
    assume "stage (snd ((), put t [?r] w)) u"
    then have u: "stage (put t [?r] w) u" by simp
    show "returns (forP (\<lambda>x. insert_only q t (cells x)) xs) u"
    proof (rule Cons.IH [OF u])
      show "list_all (\<lambda>x. row_ok sc (stored t 0 (cells x)) \<and>
          list_all (fk_holds (fst (put t [?r] w)) (stored t 0 (cells x))) (ts_fks sc)) xs"
        unfolding list_all_iff
      proof (intro ballI conjI)
        fix y fk
        assume y: "y \<in> set xs"
        then show "row_ok sc (stored t 0 (cells y))" using Cons.prems(2) by (simp add: list_all_iff)
        assume "fk \<in> set (ts_fks sc)"
        then have "fk_holds (fst w) (stored t 0 (cells y)) fk" using y Cons.prems(2) by (simp add: list_all_iff)
        then show "fk_holds (fst (put t [?r] w)) (stored t 0 (cells y)) fk" by (rule fk_holds_mono) (rule put_more)
      qed
      show "list_all (\<lambda>ks. sorted_wrt (\<lambda>r r'. \<not> same_key ks r r')
          (fst (put t [?r] w) t @ map (\<lambda>x. stored t 0 (cells x)) xs)) (ts_keys sc)"
        using Cons.prems(3) by (simp add: put_at)
    qed
  qed
qed

text \<open>Rows of a widget that has none in the table yet.\<close>

lemma sorted_keys:
  assumes "\<And>x y. same_key ks (R x) (R y) \<longleftrightarrow> key x = key y"
  shows "sorted_wrt (\<lambda>r r'. \<not> same_key ks r r') (map R xs) \<longleftrightarrow> distinct (map key xs)"
  by (induction xs) (auto simp: assms)

lemma new_keys:
  assumes "table_ok sc rows" and "ks \<in> set (ts_keys sc)" and "c \<in> set ks"
    and "list_all (\<lambda>r. get r c \<noteq> v) rows" and "\<And>r. r \<in> set new \<Longrightarrow> get r c = v"
    and "sorted_wrt (\<lambda>r r'. \<not> same_key ks r r') new"
  shows "sorted_wrt (\<lambda>r r'. \<not> same_key ks r r') (rows @ new)"
proof -
  have "\<not> same_key ks r r'" if "r \<in> set rows" "r' \<in> set new" for r r'
    using that assms(3-5) by (force simp: same_key_def list_all_iff)
  then show ?thesis using assms(1,2,6) by (auto simp: sorted_wrt_append table_ok_def)
qed

lemma children_return:
  assumes "stage w s" and sc: "map_of wrt_schema t = Some sc" "ts_rowid sc = None" "\<not> ts_auto sc"
    and fks: "ts_fks sc = [(c, pt, pc)]" and keys: "list_all (\<lambda>ks. c \<in> set ks) (ts_keys sc)"
    and cells: "\<And>x. row_ok sc (stored t 0 (cells x)) \<and> get (stored t 0 (cells x)) c = v"
    and "list_ex (\<lambda>p. get p pc = v) (fst w pt)" and "list_all (\<lambda>r. get r c \<noteq> v) (fst w t)"
    and "list_all (\<lambda>ks. sorted_wrt (\<lambda>r r'. \<not> same_key ks r r') (map (\<lambda>x. stored t 0 (cells x)) xs)) (ts_keys sc)"
  shows "returns (forP (\<lambda>x. insert_only q t (cells x)) xs) s"
proof (rule each_returns [OF sc assms(1)])
  show "list_all (\<lambda>x. row_ok sc (stored t 0 (cells x)) \<and>
      list_all (fk_holds (fst w) (stored t 0 (cells x))) (ts_fks sc)) xs"
    using cells assms(8) by (simp add: list_all_iff fks fk_holds_def)
  show "list_all (\<lambda>ks. sorted_wrt (\<lambda>r r'. \<not> same_key ks r r') (fst w t @ map (\<lambda>x. stored t 0 (cells x)) xs)) (ts_keys sc)"
    unfolding list_all_iff
  proof
    fix ks
    assume ks: "ks \<in> set (ts_keys sc)"
    show "sorted_wrt (\<lambda>r r'. \<not> same_key ks r r') (fst w t @ map (\<lambda>x. stored t 0 (cells x)) xs)"
      by (rule new_keys [OF stage_table(1) [OF assms(1) sc(1)] ks _ assms(9)])
        (use keys cells ks assms(10) in \<open>auto simp: list_all_iff\<close>)
  qed
qed

text \<open>A counted parent row and the rows that refer to it.\<close>

lemma next_id_fresh: "r \<in> set (fst w t) \<Longrightarrow> get r c \<noteq> CInt (next_id t c w)"
  unfolding next_id_def by (cases w) (simp add: next_rowid_fresh)

lemma put_id_at: "fst (put_id t c cv w) n = (if n = t then fst w t @ [stored t (next_id t c w) cv] else fst w n)"
  by (cases w) (simp add: put_id_def)

lemma stage_installed:
  "installed (fst w) h \<Longrightarrow> ''WidgetInfo'' \<noteq> t \<Longrightarrow> installed (fst (put_id t c cv w)) h"
  "installed (fst w) h \<Longrightarrow> installed (fst (put t rows w)) h"
  by (auto simp: installed_def put_id_at put_at)

lemma counted_returns:
  assumes "stage w s" and sc: "map_of wrt_schema t = Some sc" "ts_rowid sc = Some c" "ts_keys sc = [[c]]"
    and fks: "ts_fks sc = [(''app_id'', ''WidgetInfo'', ''app_id'')]"
    and row: "\<And>k. get (stored t k cv) c = CInt k" "\<And>k. get (stored t k cv) ''app_id'' = CInt h" "\<And>k. row_ok sc (stored t k cv)"
    and "installed (fst w) h"
  shows "returns (wrt_insert q t cv) s"
proof (rule insert_returns(1) [OF assms(1) sc(1)])
  let ?r = "stored t (next_id t c w) cv"
  have "\<not> same_key [c] ?r r" if "r \<in> set (fst w t)" for r
    using next_id_fresh [OF that, of c] by (simp add: same_key_def row(1))
  then have "\<not> list_ex (same_key [c] ?r) (fst w t)" by (auto simp: list_ex_iff)
  then show "insertable t (stored t (case ts_rowid sc of None \<Rightarrow> 0 | Some c \<Rightarrow> next_id t c w) cv) (fst w)"
    using row assms(9) by (simp add: insertable_def sc fks row_fits_def fk_holds_def row(2) installed_def list_ex_iff)
qed

lemma parents_return:
  assumes sc: "map_of wrt_schema t = Some sc" "ts_rowid sc = Some c" "ts_auto sc" "ts_keys sc = [[c]]"
      "ts_fks sc = [(''app_id'', ''WidgetInfo'', ''app_id'')]"
    and row: "\<And>k x. get (stored t k (cells x)) c = CInt k" "\<And>k x. get (stored t k (cells x)) ''app_id'' = CInt h"
      "\<And>k x. row_ok sc (stored t k (cells x))"
    and kid: "map_of wrt_schema ct = Some scc" "ts_rowid scc = None" "\<not> ts_auto scc" "ts_fks scc = [(c, t, c)]"
      "list_all (\<lambda>ks. c \<in> set ks) (ts_keys scc)" "ct \<noteq> t" "''WidgetInfo'' \<noteq> t" "''WidgetInfo'' \<noteq> ct"
    and kid_row: "\<And>k y. row_ok scc (stored ct 0 (kid_cells k y)) \<and> get (stored ct 0 (kid_cells k y)) c = CInt k"
  shows "stage w s \<Longrightarrow> installed (fst w) h \<Longrightarrow>
      list_all (\<lambda>x. \<forall>k. list_all (\<lambda>ks. sorted_wrt (\<lambda>r r'. \<not> same_key ks r r')
        (map (\<lambda>y. stored ct 0 (kid_cells k y)) (kids x))) (ts_keys scc)) xs \<Longrightarrow>
    returns (forP (\<lambda>x. bindP (wrt_insert q t (cells x)) (\<lambda>k. forP (\<lambda>y. insert_only q' ct (kid_cells k y)) (kids x))) xs) s"
proof (induction xs arbitrary: w s)
  case Nil
  then show ?case by (simp add: returns_ret)
next
  case (Cons x xs)
  let ?k = "next_id t c w"
  have ins: "does (wrt_insert q t (cells x)) (\<lambda>w. (next_id t c w, put_id t c (cells x) w))" for x
    by (rule does_insert_id [OF sc(1,3,2) row(1)])
  have kids: "does (insert_only q' ct (kid_cells k y)) (\<lambda>w. ((), put ct [stored ct 0 (kid_cells k y)] w))" for k y
    by (rule does_insert_only [OF kid(1,3) stored_no_id [OF kid(1,2)]])
  have one: "does (bindP (wrt_insert q t (cells x)) (\<lambda>k. forP (\<lambda>y. insert_only q' ct (kid_cells k y)) (kids x)))
      (\<lambda>w. ((), put_parent t c ct cells kids kid_cells x w))"
    by (rule does_cong [OF does_bind [OF ins does_for_put [OF kids]]]) (simp add: put_parent_def)
  have keep: "keeps (integrity wrt_schema) (bindP (wrt_insert q t (cells x)) (\<lambda>k. forP (\<lambda>y. insert_only q' ct (kid_cells k y)) (kids x)))"
    by (intro integ.keeps_tx keeps_insert_only_integ)
  have fresh: "list_all (\<lambda>r. get r c \<noteq> CInt ?k) (fst w ct)"
    unfolding list_all_iff
  proof
    fix r
    assume "r \<in> set (fst w ct)"
    then have "fk_holds (fst w) r (c, t, c)" using stage_table(2) [OF Cons.prems(1) kid(1)] kid(4) by simp
    then show "get r c \<noteq> CInt ?k" using next_id_fresh [of _ w t c] by (auto simp: fk_holds_def list_ex_iff)
  qed
  have first: "returns (bindP (wrt_insert q t (cells x)) (\<lambda>k. forP (\<lambda>y. insert_only q' ct (kid_cells k y)) (kids x))) s"
  proof (rule returns_bind [OF Cons.prems(1) ins integ.keeps_queries(1)
        counted_returns [OF Cons.prems(1) sc(1,2,4,5) row Cons.prems(2)]])
    fix u
    assume "stage (snd (?k, put_id t c (cells x) w)) u"
    then have u: "stage (put_id t c (cells x) w) u" by simp
    show "returns (forP (\<lambda>y. insert_only q' ct (kid_cells (fst (?k, put_id t c (cells x) w)) y)) (kids x)) u"
      unfolding fst_conv
      by (rule children_return [OF u kid(1-5) kid_row])
        (use fresh Cons.prems(3) kid(6) in \<open>simp_all add: put_id_at row(1)\<close>)
  qed
  show ?case
    unfolding forP.simps
  proof (rule returns_then [OF Cons.prems(1) one keep first])
    fix u
    assume "stage (snd ((), put_parent t c ct cells kids kid_cells x w)) u"
    then have u: "stage (put_parent t c ct cells kids kid_cells x w) u" by simp
    show "returns (forP (\<lambda>x. bindP (wrt_insert q t (cells x)) (\<lambda>k. forP (\<lambda>y. insert_only q' ct (kid_cells k y)) (kids x))) xs) u"
      by (rule Cons.IH [OF u]) (use Cons.prems(2,3) kid(7) in \<open>simp_all add: put_parent_def stage_installed\<close>)
  qed
qed

section \<open>The icons\<close>

text \<open>One icon for each locale of the widget, and those of the icon being registered are the widget's.\<close>

definition one_each :: "int \<Rightarrow> row list \<Rightarrow> bool" where
  "one_each h rows \<longleftrightarrow> (\<forall>j. length (filter (at_locale h j) rows) \<le> 1)"

definition icon_ready :: "int \<Rightarrow> int \<Rightarrow> db_store \<Rightarrow> bool" where
  "icon_ready h k w \<longleftrightarrow> list_ex (\<lambda>p. get p ''icon_id'' = CInt k) (fst w ''WidgetIcon'') \<and>
     list_all (\<lambda>r. get r ''icon_id'' = CInt k \<longrightarrow> rows_of h r) (fst w ''WidgetLocalizedIcon'') \<and>
     one_each h (fst w ''WidgetLocalizedIcon'')"

lemma icon_columns:
  assumes "stage w s" and "r \<in> set (fst w ''WidgetLocalizedIcon'')"
  shows "map fst r = [''app_id'', ''icon_id'', ''widget_locale'']"
  using stage_table(1) [OF assms(1) table_of(11)] assms(2)
  by (simp add: table_ok_def WidgetLocalizedIcon_table_def sql_table_def column_defs)

lemma one_each_localize:
  assumes "\<And>r. r \<in> set rows \<Longrightarrow> map fst r = [''app_id'', ''icon_id'', ''widget_locale'']" and "one_each h rows"
  shows "one_each h (localize h p rows)"
  using assms(2) by (cases p) (simp add: one_each_def localize_filter [OF assms(1)])

lemma one_each_fold:
  assumes "\<And>r. r \<in> set rows \<Longrightarrow> map fst r = [''app_id'', ''icon_id'', ''widget_locale'']" and "one_each h rows"
  shows "one_each h (fold (localize h) ps rows)"
  using assms
proof (induction ps arbitrary: rows)
  case (Cons p ps)
  have "one_each h (fold (localize h) ps (localize h p rows))"
    using Cons.prems by (intro Cons.IH one_each_localize) (auto intro: localize_columns)
  then show ?case by simp
qed simp

lemma update_list_skips:
  "list_all (\<lambda>r. \<not> p r) a \<Longrightarrow> update_list sc p cv old (a @ rest) = update_list sc p cv (old @ a) rest"
  by (induction a arbitrary: old) simp_all

lemma update_list_one:
  assumes "list_all (\<lambda>r. \<not> p r) a" and "list_all (\<lambda>r. \<not> p r) b" and "row_fits sc (a @ b) (set_cells cv r)"
  shows "update_list sc p cv [] (a @ r # b) \<noteq> None"
  using assms update_list_skips [of p b sc cv _ "[]"] update_list_skips [of p a sc cv "[]" "r # b"] by simp

lemma update_rows_returns:
  assumes sc: "map_of sch t = Some sc" "distinct (map fst sch)" "unreferenced sch t"
    and rows: "update_list sc p cv [] (db t) = Some rows"
    and fk: "\<And>r fk. r \<in> set rows \<Longrightarrow> fk \<in> set (ts_fks sc) \<Longrightarrow> fk_holds (db(t := rows)) r fk"
  shows "update_rows sch t p cv db = Some (db(t := rows))"
proof -
  let ?db = "db(t := rows)"
  have "fk_holds ?db r (c, pt, pc)"
    if "(n, sc') \<in> set sch" "r \<in> set (?db n)" "(c, pt, pc) \<in> set (ts_fks sc')" "n = t \<or> pt = t" for n sc' r c pt pc
  proof -
    have "pt \<noteq> t" using sc(3) that(1,3) by (force simp: unreferenced_def list_all_iff)
    then have n: "n = t" using that(4) by simp
    then have "sc' = sc" using that(1) sc(1,2) by (metis map_of_is_SomeI option.inject)
    then show ?thesis using fk [of r "(c, pt, pc)"] that(2,3) n by simp
  qed
  then show ?thesis by (simp add: update_rows_def sc(1) rows Let_def list_all_iff) blast
qed

lemma icon_row_fits:
  assumes "\<And>x. x \<in> set rows \<Longrightarrow> \<not> same_key [''icon_id'', ''widget_locale''] (icon_locale_cells h k j) x"
  shows "row_fits WidgetLocalizedIcon_table rows (icon_locale_cells h k j)"
proof -
  have "row_ok WidgetLocalizedIcon_table (icon_locale_cells h k j)"
    by (simp add: row_ok_def cell_ok_def WidgetLocalizedIcon_table_def sql_table_def column_defs icon_locale_cells_def get_Cons)
  moreover have "ts_keys WidgetLocalizedIcon_table = [[''icon_id'', ''widget_locale'']]"
    by (simp add: WidgetLocalizedIcon_table_def sql_table_def)
  ultimately show ?thesis using assms by (auto simp: row_fits_def list_ex_iff)
qed

lemma icon_update_runs:
  assumes "stage w s" and ready: "icon_ready h k w" and ex: "list_ex (at_locale h j) (fst w ''WidgetLocalizedIcon'')"
  shows "update_rows wrt_schema ''WidgetLocalizedIcon'' (at_locale h j) (icon_locale_cells h k j) (fst w) \<noteq> None"
proof -
  let ?rows = "fst w ''WidgetLocalizedIcon''"
  let ?new = "icon_locale_cells h k j"
  obtain a r b where split: "?rows = a @ r # b" and r: "at_locale h j r" and a: "list_all (\<lambda>x. \<not> at_locale h j x) a"
    using ex split_list_first_prop [of ?rows "at_locale h j"] by (auto simp: list_ex_iff list_all_iff)
  have "length (filter (at_locale h j) ?rows) \<le> 1" using ready by (simp add: icon_ready_def one_each_def)
  then have "filter (at_locale h j) b = []" using r by (simp add: split)
  then have b: "list_all (\<lambda>x. \<not> at_locale h j x) b" by (auto simp: filter_empty_conv list_all_iff)
  have new: "set_cells ?new r = ?new" using icon_columns [OF assms(1)] split by (intro set_cells_icon) simp
  have "\<not> same_key [''icon_id'', ''widget_locale''] ?new x" if "x \<in> set (a @ b)" for x
  proof
    assume "same_key [''icon_id'', ''widget_locale''] ?new x"
    then have x: "get x ''icon_id'' = CInt k" "get x ''widget_locale'' = CText j"
      by (simp_all add: same_key_def icon_locale_cells_def get_Cons)
    then have "rows_of h x" using ready that by (auto simp: icon_ready_def split list_all_iff)
    then have "at_locale h j x" using x by (simp add: at_locale_def rows_of_def)
    then show False using a b that by (auto simp: list_all_iff)
  qed
  then have "row_fits WidgetLocalizedIcon_table (a @ b) (set_cells ?new r)"
    unfolding new by (rule icon_row_fits)
  from update_list_one [OF a b this] obtain rows where
    rows: "update_list WidgetLocalizedIcon_table (at_locale h j) ?new [] ?rows = Some rows"
    by (auto simp: split)
  have "update_rows wrt_schema ''WidgetLocalizedIcon'' (at_locale h j) ?new (fst w) =
      Some ((fst w)(''WidgetLocalizedIcon'' := rows))"
  proof (rule update_rows_returns [where db = "fst w", OF table_of(11) wrt_schema_ok(2) _ rows])
    show "unreferenced wrt_schema ''WidgetLocalizedIcon''"
      by (simp add: unreferenced_def wrt_schema_def table_defs sql_table_def)
    fix x fk
    assume x: "x \<in> set rows" and fk: "fk \<in> set (ts_fks WidgetLocalizedIcon_table)"
    then have f: "fk = (''icon_id'', ''WidgetIcon'', ''icon_id'')" by (simp add: WidgetLocalizedIcon_table_def sql_table_def)
    have "x \<in> set ?rows \<or> x = ?new"
      using x update_list_rewritten [OF rows] new split r a b by (auto simp: rewrite_def list_all_iff)
    then have "fk_holds (fst w) x fk"
      using stage_table(2) [OF assms(1) table_of(11) _ fk] ready
      by (auto simp: f fk_holds_def icon_locale_cells_def get_Cons icon_ready_def)
    then show "fk_holds ((fst w)(''WidgetLocalizedIcon'' := rows)) x fk" by (simp add: f fk_holds_def)
  qed
  then show ?thesis by simp
qed

lemma icon_locale_returns:
  assumes "stage w s" and "icon_ready h k w"
  shows "returns (register_icon_locale h k j) s"
proof -
  have s: "idle s" "fair_scan s" "e_db s = fst w" using assms(1) by (simp_all add: stage_def)
  note free = idle_free [OF s(1)]
  let ?j = "c_text j"
  have cells: "map (\<lambda>(c, v). (c, bound v)) (icon_locale_cells h k j) = icon_locale_cells h k ?j"
    by (simp add: icon_locale_cells_def)
  show ?thesis
  proof (cases "list_ex (at_locale h ?j) (fst w ''WidgetLocalizedIcon'')")
    case True
    then have "filter (at_locale h ?j) (fst w ''WidgetLocalizedIcon'') \<noteq> []" by (auto simp: filter_empty_conv list_ex_iff)
    moreover obtain db where "update_rows wrt_schema ''WidgetLocalizedIcon'' (at_locale h ?j) (icon_locale_cells h k ?j) (fst w) = Some db"
      using icon_update_runs [OF assms True] by blast
    ultimately show ?thesis
      using s(2) by (simp add: register_icon_locale_def returns_def bindP_def rows_run [OF free] s(3) holds_of_locale
          update_runs [OF free] cells icon_locale_cells_def)
  next
    case False
    then have none: "filter (at_locale h ?j) (fst w ''WidgetLocalizedIcon'') = []" by (auto simp: filter_empty_conv list_ex_iff)
    have "\<not> same_key [''icon_id'', ''widget_locale''] (icon_locale_cells h k ?j) x"
      if "x \<in> set (fst w ''WidgetLocalizedIcon'')" for x
      using that False assms(2)
      by (auto simp: same_key_def icon_locale_cells_def get_Cons icon_ready_def list_all_iff list_ex_iff at_locale_def rows_of_def)
    then have "insertable ''WidgetLocalizedIcon'' (icon_locale_cells h k ?j) (fst w)"
      using assms(2) icon_row_fits [of "fst w ''WidgetLocalizedIcon''" h k ?j]
      by (simp add: insertable_def table_of WidgetLocalizedIcon_table_def sql_table_def fk_holds_def icon_ready_def
          icon_locale_cells_def get_Cons)
    then have "returns (insert_only ''registerWidgetIcons.insert'' ''WidgetLocalizedIcon'' (icon_locale_cells h k j)) s"
      by (intro insert_returns(2) [OF assms(1) table_of(11)]) (simp add: stored_icon_locale)
    then show ?thesis
      using none s(2) by (simp add: register_icon_locale_def returns_def bindP_def rows_run [OF free] s(3) holds_of_locale)
  qed
qed

lemma localize_in_at:
  "fst (localize_in h k j w) n =
     (if n = ''WidgetLocalizedIcon'' then localize h (k, j) (fst w ''WidgetLocalizedIcon'') else fst w n)"
  by (cases w) (simp add: localize_in_def)

lemma icon_ready_localized:
  assumes "stage w s" and "icon_ready h k w"
  shows "icon_ready h k (localize_in h k j w)"
proof -
  have "get r ''icon_id'' = CInt k \<longrightarrow> rows_of h r" if "r \<in> set (localize h (k, j) (fst w ''WidgetLocalizedIcon''))" for r
  proof -
    have new: "rows_of h (icon_locale_cells h k (c_text j))" by (simp add: rows_of_def icon_locale_cells_def get_Cons)
    have old: "get x ''icon_id'' = CInt k \<longrightarrow> rows_of h x" if "x \<in> set (fst w ''WidgetLocalizedIcon'')" for x
      using assms(2) that by (simp add: icon_ready_def list_all_iff)
    have "r \<in> set (fst w ''WidgetLocalizedIcon'') \<or> r = icon_locale_cells h k (c_text j)"
      using that set_cells_icon [OF icon_columns [OF assms(1)]]
      by (auto simp: localize_def rewrite_def split: if_splits)
    then show ?thesis using old new by auto
  qed
  then show ?thesis
    using assms(2) one_each_localize [OF icon_columns [OF assms(1)]]
    by (simp add: icon_ready_def localize_in_at list_all_iff)
qed

lemma keeps_icon_locale: "keeps (integrity wrt_schema) (register_icon_locale h k j)"
  unfolding register_icon_locale_def by (intro integ.keeps_tx keeps_cases keeps_insert_only_integ)

lemma icon_locales_return:
  "stage w s \<Longrightarrow> icon_ready h k w \<Longrightarrow> returns (forP (register_icon_locale h k) js) s"
proof (induction js arbitrary: w s)
  case (Cons j js)
  show ?case
    unfolding forP.simps
    by (rule returns_then [OF Cons.prems(1) does_icon_locale keeps_icon_locale icon_locale_returns [OF Cons.prems]])
      (simp add: Cons.IH icon_ready_localized [OF Cons.prems])
qed (simp add: returns_ret)

lemma icon_row:
  "get (stored ''WidgetIcon'' k (icon_cells h i)) ''app_id'' = CInt h"
  "row_ok WidgetIcon_table (stored ''WidgetIcon'' k (icon_cells h i))"
  by (simp_all add: stored_def table_of full_row_def WidgetIcon_table_def sql_table_def column_defs icon_cells_def
      get_Cons row_ok_def cell_ok_def split: option.split)

lemma icons_return:
  "stage w s \<Longrightarrow> installed (fst w) h \<Longrightarrow> one_each h (fst w ''WidgetLocalizedIcon'') \<Longrightarrow>
   returns (forP (\<lambda>i. bindP (wrt_insert ''registerWidgetIcons'' ''WidgetIcon'' (icon_cells h i)) (\<lambda>k.
     forP (register_icon_locale h k) (ri_locales i))) is) s"
proof (induction "is" arbitrary: w s)
  case Nil
  then show ?case by (simp add: returns_ret)
next
  case (Cons i "is")
  let ?k = "next_id ''WidgetIcon'' ''icon_id'' w"
  let ?w = "put_id ''WidgetIcon'' ''icon_id'' (icon_cells h i) w"
  let ?ins = "wrt_insert ''registerWidgetIcons'' ''WidgetIcon'' (icon_cells h i)"
  have sc: "ts_rowid WidgetIcon_table = Some ''icon_id''" "ts_auto WidgetIcon_table" "ts_keys WidgetIcon_table = [[''icon_id'']]"
    "ts_fks WidgetIcon_table = [(''app_id'', ''WidgetInfo'', ''app_id'')]"
    by (simp_all add: WidgetIcon_table_def sql_table_def)
  have ins: "does ?ins (\<lambda>w. (next_id ''WidgetIcon'' ''icon_id'' w, put_id ''WidgetIcon'' ''icon_id'' (icon_cells h i) w))"
    by (rule does_insert_id [OF table_of(10) sc(2,1) icon_id])
  have one: "does (bindP ?ins (\<lambda>k. forP (register_icon_locale h k) (ri_locales i))) (\<lambda>w. ((), spec_icon h i w))"
    by (rule does_cong [OF does_bind [OF ins does_for [OF does_icon_locale]]]) (simp add: spec_icon_def)
  have keep: "keeps (integrity wrt_schema) (bindP ?ins (\<lambda>k. forP (register_icon_locale h k) (ri_locales i)))"
    by (intro integ.keeps_tx keeps_icon_locale)
  have fresh: "get r ''icon_id'' \<noteq> CInt ?k" if "r \<in> set (fst w ''WidgetLocalizedIcon'')" for r
  proof -
    have "fk_holds (fst w) r (''icon_id'', ''WidgetIcon'', ''icon_id'')"
      using stage_table(2) [OF Cons.prems(1) table_of(11) that] by (simp add: WidgetLocalizedIcon_table_def sql_table_def)
    then show ?thesis using next_id_fresh [of _ w "''WidgetIcon''" "''icon_id''"] by (auto simp: fk_holds_def list_ex_iff)
  qed
  have ready: "icon_ready h ?k ?w"
    using fresh Cons.prems(3) by (simp add: icon_ready_def put_id_at icon_id list_all_iff)
  have first: "returns (bindP ?ins (\<lambda>k. forP (register_icon_locale h k) (ri_locales i))) s"
    by (rule returns_bind [OF Cons.prems(1) ins integ.keeps_queries(1)
          counted_returns [OF Cons.prems(1) table_of(10) sc(1,3,4) icon_id icon_row Cons.prems(2)]])
      (simp add: icon_locales_return [OF _ ready])
  note at = icons_at [of h "[i]" w, simplified]
  show ?case
    unfolding forP.simps
  proof (rule returns_then [OF Cons.prems(1) one keep first])
    fix u
    assume "stage (snd ((), spec_icon h i w)) u"
    then have u: "stage (spec_icon h i w) u" by simp
    show "returns (forP (\<lambda>i. bindP (wrt_insert ''registerWidgetIcons'' ''WidgetIcon'' (icon_cells h i)) (\<lambda>k.
        forP (register_icon_locale h k) (ri_locales i))) is) u"
      using at Cons.prems(2) one_each_fold [OF icon_columns [OF Cons.prems(1)] Cons.prems(3)]
      by (intro Cons.IH [OF u]) (auto simp: installed_def)
  qed
qed

section \<open>What can be registered\<close>

text \<open>
  The test mark is a flag, the chains are ASCII text, and what the tables key their rows by is listed once:
  locales, preference names, IRIs, certificates of a chain, services, and the locales of each start file.
\<close>

definition registrable :: "register_info \<Rightarrow> wac_security \<Rightarrow> bool" where
  "registrable info sec = (let cfg = wi_configInfo info in
     (wi_isTestWidget info = 0 \<or> wi_isTestWidget info = 1) \<and>
     distinct (map (c_text \<circ> fst) (cd_localizedDataSet cfg)) \<and>
     list_all (\<lambda>f. distinct (map (c_text \<circ> fst) (rs_locales f))) (wi_startFiles info) \<and>
     distinct (map (c_text \<circ> pr_name) (cd_preferencesList cfg)) \<and>
     distinct (map (c_text \<circ> ac_iri) (cd_accessInfoSet cfg)) \<and>
     distinct (map (\<lambda>c. (ce_chainId c, ce_owner c, ce_type c)) (ws_certificates sec)) \<and>
     list_all (\<lambda>c. \<not> isl (from_ascii c)) (ws_chains sec) \<and>
     distinct (map (\<lambda>v. (c_text (sv_operation v), c_text (sv_scheme v), c_text (sv_mime v))) (cd_appServiceList cfg)))"

abbreviation preference_row :: "int \<Rightarrow> cd_preference \<Rightarrow> row" where
  "preference_row h p \<equiv> preference_cells h (pr_name p) (pr_value p) (pr_readonly p)"

lemmas row_simps = stored_def table_of full_row_def sql_table_def column_defs get_Cons row_ok_def cell_ok_def

lemma localized_fits:
  "row_ok LocalizedWidgetInfo_table (stored ''LocalizedWidgetInfo'' 0 (localized_cells h d)) \<and> get (stored ''LocalizedWidgetInfo'' 0 (localized_cells h d)) ''app_id'' = CInt h"
  by (cases d) (simp add: row_simps LocalizedWidgetInfo_table_def localized_cells_def)

lemma preference_fits:
  "row_ok WidgetPreference_table (stored ''WidgetPreference'' 0 (preference_row h p)) \<and> get (stored ''WidgetPreference'' 0 (preference_row h p)) ''app_id'' = CInt h"
  by (simp add: row_simps WidgetPreference_table_def preference_cells_def)

lemma mode_fits:
  "row_ok WidgetWindowModes_table (stored ''WidgetWindowModes'' 0 (mode_cells h m)) \<and> get (stored ''WidgetWindowModes'' 0 (mode_cells h m)) ''app_id'' = CInt h"
  by (simp add: row_simps WidgetWindowModes_table_def mode_cells_def)

lemma access_fits:
  "row_ok WidgetWARPInfo_table (stored ''WidgetWARPInfo'' 0 (access_cells h a)) \<and> get (stored ''WidgetWARPInfo'' 0 (access_cells h a)) ''app_id'' = CInt h"
  by (simp add: row_simps WidgetWARPInfo_table_def access_cells_def)

lemma certificate_fits:
  "row_ok WidgetCertificateFingerprint_table (stored ''WidgetCertificateFingerprint'' 0 (certificate_cells h c)) \<and> get (stored ''WidgetCertificateFingerprint'' 0 (certificate_cells h c)) ''app_id'' = CInt h"
  by (simp add: row_simps WidgetCertificateFingerprint_table_def certificate_cells_def)

lemma chain_fits:
  "row_ok WidgetCertificate_table (stored ''WidgetCertificate'' 0 (chain_cells h n)) \<and> get (stored ''WidgetCertificate'' 0 (chain_cells h n)) ''app_id'' = CInt h"
  by (simp add: row_simps WidgetCertificate_table_def chain_cells_def)

lemma setting_fits:
  "row_ok SettginsList_table (stored ''SettginsList'' 0 (setting_cells h st)) \<and> get (stored ''SettginsList'' 0 (setting_cells h st)) ''appId'' = CInt h"
  by (simp add: row_simps SettginsList_table_def setting_cells_def)

lemma service_fits:
  "row_ok ApplicationServiceInfo_table (stored ''ApplicationServiceInfo'' 0 (service_cells h v)) \<and> get (stored ''ApplicationServiceInfo'' 0 (service_cells h v)) ''app_id'' = CInt h"
  by (simp add: row_simps ApplicationServiceInfo_table_def service_cells_def)

lemma encrypted_fits:
  "row_ok EncryptedResourceList_table (stored ''EncryptedResourceList'' 0 (encrypted_cells h f)) \<and> get (stored ''EncryptedResourceList'' 0 (encrypted_cells h f)) ''app_id'' = CInt h"
  by (simp add: row_simps EncryptedResourceList_table_def encrypted_cells_def)

definition keyed :: "table_schema \<Rightarrow> row list \<Rightarrow> bool" where
  "keyed sc rows \<longleftrightarrow> list_all (\<lambda>ks. sorted_wrt (\<lambda>r r'. \<not> same_key ks r r') rows) (ts_keys sc)"

lemma keyed_by:
  assumes "ts_keys sc = [ks]" and "\<And>x y. same_key ks (R x) (R y) \<longleftrightarrow> key x = key y"
  shows "keyed sc (map R xs) \<longleftrightarrow> distinct (map key xs)"
  by (simp add: keyed_def assms(1) sorted_keys [OF assms(2)])

lemma same_key_simps:
  "same_key [] r r'" "same_key (c # ks) r r' \<longleftrightarrow> get r c = get r' c \<and> get r c \<noteq> CNull \<and> same_key ks r r'"
  by (auto simp: same_key_def)

lemmas key_simps = row_simps same_key_simps

lemma localized_keys:
  "keyed LocalizedWidgetInfo_table (map (\<lambda>d. stored ''LocalizedWidgetInfo'' 0 (localized_cells h d)) ds) \<longleftrightarrow> distinct (map (c_text \<circ> fst) ds)"
  by (rule keyed_by [where ks = "[''app_id'', ''widget_locale'']"]; simp add: key_simps LocalizedWidgetInfo_table_def localized_cells_def case_prod_unfold)

lemma preference_keys:
  "keyed WidgetPreference_table (map (\<lambda>p. stored ''WidgetPreference'' 0 (preference_row h p)) ps) \<longleftrightarrow> distinct (map (c_text \<circ> pr_name) ps)"
  by (rule keyed_by [where ks = "[''app_id'', ''key_name'']"]; simp add: key_simps WidgetPreference_table_def preference_cells_def)

lemma access_keys:
  "keyed WidgetWARPInfo_table (map (\<lambda>a. stored ''WidgetWARPInfo'' 0 (access_cells h a)) as) \<longleftrightarrow> distinct (map (c_text \<circ> ac_iri) as)"
  by (rule keyed_by [where ks = "[''app_id'', ''iri'']"]; simp add: key_simps WidgetWARPInfo_table_def access_cells_def)

lemma certificate_keys:
  "keyed WidgetCertificateFingerprint_table (map (\<lambda>c. stored ''WidgetCertificateFingerprint'' 0 (certificate_cells h c)) cs) \<longleftrightarrow> distinct (map (\<lambda>c. (ce_chainId c, ce_owner c, ce_type c)) cs)"
  by (rule keyed_by [where ks = "[''app_id'', ''chainid'', ''owner'', ''type'']"]; simp add: key_simps WidgetCertificateFingerprint_table_def certificate_cells_def)

lemma service_keys:
  "keyed ApplicationServiceInfo_table (map (\<lambda>v. stored ''ApplicationServiceInfo'' 0 (service_cells h v)) vs) \<longleftrightarrow> distinct (map (\<lambda>v. (c_text (sv_operation v), c_text (sv_scheme v), c_text (sv_mime v))) vs)"
  by (rule keyed_by [where ks = "[''app_id'', ''operation'', ''scheme'', ''mime'']"]; simp add: key_simps ApplicationServiceInfo_table_def service_cells_def)

lemma start_locale_keys:
  "keyed WidgetLocalizedStartFile_table (map (\<lambda>y. stored ''WidgetLocalizedStartFile'' 0 (start_locale_cells h k y)) ys) \<longleftrightarrow> distinct (map (c_text \<circ> fst) ys)"
  by (rule keyed_by [where ks = "[''start_file_id'', ''widget_locale'']"]; simp add: key_simps WidgetLocalizedStartFile_table_def start_locale_cells_def case_prod_unfold)

lemma keyless:
  "keyed WidgetCertificate_table rows" "keyed WidgetWindowModes_table rows" "keyed SettginsList_table rows"
  "keyed EncryptedResourceList_table rows" "keyed FeatureParam_table rows"
  by (simp_all add: keyed_def WidgetCertificate_table_def WidgetWindowModes_table_def SettginsList_table_def
      EncryptedResourceList_table_def FeatureParam_table_def sql_table_def)

lemma start_rows:
  "get (stored ''WidgetStartFile'' k (start_file_cells h x)) ''app_id'' = CInt h"
  "row_ok WidgetStartFile_table (stored ''WidgetStartFile'' k (start_file_cells h x))"
  "row_ok WidgetLocalizedStartFile_table (stored ''WidgetLocalizedStartFile'' 0 (start_locale_cells h k y)) \<and>
     get (stored ''WidgetLocalizedStartFile'' 0 (start_locale_cells h k y)) ''start_file_id'' = CInt k"
  by (simp_all add: row_simps WidgetStartFile_table_def WidgetLocalizedStartFile_table_def start_file_cells_def
      start_locale_cells_def case_prod_unfold)

lemma feature_rows:
  "get (stored ''WidgetFeature'' k (feature_cells h f)) ''app_id'' = CInt h"
  "row_ok WidgetFeature_table (stored ''WidgetFeature'' k (feature_cells h f))"
  "row_ok FeatureParam_table (stored ''FeatureParam'' 0 (param_cells k p)) \<and>
     get (stored ''FeatureParam'' 0 (param_cells k p)) ''widget_feature_id'' = CInt k"
  by (simp_all add: row_simps WidgetFeature_table_def FeatureParam_table_def feature_cells_def param_cells_def bool_cell_def)

section \<open>The steps, in their order\<close>

text \<open>The widget has its row, and none yet in the tables that are still to come.\<close>

definition later :: "int \<Rightarrow> (string \<times> string) list \<Rightarrow> db_store \<Rightarrow> bool" where
  "later h T w \<longleftrightarrow> installed (fst w) h \<and> list_all (\<lambda>(t, c). list_all (\<lambda>r. get r c \<noteq> CInt h) (fst w t)) T"

lemma later_cong:
  assumes "later h T w" and "fst v ''WidgetInfo'' = fst w ''WidgetInfo''" and "\<And>t. t \<in> fst ` set T \<Longrightarrow> fst v t = fst w t"
  shows "later h T v"
proof -
  have "fst v t = fst w t" if "(t, c) \<in> set T" for t c
    by (rule assms(3)) (use that in force)
  then show ?thesis using assms(1,2) unfolding later_def installed_def list_all_iff by fastforce
qed

lemma later_put:
  assumes "later h ((t, c) # T) w" and "t \<notin> fst ` set T"
  shows "later h T (put_simple h info sec t w)"
proof -
  have "fst (put_simple h info sec t w) n = fst w n" if "(n, c') \<in> set T" for n c'
    using assms(2) that by (auto simp: put_simple_at intro: rev_image_eqI)
  moreover have "installed (fst (put_simple h info sec t w)) h"
    using assms(1) by (auto simp: later_def installed_def put_simple_at)
  ultimately show ?thesis using assms(1) unfolding later_def list_all_iff by fastforce
qed

lemma simple_returns:
  assumes "stage w s" and "later h ((t, c) # T) w"
    and "map_of wrt_schema t = Some sc" "ts_rowid sc = None" "\<not> ts_auto sc"
      "ts_fks sc = [(c, ''WidgetInfo'', ''app_id'')]" "list_all (\<lambda>ks. c \<in> set ks) (ts_keys sc)"
    and "\<And>x. row_ok sc (stored t 0 (cells x)) \<and> get (stored t 0 (cells x)) c = CInt h"
    and "keyed sc (map (\<lambda>x. stored t 0 (cells x)) xs)"
  shows "returns (forP (\<lambda>x. insert_only q t (cells x)) xs) s"
  using assms(2,9) by (intro children_return [OF assms(1,3-8)]) (auto simp: later_def installed_def list_ex_iff keyed_def)

lemma returns_step:
  assumes "stage w s" and "does m (\<lambda>w. ((), f w))" and "keeps (integrity wrt_schema) m" and "returns m s"
    and "later h T (f w)" and "\<And>u. stage (f w) u \<Longrightarrow> later h T (f w) \<Longrightarrow> returns k u"
  shows "returns (thenP m k) s"
  using assms(5,6) by (intro returns_then [OF assms(1-4)]) simp

lemma app_fk:
  "ts_fks LocalizedWidgetInfo_table = [(''app_id'', ''WidgetInfo'', ''app_id'')]" "list_all (\<lambda>ks. ''app_id'' \<in> set ks) (ts_keys LocalizedWidgetInfo_table)"
  "ts_fks WidgetPreference_table = [(''app_id'', ''WidgetInfo'', ''app_id'')]" "list_all (\<lambda>ks. ''app_id'' \<in> set ks) (ts_keys WidgetPreference_table)"
  "ts_fks WidgetWindowModes_table = [(''app_id'', ''WidgetInfo'', ''app_id'')]" "list_all (\<lambda>ks. ''app_id'' \<in> set ks) (ts_keys WidgetWindowModes_table)"
  "ts_fks WidgetWARPInfo_table = [(''app_id'', ''WidgetInfo'', ''app_id'')]" "list_all (\<lambda>ks. ''app_id'' \<in> set ks) (ts_keys WidgetWARPInfo_table)"
  "ts_fks WidgetCertificateFingerprint_table = [(''app_id'', ''WidgetInfo'', ''app_id'')]"
    "list_all (\<lambda>ks. ''app_id'' \<in> set ks) (ts_keys WidgetCertificateFingerprint_table)"
  "ts_fks WidgetCertificate_table = [(''app_id'', ''WidgetInfo'', ''app_id'')]" "list_all (\<lambda>ks. ''app_id'' \<in> set ks) (ts_keys WidgetCertificate_table)"
  "ts_fks SettginsList_table = [(''appId'', ''WidgetInfo'', ''app_id'')]" "list_all (\<lambda>ks. ''appId'' \<in> set ks) (ts_keys SettginsList_table)"
  "ts_fks ApplicationServiceInfo_table = [(''app_id'', ''WidgetInfo'', ''app_id'')]"
    "list_all (\<lambda>ks. ''app_id'' \<in> set ks) (ts_keys ApplicationServiceInfo_table)"
  "ts_fks EncryptedResourceList_table = [(''app_id'', ''WidgetInfo'', ''app_id'')]" "list_all (\<lambda>ks. ''app_id'' \<in> set ks) (ts_keys EncryptedResourceList_table)"
  "ts_fks WidgetStartFile_table = [(''app_id'', ''WidgetInfo'', ''app_id'')]" "ts_keys WidgetStartFile_table = [[''start_file_id'']]"
  "ts_fks WidgetFeature_table = [(''app_id'', ''WidgetInfo'', ''app_id'')]" "ts_keys WidgetFeature_table = [[''widget_feature_id'']]"
  "ts_fks WidgetLocalizedStartFile_table = [(''start_file_id'', ''WidgetStartFile'', ''start_file_id'')]"
    "list_all (\<lambda>ks. ''start_file_id'' \<in> set ks) (ts_keys WidgetLocalizedStartFile_table)"
  "ts_fks FeatureParam_table = [(''widget_feature_id'', ''WidgetFeature'', ''widget_feature_id'')]"
    "list_all (\<lambda>ks. ''widget_feature_id'' \<in> set ks) (ts_keys FeatureParam_table)"
  by (simp_all add: table_defs sql_table_def)

lemma row_ok_required:
  assumes "list_all (\<lambda>col. col_check col = None \<and> (col_null col \<or> col_name col \<in> set req)) (ts_columns sc)"
    and "list_all (\<lambda>c. get r c \<noteq> CNull) req"
  shows "row_ok sc r"
  using assms by (fastforce simp: row_ok_def cell_ok_def list_all_iff)

lemma insertableI:
  assumes "map_of wrt_schema t = Some sc" and "row_ok sc r" and "ts_keys sc = [ks]"
    and "\<And>x. x \<in> set (db t) \<Longrightarrow> \<not> same_key ks r x" and "list_all (fk_holds db r) (ts_fks sc)"
  shows "insertable t r db"
  using assms by (auto simp: insertable_def row_fits_def list_ex_iff)

lemma one_row_tables:
  "ts_fks WidgetInfo_table = []" "ts_keys WidgetExtendedInfo_table = [[''app_id'']]"
  "ts_fks WidgetExtendedInfo_table = [(''app_id'', ''WidgetInfo'', ''app_id'')]"
  by (simp_all add: WidgetInfo_table_def WidgetExtendedInfo_table_def sql_table_def)

lemma info_returns:
  assumes "stage w s" and "\<not> installed (fst w) h"
  shows "returns (registerWidgetInfo h info sec) s"
proof -
  let ?r = "stored ''WidgetInfo'' 0 (info_cells h info sec)"
  have row: "stored ''WidgetInfo'' k (info_cells h info sec) = ?r" for k
    by (rule stored_own_id [OF table_of(2) table_ids(1), of _ h]) (simp add: info_cells_def Let_def)
  have "\<not> same_key [''app_id''] ?r r" if "r \<in> set (fst w ''WidgetInfo'')" for r
    using assms(2) that by (auto simp: same_key_simps get_info_id installed_def)
  moreover have "row_ok WidgetInfo_table ?r"
  proof (rule row_ok_required [of "[''app_id'', ''back_supported'']"])
    show "list_all (\<lambda>col. col_check col = None \<and> (col_null col \<or> col_name col \<in> set [''app_id'', ''back_supported'']))
        (ts_columns WidgetInfo_table)"
      by (simp add: WidgetInfo_table_def sql_table_def column_defs)
    show "list_all (\<lambda>c. get ?r c \<noteq> CNull) [''app_id'', ''back_supported'']"
      by (simp add: get_info_id get_info info_columns info_cell bool_cell_def)
  qed
  ultimately have "insertable ''WidgetInfo'' ?r (fst w)"
    by (intro insertableI [OF table_of(2) _ info_key]) (simp_all add: one_row_tables(1))
  then have "returns (insert_only ''registerWidgetInfo'' ''WidgetInfo'' (info_cells h info sec)) s"
    by (intro insert_returns(2) [OF assms(1) table_of(2)]) (simp add: table_ids(1) row [of "next_id ''WidgetInfo'' ''app_id'' w"])
  then show ?thesis by (auto simp: returns_def registerWidgetInfo_def sql_handler_returns)
qed

lemma extended_returns:
  assumes "stage w s" and "later h ((''WidgetExtendedInfo'', ''app_id'') # T) w"
    and "wi_isTestWidget info = 0 \<or> wi_isTestWidget info = 1"
  shows "returns (registerWidgetExtendedInfo h info) s"
proof -
  let ?r = "stored ''WidgetExtendedInfo'' 0 (extended_cells h info)"
  have row: "stored ''WidgetExtendedInfo'' k (extended_cells h info) = ?r" for k
    by (rule stored_own_id [OF table_of(6) table_ids(3), of _ h]) (simp add: extended_cells_def)
  have r: "?r = [(''app_id'', CInt h), (''last_update_time'', CInt 0), (''install_time'', CInt (wi_installedTime info)),
      (''option_state'', CInt 0), (''share_href'', CText []), (''signature_type'', CInt (wi_signatureType info)),
      (''factory_widget'', CInt (wi_isFactoryWidget info)), (''updated'', CInt 0), (''update_policy'', CInt 0),
      (''test_widget'', CInt (wi_isTestWidget info)),
      (''splash_img_src'', opt_text (map_option c_text (cd_splashImgSrc (wi_configInfo info))))]"
    by (simp add: stored_def table_of(6) full_row_def WidgetExtendedInfo_table_def sql_table_def column_defs extended_cells_def)
  have ok: "row_ok WidgetExtendedInfo_table ?r" "get ?r ''app_id'' = CInt h"
    using assms(3) unfolding r
    by (auto simp: row_ok_def cell_ok_def get_Cons WidgetExtendedInfo_table_def sql_table_def column_defs)
  have "\<not> same_key [''app_id''] ?r r" if "r \<in> set (fst w ''WidgetExtendedInfo'')" for r
    using assms(2) that by (auto simp: same_key_simps ok(2) later_def list_all_iff)
  moreover have "fk_holds (fst w) ?r (''app_id'', ''WidgetInfo'', ''app_id'')"
    using assms(2) by (auto simp: fk_holds_def ok(2) later_def installed_def list_ex_iff)
  ultimately have "insertable ''WidgetExtendedInfo'' ?r (fst w)"
    by (intro insertableI [OF table_of(6) ok(1) one_row_tables(2)]) (simp_all add: one_row_tables(3))
  then show ?thesis
    unfolding registerWidgetExtendedInfo_def
    by (intro insert_returns(2) [OF assms(1) table_of(6)]) (simp add: table_ids(3) row [of "next_id ''WidgetExtendedInfo'' ''app_id'' w"])
qed

lemma keeps_step_integ:
  "keeps (integrity wrt_schema) (registerWidgetInfo h info sec)" "keeps (integrity wrt_schema) (registerWidgetExtendedInfo h info)"
  "keeps (integrity wrt_schema) (registerWidgetLocalizedInfo h info)" "keeps (integrity wrt_schema) (registerWidgetIcons h info)"
  "keeps (integrity wrt_schema) (registerWidgetStartFile h info)" "keeps (integrity wrt_schema) (RegisterProperties h cfg)"
  "keeps (integrity wrt_schema) (registerWidgetFeatures h info)" "keeps (integrity wrt_schema) (registerWidgetWindowModes h info)"
  "keeps (integrity wrt_schema) (registerWidgetWarpInfo h info)" "keeps (integrity wrt_schema) (registerWidgetCertificates h sec)"
  "keeps (integrity wrt_schema) (registerLaunchCertificates h cs)" "keeps (integrity wrt_schema) (registerWidgetSettings h info)"
  "keeps (integrity wrt_schema) (registerAppService h info)" "keeps (integrity wrt_schema) (registerEncryptedResouceInfo h info)"
  unfolding registerWidgetInfo_def registerWidgetExtendedInfo_def registerWidgetLocalizedInfo_def
    registerWidgetIcons_def register_icon_locale_def registerWidgetStartFile_def RegisterProperties_def
    registerWidgetFeatures_def registerWidgetWindowModes_def registerWidgetWarpInfo_def
    registerWidgetCertificates_def registerLaunchCertificates_def registerWidgetSettings_def
    registerAppService_def registerEncryptedResouceInfo_def
  by (intro integ.keeps_tx keeps_cases keeps_insert_only_integ)+

lemma registrableD:
  assumes "registrable info sec"
  shows "wi_isTestWidget info = 0 \<or> wi_isTestWidget info = 1"
    "keyed LocalizedWidgetInfo_table (map (\<lambda>d. stored ''LocalizedWidgetInfo'' 0 (localized_cells h d)) (cd_localizedDataSet (wi_configInfo info)))"
    "list_all (\<lambda>f. \<forall>k. keyed WidgetLocalizedStartFile_table
       (map (\<lambda>y. stored ''WidgetLocalizedStartFile'' 0 (start_locale_cells h k y)) (rs_locales f))) (wi_startFiles info)"
    "keyed WidgetPreference_table (map (\<lambda>p. stored ''WidgetPreference'' 0 (preference_row h p)) (cd_preferencesList (wi_configInfo info)))"
    "keyed WidgetWARPInfo_table (map (\<lambda>a. stored ''WidgetWARPInfo'' 0 (access_cells h a)) (cd_accessInfoSet (wi_configInfo info)))"
    "keyed WidgetCertificateFingerprint_table
       (map (\<lambda>c. stored ''WidgetCertificateFingerprint'' 0 (certificate_cells h c)) (ws_certificates sec))"
    "list_all (\<lambda>c. \<not> isl (from_ascii c)) (ws_chains sec)"
    "keyed ApplicationServiceInfo_table
       (map (\<lambda>v. stored ''ApplicationServiceInfo'' 0 (service_cells h v)) (cd_appServiceList (wi_configInfo info)))"
  using assms by (simp_all add: registrable_def Let_def localized_keys preference_keys access_keys certificate_keys service_keys
      start_locale_keys)

lemma chains_return:
  assumes "list_all (\<lambda>c. \<not> isl (from_ascii c)) cs" and "stage w s" and "later h ((''WidgetCertificate'', ''app_id'') # T) w"
  shows "returns (registerLaunchCertificates h cs) s"
proof -
  have "registerLaunchCertificates h cs = forP (\<lambda>n. insert_only ''registerLaunchCertificates'' ''WidgetCertificate'' (chain_cells h n))
      (map (\<lambda>c. projr (from_ascii c)) cs)"
    using assms(1) unfolding registerLaunchCertificates_def
  proof (induction cs)
    case (Cons c cs)
    then show ?case by (cases "from_ascii c") simp_all
  qed simp
  then show ?thesis
    using simple_returns [OF assms(2,3) table_of(3) table_ids(15,16) app_fk(11,12) chain_fits keyless(1)] by simp
qed

lemma steps_return:
  assumes "registrable info sec" and "stage w s"
  shows "later h ((''LocalizedWidgetInfo'', ''app_id'') # T) w \<Longrightarrow> returns (registerWidgetLocalizedInfo h info) s"
    and "later h ((''WidgetPreference'', ''app_id'') # T) w \<Longrightarrow> returns (RegisterProperties h (wi_configInfo info)) s"
    and "later h ((''WidgetWindowModes'', ''app_id'') # T) w \<Longrightarrow> returns (registerWidgetWindowModes h info) s"
    and "later h ((''WidgetWARPInfo'', ''app_id'') # T) w \<Longrightarrow> returns (registerWidgetWarpInfo h info) s"
    and "later h ((''WidgetCertificateFingerprint'', ''app_id'') # T) w \<Longrightarrow> returns (registerWidgetCertificates h sec) s"
    and "later h ((''SettginsList'', ''appId'') # T) w \<Longrightarrow> returns (registerWidgetSettings h info) s"
    and "later h ((''ApplicationServiceInfo'', ''app_id'') # T) w \<Longrightarrow> returns (registerAppService h info) s"
    and "later h ((''EncryptedResourceList'', ''app_id'') # T) w \<Longrightarrow> returns (registerEncryptedResouceInfo h info) s"
  unfolding registerWidgetLocalizedInfo_def RegisterProperties_def registerWidgetWindowModes_def
    registerWidgetWarpInfo_def registerWidgetCertificates_def registerWidgetSettings_def registerAppService_def
    registerEncryptedResouceInfo_def
  by (rule simple_returns [OF assms(2) _ table_of(5) table_ids(5,6) app_fk(1,2) localized_fits registrableD(2) [OF assms(1)]]
      simple_returns [OF assms(2) _ table_of(7) table_ids(7,8) app_fk(3,4) preference_fits registrableD(4) [OF assms(1)]]
      simple_returns [OF assms(2) _ table_of(4) table_ids(9,10) app_fk(5,6) mode_fits keyless(2)]
      simple_returns [OF assms(2) _ table_of(16) table_ids(11,12) app_fk(7,8) access_fits registrableD(5) [OF assms(1)]]
      simple_returns [OF assms(2) _ table_of(15) table_ids(13,14) app_fk(9,10) certificate_fits registrableD(6) [OF assms(1)]]
      simple_returns [OF assms(2) _ table_of(26) table_ids(17,18) app_fk(13,14) setting_fits keyless(3)]
      simple_returns [OF assms(2) _ table_of(27) table_ids(19,20) app_fk(15,16) service_fits registrableD(8) [OF assms(1)]]
      simple_returns [OF assms(2) _ table_of(29) table_ids(21,22) app_fk(17,18) encrypted_fits keyless(4)]; assumption)+

lemma simple_step:
  assumes "stage w s" and "later h ((t, c) # T) w" and "t \<notin> fst ` set T"
    and "does m (\<lambda>w. ((), put_simple h info sec t w))" and "keeps (integrity wrt_schema) m" and "returns m s"
    and "\<And>w u. stage w u \<Longrightarrow> later h T w \<Longrightarrow> returns k u"
  shows "returns (thenP m k) s"
  using returns_step [OF assms(1,4-6) later_put [OF assms(2,3)]] assms(7) by blast

lemma features_return:
  assumes "stage w s" and "installed (fst w) h"
  shows "returns (registerWidgetFeatures h info) s"
  unfolding registerWidgetFeatures_def
  by (rule parents_return [OF table_of(8) counted_ids(3,4) app_fk(22,21) feature_id feature_rows(1,2)
      table_of(9) table_ids(25,26) app_fk(25,26) _ _ _ feature_rows(3) assms])
    (use keyless(5) in \<open>simp_all add: keyed_def list_all_iff\<close>)

lemma start_files_return:
  assumes "stage w s" and "installed (fst w) h" and "registrable info sec"
  shows "returns (registerWidgetStartFile h info) s"
  unfolding registerWidgetStartFile_def
  by (rule parents_return [OF table_of(12) counted_ids(1,2) app_fk(20,19) start_file_id start_rows(1,2)
      table_of(13) table_ids(23,24) app_fk(23,24) _ _ _ start_rows(3) assms(1,2)])
    (use registrableD(3) [OF assms(3)] in \<open>simp_all add: keyed_def\<close>)

lemma parents_step:
  assumes "stage w s" and "later h T w"
    and "does m (\<lambda>w. ((), fold (put_parent t c ct cells kids kid_cells) xs w))"
    and "keeps (integrity wrt_schema) m" and "installed (fst w) h \<Longrightarrow> returns m s"
    and "\<And>k x. get (stored t k (cells x)) c = CInt k" and "ct \<noteq> t"
    and "t \<notin> insert ''WidgetInfo'' (fst ` set T)" and "ct \<notin> insert ''WidgetInfo'' (fst ` set T)"
    and "\<And>w u. stage w u \<Longrightarrow> later h T w \<Longrightarrow> returns k u"
  shows "returns (thenP m k) s"
proof -
  let ?w = "fold (put_parent t c ct cells kids kid_cells) xs w"
  have at: "fst ?w n = fst w n" if "n \<in> insert ''WidgetInfo'' (fst ` set T)" for n
  proof -
    have "n \<noteq> t" "n \<noteq> ct" using that assms(8,9) by blast+
    then show ?thesis using put_parents [of t cells c ct kids kid_cells xs w, OF assms(6,7)] by blast
  qed
  have "later h T ?w" by (rule later_cong [OF assms(2)]) (rule at, simp)+
  moreover have "installed (fst w) h" using assms(2) by (simp add: later_def)
  ultimately show ?thesis using returns_step [OF assms(1,3,4) assms(5)] assms(10) by blast
qed

definition last_tables :: "(string \<times> string) list" where
  "last_tables = [(''WidgetWindowModes'', ''app_id''), (''WidgetWARPInfo'', ''app_id''),
     (''WidgetCertificateFingerprint'', ''app_id''), (''WidgetCertificate'', ''app_id''), (''SettginsList'', ''appId''),
     (''ApplicationServiceInfo'', ''app_id''), (''EncryptedResourceList'', ''app_id'')]"

text \<open>Each of the last steps, and what is left to show.\<close>

lemma last_step_rules:
  assumes "registrable info sec"
  shows "later h ((''WidgetWindowModes'', ''app_id'') # T) w \<Longrightarrow> stage w s \<Longrightarrow> ''WidgetWindowModes'' \<notin> fst ` set T \<Longrightarrow>
      (\<And>w u. stage w u \<Longrightarrow> later h T w \<Longrightarrow> returns k u) \<Longrightarrow> returns (thenP (registerWidgetWindowModes h info) k) s"
    and "later h ((''WidgetWARPInfo'', ''app_id'') # T) w \<Longrightarrow> stage w s \<Longrightarrow> ''WidgetWARPInfo'' \<notin> fst ` set T \<Longrightarrow>
      (\<And>w u. stage w u \<Longrightarrow> later h T w \<Longrightarrow> returns k u) \<Longrightarrow> returns (thenP (registerWidgetWarpInfo h info) k) s"
    and "later h ((''WidgetCertificateFingerprint'', ''app_id'') # T) w \<Longrightarrow> stage w s \<Longrightarrow> ''WidgetCertificateFingerprint'' \<notin> fst ` set T \<Longrightarrow>
      (\<And>w u. stage w u \<Longrightarrow> later h T w \<Longrightarrow> returns k u) \<Longrightarrow> returns (thenP (registerWidgetCertificates h sec) k) s"
    and "later h ((''WidgetCertificate'', ''app_id'') # T) w \<Longrightarrow> stage w s \<Longrightarrow> ''WidgetCertificate'' \<notin> fst ` set T \<Longrightarrow>
      (\<And>w u. stage w u \<Longrightarrow> later h T w \<Longrightarrow> returns k u) \<Longrightarrow> returns (thenP (registerLaunchCertificates h (ws_chains sec)) k) s"
    and "later h ((''SettginsList'', ''appId'') # T) w \<Longrightarrow> stage w s \<Longrightarrow> ''SettginsList'' \<notin> fst ` set T \<Longrightarrow>
      (\<And>w u. stage w u \<Longrightarrow> later h T w \<Longrightarrow> returns k u) \<Longrightarrow> returns (thenP (registerWidgetSettings h info) k) s"
    and "later h ((''ApplicationServiceInfo'', ''app_id'') # T) w \<Longrightarrow> stage w s \<Longrightarrow> ''ApplicationServiceInfo'' \<notin> fst ` set T \<Longrightarrow>
      (\<And>w u. stage w u \<Longrightarrow> later h T w \<Longrightarrow> returns k u) \<Longrightarrow> returns (thenP (registerAppService h info) k) s"
  by (rule simple_step [OF _ _ _ does_simple(3) keeps_step_integ(8) steps_return(3) [OF assms]]
      simple_step [OF _ _ _ does_simple(4) keeps_step_integ(9) steps_return(4) [OF assms]]
      simple_step [OF _ _ _ does_simple(5) keeps_step_integ(10) steps_return(5) [OF assms]]
      simple_step [OF _ _ _ does_chains keeps_step_integ(11) chains_return [OF registrableD(7) [OF assms]]]
      simple_step [OF _ _ _ does_simple(6) keeps_step_integ(12) steps_return(6) [OF assms]]
      simple_step [OF _ _ _ does_simple(7) keeps_step_integ(13) steps_return(7) [OF assms]]; assumption)+

abbreviation last_steps :: "int \<Rightarrow> register_info \<Rightarrow> wac_security \<Rightarrow> unit db_prog" where
  "last_steps h info sec \<equiv> thenP (registerWidgetWindowModes h info)
     (thenP (registerWidgetWarpInfo h info)
     (thenP (registerWidgetCertificates h sec)
     (thenP (registerLaunchCertificates h (ws_chains sec))
     (thenP (registerWidgetSettings h info)
     (thenP (registerAppService h info)
            (registerEncryptedResouceInfo h info))))))"

abbreviation from_features :: "int \<Rightarrow> register_info \<Rightarrow> wac_security \<Rightarrow> unit db_prog" where
  "from_features h info sec \<equiv> thenP (registerWidgetFeatures h info) (last_steps h info sec)"

abbreviation from_properties :: "int \<Rightarrow> register_info \<Rightarrow> wac_security \<Rightarrow> unit db_prog" where
  "from_properties h info sec \<equiv> thenP (RegisterProperties h (wi_configInfo info)) (from_features h info sec)"

abbreviation from_files :: "int \<Rightarrow> register_info \<Rightarrow> wac_security \<Rightarrow> unit db_prog" where
  "from_files h info sec \<equiv> thenP (registerWidgetStartFile h info) (from_properties h info sec)"

abbreviation from_icons :: "int \<Rightarrow> register_info \<Rightarrow> wac_security \<Rightarrow> unit db_prog" where
  "from_icons h info sec \<equiv> thenP (registerWidgetIcons h info) (from_files h info sec)"

lemma last_steps_return:
  assumes reg: "registrable info sec"
  shows "later h last_tables w \<Longrightarrow> stage w s \<Longrightarrow> returns (last_steps h info sec) s"
  unfolding last_tables_def
  by (rule last_step_rules(1) [OF reg], assumption, assumption, simp,
      rule last_step_rules(2) [OF reg], assumption, assumption, simp,
      rule last_step_rules(3) [OF reg], assumption, assumption, simp,
      rule last_step_rules(4) [OF reg], assumption, assumption, simp,
      rule last_step_rules(5) [OF reg], assumption, assumption, simp,
      rule last_step_rules(6) [OF reg], assumption, assumption, simp,
      rule steps_return(8) [OF reg])

lemma from_features_returns:
  assumes "registrable info sec" and "stage w s" and "later h last_tables w"
  shows "returns (from_features h info sec) s"
  by (rule parents_step [OF assms(2,3) does_features keeps_step_integ(7) features_return [OF assms(2)] feature_id
        _ _ _ last_steps_return [OF assms(1)]]) (simp_all add: last_tables_def)

definition middle_tables :: "(string \<times> string) list" where
  "middle_tables = (''WidgetPreference'', ''app_id'') # last_tables"

lemma from_properties_returns:
  assumes "registrable info sec" and "stage w s" and "later h middle_tables w"
  shows "returns (from_properties h info sec) s"
proof -
  note l = assms(3) [unfolded middle_tables_def]
  show ?thesis
    by (rule simple_step [OF assms(2) l _ does_simple(2) keeps_step_integ(6) steps_return(2) [OF assms(1,2) l]
          from_features_returns [OF assms(1)]]) (simp add: last_tables_def)
qed

lemma from_files_returns:
  assumes "registrable info sec" and "stage w s" and "later h middle_tables w"
  shows "returns (from_files h info sec) s"
  by (rule parents_step [OF assms(2,3) does_start_files keeps_step_integ(5) start_files_return [OF assms(2) _ assms(1)]
        start_file_id _ _ _ from_properties_returns [OF assms(1)]]) (simp_all add: middle_tables_def last_tables_def)

lemma from_icons_returns:
  assumes "registrable info sec" and "stage w s" and "later h middle_tables w"
    and "one_each h (fst w ''WidgetLocalizedIcon'')"
  shows "returns (from_icons h info sec) s"
proof (rule returns_step [OF assms(2) does_icons keeps_step_integ(4)])
  show "returns (registerWidgetIcons h info) s"
    unfolding registerWidgetIcons_def
    using assms(3,4) by (intro icons_return [OF assms(2)]) (simp_all add: later_def)
  have same: "fst (fold (spec_icon h) (wi_icons info) w) n = fst w n" if "n \<in> insert ''WidgetInfo'' (fst ` set middle_tables)" for n
  proof -
    have "n \<noteq> ''WidgetIcon'' \<and> n \<noteq> ''WidgetLocalizedIcon''" using that by (auto simp: middle_tables_def last_tables_def)
    then show ?thesis using icons_at [of h "wi_icons info" w] by blast
  qed
  show "later h middle_tables (fold (spec_icon h) (wi_icons info) w)"
    by (rule later_cong [OF assms(3)]) (rule same, simp)+
qed (rule from_files_returns [OF assms(1)])

definition child_tables :: "(string \<times> string) list" where
  "child_tables = (''WidgetExtendedInfo'', ''app_id'') # (''LocalizedWidgetInfo'', ''app_id'') # middle_tables"

lemma register_steps_return:
  assumes reg: "registrable info sec" and w: "stage w s" and "\<not> installed (fst w) h"
    and clean: "list_all (\<lambda>(t, c). list_all (\<lambda>r. get r c \<noteq> CInt h) (fst w t)) child_tables"
    and icons: "one_each h (fst w ''WidgetLocalizedIcon'')"
  shows "returns (register_steps h info sec) s"
  unfolding register_steps_def
proof (rule returns_step [OF w does_widget_info keeps_step_integ(1) info_returns [OF w assms(3)]])
  let ?info = "put_simple h info sec ''WidgetInfo''"
  let ?ext = "put_simple h info sec ''WidgetExtendedInfo''"
  let ?loc = "put_simple h info sec ''LocalizedWidgetInfo''"
  show l1: "later h child_tables (?info w)"
    using clean get_info_id [of h info sec]
    by (simp add: later_def child_tables_def middle_tables_def last_tables_def put_simple_at installed_def simple_rows_def Let_def)
  fix u
  assume u: "stage (?info w) u"
  note l1 = l1 [unfolded child_tables_def]
  have l2: "later h ((''LocalizedWidgetInfo'', ''app_id'') # middle_tables) (?ext (?info w))"
    by (rule later_put [OF l1]) (simp add: middle_tables_def last_tables_def)
  have l3: "later h middle_tables (?loc (?ext (?info w)))"
    by (rule later_put [OF l2]) (simp add: middle_tables_def last_tables_def)
  show "returns (thenP (registerWidgetExtendedInfo h info) (thenP (registerWidgetLocalizedInfo h info) (from_icons h info sec))) u"
  proof (rule returns_step [OF u does_extended_info keeps_step_integ(2) extended_returns [OF u l1 registrableD(1) [OF reg]] l2])
    fix u
    assume u: "stage (?ext (?info w)) u"
    show "returns (thenP (registerWidgetLocalizedInfo h info) (from_icons h info sec)) u"
      by (rule returns_step [OF u does_simple(1) keeps_step_integ(3) steps_return(1) [OF reg u l2] l3])
        (rule from_icons_returns [OF reg], assumption+, simp add: put_simple_at icons)
  qed
qed

section \<open>When a registration succeeds\<close>

lemma child_fks:
  "list_all (\<lambda>(t, c). \<exists>sc. map_of wrt_schema t = Some sc \<and> (c, ''WidgetInfo'', ''app_id'') \<in> set (ts_fks sc)) child_tables"
  by (simp add: child_tables_def middle_tables_def last_tables_def table_of app_fk one_row_tables(3))

lemma children_clean:
  assumes "stage w s" and "\<not> installed (fst w) h"
  shows "list_all (\<lambda>(t, c). list_all (\<lambda>r. get r c \<noteq> CInt h) (fst w t)) child_tables"
proof -
  have "get r c \<noteq> CInt h" if t: "(t, c) \<in> set child_tables" and r: "r \<in> set (fst w t)" for t c r
  proof -
    obtain sc where sc: "map_of wrt_schema t = Some sc" "(c, ''WidgetInfo'', ''app_id'') \<in> set (ts_fks sc)"
      using child_fks t by (auto simp: list_all_iff)
    have "fk_holds (fst w) r (c, ''WidgetInfo'', ''app_id'')" by (rule stage_table(2) [OF assms(1) sc(1) r sc(2)])
    then show ?thesis using assms(2) by (auto simp: fk_holds_def installed_def list_ex_iff)
  qed
  then show ?thesis by (auto simp: list_all_iff)
qed

lemma registers:
  assumes "wrt_ready s" and "\<not> installed (e_db s) h" and "one_each h (e_db s ''WidgetLocalizedIcon'')" and "registrable info sec"
  shows "\<exists>s'. registerWidget h info sec s = (Inr (), s')"
proof -
  have s: "outside_tx s" "idle s" "fair_scan s" "integrity wrt_schema s" using assms(1) by (simp_all add: wrt_ready_def)
  let ?w = "(e_db s, e_seq s)"
  have w: "stage ?w (opened s)" using s integrity_opened [OF s(4)] by (simp add: stage_def)
  have "returns (register_steps h info sec) (opened s)"
    using assms(2,3) children_clean [OF w] by (intro register_steps_return [OF assms(4) w]) simp_all
  then obtain u where "register_steps h info sec (opened s) = (Inr (), u)" by (auto simp: returns_def)
  from scope_outcome [OF s(1) keeps_steps_tx this]
  show ?thesis by (simp add: registerWidget_def sql_handler_run)
qed

text \<open>A program that can return, from whatever state.\<close>

definition can_return :: "'a db_prog \<Rightarrow> bool" where
  "can_return m \<longleftrightarrow> (\<exists>s. returns m s)"

lemma can_return_then: "can_return (thenP m k) \<Longrightarrow> can_return m \<and> can_return k"
  by (auto simp: can_return_def returns_def thenP_def elim!: bindP_returns)

lemma can_return_chains: "can_return (registerLaunchCertificates h cs) \<Longrightarrow> list_all (\<lambda>c. \<not> isl (from_ascii c)) cs"
proof (induction cs)
  case (Cons c cs)
  have "can_return (case from_ascii c of Inl e \<Rightarrow> raise e
      | Inr w \<Rightarrow> insert_only ''registerLaunchCertificates'' ''WidgetCertificate'' (chain_cells h w))"
    "can_return (registerLaunchCertificates h cs)"
    using Cons.prems can_return_then unfolding registerLaunchCertificates_def forP.simps by blast+
  then show ?case
    using Cons.IH by (cases "from_ascii c") (simp_all add: can_return_def returns_def raise_def)
qed simp

lemma keyed_part: "keyed sc (a @ b) \<Longrightarrow> keyed sc b" "keyed sc (concat rss) \<Longrightarrow> rs \<in> set rss \<Longrightarrow> keyed sc rs"
proof -
  show "keyed sc (a @ b) \<Longrightarrow> keyed sc b" by (auto simp: keyed_def list_all_iff sorted_wrt_append)
  show "keyed sc (concat rss) \<Longrightarrow> rs \<in> set rss \<Longrightarrow> keyed sc rs"
    by (induction rss) (auto simp: keyed_def list_all_iff sorted_wrt_append)
qed

lemma registered_keyed:
  assumes "wrt_ready s" and "registerWidget h info sec s = (Inr (), s')" and "map_of wrt_schema t = Some sc"
    and "t \<noteq> ''WidgetLocalizedIcon''"
  shows "keyed sc (new_rows h info sec (e_db s, e_seq s) t)"
    and "r \<in> set (new_rows h info sec (e_db s, e_seq s) t) \<Longrightarrow> row_ok sc r"
proof -
  have "integrity wrt_schema s'" using registered_ready(1) [OF assms(1,2)] by (simp add: wrt_ready_def)
  then have ok: "table_ok sc (e_db s' t)" by (rule integrity_table) (rule assms(3))
  have db: "e_db s' t = e_db s t @ new_rows h info sec (e_db s, e_seq s) t"
    using assms(1) by (intro rows_after [OF _ _ assms(2,4)]) (simp_all add: wrt_ready_def)
  show "keyed sc (new_rows h info sec (e_db s, e_seq s) t)"
    by (rule keyed_part(1) [of sc "e_db s t"]) (use ok in \<open>simp add: db table_ok_def keyed_def list_all_iff\<close>)
  show "r \<in> set (new_rows h info sec (e_db s, e_seq s) t) \<Longrightarrow> row_ok sc r"
    using ok by (simp add: db table_ok_def)
qed

lemma new_rows_keyed:
  assumes "wrt_ready s" and "registerWidget h info sec s = (Inr (), s')"
  shows "keyed LocalizedWidgetInfo_table (map (\<lambda>d. stored ''LocalizedWidgetInfo'' 0 (localized_cells h d)) (cd_localizedDataSet (wi_configInfo info)))"
    and "keyed WidgetPreference_table (map (\<lambda>p. stored ''WidgetPreference'' 0 (preference_row h p)) (cd_preferencesList (wi_configInfo info)))"
    and "keyed WidgetWARPInfo_table (map (\<lambda>a. stored ''WidgetWARPInfo'' 0 (access_cells h a)) (cd_accessInfoSet (wi_configInfo info)))"
    and "keyed WidgetCertificateFingerprint_table
       (map (\<lambda>c. stored ''WidgetCertificateFingerprint'' 0 (certificate_cells h c)) (ws_certificates sec))"
    and "keyed ApplicationServiceInfo_table
       (map (\<lambda>v. stored ''ApplicationServiceInfo'' 0 (service_cells h v)) (cd_appServiceList (wi_configInfo info)))"
    and "row_ok WidgetExtendedInfo_table (stored ''WidgetExtendedInfo'' 0 (extended_cells h info))"
  using registered_keyed(1) [OF assms table_of(5)] registered_keyed(1) [OF assms table_of(7)]
    registered_keyed(1) [OF assms table_of(16)] registered_keyed(1) [OF assms table_of(15)]
    registered_keyed(1) [OF assms table_of(27)] registered_keyed(2) [OF assms table_of(6)]
  by (simp_all add: new_rows_def simple_rows_def Let_def o_def)

lemma start_files_keyed:
  assumes "wrt_ready s" and "registerWidget h info sec s = (Inr (), s')" and "f \<in> set (wi_startFiles info)"
  shows "distinct (map (c_text \<circ> fst) (rs_locales f))"
proof -
  let ?ns = "numbered (next_id ''WidgetStartFile'' ''start_file_id'' (e_db s, e_seq s)) (wi_startFiles info)"
  have "snd ` set (numbered k xs) = set xs" for k and xs :: "reg_start_file list"
    by (induction xs arbitrary: k) auto
  then obtain k where k: "(k, f) \<in> set ?ns" using assms(3) by force
  have "keyed WidgetLocalizedStartFile_table
      (concat (map (\<lambda>(k, f). map (\<lambda>j. stored ''WidgetLocalizedStartFile'' 0 (start_locale_cells h k j)) (rs_locales f)) ?ns))"
    using registered_keyed(1) [OF assms(1,2) table_of(13)] by (simp add: new_rows_def Let_def)
  from keyed_part(2) [OF this, of "map (\<lambda>j. stored ''WidgetLocalizedStartFile'' 0 (start_locale_cells h k j)) (rs_locales f)"]
  have "keyed WidgetLocalizedStartFile_table (map (\<lambda>j. stored ''WidgetLocalizedStartFile'' 0 (start_locale_cells h k j)) (rs_locales f))"
    using k by force
  then show ?thesis by (simp add: start_locale_keys)
qed

lemma registered_registrable:
  assumes "wrt_ready s" and "registerWidget h info sec s = (Inr (), s')"
  shows "registrable info sec"
proof -
  have "outside_tx s" "fair_scan s" using assms(1) by (simp_all add: wrt_ready_def)
  then obtain u where "register_steps h info sec (opened s) = (Inr (), u)"
    by (rule register_success [OF _ _ assms(2)])
  then have "can_return (register_steps h info sec)" by (auto simp: can_return_def returns_def)
  then have "can_return (registerLaunchCertificates h (ws_chains sec))"
    unfolding register_steps_def by (blast dest: can_return_then)
  then have chains: "list_all (\<lambda>c. \<not> isl (from_ascii c)) (ws_chains sec)" by (rule can_return_chains)
  have flag: "wi_isTestWidget info = 0 \<or> wi_isTestWidget info = 1"
    using new_rows_keyed(6) [OF assms]
    by (auto simp: row_simps WidgetExtendedInfo_table_def extended_cells_def)
  show ?thesis
    using new_rows_keyed(1-5) [OF assms] start_files_keyed [OF assms] chains flag
    by (simp add: registrable_def Let_def list_all_iff localized_keys preference_keys access_keys certificate_keys service_keys)
qed

text \<open>
  C4: a registration succeeds exactly when the handle is not in use and what is registered can be: the test
  mark is a flag, the chains are ASCII, and no two localized texts, preferences, access rules, certificates,
  services or locales of a start file agree on what their table is keyed by.
\<close>

theorem registration_succeeds_iff:
  assumes "wrt_ready s" and "filter (rows_of h) (e_db s ''WidgetLocalizedIcon'') = []"
  shows "(\<exists>s'. registerWidget h info sec s = (Inr (), s')) \<longleftrightarrow> \<not> installed (e_db s) h \<and> registrable info sec"
proof
  assume "\<exists>s'. registerWidget h info sec s = (Inr (), s')"
  then obtain s' where run: "registerWidget h info sec s = (Inr (), s')" by blast
  show "\<not> installed (e_db s) h \<and> registrable info sec"
    using registered_ready(2) [OF assms(1) run] registered_registrable [OF assms(1) run] by simp
next
  assume ok: "\<not> installed (e_db s) h \<and> registrable info sec"
  have "filter (at_locale h j) (e_db s ''WidgetLocalizedIcon'') = []" for j
    using assms(2) by (auto simp: filter_empty_conv at_locale_def rows_of_def)
  then have "one_each h (e_db s ''WidgetLocalizedIcon'')" by (simp add: one_each_def)
  then show "\<exists>s'. registerWidget h info sec s = (Inr (), s')" using registers [OF assms(1)] ok by blast
qed

section \<open>A widget that is registered\<close>

definition sample_info :: register_info where
  "sample_info = (new_register_info 0)\<lparr>
     wi_configInfo := new_config\<lparr>cd_widget_id := Some (W ''id''), cd_width := Some 320,
       cd_windowModes := [W ''fullscreen'', W ''floating''],
       cd_accessInfoSet := [\<lparr>ac_iri = W ''http://a'', ac_subdomains = True\<rparr>],
       cd_preferencesList := [\<lparr>pr_name = W ''k'', pr_value = None, pr_readonly = True\<rparr>]\<rparr>,
     wi_icons := [\<lparr>ic_src = W ''a.png'', ic_width = None, ic_height = None, ri_locales = [W ''en'', W ''pl'']\<rparr>,
       \<lparr>ic_src = W ''b.png'', ic_width = None, ic_height = None, ri_locales = [W ''en'']\<rparr>],
     wi_startFiles := [\<lparr>rs_path = W ''index.html'', rs_locales = [(W ''en'', W ''text/html'', W ''UTF-8'')]\<rparr>]\<rparr>"

text \<open>Two rules with one IRI, which the parser keeps apart by their subdomains.\<close>

definition two_rules :: register_info where
  "two_rules = (new_register_info 0)\<lparr>wi_configInfo := new_config\<lparr>cd_accessInfoSet :=
     [\<lparr>ac_iri = W ''http://a'', ac_subdomains = True\<rparr>, \<lparr>ac_iri = W ''http://a'', ac_subdomains = False\<rparr>]\<rparr>\<rparr>"

lemma sample_registrable: "registrable sample_info no_security" "\<not> registrable two_rules no_security"
  by (simp_all add: registrable_def sample_info_def two_rules_def new_register_info_def new_config_def no_security_def
      c_text_def W_def)

lemma one_widget_empty: "t \<notin> {''UserAgents'', ''WidgetWhiteURIList'', ''GlobalProperties'', ''WidgetInfo''} \<Longrightarrow> e_db one_widget t = []"
  by (simp add: one_widget_def insert_all_other wrt_fresh_def wrt_initial_empty)

theorem registration_succeeds_iff_witness:
  "(\<exists>s'. registerWidget 8 sample_info no_security one_widget = (Inr (), s')) \<and>
   \<not> (\<exists>s'. registerWidget 8 two_rules no_security one_widget = (Inr (), s')) \<and>
   \<not> (\<exists>s'. registerWidget 7 sample_info no_security one_widget = (Inr (), s'))"
  using registration_succeeds_iff [OF one_widget_state(1), of 8 sample_info no_security]
    registration_succeeds_iff [OF one_widget_state(1), of 8 two_rules no_security]
    registration_succeeds_iff [OF one_widget_state(1), of 7 sample_info no_security]
  by (simp add: one_widget_state sample_registrable one_widget_empty)

lemma sample_registers: "\<exists>s'. registerWidget 8 sample_info no_security one_widget = (Inr (), s')"
  by (rule registers [OF one_widget_state(1)]) (simp_all add: one_widget_state sample_registrable one_widget_empty one_each_def)


theorem last_icon_wins_witness:
  "\<exists>s'. registerWidget 8 sample_info no_security one_widget = (Inr (), s') \<and>
     filter (at_locale 8 (W ''en'')) (e_db s' ''WidgetLocalizedIcon'') = [icon_locale_cells 8 2 (W ''en'')] \<and>
     filter (at_locale 8 (W ''pl'')) (e_db s' ''WidgetLocalizedIcon'') = [icon_locale_cells 8 1 (W ''pl'')]"
proof -
  obtain s' where run: "registerWidget 8 sample_info no_security one_widget = (Inr (), s')" using sample_registers by blast
  have none: "filter (rows_of 8) (e_db one_widget ''WidgetLocalizedIcon'') = []" by (simp add: one_widget_empty)
  have "e_seq one_widget ''WidgetIcon'' = 0" by (simp add: one_widget_def wrt_fresh_def)
  then have ids: "next_id ''WidgetIcon'' ''icon_id'' (e_db one_widget, e_seq one_widget) = 1"
    by (simp add: next_id_def next_rowid_def one_widget_empty)
  show ?thesis
    using run last_icon_wins [OF one_widget_state(1) run none, of "W ''en''"]
      last_icon_wins [OF one_widget_state(1) run none, of "W ''pl''"]
    by (simp add: ids sample_info_def icon_pairs_def Let_def c_text_def W_def)
qed

theorem register_then_read_witness:
  "\<exists>s'. registerWidget 8 sample_info no_security one_widget = (Inr (), s') \<and>
     getGUID 8 s' = (Inr (Some (W ''id'')), s') \<and> getPreferredSize 8 s' = (Inr (Some 320, None), s') \<and>
     getMinimumWacVersion 8 s' = (Inr (Some (W ''null optional'')), s')"
proof -
  obtain s' where run: "registerWidget 8 sample_info no_security one_widget = (Inr (), s')" using sample_registers by blast
  have "c_text (W ''id'') = W ''id''" by (simp add: c_text_def W_def)
  then show ?thesis
    using run register_then_read [OF one_widget_state(1) run]
    by (auto simp: sample_info_def new_register_info_def new_config_def)
qed

theorem register_then_list_witness:
  "\<exists>s'. registerWidget 8 sample_info no_security one_widget = (Inr (), s') \<and>
     getStartFileList 8 s' = (Inr [\<lparr>sf_id = 1, sf_appId = 8, sf_src = W ''index.html''\<rparr>], s') \<and>
     getWidgetAccessInfo 8 s' = (Inr [(W ''http://a'', True)], s')"
proof -
  obtain s' where run: "registerWidget 8 sample_info no_security one_widget = (Inr (), s')" using sample_registers by blast
  have "e_seq one_widget ''WidgetStartFile'' = 0" by (simp add: one_widget_def wrt_fresh_def)
  then have ids: "next_id ''WidgetStartFile'' ''start_file_id'' (e_db one_widget, e_seq one_widget) = 1"
    by (simp add: next_id_def next_rowid_def one_widget_empty)
  note lists = register_then_list [OF one_widget_state(1) run]
  have "getStartFileList 8 s' = (Inr [\<lparr>sf_id = 1, sf_appId = 8, sf_src = W ''index.html''\<rparr>], s')"
    using lists by (simp add: ids) (simp add: sample_info_def c_text_def W_def)
  moreover obtain rules where rules: "getWidgetAccessInfo 8 s' = (Inr rules, s')"
    "mset rules = mset (map (\<lambda>a. (c_text (ac_iri a), ac_subdomains a)) (cd_accessInfoSet (wi_configInfo sample_info)))"
    using lists by blast
  have "mset rules = {#(W ''http://a'', True)#}"
    using rules(2) by (simp add: sample_info_def c_text_def W_def)
  then have "rules = [(W ''http://a'', True)]" by simp
  ultimately show ?thesis using run rules(1) by blast
qed

end
