(* ===== verification/UnregisterWidget.thy ===== *)
theory UnregisterWidget
  imports RegisterSucceeds
begin

text \<open>
  Unregistering a widget: which rows go with its row, and that registering and unregistering leaves every
  table as it was.
\<close>

section \<open>What belongs to a widget\<close>

text \<open>The tables with a column for the widget, and those whose rows refer to rows of one of these.\<close>

definition owned_tables :: "(string \<times> string) list" where
  "owned_tables = (''WidgetInfo'', ''app_id'') # (''WidgetFeature'', ''app_id'') # (''WidgetIcon'', ''app_id'') #
     (''WidgetStartFile'', ''app_id'') # (''WidgetAccessHost'', ''app_id'') # child_tables"

definition nested_tables :: "(string \<times> string \<times> string) list" where
  "nested_tables = [(''FeatureParam'', ''WidgetFeature'', ''widget_feature_id''),
     (''WidgetLocalizedIcon'', ''WidgetIcon'', ''icon_id''),
     (''WidgetLocalizedStartFile'', ''WidgetStartFile'', ''start_file_id'')]"

definition belongs :: "tables \<Rightarrow> int \<Rightarrow> string \<Rightarrow> row \<Rightarrow> bool" where
  "belongs db h t r \<longleftrightarrow>
     (case map_of owned_tables t of
        Some c \<Rightarrow> get r c = CInt h
      | None \<Rightarrow>
          (case map_of nested_tables t of
             Some (p, c) \<Rightarrow> get r c \<noteq> CNull \<and> list_ex (\<lambda>q. get q ''app_id'' = CInt h \<and> get q c = get r c) (db p)
           | None \<Rightarrow> False))"

lemmas widget_tables = owned_tables_def child_tables_def middle_tables_def last_tables_def nested_tables_def

lemma schema_fks:
  "list_all (\<lambda>(n, sc). ts_fks sc =
     (case map_of owned_tables n of
        Some c \<Rightarrow> (if n = ''WidgetInfo'' then [] else [(c, ''WidgetInfo'', ''app_id'')])
      | None \<Rightarrow> (case map_of nested_tables n of Some (p, c) \<Rightarrow> [(c, p, c)] | None \<Rightarrow> []))) wrt_schema"
  by (simp add: wrt_schema_def table_defs sql_table_def widget_tables)

lemma owned_in_schema:
  "list_all (\<lambda>(n, c). n \<in> fst ` set wrt_schema) owned_tables"
  "list_all (\<lambda>(n, p, c). n \<in> fst ` set wrt_schema \<and> map_of owned_tables p = Some ''app_id'' \<and> p \<noteq> ''WidgetInfo'') nested_tables"
  by (simp_all add: wrt_schema_def widget_tables)

lemma doomed_owned:
  assumes "installed db h" and "map_of owned_tables n = Some c"
  shows "doomed wrt_schema ''WidgetInfo'' (rows_of h) db (\<lambda>_ _. False) n r \<longleftrightarrow> get r c = CInt h"
proof -
  have app: "map_of owned_tables ''WidgetInfo'' = Some ''app_id''" by (simp add: widget_tables)
  have sch: "\<exists>sc. (x, sc) \<in> set wrt_schema" if "map_of owned_tables x = Some y" for x y
    using owned_in_schema(1) map_of_SomeD [OF that] by (force simp: list_all_iff)
  have fks: "ts_fks sc = (if x = ''WidgetInfo'' then [] else [(y, ''WidgetInfo'', ''app_id'')])"
    if "(x, sc) \<in> set wrt_schema" "map_of owned_tables x = Some y" for x y sc
    using schema_fks that by (auto simp: list_all_iff)
  note unfold = doomed_unfold [OF wrt_schema_ok(1), of _ _ "\<lambda>_ _. False"]
  have info: "doomed wrt_schema ''WidgetInfo'' (rows_of h) db (\<lambda>_ _. False) ''WidgetInfo'' q \<longleftrightarrow> rows_of h q" for q
    using sch [OF app] fks [OF _ app] unfold [of "''WidgetInfo''"] by auto
  obtain sc where sc: "(n, sc) \<in> set wrt_schema" using sch [OF assms(2)] by blast
  show ?thesis
  proof (cases "n = ''WidgetInfo''")
    case True
    then show ?thesis using info app assms(2) by (simp add: rows_of_def)
  next
    case False
    then show ?thesis
      using unfold [OF sc, of "''WidgetInfo''" "rows_of h" db r] fks [OF sc assms(2)] assms(1)
      by (auto simp: info rows_of_def installed_def list_ex_iff)
  qed
qed

lemma doomed_belongs:
  assumes "installed db h"
  shows "doomed wrt_schema ''WidgetInfo'' (rows_of h) db (\<lambda>_ _. False) n r \<longleftrightarrow> belongs db h n r"
proof (cases "map_of owned_tables n")
  case (Some c)
  then show ?thesis using doomed_owned [OF assms] by (simp add: belongs_def)
next
  case None
  note unfold = doomed_unfold [OF wrt_schema_ok(1), of _ _ "\<lambda>_ _. False"]
  have ne: "n \<noteq> ''WidgetInfo''" using None by (auto simp: widget_tables)
  show ?thesis
  proof (cases "\<exists>sc. (n, sc) \<in> set wrt_schema")
    case False
    then have "n \<notin> fst ` set wrt_schema" by force
    moreover have "map_of nested_tables n = None"
      using owned_in_schema(2) calculation by (auto simp: list_all_iff map_of_eq_None_iff)
    ultimately show ?thesis using None by (simp add: doomed_other belongs_def)
  next
    case True
    then obtain sc where sc: "(n, sc) \<in> set wrt_schema" by blast
    have fks: "ts_fks sc = (case map_of nested_tables n of Some (p, c) \<Rightarrow> [(c, p, c)] | None \<Rightarrow> [])"
      using schema_fks sc None by (auto simp: list_all_iff)
    show ?thesis
    proof (cases "map_of nested_tables n")
      case none: None
      then show ?thesis using unfold [OF sc, of "''WidgetInfo''" "rows_of h" db r] fks ne None by (simp add: belongs_def)
    next
      case (Some pc)
      then obtain p c where pc: "map_of nested_tables n = Some (p, c)" by (cases pc) auto
      then have "map_of owned_tables p = Some ''app_id''"
        using owned_in_schema(2) map_of_SomeD [OF pc] by (auto simp: list_all_iff)
      from doomed_owned [OF assms this] show ?thesis
        using unfold [OF sc, of "''WidgetInfo''" "rows_of h" db r] fks ne None by (simp add: belongs_def pc)
    qed
  qed
qed

section \<open>Unregistering\<close>

lemma unregister_runs:
  assumes "wrt_ready s"
  shows "unregisterWidget h s =
     (if installed (e_db s) h
      then (Inr (), s\<lparr>e_db := \<lambda>t. filter (\<lambda>r. \<not> belongs (e_db s) h t r) (e_db s t), e_cancel := False\<rparr>)
      else (Inl WidgetNotExist, s\<lparr>e_cancel := False\<rparr>))"
proof -
  have s: "idle s" "fair_scan s" "e_depth s = 0" "e_saved s = None"
    using assms by (simp_all add: wrt_ready_def outside_tx_def)
  define t where "t = s\<lparr>e_depth := 1, e_cancel := False, e_saved := Some (e_db s, e_seq s)\<rparr>"
  define v where "v = t\<lparr>e_scopes := False # e_scopes t\<rparr>"
  have start: "tx_begin s = (Inr (), t)" using s by (simp add: tx_begin_def t_def Let_def)
  have v: "idle v" "fair_scan v" "e_db v = e_db s" "e_depth v = 1" "\<not> e_cancel v"
    "e_saved v = Some (e_db s, e_seq s)" "e_scopes v = False # e_scopes s"
    using s by (simp_all add: v_def t_def fair_scan_def)
  have inst: "isWidgetInstalled h v = (Inr (installed (e_db s) h), v)"
    using v(2) by (auto simp: isWidgetInstalled_def sql_handler_run bindP_def rows_run [OF idle_free [OF v(1)]] ret_def v(3)
        holds_info_of rows_of_def installed_def filter_empty_conv)
  let ?body = "thenP (check_widget_existence h) (thenP (wrt_delete ''unregisterWidget'' ''WidgetInfo'' (info_of h)) commit)"
  let ?db = "if installed (e_db s) h then \<lambda>t. filter (\<lambda>r. \<not> belongs (e_db s) h t r) (e_db s t) else e_db s"
  let ?r = "if installed (e_db s) h then Inr () else Inl WidgetNotExist"
  have commit: "commit (v\<lparr>e_db := db\<rparr>) = (Inr (), v\<lparr>e_db := db, e_depth := 0, e_saved := None, e_scopes := True # e_scopes s\<rparr>)" for db
    using v by (simp add: commit_def thenP_def bindP_def tx_unref_def modifyP_def)
  have check: "check_widget_existence h v =
      (if installed (e_db s) h then (Inr (), v) else (Inl WidgetNotExist, v\<lparr>e_depth := 0, e_saved := None, e_scopes := True # e_scopes s\<rparr>))"
    using commit [of "e_db v"] by (simp add: check_widget_existence_def thenP_def bindP_def inst ret_def raise_def)
  have body: "?body v = (?r, v\<lparr>e_db := ?db, e_depth := 0, e_saved := None, e_scopes := True # e_scopes s\<rparr>)"
  proof (cases "installed (e_db s) h")
    case False
    have "v\<lparr>e_db := e_db s\<rparr> = v" using v(3) by (cases v) simp
    then show ?thesis using False v(3) by (simp add: thenP_def bindP_def check)
  next
    case True
    have "delete_rows wrt_schema ''WidgetInfo'' (rows_of h) (e_db s) = (\<lambda>t. filter (\<lambda>r. \<not> belongs (e_db s) h t r) (e_db s t))"
      by (simp add: delete_rows_def doomed_belongs [OF True])
    then show ?thesis
      using True commit delete_runs [OF idle_free [OF v(1)], of wrt_schema "''unregisterWidget''" "''WidgetInfo''" "info_of h"]
      by (simp add: thenP_def bindP_def check holds_info_of v(3))
  qed
  have "scope ?body s = (?r, s\<lparr>e_db := ?db, e_cancel := False\<rparr>)"
    using scope_run [where body = "?body", OF start, folded v_def, OF body] s(3,4) by (simp add: v_def t_def Let_def)
  moreover have "s\<lparr>e_db := e_db s, e_cancel := False\<rparr> = s\<lparr>e_cancel := False\<rparr>" by (cases s) simp
  ultimately show ?thesis by (simp add: unregisterWidget_def sql_handler_run is_sql_def)
qed

lemma unregistered:
  assumes "wrt_ready s" and "unregisterWidget h s = (r, s')"
  shows "r = (if installed (e_db s) h then Inr () else Inl WidgetNotExist) \<and> wrt_ready s' \<and> e_seq s' = e_seq s \<and>
    \<not> installed (e_db s') h \<and>
    (\<forall>t. e_db s' t = (if installed (e_db s) h then filter (\<lambda>r. \<not> belongs (e_db s) h t r) (e_db s t) else e_db s t))"
proof -
  have "keeps (integrity wrt_schema) (unregisterWidget h)"
    unfolding unregisterWidget_def check_widget_existence_def isWidgetInstalled_def by (intro integ.keeps_tx keeps_cases)
  then have "integrity wrt_schema s'"
    using keeps_pair assms by (metis wrt_ready_def)
  then have "wrt_ready s'"
    using assms unregister_runs [OF assms(1), of h] by (auto simp: wrt_ready_def outside_tx_def fair_scan_def split: if_splits)
  moreover have "belongs (e_db s) h ''WidgetInfo'' q \<longleftrightarrow> get q ''app_id'' = CInt h" for q
    by (simp add: belongs_def owned_tables_def)
  ultimately show ?thesis
    using assms(2) unregister_runs [OF assms(1), of h] by (auto simp: installed_def split: if_splits)
qed

text \<open>
  C13: unregistering an installed widget takes exactly the rows that belong to it out of every table, those of
  its features, icons and start files that refer to rows of it included; a widget that is not installed is
  refused and nothing changes.
\<close>

theorem unregister_takes_what_belongs:
  assumes "wrt_ready s" and "unregisterWidget h s = (r, s')"
  shows "r = (if installed (e_db s) h then Inr () else Inl WidgetNotExist) \<and> wrt_ready s' \<and> e_seq s' = e_seq s \<and>
    \<not> installed (e_db s') h \<and>
    (\<forall>t. e_db s' t = (if installed (e_db s) h then filter (\<lambda>r. \<not> belongs (e_db s) h t r) (e_db s t) else e_db s t))"
  by (rule unregistered [OF assms])

section \<open>Registering and unregistering\<close>

lemma new_rows_owned:
  "list_all (\<lambda>(t, c). list_all (\<lambda>r. get r c = CInt h) (new_rows h info sec w t)) owned_tables"
proof -
  have ext: "get (stored ''WidgetExtendedInfo'' k (extended_cells h info)) ''app_id'' = CInt h" for k
    by (simp add: stored_def table_of full_row_def WidgetExtendedInfo_table_def sql_table_def column_defs extended_cells_def get_Cons)
  show ?thesis
    by (simp add: widget_tables new_rows_def simple_rows_def Let_def list_all_iff get_info_id ext localized_fits preference_fits
        mode_fits access_fits certificate_fits chain_fits setting_fits service_fits encrypted_fits feature_rows start_rows icon_row
        split: prod.split)
qed

lemma old_rows_owned:
  assumes "integrity wrt_schema s" and "\<not> installed (e_db s) h" and "map_of owned_tables t = Some c" and "r \<in> set (e_db s t)"
  shows "get r c \<noteq> CInt h"
proof (cases "t = ''WidgetInfo''")
  case True
  then show ?thesis using assms by (auto simp: widget_tables installed_def)
next
  case False
  obtain sc where sc: "(t, sc) \<in> set wrt_schema"
    using owned_in_schema(1) map_of_SomeD [OF assms(3)] by (force simp: list_all_iff)
  have "(c, ''WidgetInfo'', ''app_id'') \<in> set (ts_fks sc)" using schema_fks sc assms(3) False by (auto simp: list_all_iff)
  then have "fk_holds (e_db s) r (c, ''WidgetInfo'', ''app_id'')"
    using assms(1,4) sc by (auto simp: integrity_def db_ok_def)
  then show ?thesis using assms(2) by (auto simp: fk_holds_def installed_def list_ex_iff)
qed

lemma nested_keys: "list_all (\<lambda>(n, p, c). \<exists>sc. map_of wrt_schema p = Some sc \<and> ts_keys sc = [[c]]) nested_tables"
  by (simp add: nested_tables_def table_of app_fk WidgetIcon_table_def sql_table_def)

text \<open>The rows that were there refer to rows that were there.\<close>

lemma old_rows_stay:
  assumes "wrt_ready s" and "\<not> installed (e_db s) h" and "wrt_ready s1"
    and more: "\<And>t. map_of owned_tables t \<noteq> None \<Longrightarrow> \<exists>new. e_db s1 t = e_db s t @ new"
    and r: "r \<in> set (e_db s t)"
  shows "\<not> belongs (e_db s1) h t r"
proof
  assume belongs: "belongs (e_db s1) h t r"
  have integ: "integrity wrt_schema s" "integrity wrt_schema s1" using assms(1,3) by (simp_all add: wrt_ready_def)
  have none: "map_of owned_tables t = None"
    using belongs old_rows_owned [OF integ(1) assms(2) _ r] by (cases "map_of owned_tables t") (auto simp: belongs_def)
  then obtain p c q where pc: "map_of nested_tables t = Some (p, c)" and rc: "get r c \<noteq> CNull"
    and q: "q \<in> set (e_db s1 p)" "get q ''app_id'' = CInt h" "get q c = get r c"
    using belongs by (auto simp: belongs_def list_ex_iff split: option.splits prod.splits)
  have p: "t \<in> fst ` set wrt_schema" "map_of owned_tables p = Some ''app_id''"
    using owned_in_schema(2) map_of_SomeD [OF pc] by (auto simp: list_all_iff)
  obtain sc where sc: "(t, sc) \<in> set wrt_schema" using p(1) by auto
  have "(c, p, c) \<in> set (ts_fks sc)" using schema_fks sc none pc by (auto simp: list_all_iff)
  then have "fk_holds (e_db s) r (c, p, c)" using integ(1) sc r by (auto simp: integrity_def db_ok_def)
  then obtain q' where q': "q' \<in> set (e_db s p)" "get q' c = get r c" using rc by (auto simp: fk_holds_def list_ex_iff)
  obtain new where new: "e_db s1 p = e_db s p @ new" using more [of p] p(2) by auto
  have "q \<notin> set (e_db s p)" using old_rows_owned [OF integ(1) assms(2) p(2)] q(2) by auto
  then have "q \<in> set new" using q(1) new by simp
  obtain psc where psc: "map_of wrt_schema p = Some psc" "ts_keys psc = [[c]]"
    using nested_keys map_of_SomeD [OF pc] by (auto simp: list_all_iff)
  have "sorted_wrt (\<lambda>r r'. \<not> same_key [c] r r') (e_db s1 p)"
    using integrity_table [OF integ(2) psc(1)] by (simp add: table_ok_def psc(2))
  then have "\<not> same_key [c] q' q" using q'(1) \<open>q \<in> set new\<close> by (simp add: new sorted_wrt_append)
  then show False using q'(2) q(3) rc by (simp add: same_key_simps)
qed

text \<open>The rows a registration adds belong to the widget.\<close>

lemma new_rows_belong:
  assumes "\<And>t. t \<noteq> ''WidgetLocalizedIcon'' \<Longrightarrow> db t = e_db s t @ new_rows h info sec (e_db s, e_seq s) t"
    and "t \<noteq> ''WidgetLocalizedIcon''" and "r \<in> set (new_rows h info sec (e_db s, e_seq s) t)"
  shows "belongs db h t r"
proof (cases "map_of owned_tables t")
  case (Some c)
  then show ?thesis
    using new_rows_owned [of h info sec "(e_db s, e_seq s)"] map_of_SomeD [OF Some] assms(3) by (auto simp: list_all_iff belongs_def)
next
  case None
  then have ne: "t \<notin> set simple_tables" "t \<noteq> ''WidgetFeature''" "t \<noteq> ''WidgetStartFile''" "t \<noteq> ''WidgetIcon''"
    by (auto simp: widget_tables simple_tables_def)
  consider "t = ''FeatureParam''" | "t = ''WidgetLocalizedStartFile''"
    using assms(3) ne simple_rows_other [OF ne(1)] by (auto simp: new_rows_def Let_def split: if_splits)
  then show ?thesis
  proof cases
    case 1
    let ?ns = "numbered (next_id ''WidgetFeature'' ''widget_feature_id'' (e_db s, e_seq s)) (cd_featuresList (wi_configInfo info))"
    obtain k f p where f: "(k, f) \<in> set ?ns" and r: "r = stored ''FeatureParam'' 0 (param_cells k p)"
      using assms(3) 1 by (auto simp: new_rows_def Let_def)
    have "stored ''WidgetFeature'' k (feature_cells h f) \<in> set (db ''WidgetFeature'')"
      using f by (force simp: assms(1) new_rows_def Let_def)
    then show ?thesis
      using feature_rows(1,3) feature_id [of k h f] by (auto simp: 1 r belongs_def widget_tables list_ex_iff)
  next
    case 2
    let ?ns = "numbered (next_id ''WidgetStartFile'' ''start_file_id'' (e_db s, e_seq s)) (wi_startFiles info)"
    obtain k f y where f: "(k, f) \<in> set ?ns" and r: "r = stored ''WidgetLocalizedStartFile'' 0 (start_locale_cells h k y)"
      using assms(3) 2 by (auto simp: new_rows_def Let_def)
    have "stored ''WidgetStartFile'' k (start_file_cells h f) \<in> set (db ''WidgetStartFile'')"
      using f by (force simp: assms(1) new_rows_def Let_def)
    then show ?thesis
      using start_rows(1,3) start_file_id [of k h f] by (auto simp: 2 r belongs_def widget_tables list_ex_iff)
  qed
qed

lemma localize_appends:
  assumes "\<And>r. r \<in> set old \<Longrightarrow> \<not> rows_of h r"
  shows "\<exists>new. fold (localize h) ps old = old @ new \<and> (\<forall>r \<in> set new. \<exists>k \<in> fst ` set ps. get r ''icon_id'' = CInt k) \<and>
     (\<forall>r \<in> set new. map fst r = [''app_id'', ''icon_id'', ''widget_locale''])"
proof (induction ps rule: rev_induct)
  case (snoc p ps)
  then obtain new where new: "fold (localize h) ps old = old @ new"
    "\<And>r. r \<in> set new \<Longrightarrow> (\<exists>k \<in> fst ` set ps. get r ''icon_id'' = CInt k) \<and> map fst r = [''app_id'', ''icon_id'', ''widget_locale'']"
    by blast
  obtain k j where p: "p = (k, j)" by (cases p)
  let ?c = "icon_locale_cells h k (c_text j)"
  let ?f = "rewrite (at_locale h (c_text j)) ?c"
  have c: "get ?c ''icon_id'' = CInt k" "map fst ?c = [''app_id'', ''icon_id'', ''widget_locale'']"
    by (simp_all add: icon_locale_cells_def get_Cons)
  have "map ?f old = old"
    using assms by (intro map_idI) (auto simp: rewrite_def at_locale_def rows_of_def)
  then have "localize h (k, j) (old @ new) =
      old @ (if list_ex (at_locale h (c_text j)) (old @ new) then map ?f new else new @ [?c])"
    by (simp add: localize_def)
  then have split: "fold (localize h) (ps @ [p]) old =
      old @ (if list_ex (at_locale h (c_text j)) (old @ new) then map ?f new else new @ [?c])"
    by (simp add: p new(1))
  have "?f r = r \<or> ?f r = ?c" if "r \<in> set new" for r
    using set_cells_icon new(2) [OF that] by (auto simp: rewrite_def)
  then have "(\<exists>k' \<in> fst ` set (ps @ [p]). get (?f r) ''icon_id'' = CInt k') \<and> map fst (?f r) = [''app_id'', ''icon_id'', ''widget_locale'']"
    if "r \<in> set new" for r
    using new(2) [OF that] c that p by fastforce
  then show ?case
    unfolding split using new(2) c p by (intro exI [of _ "if list_ex (at_locale h (c_text j)) (old @ new) then map ?f new else new @ [?c]"]) auto
qed simp

lemma filter_out_new: "(\<And>r. r \<in> set old \<Longrightarrow> \<not> P r) \<Longrightarrow> (\<And>r. r \<in> set new \<Longrightarrow> P r) \<Longrightarrow> filter (\<lambda>r. \<not> P r) (old @ new) = old"
  by (simp add: filter_id_conv filter_empty_conv)

text \<open>
  C6: unregistering a widget that was just registered leaves every table as it was before the registration,
  in its order; only the row-id counters stay ahead, so no id is handed out again.
\<close>

theorem register_then_unregister:
  assumes "wrt_ready s" and "filter (rows_of h) (e_db s ''WidgetLocalizedIcon'') = []"
    and "registerWidget h info sec s = (Inr (), s1)" and "unregisterWidget h s1 = (r, s2)"
  shows "r = Inr () \<and> e_db s2 = e_db s \<and> e_seq s2 = e_seq s1"
proof -
  have s: "outside_tx s" "fair_scan s" using assms(1) by (simp_all add: wrt_ready_def)
  note s1 = registered_ready [OF assms(1,3)]
  have installed: "installed (e_db s1) h"
    using s1(3) by (auto simp: installed_def rows_of_def filter_eq_Cons_iff)
  note new = rows_after [OF s assms(3)]
  let ?pairs = "icon_pairs (numbered (next_id ''WidgetIcon'' ''icon_id'' (e_db s, e_seq s)) (wi_icons info))"
  obtain "(e_db s1, e_seq s1) = spec_register h info sec (e_db s, e_seq s)"
    using register_success [OF s assms(3)] by metis
  then have "e_db s1 = fst (spec_register h info sec (e_db s, e_seq s))" by (metis fst_conv)
  then have loc: "e_db s1 ''WidgetLocalizedIcon'' = fold (localize h) ?pairs (e_db s ''WidgetLocalizedIcon'')"
    by (simp add: spec_register_at)
  have more: "\<exists>new. e_db s1 t = e_db s t @ new" if "map_of owned_tables t \<noteq> None" for t
    using new [of t] that by (cases "t = ''WidgetLocalizedIcon''") (auto simp: widget_tables)
  note old = old_rows_stay [OF assms(1) s1(2,1) more]
  have "filter (\<lambda>r. \<not> belongs (e_db s1) h t r) (e_db s1 t) = e_db s t" for t
  proof (cases "t = ''WidgetLocalizedIcon''")
    case False
    show ?thesis
      unfolding new [OF False] by (rule filter_out_new) (use old new_rows_belong [OF new False] in auto)
  next
    case True
    obtain icons where icons: "e_db s1 t = e_db s t @ icons"
      "\<And>r. r \<in> set icons \<Longrightarrow> \<exists>k \<in> fst ` set ?pairs. get r ''icon_id'' = CInt k"
      using localize_appends [of "e_db s ''WidgetLocalizedIcon''" h ?pairs] assms(2) loc True by (auto simp: filter_empty_conv)
    have "belongs (e_db s1) h t r" if r: "r \<in> set icons" for r
    proof -
      obtain k i where k: "(k, i) \<in> set (numbered (next_id ''WidgetIcon'' ''icon_id'' (e_db s, e_seq s)) (wi_icons info))"
        "get r ''icon_id'' = CInt k"
        using icons(2) [OF r] by (auto simp: icon_pairs_def)
      have "stored ''WidgetIcon'' k (icon_cells h i) \<in> set (e_db s1 ''WidgetIcon'')"
        using k(1) by (force simp: new new_rows_def Let_def)
      then show ?thesis
        using k(2) icon_row(1) [of k h i] icon_id [of k h i] by (auto simp: True belongs_def widget_tables list_ex_iff)
    qed
    then show ?thesis
      unfolding icons(1) by (intro filter_out_new) (use old in auto)
  qed
  then show ?thesis
    using unregistered [OF s1(1) assms(4)] installed by auto
qed

lemma one_widget_info: "e_db one_widget ''WidgetInfo'' \<noteq> []" "r \<in> set (e_db one_widget ''WidgetInfo'') \<Longrightarrow> get r ''app_id'' = CInt 7"
proof -
  show "e_db one_widget ''WidgetInfo'' \<noteq> []" using one_widget_state(4) [of 7] by (auto simp: installed_def)
  assume r: "r \<in> set (e_db one_widget ''WidgetInfo'')"
  then obtain k where "r = full_row WidgetInfo_table k [(''app_id'', CInt 7)]"
    by (auto simp: one_widget_def insert_all_def insert_row_def wrt_fresh_def wrt_initial_empty table_of(2) Let_def
        split: if_splits)
  then show "get r ''app_id'' = CInt 7"
    using get_full_row [of "''app_id''" WidgetInfo_table "[(''app_id'', CInt 7)]" "CInt 7" k] by (simp add: info_columns)
qed

theorem unregister_takes_what_belongs_witness:
  "fst (unregisterWidget 7 one_widget) = Inr () \<and> e_db (snd (unregisterWidget 7 one_widget)) ''WidgetInfo'' = [] \<and>
   fst (unregisterWidget 8 one_widget) = Inl WidgetNotExist"
  using unregister_takes_what_belongs [OF one_widget_state(1), of 7 "fst (unregisterWidget 7 one_widget)" "snd (unregisterWidget 7 one_widget)"]
    unregister_takes_what_belongs [OF one_widget_state(1), of 8 "fst (unregisterWidget 8 one_widget)" "snd (unregisterWidget 8 one_widget)"]
    one_widget_info(2)
  by (simp add: one_widget_state filter_empty_conv belongs_def owned_tables_def)

theorem register_then_unregister_witness:
  "\<exists>s1. registerWidget 8 sample_info no_security one_widget = (Inr (), s1) \<and> e_db s1 \<noteq> e_db one_widget \<and>
     fst (unregisterWidget 8 s1) = Inr () \<and> e_db (snd (unregisterWidget 8 s1)) = e_db one_widget"
proof -
  obtain s1 where run: "registerWidget 8 sample_info no_security one_widget = (Inr (), s1)" using sample_registers by blast
  have none: "filter (rows_of 8) (e_db one_widget ''WidgetLocalizedIcon'') = []" by (simp add: one_widget_empty)
  have "e_db s1 \<noteq> e_db one_widget"
    using registered_ready(2,3) [OF one_widget_state(1) run] by (auto simp: installed_def rows_of_def filter_eq_Cons_iff)
  with run register_then_unregister [OF one_widget_state(1) none run, of "fst (unregisterWidget 8 s1)" "snd (unregisterWidget 8 s1)"]
  show ?thesis by auto
qed

end
