(* ===== verification/Conversions.thy ===== *)
theory Conversions
  imports StringTools
begin

text \<open>
  The conversions between UTF-8 and \<open>DPL::String\<close> (modules/core/src/string.cpp).  \<open>iconv\<close> is a
  parameter: nothing where \<open>iconv_open\<close> fails, and otherwise what a conversion writes, nothing for an input it
  refuses.  The output buffers and their ends are those of the code.
\<close>

type_synonym iconv = "(nat list \<Rightarrow> nat list option) option"

text \<open>
  Reading a buffer of zeros, of which the conversion has filled a part, up to its first NUL: past the
  end where it holds none, and written past the end where the output is longer.
\<close>

definition c_string :: "nat \<Rightarrow> nat list \<Rightarrow> nat list res" where
  "c_string n out =
     (if length out > n then Inl UndefinedBehaviour
      else if 0 \<in> set out \<or> length out < n then Inr (takeWhile (\<lambda>c. c \<noteq> 0) out)
      else Inl UndefinedBehaviour)"

text \<open>\<open>FromUTF8String\<close>: a buffer of two more than the bytes; the mark in front is skipped.\<close>

definition FromUTF8String :: "iconv \<Rightarrow> nat list \<Rightarrow> wstr res" where
  "FromUTF8String cv aIn =
     (if aIn = [] then Inr []
      else case cv of
        None \<Rightarrow> Inl IconvInitErrorUTF8ToUTF32
      | Some f \<Rightarrow>
          (case f aIn of
             None \<Rightarrow> Inl IconvConvertErrorUTF8ToUTF32
           | Some out \<Rightarrow>
               (if length out > length aIn + 2 then Inl IconvConvertErrorUTF8ToUTF32
                else c_string (length aIn + 1) (tl out))))"

text \<open>\<open>ToUTF8String\<close>: a buffer of four bytes for each character, announced as one byte more.\<close>

definition ToUTF8String :: "iconv \<Rightarrow> wstr \<Rightarrow> nat list res" where
  "ToUTF8String cv aIn =
     (if aIn = [] then Inr []
      else case cv of
        None \<Rightarrow> Inl IconvInitErrorUTF32ToUTF8
      | Some f \<Rightarrow>
          (case f aIn of
             None \<Rightarrow> Inl IconvConvertErrorUTF32ToUTF8
           | Some out \<Rightarrow>
               (if length out > 4 * length aIn + 1 then Inl IconvConvertErrorUTF32ToUTF8
                else c_string (4 * length aIn) out)))"

text \<open>What iconv promises of the two conversions, for the texts it accepts.\<close>

definition encodes :: "iconv \<Rightarrow> (nat \<Rightarrow> nat list) \<Rightarrow> bool" where
  "encodes cv enc \<longleftrightarrow> cv = Some (\<lambda>s. Some (concat (map enc s))) \<and>
     (\<forall>c. 1 \<le> length (enc c) \<and> length (enc c) \<le> 4) \<and> (\<forall>c. c \<noteq> 0 \<longrightarrow> 0 \<notin> set (enc c))"

lemma encoded_length:
  assumes "encodes cv enc"
  shows "length (concat (map enc s)) \<le> 4 * length s"
    and "length (concat (map enc s)) = 4 * length s \<longleftrightarrow> list_all (\<lambda>c. length (enc c) = 4) s"
proof -
  have "length (concat (map enc s)) \<le> 4 * length s \<and>
      (length (concat (map enc s)) = 4 * length s \<longleftrightarrow> list_all (\<lambda>c. length (enc c) = 4) s)"
  proof (induction s)
    case (Cons c s)
    have "length (enc c) \<le> 4" using assms by (simp add: encodes_def)
    then show ?case using Cons by auto
  qed simp
  then show "length (concat (map enc s)) \<le> 4 * length s"
    and "length (concat (map enc s)) = 4 * length s \<longleftrightarrow> list_all (\<lambda>c. length (enc c) = 4) s" by simp_all
qed

lemma to_utf8_cases:
  assumes "encodes cv enc" and "s \<noteq> []" and "0 \<notin> set s"
  shows "ToUTF8String cv s =
     (if list_all (\<lambda>c. length (enc c) = 4) s then Inl UndefinedBehaviour else Inr (concat (map enc s)))"
proof -
  let ?out = "concat (map enc s)"
  have cv: "cv = Some (\<lambda>s. Some (concat (map enc s)))" using assms(1) by (simp add: encodes_def)
  have "0 \<notin> set (enc c)" if "c \<in> set s" for c
  proof -
    have "c \<noteq> 0" using assms(3) that by metis
    then show ?thesis using assms(1) unfolding encodes_def by blast
  qed
  then have no: "0 \<notin> set ?out" by simp
  then have all: "takeWhile (\<lambda>c. c \<noteq> 0) ?out = ?out" unfolding takeWhile_eq_all_conv by metis
  have run: "ToUTF8String cv s = c_string (4 * length s) ?out"
    using encoded_length(1) [OF assms(1), of s] assms(2) by (simp add: ToUTF8String_def cv)
  show ?thesis
    using encoded_length [OF assms(1), of s] no unfolding run c_string_def all
    by (cases "length ?out = 4 * length s") (simp_all del: length_concat)
qed

text \<open>
  C28: a text without NUL comes back as its encoding, unless every one of its characters takes four bytes:
  then the buffer holds no NUL and the result is read past its end.
\<close>

theorem to_utf8_unterminated:
  assumes "encodes cv enc" and "s \<noteq> []" and "0 \<notin> set s"
  shows "ToUTF8String cv s =
     (if list_all (\<lambda>c. length (enc c) = 4) s then Inl UndefinedBehaviour else Inr (concat (map enc s)))"
  by (rule to_utf8_cases [OF assms])

text \<open>The number of bytes of a character in UTF-8, as an instance.\<close>

definition utf8_char :: "nat \<Rightarrow> nat list" where
  "utf8_char c =
     (if c < 128 then [c]
      else if c < 2048 then [192 + c div 64, 128 + c mod 64]
      else if c < 65536 then [224 + c div 4096, 128 + c div 64 mod 64, 128 + c mod 64]
      else [240 + c div 262144, 128 + c div 4096 mod 64, 128 + c div 64 mod 64, 128 + c mod 64])"

lemma utf8_encodes: "encodes (Some (\<lambda>s. Some (concat (map utf8_char s)))) utf8_char"
  by (auto simp: encodes_def utf8_char_def)

theorem to_utf8_unterminated_witness:
  "ToUTF8String (Some (\<lambda>s. Some (concat (map utf8_char s)))) [128512, 128513] = Inl UndefinedBehaviour \<and>
   ToUTF8String (Some (\<lambda>s. Some (concat (map utf8_char s)))) [128512, 33] = Inr [240, 159, 152, 128, 33]"
  using to_utf8_unterminated [OF utf8_encodes, of "[128512, 128513]"] to_utf8_unterminated [OF utf8_encodes, of "[128512, 33]"]
  by (simp add: utf8_char_def)

text \<open>The other way the buffer is large enough: a byte makes at most one character, and one is left for the NUL.\<close>

definition decodes :: "iconv \<Rightarrow> (nat \<Rightarrow> nat list) \<Rightarrow> bool" where
  "decodes cv enc \<longleftrightarrow> (\<exists>f bom. cv = Some f \<and> (\<forall>s. f (concat (map enc s)) = Some (bom # s)))"

lemma from_utf8_encoded:
  assumes "encodes to enc" and "decodes from enc" and "s \<noteq> []" and "0 \<notin> set s"
  shows "FromUTF8String from (concat (map enc s)) = Inr s"
proof -
  let ?bytes = "concat (map enc s)"
  have len: "length s \<le> length ?bytes"
  proof (induction s)
    case (Cons c s)
    have "1 \<le> length (enc c)" using assms(1) by (simp add: encodes_def)
    then show ?case using Cons by simp
  qed simp
  obtain f bom where f: "from = Some f" "f ?bytes = Some (bom # s)"
    using assms(2) by (auto simp: decodes_def)
  have all: "takeWhile (\<lambda>c. c \<noteq> 0) s = s" unfolding takeWhile_eq_all_conv using assms(4) by metis
  have "?bytes \<noteq> []" using len assms(3) by (metis le_zero_eq length_0_conv)
  then show ?thesis using len
    by (simp add: FromUTF8String_def f c_string_def all del: neq0_conv length_concat concat_eq_Nil_conv)
qed

text \<open>
  the two conversions are inverse to each other wherever the first one returns.
\<close>

theorem utf8_roundtrip:
  assumes "encodes to enc" and "decodes from enc" and "s \<noteq> []" and "0 \<notin> set s" and "ToUTF8String to s = Inr bytes"
  shows "FromUTF8String from bytes = Inr s"
proof -
  have "bytes = concat (map enc s)"
    using to_utf8_cases [OF assms(1,3,4)] assms(5) by (simp split: if_splits)
  then show ?thesis using from_utf8_encoded [OF assms(1-4)] by simp
qed

text \<open>A decoder, as an instance.\<close>

fun utf8_decode :: "nat list \<Rightarrow> nat list" where
  "utf8_decode (a # xs) =
     (if a < 128 then a # utf8_decode xs
      else if a < 224 then
        (case xs of b # ys \<Rightarrow> ((a - 192) * 64 + (b - 128)) # utf8_decode ys | [] \<Rightarrow> [])
      else if a < 240 then
        (case xs of b # c # ys \<Rightarrow> ((a - 224) * 4096 + (b - 128) * 64 + (c - 128)) # utf8_decode ys | _ \<Rightarrow> [])
      else
        (case xs of b # c # d # ys \<Rightarrow> ((a - 240) * 262144 + (b - 128) * 4096 + (c - 128) * 64 + (d - 128)) # utf8_decode ys
         | _ \<Rightarrow> []))"
| "utf8_decode [] = []"

lemma utf8_decode_char: "utf8_decode (utf8_char c @ xs) = c # utf8_decode xs"
proof -
  have 2: "c div 64 * 64 + c mod 64 = c" by simp
  have d: "c div 4096 = c div 64 div 64" "c div 262144 = c div 64 div 64 div 64"
    using div_mult2_eq [of c 64 64] div_mult2_eq [of c 4096 64] by simp_all
  have 3: "c div 4096 * 4096 + c div 64 mod 64 * 64 + c mod 64 = c"
    using 2 div_mult_mod_eq [of "c div 64" 64] unfolding d by linarith
  have 4: "c div 262144 * 262144 + c div 4096 mod 64 * 4096 + c div 64 mod 64 * 64 + c mod 64 = c"
    using 2 div_mult_mod_eq [of "c div 64" 64] div_mult_mod_eq [of "c div 64 div 64" 64] unfolding d by linarith
  show ?thesis
    using 2 3 4 by (auto simp: utf8_char_def less_mult_imp_div_less div_less_iff_less_mult)
qed

lemma utf8_decodes: "decodes (Some (\<lambda>bs. Some (65279 # utf8_decode bs))) utf8_char"
proof -
  have "utf8_decode (concat (map utf8_char s)) = s" for s
    by (induction s) (simp_all add: utf8_decode_char del: utf8_decode.simps(1))
  then show ?thesis by (simp add: decodes_def)
qed

theorem utf8_roundtrip_witness:
  "FromUTF8String (Some (\<lambda>bs. Some (65279 # utf8_decode bs))) [122, 197, 130] = Inr [122, 322]"
  using utf8_roundtrip [OF utf8_encodes utf8_decodes, of "[122, 322]" "[122, 197, 130]"] to_utf8_cases [OF utf8_encodes, of "[122, 322]"]
  by (simp add: utf8_char_def)

end
