(* ===== verification/GlobalDAO.thy ===== *)
theory GlobalDAO
  imports PropertyDAO Conversions
begin

text \<open>
  The settings of the runtime (modules/widget_dao/dao/global_dao_read_only.cpp, global_dao.cpp): the one
  row of \<open>GlobalProperties\<close>, the list of white IRIs, user agents, language subtags and the capabilities of
  a feature.
\<close>

section \<open>Reading\<close>

datatype network_access_mode = NEVER_CONNECT | ALWAYS_ASK | CONNECT_AUTOMATICALLY

fun mode_int :: "network_access_mode \<Rightarrow> int" where
  "mode_int NEVER_CONNECT = 0"
| "mode_int ALWAYS_ASK = 1"
| "mode_int CONNECT_AUTOMATICALLY = 2"

text \<open>A number that names no mode is outside the enumeration; \<open>CONNECT_AUTOMATICALLY\<close> stands for it.\<close>

definition int_mode :: "int \<Rightarrow> network_access_mode" where
  "int_mode i = (if i = 0 then NEVER_CONNECT else if i = 1 then ALWAYS_ASK else CONNECT_AUTOMATICALLY)"

lemma int_mode_int [simp]: "int_mode (mode_int m) = m"
  by (cases m) (simp_all add: int_mode_def)

definition get_global :: "string \<Rightarrow> (row \<Rightarrow> 'a) \<Rightarrow> 'a db_prog" where
  "get_global site f = bindP (get_single_of_all site ''GlobalProperties'') (\<lambda>r. ret (f r))"

definition GetDeveloperMode :: "bool db_prog" where
  "GetDeveloperMode = sql_handler DaoGlobal (get_global ''GetDeveloperMode'' (\<lambda>r. int_of r ''developer_mode'' \<noteq> 0))"

definition GetSecureByDefault :: "bool db_prog" where
  "GetSecureByDefault = get_global ''GetSecureByDefault'' (\<lambda>r. int_of r ''secure_by_default'' \<noteq> 0)"

definition getComplianceMode :: "bool db_prog" where
  "getComplianceMode = sql_handler DaoGlobal (get_global ''getComplianceMode'' (\<lambda>r. int_of r ''compliance_mode'' \<noteq> 0))"

definition lift_text :: "nat list res \<Rightarrow> nat list db_prog" where
  "lift_text v = (case v of Inl e \<Rightarrow> raise e | Inr b \<Rightarrow> ret b)"

definition getComplianceFakeImei :: "iconv \<Rightarrow> nat list db_prog" where
  "getComplianceFakeImei cv = sql_handler DaoGlobal
     (bindP (get_global ''getComplianceFakeImei'' (\<lambda>r. text_of r ''compliance_fake_imei'')) (\<lambda>w. lift_text (ToUTF8String cv w)))"

definition getComplianceFakeMeid :: "iconv \<Rightarrow> nat list db_prog" where
  "getComplianceFakeMeid cv = sql_handler DaoGlobal
     (bindP (get_global ''getComplianceFakeMeid'' (\<lambda>r. text_of r ''compliance_fake_meid'')) (\<lambda>w. lift_text (ToUTF8String cv w)))"

definition GetHomeNetworkDataUsage :: "network_access_mode db_prog" where
  "GetHomeNetworkDataUsage = sql_handler DaoGlobal
     (get_global ''GetHomeNetworkDataUsage'' (\<lambda>r. int_mode (int_of r ''home_network_data_usage'')))"

definition GetRoamingDataUsage :: "network_access_mode db_prog" where
  "GetRoamingDataUsage = sql_handler DaoGlobal
     (get_global ''GetRoamingDataUsage'' (\<lambda>r. int_mode (int_of r ''roaming_data_usage'')))"

definition GetCookieSharingMode :: "bool db_prog" where
  "GetCookieSharingMode = sql_handler DaoGlobal
     (get_global ''GetCookieSharingMode'' (\<lambda>r. int_of r ''cookie_sharing_mode'' \<noteq> 0))"

definition IsValidSubTag :: "wstr \<Rightarrow> int \<Rightarrow> bool db_prog" where
  "IsValidSubTag tag tp =
     bindP (get_row_list ''IsValidSubTag'' ''iana_records'' (Equals ''iana_records'' ''SUBTAG'' (CText tag)))
       (\<lambda>rows. ret (case rows of [] \<Rightarrow> False | r # _ \<Rightarrow> int_of r ''TYPE'' = tp))"

definition GetUserAgentValue :: "wstr \<Rightarrow> wstr db_prog" where
  "GetUserAgentValue key = sql_handler DaoGlobal
     (bindP (get_single_row ''GetUserAgentValue'' ''UserAgents'' (Equals ''UserAgents'' ''key_name'' (CText key)))
       (\<lambda>r. ret (case opt_text_of r ''key_value'' of None \<Rightarrow> [] | Some w \<Rightarrow> w)))"

definition GetDeviceCapability :: "wstr \<Rightarrow> wstr set db_prog" where
  "GetDeviceCapability apifeature = sql_handler DaoGlobal
     (bindP (get_single_row ''GetDeviceCapability.feature'' ''FeaturesList''
         (Equals ''FeaturesList'' ''FeatureName'' (CText apifeature))) (\<lambda>f.
      bindP (get_row_list ''GetDeviceCapability.proxy'' ''FeatureDeviceCapProxy''
         (Equals ''FeatureDeviceCapProxy'' ''FeatureUUID'' (CInt (int_of f ''FeatureUUID'')))) (\<lambda>rows.
      bindP (mapP (\<lambda>it. bindP (get_single_row ''GetDeviceCapability.name'' ''DeviceCapabilities''
           (Equals ''DeviceCapabilities'' ''DeviceCapID'' (CInt (int_of it ''DeviceCapID''))))
           (\<lambda>c. ret (text_of c ''DeviceCapName''))) rows)
        (\<lambda>names. ret (set names)))))"

definition GetWhiteURIList :: "(wstr \<times> bool) list db_prog" where
  "GetWhiteURIList = sql_handler DaoGlobal
     (bindP (get_all_rows ''GetWhiteURIList'' ''WidgetWhiteURIList'')
       (\<lambda>rows. ret (map (\<lambda>r. (text_of r ''uri'', int_of r ''subdomain_access'' \<noteq> 0)) rows)))"

section \<open>Writing\<close>

abbreviation wrt_update_all :: "string \<Rightarrow> string \<Rightarrow> row \<Rightarrow> unit db_prog" where
  "wrt_update_all \<equiv> do_update_all wrt_schema"

definition with_ascii :: "nat list \<Rightarrow> (wstr \<Rightarrow> 'a db_prog) \<Rightarrow> 'a db_prog" where
  "with_ascii s k = (case from_ascii s of Inl e \<Rightarrow> raise e | Inr w \<Rightarrow> k w)"

definition SetDeveloperMode :: "bool \<Rightarrow> unit db_prog" where
  "SetDeveloperMode mode = sql_handler DaoGlobal
     (wrt_update_all ''SetDeveloperMode'' ''GlobalProperties'' [(''developer_mode'', bool_cell mode)])"

definition SetSecureByDefault :: "bool \<Rightarrow> unit db_prog" where
  "SetSecureByDefault secure = sql_handler DaoGlobal
     (wrt_update_all ''SetSecureByDefault'' ''GlobalProperties'' [(''secure_by_default'', bool_cell secure)])"

definition setComplianceMode :: "bool \<Rightarrow> unit db_prog" where
  "setComplianceMode mode = sql_handler DaoGlobal
     (wrt_update_all ''setComplianceMode'' ''GlobalProperties'' [(''compliance_mode'', bool_cell mode)])"

definition setComplianceFakeImei :: "nat list \<Rightarrow> unit db_prog" where
  "setComplianceFakeImei imei = sql_handler DaoGlobal (with_ascii imei (\<lambda>w.
     wrt_update_all ''setComplianceFakeImei'' ''GlobalProperties'' [(''compliance_fake_imei'', CText w)]))"

definition setComplianceFakeMeid :: "nat list \<Rightarrow> unit db_prog" where
  "setComplianceFakeMeid meid = sql_handler DaoGlobal (with_ascii meid (\<lambda>w.
     wrt_update_all ''setComplianceFakeMeid'' ''GlobalProperties'' [(''compliance_fake_meid'', CText w)]))"

definition SetHomeNetworkDataUsage :: "network_access_mode \<Rightarrow> unit db_prog" where
  "SetHomeNetworkDataUsage m = sql_handler DaoGlobal
     (wrt_update_all ''SetHomeNetworkDataUsage'' ''GlobalProperties'' [(''home_network_data_usage'', CInt (mode_int m))])"

definition SetRoamingDataUsage :: "network_access_mode \<Rightarrow> unit db_prog" where
  "SetRoamingDataUsage m = sql_handler DaoGlobal
     (wrt_update_all ''SetRoamingDataUsage'' ''GlobalProperties'' [(''roaming_data_usage'', CInt (mode_int m))])"

definition SetCookieSharingMode :: "bool \<Rightarrow> unit db_prog" where
  "SetCookieSharingMode mode = sql_handler DaoGlobal
     (wrt_update_all ''SetCookieSharingMode'' ''GlobalProperties'' [(''cookie_sharing_mode'', bool_cell mode)])"

definition white_cells :: "wstr \<Rightarrow> bool \<Rightarrow> row" where
  "white_cells w subDomain = [(''uri'', CText w), (''subdomain_access'', bool_cell subDomain)]"

definition AddWhiteURI :: "nat list \<Rightarrow> bool \<Rightarrow> unit db_prog" where
  "AddWhiteURI uri subDomain = sql_handler DaoGlobal (with_ascii uri (\<lambda>w. scope
     (bindP (insert_only ''AddWhiteURI'' ''WidgetWhiteURIList'' (white_cells w subDomain)) (\<lambda>x. thenP commit (ret x)))))"

definition white_uri :: "wstr \<Rightarrow> expr" where
  "white_uri w = Equals ''WidgetWhiteURIList'' ''uri'' (CText w)"

definition RemoveWhiteURI :: "nat list \<Rightarrow> unit db_prog" where
  "RemoveWhiteURI uri = sql_handler DaoGlobal (with_ascii uri (\<lambda>w.
     wrt_delete ''RemoveWhiteURI'' ''WidgetWhiteURIList'' (white_uri w)))"

section \<open>The settings as a record\<close>

record globals =
  g_developer :: bool
  g_secure :: bool
  g_compliance :: bool
  g_imei :: wstr
  g_meid :: wstr
  g_home :: network_access_mode
  g_roaming :: network_access_mode
  g_cookie :: bool

definition row_globals :: "row \<Rightarrow> globals" where
  "row_globals r = \<lparr>g_developer = int_of r ''developer_mode'' \<noteq> 0, g_secure = int_of r ''secure_by_default'' \<noteq> 0,
     g_compliance = int_of r ''compliance_mode'' \<noteq> 0, g_imei = text_of r ''compliance_fake_imei'',
     g_meid = text_of r ''compliance_fake_meid'', g_home = int_mode (int_of r ''home_network_data_usage''),
     g_roaming = int_mode (int_of r ''roaming_data_usage''), g_cookie = int_of r ''cookie_sharing_mode'' \<noteq> 0\<rparr>"

definition globals_of :: "tables \<Rightarrow> globals" where
  "globals_of db = row_globals (first_row (db ''GlobalProperties''))"

text \<open>The schema inserts the row, and nothing inserts or deletes one.\<close>

definition one_row :: "tables \<Rightarrow> bool" where
  "one_row db \<longleftrightarrow> length (db ''GlobalProperties'') = 1"

datatype global_setting =
    DeveloperMode bool | SecureByDefault bool | ComplianceMode bool | FakeImei "nat list" | FakeMeid "nat list"
  | HomeNetwork network_access_mode | RoamingNetwork network_access_mode | CookieSharing bool

fun apply_setting :: "global_setting \<Rightarrow> unit db_prog" where
  "apply_setting (DeveloperMode b) = SetDeveloperMode b"
| "apply_setting (SecureByDefault b) = SetSecureByDefault b"
| "apply_setting (ComplianceMode b) = setComplianceMode b"
| "apply_setting (FakeImei t) = setComplianceFakeImei t"
| "apply_setting (FakeMeid t) = setComplianceFakeMeid t"
| "apply_setting (HomeNetwork m) = SetHomeNetworkDataUsage m"
| "apply_setting (RoamingNetwork m) = SetRoamingDataUsage m"
| "apply_setting (CookieSharing b) = SetCookieSharingMode b"

fun spec_setting :: "global_setting \<Rightarrow> globals \<Rightarrow> globals res" where
  "spec_setting (DeveloperMode b) g = Inr (g\<lparr>g_developer := b\<rparr>)"
| "spec_setting (SecureByDefault b) g = Inr (g\<lparr>g_secure := b\<rparr>)"
| "spec_setting (ComplianceMode b) g = Inr (g\<lparr>g_compliance := b\<rparr>)"
| "spec_setting (FakeImei t) g = bind_res (from_ascii t) (\<lambda>w. Inr (g\<lparr>g_imei := w\<rparr>))"
| "spec_setting (FakeMeid t) g = bind_res (from_ascii t) (\<lambda>w. Inr (g\<lparr>g_meid := w\<rparr>))"
| "spec_setting (HomeNetwork m) g = Inr (g\<lparr>g_home := m\<rparr>)"
| "spec_setting (RoamingNetwork m) g = Inr (g\<lparr>g_roaming := m\<rparr>)"
| "spec_setting (CookieSharing b) g = Inr (g\<lparr>g_cookie := b\<rparr>)"

section \<open>The one row\<close>

lemma global_columns:
  assumes "integrity wrt_schema s" and "r \<in> set (e_db s ''GlobalProperties'')"
  shows "row_ok GlobalProperties_table r"
    and "map fst r = [''developer_mode'', ''secure_by_default'', ''home_network_data_usage'', ''roaming_data_usage'',
      ''compliance_mode'', ''compliance_fake_imei'', ''compliance_fake_meid'', ''cookie_sharing_mode'']"
  using integrity_table [OF assms(1) table_of(1)] assms(2)
  by (simp_all add: table_ok_def) (simp add: GlobalProperties_table_def sql_table_def column_defs)

lemma global_checks: "list_all (\<lambda>col. col_check col = None) (ts_columns GlobalProperties_table)"
  "harmless wrt_schema ''GlobalProperties'' GlobalProperties_table cv"
  by (simp_all add: GlobalProperties_table_def sql_table_def column_defs harmless_def wrt_schema_def table_defs)

lemma global_update:
  assumes "free q s" and "integrity wrt_schema s" and "e_db s ''GlobalProperties'' = [r]" and "bound v \<noteq> CNull"
  shows "wrt_update_all q ''GlobalProperties'' [(c, v)] s =
     (Inr (), s\<lparr>e_db := (e_db s)(''GlobalProperties'' := [set_cells [(c, bound v)] r])\<rparr>)"
proof -
  have "update_rows wrt_schema ''GlobalProperties'' (\<lambda>_. True) [(c, bound v)] (e_db s) =
      Some ((e_db s)(''GlobalProperties'' := map (rewrite (\<lambda>_. True) [(c, bound v)]) (e_db s ''GlobalProperties'')))"
  proof (rule update_rows_rewrites)
    show "db_ok wrt_schema (e_db s)" "distinct (map fst wrt_schema)" using assms(2) by (auto simp: integrity_def)
    fix r
    assume "r \<in> set (e_db s ''GlobalProperties'')"
    then have "row_ok GlobalProperties_table r" using global_columns(1) [OF assms(2)] by simp
    then show "row_ok GlobalProperties_table (set_cells [(c, bound v)] r)"
      using global_checks(1) assms(4) by (auto simp: row_ok_def list_all_iff cell_ok_def get_set_cells get_missing)
  qed (simp_all add: table_of global_checks(2))
  then show ?thesis by (intro update_all_runs [OF assms(1)]) (simp_all add: assms(3) rewrite_def)
qed

lemma global_reads:
  assumes "free q s" and "fair_scan s" and "e_db s ''GlobalProperties'' = [r]"
  shows "get_global q f s = (Inr (f r), s)"
  using assms(2) by (simp add: get_global_def bindP_def single_runs(2) [OF assms(1)] assms(3) first_row_def ret_def)

text \<open>
  the getters return the settings of the row and change nothing; in particular none of them fails.
\<close>

theorem global_getters:
  assumes "wrt_ready s" and "one_row (e_db s)"
  shows "GetDeveloperMode s = (Inr (g_developer (globals_of (e_db s))), s) \<and>
    GetSecureByDefault s = (Inr (g_secure (globals_of (e_db s))), s) \<and>
    getComplianceMode s = (Inr (g_compliance (globals_of (e_db s))), s) \<and>
    getComplianceFakeImei cv s = (ToUTF8String cv (g_imei (globals_of (e_db s))), s) \<and>
    getComplianceFakeMeid cv s = (ToUTF8String cv (g_meid (globals_of (e_db s))), s) \<and>
    GetHomeNetworkDataUsage s = (Inr (g_home (globals_of (e_db s))), s) \<and>
    GetRoamingDataUsage s = (Inr (g_roaming (globals_of (e_db s))), s) \<and>
    GetCookieSharingMode s = (Inr (g_cookie (globals_of (e_db s))), s)"
proof -
  obtain r where r: "e_db s ''GlobalProperties'' = [r]" using assms(2) by (auto simp: one_row_def length_Suc_conv)
  have "free q s" "fair_scan s" for q using assms(1) by (simp_all add: wrt_ready_def idle_free)
  note runs = global_reads [OF this r]
  have "\<not> is_sql e" if "ToUTF8String cv w = Inl e" for w e
    using that by (auto simp: ToUTF8String_def c_string_def is_sql_def split: if_splits option.splits)
  then have meid: "sql_handler DaoGlobal (bindP (get_global q f) (\<lambda>w. lift_text (ToUTF8String cv w))) s = (ToUTF8String cv (f r), s)" for q f
    by (simp add: sql_handler_run bindP_def runs lift_text_def raise_def ret_def split: sum.split)
  have "getComplianceFakeImei cv s = (ToUTF8String cv (text_of r ''compliance_fake_imei''), s)"
    "getComplianceFakeMeid cv s = (ToUTF8String cv (text_of r ''compliance_fake_meid''), s)"
    by (simp_all only: getComplianceFakeImei_def getComplianceFakeMeid_def meid)
  then show ?thesis
    by (simp add: GetDeveloperMode_def GetSecureByDefault_def getComplianceMode_def GetHomeNetworkDataUsage_def GetRoamingDataUsage_def GetCookieSharingMode_def
        sql_handler_run runs globals_of_def r first_row_def row_globals_def)
qed

lemma from_ascii_text: "from_ascii t = Inr w \<Longrightarrow> w = t \<and> c_text w = w"
  by (auto simp: c_text_def takeWhile_eq_all_conv split: if_splits)

lemma set_global_cells:
  assumes "map fst r = [''developer_mode'', ''secure_by_default'', ''home_network_data_usage'', ''roaming_data_usage'',
      ''compliance_mode'', ''compliance_fake_imei'', ''compliance_fake_meid'', ''cookie_sharing_mode'']"
  shows "row_globals (set_cells [(''developer_mode'', bool_cell b)] r) = (row_globals r)\<lparr>g_developer := b\<rparr>"
    "row_globals (set_cells [(''secure_by_default'', bool_cell b)] r) = (row_globals r)\<lparr>g_secure := b\<rparr>"
    "row_globals (set_cells [(''compliance_mode'', bool_cell b)] r) = (row_globals r)\<lparr>g_compliance := b\<rparr>"
    "row_globals (set_cells [(''compliance_fake_imei'', CText w)] r) = (row_globals r)\<lparr>g_imei := w\<rparr>"
    "row_globals (set_cells [(''compliance_fake_meid'', CText w)] r) = (row_globals r)\<lparr>g_meid := w\<rparr>"
    "row_globals (set_cells [(''home_network_data_usage'', CInt (mode_int m))] r) = (row_globals r)\<lparr>g_home := m\<rparr>"
    "row_globals (set_cells [(''roaming_data_usage'', CInt (mode_int m))] r) = (row_globals r)\<lparr>g_roaming := m\<rparr>"
    "row_globals (set_cells [(''cookie_sharing_mode'', bool_cell b)] r) = (row_globals r)\<lparr>g_cookie := b\<rparr>"
  by (simp_all add: row_globals_def int_of_def cell_int_def text_of_def get_set_cells assms bool_cell_def)

fun changed_cell :: "global_setting \<Rightarrow> string \<times> sql_cell" where
  "changed_cell (DeveloperMode b) = (''developer_mode'', bool_cell b)"
| "changed_cell (SecureByDefault b) = (''secure_by_default'', bool_cell b)"
| "changed_cell (ComplianceMode b) = (''compliance_mode'', bool_cell b)"
| "changed_cell (FakeImei t) = (''compliance_fake_imei'', CText t)"
| "changed_cell (FakeMeid t) = (''compliance_fake_meid'', CText t)"
| "changed_cell (HomeNetwork m) = (''home_network_data_usage'', CInt (mode_int m))"
| "changed_cell (RoamingNetwork m) = (''roaming_data_usage'', CInt (mode_int m))"
| "changed_cell (CookieSharing b) = (''cookie_sharing_mode'', bool_cell b)"

lemma setting_runs:
  assumes "wrt_ready s" and "e_db s ''GlobalProperties'' = [g]"
  shows "apply_setting x s =
     (case spec_setting x (row_globals g) of
        Inl e \<Rightarrow> (Inl e, s)
      | Inr _ \<Rightarrow> (Inr (), s\<lparr>e_db := (e_db s)(''GlobalProperties'' := [set_cells [changed_cell x] g])\<rparr>))"
proof -
  have s: "free q s" "integrity wrt_schema s" for q using assms(1) by (simp_all add: wrt_ready_def idle_free)
  note runs = global_update [OF s assms(2)]
  have bools: "bool_cell b \<noteq> CNull" for b by (simp add: bool_cell_def)
  show ?thesis
  proof (cases x)
    case (FakeImei t)
    then show ?thesis
      using from_ascii_text [of t]
      by (cases "from_ascii t") (auto simp: setComplianceFakeImei_def with_ascii_def sql_handler_run raise_def is_sql_def runs
          simp del: from_ascii.simps, auto simp: is_sql_def split: if_splits)
  next
    case (FakeMeid t)
    then show ?thesis
      using from_ascii_text [of t]
      by (cases "from_ascii t") (auto simp: setComplianceFakeMeid_def with_ascii_def sql_handler_run raise_def is_sql_def runs
          simp del: from_ascii.simps, auto simp: is_sql_def split: if_splits)
  qed (simp_all add: SetDeveloperMode_def SetSecureByDefault_def setComplianceMode_def SetHomeNetworkDataUsage_def
      SetRoamingDataUsage_def SetCookieSharingMode_def sql_handler_run runs bools)
qed

lemma spec_is_cell:
  assumes "integrity wrt_schema s" and "g \<in> set (e_db s ''GlobalProperties'')" and "spec_setting x (row_globals g) = Inr y"
  shows "row_globals (set_cells [changed_cell x] g) = y"
  using assms(3) set_global_cells [OF global_columns(2) [OF assms(1,2)]]
  by (cases x) (auto simp: bind_res_eq_Inr dest!: from_ascii_text simp del: from_ascii.simps)

text \<open>
  C20: each setter changes its own setting in the record and no other, and no other table; a text that is not
  ASCII is refused with nothing changed.
\<close>

theorem global_settings_refine:
  assumes "wrt_ready s" and "one_row (e_db s)" and "apply_setting x s = (r, s')"
  shows "(case spec_setting x (globals_of (e_db s)) of
       Inr g \<Rightarrow> r = Inr () \<and> globals_of (e_db s') = g
     | Inl e \<Rightarrow> r = Inl e \<and> s' = s) \<and>
    one_row (e_db s') \<and> wrt_ready s' \<and> (\<forall>t. t \<noteq> ''GlobalProperties'' \<longrightarrow> e_db s' t = e_db s t)"
proof -
  obtain g where g: "e_db s ''GlobalProperties'' = [g]" using assms(2) by (auto simp: one_row_def length_Suc_conv)
  have integ: "integrity wrt_schema s" using assms(1) by (simp add: wrt_ready_def)
  note run = setting_runs [OF assms(1) g, of x]
  have spec: "globals_of (e_db s) = row_globals g" by (simp add: globals_of_def g first_row_def)
  have "keeps (integrity wrt_schema) (apply_setting x)"
    by (cases x) (auto simp: SetDeveloperMode_def SetSecureByDefault_def setComplianceMode_def setComplianceFakeImei_def
        setComplianceFakeMeid_def SetHomeNetworkDataUsage_def SetRoamingDataUsage_def SetCookieSharingMode_def with_ascii_def
        intro!: integ.keeps_tx split: sum.split)
  then have "integrity wrt_schema s'" using keeps_pair integ assms(3) by metis
  then have ready: "wrt_ready s'"
    using assms(1,3) run by (auto simp: wrt_ready_def outside_tx_def fair_scan_def split: sum.splits)
  show ?thesis
  proof (cases "spec_setting x (row_globals g)")
    case (Inl e)
    then show ?thesis using run assms(2,3) ready by (simp add: spec)
  next
    case (Inr y)
    then have s': "r = Inr ()" "s' = s\<lparr>e_db := (e_db s)(''GlobalProperties'' := [set_cells [changed_cell x] g])\<rparr>"
      using run assms(3) by simp_all
    then show ?thesis
      using ready spec_is_cell [OF integ _ Inr] g by (simp add: spec Inr one_row_def) (simp add: globals_of_def first_row_def)
  qed
qed

section \<open>The white list\<close>

text \<open>The map the table stands for; its column of IRIs is of type text.\<close>

definition with_uri :: "wstr \<Rightarrow> row \<Rightarrow> bool" where
  "with_uri w r \<longleftrightarrow> get r ''uri'' = CText w"

definition white :: "tables \<Rightarrow> wstr \<Rightarrow> bool option" where
  "white db w =
     (case filter (with_uri w) (db ''WidgetWhiteURIList'') of
        [] \<Rightarrow> None
      | r # _ \<Rightarrow> Some (int_of r ''subdomain_access'' \<noteq> 0))"

definition text_uris :: "tables \<Rightarrow> bool" where
  "text_uris db \<longleftrightarrow> (\<forall>r \<in> set (db ''WidgetWhiteURIList''). \<exists>w. get r ''uri'' = CText w)"

lemma white_table:
  "ts_rowid WidgetWhiteURIList_table = None" "\<not> ts_auto WidgetWhiteURIList_table"
  "ts_keys WidgetWhiteURIList_table = [[''uri'']]" "ts_fks WidgetWhiteURIList_table = []"
  "unreferenced wrt_schema ''WidgetWhiteURIList''"
  by (simp_all add: WidgetWhiteURIList_table_def sql_table_def unreferenced_def wrt_schema_def table_defs)

lemma white_delete: "delete_rows wrt_schema ''WidgetWhiteURIList'' p db =
    db(''WidgetWhiteURIList'' := filter (\<lambda>r. \<not> p r) (db ''WidgetWhiteURIList''))"
  by (rule delete_leaf [OF white_table(5)]) (simp add: wrt_schema_def)

lemma white_row:
  "full_row WidgetWhiteURIList_table k (white_cells w b) = white_cells w b"
  "row_ok WidgetWhiteURIList_table (white_cells w b)"
  by (simp_all add: full_row_def row_ok_def cell_ok_def WidgetWhiteURIList_table_def sql_table_def column_defs white_cells_def
      get_Cons bool_cell_def)

lemma with_uri_cells: "with_uri u (white_cells w b) \<longleftrightarrow> u = w"
  by (auto simp: with_uri_def white_cells_def get_Cons)

lemma white_flag: "int_of (white_cells w b) ''subdomain_access'' = (if b then 1 else 0)"
  by (simp add: white_cells_def int_of_def cell_int_def get_Cons bool_cell_def)

lemma white_None: "white db w = None \<longleftrightarrow> (\<forall>r \<in> set (db ''WidgetWhiteURIList''). \<not> with_uri w r)"
proof -
  have "white db w = None \<longleftrightarrow> filter (with_uri w) (db ''WidgetWhiteURIList'') = []"
    by (simp add: white_def split: list.split)
  then show ?thesis by (simp add: filter_empty_conv)
qed

lemma white_insert:
  assumes "c_text w = w"
  shows "insert_row wrt_schema ''WidgetWhiteURIList'' (map (\<lambda>(c, v). (c, bound v)) (white_cells w b)) (db, seq) =
     (if white db w \<noteq> None then None
      else Some (0, db(''WidgetWhiteURIList'' := db ''WidgetWhiteURIList'' @ [white_cells w b]), seq))"
proof -
  have cells: "map (\<lambda>(c, v). (c, bound v)) (white_cells w b) = white_cells w b"
    using assms by (simp add: white_cells_def)
  have key: "same_key [''uri''] (white_cells w b) r \<longleftrightarrow> with_uri w r" for r
    by (auto simp: same_key_def with_uri_def white_cells_def get_Cons)
  have "list_ex (same_key [''uri''] (white_cells w b)) (db ''WidgetWhiteURIList'') \<longleftrightarrow> white db w \<noteq> None"
    using white_None [of db w] by (simp add: key list_ex_iff)
  then show ?thesis
    by (simp add: insert_row_def table_of white_table cells white_row row_fits_def Let_def)
qed

lemma white_keys:
  assumes "integrity wrt_schema s" and "r \<in> set (e_db s ''WidgetWhiteURIList'')" and "with_uri w r"
  shows "white (e_db s) w = Some (int_of r ''subdomain_access'' \<noteq> 0)"
proof -
  have key: "sorted_wrt (\<lambda>r r'. \<not> same_key [''uri''] r r') (e_db s ''WidgetWhiteURIList'')"
    using integrity_table [OF assms(1) table_of(28)] by (simp add: table_ok_def white_table)
  have "filter (with_uri w) (e_db s ''WidgetWhiteURIList'') = [r]"
    by (rule the_filter [where p = "with_uri w", OF key _ assms(2,3)]) (auto simp: same_key_def with_uri_def)
  then show ?thesis by (simp add: white_def)
qed

lemma white_listed:
  assumes "wrt_ready s" and "text_uris (e_db s)"
  shows "\<exists>l. GetWhiteURIList s = (Inr l, s) \<and> (\<forall>u b. (u, b) \<in> set l \<longleftrightarrow> white (e_db s) u = Some b)"
proof -
  have s: "free q s" "fair_scan s" "integrity wrt_schema s" for q using assms(1) by (simp_all add: wrt_ready_def idle_free)
  let ?pair = "\<lambda>r. (text_of r ''uri'', int_of r ''subdomain_access'' \<noteq> 0)"
  have "(u, b) \<in> ?pair ` set (e_db s ''WidgetWhiteURIList'') \<longleftrightarrow> white (e_db s) u = Some b" for u b
  proof
    assume "(u, b) \<in> ?pair ` set (e_db s ''WidgetWhiteURIList'')"
    then obtain r where r: "r \<in> set (e_db s ''WidgetWhiteURIList'')" "u = text_of r ''uri''" "b = (int_of r ''subdomain_access'' \<noteq> 0)"
      by auto
    then have "with_uri u r" using assms(2) by (auto simp: text_uris_def with_uri_def)
    from white_keys [OF s(3) r(1) this] show "white (e_db s) u = Some b" by (simp add: r(3))
  next
    assume w: "white (e_db s) u = Some b"
    then obtain r where r: "r \<in> set (e_db s ''WidgetWhiteURIList'')" "with_uri u r"
      using white_None [of "e_db s" u] by auto
    then have "?pair r = (u, b)" using white_keys [OF s(3) r] w by (simp add: with_uri_def)
    then show "(u, b) \<in> ?pair ` set (e_db s ''WidgetWhiteURIList'')" by (intro rev_image_eqI [OF r(1)]) (rule sym)
  qed
  moreover have "GetWhiteURIList s = (Inr (map ?pair (e_scan s (e_db s ''WidgetWhiteURIList''))), s)"
    by (simp add: GetWhiteURIList_def sql_handler_run bindP_def rows_run [OF s(1)] ret_def)
  ultimately show ?thesis using scan_set [OF s(2)] by (metis (no_types, lifting) set_map)
qed

lemma white_added:
  assumes "wrt_ready s" and "text_uris (e_db s)" and "from_ascii uri = Inr w"
  shows "AddWhiteURI uri b s =
     (if white (e_db s) w = None
      then (Inr (), closed False ((opened s)\<lparr>e_db := (e_db s)(''WidgetWhiteURIList'' :=
               e_db s ''WidgetWhiteURIList'' @ [white_cells w b])\<rparr>))
      else (Inl (DatabaseError DaoGlobal),
        (closed True ((opened s)\<lparr>e_busy := (e_busy s)(''AddWhiteURI'' := True)\<rparr>))\<lparr>e_db := e_db s, e_seq := e_seq s\<rparr>))"
proof -
  have s: "outside_tx s" "idle (opened s)" using assms(1) by (simp_all add: wrt_ready_def)
  note free = idle_free [OF s(2), of "''AddWhiteURI''"]
  have w: "c_text w = w" using from_ascii_text [OF assms(3)] by (rule conjunct2)
  let ?body = "insert_only ''AddWhiteURI'' ''WidgetWhiteURIList'' (white_cells w b)"
  have body: "?body (opened s) = (if white (e_db s) w = None
      then (Inr (), (opened s)\<lparr>e_db := (e_db s)(''WidgetWhiteURIList'' := e_db s ''WidgetWhiteURIList'' @ [white_cells w b])\<rparr>)
      else (Inl SqlInternalError, (opened s)\<lparr>e_busy := (e_busy s)(''AddWhiteURI'' := True)\<rparr>))"
    using insert_runs [OF free, of wrt_schema "''WidgetWhiteURIList''" "white_cells w b"]
      insert_fails [OF free, of wrt_schema "''WidgetWhiteURIList''" "white_cells w b"] white_insert [OF w, of b "e_db s" "e_seq s"]
    by (auto simp: insert_only_def bindP_def ret_def)
  show ?thesis
    using scope_outcome [OF s(1) keeps_insert_only, of "''AddWhiteURI''" "''WidgetWhiteURIList''" "white_cells w b"] body
    by (cases "white (e_db s) w = None")
      (simp_all add: AddWhiteURI_def with_ascii_def assms(3) sql_handler_run is_sql_def del: from_ascii.simps)
qed

text \<open>
  C21: the white list refines a map from IRIs to their subdomain flag: adding refuses an IRI that is listed and
  changes nothing, removing takes the IRI out, and listing gives the pairs of the map.
\<close>

theorem white_list_refines:
  assumes "wrt_ready s" and "text_uris (e_db s)" and "from_ascii uri = Inr w"
  shows "(\<exists>s'. AddWhiteURI uri b s = (if white (e_db s) w = None then Inr () else Inl (DatabaseError DaoGlobal), s') \<and>
       white (e_db s') = (if white (e_db s) w = None then (white (e_db s))(w \<mapsto> b) else white (e_db s)) \<and> text_uris (e_db s')) \<and>
    (\<exists>s'. RemoveWhiteURI uri s = (Inr (), s') \<and> white (e_db s') = (white (e_db s))(w := None) \<and> text_uris (e_db s')) \<and>
    (\<exists>l. GetWhiteURIList s = (Inr l, s) \<and> (\<forall>u c. (u, c) \<in> set l \<longleftrightarrow> white (e_db s) u = Some c))"
proof (intro conjI)
  have s: "idle s" "integrity wrt_schema s" using assms(1) by (simp_all add: wrt_ready_def)
  show "\<exists>l. GetWhiteURIList s = (Inr l, s) \<and> (\<forall>u c. (u, c) \<in> set l \<longleftrightarrow> white (e_db s) u = Some c)"
    by (rule white_listed [OF assms(1,2)])
  let ?add = "(e_db s)(''WidgetWhiteURIList'' := e_db s ''WidgetWhiteURIList'' @ [white_cells w b])"
  have "white ?add u = ((white (e_db s))(w \<mapsto> b)) u" if "white (e_db s) w = None" for u
    using that white_None [of "e_db s" w]
    by (auto simp: white_def with_uri_cells white_flag filter_empty_conv split: list.split)
  then have "white (e_db s) w = None \<Longrightarrow> white ?add = (white (e_db s))(w \<mapsto> b)" by (intro ext)
  moreover have "text_uris ?add" using assms(2) by (auto simp: text_uris_def white_cells_def get_Cons)
  ultimately show "\<exists>s'. AddWhiteURI uri b s = (if white (e_db s) w = None then Inr () else Inl (DatabaseError DaoGlobal), s') \<and>
       white (e_db s') = (if white (e_db s) w = None then (white (e_db s))(w \<mapsto> b) else white (e_db s)) \<and> text_uris (e_db s')"
    using assms(2) by (simp add: white_added [OF assms])
  let ?del = "(e_db s)(''WidgetWhiteURIList'' := filter (\<lambda>r. \<not> with_uri w r) (e_db s ''WidgetWhiteURIList''))"
  have holds: "holds (white_uri w) = with_uri w"
    using from_ascii_text [OF assms(3)] by (intro ext) (auto simp: white_uri_def Equals_def with_uri_def)
  have "white ?del u = ((white (e_db s))(w := None)) u" for u
  proof -
    have "filter (with_uri u) (filter (\<lambda>r. \<not> with_uri w r) rs) = (if u = w then [] else filter (with_uri u) rs)" for rs
      by (simp, rule impI, rule filter_cong) (auto simp: with_uri_def)
    then show ?thesis by (simp add: white_def)
  qed
  then have "white ?del = (white (e_db s))(w := None)" by (intro ext)
  moreover have "text_uris ?del" using assms(2) by (auto simp: text_uris_def)
  ultimately show "\<exists>s'. RemoveWhiteURI uri s = (Inr (), s') \<and> white (e_db s') = (white (e_db s))(w := None) \<and> text_uris (e_db s')"
    by (simp add: RemoveWhiteURI_def with_ascii_def assms(3) sql_handler_run delete_runs [OF idle_free [OF s(1)]] holds
        white_delete del: from_ascii.simps)
qed

section \<open>Concrete states\<close>

lemma fresh_ready: "wrt_ready wrt_fresh"
  using wrt_fresh_state by (simp add: wrt_ready_def)

lemma fresh_global: "e_db wrt_fresh ''GlobalProperties'' = [full_row GlobalProperties_table 0 []]"
proof -
  have ok: "row_ok GlobalProperties_table (full_row GlobalProperties_table 0 [])"
    by (simp add: row_ok_def full_row_def cell_ok_def get_Cons GlobalProperties_table_def sql_table_def column_defs)
  have "ts_rowid GlobalProperties_table = None" "ts_keys GlobalProperties_table = []" "ts_fks GlobalProperties_table = []"
    by (simp_all add: GlobalProperties_table_def sql_table_def)
  then show ?thesis
    using ok by (simp add: wrt_fresh_def wrt_initial_def insert_all_other)
      (simp add: insert_all_def insert_row_def table_of row_fits_def Let_def)
qed

theorem global_getters_witness:
  "GetSecureByDefault wrt_fresh = (Inr True, wrt_fresh) \<and> GetDeveloperMode wrt_fresh = (Inr False, wrt_fresh) \<and>
   GetHomeNetworkDataUsage wrt_fresh = (Inr ALWAYS_ASK, wrt_fresh)"
  using global_getters [OF fresh_ready, of None]
  by (simp add: one_row_def fresh_global globals_of_def first_row_def)
    (simp add: row_globals_def full_row_def GlobalProperties_table_def sql_table_def column_defs int_of_def cell_int_def get_Cons int_mode_def)

theorem global_settings_refine_witness:
  "fst (apply_setting (FakeImei [49, 50]) wrt_fresh) = Inr () \<and>
   g_imei (globals_of (e_db (snd (apply_setting (FakeImei [49, 50]) wrt_fresh)))) = [49, 50] \<and>
   fst (apply_setting (FakeImei [200]) wrt_fresh) = Inl InvalidASCIICharacter"
  using global_settings_refine [OF fresh_ready, of "FakeImei [49, 50]" "fst (apply_setting (FakeImei [49, 50]) wrt_fresh)"
      "snd (apply_setting (FakeImei [49, 50]) wrt_fresh)"]
    global_settings_refine [OF fresh_ready, of "FakeImei [200]" "fst (apply_setting (FakeImei [200]) wrt_fresh)"
      "snd (apply_setting (FakeImei [200]) wrt_fresh)"]
  by (simp add: one_row_def fresh_global)

lemma fresh_white:
  "e_db wrt_fresh ''WidgetWhiteURIList'' =
     map (\<lambda>u. white_cells (W u) True) [''http://samsung.com'', ''http://orange.fr'', ''http://orange.co.uk'']"
proof -
  have cells: "[(''uri'', CText w), (''subdomain_access'', CInt 1)] = white_cells w True" for w
    by (simp add: white_cells_def bool_cell_def)
  have key: "same_key [''uri''] (white_cells w b) (white_cells w' b') \<longleftrightarrow> w = w'" for w b w' b'
    by (auto simp: same_key_def white_cells_def get_Cons)
  show ?thesis
    by (simp add: wrt_fresh_def wrt_initial_def insert_all_other cells)
      (simp add: insert_all_def insert_row_def table_of white_table white_row row_fits_def Let_def insert_all_other key W_def)
qed

theorem white_list_refines_witness:
  "fst (AddWhiteURI [97] False wrt_fresh) = Inr () \<and>
   white (e_db (snd (AddWhiteURI [97] False wrt_fresh))) [97] = Some False \<and> fst (RemoveWhiteURI [97] wrt_fresh) = Inr ()"
proof -
  have none: "white (e_db wrt_fresh) [97] = None"
    by (simp add: white_def fresh_white with_uri_cells W_def)
  have "text_uris (e_db wrt_fresh)"
    by (auto simp: text_uris_def fresh_white white_cells_def get_Cons)
  moreover have "from_ascii [97] = Inr [97]" by simp
  ultimately show ?thesis
    using white_list_refines [OF fresh_ready, of "[97]" "[97]" False] by (auto simp: none simp del: from_ascii.simps)
qed

end
