(* ===== verification/AutoSaveDAO.thy ===== *)
theory AutoSaveDAO
  imports PropertyDAO
begin

text \<open>
  The forms a page has submitted (modules/auto_save_dao: orm/autosave_db, dao/auto_save_dao_read_only.cpp,
  dao/auto_save_dao.cpp), in a database of their own.
\<close>

definition AutoSaveSubmitFormElement_table :: table_schema where
  "AutoSaveSubmitFormElement_table = sql_table [required ''address'', required ''key'', required ''value''] None False [] []"

definition autosave_schema :: schema where
  "autosave_schema = [(''AutoSaveSubmitFormElement'', AutoSaveSubmitFormElement_table)]"

record submit_form_element =
  fe_key :: wstr
  fe_value :: wstr

definition of_address :: "wstr \<Rightarrow> expr" where
  "of_address url = Equals ''AutoSaveSubmitFormElement'' ''address'' (CText url)"

definition getAutoSaveSubmitFormData :: "wstr \<Rightarrow> submit_form_element list db_prog" where
  "getAutoSaveSubmitFormData url = sql_handler DaoAutoSave
     (bindP (get_row_list ''getAutoSaveSubmitFormData'' ''AutoSaveSubmitFormElement'' (of_address url))
       (\<lambda>rows. ret (map (\<lambda>it. \<lparr>fe_key = text_of it ''key'', fe_value = text_of it ''value''\<rparr>) rows)))"

definition form_cells :: "wstr \<Rightarrow> submit_form_element \<Rightarrow> row" where
  "form_cells url e = [(''address'', CText url), (''key'', CText (fe_key e)), (''value'', CText (fe_value e))]"

definition set_form_body :: "wstr \<Rightarrow> submit_form_element list \<Rightarrow> unit db_prog" where
  "set_form_body url submitFormData =
     bindP (getAutoSaveSubmitFormData url) (\<lambda>submitData.
       thenP (if submitData \<noteq> []
              then do_delete autosave_schema ''setAutoSaveSubmitFormData.del'' ''AutoSaveSubmitFormElement'' (of_address url)
              else ret ())
        (forP (\<lambda>e. bindP (do_insert autosave_schema ''setAutoSaveSubmitFormData.insert'' ''AutoSaveSubmitFormElement''
             (form_cells url e)) (\<lambda>_. ret ())) submitFormData))"

definition setAutoSaveSubmitFormData :: "wstr \<Rightarrow> submit_form_element list \<Rightarrow> unit db_prog" where
  "setAutoSaveSubmitFormData url submitFormData = sql_handler DaoAutoSave
     (scope (bindP (set_form_body url submitFormData) (\<lambda>x. thenP commit (ret x))))"

section \<open>The forms of a database\<close>

definition with_address :: "wstr \<Rightarrow> row \<Rightarrow> bool" where
  "with_address u r \<longleftrightarrow> get r ''address'' = CText u"

text \<open>What the table keeps for an address, in the order it was stored.\<close>

definition forms :: "tables \<Rightarrow> wstr \<Rightarrow> submit_form_element list" where
  "forms db u = map (\<lambda>r. \<lparr>fe_key = text_of r ''key'', fe_value = text_of r ''value''\<rparr>)
     (filter (with_address u) (db ''AutoSaveSubmitFormElement''))"

definition stored_element :: "submit_form_element \<Rightarrow> submit_form_element" where
  "stored_element e = \<lparr>fe_key = c_text (fe_key e), fe_value = c_text (fe_value e)\<rparr>"

lemma holds_of_address: "holds (of_address url) = with_address (c_text url)"
  by (intro ext) (auto simp: of_address_def Equals_def with_address_def)

lemma get_form_runs:
  assumes "free ''getAutoSaveSubmitFormData'' s"
  shows "getAutoSaveSubmitFormData url s =
     (Inr (map (\<lambda>it. \<lparr>fe_key = text_of it ''key'', fe_value = text_of it ''value''\<rparr>)
        (e_scan s (filter (with_address (c_text url)) (e_db s ''AutoSaveSubmitFormElement'')))), s)"
  by (simp add: getAutoSaveSubmitFormData_def sql_handler_run bindP_def rows_run [OF assms] ret_def holds_of_address)

definition form_row :: "wstr \<Rightarrow> submit_form_element \<Rightarrow> row" where
  "form_row url e = form_cells (c_text url) (stored_element e)"

lemma form_insert:
  "insert_row autosave_schema ''AutoSaveSubmitFormElement'' (map (\<lambda>(c, v). (c, bound v)) (form_cells url e)) (db, seq) =
     Some (0, db(''AutoSaveSubmitFormElement'' := db ''AutoSaveSubmitFormElement'' @ [form_row url e]), seq)"
  by (simp add: insert_row_def autosave_schema_def AutoSaveSubmitFormElement_table_def sql_table_def full_row_def
      column_defs form_cells_def form_row_def stored_element_def row_fits_def row_ok_def cell_ok_def get_Cons Let_def)

lemma form_inserts_run:
  assumes "free ''setAutoSaveSubmitFormData.insert'' s"
  shows "forP (\<lambda>e. bindP (do_insert autosave_schema ''setAutoSaveSubmitFormData.insert'' ''AutoSaveSubmitFormElement''
       (form_cells url e)) (\<lambda>_. ret ())) es s =
     (Inr (), s\<lparr>e_db := (e_db s)(''AutoSaveSubmitFormElement'' := e_db s ''AutoSaveSubmitFormElement'' @ map (form_row url) es)\<rparr>)"
  using assms
proof (induction es arbitrary: s)
  case Nil
  then show ?case by (simp add: ret_def)
next
  case (Cons e es)
  let ?s = "s\<lparr>e_db := (e_db s)(''AutoSaveSubmitFormElement'' := e_db s ''AutoSaveSubmitFormElement'' @ [form_row url e]), e_seq := e_seq s\<rparr>"
  have "free ''setAutoSaveSubmitFormData.insert'' ?s" using Cons.prems by (simp add: free_def)
  from Cons.IH [OF this] show ?case
    using insert_runs [OF Cons.prems form_insert]
    by (simp add: thenP_def bindP_def ret_def) (rule arg_cong [where f = "\<lambda>d. s\<lparr>e_db := d\<rparr>"], rule ext, simp)
qed

lemma form_delete:
  "delete_rows autosave_schema ''AutoSaveSubmitFormElement'' p db =
     db(''AutoSaveSubmitFormElement'' := filter (\<lambda>r. \<not> p r) (db ''AutoSaveSubmitFormElement''))"
  by (rule delete_leaf)
    (simp_all add: unreferenced_def autosave_schema_def AutoSaveSubmitFormElement_table_def sql_table_def)

lemma set_form_runs:
  assumes "idle s" and "fair_scan s"
  shows "set_form_body url es s = (Inr (), s\<lparr>e_db := (e_db s)(''AutoSaveSubmitFormElement'' :=
     filter (\<lambda>r. \<not> with_address (c_text url) r) (e_db s ''AutoSaveSubmitFormElement'') @ map (form_row url) es)\<rparr>)"
proof -
  let ?t = "s\<lparr>e_db := (e_db s)(''AutoSaveSubmitFormElement'' :=
     filter (\<lambda>r. \<not> with_address (c_text url) r) (e_db s ''AutoSaveSubmitFormElement''))\<rparr>"
  have free: "free q s" "free q ?t" for q using assms(1) by (simp_all add: idle_free)
  have same: "?t = s" if "filter (with_address (c_text url)) (e_db s ''AutoSaveSubmitFormElement'') = []"
  proof -
    have "filter (\<lambda>r. \<not> with_address (c_text url) r) (e_db s ''AutoSaveSubmitFormElement'') = e_db s ''AutoSaveSubmitFormElement''"
      using that by (auto simp: filter_empty_conv filter_id_conv)
    then show ?thesis by (cases s) simp
  qed
  have "(if map f (e_scan s (filter (with_address (c_text url)) (e_db s ''AutoSaveSubmitFormElement''))) \<noteq> []
      then do_delete autosave_schema ''setAutoSaveSubmitFormData.del'' ''AutoSaveSubmitFormElement'' (of_address url)
      else ret ()) s = (Inr (), ?t)" for f :: "row \<Rightarrow> submit_form_element"
    using same assms(2) by (simp add: delete_runs [OF free(1)] form_delete holds_of_address ret_def)
  then show ?thesis
    using form_inserts_run [OF free(2), of url es]
    by (simp add: set_form_body_def bindP_def thenP_def get_form_runs [OF free(1)] del: map_is_Nil_conv)
qed

lemma keeps_form: "keeps (in_tx snap sc) (set_form_body url es)"
  unfolding set_form_body_def getAutoSaveSubmitFormData_def by (intro keeps_cases intx.keeps_db)

section \<open>Properties\<close>

definition autosave_ready :: "sql_env \<Rightarrow> bool" where
  "autosave_ready s \<longleftrightarrow> idle s \<and> outside_tx s \<and> fair_scan s"

text \<open>
  C22: storing the form of an address replaces what was stored for it, whatever that was, and leaves the other
  addresses alone; reading gives the elements stored last (texts up to their first NUL), each as often as
  it was given.
\<close>

theorem form_data_replaced:
  assumes "autosave_ready s"
  shows "\<exists>s'. setAutoSaveSubmitFormData url es s = (Inr (), s') \<and> autosave_ready s' \<and>
    (\<forall>u. forms (e_db s') u = (if u = c_text url then map stored_element es else forms (e_db s) u)) \<and>
    (\<exists>read. getAutoSaveSubmitFormData url s' = (Inr read, s') \<and> mset read = mset (map stored_element es))"
proof -
  have s: "idle s" "outside_tx s" "fair_scan s" using assms by (simp_all add: autosave_ready_def)
  let ?rows = "filter (\<lambda>r. \<not> with_address (c_text url) r) (e_db s ''AutoSaveSubmitFormElement'') @ map (form_row url) es"
  let ?u = "(opened s)\<lparr>e_db := (e_db s)(''AutoSaveSubmitFormElement'' := ?rows)\<rparr>"
  have "set_form_body url es (opened s) = (Inr (), ?u)"
    using set_form_runs [of "opened s" url es] s by simp
  from scope_outcome [OF s(2) keeps_form this]
  have run: "setAutoSaveSubmitFormData url es s = (Inr (), closed False ?u)"
    by (simp add: setAutoSaveSubmitFormData_def sql_handler_run)
  have ready: "autosave_ready (closed False ?u)"
    using s by (simp add: autosave_ready_def fair_scan_def)
  have row: "with_address u (form_row url e) \<longleftrightarrow> u = c_text url"
    "\<lparr>fe_key = text_of (form_row url e) ''key'', fe_value = text_of (form_row url e) ''value''\<rparr> = stored_element e" for u e
    by (auto simp: with_address_def form_row_def form_cells_def get_Cons text_of_def stored_element_def)
  have filter: "filter (with_address u) ?rows = (if u = c_text url then map (form_row url) es
      else filter (with_address u) (e_db s ''AutoSaveSubmitFormElement''))" for u
  proof -
    have "filter (with_address u) (filter (\<lambda>r. \<not> with_address (c_text url) r) rs) =
        (if u = c_text url then [] else filter (with_address u) rs)" for rs
      by (simp, rule impI, rule filter_cong) (auto simp: with_address_def)
    then show ?thesis by (simp add: filter_map o_def row)
  qed
  have sel: "e_db (closed False ?u) ''AutoSaveSubmitFormElement'' = ?rows" by simp
  have forms: "forms (e_db (closed False ?u)) u = (if u = c_text url then map stored_element es else forms (e_db s) u)" for u
    unfolding forms_def sel filter by (simp add: row o_def)
  have "mset (map f (e_scan s rs)) = mset (map f rs)" for f :: "row \<Rightarrow> submit_form_element" and rs
    using s(3) by (simp add: fair_scan_def)
  then have "\<exists>read. getAutoSaveSubmitFormData url (closed False ?u) = (Inr read, closed False ?u) \<and>
      mset read = mset (map stored_element es)"
    using ready unfolding autosave_ready_def
    by (simp only: get_form_runs [OF idle_free] sel filter) (simp add: row o_def del: mset_map)
  with run ready forms show ?thesis by blast
qed

text \<open>
  whatever makes storing a form fail, in the middle of it too, the database keeps what it had.
\<close>

theorem form_data_atomic:
  assumes "outside_tx s" and "setAutoSaveSubmitFormData url es s = (Inl e, s')"
  shows "e_db s' = e_db s \<and> outside_tx s'"
proof -
  obtain b u where b: "set_form_body url es (opened s) = (b, u)" by fastforce
  from scope_outcome [OF assms(1) keeps_form b] assms(2) show ?thesis
    by (cases b) (auto simp: setAutoSaveSubmitFormData_def sql_handler_run closed_def outside_tx_def)
qed

definition autosave_fresh :: sql_env where
  "autosave_fresh = wrt_fresh\<lparr>e_db := \<lambda>_. []\<rparr>"

theorem form_data_replaced_witness:
  "\<exists>s'. setAutoSaveSubmitFormData [97] [\<lparr>fe_key = [107], fe_value = [118, 0, 119]\<rparr>] autosave_fresh = (Inr (), s') \<and>
     forms (e_db s') [97] = [\<lparr>fe_key = [107], fe_value = [118]\<rparr>] \<and> forms (e_db s') [98] = []"
proof -
  have "autosave_ready autosave_fresh"
    using wrt_fresh_state by (simp add: autosave_ready_def autosave_fresh_def outside_tx_def fair_scan_def)
  from form_data_replaced [OF this, of "[97]" "[\<lparr>fe_key = [107], fe_value = [118, 0, 119]\<rparr>]"]
  show ?thesis by (auto simp: c_text_def stored_element_def) (simp add: forms_def autosave_fresh_def)
qed

theorem form_data_atomic_witness:
  "fst (setAutoSaveSubmitFormData [97] [] (autosave_fresh\<lparr>e_io := [True]\<rparr>)) = Inl (DatabaseError DaoAutoSave) \<and>
   e_db (snd (setAutoSaveSubmitFormData [97] [] (autosave_fresh\<lparr>e_io := [True]\<rparr>))) = (\<lambda>_. [])"
proof -
  let ?s = "autosave_fresh\<lparr>e_io := [True]\<rparr>"
  have out: "outside_tx ?s" by (simp add: autosave_fresh_def wrt_fresh_def outside_tx_def)
  obtain r s' where run: "setAutoSaveSubmitFormData [97] [] ?s = (r, s')" by fastforce
  have "r = Inl (DatabaseError DaoAutoSave)"
    using run by (simp add: setAutoSaveSubmitFormData_def set_form_body_def getAutoSaveSubmitFormData_def get_row_list_def
        run_query_def sql_handler_run bindP_def scope_def tx_begin_def tx_rollback_def thenP_def modifyP_def tx_unref_def
        autosave_fresh_def wrt_fresh_def Let_def is_sql_def split: prod.splits sum.splits)
  with run form_data_atomic [OF out, of "[97]" "[]" "DatabaseError DaoAutoSave" s'] show ?thesis by (simp add: autosave_fresh_def)
qed

end
