(* ===== verification/Localization.thy ===== *)
theory Localization
  imports WidgetDAO Conversions
begin

text \<open>
  The language tags of the user agent and the localized files of a widget
  (modules/localization/src/localization_utils.cpp, w3c_file_localization.cpp).  A loop that may not end is a
  partial function: nothing is the loop that does not return.
\<close>

section \<open>Replacing\<close>

text \<open>\<open>std::basic_string::find\<close> of a string.\<close>

definition occurs_at :: "wstr \<Rightarrow> wstr \<Rightarrow> nat \<Rightarrow> bool" where
  "occurs_at pat str i \<longleftrightarrow> i + length pat \<le> length str \<and> take (length pat) (drop i str) = pat"

definition find_string :: "wstr \<Rightarrow> wstr \<Rightarrow> nat \<Rightarrow> nat option" where
  "find_string pat str pos = List.find (occurs_at pat str) [pos..<Suc (length str)]"

partial_function (option) find_replace_loop :: "wstr \<Rightarrow> wstr \<Rightarrow> wstr \<Rightarrow> nat \<Rightarrow> wstr option" where
  "find_replace_loop pat rep str pos =
     (case find_string pat str pos of
        None \<Rightarrow> Some str
      | Some p \<Rightarrow> find_replace_loop pat rep (take p str @ rep @ drop (p + length pat) str) (p + length rep))"

definition FindAndReplace :: "wstr \<Rightarrow> wstr \<Rightarrow> wstr \<Rightarrow> wstr option" where
  "FindAndReplace str pat rep = find_replace_loop pat rep str 0"

definition BCP47LanguageTagToLocale :: "wstr \<Rightarrow> wstr option" where
  "BCP47LanguageTagToLocale inLanguageTag = FindAndReplace inLanguageTag (W ''-'') (W ''_'')"

text \<open>\<open>substr(0, find_first_of(L"."))\<close>: all of it where there is no dot.\<close>

definition LocaleToBCP47LanguageTag :: "wstr \<Rightarrow> wstr option" where
  "LocaleToBCP47LanguageTag inLocaleString =
     (let localeString = (case find_from (\<lambda>c. c = of_char CHR ''.'') inLocaleString 0 of
            None \<Rightarrow> inLocaleString | Some n \<Rightarrow> take n inLocaleString)
      in FindAndReplace localeString (W ''_'') (W ''-''))"

section \<open>The tags of the user agent\<close>

record lang_state =
  m_systemLanguageTags :: "wstr list"
  m_languageTags :: "wstr list"

definition lang_initial :: lang_state where
  "lang_initial = \<lparr>m_systemLanguageTags = [], m_languageTags = []\<rparr>"

definition find_last :: "nat \<Rightarrow> wstr \<Rightarrow> nat option" where
  "find_last c str = List.find (\<lambda>i. str ! i = c) (rev [0..<length str])"

text \<open>The loop for one locale: \<open>continue\<close> on an empty tag starts it over.\<close>

partial_function (option) tag_loop :: "wstr \<Rightarrow> wstr list \<Rightarrow> wstr list option" where
  "tag_loop tag tags =
     (if tag = [] then tag_loop tag tags
      else case find_last (of_char CHR ''-'') tag of
        None \<Rightarrow> Some (tags @ [tag])
      | Some subtagPos \<Rightarrow> tag_loop (take subtagPos tag) (tags @ [tag]))"

primrec add_locales :: "wstr list \<Rightarrow> wstr list \<Rightarrow> wstr list option" where
  "add_locales [] tags = Some tags"
| "add_locales (i # is) tags =
     Option.bind (LocaleToBCP47LanguageTag i) (\<lambda>tag. Option.bind (tag_loop tag tags) (add_locales is))"

definition UpdateUserAgentLanguageTags :: "lang_state \<Rightarrow> lang_state option" where
  "UpdateUserAgentLanguageTags st =
     map_option (\<lambda>tags. st\<lparr>m_languageTags := tags @ [W ''en'', []]\<rparr>) (add_locales (m_systemLanguageTags st) [])"

definition SetSystemLanguageTags :: "wstr list \<Rightarrow> lang_state \<Rightarrow> lang_state option" where
  "SetSystemLanguageTags tags st =
     (if m_systemLanguageTags st \<noteq> tags then UpdateUserAgentLanguageTags (st\<lparr>m_systemLanguageTags := tags\<rparr>)
      else Some st)"

definition GetUserAgentLanguageTags :: "lang_state \<Rightarrow> wstr list" where
  "GetUserAgentLanguageTags st = m_languageTags st"

section \<open>Files of a widget\<close>

text \<open>
  \<open>is_file\<close> stands for \<open>stat\<close>: it succeeds and finds a regular file.  The paths are bytes, \<open>c_str\<close>
  ends at the first NUL.
\<close>

definition candidate_path :: "iconv \<Rightarrow> nat list \<Rightarrow> nat list \<Rightarrow> wstr \<Rightarrow> nat list res" where
  "candidate_path cv basePath filePath tag =
     (if basePath = [] then Inl UndefinedBehaviour
      else let path = (if last basePath = of_char CHR ''/'' then butlast basePath else basePath)
           in if tag = [] then Inr (path @ W ''/'' @ filePath)
              else bind_res (ToUTF8String cv tag) (\<lambda>t. Inr (path @ W ''/locales/'' @ t @ W ''/'' @ filePath)))"

definition found_at :: "(nat list \<Rightarrow> bool) \<Rightarrow> nat list \<Rightarrow> bool" where
  "found_at is_file path \<longleftrightarrow> is_file (takeWhile (\<lambda>c. c \<noteq> 0) path)"

primrec try_locales :: "(nat list \<Rightarrow> bool) \<Rightarrow> iconv \<Rightarrow> nat list \<Rightarrow> nat list \<Rightarrow> wstr list \<Rightarrow> nat list option res" where
  "try_locales is_file cv basePath filePath [] = Inr None"
| "try_locales is_file cv basePath filePath (tag # tags) =
     bind_res (candidate_path cv basePath filePath tag) (\<lambda>path.
       if found_at is_file path then Inr (Some (drop (length basePath) path))
       else try_locales is_file cv basePath filePath tags)"

definition file_in_package :: "(nat list \<Rightarrow> bool) \<Rightarrow> iconv \<Rightarrow> wstr list \<Rightarrow> nat list \<Rightarrow> nat list \<Rightarrow> nat list option res" where
  "file_in_package is_file cv tags basePath filePath =
     (if filePath = [] then Inr None
      else let filePath = (if hd filePath = of_char CHR ''/'' then tl filePath else filePath)
           in if filePath = [] then Inr None else try_locales is_file cv basePath filePath tags)"

text \<open>The same on \<open>DPL::String\<close>, with the two conversions.\<close>

definition file_in_package_w :: "(nat list \<Rightarrow> bool) \<Rightarrow> iconv \<Rightarrow> iconv \<Rightarrow> wstr list \<Rightarrow> wstr \<Rightarrow> wstr \<Rightarrow> wstr option res" where
  "file_in_package_w is_file to_cv from_cv languageTags basePath filePath =
     bind_res (ToUTF8String to_cv basePath) (\<lambda>b. bind_res (ToUTF8String to_cv filePath) (\<lambda>f.
       bind_res (file_in_package is_file to_cv languageTags b f) (\<lambda>path. case path of
           None \<Rightarrow> Inr None
         | Some p \<Rightarrow> bind_res (FromUTF8String from_cv p) (\<lambda>w. Inr (Some w)))))"

definition from_res :: "'a res \<Rightarrow> 'a db_prog" where
  "from_res r = (case r of Inl e \<Rightarrow> raise e | Inr x \<Rightarrow> ret x)"

definition getFilePathInWidgetPackage ::
  "(nat list \<Rightarrow> bool) \<Rightarrow> iconv \<Rightarrow> iconv \<Rightarrow> int \<Rightarrow> wstr list \<Rightarrow> wstr \<Rightarrow> wstr option db_prog" where
  "getFilePathInWidgetPackage is_file to_cv from_cv h languageTags file =
     bindP (getPath h) (\<lambda>p. from_res (file_in_package_w is_file to_cv from_cv languageTags p file))"

definition begins_with :: "wstr \<Rightarrow> wstr \<Rightarrow> bool" where
  "begins_with p str \<longleftrightarrow> find_string p str 0 = Some 0"

definition strip_url :: "int \<Rightarrow> wstr \<Rightarrow> wstr option db_prog" where
  "strip_url h req =
     (if begins_with (W ''widget://'') req then ret (Some (drop (length (W ''widget://'')) req))
      else if begins_with (W ''file://'') req then
        (let req = drop (length (W ''file://'')) req
         in bindP (getPath h) (\<lambda>p.
              if begins_with p req then bindP (getPath h) (\<lambda>p. ret (Some (drop (length p) req)))
              else ret (Some req)))
      else ret None)"

definition getFilePathInWidgetPackageFromUrl ::
  "(nat list \<Rightarrow> bool) \<Rightarrow> iconv \<Rightarrow> iconv \<Rightarrow> int \<Rightarrow> wstr list \<Rightarrow> wstr \<Rightarrow> wstr option db_prog" where
  "getFilePathInWidgetPackageFromUrl is_file to_cv from_cv h languageTags url =
     bindP (strip_url h url) (\<lambda>r. case r of
         None \<Rightarrow> ret None
       | Some req \<Rightarrow> bindP (getPath h) (\<lambda>widgetPath.
           bindP (from_res (file_in_package_w is_file to_cv from_cv languageTags widgetPath req)) (\<lambda>found.
             ret (map_option (\<lambda>f. widgetPath @ f) found))))"

section \<open>Localized records\<close>

text \<open>A loop that returns the first result there is.\<close>

primrec first_some :: "('a \<Rightarrow> 'b option) \<Rightarrow> 'a list \<Rightarrow> 'b option" where
  "first_some f [] = None"
| "first_some f (x # xs) = (case f x of None \<Rightarrow> first_some f xs | Some y \<Rightarrow> Some y)"

definition with_default :: "wstr list \<Rightarrow> wstr option \<Rightarrow> wstr list" where
  "with_default tagsList defaultLoc = (case defaultLoc of None \<Rightarrow> tagsList | Some d \<Rightarrow> tagsList @ [d])"

definition pick_start_file :: "wstr list \<Rightarrow> localized_start_file_row list \<Rightarrow> start_file_row list \<Rightarrow> wstr option" where
  "pick_start_file tagsList locList files =
     first_some (\<lambda>tag. first_some (\<lambda>sFile.
         if tag = ls_locale sFile
         then first_some (\<lambda>it. if sf_id it = ls_id sFile then Some (sf_src it) else None) files
         else None) locList) tagsList"

definition getStartFile :: "lang_state \<Rightarrow> int \<Rightarrow> wstr option db_prog" where
  "getStartFile st h =
     bindP (getLocalizedStartFileList h) (\<lambda>locList. bindP (getStartFileList h) (\<lambda>files.
       bindP (getDefaultlocale h) (\<lambda>defaultLoc.
         ret (pick_start_file (with_default (GetUserAgentLanguageTags st) defaultLoc) locList files))))"

record widget_icon =
  icon_src :: wstr
  icon_width :: "int option"
  icon_height :: "int option"

definition to_icon :: "icon_row \<Rightarrow> widget_icon" where
  "to_icon it = \<lparr>icon_src = iw_src it, icon_width = iw_width it, icon_height = iw_height it\<rparr>"

definition pick_icon :: "wstr list \<Rightarrow> localized_icon_row list \<Rightarrow> icon_row list \<Rightarrow> widget_icon option" where
  "pick_icon tagsList locList icons =
     first_some (\<lambda>tag. first_some (\<lambda>icon.
         if tag = il_locale icon
         then first_some (\<lambda>it. if iw_iconId it = il_iconId icon then Some (to_icon it) else None) icons
         else None) locList) tagsList"

definition getIcon :: "lang_state \<Rightarrow> int \<Rightarrow> widget_icon option db_prog" where
  "getIcon st h =
     bindP (getLocalizedIconList h) (\<lambda>locList. bindP (getIconList h) (\<lambda>icons.
       bindP (getDefaultlocale h) (\<lambda>defaultLoc.
         ret (pick_icon (with_default (GetUserAgentLanguageTags st) defaultLoc) locList icons))))"

definition getValidIconsList ::
  "(nat list \<Rightarrow> bool) \<Rightarrow> iconv \<Rightarrow> iconv \<Rightarrow> int \<Rightarrow> wstr list \<Rightarrow> widget_icon list db_prog" where
  "getValidIconsList is_file to_cv from_cv h languageTags =
     bindP (getIconList h) (\<lambda>icons.
       bindP (mapP (\<lambda>it. bindP (getFilePathInWidgetPackage is_file to_cv from_cv h languageTags (iw_src it)) (\<lambda>p.
           ret (if p \<noteq> None then [to_icon it] else []))) icons) (\<lambda>outs. ret (concat outs)))"

record start_file_info =
  si_file :: wstr
  si_localizedPath :: wstr
  si_encoding :: wstr
  si_type :: wstr

definition getStartFileInfo :: "int \<Rightarrow> wstr list \<Rightarrow> start_file_info option db_prog" where
  "getStartFileInfo h tagsList =
     bindP (getLocalizedStartFileList h) (\<lambda>locList. bindP (getStartFileList h) (\<lambda>files.
       ret (first_some (\<lambda>tag. first_some (\<lambda>sFile.
         if tag = ls_locale sFile
         then first_some (\<lambda>it. if sf_id it = ls_id sFile
             then Some \<lparr>si_file = sf_src it,
                        si_localizedPath = (if tag = [] then sf_src it else W ''locales/'' @ tag @ W ''/'' @ sf_src it),
                        si_encoding = ls_encoding sFile, si_type = ls_type sFile\<rparr>
             else None) files
         else None) locList) tagsList)))"

definition overwrite_if_null :: "'a option \<Rightarrow> 'a option \<Rightarrow> 'a option" where
  "overwrite_if_null result languageResult = (if result = None then languageResult else result)"

definition merge_info :: "localized_info \<Rightarrow> localized_info \<Rightarrow> localized_info" where
  "merge_info result lang =
     \<lparr>lo_name = overwrite_if_null (lo_name result) (lo_name lang),
      lo_shortName = overwrite_if_null (lo_shortName result) (lo_shortName lang),
      lo_description = overwrite_if_null (lo_description result) (lo_description lang),
      lo_license = overwrite_if_null (lo_license result) (lo_license lang),
      lo_licenseHref = overwrite_if_null (lo_licenseHref result) (lo_licenseHref lang)\<rparr>"

definition null_info :: localized_info where
  "null_info = \<lparr>lo_name = None, lo_shortName = None, lo_description = None, lo_license = None, lo_licenseHref = None\<rparr>"

text \<open>\<open>W3CFileLocalization::getLocalizedInfo\<close>.\<close>

primrec merge_languages :: "int \<Rightarrow> wstr list \<Rightarrow> localized_info \<Rightarrow> localized_info db_prog" where
  "merge_languages h [] result = ret result"
| "merge_languages h (i # is) result =
     bindP (getLocalizedInfo h i) (\<lambda>languageResult. merge_languages h is (merge_info result languageResult))"

definition getWidgetLocalizedInfo :: "lang_state \<Rightarrow> int \<Rightarrow> localized_info db_prog" where
  "getWidgetLocalizedInfo st h =
     bindP (getDefaultlocale h) (\<lambda>dl.
       merge_languages h (with_default (GetUserAgentLanguageTags st) dl) null_info)"

section \<open>What replacing does\<close>

lemma find_string_Some:
  assumes "find_string pat str pos = Some p"
  shows "pos \<le> p" and "occurs_at pat str p" and "\<And>j. pos \<le> j \<Longrightarrow> j < p \<Longrightarrow> \<not> occurs_at pat str j"
proof -
  obtain i where i: "i < length [pos..<Suc (length str)]" "occurs_at pat str ([pos..<Suc (length str)] ! i)"
    "p = [pos..<Suc (length str)] ! i" "\<forall>j<i. \<not> occurs_at pat str ([pos..<Suc (length str)] ! j)"
    using assms by (auto simp: find_string_def find_Some_iff simp del: upt_Suc)
  then show "pos \<le> p" and "occurs_at pat str p" by (simp_all del: upt_Suc)
  fix j assume "pos \<le> j" "j < p"
  then have "j - pos < i" "[pos..<Suc (length str)] ! (j - pos) = j" using i(1,3) by (auto simp del: upt_Suc)
  then show "\<not> occurs_at pat str j" using i(4) by metis
qed

lemma find_string_None:
  "find_string pat str pos = None \<longleftrightarrow> (\<forall>i. pos \<le> i \<and> i \<le> length str \<longrightarrow> \<not> occurs_at pat str i)"
  by (auto simp: find_string_def find_None_iff less_Suc_eq_le simp del: upt_Suc)

lemma occurs_one: "occurs_at [d] str i \<longleftrightarrow> i < length str \<and> str ! i = d"
  by (auto simp: occurs_at_def take_Suc hd_drop_conv_nth Suc_le_eq)

lemma map_other: "(\<And>c. c \<in> set xs \<Longrightarrow> c \<noteq> d) \<Longrightarrow> map (\<lambda>c. if c = d then e else c) xs = xs"
  by (intro map_idI) auto

lemma replace_one_loop:
  "pos \<le> length str \<Longrightarrow>
     find_replace_loop [d] [e] str pos = Some (take pos str @ map (\<lambda>c. if c = d then e else c) (drop pos str))"
proof (induction "length str - pos" arbitrary: str pos rule: less_induct)
  case less
  let ?f = "map (\<lambda>c. if c = d then e else c)"
  show ?case
  proof (cases "find_string [d] str pos")
    case None
    then have no: "str ! i \<noteq> d" if "pos \<le> i" "i < length str" for i
      using that by (auto simp: find_string_None occurs_one)
    have "c \<noteq> d" if "c \<in> set (drop pos str)" for c
    proof -
      from that less.prems obtain i where "i < length str - pos" "c = str ! (pos + i)" by (auto simp: in_set_conv_nth)
      then show ?thesis using no [of "pos + i"] by simp
    qed
    then have "?f (drop pos str) = drop pos str" by (rule map_other)
    then show ?thesis using None by (subst find_replace_loop.simps) simp
  next
    case (Some p)
    note p = find_string_Some [OF Some]
    have lt: "p < length str" "str ! p = d" using p(2) by (simp_all add: occurs_one)
    let ?str = "take p str @ [e] @ drop (Suc p) str"
    have len: "length ?str = length str" using lt by simp
    have step: "find_replace_loop [d] [e] str pos = find_replace_loop [d] [e] ?str (Suc p)"
      using Some by (subst find_replace_loop.simps) simp
    have rec: "find_replace_loop [d] [e] ?str (Suc p) = Some (take (Suc p) ?str @ ?f (drop (Suc p) ?str))"
      by (rule less.hyps) (use lt p(1) len in simp_all)
    have "c \<noteq> d" if "c \<in> set (take (p - pos) (drop pos str))" for c
      using that p(3) lt by (auto simp: in_set_conv_nth occurs_one)
    then have mid: "?f (take (p - pos) (drop pos str)) = take (p - pos) (drop pos str)" by (rule map_other)
    have split: "drop pos str = take (p - pos) (drop pos str) @ d # drop (Suc p) str"
      using lt p(1) by (metis Cons_nth_drop_Suc append_take_drop_id drop_drop le_add_diff_inverse2)
    have "?f (drop pos str) = take (p - pos) (drop pos str) @ e # ?f (drop (Suc p) str)"
      by (subst split) (simp only: map_append mid list.map simp_thms if_True)
    moreover have "take p str = take pos str @ take (p - pos) (drop pos str)"
      using p(1) by (metis le_add_diff_inverse take_add)
    moreover have "take (Suc p) ?str = take p str @ [e]" "drop (Suc p) ?str = drop (Suc p) str" using lt by simp_all
    ultimately show ?thesis unfolding step rec by simp
  qed
qed

lemma replace_one: "FindAndReplace str [d] [e] = Some (map (\<lambda>c. if c = d then e else c) str)"
  by (simp add: FindAndReplace_def replace_one_loop)

definition dashes :: "wstr \<Rightarrow> wstr" where
  "dashes l = map (\<lambda>c. if c = of_char CHR ''_'' then of_char CHR ''-'' else c) (takeWhile (\<lambda>c. c \<noteq> of_char CHR ''.'') l)"

lemma before_dot:
  "(case find_from (\<lambda>c. c = d) l 0 of None \<Rightarrow> l | Some n \<Rightarrow> take n l) = takeWhile (\<lambda>c. c \<noteq> d) l"
proof (cases "find_from (\<lambda>c. c = d) l 0")
  case None
  then have "\<forall>c \<in> set l. c \<noteq> d" by (auto simp: find_from_None in_set_conv_nth)
  then have eq: "takeWhile (\<lambda>c. c \<noteq> d) l = l" by (rule takeWhile_eq_all_conv [THEN iffD2])
  show ?thesis unfolding None option.case eq ..
next
  case (Some n)
  then have n: "n < length l" "l ! n = d" "\<forall>j<n. l ! j \<noteq> d" by (auto dest: find_from_Some)
  then have "takeWhile (\<lambda>c. c \<noteq> d) l = take n l"
    by (intro takeWhile_eq_take_P_nth) auto
  then show ?thesis by (simp add: Some)
qed

lemma locale_to_tag: "LocaleToBCP47LanguageTag l = Some (dashes l)"
  by (simp add: LocaleToBCP47LanguageTag_def before_dot W_def replace_one dashes_def)

section \<open>The tags that are tried\<close>

definition tag_prefixes :: "wstr \<Rightarrow> wstr list" where
  "tag_prefixes tag = tag # map (\<lambda>p. take p tag) (rev (filter (\<lambda>i. tag ! i = of_char CHR ''-'') [0..<length tag]))"

definition tag_ends :: "wstr \<Rightarrow> bool" where
  "tag_ends tag \<longleftrightarrow> tag \<noteq> [] \<and> hd tag \<noteq> of_char CHR ''-''"

lemma tag_loop_not_empty: "tag_loop tag tags = Some ts \<Longrightarrow> tag \<noteq> []"
  by (rule tag_loop.raw_induct [where P = "\<lambda>tag tags ts. tag \<noteq> []"]) (auto split: if_splits)

lemma tag_loop_result: "tag_loop tag tags = (if tag_ends tag then Some (tags @ tag_prefixes tag) else None)"
proof (induction "length tag" arbitrary: tag tags rule: less_induct)
  case less
  let ?d = "of_char CHR ''-'' :: nat"
  show ?case
  proof (cases "tag = []")
    case True
    then show ?thesis using tag_loop_not_empty [of tag tags] by (cases "tag_loop tag tags") (auto simp: tag_ends_def)
  next
    case ne: False
    show ?thesis
    proof (cases "find_last ?d tag")
      case None
      then have no: "\<forall>i < length tag. tag ! i \<noteq> ?d" by (auto simp: find_last_def find_None_iff)
      then have "hd tag \<noteq> ?d" using ne by (simp add: hd_conv_nth)
      moreover have "filter (\<lambda>i. tag ! i = ?d) [0..<length tag] = []" using no by (simp add: filter_empty_conv)
      ultimately show ?thesis using ne None
        by (subst tag_loop.simps) (simp add: tag_ends_def tag_prefixes_def)
    next
      case (Some p)
      obtain i where i: "i < length tag" "tag ! (rev [0..<length tag] ! i) = ?d" "p = rev [0..<length tag] ! i"
        "\<forall>j<i. tag ! (rev [0..<length tag] ! j) \<noteq> ?d"
        using Some by (auto simp: find_last_def find_Some_iff)
      then have p: "p < length tag" "tag ! p = ?d" "p = length tag - Suc i" by (auto simp: rev_nth)
      have after: "tag ! j \<noteq> ?d" if "p < j" "j < length tag" for j
      proof -
        have "length tag - Suc j < i" "rev [0..<length tag] ! (length tag - Suc j) = j" using that p by (auto simp: rev_nth)
        then show ?thesis using i(4) by metis
      qed
      have "[0..<length tag] = [0..<p] @ p # [Suc p..<length tag]"
        using p(1) by (metis le0 less_imp_le_nat upt_add_eq_append upt_conv_Cons le_add_diff_inverse)
      then have dashes_at: "filter (\<lambda>i. tag ! i = ?d) [0..<length tag] = filter (\<lambda>i. tag ! i = ?d) [0..<p] @ [p]"
        using after p(2) by (simp add: filter_empty_conv)
      have same: "filter (\<lambda>i. take p tag ! i = ?d) [0..<p] = filter (\<lambda>i. tag ! i = ?d) [0..<p]"
        by (rule filter_cong) simp_all
      have len: "length (take p tag) = p" using p(1) by simp
      have shorter: "map (\<lambda>q. take q (take p tag)) (filter P [0..<p]) = map (\<lambda>q. take q tag) (filter P [0..<p])" for P
        by (rule map_cong) (auto simp: min_def)
      have step: "tag_loop tag tags = tag_loop (take p tag) (tags @ [tag])"
        using ne Some by (subst tag_loop.simps) simp
      have rec: "tag_loop (take p tag) (tags @ [tag]) =
          (if tag_ends (take p tag) then Some ((tags @ [tag]) @ tag_prefixes (take p tag)) else None)"
        by (rule less.hyps) (use p in simp)
      have ends: "tag_ends (take p tag) \<longleftrightarrow> tag_ends tag"
        using ne p by (cases p) (auto simp: tag_ends_def hd_conv_nth)
      have "tag # tag_prefixes (take p tag) = tag_prefixes tag"
        unfolding tag_prefixes_def dashes_at len same by (simp add: shorter)
      then show ?thesis by (simp add: step rec ends)
    qed
  qed
qed

lemma add_locales_result:
  "add_locales ls tags =
     (if list_all (\<lambda>l. tag_ends (dashes l)) ls then Some (tags @ concat (map (\<lambda>l. tag_prefixes (dashes l)) ls)) else None)"
  by (induction ls arbitrary: tags) (simp_all add: locale_to_tag tag_loop_result)

text \<open>
  C27: setting the locales of the system returns unless one of them is empty or starts with a dash (an
  underscore, a dot); then the tags of the user agent are those of each locale, each with its prefixes at
  the dashes from the longest on, and after them English and the files that are not localized.  Setting
  the locales that are set does nothing.
\<close>

theorem system_tags:
  "SetSystemLanguageTags ls st =
     (if ls = m_systemLanguageTags st then Some st
      else if list_all (\<lambda>l. tag_ends (dashes l)) ls
      then Some \<lparr>m_systemLanguageTags = ls,
                 m_languageTags = concat (map (\<lambda>l. tag_prefixes (dashes l)) ls) @ [W ''en'', []]\<rparr>
      else None)"
  by (cases st) (simp add: SetSystemLanguageTags_def UpdateUserAgentLanguageTags_def add_locales_result)

section \<open>Which file is found\<close>

text \<open>The same search on characters: the first locale whose file there is.\<close>

definition locale_path :: "wstr \<Rightarrow> wstr \<Rightarrow> wstr \<Rightarrow> wstr" where
  "locale_path basePath filePath tag =
     (if last basePath = of_char CHR ''/'' then butlast basePath else basePath) @
     (if tag = [] then W ''/'' else W ''/locales/'' @ tag @ W ''/'') @ filePath"

definition encode_string :: "(nat \<Rightarrow> nat list) \<Rightarrow> wstr \<Rightarrow> nat list" where
  "encode_string enc s = concat (map enc s)"

text \<open>ASCII characters are encoded as themselves, and the others without them.\<close>

definition keeps_ascii :: "(nat \<Rightarrow> nat list) \<Rightarrow> bool" where
  "keeps_ascii enc \<longleftrightarrow> (\<forall>c. (c < 128 \<longrightarrow> enc c = [c]) \<and> (128 \<le> c \<longrightarrow> (\<forall>b \<in> set (enc c). 128 \<le> b)))"

text \<open>The texts \<open>ToUTF8String\<close> has the room for.\<close>

definition convertible :: "(nat \<Rightarrow> nat list) \<Rightarrow> wstr \<Rightarrow> bool" where
  "convertible enc s \<longleftrightarrow> 0 \<notin> set s \<and> (s = [] \<or> \<not> list_all (\<lambda>c. length (enc c) = 4) s)"

lemma encode_simps [simp]:
  "encode_string enc [] = []"
  "encode_string enc (c # s) = enc c @ encode_string enc s"
  "encode_string enc (a @ b) = encode_string enc a @ encode_string enc b"
  by (simp_all add: encode_string_def)

lemma encode_ascii: "keeps_ascii enc \<Longrightarrow> \<forall>c \<in> set s. c < 128 \<Longrightarrow> encode_string enc s = s"
  by (induction s) (simp_all add: keeps_ascii_def)

lemma encode_words:
  assumes "keeps_ascii enc"
  shows "encode_string enc (W ''/'') = W ''/''" and "encode_string enc (W ''/locales/'') = W ''/locales/''"
  by (rule encode_ascii [OF assms], simp add: W_def)+

lemma to_utf8_convertible:
  "encodes cv enc \<Longrightarrow> convertible enc s \<Longrightarrow> ToUTF8String cv s = Inr (encode_string enc s)"
  using to_utf8_cases [of cv enc s] by (cases "s = []") (auto simp: convertible_def encode_string_def ToUTF8String_def)

lemma no_nul:
  "encodes cv enc \<Longrightarrow> 0 \<notin> set s \<Longrightarrow> takeWhile (\<lambda>c. c \<noteq> 0) (encode_string enc s) = encode_string enc s"
proof (induction s)
  case (Cons c s)
  have "0 \<notin> set (enc c)" using Cons.prems by (auto simp: encodes_def)
  then have "takeWhile (\<lambda>c. c \<noteq> 0) (enc c @ ys) = enc c @ takeWhile (\<lambda>c. c \<noteq> 0) ys" for ys
    by (intro takeWhile_append2) metis
  then show ?case using Cons by (simp del: neq0_conv)
qed simp

lemma encode_char:
  assumes "encodes cv enc" and "keeps_ascii enc"
  shows "enc c \<noteq> []" and "last (enc c) = of_char CHR ''/'' \<longleftrightarrow> c = of_char CHR ''/''"
    and "hd (enc c) = of_char CHR ''/'' \<longleftrightarrow> c = of_char CHR ''/''"
proof -
  have "1 \<le> length (enc c)" using assms(1) by (simp add: encodes_def)
  then show ne: "enc c \<noteq> []" by auto
  have low: "c < 128 \<Longrightarrow> enc c = [c]" and high: "128 \<le> c \<Longrightarrow> \<forall>b \<in> set (enc c). 128 \<le> b"
    using assms(2) by (simp_all add: keeps_ascii_def)
  show "last (enc c) = of_char CHR ''/'' \<longleftrightarrow> c = of_char CHR ''/''"
    using low high last_in_set [OF ne] by (cases "c < 128") fastforce+
  show "hd (enc c) = of_char CHR ''/'' \<longleftrightarrow> c = of_char CHR ''/''"
    using low high hd_in_set [OF ne] by (cases "c < 128") fastforce+
qed

lemma encode_last:
  assumes "encodes cv enc" and "keeps_ascii enc" and "base \<noteq> []"
  shows "last (encode_string enc base) = of_char CHR ''/'' \<longleftrightarrow> last base = of_char CHR ''/''"
    and "last base = of_char CHR ''/'' \<Longrightarrow> butlast (encode_string enc base) = encode_string enc (butlast base)"
proof -
  obtain b c where base: "base = b @ [c]" using assms(3) by (metis append_butlast_last_id)
  show "last (encode_string enc base) = of_char CHR ''/'' \<longleftrightarrow> last base = of_char CHR ''/''"
    using encode_char [OF assms(1,2), of c] by (simp add: base)
  assume "last base = of_char CHR ''/''"
  then have "enc c = [c]" using assms(2) by (simp add: base keeps_ascii_def)
  then show "butlast (encode_string enc base) = encode_string enc (butlast base)" by (simp add: base butlast_append)
qed

lemma encode_empty: "encodes cv enc \<Longrightarrow> encode_string enc s = [] \<longleftrightarrow> s = []"
  by (cases s) (auto simp: encodes_def, metis One_nat_def list.size(3) not_one_le_zero)

lemma candidate_encoded:
  assumes "encodes cv enc" and "keeps_ascii enc" and "base \<noteq> []" and "convertible enc tag"
  shows "candidate_path cv (encode_string enc base) (encode_string enc file) tag =
     Inr (encode_string enc (locale_path base file tag))"
  using encode_last [OF assms(1-3)] assms(3)
  by (simp add: candidate_path_def locale_path_def encode_empty [OF assms(1)] to_utf8_convertible [OF assms(1,4)]
      encode_words [OF assms(2)] Let_def del: of_char_def)

lemma locale_path_split:
  assumes "base \<noteq> []" and "file \<noteq> []"
  shows "locale_path base file tag = base @ drop (length base) (locale_path base file tag)"
    and "drop (length base) (locale_path base file tag) \<noteq> []"
proof -
  have "\<exists>rest. locale_path base file tag = base @ rest \<and> rest \<noteq> []"
  proof (cases "last base = of_char CHR ''/''")
    case True
    then obtain b where "base = b @ [of_char CHR ''/'']" using assms(1) by (metis append_butlast_last_id)
    then show ?thesis using assms(2) by (simp add: locale_path_def W_def)
  next
    case False
    then show ?thesis by (simp add: locale_path_def W_def)
  qed
  then show "locale_path base file tag = base @ drop (length base) (locale_path base file tag)"
    and "drop (length base) (locale_path base file tag) \<noteq> []" by auto
qed

definition locale_file :: "(nat list \<Rightarrow> bool) \<Rightarrow> (nat \<Rightarrow> nat list) \<Rightarrow> wstr list \<Rightarrow> wstr \<Rightarrow> wstr \<Rightarrow> wstr option" where
  "locale_file is_file enc tags basePath filePath =
     (let file = (if hd filePath = of_char CHR ''/'' then tl filePath else filePath)
      in if filePath = [] \<or> file = [] then None
         else find (\<lambda>p. is_file (encode_string enc p)) (map (locale_path basePath file) tags))"

lemma find_member: "find P xs = Some x \<Longrightarrow> x \<in> set xs"
  unfolding find_Some_iff by (metis nth_mem)

lemma locale_file_Some:
  assumes "locale_file is_file enc tags base file = Some p"
  shows "\<exists>f tag. f \<noteq> [] \<and> p = locale_path base f tag"
  using assms by (auto simp: locale_file_def Let_def split: if_splits dest!: find_member) blast+

lemma try_locales_encoded:
  assumes "encodes cv enc" and "keeps_ascii enc" and "base \<noteq> []" and "file \<noteq> []" and "0 \<notin> set base" and "0 \<notin> set file"
    and "list_all (convertible enc) tags"
  shows "try_locales is_file cv (encode_string enc base) (encode_string enc file) tags =
     Inr (map_option (\<lambda>p. encode_string enc (drop (length base) p))
       (find (\<lambda>p. is_file (encode_string enc p)) (map (locale_path base file) tags)))"
  using assms(7)
proof (induction tags)
  case (Cons tag tags)
  have tag: "convertible enc tag" using Cons.prems by simp
  let ?p = "locale_path base file tag"
  have nul: "0 \<notin> set ?p" using assms(5,6) tag by (auto simp: locale_path_def convertible_def W_def dest: in_set_butlastD)
  have found: "found_at is_file (encode_string enc ?p) = is_file (encode_string enc ?p)"
    unfolding found_at_def no_nul [OF assms(1) nul] ..
  have "encode_string enc ?p = encode_string enc base @ encode_string enc (drop (length base) ?p)"
    using locale_path_split(1) [OF assms(3,4), of tag] encode_simps(3) by metis
  then have "drop (length (encode_string enc base)) (encode_string enc ?p) = encode_string enc (drop (length base) ?p)" by simp
  then show ?case
    using Cons by (simp add: candidate_encoded [OF assms(1-3) tag] found)
qed simp

lemma package_file:
  assumes "encodes to enc" and "decodes from enc" and "keeps_ascii enc" and "base \<noteq> []"
    and "convertible enc base" and "convertible enc file" and "list_all (convertible enc) tags"
  shows "file_in_package_w is_file to from tags base file =
     Inr (map_option (drop (length base)) (locale_file is_file enc tags base file))"
proof -
  have nul: "0 \<notin> set base" "0 \<notin> set file" using assms(5,6) by (simp_all add: convertible_def)
  have start: "ToUTF8String to base = Inr (encode_string enc base)" "ToUTF8String to file = Inr (encode_string enc file)"
    by (rule to_utf8_convertible [OF assms(1)], fact)+
  show ?thesis
  proof (cases "file")
    case Nil
    then show ?thesis using start by (simp add: file_in_package_w_def file_in_package_def locale_file_def)
  next
    case (Cons c cs)
    define f where "f = (if c = of_char CHR ''/'' then cs else file)"
    have ascii: "c = of_char CHR ''/'' \<Longrightarrow> enc c = [c]" using assms(3) by (simp add: keeps_ascii_def)
    have bytes: "encode_string enc file \<noteq> []" "hd (encode_string enc file) = of_char CHR ''/'' \<longleftrightarrow> c = of_char CHR ''/''"
      "c = of_char CHR ''/'' \<Longrightarrow> tl (encode_string enc file) = encode_string enc cs"
      using encode_char [OF assms(1,3), of c] ascii by (simp_all add: Cons encode_empty [OF assms(1)])
    have stripped: "(if hd (encode_string enc file) = of_char CHR ''/'' then tl (encode_string enc file)
        else encode_string enc file) = encode_string enc f"
      using bytes(3) unfolding bytes(2) f_def by simp
    have lf0: "locale_file is_file enc tags base file =
        (if f = [] then None else find (\<lambda>p. is_file (encode_string enc p)) (map (locale_path base f) tags))"
      by (simp add: locale_file_def Cons f_def Let_def)
    show ?thesis
    proof (cases "f = []")
      case True
      have "file_in_package is_file to tags (encode_string enc base) (encode_string enc file) = Inr None"
        unfolding file_in_package_def Let_def stripped using True by simp
      then show ?thesis using True by (simp add: file_in_package_w_def start lf0)
    next
      case False
      have f_nul: "0 \<notin> set f" using nul(2) by (auto simp: f_def Cons)
      let ?found = "find (\<lambda>p. is_file (encode_string enc p)) (map (locale_path base f) tags)"
      note run = try_locales_encoded [OF assms(1,3,4) False nul(1) f_nul assms(7), of is_file]
      have decoded: "FromUTF8String from (encode_string enc (drop (length base) p)) = Inr (drop (length base) p)"
        if found: "?found = Some p" for p
      proof -
        obtain tag where tag: "tag \<in> set tags" "p = locale_path base f tag"
          using find_member [OF found] by auto
        have "0 \<notin> set p"
          using nul(1) f_nul tag assms(7)
          by (auto simp: locale_path_def convertible_def W_def list_all_iff dest: in_set_butlastD)
        then have "0 \<notin> set (drop (length base) p)" by (meson in_set_dropD)
        then show ?thesis
          using from_utf8_encoded [OF assms(1,2) locale_path_split(2) [OF assms(4) False, of tag]]
          by (simp add: encode_string_def tag(2))
      qed
      have lf: "locale_file is_file enc tags base file = ?found"
        using False by (simp add: lf0)
      have bytes_run: "file_in_package is_file to tags (encode_string enc base) (encode_string enc file) =
          Inr (map_option (\<lambda>p. encode_string enc (drop (length base) p)) ?found)"
        unfolding file_in_package_def Let_def stripped
        using bytes(1) False encode_empty [OF assms(1), of f] by (simp add: run)
      show ?thesis
        using decoded by (cases ?found) (simp_all add: file_in_package_w_def start bytes_run lf)
    qed
  qed
qed

text \<open>
  on characters, looking a file of a widget up tries, in the order of the tags, the path of the file under
  each locale (under the widget itself for the empty tag) and returns the first that is a regular file,
  less the widget's path; texts of four-byte characters only apart, no conversion changes that.
\<close>

theorem package_file_refines:
  assumes "encodes to enc" and "decodes from enc" and "keeps_ascii enc" and "base \<noteq> []"
    and "convertible enc base" and "convertible enc file" and "list_all (convertible enc) tags"
  shows "file_in_package_w is_file to from tags base file =
     Inr (map_option (drop (length base)) (locale_file is_file enc tags base file))"
  by (rule package_file [OF assms])

lemma utf8_keeps_ascii: "keeps_ascii utf8_char"
  by (simp add: keeps_ascii_def utf8_char_def)

theorem package_file_refines_witness:
  "file_in_package_w (\<lambda>p. p = W ''/a/locales/pl/i'') (Some (\<lambda>s. Some (concat (map utf8_char s))))
     (Some (\<lambda>bs. Some (65279 # utf8_decode bs))) [W ''pl-PL'', W ''pl'', []] (W ''/a/'') (W ''/i'') = Inr (Some (W ''locales/pl/i''))"
  using package_file_refines [OF utf8_encodes utf8_decodes utf8_keeps_ascii, of "W ''/a/''" "W ''/i''" "[W ''pl-PL'', W ''pl'', []]"
      "\<lambda>p. p = W ''/a/locales/pl/i''"]
  by (simp add: convertible_def locale_file_def locale_path_def encode_string_def utf8_char_def W_def)

section \<open>The first language that has a value\<close>

lemma first_some_append: "first_some f (xs @ ys) = (case first_some f xs of None \<Rightarrow> first_some f ys | Some y \<Rightarrow> Some y)"
  by (induction xs) (auto split: option.split)

lemma first_some_cong: "(\<And>x. x \<in> set xs \<Longrightarrow> f x = g x) \<Longrightarrow> first_some f xs = first_some g xs"
  by (induction xs) (auto split: option.split)

lemma first_some_None: "first_some f xs = None \<longleftrightarrow> (\<forall>x \<in> set xs. f x = None)"
  by (induction xs) (auto split: option.split)

text \<open>The first value of rows sorted by a key, where the value is that of the key.\<close>

lemma first_some_sorted:
  assumes "sorted (map k xs)" and "\<And>x y. f x = Some y \<Longrightarrow> v (k x) = Some y"
  shows "first_some f xs = (let K = {k x |x. x \<in> set xs \<and> f x \<noteq> None} in if K = {} then None else v (Min K))"
  using assms(1)
proof (induction xs)
  case (Cons x xs)
  let ?K = "{k y |y. y \<in> set xs \<and> f y \<noteq> None}"
  have fin: "finite ?K" by (rule finite_subset [of _ "k ` set xs"]) auto
  show ?case
  proof (cases "f x")
    case None
    then have "{k y |y. y \<in> set (x # xs) \<and> f y \<noteq> None} = ?K" by auto
    then show ?thesis using Cons None by simp
  next
    case (Some y)
    have eq: "{k y |y. y \<in> set (x # xs) \<and> f y \<noteq> None} = insert (k x) ?K" using Some by auto
    have "Min (insert (k x) ?K) = k x" using fin Cons.prems by (intro Min_eqI) auto
    then show ?thesis unfolding eq using Some assms(2) by (simp add: Let_def)
  qed
qed simp

lemma first_some_reordered:
  assumes "sorted (map k xs)" and "sorted (map k ys)" and "set xs = set ys" and "\<And>x y. f x = Some y \<Longrightarrow> v (k x) = Some y"
  shows "first_some f xs = first_some f ys"
proof -
  have "first_some f xs = (let K = {k x |x. x \<in> set xs \<and> f x \<noteq> None} in if K = {} then None else v (Min K))"
    by (rule first_some_sorted [OF assms(1)]) (rule assms(4))
  moreover have "first_some f ys = (let K = {k x |x. x \<in> set ys \<and> f x \<noteq> None} in if K = {} then None else v (Min K))"
    by (rule first_some_sorted [OF assms(2)]) (rule assms(4))
  ultimately show ?thesis by (simp only: assms(3))
qed

end
