(* ===== verification/LocalizedWidget.thy ===== *)
theory LocalizedWidget
  imports RegisterSucceeds Localization
begin

text \<open>
  What the localization finds for a widget that was registered: its start file, its texts and its files.
\<close>

section \<open>The start file\<close>

lemma stored_locale_file:
  "stored ''WidgetLocalizedStartFile'' 0 (start_locale_cells h k j) =
     [(''app_id'', CInt h), (''start_file_id'', CInt k), (''widget_locale'', CText (c_text (fst j))),
      (''type'', CText (c_text (fst (snd j)))), (''encoding'', CText (c_text (snd (snd j))))]"
  by (simp add: stored_def table_of full_row_def WidgetLocalizedStartFile_table_def sql_table_def column_defs
      start_locale_cells_def split: prod.split)

lemma first_some_map: "first_some f (map g xs) = first_some (\<lambda>x. f (g x)) xs"
  by (induction xs) (auto split: option.split)

lemma first_some_concat: "first_some f (concat xss) = first_some (first_some f) xss"
  by (induction xss) (auto simp: first_some_append split: option.split)

lemma first_some_same: "first_some (\<lambda>x. if P x then v else None) xs = (if \<exists>x \<in> set xs. P x then v else None)"
  by (induction xs) (auto split: option.split)

lemma numbered_after: "(i, x) \<in> set (numbered k xs) \<Longrightarrow> k \<le> i"
  by (induction xs arbitrary: k) fastforce+

lemma numbered_snd: "map snd (numbered k xs) = xs"
  by (induction xs arbitrary: k) simp_all

lemma sorted_children:
  "sorted (concat (map (\<lambda>(k, f). map (\<lambda>_. k) (g f)) (numbered n xs)))"
proof (induction xs arbitrary: n)
  case (Cons x xs)
  have "n \<le> i" if "i \<in> set (concat (map (\<lambda>(k, f). map (\<lambda>_. k) (g f)) (numbered (n + 1) xs)))" for i
    using that numbered_after [of i _ "n + 1" xs] by fastforce
  then show ?case using Cons [of "n + 1"] by (auto simp: sorted_append map_replicate_const)
qed simp

lemma numbered_lookup:
  "(i, x) \<in> set (numbered k xs) \<Longrightarrow> first_some (\<lambda>p. if fst p = i then Some (g (snd p)) else None) (numbered k xs) = Some (g x)"
proof (induction xs arbitrary: k)
  case (Cons y ys)
  then show ?case using numbered_after [of i x "k + 1" ys] by fastforce
qed simp

definition registered_start_file :: "wstr list \<Rightarrow> reg_start_file list \<Rightarrow> wstr option" where
  "registered_start_file tags startFiles =
     first_some (\<lambda>tag. first_some (\<lambda>f.
       if tag \<in> set (map (\<lambda>j. c_text (fst j)) (rs_locales f)) then Some (c_text (rs_path f)) else None) startFiles) tags"

lemma picked_start_file:
  assumes "sorted (map ls_id rows)"
    and "set rows = set (concat (map (\<lambda>(k, f). map (\<lambda>j. \<lparr>ls_id = k, ls_appId = h, ls_locale = c_text (fst j),
        ls_type = c_text (fst (snd j)), ls_encoding = c_text (snd (snd j))\<rparr>) (rs_locales f)) (numbered n fs)))"
  shows "pick_start_file tags rows (map (\<lambda>(k, f). \<lparr>sf_id = k, sf_appId = h, sf_src = c_text (rs_path f)\<rparr>) (numbered n fs)) =
     registered_start_file tags fs"
proof -
  let ?files = "map (\<lambda>(k, f). \<lparr>sf_id = k, sf_appId = h, sf_src = c_text (rs_path f)\<rparr>) (numbered n fs)"
  let ?loc = "\<lambda>k j. \<lparr>ls_id = k, ls_appId = h, ls_locale = c_text (fst j), ls_type = c_text (fst (snd j)),
      ls_encoding = c_text (snd (snd j))\<rparr>"
  let ?rows = "concat (map (\<lambda>(k, f). map (?loc k) (rs_locales f)) (numbered n fs))"
  define v where "v k = first_some (\<lambda>it. if sf_id it = k then Some (sf_src it) else None) ?files" for k
  have v: "v k = Some (c_text (rs_path f))" if "(k, f) \<in> set (numbered n fs)" for k f
    using numbered_lookup [OF that, of "\<lambda>f. c_text (rs_path f)"] by (simp add: v_def first_some_map split_def cong: if_cong)
  have order: "map ls_id ?rows = concat (map (\<lambda>(k, f). map (\<lambda>_. k) (rs_locales f)) (numbered n fs))"
    by (simp add: map_concat o_def split_def)
  have "first_some (\<lambda>r. if tag = ls_locale r then v (ls_id r) else None) rows =
      first_some (\<lambda>f. if tag \<in> set (map (\<lambda>j. c_text (fst j)) (rs_locales f)) then Some (c_text (rs_path f)) else None) fs" for tag
  proof -
    let ?pick = "\<lambda>r. if tag = ls_locale r then v (ls_id r) else None"
    let ?f = "\<lambda>f. if tag \<in> set (map (\<lambda>j. c_text (fst j)) (rs_locales f)) then Some (c_text (rs_path f)) else None"
    have "first_some ?pick rows = first_some ?pick ?rows"
      by (rule first_some_reordered [of ls_id _ _ _ v, OF assms(1) _ assms(2)])
        (simp_all only: order sorted_children, simp split: if_splits)
    also have "\<dots> = first_some (\<lambda>(k, f). first_some (\<lambda>j. if tag = c_text (fst j) then v k else None) (rs_locales f)) (numbered n fs)"
      by (simp add: first_some_concat first_some_map split_def cong: if_cong)
    also have "\<dots> = first_some (\<lambda>p. ?f (snd p)) (numbered n fs)"
      by (rule first_some_cong) (auto simp: first_some_same v image_iff Bex_def split: prod.splits)
    also have "\<dots> = first_some ?f fs"
      using first_some_map [of ?f snd "numbered n fs"] by (simp add: numbered_snd)
    finally show ?thesis .
  qed
  moreover have "pick_start_file tags rows ?files =
      first_some (\<lambda>tag. first_some (\<lambda>r. if tag = ls_locale r then v (ls_id r) else None) rows) tags"
    unfolding pick_start_file_def v_def ..
  ultimately show ?thesis by (simp only: registered_start_file_def)
qed

lemma registered_default:
  assumes "wrt_ready s" and "registerWidget h info sec s = (Inr (), s')"
  shows "getDefaultlocale h s' = (Inr (map_option c_text (cd_defaultlocale (wi_configInfo info))), s')"
    and "getPkgname h s' = (Inr (map_option c_text (wi_pkgname info)), s')"
    and "getGUID h s' = (Inr (map_option c_text (cd_widget_id (wi_configInfo info))), s')"
proof -
  note ready = registered_ready [OF assms]
  note read = info_row_runs [OF ready(1,3)]
  show "getDefaultlocale h s' = (Inr (map_option c_text (cd_defaultlocale (wi_configInfo info))), s')"
    and "getPkgname h s' = (Inr (map_option c_text (wi_pkgname info)), s')"
    and "getGUID h s' = (Inr (map_option c_text (cd_widget_id (wi_configInfo info))), s')"
    by (simp_all add: getDefaultlocale_def getPkgname_def getGUID_def read info_texts)
qed

lemma localized_start_files:
  assumes "wrt_ready s" and "registerWidget h info sec s = (Inr (), s')"
    and "filter (rows_of h) (e_db s ''WidgetLocalizedStartFile'') = []"
  obtains rows where "getLocalizedStartFileList h s' = (Inr rows, s')" and "sorted (map ls_id rows)"
    and "set rows = set (concat (map (\<lambda>(k, f). map (\<lambda>j. \<lparr>ls_id = k, ls_appId = h, ls_locale = c_text (fst j),
        ls_type = c_text (fst (snd j)), ls_encoding = c_text (snd (snd j))\<rparr>) (rs_locales f))
        (numbered (next_id ''WidgetStartFile'' ''start_file_id'' (e_db s, e_seq s)) (wi_startFiles info))))"
proof -
  have ready: "outside_tx s" "fair_scan s" using assms(1) by (simp_all add: wrt_ready_def)
  have ready': "free q s'" "fair_scan s'" for q
    using registered_ready(1) [OF assms(1,2)] by (simp_all add: wrt_ready_def idle_free)
  let ?ns = "numbered (next_id ''WidgetStartFile'' ''start_file_id'' (e_db s, e_seq s)) (wi_startFiles info)"
  let ?row = "\<lambda>k j. stored ''WidgetLocalizedStartFile'' 0 (start_locale_cells h k j)"
  let ?read = "\<lambda>r. \<lparr>ls_id = int_of r ''start_file_id'', ls_appId = int_of r ''app_id'',
          ls_locale = text_of r ''widget_locale'', ls_type = text_of r ''type'', ls_encoding = text_of r ''encoding''\<rparr>"
  have rows: "filter (rows_of h) (e_db s' ''WidgetLocalizedStartFile'') = concat (map (\<lambda>(k, f). map (?row k) (rs_locales f)) ?ns)"
    (is "_ = ?rows")
  proof -
    have "rows_of h (?row k j)" for k j by (simp add: rows_of_def stored_locale_file get_Cons)
    then have "filter (rows_of h) ?rows = ?rows" by (auto simp: filter_id_conv)
    then show ?thesis
      using rows_after [OF ready assms(2), of "''WidgetLocalizedStartFile''"] assms(3) by (simp add: new_rows_def Let_def)
  qed
  have read: "?read (?row k j) = \<lparr>ls_id = k, ls_appId = h, ls_locale = c_text (fst j), ls_type = c_text (fst (snd j)),
      ls_encoding = c_text (snd (snd j))\<rparr>" for k j
    by (simp add: stored_locale_file int_of_def text_of_def cell_int_def get_Cons)
  let ?out = "map ?read (order_by ''start_file_id'' (e_scan s' ?rows))"
  have "mset (e_scan s' ?rows) = mset ?rows" using ready'(2) by (simp add: fair_scan_def)
  then have "set (e_scan s' ?rows) = set ?rows" by (metis set_mset_mset)
  then have out: "set ?out = set (map ?read ?rows)" by (simp add: order_by_def)
  have reads: "map ?read ?rows = concat (map (\<lambda>(k, f). map (\<lambda>j. \<lparr>ls_id = k, ls_appId = h, ls_locale = c_text (fst j),
        ls_type = c_text (fst (snd j)), ls_encoding = c_text (snd (snd j))\<rparr>) (rs_locales f)) ?ns)"
    by (simp add: map_concat o_def split_def read)
  show ?thesis
  proof (rule that [of ?out])
    show "getLocalizedStartFileList h s' = (Inr ?out, s')"
      by (simp add: getLocalizedStartFileList_def sql_handler_run bindP_def ret_def rows_run [OF ready'(1)] holds_of_app rows)
    show "sorted (map ls_id ?out)" by (simp add: o_def order_by_def)
  qed (simp only: out reads)
qed

text \<open>
  C18: after a registration, the start file of the widget is found by the tags of the user agent, then by the
  default locale of the widget: for the first tag that a registered start file lists, the first start file
  that lists it, in the order of the registration, whatever the order the tables are scanned in.
\<close>

theorem localized_start_file:
  assumes "wrt_ready s" and "registerWidget h info sec s = (Inr (), s')"
    and "filter (rows_of h) (e_db s ''WidgetLocalizedStartFile'') = []"
  shows "getStartFile st h s' =
     (Inr (registered_start_file (with_default (GetUserAgentLanguageTags st)
        (map_option c_text (cd_defaultlocale (wi_configInfo info)))) (wi_startFiles info)), s')"
proof -
  obtain rows where rows: "getLocalizedStartFileList h s' = (Inr rows, s')" "sorted (map ls_id rows)"
    "set rows = set (concat (map (\<lambda>(k, f). map (\<lambda>j. \<lparr>ls_id = k, ls_appId = h, ls_locale = c_text (fst j),
        ls_type = c_text (fst (snd j)), ls_encoding = c_text (snd (snd j))\<rparr>) (rs_locales f))
        (numbered (next_id ''WidgetStartFile'' ''start_file_id'' (e_db s, e_seq s)) (wi_startFiles info))))"
    by (rule localized_start_files [OF assms])
  show ?thesis
    by (simp add: getStartFile_def bindP_def ret_def rows(1) start_file_list [OF assms(1,2)] registered_default [OF assms(1,2)]
        picked_start_file [OF rows(2,3)])
qed

theorem localized_start_file_witness:
  "\<exists>s'. registerWidget 8 sample_info no_security one_widget = (Inr (), s') \<and>
     getStartFile \<lparr>m_systemLanguageTags = [W ''en_US''], m_languageTags = [W ''en-US'', W ''en'', []]\<rparr> 8 s' =
       (Inr (Some (W ''index.html'')), s')"
proof -
  obtain s' where run: "registerWidget 8 sample_info no_security one_widget = (Inr (), s')" using sample_registers by blast
  have none: "filter (rows_of 8) (e_db one_widget ''WidgetLocalizedStartFile'') = []" by (simp add: one_widget_empty)
  show ?thesis
    using run localized_start_file [OF one_widget_state(1) run none, of "\<lparr>m_systemLanguageTags = [W ''en_US''], m_languageTags = [W ''en-US'', W ''en'', []]\<rparr>"]
    by (simp add: registered_start_file_def with_default_def GetUserAgentLanguageTags_def sample_info_def new_config_def
        c_text_def W_def)
qed

section \<open>The files\<close>

lemma extended_read:
  assumes "wrt_ready s" and "registerWidget h info sec s = (Inr (), s')"
  shows "isFactory h s' = (Inr (wi_isFactoryWidget info \<noteq> 0), s')"
proof -
  have ready: "free q s'" "fair_scan s'" for q
    using registered_ready(1) [OF assms] by (simp_all add: wrt_ready_def idle_free)
  let ?r = "stored ''WidgetExtendedInfo'' 0 (extended_cells h info)"
  have cells: "get ?r ''app_id'' = CInt h" "get ?r ''factory_widget'' = CInt (wi_isFactoryWidget info)"
    by (simp_all add: stored_def table_of full_row_def WidgetExtendedInfo_table_def sql_table_def column_defs
        extended_cells_def get_Cons)
  have fk: "(''app_id'', ''WidgetInfo'', ''app_id'') \<in> set (ts_fks WidgetExtendedInfo_table)"
    by (simp add: WidgetExtendedInfo_table_def sql_table_def)
  have "filter (rows_of h) (e_db s' ''WidgetExtendedInfo'') = [?r]"
    using child_rows [OF assms table_of(6) fk] by (simp add: new_rows_def simple_rows_def rows_of_def cells Let_def)
  moreover have "e_scan s' [?r] = [?r]" using ready(2) by (simp add: fair_scan_def)
  ultimately show ?thesis
    by (simp add: isFactory_def extended_row_def sql_handler_run bindP_def ret_def rows_run [OF ready(1)] holds_of_app
        opt_bool_def opt_int_of_def cells)
qed

lemma registered_path:
  assumes "wrt_ready s" and "registerWidget h info sec s = (Inr (), s')"
    and "wi_isFactoryWidget info = 0" and "wi_pkgname info = Some pkg"
  shows "getPath h s' = (Inr (W ''/opt/apps/'' @ c_text pkg @ W ''/res/wgt/''), s')"
  using extended_read [OF assms(1,2)] registered_default [OF assms(1,2)] assms(3,4)
  by (simp add: getPath_def bindP_def ret_def deref_def GetUserInstalledWidgetPath_def GetWidgetSrcPath_def W_def)

lemma begins_with_prefix: "begins_with p (p @ str)"
  by (simp add: begins_with_def find_string_def occurs_at_def upt_conv_Cons del: upt_Suc)

text \<open>
  C17: after the registration of a widget that is not a factory widget, a \<open>widget://\<close> address is resolved
  to the first file there is under the widget's directory, in the order of the tags: the path that is returned
  is that of a regular file.
\<close>

theorem widget_url_resolves:
  assumes "wrt_ready s" and "registerWidget h info sec s = (Inr (), s')"
    and "wi_isFactoryWidget info = 0" and "wi_pkgname info = Some pkg"
    and "encodes to enc" and "decodes from enc" and "keeps_ascii enc"
    and "convertible enc (W ''/opt/apps/'' @ c_text pkg @ W ''/res/wgt/'')" and "convertible enc file" and "list_all (convertible enc) tags"
  shows "getFilePathInWidgetPackageFromUrl is_file to from h tags (W ''widget://'' @ file) s' =
     (Inr (locale_file is_file enc tags (W ''/opt/apps/'' @ c_text pkg @ W ''/res/wgt/'') file), s')"
proof -
  let ?base = "W ''/opt/apps/'' @ c_text pkg @ W ''/res/wgt/''"
  note path = registered_path [OF assms(1-4)]
  have url: "strip_url h (W ''widget://'' @ file) s' = (Inr (Some file), s')"
    by (simp add: strip_url_def begins_with_prefix ret_def)
  have base: "?base \<noteq> []" by (simp add: W_def)
  note run = package_file [OF assms(5,6,7) base assms(8,9,10), of is_file]
  have found: "?base @ drop (length ?base) p = p" if some: "locale_file is_file enc tags ?base file = Some p" for p
  proof -
    obtain f tag where "f \<noteq> []" "p = locale_path ?base f tag"
      using locale_file_Some [OF some] by blast
    then show ?thesis using locale_path_split(1) [OF base] by simp
  qed
  have "map_option (\<lambda>f. ?base @ f) (map_option (drop (length ?base)) (locale_file is_file enc tags ?base file)) =
      locale_file is_file enc tags ?base file"
    using found by (cases "locale_file is_file enc tags ?base file") (simp_all del: append_assoc)
  then show ?thesis
    by (simp only: getFilePathInWidgetPackageFromUrl_def bindP_def url path run from_res_def ret_def option.case sum.case prod.case)
qed

definition packaged_info :: register_info where
  "packaged_info = sample_info\<lparr>wi_pkgname := Some (W ''pkg'')\<rparr>"

theorem widget_url_resolves_witness:
  "\<exists>s'. registerWidget 8 packaged_info no_security one_widget = (Inr (), s') \<and>
     getFilePathInWidgetPackageFromUrl (\<lambda>p. p = W ''/opt/apps/pkg/res/wgt/locales/pl/i'')
       (Some (\<lambda>s. Some (concat (map utf8_char s)))) (Some (\<lambda>bs. Some (65279 # utf8_decode bs)))
       8 [W ''pl-PL'', W ''pl'', []] (W ''widget://'' @ W ''i'') s' = (Inr (Some (W ''/opt/apps/pkg/res/wgt/locales/pl/i'')), s')"
proof -
  have "registrable packaged_info no_security"
    by (simp add: registrable_def packaged_info_def sample_info_def new_register_info_def new_config_def no_security_def c_text_def W_def)
  then have "\<exists>s'. registerWidget 8 packaged_info no_security one_widget = (Inr (), s')"
    by (intro registers [OF one_widget_state(1)]) (simp_all add: one_widget_state one_widget_empty one_each_def)
  then obtain s' where run: "registerWidget 8 packaged_info no_security one_widget = (Inr (), s')" by blast
  have info: "wi_isFactoryWidget packaged_info = 0" "wi_pkgname packaged_info = Some (W ''pkg'')"
    by (simp_all add: packaged_info_def sample_info_def new_register_info_def)
  show ?thesis
    using run widget_url_resolves [OF one_widget_state(1) run info utf8_encodes utf8_decodes utf8_keeps_ascii, of "W ''i''"
        "[W ''pl-PL'', W ''pl'', []]" "\<lambda>p. p = W ''/opt/apps/pkg/res/wgt/locales/pl/i''"]
    by (simp add: convertible_def locale_file_def locale_path_def encode_string_def utf8_char_def W_def c_text_def)
qed

section \<open>The texts\<close>

lemma merge_fields:
  "overwrite_if_null (overwrite_if_null a b) c = overwrite_if_null a (overwrite_if_null b c)"
  "first_some f (x # xs) = overwrite_if_null (f x) (first_some f xs)"
  by (auto simp: overwrite_if_null_def split: option.split)

lemma single_scan: "fair_scan s \<Longrightarrow> length rs \<le> 1 \<Longrightarrow> e_scan s rs = rs"
proof -
  assume a: "fair_scan s" "length rs \<le> 1"
  then have "mset (e_scan s rs) = mset rs" by (simp add: fair_scan_def)
  then show ?thesis using a(2) by (cases rs) auto
qed

lemma scope_reads:
  assumes "outside_tx s" and "body (opened s) = (Inr x, opened s)"
  shows "scope (bindP body (\<lambda>x. thenP commit (ret x))) s = (Inr x, closed False (opened s))"
proof -
  have start: "tx_begin s = (Inr (), s\<lparr>e_depth := 1, e_cancel := False, e_saved := Some (e_db s, e_seq s)\<rparr>)"
    using assms(1) by (simp add: tx_begin_def outside_tx_def Let_def)
  show ?thesis
    using assms(2)
    by (simp add: scope_def start bindP_def Let_def commit_def tx_unref_def thenP_def modifyP_def closed_def opened_def ret_def)
qed

lemma getLocalizedInfo_runs:
  assumes "wrt_ready s" and "filter (rows_of h) (e_db s ''WidgetInfo'') = [r]"
    and "filter (\<lambda>r. get r ''widget_locale'' = CText (c_text tag)) (filter (rows_of h) (e_db s ''LocalizedWidgetInfo'')) = rs" and "length rs \<le> 1"
  shows "\<exists>s'. getLocalizedInfo h tag s = (Inr (read_localized (first_row rs)), s') \<and>
     wrt_ready s' \<and> e_db s' = e_db s"
proof -
  have s: "outside_tx s" "idle s" "fair_scan s" "integrity wrt_schema s" using assms(1) by (simp_all add: wrt_ready_def)
  let ?wh = "And (of_app ''LocalizedWidgetInfo'' h) (Equals ''LocalizedWidgetInfo'' ''widget_locale'' (CText tag))"
  define body where "body = thenP (check_widget_existence h) (bindP (get_single_row ''getLocalizedInfo'' ''LocalizedWidgetInfo'' ?wh)
     (\<lambda>info. ret (read_localized info)))"
  have form: "thenP (check_widget_existence h) (bindP (get_single_row ''getLocalizedInfo'' ''LocalizedWidgetInfo'' ?wh)
      (\<lambda>info. thenP commit (ret (read_localized info)))) = bindP body (\<lambda>x. thenP commit (ret x))"
    by (rule ext) (simp add: body_def prog_simps split: prod.split sum.split)
  have free: "free q (opened s)" for q using s(2) by (simp add: idle_free)
  have wh: "holds ?wh = (\<lambda>r. rows_of h r \<and> get r ''widget_locale'' = CText (c_text tag))"
    by (rule ext) (auto simp: of_app_def And_def Equals_def rows_of_def)
  have rows: "filter (holds ?wh) (e_db s ''LocalizedWidgetInfo'') = rs" unfolding wh using assms(3) by (simp add: conj_commute)
  have "isWidgetInstalled h (opened s) = (Inr True, opened s)"
    using single_scan [OF s(3), of "[r]"] by (simp add: isWidgetInstalled_def sql_handler_run bindP_def rows_run [OF free] holds_info_of assms(2) ret_def)
  then have run: "body (opened s) = (Inr (read_localized (first_row rs)), opened s)"
    using single_scan [OF s(3) assms(4)]
    by (simp add: body_def check_widget_existence_def thenP_def bindP_def ret_def single_runs [OF free] rows)
  note scope_reads [where body = body, OF s(1) run]
  moreover have "wrt_ready (closed False (opened s))" using s by (simp add: wrt_ready_def integrity_closed integrity_opened fair_scan_def)
  ultimately show ?thesis
    by (simp add: getLocalizedInfo_def form sql_handler_run)
qed

definition tagged :: "wstr \<Rightarrow> (localized_data \<Rightarrow> wstr option) \<Rightarrow> (wstr \<times> localized_data) list \<Rightarrow> wstr option" where
  "tagged tag field ds = first_some (\<lambda>d. if c_text (fst d) = c_text tag then map_option c_text (field (snd d)) else None) ds"

definition tagged_info :: "(wstr \<times> localized_data) list \<Rightarrow> wstr \<Rightarrow> localized_info" where
  "tagged_info ds tag = \<lparr>lo_name = tagged tag ld_name ds, lo_shortName = tagged tag ld_shortName ds,
     lo_description = tagged tag ld_description ds, lo_license = tagged tag ld_license ds,
     lo_licenseHref = tagged tag ld_licenseHref ds\<rparr>"

lemma stored_texts:
  "stored ''LocalizedWidgetInfo'' 0 (localized_cells h d) = [(''app_id'', CInt h), (''widget_locale'', CText (c_text (fst d))),
     (''widget_name'', bound (opt_text (ld_name (snd d)))), (''widget_shortname'', bound (opt_text (ld_shortName (snd d)))),
     (''widget_description'', bound (opt_text (ld_description (snd d)))), (''widget_license'', bound (opt_text (ld_license (snd d)))),
     (''widget_license_file'', bound (opt_text (ld_licenseFile (snd d)))), (''widget_license_href'', bound (opt_text (ld_licenseHref (snd d))))]"
  by (simp add: stored_def table_of full_row_def LocalizedWidgetInfo_table_def sql_table_def column_defs
      localized_cells_def split: prod.split)

lemma read_stored:
  "read_localized (stored ''LocalizedWidgetInfo'' 0 (localized_cells h d)) =
     \<lparr>lo_name = map_option c_text (ld_name (snd d)), lo_shortName = map_option c_text (ld_shortName (snd d)),
      lo_description = map_option c_text (ld_description (snd d)), lo_license = map_option c_text (ld_license (snd d)),
      lo_licenseHref = map_option c_text (ld_licenseHref (snd d))\<rparr>"
  by (simp add: read_localized_def stored_texts get_Cons opt_text_of_def opt_text_def split: option.split)

lemma read_no_row: "read_localized [] = null_info"
  by (simp add: read_localized_def null_info_def opt_text_of_def get_def)

lemma registered_texts:
  assumes "wrt_ready s" and "registerWidget h info sec s = (Inr (), s')"
  defines "ds \<equiv> cd_localizedDataSet (wi_configInfo info)"
  obtains rs where
    "filter (\<lambda>r. get r ''widget_locale'' = CText (c_text tag)) (filter (rows_of h) (e_db s' ''LocalizedWidgetInfo'')) = rs"
    and "length rs \<le> 1" and "read_localized (first_row rs) = tagged_info ds tag"
proof -
  let ?row = "\<lambda>d. stored ''LocalizedWidgetInfo'' 0 (localized_cells h d)"
  have new: "new_rows h info sec (e_db s, e_seq s) ''LocalizedWidgetInfo'' = map ?row ds"
    by (simp add: new_rows_def simple_rows_def ds_def o_def Let_def)
  have rows: "filter (rows_of h) (e_db s' ''LocalizedWidgetInfo'') = map ?row ds"
    using child_rows [OF assms(1,2) table_of(5) fks_app(3)]
    by (simp add: new list_all_iff rows_of_def stored_locale)
  have "keyed LocalizedWidgetInfo_table (map ?row ds)"
    using registered_keyed(1) [OF assms(1,2) table_of(5)] by (simp add: new)
  then have key: "sorted_wrt (\<lambda>d d'. c_text (fst d) \<noteq> c_text (fst d')) ds"
    by (simp add: keyed_def LocalizedWidgetInfo_table_def sql_table_def sorted_wrt_map same_key_def stored_texts get_Cons)
  let ?hits = "filter (\<lambda>d. c_text (fst d) = c_text tag) ds"
  have few: "length (filter (\<lambda>d. c_text (fst d) = c_text tag) ds) \<le> 1" if "sorted_wrt (\<lambda>d d'. c_text (fst d) \<noteq> c_text (fst d')) ds"
    for ds :: "(wstr \<times> localized_data) list"
    using that by (induction ds) (auto simp: filter_empty_conv)
  have first: "first_some (\<lambda>d. if P d then f d else None) ds = (case filter P ds of [] \<Rightarrow> None | d # _ \<Rightarrow> f d)"
    if "length (filter P ds) \<le> 1" for P and f :: "wstr \<times> localized_data \<Rightarrow> wstr option" and ds
    using that by (induction ds) (auto simp: first_some_None filter_empty_conv split: option.splits list.splits)
  show ?thesis
  proof (rule that [of "map ?row ?hits"])
    show "filter (\<lambda>r. get r ''widget_locale'' = CText (c_text tag)) (filter (rows_of h) (e_db s' ''LocalizedWidgetInfo'')) = map ?row ?hits"
      by (simp add: rows filter_map o_def stored_locale)
    show "length (map ?row ?hits) \<le> 1" using few [OF key] by simp
    show "read_localized (first_row (map ?row ?hits)) = tagged_info ds tag"
      using first [OF few [OF key]]
      by (cases ?hits) (simp_all add: first_row_def read_no_row null_info_def read_stored tagged_info_def tagged_def)
  qed
qed

text \<open>Each field: the value of the first tag whose record has one.\<close>

definition first_texts :: "(wstr \<times> localized_data) list \<Rightarrow> wstr list \<Rightarrow> localized_info" where
  "first_texts ds tags =
     \<lparr>lo_name = first_some (\<lambda>tag. tagged tag ld_name ds) tags, lo_shortName = first_some (\<lambda>tag. tagged tag ld_shortName ds) tags,
      lo_description = first_some (\<lambda>tag. tagged tag ld_description ds) tags,
      lo_license = first_some (\<lambda>tag. tagged tag ld_license ds) tags,
      lo_licenseHref = first_some (\<lambda>tag. tagged tag ld_licenseHref ds) tags\<rparr>"

lemma merge_first: "merge_info (merge_info acc (tagged_info ds tag)) (first_texts ds tags) = merge_info acc (first_texts ds (tag # tags))"
  by (simp add: merge_info_def tagged_info_def first_texts_def merge_fields del: first_some.simps)

lemma merge_null: "merge_info acc (first_texts ds []) = acc" "merge_info null_info x = x"
  by (simp_all add: merge_info_def first_texts_def null_info_def overwrite_if_null_def)

lemma merge_languages_runs:
  assumes "wrt_ready s" and "registerWidget h info sec s = (Inr (), s')" and "wrt_ready t" and "e_db t = e_db s'"
  shows "fst (merge_languages h tags acc t) = Inr (merge_info acc (first_texts (cd_localizedDataSet (wi_configInfo info)) tags))"
  using assms(3,4)
proof (induction tags arbitrary: acc t)
  case (Cons tag tags)
  let ?ds = "cd_localizedDataSet (wi_configInfo info)"
  obtain rs where rs: "filter (\<lambda>r. get r ''widget_locale'' = CText (c_text tag)) (filter (rows_of h) (e_db s' ''LocalizedWidgetInfo'')) = rs"
    "length rs \<le> 1" "read_localized (first_row rs) = tagged_info ?ds tag"
    by (rule registered_texts [OF assms(1,2)])
  obtain u where u: "getLocalizedInfo h tag t = (Inr (tagged_info ?ds tag), u)" "wrt_ready u" "e_db u = e_db t"
    using getLocalizedInfo_runs [OF Cons.prems(1), of h _ tag rs] registered_ready(3) [OF assms(1,2)] rs Cons.prems(2) by auto
  show ?case
    using Cons.IH [OF u(2), of "merge_info acc (tagged_info ?ds tag)"] u(3) Cons.prems(2)
    by (simp add: bindP_def u(1) merge_first)
qed (simp add: ret_def merge_null)

text \<open>
  C19: after a registration, each of the texts of the widget is that of the first tag whose record has it, of
  the tags of the user agent and then the default locale of the widget: a text that one language lacks is
  taken from the next, the others are not.
\<close>

theorem localized_texts:
  assumes "wrt_ready s" and "registerWidget h info sec s = (Inr (), s')"
  shows "fst (getWidgetLocalizedInfo st h s') =
     Inr (first_texts (cd_localizedDataSet (wi_configInfo info))
        (with_default (GetUserAgentLanguageTags st) (map_option c_text (cd_defaultlocale (wi_configInfo info)))))"
  using merge_languages_runs [OF assms registered_ready(1) [OF assms] refl]
  by (simp add: getWidgetLocalizedInfo_def bindP_def registered_default [OF assms] merge_null)

definition two_languages :: "(wstr \<times> localized_data) list" where
  "two_languages =
     [(W ''pl'', \<lparr>ld_name = Some (W ''zegar''), ld_shortName = None, ld_description = None, ld_license = None,
        ld_licenseFile = None, ld_licenseHref = None\<rparr>),
      ([], \<lparr>ld_name = Some (W ''clock''), ld_shortName = None, ld_description = Some (W ''ticks''), ld_license = None,
        ld_licenseFile = None, ld_licenseHref = None\<rparr>)]"

definition translated_info :: register_info where
  "translated_info = (new_register_info 0)\<lparr>wi_configInfo := new_config\<lparr>cd_localizedDataSet := two_languages\<rparr>\<rparr>"

lemma translated_registrable: "registrable translated_info no_security"
  by (simp add: registrable_def translated_info_def two_languages_def new_register_info_def new_config_def no_security_def
      c_text_def W_def)

lemma translated_fields:
  "cd_localizedDataSet (wi_configInfo translated_info) = two_languages"
  "cd_defaultlocale (wi_configInfo translated_info) = None"
  by (simp_all add: translated_info_def new_config_def)

lemma two_languages_texts:
  "first_texts two_languages [W ''pl'', W ''en'', []] =
     \<lparr>lo_name = Some (W ''zegar''), lo_shortName = None, lo_description = Some (W ''ticks''), lo_license = None, lo_licenseHref = None\<rparr>"
  by (simp add: first_texts_def tagged_def two_languages_def c_text_def W_def)

theorem localized_texts_witness:
  "\<exists>s'. registerWidget 8 translated_info no_security one_widget = (Inr (), s') \<and>
     fst (getWidgetLocalizedInfo \<lparr>m_systemLanguageTags = [W ''pl''], m_languageTags = [W ''pl'', W ''en'', []]\<rparr> 8 s') =
       Inr \<lparr>lo_name = Some (W ''zegar''), lo_shortName = None, lo_description = Some (W ''ticks''), lo_license = None, lo_licenseHref = None\<rparr>"
proof -
  have "\<exists>s'. registerWidget 8 translated_info no_security one_widget = (Inr (), s')"
    by (rule registers [OF one_widget_state(1) _ _ translated_registrable]) (simp_all add: one_widget_state one_widget_empty one_each_def)
  then obtain s' where run: "registerWidget 8 translated_info no_security one_widget = (Inr (), s')" by blast
  show ?thesis
    using run localized_texts [OF one_widget_state(1) run, of "\<lparr>m_systemLanguageTags = [W ''pl''], m_languageTags = [W ''pl'', W ''en'', []]\<rparr>"]
    by (auto simp: translated_fields with_default_def GetUserAgentLanguageTags_def two_languages_texts)
qed

end
