(* ===== verification/Spec2Isabelle.thy ===== *)
theory Spec2Isabelle
  imports RPCConnectors RPCConnection WidgetVersion WarpIRI UnixSocket Property ThreadLoop TaskList
    ThreadDatabase UnregisterWidget GlobalDAO AutoSaveDAO LocalizedWidget
begin

text \<open>
  Verification of wrt-commons, the DPL library of the Tizen web runtime.

  The program.  DPL is a C++ library: containers and byte queues (modules/core), events between
  threads (modules/event), non-blocking sockets and input-output over them (modules/socket), remote
  procedure calls on top (modules/rpc), SQLite connections and an object-relational layer (modules/db),
  and for the web runtime its utilities (modules/utils), the database of the installed widgets
  (modules/widget_dao), the saved forms (modules/auto_save_dao) and the choice of localized files
  (modules/localization).  A thread
  waits on the handles of its watch registry; a handle that is ready calls its listener, a socket
  or an input-output support; the support moves bytes between the device and two byte queues; the
  RPC connection frames calls in those queues; emitted events go through an event support to the
  listeners of any thread.  The data access objects build their statements with the object-relational
  layer and run them on the connection their thread is attached to; the localization reads through them.

  The theories, from the bottom:
  \<^item> \<open>Prelude\<close>: exceptions (\<open>exn\<close>, one constructor per exception type), results, programs that
    thread a state and may throw (\<open>prog\<close>), the \<open>keeps\<close> rules for invariants, little-endian byte
    images.
  \<^item> \<open>StdMap\<close>: \<open>std::map\<close> as a sorted association list, with the interface \<open>ordered_map\<close>.
  \<^item> \<open>StreamInterfaces\<close>: the contracts of input-output streams (\<open>IStream\<close>) and waitable devices.
  \<^item> \<open>BinaryQueue\<close> (core/src/binary_queue.cpp): buckets with read pointers; any program of queue
    operations refines the same program on byte lists.
  \<^item> \<open>Serialization\<close> (core/include/dpl/serialization.h), \<open>RPCFunction\<close>
    (rpc/include/dpl/rpc/rpc_function.h): values and arguments as bytes, round trips and errors.
  \<^item> \<open>WaitableHandles\<close> (core/src/waitable_handle.cpp, waitable_handle_watch_support.cpp): waiting
    with \<open>select\<close> and the watch registry, which is a set of watches to its clients.
  \<^item> \<open>ThreadLoop\<close> (core/src/thread.cpp): the event list, the timed events, the loop over the handles
    and the life of a thread, with dispatch procedures that are any sequence of the thread's calls.
  \<^item> \<open>TaskList\<close> (core/include/dpl/task.h, core/src/task_list.cpp): tasks of steps, their order,
    switches, and what an abort rolls back.
  \<^item> \<open>SqlConnection\<close> (db/src/sql_connection.cpp) and \<open>ThreadDatabase\<close>
    (db/include/dpl/db/thread_database_support.h): calls to a database that may be busy, typed
    parameters and columns, the connection of a thread and its nested transactions.
  \<^item> \<open>GenericSocket\<close> (socket/include/dpl/socket/generic_socket.h), \<open>UnixSocket\<close>
    (socket/src/unix_socket.cpp, core/src/address.cpp): the socket's state machine, its watches and
    its error tables; Unix addresses.
  \<^item> \<open>IOContext\<close> (socket/src/waitable_input_output_execution_context_support.cpp) and
    \<open>SocketDevice\<close>: input and output over any device that keeps the contract, and the socket as
    such a device over a kernel with two byte streams.
  \<^item> \<open>RPCConnection\<close> (rpc/src/generic_rpc_connection.cpp): framing, calls, pings, the read handler;
    end to end, calls arrive in order and byte for byte.
  \<^item> \<open>RPCConnectors\<close> (rpc/include/dpl/rpc/generic_socket_rpc_server.h and \<open>_client.h\<close>): the
    sockets a server or client owns, in a heap, and the events that turn them into connections.
  \<^item> \<open>EventSupport\<close> (event/include/dpl/event/event_support.h, generic_event_call.h,
    event/src/main_event_dispatcher.cpp, thread_event_dispatcher.cpp): listeners and delegates, the
    emission modes, queued calls, destruction, and the lock order of its two mutexes.
  \<^item> \<open>Property\<close> (event/include/dpl/event/property.h): storage methods and change events.
  \<^item> \<open>StringTools\<close> (core/include/dpl/string.h, core/src/string.cpp), \<open>WidgetVersion\<close>
    (utils/src/widget_version.cpp), \<open>WarpIRI\<close> (utils/src/warp_iri.cpp): tokens, version strings and
    their order, access definitions.

  \<^item> \<open>Conversions\<close> (core/src/string.cpp): UTF-8 and wide strings, the buffers and their ends.

  The database of the web runtime, from the bottom:
  \<^item> \<open>SqlTables\<close>: tables of rows with the constraints of SQLite the schema uses (not null, checks, unique
    keys, references that cascade, automatic ids), \<open>integrity\<close> as their invariant.
  \<^item> \<open>Orm\<close> (db/include/dpl/db/orm.h, orm_generator.h, db/src/orm.cpp): expressions and statement texts,
    the number and order of the placeholders, queries kept for a thread that are not reset after an
    exception, and scoped transactions; the locales \<open>statements\<close> and \<open>transactional\<close>.
  \<^item> \<open>WrtSchema\<close> (widget_dao/orm/wrt_db, iana_db): every table, and the initial rows.
  \<^item> \<open>ConfigData\<close> (widget_dao/dao/config_parser_data.cpp, config_parser_data.h): the parsed configuration, its
    orders (locale \<open>strict_order\<close>) and the normalisation of texts.
  \<^item> \<open>PropertyDAO\<close> (widget_dao/dao/property_dao.cpp and _read_only): the preferences of a widget, a map.
  \<^item> \<open>PluginFeatureDAO\<close> (plugin_dao.cpp, feature_dao.cpp and their headers): plugin libraries and features.
  \<^item> \<open>WidgetDAO\<close> (widget_dao_read_only.cpp, path_builder.cpp, widget_config.h): every reader and the paths.
  \<^item> \<open>WidgetRegister\<close> (widget_dao.cpp): the steps of a registration, all or nothing; unregistering and the
    other changes; the registration as a function on tables (\<open>spec_register\<close>).
  \<^item> \<open>RegisteredWidget\<close>: what the tables hold after a registration and what the readers return.
  \<^item> \<open>RegisterSucceeds\<close>: when a registration succeeds.  \<open>UnregisterWidget\<close>: what unregistering takes away, and
    that it undoes a registration.
  \<^item> \<open>GlobalDAO\<close> (global_dao.cpp, global_dao_read_only.cpp): the settings, a record, and the white list, a map.
  \<^item> \<open>AutoSaveDAO\<close> (auto_save_dao/dao): the forms of an address, replaced as one.
  \<^item> \<open>Localization\<close> (localization/src/localization_utils.cpp, w3c_file_localization.cpp): the language tags and
    the search of localized files; \<open>LocalizedWidget\<close>: what it finds for a registered widget.

  State and effects.  The members of a class are a record; a member function is a program over the
  record that returns the state it leaves also when it throws.  What the kernel, ICU, libidn or a
  derived class answers is an argument.  Of SQLite the model has what its documentation says of the
  statements used: the order of the rows of a query is an argument (\<open>e_scan\<close>), and so is which of the next
  queries fail for a reason outside (\<open>e_io\<close>).  \<open>iconv\<close> and \<open>stat\<close> are arguments.  Interfaces between
  components are locales (\<open>ordered_map\<close>, \<open>stream\<close>, \<open>waitable_io\<close>, \<open>watch_registry\<close>, \<open>cell\<close>,
  \<open>statements\<close>, \<open>transactional\<close>, \<open>strict_order\<close>), each interpreted on the code's model.

  Loops and bounds.  A loop that ends is a total function: structural recursion, or a measure (bytes left
  in the queue, characters left in the string, sockets still tracked).  The two loops of the localization
  that may not end are partial functions, \<open>None\<close> where they do not.  No fuel is used.
  Integers whose width matters are reduced where the code reduces them: sizes in the RPC header
  modulo \<open>2 ^ 16\<close>, serialized lengths as 4 bytes, paths of Unix sockets at 107 bytes.

  Concurrency.  An operation that the code runs under a mutex is one step.  The event support is a
  step relation over the operations of any thread and the dispatches of every thread; where the
  grain matters (the support's destruction) the lock operations are the steps.

  Not modelled: vendored code, logging, D-Bus, popups, encryption and the test runner, which are
  output or glue; smart pointers and type lists; allocation failure except where the code handles
  it.  Also not modelled: the ECORE main loop, the wrappers of locks and semaphores, file and pipe
  input-output and the zip reader (calls of the operating system and of minizip), ICU conversions and
  comparisons, controllers and delegates between contexts.  Of the object-relational layer, the rows of a
  custom join are those of the one join the code makes.
\<close>

end
